(* ===== verification/Prelude.thy ===== *)
theory Prelude
  imports Main "HOL-Library.Word" "HOL-Library.List_Lexorder"
begin

text \<open>
  Shared vocabulary of the development: the machine integer types of the Rust sources, the
  \<open>Result\<close> type of the system call crate, panics, blocking calls, and the list and word lemmas
  that several components use. All crates are built with \<open>--release\<close> (see the Makefile), so
  unsigned arithmetic wraps around; it is therefore carried out on fixed-width words.
\<close>

unbundle bit_operations_syntax

named_theorems result_simps \<open>equations that evaluate the result and outcome combinators\<close>
named_theorems inv_intros \<open>an operation keeps the invariant of its component\<close>

section \<open>Machine types\<close>

type_synonym u8 = "8 word"
type_synonym u16 = "16 word"
type_synonym u32 = "32 word"
type_synonym u64 = "64 word"
type_synonym i32 = "32 word"
type_synonym usize = "64 word"
type_synonym bytes = "8 word list"

text \<open>\<open>b"..."\<close> literals.\<close>

definition bytes_of :: "string \<Rightarrow> bytes" where
  "bytes_of s = map of_char s"

text \<open>\<open>flags & mask == mask\<close>, the flag test of the sources.\<close>

definition has_flag :: "'a::len word \<Rightarrow> 'a word \<Rightarrow> bool" where
  "has_flag flags m \<longleftrightarrow> flags AND m = m"

section \<open>Results, panics and blocking\<close>

text \<open>\<open>syscall::error::Error\<close> holds an \<open>i32\<close> error number.\<close>

datatype error = Error (errno: i32)

datatype 'a result = Ok 'a | Err error

text \<open>A call that may hit an \<open>assert!\<close>, an \<open>unwrap\<close> on \<open>None\<close> or an out-of-range slice.\<close>

datatype 'a outcome = Return 'a | Panic

text \<open>
  One turn of a loop that waits on a condition: it returns, its caller has been put to sleep and
  another context is switched to, or it panics.
\<close>

datatype 'a attempt = Returned 'a | Waits | Crashes

fun bind_result :: "'a result \<Rightarrow> ('a \<Rightarrow> 'b result) \<Rightarrow> 'b result" where
  "bind_result (Ok a) f = f a"
| "bind_result (Err e) f = Err e"

fun ok_or :: "'a option \<Rightarrow> i32 \<Rightarrow> 'a result" where
  "ok_or None e = Err (Error e)"
| "ok_or (Some a) e = Ok a"

fun is_ok :: "'a result \<Rightarrow> bool" where
  "is_ok (Ok a) = True"
| "is_ok (Err e) = False"

fun bind_outcome :: "'a outcome \<Rightarrow> ('a \<Rightarrow> 'b outcome) \<Rightarrow> 'b outcome" where
  "bind_outcome (Return a) f = f a"
| "bind_outcome Panic f = Panic"

lemmas [result_simps] = bind_result.simps ok_or.simps is_ok.simps bind_outcome.simps

lemma bind_result_Ok_iff [result_simps]:
  "bind_result r f = Ok b \<longleftrightarrow> (\<exists>a. r = Ok a \<and> f a = Ok b)"
  by (cases r) auto

lemma ok_or_Ok_iff [result_simps]: "ok_or x e = Ok a \<longleftrightarrow> x = Some a"
  by (cases x) auto

lemma bind_outcome_Return_iff [result_simps]:
  "bind_outcome r f = Return b \<longleftrightarrow> (\<exists>a. r = Return a \<and> f a = Return b)"
  by (cases r) auto

section \<open>Copying into a caller's buffer\<close>

text \<open>
  \<open>while i < buf.len() && i < src.len() { buf[i] = src[i]; i += 1; }\<close>, the copy loop that most
  schemes use: the new contents of the buffer and the number of bytes copied.
\<close>

fun copy_into :: "'a list \<Rightarrow> 'a list \<Rightarrow> 'a list \<times> nat" where
  "copy_into [] src = ([], 0)"
| "copy_into (b # bs) [] = (b # bs, 0)"
| "copy_into (b # bs) (s # src) = (let (r, n) = copy_into bs src in (s # r, Suc n))"

lemma copy_into_eq:
  "copy_into buf src =
     (take (length buf) src @ drop (length src) buf, min (length buf) (length src))"
  by (induction buf src rule: copy_into.induct) (auto simp: min_def)

lemma length_copy_into [simp]: "length (fst (copy_into buf src)) = length buf"
  by (simp add: copy_into_eq)

lemma take_copy_into:
  "copy_into buf src = (buf', n) \<Longrightarrow> take n buf' = take n src"
  by (auto simp: copy_into_eq min_def)

section \<open>Positions in byte strings\<close>

text \<open>\<open>slice.iter().position(p)\<close> and \<open>slice.iter().rposition(p)\<close>.\<close>

fun position :: "('a \<Rightarrow> bool) \<Rightarrow> 'a list \<Rightarrow> nat option" where
  "position p [] = None"
| "position p (x # xs) = (if p x then Some 0 else map_option Suc (position p xs))"

fun rposition :: "('a \<Rightarrow> bool) \<Rightarrow> 'a list \<Rightarrow> nat option" where
  "rposition p [] = None"
| "rposition p (x # xs) =
     (case rposition p xs of Some i \<Rightarrow> Some (Suc i) | None \<Rightarrow> (if p x then Some 0 else None))"

lemma position_None_iff: "position p xs = None \<longleftrightarrow> (\<forall>x\<in>set xs. \<not> p x)"
  by (induction xs) auto

lemma position_Some:
  "position p xs = Some i \<Longrightarrow> i < length xs \<and> p (xs ! i) \<and> (\<forall>x\<in>set (take i xs). \<not> p x)"
  by (induction xs arbitrary: i) (auto split: if_splits)

lemma rposition_None_iff: "rposition p xs = None \<longleftrightarrow> (\<forall>x\<in>set xs. \<not> p x)"
  by (induction xs) (auto split: option.splits)

lemma rposition_Some:
  "rposition p xs = Some i \<Longrightarrow> i < length xs \<and> p (xs ! i) \<and> (\<forall>x\<in>set (drop (Suc i) xs). \<not> p x)"
  by (induction xs arbitrary: i) (auto simp: rposition_None_iff split: option.splits if_splits)

section \<open>Words as indices\<close>

lemma unat_of_nat_small [simp]:
  "n < 2 ^ 64 \<Longrightarrow> unat (of_nat n :: usize) = n"
  by (simp add: unat_of_nat)

lemma unat_add_usize: "unat n + unat k < 2 ^ 64 \<Longrightarrow> unat (n + k :: usize) = unat n + unat k"
  by (simp add: unat_word_ariths)

lemma unat_eq_unat_iff [simp]: "unat v = unat w \<longleftrightarrow> v = (w :: 'a::len word)"
  by (simp add: word_unat_eq_iff)

lemma unat_usize_max: "unat (- 1 :: usize) = 2 ^ 64 - 1"
  by (simp add: unsigned_minus_1_eq_mask mask_eq_exp_minus_1)

lemma word_less_succ: "n < - 1 \<Longrightarrow> n < n + (1 :: usize)"
proof -
  assume "n < - 1"
  then have "unat n < 2 ^ 64 - 1"
    unfolding word_less_nat_alt by (simp add: unat_usize_max)
  then have "unat (n + 1) = unat n + 1"
    by (simp add: unat_word_ariths)
  then show ?thesis
    by (simp add: word_less_nat_alt)
qed

text \<open>Two's complement reading of 32 and 64 bit words.\<close>

lemma sint_shift: "sint (w :: 'a::len word) = (uint w + 2 ^ (LENGTH('a) - 1)) mod 2 ^ LENGTH('a) - 2 ^ (LENGTH('a) - 1)"
  by (simp add: sint_uint signed_take_bit_eq_take_bit_shift take_bit_eq_mod)

lemma sint_i32: "sint (w :: i32) = (if uint w < 2 ^ 31 then uint w else uint w - 2 ^ 32)"
  using uint_lt2p [of w] uint_ge_0 [of w] by (auto simp: sint_shift mod_pos_geq)

lemma sint_i64: "sint (w :: usize) = (if uint w < 2 ^ 63 then uint w else uint w - 2 ^ 64)"
  using uint_lt2p [of w] uint_ge_0 [of w] by (auto simp: sint_shift mod_pos_geq)

lemma uint_minus_i32: "uint (- (w :: i32)) = (if w = 0 then 0 else 2 ^ 32 - uint w)"
  using uint_lt2p [of w] uint_ge_0 [of w]
  by (auto simp: uint_word_ariths zmod_zminus1_eq_if uint_0_iff)

lemma has_flag_self_or [simp]: "has_flag (a OR m) m" "has_flag (m OR a) m" "has_flag m m"
  by (auto simp: has_flag_def bit_eq_iff bit_simps)

lemma has_flag_zero [simp]: "has_flag 0 m \<longleftrightarrow> m = 0"
  by (auto simp: has_flag_def)

end
