(* ===== verification/Frames.thy ===== *)
theory Frames
  imports Prelude
begin

text \<open>
  The physical frame allocator (\<open>arch/x86_64/src/memory\<close>): the memory map the bootloader left, its iterator,
  frames and ranges of frames, \<open>AreaFrameAllocator\<close> and the functions on the global allocator. Single frames
  are handed out in increasing order, exactly the frames of the free areas outside the kernel; ranges stay
  within one area and above everything handed out before, but may enclose the kernel, and a range that does
  not fit in the rest of the current area makes the allocator loop forever.
\<close>

section \<open>Frames\<close>

definition PAGE_SIZE :: usize where
  "PAGE_SIZE = 4096"

text \<open>A \<open>Frame\<close> is ordered by its number, as the derived \<open>PartialOrd\<close> and \<open>Ord\<close> say.\<close>

datatype frame = Frame (frame_number: usize)

instantiation frame :: linorder
begin

definition less_eq_frame :: "frame \<Rightarrow> frame \<Rightarrow> bool" where
  "f \<le> g \<longleftrightarrow> frame_number f \<le> frame_number g"

definition less_frame :: "frame \<Rightarrow> frame \<Rightarrow> bool" where
  "f < g \<longleftrightarrow> frame_number f < frame_number g"

instance
  by standard (auto simp: less_eq_frame_def less_frame_def frame.expand)

end

definition start_address :: "frame \<Rightarrow> usize" where
  "start_address f = frame_number f * PAGE_SIZE"

definition containing_address :: "usize \<Rightarrow> frame" where
  "containing_address address = Frame (address div PAGE_SIZE)"

record frame_iter =
  range_start :: frame
  range_end :: frame

definition range_inclusive :: "frame \<Rightarrow> frame \<Rightarrow> frame_iter" where
  "range_inclusive s e = \<lparr>range_start = s, range_end = e\<rparr>"

definition frame_next :: "frame_iter \<Rightarrow> frame option \<times> frame_iter" where
  "frame_next it =
    (if range_start it \<le> range_end it
     then (Some (range_start it), it\<lparr>range_start := Frame (frame_number (range_start it) + 1)\<rparr>)
     else (None, it))"

section \<open>The memory map\<close>

definition MEMORY_AREA_NULL :: u32 where
  "MEMORY_AREA_NULL = 0"

definition MEMORY_AREA_FREE :: u32 where
  "MEMORY_AREA_FREE = 1"

record memory_area =
  base_addr :: u64
  area_length :: u64
  area_type :: u32
  acpi :: u32

text \<open>
  \<open>MEMORY_MAP\<close> is an array of 512 entries; the index of the iterator never passes its length, so it is a
  natural number.
\<close>

type_synonym memory_map = "memory_area list"

record area_iter =
  iter_type :: u32
  iter_i :: nat

definition area_iter_new :: "u32 \<Rightarrow> area_iter" where
  "area_iter_new ty = \<lparr>iter_type = ty, iter_i = 0\<rparr>"

function area_next :: "memory_map \<Rightarrow> area_iter \<Rightarrow> memory_area option \<times> area_iter" where
  "area_next mm it =
    (if iter_i it < length mm
     then let entry = mm ! iter_i it; it = it\<lparr>iter_i := iter_i it + 1\<rparr> in
          if area_type entry = iter_type it then (Some entry, it) else area_next mm it
     else (None, it))"
  by pat_completeness auto

termination
  by (relation "measure (\<lambda>(mm, it). length mm - iter_i it)") auto

declare area_next.simps [simp del]

lemma area_next_progress:
  "area_next mm it = (Some e, it') \<Longrightarrow> iter_i it < iter_i it' \<and> iter_i it' \<le> length mm"
proof (induction mm it rule: area_next.induct)
  case (1 mm it)
  have "area_next mm it =
      (if iter_i it < length mm
       then if area_type (mm ! iter_i it) = iter_type it
            then (Some (mm ! iter_i it), it\<lparr>iter_i := iter_i it + 1\<rparr>)
            else area_next mm (it\<lparr>iter_i := iter_i it + 1\<rparr>)
       else (None, it))"
    by (subst area_next.simps) (simp add: Let_def)
  then show ?case
    using 1 by (fastforce split: if_splits)
qed

text \<open>The areas a \<open>for\<close> loop or an adaptor sees: \<open>next\<close> until it returns \<open>None\<close>.\<close>

function area_list :: "memory_map \<Rightarrow> area_iter \<Rightarrow> memory_area list" where
  "area_list mm it =
    (case area_next mm it of
       (Some e, it') \<Rightarrow> e # area_list mm it'
     | (None, _) \<Rightarrow> [])"
  by pat_completeness auto

termination
  by (relation "measure (\<lambda>(mm, it). length mm - iter_i it)") (auto dest!: area_next_progress[OF sym])

declare area_list.simps [simp del]

text \<open>\<open>Iterator::min_by_key\<close> returns the first of several elements with the least key.\<close>

fun min_by_key :: "('a \<Rightarrow> 'k::linorder) \<Rightarrow> 'a list \<Rightarrow> 'a option" where
  "min_by_key key [] = None"
| "min_by_key key (x # xs) = Some (fold (\<lambda>y m. if key y < key m then y else m) xs x)"

section \<open>The allocator\<close>

record frame_allocator =
  next_free_frame :: frame
  current_area :: "memory_area option"
  areas :: area_iter
  kernel_start :: frame
  kernel_end :: frame

definition first_frame :: "memory_area \<Rightarrow> frame" where
  "first_frame area = containing_address (base_addr area)"

definition last_frame :: "memory_area \<Rightarrow> frame" where
  "last_frame area = containing_address (base_addr area + area_length area - 1)"

definition choose_next_area :: "memory_map \<Rightarrow> frame_allocator \<Rightarrow> frame_allocator" where
  "choose_next_area mm a =
    (let chosen = min_by_key base_addr
           (filter (\<lambda>area. last_frame area \<ge> next_free_frame a) (area_list mm (areas a)));
         a = a\<lparr>current_area := chosen\<rparr>
     in case chosen of
          Some area \<Rightarrow>
            if next_free_frame a < first_frame area then a\<lparr>next_free_frame := first_frame area\<rparr> else a
        | None \<Rightarrow> a)"

definition new_allocator :: "memory_map \<Rightarrow> usize \<Rightarrow> usize \<Rightarrow> area_iter \<Rightarrow> frame_allocator" where
  "new_allocator mm ks ke memory_areas =
    choose_next_area mm
      \<lparr>next_free_frame = containing_address 0, current_area = None, areas = memory_areas,
       kernel_start = containing_address ks, kernel_end = containing_address ke\<rparr>"

definition in_kernel :: "frame_allocator \<Rightarrow> frame \<Rightarrow> bool" where
  "in_kernel a f \<longleftrightarrow> f \<ge> kernel_start a \<and> f \<le> kernel_end a"

text \<open>
  The inner loop of \<open>free_frames\<close> and \<open>used_frames\<close>. The iterator never ends when its last frame has the
  largest number, so not returning is \<open>None\<close>.
\<close>

partial_function (option) count_frames :: "(frame \<Rightarrow> bool) \<Rightarrow> frame_iter \<Rightarrow> usize \<Rightarrow> usize option" where
  "count_frames p it count =
    (case frame_next it of
       (Some f, it') \<Rightarrow> count_frames p it' (if p f then count + 1 else count)
     | (None, _) \<Rightarrow> Some count)"

fun count_areas :: "(frame \<Rightarrow> bool) \<Rightarrow> memory_area list \<Rightarrow> usize \<Rightarrow> usize option" where
  "count_areas p [] count = Some count"
| "count_areas p (area # rest) count =
    Option.bind (count_frames p (range_inclusive (first_frame area) (last_frame area)) count)
      (count_areas p rest)"

definition area_free_frames :: "memory_map \<Rightarrow> frame_allocator \<Rightarrow> usize option" where
  "area_free_frames mm a =
    count_areas (\<lambda>f. if in_kernel a f then False else if f \<ge> next_free_frame a then True else False)
      (area_list mm (areas a)) 0"

definition area_used_frames :: "memory_map \<Rightarrow> frame_allocator \<Rightarrow> usize option" where
  "area_used_frames mm a =
    count_areas (\<lambda>f. if in_kernel a f then True else if f \<ge> next_free_frame a then False else True)
      (area_list mm (areas a)) 0"

partial_function (option) area_allocate_frames ::
  "memory_map \<Rightarrow> usize \<Rightarrow> frame_allocator \<Rightarrow> (frame option \<times> frame_allocator) option" where
  "area_allocate_frames mm count a =
    (if count = 0 then Some (None, a)
     else case current_area a of
       Some area \<Rightarrow>
         let start_frame = Frame (frame_number (next_free_frame a));
             end_frame = Frame (frame_number (next_free_frame a) + (count - 1));
             current_area_last_frame = last_frame area
         in if end_frame > current_area_last_frame
            then area_allocate_frames mm count (choose_next_area mm a)
            else if in_kernel a start_frame \<or> in_kernel a end_frame
            then area_allocate_frames mm count
                   (a\<lparr>next_free_frame := Frame (frame_number (kernel_end a) + 1)\<rparr>)
            else Some (Some start_frame,
                   a\<lparr>next_free_frame := Frame (frame_number (next_free_frame a) + count)\<rparr>)
     | None \<Rightarrow> Some (None, a))"

definition area_deallocate_frames :: "frame \<Rightarrow> usize \<Rightarrow> frame_allocator \<Rightarrow> frame_allocator" where
  "area_deallocate_frames f count a = a"

section \<open>The global allocator\<close>

record physical_memory =
  MEMORY_MAP :: memory_map
  ALLOCATOR :: "frame_allocator option"

text \<open>
  Copy the memory map the bootloader left at address \<open>0x500\<close> (a parameter: the entry at each index) and
  create the allocator.
\<close>

definition memory_init :: "(nat \<Rightarrow> memory_area) \<Rightarrow> usize \<Rightarrow> usize \<Rightarrow> physical_memory" where
  "memory_init bootloader ks ke =
    (let mm = map bootloader [0..<512] in
     \<lparr>MEMORY_MAP = mm, ALLOCATOR = Some (new_allocator mm ks ke (area_iter_new MEMORY_AREA_FREE))\<rparr>)"

definition allocate_frames :: "usize \<Rightarrow> physical_memory \<Rightarrow> (frame option \<times> physical_memory) outcome option" where
  "allocate_frames count pm =
    (case ALLOCATOR pm of
       Some a \<Rightarrow> Option.bind (area_allocate_frames (MEMORY_MAP pm) count a)
         (\<lambda>(r, a'). Some (Return (r, pm\<lparr>ALLOCATOR := Some a'\<rparr>)))
     | None \<Rightarrow> Some Panic)"

definition deallocate_frames :: "frame \<Rightarrow> usize \<Rightarrow> physical_memory \<Rightarrow> physical_memory outcome" where
  "deallocate_frames f count pm =
    (case ALLOCATOR pm of
       Some a \<Rightarrow> Return (pm\<lparr>ALLOCATOR := Some (area_deallocate_frames f count a)\<rparr>)
     | None \<Rightarrow> Panic)"

definition allocate_frame :: "physical_memory \<Rightarrow> (frame option \<times> physical_memory) outcome option" where
  "allocate_frame = allocate_frames 1"

definition deallocate_frame :: "frame \<Rightarrow> physical_memory \<Rightarrow> physical_memory outcome" where
  "deallocate_frame f = deallocate_frames f 1"

definition free_frames :: "physical_memory \<Rightarrow> usize outcome option" where
  "free_frames pm =
    (case ALLOCATOR pm of
       Some a \<Rightarrow> map_option Return (area_free_frames (MEMORY_MAP pm) a)
     | None \<Rightarrow> Some Panic)"

definition used_frames :: "physical_memory \<Rightarrow> usize outcome option" where
  "used_frames pm =
    (case ALLOCATOR pm of
       Some a \<Rightarrow> map_option Return (area_used_frames (MEMORY_MAP pm) a)
     | None \<Rightarrow> Some Panic)"

section \<open>The iterators\<close>

lemma area_list_eq:
  "area_list mm it = filter (\<lambda>e. area_type e = iter_type it) (drop (iter_i it) mm)"
proof (induction "length mm - iter_i it" arbitrary: it rule: less_induct)
  case less
  show ?case
  proof (cases "iter_i it < length mm")
    case True
    let ?it = "it\<lparr>iter_i := iter_i it + 1\<rparr>"
    have IH: "area_list mm ?it = filter (\<lambda>e. area_type e = iter_type it) (drop (iter_i it + 1) mm)"
      using less[of ?it] True by simp
    have step: "area_next mm it =
        (if area_type (mm ! iter_i it) = iter_type it then (Some (mm ! iter_i it), ?it) else area_next mm ?it)"
      using True by (subst area_next.simps) (simp add: Let_def)
    have "area_list mm it =
        (if area_type (mm ! iter_i it) = iter_type it then mm ! iter_i it # area_list mm ?it
         else area_list mm ?it)"
      by (subst (1 3) area_list.simps) (simp add: step)
    then show ?thesis
      using True IH by (simp add: Cons_nth_drop_Suc [symmetric])
  next
    case False
    then show ?thesis
      by (subst area_list.simps, subst area_next.simps) simp
  qed
qed

corollary area_list_new: "area_list mm (area_iter_new ty) = filter (\<lambda>e. area_type e = ty) mm"
  by (simp add: area_list_eq area_iter_new_def)

lemma min_by_key_None [simp]: "min_by_key key xs = None \<longleftrightarrow> xs = []"
  by (cases xs) auto

lemma min_fold:
  "let m = fold (\<lambda>y m. if key y < key m then y else m) xs x
   in m \<in> insert x (set xs) \<and> (\<forall>y\<in>insert x (set xs). key m \<le> (key y :: 'k::linorder))"
proof (induction xs arbitrary: x)
  case (Cons y ys)
  show ?case
    using Cons.IH[of "if key y < key x then y else x"] by (auto simp: Let_def split: if_splits)
qed simp

lemma min_by_key_Some:
  assumes "min_by_key key xs = Some m"
  shows "m \<in> set xs \<and> (\<forall>y\<in>set xs. key m \<le> key y)"
  using assms min_fold[of key] by (cases xs) (auto simp: Let_def)

section \<open>Frame numbers\<close>

lemma frame_number_containing: "unat (frame_number (containing_address a)) < 2 ^ 52"
proof -
  have "unat (a div 4096) = unat a div 4096"
    by (simp add: unat_div)
  moreover have "unat a < 2 ^ 64"
    using unsigned_less[of a] by simp
  ultimately show ?thesis
    by (simp add: containing_address_def PAGE_SIZE_def)
qed

lemma frame_number_area:
  "unat (frame_number (first_frame area)) < 2 ^ 52" "unat (frame_number (last_frame area)) < 2 ^ 52"
  unfolding first_frame_def last_frame_def by (rule frame_number_containing)+

lemma first_frame_mono: "base_addr x \<le> base_addr y \<Longrightarrow> first_frame x \<le> first_frame y"
  by (simp add: first_frame_def containing_address_def PAGE_SIZE_def less_eq_frame_def word_le_nat_alt
      unat_div div_le_mono)

lemma frame_le_iff: "f \<le> g \<longleftrightarrow> unat (frame_number f) \<le> unat (frame_number g)"
  by (simp add: less_eq_frame_def word_le_nat_alt)

lemma frame_less_iff: "f < g \<longleftrightarrow> unat (frame_number f) < unat (frame_number g)"
  by (simp add: less_frame_def word_less_nat_alt)

lemma frame_eq_iff: "f = g \<longleftrightarrow> unat (frame_number f) = unat (frame_number g)"
  by (cases f; cases g) simp

lemmas frame_order = frame_le_iff frame_less_iff frame_eq_iff

section \<open>The invariant\<close>

text \<open>
  Frame numbers come from addresses, so they are below \<open>2 ^ 52\<close>. Of the areas that still reach the next free
  frame the current one has the least base address, and the next free frame is not below it; without a
  current area every area is used up.
\<close>

definition frames_wf :: "memory_map \<Rightarrow> frame_allocator \<Rightarrow> bool" where
  "frames_wf mm a \<longleftrightarrow>
     unat (frame_number (next_free_frame a)) \<le> 2 ^ 52 \<and> unat (frame_number (kernel_end a)) < 2 ^ 52 \<and>
     (case current_area a of
        None \<Rightarrow> \<forall>x\<in>set (area_list mm (areas a)). last_frame x < next_free_frame a
      | Some c \<Rightarrow> c \<in> set (area_list mm (areas a)) \<and> first_frame c \<le> next_free_frame a \<and>
          (\<forall>x\<in>set (area_list mm (areas a)). next_free_frame a \<le> last_frame x \<longrightarrow> base_addr c \<le> base_addr x))"

text \<open>The frames that are still to be handed out.\<close>

definition available :: "memory_map \<Rightarrow> frame_allocator \<Rightarrow> frame \<Rightarrow> bool" where
  "available mm a f \<longleftrightarrow>
     next_free_frame a \<le> f \<and> \<not> in_kernel a f \<and>
     (\<exists>x\<in>set (area_list mm (areas a)). first_frame x \<le> f \<and> f \<le> last_frame x)"

definition same_setup :: "frame_allocator \<Rightarrow> frame_allocator \<Rightarrow> bool" where
  "same_setup a a' \<longleftrightarrow>
     areas a' = areas a \<and> kernel_start a' = kernel_start a \<and> kernel_end a' = kernel_end a"

lemma choose_next_area_cases:
  obtains "\<forall>x\<in>set (area_list mm (areas a)). last_frame x < next_free_frame a"
    "choose_next_area mm a = a\<lparr>current_area := None\<rparr>"
  | c where "c \<in> set (area_list mm (areas a))" "next_free_frame a \<le> last_frame c"
    "\<forall>x\<in>set (area_list mm (areas a)). next_free_frame a \<le> last_frame x \<longrightarrow> base_addr c \<le> base_addr x"
    "choose_next_area mm a =
      a\<lparr>current_area := Some c, next_free_frame := max (next_free_frame a) (first_frame c)\<rparr>"
proof -
  let ?xs = "filter (\<lambda>x. next_free_frame a \<le> last_frame x) (area_list mm (areas a))"
  show thesis
  proof (cases "min_by_key base_addr ?xs")
    case None
    then have "choose_next_area mm a = a\<lparr>current_area := None\<rparr>"
      by (simp add: choose_next_area_def)
    then show thesis
      using None that(1) by (auto simp: filter_empty_conv not_le)
  next
    case (Some c)
    then have "choose_next_area mm a =
        a\<lparr>current_area := Some c, next_free_frame := max (next_free_frame a) (first_frame c)\<rparr>"
      by (simp add: choose_next_area_def max_def Let_def)
    then show thesis
      using min_by_key_Some[OF Some] that(2)[of c] by auto
  qed
qed

lemma frames_wf_choose:
  assumes "unat (frame_number (next_free_frame a)) \<le> 2 ^ 52" "unat (frame_number (kernel_end a)) < 2 ^ 52"
  shows "frames_wf mm (choose_next_area mm a)"
proof (cases rule: choose_next_area_cases[of mm a])
  case 1
  then show ?thesis
    using assms by (simp add: frames_wf_def)
next
  case (2 c)
  then show ?thesis
    using assms frame_number_area(1)[of c] by (auto simp: frames_wf_def max_def)
qed

lemma choose_next_area_keeps:
  "same_setup a (choose_next_area mm a)"
  "next_free_frame a \<le> next_free_frame (choose_next_area mm a)"
  "available mm (choose_next_area mm a) f \<longleftrightarrow> available mm a f"
  "current_area (choose_next_area mm a) = Some c \<Longrightarrow> next_free_frame a \<le> last_frame c"
  subgoal by (cases rule: choose_next_area_cases[of mm a]) (auto simp: same_setup_def)
  subgoal by (cases rule: choose_next_area_cases[of mm a]) auto
  subgoal
  proof (cases rule: choose_next_area_cases[of mm a])
    case (2 c)
    have "first_frame c \<le> f"
      if "x \<in> set (area_list mm (areas a))" "next_free_frame a \<le> f" "first_frame x \<le> f" "f \<le> last_frame x" for x
      using 2(3) that first_frame_mono[of c x] by force
    then show ?thesis
      using 2(4) by (auto simp: available_def in_kernel_def)
  qed (simp add: available_def in_kernel_def)
  subgoal by (cases rule: choose_next_area_cases[of mm a]) auto
  done

theorem frames_wf_new: "frames_wf mm (new_allocator mm ks ke it)"
  unfolding new_allocator_def
  by (rule frames_wf_choose)
    (use frame_number_containing[of 0] frame_number_containing[of ke] in simp_all)

section \<open>Single frames\<close>

lemma available_raise:
  assumes "next_free_frame a \<le> n" "\<And>f. available mm a f \<Longrightarrow> n \<le> f"
  shows "available mm (a\<lparr>next_free_frame := n\<rparr>) f \<longleftrightarrow> available mm a f"
  using assms by (auto simp: available_def in_kernel_def)

lemma frames_wf_raise:
  assumes "frames_wf mm a" "next_free_frame a \<le> n" "unat (frame_number n) \<le> 2 ^ 52"
  shows "frames_wf mm (a\<lparr>next_free_frame := n\<rparr>)"
  using assms by (fastforce simp: frames_wf_def split: option.splits)

lemma after_kernel:
  assumes wf: "frames_wf mm a" and k: "in_kernel a (next_free_frame a)"
  defines "n \<equiv> Frame (frame_number (kernel_end a) + 1)"
  shows "next_free_frame a < n" "frames_wf mm (a\<lparr>next_free_frame := n\<rparr>)"
    "available mm (a\<lparr>next_free_frame := n\<rparr>) f \<longleftrightarrow> available mm a f"
proof -
  have end_bound: "unat (frame_number (kernel_end a)) < 2 ^ 52"
    using wf by (simp add: frames_wf_def)
  then have n: "unat (frame_number n) = unat (frame_number (kernel_end a)) + 1"
    using unat_add_usize[of "frame_number (kernel_end a)" 1] by (simp add: n_def)
  show less: "next_free_frame a < n"
    using k n by (simp add: in_kernel_def frame_order)
  show "frames_wf mm (a\<lparr>next_free_frame := n\<rparr>)"
    using frames_wf_raise[OF wf, of n] less n end_bound by simp
  have "n \<le> g" if "available mm a g" for g
    using that k n by (auto simp: available_def in_kernel_def frame_order)
  then show "available mm (a\<lparr>next_free_frame := n\<rparr>) f \<longleftrightarrow> available mm a f"
    using less by (intro available_raise) auto
qed

text \<open>The contract of a single allocation: the least available frame, which is then no longer available.\<close>

definition handed_out :: "memory_map \<Rightarrow> frame_allocator \<Rightarrow> frame option \<Rightarrow> frame_allocator \<Rightarrow> bool" where
  "handed_out mm a r a' \<longleftrightarrow>
     frames_wf mm a' \<and> same_setup a a' \<and>
     (case r of
        None \<Rightarrow> \<forall>f. \<not> available mm a f
      | Some f \<Rightarrow> available mm a f \<and> (\<forall>g. available mm a g \<longrightarrow> f \<le> g) \<and>
                 (\<forall>g. available mm a' g \<longleftrightarrow> available mm a g \<and> g \<noteq> f))"

lemma handed_out_cong:
  assumes "same_setup a b" "\<And>f. available mm b f \<longleftrightarrow> available mm a f" "handed_out mm b r a'"
  shows "handed_out mm a r a'"
  using assms by (auto simp: handed_out_def same_setup_def split: option.splits)

lemma take_next:
  assumes wf: "frames_wf mm a" and c: "current_area a = Some c" "next_free_frame a \<le> last_frame c"
    and k: "\<not> in_kernel a (next_free_frame a)"
  defines "a' \<equiv> a\<lparr>next_free_frame := Frame (frame_number (next_free_frame a) + 1)\<rparr>"
  shows "handed_out mm a (Some (next_free_frame a)) a'"
proof -
  let ?f = "next_free_frame a"
  have bound: "unat (frame_number ?f) < 2 ^ 52"
    using c(2) frame_number_area(2)[of c] by (simp add: frame_le_iff)
  then have succ: "unat (frame_number ?f + 1) = unat (frame_number ?f) + 1"
    using unat_add_usize[of "frame_number ?f" 1] by simp
  have "frames_wf mm a'"
    unfolding a'_def using frames_wf_raise[OF wf] bound succ by (simp add: frame_le_iff)
  moreover have "available mm a ?f"
    using wf c k by (auto simp: available_def frames_wf_def)
  moreover have "available mm a' g \<longleftrightarrow> available mm a g \<and> g \<noteq> ?f" for g
  proof -
    have "Frame (frame_number ?f + 1) \<le> g \<longleftrightarrow> ?f \<le> g \<and> g \<noteq> ?f"
      unfolding frame_le_iff frame_eq_iff frame.sel succ by linarith
    then show ?thesis
      by (auto simp: a'_def available_def in_kernel_def)
  qed
  ultimately show ?thesis
    by (auto simp: handed_out_def same_setup_def a'_def available_def)
qed

text \<open>Every retry raises the next free frame or replaces an area that is used up.\<close>

definition effort :: "frame_allocator \<Rightarrow> nat" where
  "effort a = 2 * (2 ^ 52 - unat (frame_number (next_free_frame a))) +
     (case current_area a of Some c \<Rightarrow> if last_frame c < next_free_frame a then 1 else 0 | None \<Rightarrow> 0)"

lemma effort_raise:
  assumes "next_free_frame a < next_free_frame b" "unat (frame_number (next_free_frame b)) \<le> 2 ^ 52"
  shows "effort b < effort a"
proof -
  have "effort b \<le> 2 * (2 ^ 52 - unat (frame_number (next_free_frame b))) + 1"
    by (simp add: effort_def split: option.split)
  moreover have "2 * (2 ^ 52 - unat (frame_number (next_free_frame a))) \<le> effort a"
    by (simp add: effort_def)
  ultimately show ?thesis
    using assms unfolding frame_less_iff by linarith
qed

lemma effort_choose:
  assumes wf: "frames_wf mm a" and c: "current_area a = Some c" "last_frame c < next_free_frame a"
  shows "effort (choose_next_area mm a) < effort a"
proof (cases "next_free_frame (choose_next_area mm a) = next_free_frame a")
  case True
  then show ?thesis
    using c choose_next_area_keeps(4)[of mm a]
    by (auto simp: effort_def not_le [symmetric] split: option.split)
next
  case False
  have "frames_wf mm (choose_next_area mm a)"
    using wf by (intro frames_wf_choose) (auto simp: frames_wf_def)
  then show ?thesis
    using False choose_next_area_keeps(2)[of a mm] by (intro effort_raise) (auto simp: frames_wf_def)
qed

lemma allocate_one:
  "frames_wf mm a \<Longrightarrow> \<exists>r a'. area_allocate_frames mm 1 a = Some (r, a') \<and> handed_out mm a r a'"
proof (induction "effort a" arbitrary: a rule: less_induct)
  case less
  note wf = less.prems
  have retry: ?case
    if "area_allocate_frames mm 1 a = area_allocate_frames mm 1 b" "frames_wf mm b" "effort b < effort a"
      "same_setup a b" "\<And>f. available mm b f \<longleftrightarrow> available mm a f" for b
    using less.hyps[of b] that handed_out_cong[of a b mm] by auto
  show ?case
  proof (cases "current_area a")
    case None
    then have "handed_out mm a None a"
      using wf by (fastforce simp: handed_out_def same_setup_def frames_wf_def available_def)
    then show ?thesis
      using None by (subst area_allocate_frames.simps) simp
  next
    case (Some c)
    consider "last_frame c < next_free_frame a"
      | "next_free_frame a \<le> last_frame c" "in_kernel a (next_free_frame a)"
      | "next_free_frame a \<le> last_frame c" "\<not> in_kernel a (next_free_frame a)"
      by (meson not_le)
    then show ?thesis
    proof cases
      case 1
      show ?thesis
      proof (rule retry)
        show "area_allocate_frames mm 1 a = area_allocate_frames mm 1 (choose_next_area mm a)"
          using Some 1 by (subst area_allocate_frames.simps) (simp add: Let_def)
        show "frames_wf mm (choose_next_area mm a)"
          using wf by (intro frames_wf_choose) (auto simp: frames_wf_def)
      qed (use effort_choose[OF wf Some 1] choose_next_area_keeps in auto)
    next
      case 2
      let ?b = "a\<lparr>next_free_frame := Frame (frame_number (kernel_end a) + 1)\<rparr>"
      show ?thesis
      proof (rule retry)
        show "area_allocate_frames mm 1 a = area_allocate_frames mm 1 ?b"
          using Some 2 by (subst area_allocate_frames.simps) (simp add: Let_def leD)
        show "effort ?b < effort a"
          using after_kernel[OF wf 2(2)] by (intro effort_raise) (auto simp: frames_wf_def)
      qed (use after_kernel[OF wf 2(2)] in \<open>auto simp: same_setup_def\<close>)
    next
      case 3
      then show ?thesis
        using take_next[OF wf Some 3] Some by (subst area_allocate_frames.simps) (auto simp: Let_def)
    qed
  qed
qed

lemma allocate_frame_spec:
  assumes "ALLOCATOR pm = Some a" "frames_wf (MEMORY_MAP pm) a"
  obtains r a' where "allocate_frame pm = Some (Return (r, pm\<lparr>ALLOCATOR := Some a'\<rparr>))"
    "handed_out (MEMORY_MAP pm) a r a'"
  using allocate_one[OF assms(2)] assms(1) by (auto simp: allocate_frame_def allocate_frames_def)

section \<open>Ranges of frames\<close>

text \<open>What a successful allocation of a range promises.\<close>

definition range_granted :: "memory_map \<Rightarrow> usize \<Rightarrow> frame_allocator \<Rightarrow> frame \<Rightarrow> frame_allocator \<Rightarrow> bool" where
  "range_granted mm count a f a' \<longleftrightarrow>
     next_free_frame a \<le> f \<and> next_free_frame a' = Frame (frame_number f + count) \<and>
     (\<exists>x\<in>set (area_list mm (areas a)).
        first_frame x \<le> f \<and>
        unat (frame_number f) + unat count - 1 \<le> unat (frame_number (last_frame x))) \<and>
     \<not> in_kernel a f \<and> \<not> in_kernel a (Frame (frame_number f + (count - 1)))"

definition range_contract ::
  "memory_map \<Rightarrow> usize \<Rightarrow> frame_allocator \<Rightarrow> frame option \<times> frame_allocator \<Rightarrow> bool" where
  "range_contract mm count a = (\<lambda>(r, a'). frames_wf mm a' \<and> same_setup a a' \<and>
     (case r of None \<Rightarrow> True | Some f \<Rightarrow> range_granted mm count a f a'))"

lemma range_contract_cong:
  assumes "same_setup a b" "next_free_frame a \<le> next_free_frame b" "range_contract mm count b y"
  shows "range_contract mm count a y"
  using assms by (auto simp: range_contract_def range_granted_def same_setup_def in_kernel_def split: option.splits)

lemma unat_range_end:
  assumes "unat (n :: usize) \<le> 2 ^ 52" "unat (count :: usize) \<le> 2 ^ 52" "count \<noteq> 0"
  shows "unat (n + (count - 1)) = unat n + unat count - 1"
proof -
  have "unat (count - 1) = unat count - 1"
    using assms(3) by (simp add: unat_minus_one)
  moreover have "0 < unat count"
    using assms(3) by (simp add: unat_gt_0)
  ultimately show ?thesis
    using assms unat_add_usize[of n "count - 1"] by simp
qed

lemma range_contract_step:
  assumes wf: "frames_wf mm a" and n: "unat count \<le> 2 ^ 52" "count \<noteq> 0"
    and c: "current_area a = Some c" "Frame (frame_number (next_free_frame a) + (count - 1)) \<le> last_frame c"
    and k: "\<not> in_kernel a (next_free_frame a)" "\<not> in_kernel a (Frame (frame_number (next_free_frame a) + (count - 1)))"
  shows "range_contract mm count a
    (Some (next_free_frame a), a\<lparr>next_free_frame := Frame (frame_number (next_free_frame a) + count)\<rparr>)"
proof -
  let ?f = "next_free_frame a"
  let ?g = "Frame (frame_number ?f + count)"
  have nx: "unat (frame_number ?f) \<le> 2 ^ 52"
    using wf by (simp add: frames_wf_def)
  have last: "unat (frame_number ?f) + unat count - 1 \<le> unat (frame_number (last_frame c))"
    using c(2) unat_range_end[OF nx n] by (simp add: frame_le_iff)
  have "0 < unat count"
    using n by (simp add: unat_gt_0)
  moreover have "unat (frame_number ?g) = unat (frame_number ?f) + unat count"
    using nx n unat_add_usize[of "frame_number ?f" count] by simp
  ultimately have "frames_wf mm (a\<lparr>next_free_frame := ?g\<rparr>)"
    using frames_wf_raise[OF wf, of ?g] last frame_number_area(2)[of c] by (simp add: frame_le_iff)
  then show ?thesis
    using wf c last k by (auto simp: range_contract_def range_granted_def same_setup_def frames_wf_def)
qed

lemma skip_kernel_wf:
  assumes wf: "frames_wf mm a" and n: "unat count \<le> 2 ^ 52" "count \<noteq> 0"
    and k: "in_kernel a (next_free_frame a) \<or> in_kernel a (Frame (frame_number (next_free_frame a) + (count - 1)))"
  defines "b \<equiv> a\<lparr>next_free_frame := Frame (frame_number (kernel_end a) + 1)\<rparr>"
  shows "frames_wf mm b" "next_free_frame a \<le> next_free_frame b"
proof -
  have nx: "unat (frame_number (next_free_frame a)) \<le> 2 ^ 52"
    and end_bound: "unat (frame_number (kernel_end a)) < 2 ^ 52"
    using wf by (simp_all add: frames_wf_def)
  have succ: "unat (frame_number (kernel_end a) + 1) = unat (frame_number (kernel_end a)) + 1"
    using end_bound unat_add_usize[of "frame_number (kernel_end a)" 1] by simp
  show le: "next_free_frame a \<le> next_free_frame b"
    using k succ unat_range_end[OF nx n] by (auto simp: b_def in_kernel_def frame_le_iff)
  show "frames_wf mm b"
    unfolding b_def using frames_wf_raise[OF wf] le succ end_bound by (simp add: b_def)
qed

lemma allocate_range_contract:
  "area_allocate_frames mm count a = Some y \<Longrightarrow> frames_wf mm a \<longrightarrow> unat count \<le> 2 ^ 52 \<longrightarrow> range_contract mm count a y"
proof (induction rule: area_allocate_frames.raw_induct[rotated, consumes 1, case_names turn])
  case (turn alloc mm count a y)
  note IH = turn(1)
  show ?case
  proof (intro impI)
    assume wf: "frames_wf mm a" and n: "unat count \<le> 2 ^ 52"
    show "range_contract mm count a y"
    proof (cases "count = 0 \<or> current_area a = None")
      case True
      then have "y = (None, a)"
        using turn(2) by (auto split: if_splits)
      then show ?thesis
        using wf by (simp add: range_contract_def same_setup_def)
    next
      case False
      then obtain c where c: "current_area a = Some c" and n0: "count \<noteq> 0"
        by auto
      let ?last = "Frame (frame_number (next_free_frame a) + (count - 1))"
      consider "?last > last_frame c" "alloc mm count (choose_next_area mm a) = Some y"
        | "?last \<le> last_frame c" "in_kernel a (next_free_frame a) \<or> in_kernel a ?last"
          "alloc mm count (a\<lparr>next_free_frame := Frame (frame_number (kernel_end a) + 1)\<rparr>) = Some y"
        | "?last \<le> last_frame c" "\<not> in_kernel a (next_free_frame a)" "\<not> in_kernel a ?last"
          "y = (Some (next_free_frame a), a\<lparr>next_free_frame := Frame (frame_number (next_free_frame a) + count)\<rparr>)"
        using turn(2) c n0 by (auto simp: Let_def not_less split: if_splits)
      then show ?thesis
      proof cases
        case 1
        have "frames_wf mm (choose_next_area mm a)"
          using wf by (intro frames_wf_choose) (auto simp: frames_wf_def)
        then show ?thesis
          using range_contract_cong[OF choose_next_area_keeps(1,2)] IH[OF 1(2)] n by simp
      next
        case 2
        show ?thesis
        proof (rule range_contract_cong)
          show "same_setup a (a\<lparr>next_free_frame := Frame (frame_number (kernel_end a) + 1)\<rparr>)"
            by (simp add: same_setup_def)
        qed (use IH[OF 2(3)] n skip_kernel_wf[OF wf n n0 2(2)] in simp_all)
      next
        case 3
        then show ?thesis
          using range_contract_step[OF wf n n0 c] by simp
      qed
    qed
  qed
qed

text \<open>
  A request that does not fit in the rest of the current area makes \<open>choose_next_area\<close> choose the same area
  again, so the retry is the same call.
\<close>

lemma choose_same_area:
  assumes wf: "frames_wf mm a" and c: "current_area a = Some c" "next_free_frame a \<le> last_frame c"
    and d: "inj_on base_addr (set (area_list mm (areas a)))"
  shows "choose_next_area mm a = a"
proof (cases rule: choose_next_area_cases[of mm a])
  case 1
  then show ?thesis
    using wf c by (fastforce simp: frames_wf_def)
next
  case (2 x)
  have "base_addr x = base_addr c"
    using wf c 2 by (auto simp: frames_wf_def intro!: antisym)
  then have "x = c"
    using wf c 2(1) d by (auto simp: frames_wf_def dest: inj_onD)
  then show ?thesis
    using wf c 2(4) by (simp add: frames_wf_def max_absorb1)
qed

lemma allocate_stuck:
  "area_allocate_frames mm count a = Some y \<Longrightarrow>
   \<not> (count \<noteq> 0 \<and> choose_next_area mm a = a \<and>
      (\<exists>c. current_area a = Some c \<and>
           last_frame c < Frame (frame_number (next_free_frame a) + (count - 1))))"
proof (induction rule: area_allocate_frames.raw_induct[rotated, consumes 1, case_names turn])
  case (turn alloc mm count a y)
  have retry: "alloc mm count a = Some y"
    if "count \<noteq> 0" "choose_next_area mm a = a" "current_area a = Some c"
      "last_frame c < Frame (frame_number (next_free_frame a) + (count - 1))" for c
    using turn(2) that by (simp add: Let_def)
  then show ?case
    using turn(1)[of mm count a y] by blast
qed

section \<open>Counting frames\<close>

lemma count_frames_spec:
  assumes "unat (frame_number e) < 2 ^ 52"
  shows "count_frames p (range_inclusive s e) count =
    Some (count + of_nat (card {f. s \<le> f \<and> f \<le> e \<and> p f}))"
proof (induction "unat (frame_number e) + 1 - unat (frame_number s)" arbitrary: s count rule: less_induct)
  case less
  show ?case
  proof (cases "s \<le> e")
    case False
    then have none: "{f. s \<le> f \<and> f \<le> e \<and> p f} = {}"
      by auto
    show ?thesis
      unfolding none using False by (subst count_frames.simps) (simp add: frame_next_def range_inclusive_def)
  next
    case True
    let ?t = "Frame (frame_number s + 1)"
    have t: "unat (frame_number ?t) = unat (frame_number s) + 1"
      using True assms unat_add_usize[of "frame_number s" 1] by (simp add: frame_le_iff)
    have IH: "count_frames p (range_inclusive ?t e) c = Some (c + of_nat (card {f. ?t \<le> f \<and> f \<le> e \<and> p f}))" for c
      using True t by (intro less) (simp add: frame_le_iff)
    have range: "{f. s \<le> f \<and> f \<le> e \<and> p f} =
        (if p s then insert s {f. ?t \<le> f \<and> f \<le> e \<and> p f} else {f. ?t \<le> f \<and> f \<le> e \<and> p f})"
    proof -
      have "s \<le> f \<longleftrightarrow> f = s \<or> ?t \<le> f" for f
        unfolding frame_le_iff frame_eq_iff t by linarith
      then show ?thesis
        using True by auto
    qed
    have "finite {f. ?t \<le> f \<and> f \<le> e \<and> p f}"
      by (rule finite_subset[of _ "Frame ` UNIV"]) (auto intro: frame.exhaust)
    moreover have "\<not> ?t \<le> s"
      using t by (simp add: frame_le_iff)
    ultimately show ?thesis
      using True IH by (subst count_frames.simps)
        (simp add: frame_next_def range_inclusive_def range card_insert_if)
  qed
qed

lemma count_areas_spec:
  "count_areas p xs count =
    Some (count + of_nat (\<Sum>x\<leftarrow>xs. card {f. first_frame x \<le> f \<and> f \<le> last_frame x \<and> p f}))"
  by (induction xs arbitrary: count) (simp_all add: count_frames_spec[OF frame_number_area(2)] algebra_simps)

lemma finite_frames [simp]: "finite (A :: frame set)"
  by (rule finite_subset[of _ "Frame ` UNIV"]) (auto intro: frame.exhaust)

text \<open>No frame belongs to two entries of the memory map.\<close>

fun disjoint_areas :: "memory_area list \<Rightarrow> bool" where
  "disjoint_areas [] \<longleftrightarrow> True"
| "disjoint_areas (x # xs) \<longleftrightarrow>
     (\<forall>y\<in>set xs. last_frame x < first_frame y \<or> last_frame y < first_frame x) \<and> disjoint_areas xs"

lemma disjoint_areas_card:
  "disjoint_areas xs \<Longrightarrow>
   (\<Sum>x\<leftarrow>xs. card {f. first_frame x \<le> f \<and> f \<le> last_frame x \<and> p f}) =
   card {f. (\<exists>x\<in>set xs. first_frame x \<le> f \<and> f \<le> last_frame x) \<and> p f}"
proof (induction xs)
  case (Cons x xs)
  let ?A = "{f. first_frame x \<le> f \<and> f \<le> last_frame x \<and> p f}"
  let ?B = "{f. (\<exists>y\<in>set xs. first_frame y \<le> f \<and> f \<le> last_frame y) \<and> p f}"
  have "?A \<inter> ?B = {}"
    using Cons.prems by fastforce
  then have "card (?A \<union> ?B) = card ?A + card ?B"
    by (intro card_Un_disjoint) auto
  moreover have "{f. (\<exists>y\<in>set (x # xs). first_frame y \<le> f \<and> f \<le> last_frame y) \<and> p f} = ?A \<union> ?B"
    by auto
  ultimately show ?case
    using Cons by simp
qed simp

lemma area_free_frames_card:
  assumes "disjoint_areas (area_list mm (areas a))"
  shows "area_free_frames mm a = Some (of_nat (card {f. available mm a f}))"
proof -
  let ?p = "\<lambda>f. if in_kernel a f then False else if f \<ge> next_free_frame a then True else False"
  have "{f. available mm a f} =
      {f. (\<exists>x\<in>set (area_list mm (areas a)). first_frame x \<le> f \<and> f \<le> last_frame x) \<and> ?p f}"
    by (auto simp: available_def)
  then show ?thesis
    unfolding area_free_frames_def count_areas_spec disjoint_areas_card[OF assms, of ?p] by simp
qed

section \<open>Properties\<close>

text \<open>
  C26. A single-frame allocation always returns. It returns the least frame at or above the next free frame
  that lies in a free area of the memory map and outside the kernel, which is never handed out again, or
  \<open>None\<close> when there is no such frame; every other available frame stays available. If no frame belongs to
  two areas, \<open>free_frames\<close> is the number of allocations that will still succeed. The allocator that \<open>init\<close>
  creates satisfies the invariant, and allocation keeps it.
\<close>

theorem single_frames_exact:
  assumes "ALLOCATOR pm = Some a" "frames_wf (MEMORY_MAP pm) a"
  shows "(\<exists>r a'. allocate_frame pm = Some (Return (r, pm\<lparr>ALLOCATOR := Some a'\<rparr>)) \<and>
           frames_wf (MEMORY_MAP pm) a' \<and>
           (case r of
              None \<Rightarrow> \<forall>f. \<not> available (MEMORY_MAP pm) a f
            | Some f \<Rightarrow> available (MEMORY_MAP pm) a f \<and> (\<forall>g. available (MEMORY_MAP pm) a g \<longrightarrow> f \<le> g) \<and>
                (\<forall>g. available (MEMORY_MAP pm) a' g \<longleftrightarrow> available (MEMORY_MAP pm) a g \<and> g \<noteq> f))) \<and>
         (disjoint_areas (area_list (MEMORY_MAP pm) (areas a)) \<longrightarrow>
           free_frames pm = Some (Return (of_nat (card {f. available (MEMORY_MAP pm) a f})))) \<and>
         (\<exists>b. ALLOCATOR (memory_init bootloader ks ke) = Some b \<and>
           frames_wf (MEMORY_MAP (memory_init bootloader ks ke)) b)"
proof (intro conjI)
  obtain r a' where "allocate_frame pm = Some (Return (r, pm\<lparr>ALLOCATOR := Some a'\<rparr>))"
    "handed_out (MEMORY_MAP pm) a r a'"
    using allocate_frame_spec[OF assms] .
  then show "\<exists>r a'. allocate_frame pm = Some (Return (r, pm\<lparr>ALLOCATOR := Some a'\<rparr>)) \<and>
           frames_wf (MEMORY_MAP pm) a' \<and>
           (case r of
              None \<Rightarrow> \<forall>f. \<not> available (MEMORY_MAP pm) a f
            | Some f \<Rightarrow> available (MEMORY_MAP pm) a f \<and> (\<forall>g. available (MEMORY_MAP pm) a g \<longrightarrow> f \<le> g) \<and>
                (\<forall>g. available (MEMORY_MAP pm) a' g \<longleftrightarrow> available (MEMORY_MAP pm) a g \<and> g \<noteq> f))"
    by (intro exI[of _ r] exI[of _ a']) (simp add: handed_out_def)
  show "disjoint_areas (area_list (MEMORY_MAP pm) (areas a)) \<longrightarrow>
      free_frames pm = Some (Return (of_nat (card {f. available (MEMORY_MAP pm) a f})))"
    using assms(1) area_free_frames_card by (simp add: free_frames_def)
  show "\<exists>b. ALLOCATOR (memory_init bootloader ks ke) = Some b \<and>
           frames_wf (MEMORY_MAP (memory_init bootloader ks ke)) b"
    by (simp add: memory_init_def Let_def frames_wf_new del: upt_rec_numeral)
qed

text \<open>A machine with one free area: eight frames, of which the kernel has two.\<close>

definition small_map :: "nat \<Rightarrow> memory_area" where
  "small_map i =
    (if i = 0 then \<lparr>base_addr = 0, area_length = 0x8000, area_type = MEMORY_AREA_FREE, acpi = 0\<rparr>
     else \<lparr>base_addr = 0, area_length = 0, area_type = MEMORY_AREA_NULL, acpi = 0\<rparr>)"

definition small_mm :: memory_map where
  "small_mm = map small_map [0..<512]"

definition small_allocator :: frame_allocator where
  "small_allocator = \<lparr>next_free_frame = Frame 0, current_area = Some (small_map 0),
     areas = area_iter_new MEMORY_AREA_FREE, kernel_start = Frame 2, kernel_end = Frame 3\<rparr>"

lemma small_map_areas: "area_list small_mm (area_iter_new MEMORY_AREA_FREE) = [small_map 0]"
proof -
  have "[0..<512] = 0 # [Suc 0..<512]"
    by (rule upt_conv_Cons) simp
  moreover have "filter (\<lambda>e. area_type e = MEMORY_AREA_FREE) (map small_map [Suc 0..<512]) = []"
    unfolding filter_empty_conv
    by (simp add: small_map_def MEMORY_AREA_NULL_def MEMORY_AREA_FREE_def del: upt_rec_numeral)
  moreover have "area_type (small_map 0) = MEMORY_AREA_FREE"
    by (simp add: small_map_def)
  ultimately show ?thesis
    unfolding area_list_new small_mm_def by (simp del: upt_rec_numeral)
qed

lemma small_frames:
  "first_frame (small_map 0) = Frame 0" "last_frame (small_map 0) = Frame 7"
  by (simp_all add: first_frame_def last_frame_def containing_address_def small_map_def PAGE_SIZE_def)

lemma small_memory:
  "memory_init small_map 0x2000 0x3FFF = \<lparr>MEMORY_MAP = small_mm, ALLOCATOR = Some small_allocator\<rparr>"
  unfolding memory_init_def Let_def small_mm_def [symmetric] new_allocator_def choose_next_area_def
  by (simp add: small_map_areas small_frames small_allocator_def less_eq_frame_def less_frame_def
      containing_address_def PAGE_SIZE_def)

lemma small_wf: "frames_wf small_mm small_allocator"
  by (simp add: frames_wf_def small_allocator_def small_map_areas small_frames)

theorem single_frames_exact_witness:
  "\<exists>r a'. allocate_frame (memory_init small_map 0x2000 0x3FFF) =
     Some (Return (r, (memory_init small_map 0x2000 0x3FFF)\<lparr>ALLOCATOR := Some a'\<rparr>))"
proof -
  have "ALLOCATOR (memory_init small_map 0x2000 0x3FFF) = Some small_allocator"
    "frames_wf (MEMORY_MAP (memory_init small_map 0x2000 0x3FFF)) small_allocator"
    by (simp_all add: small_memory small_wf)
  then show ?thesis
    using single_frames_exact by blast
qed

text \<open>
  An allocated range lies in one free area, starts at or above the next free frame, and the next free
  frame becomes the one after its end, so ranges never overlap. Neither its first nor its last frame belongs
  to the kernel; if a frame between them does, the range encloses the whole kernel, which is not excluded.
\<close>

theorem frame_ranges_disjoint:
  assumes "ALLOCATOR pm = Some a" "frames_wf (MEMORY_MAP pm) a" "unat count \<le> 2 ^ 52"
    and "allocate_frames count pm = Some (Return (Some f, pm'))"
  shows "(\<exists>a'. ALLOCATOR pm' = Some a' \<and> frames_wf (MEMORY_MAP pm') a' \<and> MEMORY_MAP pm' = MEMORY_MAP pm \<and>
           next_free_frame a \<le> f \<and> next_free_frame a' = Frame (frame_number f + count)) \<and>
         (\<exists>x\<in>set (area_list (MEMORY_MAP pm) (areas a)). first_frame x \<le> f \<and>
           unat (frame_number f) + unat count - 1 \<le> unat (frame_number (last_frame x))) \<and>
         (\<forall>g. in_kernel a g \<and> f \<le> g \<and> g \<le> Frame (frame_number f + (count - 1)) \<longrightarrow>
           f < kernel_start a \<and> kernel_end a < Frame (frame_number f + (count - 1)))"
proof -
  obtain a' where a': "area_allocate_frames (MEMORY_MAP pm) count a = Some (Some f, a')"
    "pm' = pm\<lparr>ALLOCATOR := Some a'\<rparr>"
    using assms(1,4) by (auto simp: allocate_frames_def bind_eq_Some_conv)
  then have "range_contract (MEMORY_MAP pm) count a (Some f, a')"
    using allocate_range_contract assms(2,3) by blast
  then show ?thesis
    using a' by (auto simp: range_contract_def range_granted_def in_kernel_def)
qed

lemma small_range:
  "allocate_frames 8 (memory_init small_map 0x2000 0x3FFF) =
    Some (Return (Some (Frame 0),
      \<lparr>MEMORY_MAP = small_mm, ALLOCATOR = Some (small_allocator\<lparr>next_free_frame := Frame 8\<rparr>)\<rparr>))"
  unfolding small_memory allocate_frames_def
  by (subst area_allocate_frames.simps)
    (simp add: small_allocator_def small_frames in_kernel_def less_eq_frame_def less_frame_def)

theorem frame_ranges_disjoint_witness:
  "\<exists>pm'. allocate_frames 8 (memory_init small_map 0x2000 0x3FFF) = Some (Return (Some (Frame 0), pm')) \<and>
     in_kernel small_allocator (Frame 2) \<and> Frame 0 < kernel_start small_allocator \<and>
     kernel_end small_allocator < Frame 7"
  using frame_ranges_disjoint[of "memory_init small_map 0x2000 0x3FFF" small_allocator 8 "Frame 0", OF _ _ _ small_range]
    small_wf small_range
  by (simp add: small_memory small_allocator_def in_kernel_def less_eq_frame_def less_frame_def)

text \<open>
  C27. A request for more frames than the current area has left never returns, whatever other areas hold:
  the area still reaches the next free frame, so \<open>choose_next_area\<close> chooses it again and the same call is
  repeated. The allocator is locked meanwhile.
\<close>

theorem large_range_never_returns:
  assumes "ALLOCATOR pm = Some a" "frames_wf (MEMORY_MAP pm) a" "unat count \<le> 2 ^ 52"
    and "current_area a = Some c" "next_free_frame a \<le> last_frame c"
    and "unat (frame_number (last_frame c)) < unat (frame_number (next_free_frame a)) + unat count - 1"
    and "inj_on base_addr (set (area_list (MEMORY_MAP pm) (areas a)))"
  shows "allocate_frames count pm = None"
proof -
  have n0: "count \<noteq> 0"
    using assms(5,6) by (auto simp: frame_le_iff)
  have "unat (frame_number (next_free_frame a)) \<le> 2 ^ 52"
    using assms(2) by (simp add: frames_wf_def)
  then have "last_frame c < Frame (frame_number (next_free_frame a) + (count - 1))"
    using unat_range_end assms(3,6) n0 by (simp add: frame_less_iff)
  then have "area_allocate_frames (MEMORY_MAP pm) count a = None"
    using allocate_stuck choose_same_area[OF assms(2,4,5,7)] n0 assms(4) by (metis not_None_eq)
  then show ?thesis
    using assms(1) by (auto simp: allocate_frames_def)
qed

theorem large_range_never_returns_witness:
  "allocate_frames 9 (memory_init small_map 0x2000 0x3FFF) = None"
  by (rule large_range_never_returns[of _ small_allocator _ "small_map 0"])
    (use small_wf in \<open>simp_all add: small_memory small_frames less_eq_frame_def small_allocator_def small_map_areas\<close>)

end
