(* ===== verification/Paging.thy ===== *)
theory Paging
  imports Frames
begin

text \<open>
  Page tables (\<open>arch/x86_64/src/paging\<close>): entries, the four levels of tables, \<open>Mapper\<close>, and the inactive
  tables. The kernel reaches its page tables through virtual addresses: the last entry of the top table
  refers to that table itself, so the address of a table at the next level is computed by a shift. Here
  every access to a table goes through the hardware's translation of that address; the lemmas show that
  the computed addresses lead to the tables meant, and that the operations implement a finite map from
  pages to frames. The translation look-aside buffer is not modelled: the operations flush it.
\<close>

section \<open>Entries (entry.rs)\<close>

definition PRESENT :: u64 where "PRESENT = 1"
definition WRITABLE :: u64 where "WRITABLE = 2"
definition USER_ACCESSIBLE :: u64 where "USER_ACCESSIBLE = 4"
definition HUGE_PAGE :: u64 where "HUGE_PAGE = 0x80"
definition GLOBAL :: u64 where "GLOBAL = 0x100"
definition NO_EXECUTE :: u64 where "NO_EXECUTE = 0x8000000000000000"

text \<open>All bits that \<open>EntryFlags\<close> declares.\<close>

definition ALL_FLAGS :: u64 where "ALL_FLAGS = 0x80000000000001FF"

definition ADDRESS_MASK :: usize where "ADDRESS_MASK = 0x000FFFFFFFFFF000"

definition is_unused :: "u64 \<Rightarrow> bool" where
  "is_unused e \<longleftrightarrow> e = 0"

definition entry_address :: "u64 \<Rightarrow> usize" where
  "entry_address e = e AND ADDRESS_MASK"

definition entry_flags :: "u64 \<Rightarrow> u64" where
  "entry_flags e = e AND ALL_FLAGS"

definition pointed_frame :: "u64 \<Rightarrow> frame option" where
  "pointed_frame e =
     (if has_flag (entry_flags e) PRESENT then Some (containing_address (entry_address e)) else None)"

definition entry_set :: "frame \<Rightarrow> u64 \<Rightarrow> u64" where
  "entry_set f flags = start_address f OR flags"

section \<open>Pages (mod.rs)\<close>

definition ENTRY_COUNT :: usize where "ENTRY_COUNT = 512"

datatype page = Page (page_number: usize)

instantiation page :: linorder
begin

definition less_eq_page :: "page \<Rightarrow> page \<Rightarrow> bool" where
  "p \<le> q \<longleftrightarrow> page_number p \<le> page_number q"

definition less_page :: "page \<Rightarrow> page \<Rightarrow> bool" where
  "p < q \<longleftrightarrow> page_number p < page_number q"

instance
  by standard (auto simp: less_eq_page_def less_page_def page.expand)

end

definition page_start_address :: "page \<Rightarrow> usize" where
  "page_start_address p = page_number p * PAGE_SIZE"

definition p4_index :: "page \<Rightarrow> usize" where "p4_index p = drop_bit 27 (page_number p) AND 511"
definition p3_index :: "page \<Rightarrow> usize" where "p3_index p = drop_bit 18 (page_number p) AND 511"
definition p2_index :: "page \<Rightarrow> usize" where "p2_index p = drop_bit 9 (page_number p) AND 511"
definition p1_index :: "page \<Rightarrow> usize" where "p1_index p = drop_bit 0 (page_number p) AND 511"

definition page_containing :: "usize \<Rightarrow> page" where
  "page_containing address = Page (address div PAGE_SIZE)"

record page_iter =
  page_start :: page
  page_end :: page

definition page_range :: "page \<Rightarrow> page \<Rightarrow> page_iter" where
  "page_range s e = \<lparr>page_start = s, page_end = e\<rparr>"

definition page_next :: "page_iter \<Rightarrow> page option \<times> page_iter" where
  "page_next it =
    (if page_start it \<le> page_end it
     then (Some (page_start it), it\<lparr>page_start := Page (page_number (page_start it) + 1)\<rparr>)
     else (None, it))"

section \<open>The hardware\<close>

text \<open>
  Physical memory as far as it holds page tables (the entries of each frame), the register \<open>CR3\<close>, and the
  frame allocator.
\<close>

record page_mem =
  pg_tables :: "frame \<Rightarrow> usize \<Rightarrow> u64"
  pg_cr3 :: frame
  pg_memory :: physical_memory

text \<open>
  One step of the hardware's translation. The bit that marks a huge page ends it at the upper levels; at the
  last level the same bit only selects a caching policy.
\<close>

definition hw_step :: "page_mem \<Rightarrow> frame \<Rightarrow> usize \<Rightarrow> bool \<Rightarrow> frame option" where
  "hw_step pm f i leaf =
     (let e = pg_tables pm f i
      in if has_flag e PRESENT \<and> (leaf \<or> \<not> has_flag e HUGE_PAGE) then Some (containing_address (e AND ADDRESS_MASK))
         else None)"

fun descend :: "page_mem \<Rightarrow> frame \<Rightarrow> usize list \<Rightarrow> frame option" where
  "descend pm f [] = Some f"
| "descend pm f (i # is) = Option.bind (hw_step pm f i False) (\<lambda>g. descend pm g is)"

definition hw_walk :: "page_mem \<Rightarrow> page \<Rightarrow> frame option" where
  "hw_walk pm p =
     Option.bind (descend pm (pg_cr3 pm) [p4_index p, p3_index p, p2_index p])
       (\<lambda>f. hw_step pm f (p1_index p) True)"

section \<open>Tables (table.rs)\<close>

text \<open>
  A reference to a table is its virtual address. Reading or writing an entry translates the address; a page
  fault in the kernel, like an index out of range, is a panic.
\<close>

definition P4 :: usize where "P4 = 0xFFFFFFFFFFFFF000"

definition entry_at :: "page_mem \<Rightarrow> usize \<Rightarrow> usize \<Rightarrow> u64 outcome" where
  "entry_at pm t i =
     (if i < ENTRY_COUNT then
        case hw_walk pm (page_containing t) of Some f \<Rightarrow> Return (pg_tables pm f i) | None \<Rightarrow> Panic
      else Panic)"

definition set_entry_at :: "usize \<Rightarrow> usize \<Rightarrow> u64 \<Rightarrow> page_mem \<Rightarrow> page_mem outcome" where
  "set_entry_at t i e pm =
     (if i < ENTRY_COUNT then
        case hw_walk pm (page_containing t) of
          Some f \<Rightarrow> Return (pm\<lparr>pg_tables := (pg_tables pm)(f := (pg_tables pm f)(i := e))\<rparr>)
        | None \<Rightarrow> Panic
      else Panic)"

definition zero_table :: "usize \<Rightarrow> page_mem \<Rightarrow> page_mem outcome" where
  "zero_table t pm =
     (case hw_walk pm (page_containing t) of
        Some f \<Rightarrow> Return (pm\<lparr>pg_tables := (pg_tables pm)(f := (\<lambda>i. if i < ENTRY_COUNT then 0 else pg_tables pm f i))\<rparr>)
      | None \<Rightarrow> Panic)"

definition next_addr :: "usize \<Rightarrow> usize \<Rightarrow> usize" where
  "next_addr t i = push_bit 9 t OR push_bit 12 i"

definition next_table_address :: "page_mem \<Rightarrow> usize \<Rightarrow> usize \<Rightarrow> usize option outcome" where
  "next_table_address pm t i =
     bind_outcome (entry_at pm t i)
       (\<lambda>e. Return (if has_flag (entry_flags e) PRESENT \<and> \<not> has_flag (entry_flags e) HUGE_PAGE
                   then Some (next_addr t i) else None))"

definition next_table :: "page_mem \<Rightarrow> usize \<Rightarrow> usize \<Rightarrow> usize option outcome" where
  "next_table = next_table_address"

definition unwrap :: "'a option \<Rightarrow> 'a outcome" where
  "unwrap x = (case x of Some a \<Rightarrow> Return a | None \<Rightarrow> Panic)"

text \<open>
  \<open>next_table_create\<close>; \<open>None\<close> if the frame allocator does not return. Panics: an entry for a huge page, no
  frame left.
\<close>

definition next_table_create :: "usize \<Rightarrow> usize \<Rightarrow> page_mem \<Rightarrow> (usize \<times> page_mem) outcome option" where
  "next_table_create t i pm =
     (case next_table pm t i of
        Panic \<Rightarrow> Some Panic
      | Return (Some a) \<Rightarrow> Some (Return (a, pm))
      | Return None \<Rightarrow>
          (case entry_at pm t i of
             Panic \<Rightarrow> Some Panic
           | Return e \<Rightarrow>
               if has_flag (entry_flags e) HUGE_PAGE then Some Panic
               else Option.bind (allocate_frame (pg_memory pm))
                 (\<lambda>r. Some (bind_outcome r (\<lambda>(frame_opt, mem). bind_outcome (unwrap frame_opt)
                   (\<lambda>f. bind_outcome (set_entry_at t i (entry_set f (PRESENT OR WRITABLE OR USER_ACCESSIBLE)) (pm\<lparr>pg_memory := mem\<rparr>))
                   (\<lambda>pm1. bind_outcome (bind_outcome (next_table pm1 t i) unwrap)
                   (\<lambda>a. bind_outcome (zero_table a pm1)
                   (\<lambda>pm2. bind_outcome (bind_outcome (next_table pm2 t i) unwrap) (\<lambda>a. Return (a, pm2)))))))))))"

section \<open>Mapper (mapper.rs)\<close>

text \<open>\<open>Option::and_then\<close> on a value that had to be read from memory.\<close>

definition and_then :: "'a option outcome \<Rightarrow> ('a \<Rightarrow> 'b option outcome) \<Rightarrow> 'b option outcome" where
  "and_then m f = bind_outcome m (\<lambda>x. case x of Some a \<Rightarrow> f a | None \<Rightarrow> Return None)"

definition find_p1 :: "page_mem \<Rightarrow> page \<Rightarrow> usize option outcome" where
  "find_p1 pm p =
     and_then (and_then (next_table pm P4 (p4_index p)) (\<lambda>p3. next_table pm p3 (p3_index p)))
       (\<lambda>p2. next_table pm p2 (p2_index p))"

definition translate_page :: "page_mem \<Rightarrow> page \<Rightarrow> frame option outcome" where
  "translate_page pm p =
     and_then (find_p1 pm p) (\<lambda>p1. bind_outcome (entry_at pm p1 (p1_index p)) (\<lambda>e. Return (pointed_frame e)))"

definition translate_page_flags :: "page_mem \<Rightarrow> page \<Rightarrow> u64 option outcome" where
  "translate_page_flags pm p =
     and_then (find_p1 pm p) (\<lambda>p1. bind_outcome (entry_at pm p1 (p1_index p)) (\<lambda>e. Return (Some (entry_flags e))))"

definition translate :: "page_mem \<Rightarrow> usize \<Rightarrow> usize option outcome" where
  "translate pm virtual_address =
     (let offset = virtual_address mod PAGE_SIZE
      in bind_outcome (translate_page pm (page_containing virtual_address))
           (\<lambda>r. Return (map_option (\<lambda>f. start_address f + offset) r)))"

text \<open>The continuation of a call that returns a table.\<close>

definition then_table ::
    "(usize \<times> page_mem) outcome option \<Rightarrow> (usize \<Rightarrow> page_mem \<Rightarrow> 'b outcome option) \<Rightarrow> 'b outcome option" where
  "then_table m k =
     Option.bind m (\<lambda>r. case r of Panic \<Rightarrow> Some Panic | Return (t, pm) \<Rightarrow> k t pm)"

definition map_to :: "page \<Rightarrow> frame \<Rightarrow> u64 \<Rightarrow> page_mem \<Rightarrow> page_mem outcome option" where
  "map_to p f flags pm =
     then_table (next_table_create P4 (p4_index p) pm) (\<lambda>p3 pm.
     then_table (next_table_create p3 (p3_index p) pm) (\<lambda>p2 pm.
     then_table (next_table_create p2 (p2_index p) pm) (\<lambda>p1 pm.
       Some (bind_outcome (entry_at pm p1 (p1_index p))
         (\<lambda>e. if is_unused e then set_entry_at p1 (p1_index p) (entry_set f (flags OR PRESENT)) pm else Panic)))))"

definition map_page :: "page \<Rightarrow> u64 \<Rightarrow> page_mem \<Rightarrow> page_mem outcome option" where
  "map_page p flags pm =
     Option.bind (allocate_frame (pg_memory pm))
       (\<lambda>r. case r of
          Return (Some f, mem) \<Rightarrow> map_to p f flags (pm\<lparr>pg_memory := mem\<rparr>)
        | _ \<Rightarrow> Some Panic)"

definition remap :: "page \<Rightarrow> u64 \<Rightarrow> page_mem \<Rightarrow> page_mem outcome" where
  "remap p flags pm =
     bind_outcome (bind_outcome (next_table pm P4 (p4_index p)) unwrap) (\<lambda>p3.
     bind_outcome (bind_outcome (next_table pm p3 (p3_index p)) unwrap) (\<lambda>p2.
     bind_outcome (bind_outcome (next_table pm p2 (p2_index p)) unwrap) (\<lambda>p1.
     bind_outcome (entry_at pm p1 (p1_index p)) (\<lambda>e.
     bind_outcome (unwrap (pointed_frame e)) (\<lambda>f.
       set_entry_at p1 (p1_index p) (entry_set f (flags OR PRESENT)) pm)))))"

definition identity_map :: "frame \<Rightarrow> u64 \<Rightarrow> page_mem \<Rightarrow> page_mem outcome option" where
  "identity_map f flags = map_to (page_containing (start_address f)) f flags"

definition unmap_return :: "page \<Rightarrow> page_mem \<Rightarrow> (frame \<times> page_mem) outcome" where
  "unmap_return p pm =
     bind_outcome (bind_outcome (find_p1 pm p) unwrap) (\<lambda>p1.
     bind_outcome (entry_at pm p1 (p1_index p)) (\<lambda>e.
     bind_outcome (unwrap (pointed_frame e)) (\<lambda>f.
     bind_outcome (set_entry_at p1 (p1_index p) 0 pm) (\<lambda>pm. Return (f, pm)))))"

definition unmap :: "page \<Rightarrow> page_mem \<Rightarrow> page_mem outcome" where
  "unmap p pm =
     bind_outcome (unmap_return p pm) (\<lambda>(f, pm).
     bind_outcome (deallocate_frame f (pg_memory pm)) (\<lambda>mem. Return (pm\<lparr>pg_memory := mem\<rparr>)))"

section \<open>Temporary pages and inactive tables (temporary_page.rs, mod.rs)\<close>

definition tmp_map :: "page \<Rightarrow> frame \<Rightarrow> u64 \<Rightarrow> page_mem \<Rightarrow> (usize \<times> page_mem) outcome option" where
  "tmp_map tmp f flags pm =
     (case translate_page pm tmp of
        Return None \<Rightarrow>
          Option.bind (map_to tmp f flags pm)
            (\<lambda>r. Some (bind_outcome r (\<lambda>pm. Return (page_start_address tmp, pm))))
      | _ \<Rightarrow> Some Panic)"

definition tmp_map_table_frame :: "page \<Rightarrow> frame \<Rightarrow> u64 \<Rightarrow> page_mem \<Rightarrow> (usize \<times> page_mem) outcome option" where
  "tmp_map_table_frame = tmp_map"

definition tmp_unmap :: "page \<Rightarrow> page_mem \<Rightarrow> page_mem outcome" where
  "tmp_unmap = unmap"

text \<open>An \<open>InactivePageTable\<close> is the frame of its top table.\<close>

definition inactive_new :: "frame \<Rightarrow> page \<Rightarrow> page_mem \<Rightarrow> (frame \<times> page_mem) outcome option" where
  "inactive_new f tmp pm =
     then_table (tmp_map_table_frame tmp f (PRESENT OR WRITABLE OR NO_EXECUTE) pm) (\<lambda>t pm.
       Some (bind_outcome (zero_table t pm) (\<lambda>pm.
             bind_outcome (set_entry_at t 511 (entry_set f (PRESENT OR WRITABLE OR NO_EXECUTE)) pm) (\<lambda>pm.
             bind_outcome (tmp_unmap tmp pm) (\<lambda>pm. Return (f, pm))))))"

definition inactive_from_address :: "usize \<Rightarrow> frame" where
  "inactive_from_address cr3 = containing_address cr3"

definition inactive_address :: "frame \<Rightarrow> usize" where
  "inactive_address p4_frame = start_address p4_frame"

definition active_switch :: "frame \<Rightarrow> page_mem \<Rightarrow> frame \<times> page_mem" where
  "active_switch new_table pm = (pg_cr3 pm, pm\<lparr>pg_cr3 := new_table\<rparr>)"

text \<open>\<open>ActivePageTable::with\<close>: run \<open>k\<close> while the recursive entry refers to another top table.\<close>

definition active_with ::
    "frame \<Rightarrow> page \<Rightarrow> (page_mem \<Rightarrow> page_mem outcome option) \<Rightarrow> page_mem \<Rightarrow> page_mem outcome option" where
  "active_with table tmp k pm =
     (let backup = pg_cr3 pm; flags = PRESENT OR WRITABLE OR NO_EXECUTE
      in then_table (tmp_map_table_frame tmp backup flags pm) (\<lambda>p4_table pm.
           case set_entry_at P4 511 (entry_set table flags) pm of
             Panic \<Rightarrow> Some Panic
           | Return pm \<Rightarrow>
               Option.bind (k pm)
                 (\<lambda>r. Some (bind_outcome r (\<lambda>pm.
                        bind_outcome (set_entry_at p4_table 511 (entry_set backup flags) pm) (tmp_unmap tmp))))))"

section \<open>Indices and computed addresses\<close>

lemma and_511: "(a :: usize) AND 511 = take_bit 9 a"
  by (simp add: take_bit_eq_mask mask_eq_exp_minus_1)

lemma div_PAGE_SIZE: "(a :: usize) div PAGE_SIZE = drop_bit 12 a"
  by (simp add: drop_bit_eq_div PAGE_SIZE_def)

lemma take_bit_usize_iff: "k < 64 \<Longrightarrow> take_bit k (i :: usize) = i \<longleftrightarrow> i < 2 ^ k"
proof -
  assume k: "k < 64"
  have "unat (take_bit k i) = unat i mod 2 ^ k"
    unfolding unsigned_take_bit_eq by (simp add: take_bit_eq_mod)
  moreover have "unat i mod 2 ^ k = unat i \<longleftrightarrow> unat i < 2 ^ k"
    by (metis mod_less mod_less_divisor zero_less_numeral zero_less_power)
  moreover have "unat (2 ^ k :: usize) = 2 ^ k"
    using unat_of_nat_small[of "2 ^ k"] power_strict_increasing[OF k, of "2 :: nat"] by simp
  ultimately show ?thesis
    by (simp add: word_less_nat_alt flip: unat_eq_unat_iff)
qed

lemma take_bit_9_iff: "take_bit 9 (i :: usize) = i \<longleftrightarrow> i < 512"
  using take_bit_usize_iff[of 9 i] by simp

lemmas index_defs = p4_index_def p3_index_def p2_index_def p1_index_def and_511 page_containing_def
  page.sel div_PAGE_SIZE

lemma index_less [simp]: "p4_index p < 512" "p3_index p < 512" "p2_index p < 512" "p1_index p < 512"
  unfolding index_defs take_bit_9_iff [symmetric] by simp_all

lemma page_order:
  "p \<le> q \<longleftrightarrow> unat (page_number p) \<le> unat (page_number q)" "p = q \<longleftrightarrow> unat (page_number p) = unat (page_number q)"
  by (cases p; cases q; simp add: less_eq_page_def word_le_nat_alt)+

lemma page_number_containing: "unat (page_number (page_containing a)) = unat a div 4096"
  by (simp add: page_containing_def PAGE_SIZE_def unat_div)

text \<open>The pages of a range of addresses that does not wrap around.\<close>

lemma range_pages:
  assumes "n \<noteq> 0" "unat a + unat n \<le> 2 ^ 64"
  shows "(\<exists>i < unat n. p = page_containing (a + of_nat i)) \<longleftrightarrow>
    page_containing a \<le> p \<and> p \<le> page_containing (a + n - 1)"
proof -
  have n: "0 < unat n" "unat (n - 1) = unat n - 1"
    using assms(1) by (simp_all add: unat_gt_0 unat_minus_one)
  have addr: "unat (a + of_nat i) = unat a + i" if "i < unat n" for i
    using that assms(2) unat_add_usize[of a "of_nat i"] by simp
  have last: "unat (a + n - 1) = unat a + unat n - 1"
    using n assms(2) unat_add_usize[of a "n - 1"] by (simp add: add_diff_eq)
  have "(\<exists>i < unat n. unat (page_number p) = (unat a + i) div 4096) \<longleftrightarrow>
      unat a div 4096 \<le> unat (page_number p) \<and> unat (page_number p) \<le> (unat a + unat n - 1) div 4096"
  proof
    assume "\<exists>i < unat n. unat (page_number p) = (unat a + i) div 4096"
    then show "unat a div 4096 \<le> unat (page_number p) \<and> unat (page_number p) \<le> (unat a + unat n - 1) div 4096"
      by (auto intro!: div_le_mono)
  next
    let ?k = "unat (page_number p)"
    assume k: "unat a div 4096 \<le> ?k \<and> ?k \<le> (unat a + unat n - 1) div 4096"
    let ?i = "if unat a div 4096 = ?k then 0 else ?k * 4096 - unat a"
    have "unat a < ?k * 4096" if "unat a div 4096 \<noteq> ?k"
      using k that div_less_iff_less_mult[of 4096 "unat a" ?k] by simp
    moreover have "?k * 4096 \<le> unat a + unat n - 1"
      using k less_eq_div_iff_mult_less_eq[of 4096 ?k "unat a + unat n - 1"] by simp
    ultimately show "\<exists>i < unat n. ?k = (unat a + i) div 4096"
      using n(1) by (intro exI[of _ ?i]) auto
  qed
  then show ?thesis
    by (simp add: page_order page_number_containing last addr cong: conj_cong)
qed

text \<open>Pages of the lower half of the address space do not use the recursive entry.\<close>

lemma low_page: "unat (page_number p) < 2 ^ 35 \<Longrightarrow> p4_index p \<noteq> 511"
proof -
  assume "unat (page_number p) < 2 ^ 35"
  then have "unat (drop_bit 27 (page_number p)) < 256"
    by (simp add: drop_bit_eq_div unat_div)
  then have "unat (p4_index p) < 256"
    unfolding p4_index_def and_511 unsigned_take_bit_eq by (metis le_less_trans take_bit_nat_less_eq_self)
  then show ?thesis
    by auto
qed

text \<open>The indices of the address of a next-level table are those of the table, shifted by one level.\<close>

lemma next_indices:
  assumes "i < 512" "take_bit 12 t = 0"
  defines "a \<equiv> page_containing (next_addr t i)"
  shows "p4_index a = p3_index (page_containing t)" "p3_index a = p2_index (page_containing t)"
    "p2_index a = p1_index (page_containing t)" "p1_index a = i"
    "take_bit 12 (next_addr t i) = 0"
proof -
  have i: "take_bit 9 i = i"
    using assms(1) by (simp add: take_bit_9_iff)
  have low: "\<not> bit t n" if "n < 12" for n
    using assms(2) that bit_take_bit_iff[of 12 t n] by simp
  have shift: "take_bit 9 (drop_bit (m + 9) (drop_bit 12 (push_bit 9 t OR push_bit 12 (take_bit 9 i)))) =
      take_bit 9 (drop_bit m (drop_bit 12 t))" if "m \<le> 18" for m
    using that by (intro bit_word_eqI) (auto simp: bit_simps algebra_simps)
  show "p4_index a = p3_index (page_containing t)"
    using shift[of 18] unfolding a_def next_addr_def index_defs i by simp
  show "p3_index a = p2_index (page_containing t)"
    using shift[of 9] unfolding a_def next_addr_def index_defs i by simp
  show "p2_index a = p1_index (page_containing t)"
    using shift[of 0] unfolding a_def next_addr_def index_defs i by simp
  have "take_bit 9 (drop_bit 12 (push_bit 9 t OR push_bit 12 (take_bit 9 i))) = take_bit 9 i"
    using low by (intro bit_word_eqI) (auto simp: bit_simps algebra_simps)
  then show "p1_index a = i"
    unfolding a_def next_addr_def index_defs i by simp
  show "take_bit 12 (next_addr t i) = 0"
    unfolding next_addr_def using low by (intro bit_word_eqI) (auto simp: bit_simps algebra_simps)
qed

lemma P4_indices:
  "p4_index (page_containing P4) = 511" "p3_index (page_containing P4) = 511"
  "p2_index (page_containing P4) = 511" "p1_index (page_containing P4) = 511" "take_bit 12 P4 = 0"
  unfolding index_defs P4_def by simp_all

section \<open>Computed addresses lead to the tables meant\<close>

lemma entry_flags_tests [simp]:
  "has_flag (entry_flags e) PRESENT \<longleftrightarrow> has_flag e PRESENT"
  "has_flag (entry_flags e) HUGE_PAGE \<longleftrightarrow> has_flag e HUGE_PAGE"
  by (simp_all add: has_flag_def entry_flags_def PRESENT_def HUGE_PAGE_def ALL_FLAGS_def and.assoc)

definition recursive :: "page_mem \<Rightarrow> bool" where
  "recursive pm \<longleftrightarrow> hw_step pm (pg_cr3 pm) 511 False = Some (pg_cr3 pm)"

fun table_addr :: "usize \<Rightarrow> usize list \<Rightarrow> usize" where
  "table_addr t [] = t"
| "table_addr t (i # is) = table_addr (next_addr t i) is"

lemma table_addr_snoc: "table_addr t (is @ [i]) = next_addr (table_addr t is) i"
  by (induction "is" arbitrary: t) auto

lemma descend_append: "descend pm f (is @ js) = Option.bind (descend pm f is) (\<lambda>g. descend pm g js)"
  by (induction "is" arbitrary: f) (auto simp: bind_assoc)

lemma hw_step_leaf: "hw_step pm f i False = Some g \<Longrightarrow> hw_step pm f i True = Some g"
  by (auto simp: hw_step_def Let_def split: if_splits)

lemma walk_table:
  assumes rec: "recursive pm" and len: "length is \<le> 3" and idx: "\<forall>i\<in>set is. i < 512"
    and f: "descend pm (pg_cr3 pm) is = Some f"
  shows "hw_walk pm (page_containing (table_addr P4 is)) = Some f"
proof -
  have r: "hw_step pm (pg_cr3 pm) 511 False = Some (pg_cr3 pm)"
    using rec by (simp add: recursive_def)
  note r' = hw_step_leaf[OF r]
  note n1 = next_indices[OF _ P4_indices(5)]
  consider "is = []" | a where "is = [a]" | a b where "is = [a, b]" | a b c where "is = [a, b, c]"
    using len by (cases "is"; cases "tl is"; cases "tl (tl is)"; cases "tl (tl (tl is))") auto
  then show ?thesis
  proof cases
    case 1
    then show ?thesis
      using f r r' by (simp add: hw_walk_def P4_indices)
  next
    case (2 a)
    then show ?thesis
      using f idx by (auto simp: hw_walk_def P4_indices n1 r bind_eq_Some_conv dest: hw_step_leaf)
  next
    case (3 a b)
    then have "a < 512" "b < 512"
      using idx by auto
    then show ?thesis
      using f 3 by (auto simp: hw_walk_def P4_indices n1 next_indices[OF _ n1(5)] r bind_eq_Some_conv dest: hw_step_leaf)
  next
    case (4 a b c)
    then have "a < 512" "b < 512" "c < 512"
      using idx by auto
    then show ?thesis
      using f 4 by (auto simp: hw_walk_def P4_indices n1 next_indices[OF _ n1(5)]
          next_indices[OF _ next_indices(5)[OF _ n1(5)]] r bind_eq_Some_conv dest: hw_step_leaf)
  qed
qed

lemma entry_at_table:
  assumes "recursive pm" "length is \<le> 3" "\<forall>i\<in>set is. i < 512" "descend pm (pg_cr3 pm) is = Some f" "i < 512"
  shows "entry_at pm (table_addr P4 is) i = Return (pg_tables pm f i)"
    and "set_entry_at (table_addr P4 is) i e pm =
      Return (pm\<lparr>pg_tables := (pg_tables pm)(f := (pg_tables pm f)(i := e))\<rparr>)"
  using assms by (simp_all add: entry_at_def set_entry_at_def walk_table ENTRY_COUNT_def)

lemma next_table_at:
  assumes "recursive pm" "length is \<le> 3" "\<forall>i\<in>set is. i < 512" "descend pm (pg_cr3 pm) is = Some f" "i < 512"
  shows "next_table pm (table_addr P4 is) i =
    Return (if hw_step pm f i False = None then None else Some (table_addr P4 (is @ [i])))"
  by (simp add: next_table_def next_table_address_def entry_at_table[OF assms] table_addr_snoc hw_step_def Let_def)

lemma find_p1_eq:
  assumes "recursive pm"
  shows "find_p1 pm p = Return (map_option (\<lambda>_. table_addr P4 [p4_index p, p3_index p, p2_index p])
    (descend pm (pg_cr3 pm) [p4_index p, p3_index p, p2_index p]))"
proof -
  let ?i = "p4_index p" and ?j = "p3_index p" and ?k = "p2_index p"
  have "next_table pm P4 ?i = Return (if hw_step pm (pg_cr3 pm) ?i False = None then None else Some (table_addr P4 [?i]))"
    using next_table_at[OF assms, of "[]"] by simp
  moreover have "next_table pm (table_addr P4 [?i]) ?j =
      Return (if hw_step pm f ?j False = None then None else Some (table_addr P4 [?i, ?j]))"
    if "hw_step pm (pg_cr3 pm) ?i False = Some f" for f
    using next_table_at[OF assms, of "[?i]"] that by simp
  moreover have "next_table pm (table_addr P4 [?i, ?j]) ?k =
      Return (if hw_step pm g ?k False = None then None else Some (table_addr P4 [?i, ?j, ?k]))"
    if "hw_step pm (pg_cr3 pm) ?i False = Some f" "hw_step pm f ?j False = Some g" for f g
    using next_table_at[OF assms, of "[?i, ?j]"] that by simp
  ultimately show ?thesis
    by (cases "hw_step pm (pg_cr3 pm) ?i False") (auto simp: find_p1_def and_then_def simp del: table_addr.simps
        split: option.splits Option.bind_splits)
qed

lemma translate_page_eq:
  assumes "recursive pm"
  shows "translate_page pm p = Return (hw_walk pm p)"
  using entry_at_table(1)[OF assms, of "[p4_index p, p3_index p, p2_index p]"]
  by (auto simp: translate_page_def find_p1_eq[OF assms] and_then_def hw_walk_def pointed_frame_def entry_address_def
      hw_step_def[of _ _ "p1_index p"] Let_def simp del: table_addr.simps descend.simps split: option.splits)

section \<open>Entries keep frames and flags\<close>

lemma entry_set_fields:
  assumes "frame_number f < 2 ^ 40" "flags AND ALL_FLAGS = flags"
  shows "containing_address (entry_set f flags AND ADDRESS_MASK) = f"
    "has_flag (entry_set f flags) PRESENT \<longleftrightarrow> has_flag flags PRESENT"
    "has_flag (entry_set f flags) HUGE_PAGE \<longleftrightarrow> has_flag flags HUGE_PAGE"
    "entry_flags (entry_set f flags) = flags"
proof -
  let ?n = "frame_number f"
  have start: "start_address f = push_bit 12 ?n"
    by (simp add: start_address_def PAGE_SIZE_def push_bit_eq_mult)
  have all: "ALL_FLAGS = mask 9 OR push_bit 63 1" and addr: "ADDRESS_MASK = push_bit 12 (mask 40)"
    by (simp_all add: ALL_FLAGS_def ADDRESS_MASK_def mask_eq_exp_minus_1)
  have "take_bit 40 ?n = ?n"
    using assms(1) by (subst take_bit_usize_iff) simp_all
  then have n: "n < 40" if "bit ?n n" for n
    using that by (metis bit_take_bit_iff)
  have fl: "n < 9 \<or> n = 63" if "bit flags n" for n
  proof -
    have "bit (flags AND ALL_FLAGS) n"
      using that assms(2) by simp
    then show ?thesis
      unfolding all bit_and_iff bit_or_iff bit_mask_iff bit_push_bit_iff bit_1_iff by auto
  qed
  have flags: "entry_set f flags AND ALL_FLAGS = flags"
  proof (rule bit_word_eqI)
    fix m :: nat
    assume "m < LENGTH(64)"
    have "\<not> bit (push_bit 12 ?n) 63"
      using n[of 51] by (auto simp: bit_push_bit_iff)
    moreover have "\<not> bit (push_bit 12 ?n) m" if "m < 9"
      using that by (simp add: bit_push_bit_iff)
    ultimately show "bit (entry_set f flags AND ALL_FLAGS) m \<longleftrightarrow> bit flags m"
      unfolding entry_set_def start all bit_and_iff bit_or_iff bit_mask_iff bit_push_bit_iff[of 63] bit_1_iff
      using fl[of m] \<open>m < LENGTH(64)\<close> by (cases "m = 63") auto
  qed
  have "entry_set f flags AND ADDRESS_MASK = push_bit 12 ?n"
    unfolding entry_set_def start addr
    by (rule bit_word_eqI) (use n fl in \<open>force simp: bit_simps\<close>)
  moreover have "drop_bit 12 (push_bit 12 ?n) = ?n"
    by (rule bit_word_eqI) (use n in \<open>force simp: bit_simps\<close>)
  ultimately show "containing_address (entry_set f flags AND ADDRESS_MASK) = f"
    by (simp add: containing_address_def div_PAGE_SIZE)
  show "entry_flags (entry_set f flags) = flags"
    using flags by (simp add: entry_flags_def)
  then show "has_flag (entry_set f flags) PRESENT \<longleftrightarrow> has_flag flags PRESENT"
    "has_flag (entry_set f flags) HUGE_PAGE \<longleftrightarrow> has_flag flags HUGE_PAGE"
    using entry_flags_tests[of "entry_set f flags"] by simp_all
qed

section \<open>The invariant of the tables\<close>

text \<open>A path from the top table to a table of a lower level, not through the recursive entry.\<close>

definition vpath :: "usize list \<Rightarrow> bool" where
  "vpath is \<longleftrightarrow> length is \<le> 3 \<and> (\<forall>i\<in>set is. i < 512) \<and> (is \<noteq> [] \<longrightarrow> hd is \<noteq> 511)"

text \<open>The frames that \<open>allocate_frame\<close> can still hand out.\<close>

definition can_allocate :: "page_mem \<Rightarrow> frame \<Rightarrow> bool" where
  "can_allocate pm f \<longleftrightarrow>
     (case ALLOCATOR (pg_memory pm) of None \<Rightarrow> False | Some a \<Rightarrow> available (MEMORY_MAP (pg_memory pm)) a f)"

text \<open>
  The top table refers to itself; no frame is a table in two places; no table can be allocated again; physical
  memory is addressable (52 bits).
\<close>

definition tables_wf :: "page_mem \<Rightarrow> bool" where
  "tables_wf pm \<longleftrightarrow> recursive pm \<and>
     (\<forall>is js f. vpath is \<and> vpath js \<and> descend pm (pg_cr3 pm) is = Some f \<and> descend pm (pg_cr3 pm) js = Some f \<longrightarrow> is = js) \<and>
     (\<exists>a. ALLOCATOR (pg_memory pm) = Some a \<and> frames_wf (MEMORY_MAP (pg_memory pm)) a) \<and>
     (\<forall>is f. vpath is \<and> descend pm (pg_cr3 pm) is = Some f \<longrightarrow> \<not> can_allocate pm f) \<and>
     (\<forall>f. can_allocate pm f \<longrightarrow> frame_number f < 2 ^ 40)"

lemma tables_wfD:
  assumes "tables_wf pm"
  shows "recursive pm"
    "vpath is \<Longrightarrow> vpath js \<Longrightarrow> descend pm (pg_cr3 pm) is = Some f \<Longrightarrow> descend pm (pg_cr3 pm) js = Some f \<Longrightarrow> is = js"
    "vpath is \<Longrightarrow> descend pm (pg_cr3 pm) is = Some f \<Longrightarrow> \<not> can_allocate pm f"
    "can_allocate pm f \<Longrightarrow> frame_number f < 2 ^ 40"
  using assms by (auto simp: tables_wf_def)

lemma tables_wfI:
  assumes "recursive pm"
    and "\<And>is js f. vpath is \<Longrightarrow> vpath js \<Longrightarrow> descend pm (pg_cr3 pm) is = Some f \<Longrightarrow> descend pm (pg_cr3 pm) js = Some f \<Longrightarrow> is = js"
    and "\<exists>a. ALLOCATOR (pg_memory pm) = Some a \<and> frames_wf (MEMORY_MAP (pg_memory pm)) a"
    and "\<And>is f. vpath is \<Longrightarrow> descend pm (pg_cr3 pm) is = Some f \<Longrightarrow> \<not> can_allocate pm f"
    and "\<And>f. can_allocate pm f \<Longrightarrow> frame_number f < 2 ^ 40"
  shows "tables_wf pm"
  using assms unfolding tables_wf_def by blast

lemma vpath_Nil [simp]: "vpath []"
  by (simp add: vpath_def)

lemma vpath_take: "vpath is \<Longrightarrow> vpath (take n is)"
  by (cases "is") (auto simp: vpath_def take_Cons' dest: in_set_takeD)

lemma vpath_page: "p4_index p \<noteq> 511 \<Longrightarrow> vpath [p4_index p, p3_index p, p2_index p]"
  by (simp add: vpath_def)

text \<open>A change off the path does not change where the path leads.\<close>

lemma descend_frame:
  assumes "pg_cr3 pm' = pg_cr3 pm"
    and "\<And>n f. n < length is \<Longrightarrow> descend pm (pg_cr3 pm) (take n is) = Some f \<Longrightarrow>
      hw_step pm' f (is ! n) False = hw_step pm f (is ! n) False"
  shows "descend pm' (pg_cr3 pm') is = descend pm (pg_cr3 pm) is"
proof -
  have "descend pm' (pg_cr3 pm') (take n is) = descend pm (pg_cr3 pm) (take n is)" if "n \<le> length is" for n
    using that
  proof (induction n)
    case (Suc n)
    then have "take (Suc n) is = take n is @ [is ! n]"
      by (simp add: take_Suc_conv_app_nth)
    then show ?case
      using Suc assms(2)[of n] by (cases "descend pm (pg_cr3 pm) (take n is)") (auto simp: descend_append)
  qed (simp add: assms(1))
  then show ?thesis
    by (metis order_refl take_all)
qed

text \<open>Writing one entry.\<close>

definition write_entry :: "frame \<Rightarrow> usize \<Rightarrow> u64 \<Rightarrow> page_mem \<Rightarrow> page_mem" where
  "write_entry f i e pm = pm\<lparr>pg_tables := (pg_tables pm)(f := (pg_tables pm f)(i := e))\<rparr>"

lemma write_entry_simps [simp]:
  "pg_cr3 (write_entry f i e pm) = pg_cr3 pm" "pg_memory (write_entry f i e pm) = pg_memory pm"
  "can_allocate (write_entry f i e pm) = can_allocate pm"
  by (simp_all add: write_entry_def can_allocate_def fun_eq_iff split: option.split)

lemma hw_step_write:
  "(g, j) \<noteq> (f, i) \<Longrightarrow> hw_step (write_entry f i e pm) g j leaf = hw_step pm g j leaf"
  by (auto simp: hw_step_def write_entry_def)

lemma descend_write:
  assumes wf: "tables_wf pm" and p: "vpath p" "descend pm (pg_cr3 pm) p = Some f"
    and q: "vpath q" "\<And>n. n < length q \<Longrightarrow> take (Suc n) q \<noteq> p @ [i]"
  shows "descend (write_entry f i e pm) (pg_cr3 pm) q = descend pm (pg_cr3 pm) q"
proof -
  have "descend (write_entry f i e pm) (pg_cr3 (write_entry f i e pm)) q = descend pm (pg_cr3 pm) q"
  proof (rule descend_frame)
    fix n g
    assume n: "n < length q" "descend pm (pg_cr3 pm) (take n q) = Some g"
    have "(g, q ! n) \<noteq> (f, i)"
    proof
      assume "(g, q ! n) = (f, i)"
      then have "take n q = p"
        using tables_wfD(2)[OF wf vpath_take[OF q(1)] p(1) n(2)] p(2) by simp
      then show False
        using q(2)[OF n(1)] n(1) \<open>(g, q ! n) = (f, i)\<close> by (simp add: take_Suc_conv_app_nth)
    qed
    then show "hw_step (write_entry f i e pm) g (q ! n) False = hw_step pm g (q ! n) False"
      by (rule hw_step_write)
  qed simp
  then show ?thesis
    by simp
qed

lemma recursive_write:
  assumes wf: "tables_wf pm" and p: "vpath p" "descend pm (pg_cr3 pm) p = Some f" "p = [] \<Longrightarrow> i \<noteq> 511"
  shows "recursive (write_entry f i e pm)"
proof -
  have "(pg_cr3 pm, 511) \<noteq> (f, i)"
    using tables_wfD(2)[OF wf vpath_Nil p(1), of f] p by auto
  then show ?thesis
    using tables_wfD(1)[OF wf] by (auto simp: recursive_def hw_step_write)
qed

section \<open>The finite map the tables implement\<close>

type_synonym page_index = "usize \<times> usize \<times> usize \<times> usize"

definition page_index :: "page \<Rightarrow> page_index" where
  "page_index p = (p4_index p, p3_index p, p2_index p, p1_index p)"

text \<open>The entry of the last level for a page, and the map from pages to frames outside the recursive region.\<close>

fun leaf_entry :: "page_mem \<Rightarrow> page_index \<Rightarrow> u64 option" where
  "leaf_entry pm (i4, i3, i2, i1) =
     (if i4 \<noteq> 511 then map_option (\<lambda>f. pg_tables pm f i1) (descend pm (pg_cr3 pm) [i4, i3, i2]) else None)"

definition valid_index :: "page_index \<Rightarrow> bool" where
  "valid_index x = (case x of (i4, i3, i2, i1) \<Rightarrow> i4 < 512 \<and> i3 < 512 \<and> i2 < 512 \<and> i1 < 512 \<and> i4 \<noteq> 511)"

definition page_map :: "page_mem \<Rightarrow> page_index \<Rightarrow> frame option" where
  "page_map pm x =
     (if valid_index x then
        Option.bind (leaf_entry pm x)
          (\<lambda>e. if has_flag e PRESENT then Some (containing_address (e AND ADDRESS_MASK)) else None)
      else None)"

lemma valid_page_index: "p4_index p \<noteq> 511 \<Longrightarrow> valid_index (page_index p)"
  by (simp add: valid_index_def page_index_def)

lemma page_map_walk: "p4_index p \<noteq> 511 \<Longrightarrow> page_map pm (page_index p) = hw_walk pm p"
  using valid_page_index[of p]
  by (auto simp: page_map_def page_index_def hw_walk_def hw_step_def[of _ _ "p1_index p"] Let_def
      simp del: descend.simps split: Option.bind_splits)

lemma valid_index_path: "valid_index (i4, i3, i2, i1) \<Longrightarrow> vpath [i4, i3, i2]"
  by (simp add: valid_index_def vpath_def)

text \<open>Two states with the same last-level entries, up to tables of unused entries, have the same map.\<close>

lemma page_map_cong:
  assumes "\<And>x. valid_index x \<Longrightarrow> leaf_entry pm' x = leaf_entry pm x \<or> leaf_entry pm x = None \<and> leaf_entry pm' x = Some 0"
  shows "page_map pm' = page_map pm"
proof (rule ext)
  show "page_map pm' x = page_map pm x" for x
    using assms[of x] by (auto simp: page_map_def PRESENT_def has_flag_def)
qed

subsection \<open>Writing an entry of the last level\<close>

lemma descend_leaf_write:
  assumes wf: "tables_wf pm" and p: "vpath p" "descend pm (pg_cr3 pm) p = Some f" "length p = 3" and q: "vpath q"
  shows "descend (write_entry f i e pm) (pg_cr3 pm) q = descend pm (pg_cr3 pm) q"
proof (rule descend_write[OF wf p(1,2) q])
  show "take (Suc n) q \<noteq> p @ [i]" if "n < length q" for n
  proof
    assume eq: "take (Suc n) q = p @ [i]"
    have "length (take (Suc n) q) = 4"
      unfolding eq using p(3) by simp
    then show False
      using q by (auto simp: vpath_def)
  qed
qed

lemma leaf_write_wf:
  assumes wf: "tables_wf pm" and x: "valid_index (i4, i3, i2, i1)"
    and f: "descend pm (pg_cr3 pm) [i4, i3, i2] = Some f"
  shows "tables_wf (write_entry f i1 e pm)"
proof -
  have "recursive (write_entry f i1 e pm)"
    using recursive_write[OF wf valid_index_path[OF x] f] by simp
  moreover have "descend (write_entry f i1 e pm) (pg_cr3 pm) q = descend pm (pg_cr3 pm) q" if "vpath q" for q
    using descend_leaf_write[OF wf valid_index_path[OF x] f _ that] by simp
  moreover have "\<exists>a. ALLOCATOR (pg_memory pm) = Some a \<and> frames_wf (MEMORY_MAP (pg_memory pm)) a"
    using wf by (simp add: tables_wf_def)
  ultimately show ?thesis
    using tables_wfD[OF wf] by (intro tables_wfI) (simp_all del: descend.simps)
qed

lemma leaf_write_entry:
  assumes wf: "tables_wf pm" and x: "valid_index (i4, i3, i2, i1)"
    and f: "descend pm (pg_cr3 pm) [i4, i3, i2] = Some f" and y: "valid_index y"
  shows "leaf_entry (write_entry f i1 e pm) y = (if y = (i4, i3, i2, i1) then Some e else leaf_entry pm y)"
proof -
  obtain j4 j3 j2 j1 where y4: "y = (j4, j3, j2, j1)"
    by (cases y)
  note vy = valid_index_path[OF y[unfolded y4]] and vx = valid_index_path[OF x]
  have same: "descend (write_entry f i1 e pm) (pg_cr3 pm) [j4, j3, j2] = descend pm (pg_cr3 pm) [j4, j3, j2]"
    using descend_leaf_write[OF wf vx f _ vy] by simp
  show ?thesis
  proof (cases "descend pm (pg_cr3 pm) [j4, j3, j2]")
    case None
    then have "[j4, j3, j2] \<noteq> [i4, i3, i2]"
      using f None by (auto simp del: descend.simps)
    then show ?thesis
      using None same y by (auto simp: y4 simp del: descend.simps)
  next
    case (Some g)
    have "g = f \<longleftrightarrow> [j4, j3, j2] = [i4, i3, i2]"
      using tables_wfD(2)[OF wf vy vx Some] f Some by auto
    then show ?thesis
      using Some same y by (auto simp: y4 write_entry_def valid_index_def simp del: descend.simps)
  qed
qed

lemma page_map_leaf_write:
  assumes "tables_wf pm" "valid_index (i4, i3, i2, i1)" "descend pm (pg_cr3 pm) [i4, i3, i2] = Some f"
  shows "page_map (write_entry f i1 e pm) = (page_map pm)((i4, i3, i2, i1) :=
    (if has_flag e PRESENT then Some (containing_address (e AND ADDRESS_MASK)) else None))"
proof (rule ext)
  fix y
  show "page_map (write_entry f i1 e pm) y = ((page_map pm)((i4, i3, i2, i1) :=
    (if has_flag e PRESENT then Some (containing_address (e AND ADDRESS_MASK)) else None))) y"
    using assms(2) leaf_write_entry[OF assms, of y e] by (auto simp: page_map_def simp del: leaf_entry.simps)
qed

subsection \<open>Adding a table\<close>

text \<open>The effect of \<open>next_table_create\<close> on an absent entry: the entry refers to a fresh frame of unused entries.\<close>

definition add_table :: "frame \<Rightarrow> usize \<Rightarrow> frame \<Rightarrow> u64 \<Rightarrow> page_mem \<Rightarrow> page_mem" where
  "add_table f i g e pm =
     (let pm1 = write_entry f i e pm
      in pm1\<lparr>pg_tables := (pg_tables pm1)(g := (\<lambda>i. if i < ENTRY_COUNT then 0 else pg_tables pm1 g i))\<rparr>)"

lemma add_table_simps [simp]:
  "pg_cr3 (add_table f i g e pm) = pg_cr3 pm" "pg_memory (add_table f i g e pm) = pg_memory pm"
  "can_allocate (add_table f i g e pm) = can_allocate pm"
  by (simp_all add: add_table_def write_entry_def can_allocate_def fun_eq_iff Let_def split: option.split)

lemma hw_step_add_table:
  "h \<noteq> g \<Longrightarrow> hw_step (add_table f i g e pm) h j leaf = hw_step (write_entry f i e pm) h j leaf"
  "j < 512 \<Longrightarrow> hw_step (add_table f i g e pm) g j leaf = None"
  by (simp_all add: hw_step_def add_table_def Let_def ENTRY_COUNT_def has_flag_def PRESENT_def)

text \<open>
  The situation of a table creation: a table \<open>f\<close> at path \<open>p\<close> whose entry \<open>i\<close> leads nowhere, and a frame \<open>g\<close>
  that is no table.
\<close>

definition creation :: "page_mem \<Rightarrow> usize list \<Rightarrow> frame \<Rightarrow> usize \<Rightarrow> frame \<Rightarrow> bool" where
  "creation pm p f i g \<longleftrightarrow> tables_wf pm \<and> vpath (p @ [i]) \<and> descend pm (pg_cr3 pm) p = Some f \<and>
     hw_step pm f i False = None \<and> (\<forall>q. vpath q \<longrightarrow> descend pm (pg_cr3 pm) q \<noteq> Some g)"

lemma creationD:
  assumes "creation pm p f i g"
  shows "tables_wf pm" "vpath (p @ [i])" "vpath p" "descend pm (pg_cr3 pm) p = Some f" "hw_step pm f i False = None"
    "vpath q \<Longrightarrow> descend pm (pg_cr3 pm) q \<noteq> Some g" "g \<noteq> f" "g \<noteq> pg_cr3 pm" "i < 512" "length p \<le> 2"
    "p = [] \<Longrightarrow> i \<noteq> 511"
proof -
  show "vpath p"
    using vpath_take[of "p @ [i]" "length p"] assms by (simp add: creation_def)
  then show "g \<noteq> f" "g \<noteq> pg_cr3 pm"
    using assms by (auto simp: creation_def dest: spec[of _ "[]"])
qed (use assms in \<open>auto simp: creation_def vpath_def\<close>)

lemma descend_other:
  assumes c: "creation pm p f i g" and q: "vpath q" "\<And>n. n < length q \<Longrightarrow> take (Suc n) q \<noteq> p @ [i]"
  shows "descend (add_table f i g e pm) (pg_cr3 pm) q = descend pm (pg_cr3 pm) q"
proof -
  note C = creationD[OF c]
  have "descend (add_table f i g e pm) (pg_cr3 (add_table f i g e pm)) q = descend (write_entry f i e pm) (pg_cr3 (write_entry f i e pm)) q"
  proof (rule descend_frame)
    fix n h
    assume n: "n < length q" "descend (write_entry f i e pm) (pg_cr3 (write_entry f i e pm)) (take n q) = Some h"
    have "descend (write_entry f i e pm) (pg_cr3 pm) (take n q) = descend pm (pg_cr3 pm) (take n q)"
    proof (rule descend_write[OF C(1,3,4) vpath_take[OF q(1)]])
      show "take (Suc m) (take n q) \<noteq> p @ [i]" if "m < length (take n q)" for m
        using that q(2)[of m] by (simp add: min_absorb1)
    qed
    then have "h \<noteq> g"
      using n(2) C(6)[OF vpath_take[OF q(1)], of n] by auto
    then show "hw_step (add_table f i g e pm) h (q ! n) False = hw_step (write_entry f i e pm) h (q ! n) False"
      by (rule hw_step_add_table)
  qed simp
  then show ?thesis
    using descend_write[OF C(1,3,4) q] by simp
qed

lemma take_neq_snoc: "take n p \<noteq> p @ [i]"
  by (metis length_append_singleton length_take min.cobounded1 not_less_eq_eq order_refl)

lemma descend_new:
  assumes c: "creation pm p f i g" and e: "hw_step (write_entry f i e pm) f i False = Some g" and q: "vpath (p @ [i] @ r)"
  shows "descend (add_table f i g e pm) (pg_cr3 pm) (p @ [i] @ r) = (if r = [] then Some g else None)"
    "descend (write_entry f i e pm) (pg_cr3 pm) (p @ [i]) = Some g"
    "descend pm (pg_cr3 pm) (p @ [i] @ r) = None"
proof -
  note C = creationD[OF c]
  have "descend (add_table f i g e pm) (pg_cr3 pm) p = Some f"
    using descend_other[OF c C(3) take_neq_snoc] C(4) by simp
  moreover have "hw_step (add_table f i g e pm) f i False = Some g"
    using hw_step_add_table(1)[of f g] C(7) e by simp
  moreover have "hd r < 512" if "r \<noteq> []"
    using q that by (cases r) (auto simp: vpath_def)
  ultimately show "descend (add_table f i g e pm) (pg_cr3 pm) (p @ [i] @ r) = (if r = [] then Some g else None)"
    by (cases r) (simp_all add: descend_append hw_step_add_table(2))
  show "descend (write_entry f i e pm) (pg_cr3 pm) (p @ [i]) = Some g"
    using descend_write[OF C(1,3,4) C(3) take_neq_snoc] C(4) e by (simp add: descend_append)
  show "descend pm (pg_cr3 pm) (p @ [i] @ r) = None"
    using C(4,5) by (simp add: descend_append)
qed

text \<open>Every path either passes the new entry or is not concerned.\<close>

lemma path_cases:
  obtains r where "q = p @ [i] @ r" | "\<And>n. n < length q \<Longrightarrow> take (Suc n) q \<noteq> p @ [i]"
proof (cases "\<exists>n. n < length q \<and> take (Suc n) q = p @ [i]")
  case True
  then obtain n where "take (Suc n) q = p @ [i]"
    by blast
  then have "q = p @ [i] @ drop (Suc n) q"
    by (metis append.assoc append_take_drop_id)
  then show thesis
    using that(1) by blast
next
  case False
  then show thesis
    using that(2) by blast
qed

lemma add_table_page_map:
  assumes c: "creation pm p f i g" and e: "hw_step (write_entry f i e pm) f i False = Some g"
  shows "page_map (add_table f i g e pm) = page_map pm"
proof (rule page_map_cong)
  note C = creationD[OF c]
  fix x
  assume x: "valid_index x"
  obtain j4 j3 j2 j1 where x4: "x = (j4, j3, j2, j1)"
    by (cases x)
  note v = valid_index_path[OF x[unfolded x4]]
  show "leaf_entry (add_table f i g e pm) x = leaf_entry pm x \<or>
      leaf_entry pm x = None \<and> leaf_entry (add_table f i g e pm) x = Some 0"
  proof (cases rule: path_cases[of "[j4, j3, j2]" p i])
    case (1 r)
    have "pg_tables (add_table f i g e pm) g j1 = 0"
      using x by (simp add: x4 valid_index_def add_table_def Let_def ENTRY_COUNT_def)
    then show ?thesis
      using descend_new(1,3)[OF c e, of r] v 1 by (auto simp: x4 simp del: descend.simps split: if_splits)
  next
    case 2
    have same: "descend (add_table f i g e pm) (pg_cr3 pm) [j4, j3, j2] = descend pm (pg_cr3 pm) [j4, j3, j2]"
      by (rule descend_other[OF c v 2])
    have "pg_tables (add_table f i g e pm) h j1 = pg_tables pm h j1" if h: "descend pm (pg_cr3 pm) [j4, j3, j2] = Some h" for h
    proof -
      have "h \<noteq> g"
        using C(6)[OF v] h by auto
      moreover have "h \<noteq> f"
        using tables_wfD(2)[OF C(1) v C(3) h] C(4,10) by auto
      ultimately show ?thesis
        by (simp add: add_table_def write_entry_def Let_def)
    qed
    then show ?thesis
      using same by (cases "descend pm (pg_cr3 pm) [j4, j3, j2]") (simp_all add: x4 del: descend.simps)
  qed
qed

lemma add_table_recursive:
  assumes c: "creation pm p f i g"
  shows "recursive (write_entry f i e pm)" "recursive (add_table f i g e pm)"
proof -
  note C = creationD[OF c]
  show "recursive (write_entry f i e pm)"
    using recursive_write[OF C(1,3,4,11)] .
  then show "recursive (add_table f i g e pm)"
    using C(8) by (auto simp: recursive_def hw_step_add_table(1))
qed

lemma add_table_unique:
  assumes c: "creation pm p f i g" and e: "hw_step (write_entry f i e pm) f i False = Some g"
    and q: "vpath q" "descend (add_table f i g e pm) (pg_cr3 pm) q = Some h"
  shows "h = g \<and> q = p @ [i] \<or> h \<noteq> g \<and> descend pm (pg_cr3 pm) q = Some h"
proof (cases rule: path_cases[of q p i])
  case (1 r)
  then show ?thesis
    using descend_new(1)[OF c e, of r] q by (auto split: if_splits)
next
  case 2
  then show ?thesis
    using descend_other[OF c q(1) 2] creationD(6)[OF c q(1)] q(2) by auto
qed

subsection \<open>next_table_create\<close>

lemma memory_irrelevant [simp]:
  "hw_step (pm\<lparr>pg_memory := m\<rparr>) f i leaf = hw_step pm f i leaf"
  "descend (pm\<lparr>pg_memory := m\<rparr>) f is = descend pm f is"
  "page_map (pm\<lparr>pg_memory := m\<rparr>) = page_map pm"
proof -
  show step: "hw_step (pm\<lparr>pg_memory := m\<rparr>) f i leaf = hw_step pm f i leaf" for f i leaf
    by (simp add: hw_step_def)
  show desc: "descend (pm\<lparr>pg_memory := m\<rparr>) f is = descend pm f is" for f "is"
    by (induction "is" arbitrary: f) (simp_all add: step)
  have "leaf_entry (pm\<lparr>pg_memory := m\<rparr>) x = leaf_entry pm x" for x
    by (cases x) (simp add: desc del: descend.simps)
  then show "page_map (pm\<lparr>pg_memory := m\<rparr>) = page_map pm"
    by (simp add: page_map_def fun_eq_iff del: leaf_entry.simps)
qed

lemma take_frame:
  assumes wf: "tables_wf pm" and r: "allocate_frame (pg_memory pm) = Some (Return (Some g, mem))"
  shows "tables_wf (pm\<lparr>pg_memory := mem\<rparr>)" "can_allocate pm g" "frame_number g < 2 ^ 40"
    "can_allocate (pm\<lparr>pg_memory := mem\<rparr>) h \<longleftrightarrow> can_allocate pm h \<and> h \<noteq> g"
proof -
  obtain a where a: "ALLOCATOR (pg_memory pm) = Some a" "frames_wf (MEMORY_MAP (pg_memory pm)) a"
    using wf by (auto simp: tables_wf_def)
  obtain a' where mem: "mem = (pg_memory pm)\<lparr>ALLOCATOR := Some a'\<rparr>" and h: "handed_out (MEMORY_MAP (pg_memory pm)) a (Some g) a'"
    using allocate_frame_spec[OF a] r by auto
  show g: "can_allocate pm g"
    using h a by (simp add: can_allocate_def handed_out_def)
  then show "frame_number g < 2 ^ 40"
    by (rule tables_wfD(4)[OF wf])
  have can: "can_allocate (pm\<lparr>pg_memory := mem\<rparr>) h \<longleftrightarrow> can_allocate pm h \<and> h \<noteq> g" for h
    using h a by (simp add: can_allocate_def handed_out_def mem)
  then show "can_allocate (pm\<lparr>pg_memory := mem\<rparr>) h \<longleftrightarrow> can_allocate pm h \<and> h \<noteq> g" .
  have "recursive (pm\<lparr>pg_memory := mem\<rparr>)"
    using tables_wfD(1)[OF wf] by (simp add: recursive_def)
  moreover have "\<exists>a. ALLOCATOR mem = Some a \<and> frames_wf (MEMORY_MAP mem) a"
    using h by (simp add: mem handed_out_def)
  ultimately show "tables_wf (pm\<lparr>pg_memory := mem\<rparr>)"
    using tables_wfD(2-4)[OF wf] by (intro tables_wfI) (auto simp: can)
qed

lemma add_table_wf:
  assumes c: "creation pm p f i g" and e: "hw_step (write_entry f i e pm) f i False = Some g" and g: "\<not> can_allocate pm g"
  shows "tables_wf (add_table f i g e pm)"
proof (rule tables_wfI)
  note C = creationD[OF c] and u = add_table_unique[OF c e]
  show "recursive (add_table f i g e pm)"
    by (rule add_table_recursive[OF c])
  show "\<exists>a. ALLOCATOR (pg_memory (add_table f i g e pm)) = Some a \<and>
      frames_wf (MEMORY_MAP (pg_memory (add_table f i g e pm))) a"
    using C(1) by (simp add: tables_wf_def)
  show "q = r" if "vpath q" "vpath r" "descend (add_table f i g e pm) (pg_cr3 (add_table f i g e pm)) q = Some h"
    "descend (add_table f i g e pm) (pg_cr3 (add_table f i g e pm)) r = Some h" for q r h
    using u[OF that(1), of h] u[OF that(2), of h] that tables_wfD(2)[OF C(1) that(1,2)] by auto
  show "\<not> can_allocate (add_table f i g e pm) h"
    if "vpath q" "descend (add_table f i g e pm) (pg_cr3 (add_table f i g e pm)) q = Some h" for q h
    using u[OF that(1), of h] that(2) g tables_wfD(3)[OF C(1) that(1)] by auto
qed (use tables_wfD(4)[OF creationD(1)[OF c]] in auto)

definition grown :: "page_mem \<Rightarrow> page_mem \<Rightarrow> usize list \<Rightarrow> bool" where
  "grown pm pm' q \<longleftrightarrow> tables_wf pm' \<and> pg_cr3 pm' = pg_cr3 pm \<and> (\<exists>g. descend pm' (pg_cr3 pm') q = Some g) \<and>
     page_map pm' = page_map pm \<and> (\<forall>h. can_allocate pm' h \<longrightarrow> can_allocate pm h)"

lemma next_table_create_spec:
  assumes wf: "tables_wf pm" and p: "vpath (p @ [i])" "descend pm (pg_cr3 pm) p = Some f"
    and r: "next_table_create (table_addr P4 p) i pm = Some (Return (a, pm'))"
  shows "a = table_addr P4 (p @ [i]) \<and> grown pm pm' (p @ [i])"
proof -
  let ?t = "table_addr P4 p"
  have i: "i < 512" and lp: "length p \<le> 3" and ip: "\<forall>j\<in>set p. j < 512"
    using p(1) by (auto simp: vpath_def)
  note rec = tables_wfD(1)[OF wf]
  show ?thesis
  proof (cases "hw_step pm f i False")
    case (Some g)
    then have "a = table_addr P4 (p @ [i])" "pm' = pm"
      using r by (simp_all add: next_table_create_def next_table_at[OF rec lp ip p(2) i])
    then show ?thesis
      using wf p(2) Some by (simp add: grown_def descend_append)
  next
    case None
    let ?e = "\<lambda>g. entry_set g (PRESENT OR WRITABLE OR USER_ACCESSIBLE)"
    obtain g mem where g: "allocate_frame (pg_memory pm) = Some (Return (Some g, mem))"
      and cont: "bind_outcome (set_entry_at ?t i (?e g) (pm\<lparr>pg_memory := mem\<rparr>))
        (\<lambda>pm1. bind_outcome (bind_outcome (next_table pm1 ?t i) unwrap)
        (\<lambda>a. bind_outcome (zero_table a pm1)
        (\<lambda>pm2. bind_outcome (bind_outcome (next_table pm2 ?t i) unwrap) (\<lambda>a. Return (a, pm2))))) = Return (a, pm')"
      using r None by (auto simp: next_table_create_def next_table_at[OF rec lp ip p(2) i] result_simps unwrap_def
          bind_eq_Some_conv split: outcome.splits if_splits option.splits)
    let ?pm = "pm\<lparr>pg_memory := mem\<rparr>"
    note T = take_frame[OF wf g]
    have no_path: "descend ?pm (pg_cr3 ?pm) q \<noteq> Some g" if "vpath q" for q
      using tables_wfD(3)[OF wf that] T(2) by auto
    have c: "creation ?pm p f i g"
      using T(1) p None no_path by (simp add: creation_def)
    note C = creationD[OF c]
    have flags: "(PRESENT OR WRITABLE OR USER_ACCESSIBLE) AND ALL_FLAGS = PRESENT OR WRITABLE OR USER_ACCESSIBLE"
      "has_flag (PRESENT OR WRITABLE OR USER_ACCESSIBLE) PRESENT" "\<not> has_flag (PRESENT OR WRITABLE OR USER_ACCESSIBLE) HUGE_PAGE"
      by (simp_all add: PRESENT_def WRITABLE_def USER_ACCESSIBLE_def ALL_FLAGS_def HUGE_PAGE_def has_flag_def)
    have e: "hw_step (write_entry f i (?e g) ?pm) f i False = Some g"
      using entry_set_fields[OF T(3) flags(1)] flags(2,3) by (simp add: hw_step_def write_entry_def Let_def)
    let ?pm1 = "write_entry f i (?e g) ?pm" and ?pm2 = "add_table f i g (?e g) ?pm"
    note R = add_table_recursive[OF c, of "?e g"]
    have d1: "descend ?pm1 (pg_cr3 ?pm1) (p @ [i]) = Some g" and d2: "descend ?pm2 (pg_cr3 ?pm2) (p @ [i]) = Some g"
      using descend_new(1,2)[OF c e, of "[]"] p(1) by simp_all
    have f1: "descend ?pm1 (pg_cr3 ?pm1) p = Some f" and f2: "descend ?pm2 (pg_cr3 ?pm2) p = Some f"
      using descend_write[OF C(1,3,4) C(3) take_neq_snoc] descend_other[OF c C(3) take_neq_snoc] p(2) by simp_all
    have "set_entry_at ?t i (?e g) ?pm = Return ?pm1"
      using entry_at_table(2)[OF tables_wfD(1)[OF T(1)] lp ip _ i] p(2) by (simp add: write_entry_def)
    moreover have "next_table ?pm1 ?t i = Return (Some (table_addr P4 (p @ [i])))"
      using next_table_at[OF R(1) lp ip f1 i] e by simp
    moreover have "zero_table (table_addr P4 (p @ [i])) ?pm1 = Return ?pm2"
      using walk_table[OF R(1) _ _ d1] C(10) ip i by (simp add: zero_table_def add_table_def Let_def)
    moreover have "next_table ?pm2 ?t i = Return (Some (table_addr P4 (p @ [i])))"
      using next_table_at[OF R(2) lp ip f2 i] d2 f2 by (simp add: descend_append)
    ultimately have "a = table_addr P4 (p @ [i])" "pm' = ?pm2"
      using cont by (simp_all add: unwrap_def)
    moreover have "grown pm ?pm2 (p @ [i])"
      using add_table_wf[OF c e] d2 add_table_page_map[OF c e] T(4) by (simp add: grown_def)
    ultimately show ?thesis
      by simp
  qed
qed

subsection \<open>map_to, unmap and remap\<close>

lemma then_table_Return:
  "then_table m k = Some (Return x) \<longleftrightarrow> (\<exists>t pm. m = Some (Return (t, pm)) \<and> k t pm = Some (Return x))"
  by (cases m; cases "the m") (auto simp: then_table_def split: prod.splits)

lemma grown_trans: "grown pm pm1 q \<Longrightarrow> grown pm1 pm2 r \<Longrightarrow> grown pm pm2 r"
  by (auto simp: grown_def)

lemma map_to_spec:
  assumes wf: "tables_wf pm" and p: "p4_index p \<noteq> 511" and r: "map_to p f flags pm = Some (Return pm')"
  obtains pm3 g where "grown pm pm3 [p4_index p, p3_index p, p2_index p]"
    "descend pm3 (pg_cr3 pm3) [p4_index p, p3_index p, p2_index p] = Some g"
    "pg_tables pm3 g (p1_index p) = 0" "pm' = write_entry g (p1_index p) (entry_set f (flags OR PRESENT)) pm3"
proof -
  let ?i = "p4_index p" and ?j = "p3_index p" and ?k = "p2_index p" and ?l = "p1_index p"
  have v: "vpath ([] @ [?i])" "vpath ([?i] @ [?j])" "vpath ([?i, ?j] @ [?k])"
    using p by (simp_all add: vpath_def)
  obtain t1 pm1 t2 pm2 t3 pm3 where c1: "next_table_create P4 ?i pm = Some (Return (t1, pm1))"
    and c2: "next_table_create t1 ?j pm1 = Some (Return (t2, pm2))"
    and c3: "next_table_create t2 ?k pm2 = Some (Return (t3, pm3))"
    and fin: "bind_outcome (entry_at pm3 t3 ?l)
        (\<lambda>e. if is_unused e then set_entry_at t3 ?l (entry_set f (flags OR PRESENT)) pm3 else Panic) = Return pm'"
    using r by (auto simp: map_to_def then_table_Return)
  have 1: "t1 = table_addr P4 [?i]" "grown pm pm1 [?i]"
    using next_table_create_spec[OF wf v(1), of "pg_cr3 pm" t1 pm1] c1 by simp_all
  then obtain g1 where g1: "tables_wf pm1" "descend pm1 (pg_cr3 pm1) [?i] = Some g1"
    by (auto simp: grown_def simp del: descend.simps)
  have 2: "t2 = table_addr P4 [?i, ?j]" "grown pm1 pm2 [?i, ?j]"
    using next_table_create_spec[OF g1(1) v(2) g1(2)] c2 1(1) by (simp_all del: table_addr.simps)
  then obtain g2 where g2: "tables_wf pm2" "descend pm2 (pg_cr3 pm2) [?i, ?j] = Some g2"
    by (auto simp: grown_def simp del: descend.simps)
  have 3: "t3 = table_addr P4 [?i, ?j, ?k]" "grown pm2 pm3 [?i, ?j, ?k]"
    using next_table_create_spec[OF g2(1) v(3) g2(2)] c3 2(1) by (simp_all del: table_addr.simps)
  then obtain g3 where g3: "tables_wf pm3" "descend pm3 (pg_cr3 pm3) [?i, ?j, ?k] = Some g3"
    by (auto simp: grown_def simp del: descend.simps)
  note at = entry_at_table[OF tables_wfD(1)[OF g3(1)] _ _ g3(2)]
  show thesis
  proof (rule that)
    show "grown pm pm3 [?i, ?j, ?k]"
      using 1(2) 2(2) 3(2) by (blast intro: grown_trans)
  qed (use fin g3(2) 3(1) at in \<open>auto simp: is_unused_def write_entry_def result_simps simp del: table_addr.simps descend.simps split: if_splits\<close>)
qed

text \<open>With all tables in place nothing is allocated: an unused entry is set, a used one is never overwritten.\<close>

lemma map_to_existing:
  assumes wf: "tables_wf pm" and p: "p4_index p \<noteq> 511"
    and d: "descend pm (pg_cr3 pm) [p4_index p, p3_index p, p2_index p] = Some g"
  shows "map_to p f flags pm = Some (if pg_tables pm g (p1_index p) = 0
    then Return (write_entry g (p1_index p) (entry_set f (flags OR PRESENT)) pm) else Panic)"
proof -
  let ?i = "p4_index p" and ?j = "p3_index p" and ?k = "p2_index p"
  note rec = tables_wfD(1)[OF wf]
  obtain f1 f2 where s: "hw_step pm (pg_cr3 pm) ?i False = Some f1" "hw_step pm f1 ?j False = Some f2"
    "hw_step pm f2 ?k False = Some g"
    using d by (auto simp: bind_eq_Some_conv)
  have "next_table pm P4 ?i = Return (Some (table_addr P4 [?i]))"
    "next_table pm (table_addr P4 [?i]) ?j = Return (Some (table_addr P4 [?i, ?j]))"
    "next_table pm (table_addr P4 [?i, ?j]) ?k = Return (Some (table_addr P4 [?i, ?j, ?k]))"
    using next_table_at[OF rec, of "[]" "pg_cr3 pm"] next_table_at[OF rec, of "[?i]" f1]
      next_table_at[OF rec, of "[?i, ?j]" f2] s by simp_all
  then have "map_to p f flags pm =
      Some (bind_outcome (entry_at pm (table_addr P4 [?i, ?j, ?k]) (p1_index p))
        (\<lambda>e. if is_unused e then set_entry_at (table_addr P4 [?i, ?j, ?k]) (p1_index p) (entry_set f (flags OR PRESENT)) pm else Panic))"
    by (simp add: map_to_def then_table_def next_table_create_def del: table_addr.simps)
  then show ?thesis
    using entry_at_table[OF rec _ _ d] by (simp add: is_unused_def write_entry_def del: table_addr.simps)
qed

lemma unmap_return_spec:
  assumes wf: "tables_wf pm" and p: "p4_index p \<noteq> 511"
  shows "unmap_return p pm =
    (case page_map pm (page_index p) of
       None \<Rightarrow> Panic
     | Some f \<Rightarrow> Return (f, write_entry (the (descend pm (pg_cr3 pm) [p4_index p, p3_index p, p2_index p])) (p1_index p) 0 pm))"
proof (cases "descend pm (pg_cr3 pm) [p4_index p, p3_index p, p2_index p]")
  case None
  then have "page_map pm (page_index p) = None"
    by (simp add: page_map_walk[OF p] hw_walk_def del: descend.simps)
  then show ?thesis
    using None by (simp add: unmap_return_def find_p1_eq[OF tables_wfD(1)[OF wf]] unwrap_def del: descend.simps)
next
  case (Some g)
  note at = entry_at_table[OF tables_wfD(1)[OF wf] _ _ Some]
  have "page_map pm (page_index p) = pointed_frame (pg_tables pm g (p1_index p))"
    by (simp add: page_map_walk[OF p] hw_walk_def Some hw_step_def pointed_frame_def entry_address_def Let_def del: descend.simps)
  then show ?thesis
    using Some at by (auto simp: unmap_return_def find_p1_eq[OF tables_wfD(1)[OF wf]] unwrap_def write_entry_def
        simp del: descend.simps table_addr.simps split: option.split)
qed

lemma page_map_Some_path:
  assumes "page_map pm (page_index p) = Some f"
  obtains g where "descend pm (pg_cr3 pm) [p4_index p, p3_index p, p2_index p] = Some g"
  using assms by (auto simp: page_map_def page_index_def bind_eq_Some_conv simp del: descend.simps split: if_splits)

lemma map_to_page_map:
  assumes wf: "tables_wf pm" and p: "p4_index p \<noteq> 511" and f: "frame_number f < 2 ^ 40"
    and fl: "flags AND ALL_FLAGS = flags" and r: "map_to p f flags pm = Some (Return pm')"
  shows "tables_wf pm'" "page_map pm (page_index p) = None" "page_map pm' = (page_map pm)(page_index p \<mapsto> f)"
proof -
  have x: "valid_index (p4_index p, p3_index p, p2_index p, p1_index p)"
    using valid_page_index[OF p] by (simp add: page_index_def)
  have flags: "(flags OR PRESENT) AND ALL_FLAGS = flags OR PRESENT"
  proof -
    have "(flags OR PRESENT) AND ALL_FLAGS = (flags AND ALL_FLAGS) OR (PRESENT AND ALL_FLAGS)"
      by (rule bit_word_eqI) (auto simp: bit_simps)
    then show ?thesis
      using fl by (simp add: PRESENT_def ALL_FLAGS_def)
  qed
  obtain pm3 g where m: "grown pm pm3 [p4_index p, p3_index p, p2_index p]"
    "descend pm3 (pg_cr3 pm3) [p4_index p, p3_index p, p2_index p] = Some g"
    "pg_tables pm3 g (p1_index p) = 0" "pm' = write_entry g (p1_index p) (entry_set f (flags OR PRESENT)) pm3"
    using map_to_spec[OF wf p r] .
  then have wf3: "tables_wf pm3" and map3: "page_map pm3 = page_map pm"
    by (simp_all add: grown_def)
  show "tables_wf pm'"
    unfolding m(4) by (rule leaf_write_wf[OF wf3 x m(2)])
  show "page_map pm (page_index p) = None"
    using m(2,3) unfolding map3 [symmetric]
    by (simp add: page_map_def page_index_def has_flag_def PRESENT_def del: descend.simps)
  show "page_map pm' = (page_map pm)(page_index p \<mapsto> f)"
    unfolding m(4) page_map_leaf_write[OF wf3 x m(2)] map3
    using entry_set_fields[OF f flags] by (simp add: page_index_def)
qed

section \<open>Properties\<close>


text \<open>
  C8. The page tables implement a finite map from pages to frames. When \<open>map_to\<close> returns, the page was not
  mapped, it is now mapped to the frame, and no other page has changed, although tables may have been
  allocated; with the tables in place it returns unless the entry is in use. \<open>unmap_return\<close> panics exactly if
  the page is not mapped, and otherwise returns its frame and removes this page only.
\<close>

theorem page_tables_refine_map:
  assumes "tables_wf pm" "p4_index p \<noteq> 511" "frame_number f < 2 ^ 40" "flags AND ALL_FLAGS = flags"
  shows "(\<forall>pm'. map_to p f flags pm = Some (Return pm') \<longrightarrow>
      tables_wf pm' \<and> page_map pm (page_index p) = None \<and> page_map pm' = (page_map pm)(page_index p \<mapsto> f)) \<and>
    (\<forall>g. descend pm (pg_cr3 pm) [p4_index p, p3_index p, p2_index p] = Some g \<longrightarrow>
      (map_to p f flags pm = Some Panic \<longleftrightarrow> pg_tables pm g (p1_index p) \<noteq> 0) \<and> map_to p f flags pm \<noteq> None) \<and>
    (case page_map pm (page_index p) of
       None \<Rightarrow> unmap_return p pm = Panic
     | Some g \<Rightarrow> \<exists>pm'. unmap_return p pm = Return (g, pm') \<and> tables_wf pm' \<and>
                   page_map pm' = (page_map pm)(page_index p := None))"
proof (intro conjI allI impI)
  fix pm'
  assume "map_to p f flags pm = Some (Return pm')"
  note map_to_page_map[OF assms this]
  then show "tables_wf pm'" "page_map pm (page_index p) = None" "page_map pm' = (page_map pm)(page_index p \<mapsto> f)"
    by blast+
next
  fix g
  assume d: "descend pm (pg_cr3 pm) [p4_index p, p3_index p, p2_index p] = Some g"
  show "map_to p f flags pm = Some Panic \<longleftrightarrow> pg_tables pm g (p1_index p) \<noteq> 0" "map_to p f flags pm \<noteq> None"
    by (simp_all add: map_to_existing[OF assms(1,2) d])
next
  have x: "valid_index (p4_index p, p3_index p, p2_index p, p1_index p)"
    using valid_page_index[OF assms(2)] by (simp add: page_index_def)
  show "case page_map pm (page_index p) of
       None \<Rightarrow> unmap_return p pm = Panic
     | Some g \<Rightarrow> \<exists>pm'. unmap_return p pm = Return (g, pm') \<and> tables_wf pm' \<and>
                   page_map pm' = (page_map pm)(page_index p := None)"
  proof (cases "page_map pm (page_index p)")
    case (Some g)
    then obtain h where h: "descend pm (pg_cr3 pm) [p4_index p, p3_index p, p2_index p] = Some h"
      by (rule page_map_Some_path)
    show ?thesis
      using leaf_write_wf[OF assms(1) x h, of 0] page_map_leaf_write[OF assms(1) x h, of 0] Some h
      by (simp add: unmap_return_spec[OF assms(1,2)] page_index_def has_flag_def PRESENT_def del: descend.simps)
  qed (simp add: unmap_return_spec[OF assms(1,2)])
qed

text \<open>
  Tables in frames 2 (the top), 100, 101 and 102 for the pages from entry \<open>k\<close> of the top table on, on the
  machine with eight free frames.
\<close>

definition small_tables_at :: "usize \<Rightarrow> page_mem" where
  "small_tables_at k =
     \<lparr>pg_tables = (\<lambda>f i. if f = Frame 2 \<and> i = 511 then 0x2001 else if f = Frame 2 \<and> i = k then 0x64003
        else if f = Frame 100 \<and> i = 0 then 0x65003 else if f = Frame 101 \<and> i = 0 then 0x66003 else 0),
      pg_cr3 = Frame 2, pg_memory = memory_init small_map 0x2000 0x3FFF\<rparr>"

abbreviation small_tables :: page_mem where
  "small_tables \<equiv> small_tables_at 0"

lemma small_step:
  "hw_step (small_tables_at k) f i leaf =
     (if f = Frame 2 \<and> i = 511 then Some (Frame 2) else if f = Frame 2 \<and> i = k then Some (Frame 100)
      else if f = Frame 100 \<and> i = 0 then Some (Frame 101) else if f = Frame 101 \<and> i = 0 then Some (Frame 102) else None)"
  by (simp add: hw_step_def small_tables_at_def has_flag_def PRESENT_def HUGE_PAGE_def ADDRESS_MASK_def
      containing_address_def PAGE_SIZE_def)

lemma small_top [simp]: "pg_cr3 (small_tables_at k) = Frame 2"
  by (simp add: small_tables_at_def)

lemma small_descend:
  assumes "vpath q" "descend (small_tables_at k) (pg_cr3 (small_tables_at k)) q = Some f"
  shows "(q, f) \<in> {([], Frame 2), ([k], Frame 100), ([k, 0], Frame 101), ([k, 0, 0], Frame 102)}"
proof -
  consider "q = []" | a where "q = [a]" | a b where "q = [a, b]" | a b c where "q = [a, b, c]"
    using assms(1) by (cases q; cases "tl q"; cases "tl (tl q)"; cases "tl (tl (tl q))") (auto simp: vpath_def)
  then show ?thesis
    using assms by cases (auto simp: vpath_def small_step split: if_splits)
qed

lemma small_available: "can_allocate (small_tables_at k) f \<longleftrightarrow> f \<le> Frame 7 \<and> \<not> (Frame 2 \<le> f \<and> f \<le> Frame 3)"
  by (simp add: can_allocate_def small_tables_at_def small_memory available_def small_allocator_def small_map_areas
      small_frames in_kernel_def less_eq_frame_def) auto

lemma small_tables_at_wf: "k \<noteq> 511 \<Longrightarrow> tables_wf (small_tables_at k)"
proof (rule tables_wfI)
  show "recursive (small_tables_at k)"
    by (simp add: recursive_def small_step)
  show "\<exists>a. ALLOCATOR (pg_memory (small_tables_at k)) = Some a \<and> frames_wf (MEMORY_MAP (pg_memory (small_tables_at k))) a"
    by (simp add: small_tables_at_def small_memory small_wf)
  show "q = r" if "vpath q" "vpath r" "descend (small_tables_at k) (pg_cr3 (small_tables_at k)) q = Some f"
    "descend (small_tables_at k) (pg_cr3 (small_tables_at k)) r = Some f" for q r f
    using small_descend[OF that(1,3)] small_descend[OF that(2,4)] by auto
  show "\<not> can_allocate (small_tables_at k) f" if "vpath q" "descend (small_tables_at k) (pg_cr3 (small_tables_at k)) q = Some f" for q f
    using small_descend[OF that] by (auto simp: small_available less_eq_frame_def)
  show "frame_number f < 2 ^ 40" if "can_allocate (small_tables_at k) f" for f
    using that by (auto simp: small_available less_eq_frame_def word_le_nat_alt word_less_nat_alt)
qed

lemma small_tables_wf: "tables_wf small_tables"
  by (rule small_tables_at_wf) simp


theorem page_tables_refine_map_witness:
  "\<exists>pm'. map_to (Page 5) (Frame 9) WRITABLE small_tables = Some (Return pm') \<and>
     page_map pm' = (page_map small_tables)((0, 0, 0, 5) \<mapsto> Frame 9)"
proof -
  have i: "p4_index (Page 5) = 0" "p3_index (Page 5) = 0" "p2_index (Page 5) = 0" "p1_index (Page 5) = 5"
    by (simp_all add: p4_index_def p3_index_def p2_index_def p1_index_def)
  have d: "descend small_tables (pg_cr3 small_tables) [p4_index (Page 5), p3_index (Page 5), p2_index (Page 5)] = Some (Frame 102)"
    by (simp add: i small_step)
  have "map_to (Page 5) (Frame 9) WRITABLE small_tables \<noteq> None" "map_to (Page 5) (Frame 9) WRITABLE small_tables \<noteq> Some Panic"
    using page_tables_refine_map[OF small_tables_wf, of "Page 5" "Frame 9" WRITABLE] d
    by (simp_all add: i small_tables_at_def WRITABLE_def ALL_FLAGS_def)
  then obtain pm' where "map_to (Page 5) (Frame 9) WRITABLE small_tables = Some (Return pm')"
    by (metis not_None_eq outcome.exhaust)
  then show ?thesis
    using page_tables_refine_map[OF small_tables_wf, of "Page 5" "Frame 9" WRITABLE]
    by (auto simp: i page_index_def WRITABLE_def ALL_FLAGS_def)
qed

end
