(* ===== verification/ABI_Constants.thy ===== *)
theory ABI_Constants
  imports Prelude
begin

text \<open>
  The constants of the system call interface crate (\<open>syscall/src\<close>): the error numbers with their
  texts, the flags and the call numbers, with the values and expressions of the source. They unfold
  in the simplifier.
\<close>

section \<open>Error numbers (error.rs)\<close>

definition EPERM :: i32 where [simp]: "EPERM = 1"
definition ENOENT :: i32 where [simp]: "ENOENT = 2"
definition ESRCH :: i32 where [simp]: "ESRCH = 3"
definition EINTR :: i32 where [simp]: "EINTR = 4"
definition EIO :: i32 where [simp]: "EIO = 5"
definition ENXIO :: i32 where [simp]: "ENXIO = 6"
definition E2BIG :: i32 where [simp]: "E2BIG = 7"
definition ENOEXEC :: i32 where [simp]: "ENOEXEC = 8"
definition EBADF :: i32 where [simp]: "EBADF = 9"
definition ECHILD :: i32 where [simp]: "ECHILD = 10"
definition EAGAIN :: i32 where [simp]: "EAGAIN = 11"
definition ENOMEM :: i32 where [simp]: "ENOMEM = 12"
definition EACCES :: i32 where [simp]: "EACCES = 13"
definition EFAULT :: i32 where [simp]: "EFAULT = 14"
definition ENOTBLK :: i32 where [simp]: "ENOTBLK = 15"
definition EBUSY :: i32 where [simp]: "EBUSY = 16"
definition EEXIST :: i32 where [simp]: "EEXIST = 17"
definition EXDEV :: i32 where [simp]: "EXDEV = 18"
definition ENODEV :: i32 where [simp]: "ENODEV = 19"
definition ENOTDIR :: i32 where [simp]: "ENOTDIR = 20"
definition EISDIR :: i32 where [simp]: "EISDIR = 21"
definition EINVAL :: i32 where [simp]: "EINVAL = 22"
definition ENFILE :: i32 where [simp]: "ENFILE = 23"
definition EMFILE :: i32 where [simp]: "EMFILE = 24"
definition ENOTTY :: i32 where [simp]: "ENOTTY = 25"
definition ETXTBSY :: i32 where [simp]: "ETXTBSY = 26"
definition EFBIG :: i32 where [simp]: "EFBIG = 27"
definition ENOSPC :: i32 where [simp]: "ENOSPC = 28"
definition ESPIPE :: i32 where [simp]: "ESPIPE = 29"
definition EROFS :: i32 where [simp]: "EROFS = 30"
definition EMLINK :: i32 where [simp]: "EMLINK = 31"
definition EPIPE :: i32 where [simp]: "EPIPE = 32"
definition EDOM :: i32 where [simp]: "EDOM = 33"
definition ERANGE :: i32 where [simp]: "ERANGE = 34"
definition EDEADLK :: i32 where [simp]: "EDEADLK = 35"
definition ENAMETOOLONG :: i32 where [simp]: "ENAMETOOLONG = 36"
definition ENOLCK :: i32 where [simp]: "ENOLCK = 37"
definition ENOSYS :: i32 where [simp]: "ENOSYS = 38"
definition ENOTEMPTY :: i32 where [simp]: "ENOTEMPTY = 39"
definition ELOOP :: i32 where [simp]: "ELOOP = 40"
definition EWOULDBLOCK :: i32 where [simp]: "EWOULDBLOCK = 41"
definition ENOMSG :: i32 where [simp]: "ENOMSG = 42"
definition EIDRM :: i32 where [simp]: "EIDRM = 43"
definition ECHRNG :: i32 where [simp]: "ECHRNG = 44"
definition EL2NSYNC :: i32 where [simp]: "EL2NSYNC = 45"
definition EL3HLT :: i32 where [simp]: "EL3HLT = 46"
definition EL3RST :: i32 where [simp]: "EL3RST = 47"
definition ELNRNG :: i32 where [simp]: "ELNRNG = 48"
definition EUNATCH :: i32 where [simp]: "EUNATCH = 49"
definition ENOCSI :: i32 where [simp]: "ENOCSI = 50"
definition EL2HLT :: i32 where [simp]: "EL2HLT = 51"
definition EBADE :: i32 where [simp]: "EBADE = 52"
definition EBADR :: i32 where [simp]: "EBADR = 53"
definition EXFULL :: i32 where [simp]: "EXFULL = 54"
definition ENOANO :: i32 where [simp]: "ENOANO = 55"
definition EBADRQC :: i32 where [simp]: "EBADRQC = 56"
definition EBADSLT :: i32 where [simp]: "EBADSLT = 57"
definition EDEADLOCK :: i32 where [simp]: "EDEADLOCK = 58"
definition EBFONT :: i32 where [simp]: "EBFONT = 59"
definition ENOSTR :: i32 where [simp]: "ENOSTR = 60"
definition ENODATA :: i32 where [simp]: "ENODATA = 61"
definition ETIME :: i32 where [simp]: "ETIME = 62"
definition ENOSR :: i32 where [simp]: "ENOSR = 63"
definition ENONET :: i32 where [simp]: "ENONET = 64"
definition ENOPKG :: i32 where [simp]: "ENOPKG = 65"
definition EREMOTE :: i32 where [simp]: "EREMOTE = 66"
definition ENOLINK :: i32 where [simp]: "ENOLINK = 67"
definition EADV :: i32 where [simp]: "EADV = 68"
definition ESRMNT :: i32 where [simp]: "ESRMNT = 69"
definition ECOMM :: i32 where [simp]: "ECOMM = 70"
definition EPROTO :: i32 where [simp]: "EPROTO = 71"
definition EMULTIHOP :: i32 where [simp]: "EMULTIHOP = 72"
definition EDOTDOT :: i32 where [simp]: "EDOTDOT = 73"
definition EBADMSG :: i32 where [simp]: "EBADMSG = 74"
definition EOVERFLOW :: i32 where [simp]: "EOVERFLOW = 75"
definition ENOTUNIQ :: i32 where [simp]: "ENOTUNIQ = 76"
definition EBADFD :: i32 where [simp]: "EBADFD = 77"
definition EREMCHG :: i32 where [simp]: "EREMCHG = 78"
definition ELIBACC :: i32 where [simp]: "ELIBACC = 79"
definition ELIBBAD :: i32 where [simp]: "ELIBBAD = 80"
definition ELIBSCN :: i32 where [simp]: "ELIBSCN = 81"
definition ELIBMAX :: i32 where [simp]: "ELIBMAX = 82"
definition ELIBEXEC :: i32 where [simp]: "ELIBEXEC = 83"
definition EILSEQ :: i32 where [simp]: "EILSEQ = 84"
definition ERESTART :: i32 where [simp]: "ERESTART = 85"
definition ESTRPIPE :: i32 where [simp]: "ESTRPIPE = 86"
definition EUSERS :: i32 where [simp]: "EUSERS = 87"
definition ENOTSOCK :: i32 where [simp]: "ENOTSOCK = 88"
definition EDESTADDRREQ :: i32 where [simp]: "EDESTADDRREQ = 89"
definition EMSGSIZE :: i32 where [simp]: "EMSGSIZE = 90"
definition EPROTOTYPE :: i32 where [simp]: "EPROTOTYPE = 91"
definition ENOPROTOOPT :: i32 where [simp]: "ENOPROTOOPT = 92"
definition EPROTONOSUPPORT :: i32 where [simp]: "EPROTONOSUPPORT = 93"
definition ESOCKTNOSUPPORT :: i32 where [simp]: "ESOCKTNOSUPPORT = 94"
definition EOPNOTSUPP :: i32 where [simp]: "EOPNOTSUPP = 95"
definition EPFNOSUPPORT :: i32 where [simp]: "EPFNOSUPPORT = 96"
definition EAFNOSUPPORT :: i32 where [simp]: "EAFNOSUPPORT = 97"
definition EADDRINUSE :: i32 where [simp]: "EADDRINUSE = 98"
definition EADDRNOTAVAIL :: i32 where [simp]: "EADDRNOTAVAIL = 99"
definition ENETDOWN :: i32 where [simp]: "ENETDOWN = 100"
definition ENETUNREACH :: i32 where [simp]: "ENETUNREACH = 101"
definition ENETRESET :: i32 where [simp]: "ENETRESET = 102"
definition ECONNABORTED :: i32 where [simp]: "ECONNABORTED = 103"
definition ECONNRESET :: i32 where [simp]: "ECONNRESET = 104"
definition ENOBUFS :: i32 where [simp]: "ENOBUFS = 105"
definition EISCONN :: i32 where [simp]: "EISCONN = 106"
definition ENOTCONN :: i32 where [simp]: "ENOTCONN = 107"
definition ESHUTDOWN :: i32 where [simp]: "ESHUTDOWN = 108"
definition ETOOMANYREFS :: i32 where [simp]: "ETOOMANYREFS = 109"
definition ETIMEDOUT :: i32 where [simp]: "ETIMEDOUT = 110"
definition ECONNREFUSED :: i32 where [simp]: "ECONNREFUSED = 111"
definition EHOSTDOWN :: i32 where [simp]: "EHOSTDOWN = 112"
definition EHOSTUNREACH :: i32 where [simp]: "EHOSTUNREACH = 113"
definition EALREADY :: i32 where [simp]: "EALREADY = 114"
definition EINPROGRESS :: i32 where [simp]: "EINPROGRESS = 115"
definition ESTALE :: i32 where [simp]: "ESTALE = 116"
definition EUCLEAN :: i32 where [simp]: "EUCLEAN = 117"
definition ENOTNAM :: i32 where [simp]: "ENOTNAM = 118"
definition ENAVAIL :: i32 where [simp]: "ENAVAIL = 119"
definition EISNAM :: i32 where [simp]: "EISNAM = 120"
definition EREMOTEIO :: i32 where [simp]: "EREMOTEIO = 121"
definition EDQUOT :: i32 where [simp]: "EDQUOT = 122"
definition ENOMEDIUM :: i32 where [simp]: "ENOMEDIUM = 123"
definition EMEDIUMTYPE :: i32 where [simp]: "EMEDIUMTYPE = 124"
definition ECANCELED :: i32 where [simp]: "ECANCELED = 125"
definition ENOKEY :: i32 where [simp]: "ENOKEY = 126"
definition EKEYEXPIRED :: i32 where [simp]: "EKEYEXPIRED = 127"
definition EKEYREVOKED :: i32 where [simp]: "EKEYREVOKED = 128"
definition EKEYREJECTED :: i32 where [simp]: "EKEYREJECTED = 129"
definition EOWNERDEAD :: i32 where [simp]: "EOWNERDEAD = 130"
definition ENOTRECOVERABLE :: i32 where [simp]: "ENOTRECOVERABLE = 131"

text \<open>\<open>STR_ERROR\<close>: the text of every error number, \<open>0\<close> meaning success.\<close>

definition STR_ERROR :: "string list" where
  "STR_ERROR = [
     ''Success'',
     ''Operation not permitted'',
     ''No such file or directory'',
     ''No such process'',
     ''Interrupted system call'',
     ''I/O error'',
     ''No such device or address'',
     ''Argument list too long'',
     ''Exec format error'',
     ''Bad file number'',
     ''No child processes'',
     ''Try again'',
     ''Out of memory'',
     ''Permission denied'',
     ''Bad address'',
     ''Block device required'',
     ''Device or resource busy'',
     ''File exists'',
     ''Cross-device link'',
     ''No such device'',
     ''Not a directory'',
     ''Is a directory'',
     ''Invalid argument'',
     ''File table overflow'',
     ''Too many open files'',
     ''Not a typewriter'',
     ''Text file busy'',
     ''File too large'',
     ''No space left on device'',
     ''Illegal seek'',
     ''Read-only file system'',
     ''Too many links'',
     ''Broken pipe'',
     ''Math argument out of domain of func'',
     ''Math result not representable'',
     ''Resource deadlock would occur'',
     ''File name too long'',
     ''No record locks available'',
     ''Function not implemented'',
     ''Directory not empty'',
     ''Too many symbolic links encountered'',
     ''Operation would block'',
     ''No message of desired type'',
     ''Identifier removed'',
     ''Channel number out of range'',
     ''Level 2 not synchronized'',
     ''Level 3 halted'',
     ''Level 3 reset'',
     ''Link number out of range'',
     ''Protocol driver not attached'',
     ''No CSI structure available'',
     ''Level 2 halted'',
     ''Invalid exchange'',
     ''Invalid request descriptor'',
     ''Exchange full'',
     ''No anode'',
     ''Invalid request code'',
     ''Invalid slot'',
     ''Resource deadlock would occur'',
     ''Bad font file format'',
     ''Device not a stream'',
     ''No data available'',
     ''Timer expired'',
     ''Out of streams resources'',
     ''Machine is not on the network'',
     ''Package not installed'',
     ''Object is remote'',
     ''Link has been severed'',
     ''Advertise error'',
     ''Srmount error'',
     ''Communication error on send'',
     ''Protocol error'',
     ''Multihop attempted'',
     ''RFS specific error'',
     ''Not a data message'',
     ''Value too large for defined data type'',
     ''Name not unique on network'',
     ''File descriptor in bad state'',
     ''Remote address changed'',
     ''Can not access a needed shared library'',
     ''Accessing a corrupted shared library'',
     ''.lib section in a.out corrupted'',
     ''Attempting to link in too many shared libraries'',
     ''Cannot exec a shared library directly'',
     ''Illegal byte sequence'',
     ''Interrupted system call should be restarted'',
     ''Streams pipe error'',
     ''Too many users'',
     ''Socket operation on non-socket'',
     ''Destination address required'',
     ''Message too long'',
     ''Protocol wrong type for socket'',
     ''Protocol not available'',
     ''Protocol not supported'',
     ''Socket type not supported'',
     ''Operation not supported on transport endpoint'',
     ''Protocol family not supported'',
     ''Address family not supported by protocol'',
     ''Address already in use'',
     ''Cannot assign requested address'',
     ''Network is down'',
     ''Network is unreachable'',
     ''Network dropped connection because of reset'',
     ''Software caused connection abort'',
     ''Connection reset by peer'',
     ''No buffer space available'',
     ''Transport endpoint is already connected'',
     ''Transport endpoint is not connected'',
     ''Cannot send after transport endpoint shutdown'',
     ''Too many references: cannot splice'',
     ''Connection timed out'',
     ''Connection refused'',
     ''Host is down'',
     ''No route to host'',
     ''Operation already in progress'',
     ''Operation now in progress'',
     ''Stale NFS file handle'',
     ''Structure needs cleaning'',
     ''Not a XENIX named type file'',
     ''No XENIX semaphores available'',
     ''Is a named type file'',
     ''Remote I/O error'',
     ''Quota exceeded'',
     ''No medium found'',
     ''Wrong medium type'',
     ''Operation Canceled'',
     ''Required key not available'',
     ''Key has expired'',
     ''Key has been revoked'',
     ''Key was rejected by service'',
     ''Owner died'',
     ''State not recoverable'']"

section \<open>Flags (flag.rs)\<close>

definition CLONE_VM :: usize where [simp]: "CLONE_VM = 0x100"
definition CLONE_FS :: usize where [simp]: "CLONE_FS = 0x200"
definition CLONE_FILES :: usize where [simp]: "CLONE_FILES = 0x400"
definition CLONE_VFORK :: usize where [simp]: "CLONE_VFORK = 0x4000"
definition CLOCK_REALTIME :: usize where [simp]: "CLOCK_REALTIME = 1"
definition CLOCK_MONOTONIC :: usize where [simp]: "CLOCK_MONOTONIC = 4"
definition EVENT_NONE :: usize where [simp]: "EVENT_NONE = 0"
definition EVENT_READ :: usize where [simp]: "EVENT_READ = 1"
definition EVENT_WRITE :: usize where [simp]: "EVENT_WRITE = 2"
definition F_GETFL :: usize where [simp]: "F_GETFL = 1"
definition F_SETFL :: usize where [simp]: "F_SETFL = 2"
definition FUTEX_WAIT :: usize where [simp]: "FUTEX_WAIT = 0"
definition FUTEX_WAKE :: usize where [simp]: "FUTEX_WAKE = 1"
definition FUTEX_REQUEUE :: usize where [simp]: "FUTEX_REQUEUE = 2"
definition MAP_WRITE :: usize where [simp]: "MAP_WRITE = 1"
definition MAP_WRITE_COMBINE :: usize where [simp]: "MAP_WRITE_COMBINE = 2"
definition MODE_TYPE :: u16 where [simp]: "MODE_TYPE = 0xf000"
definition MODE_DIR :: u16 where [simp]: "MODE_DIR = 0x4000"
definition MODE_FILE :: u16 where [simp]: "MODE_FILE = 0x8000"
definition MODE_PERM :: u16 where [simp]: "MODE_PERM = 0xfff"
definition MODE_SETUID :: u16 where [simp]: "MODE_SETUID = 0x800"
definition MODE_SETGID :: u16 where [simp]: "MODE_SETGID = 0x400"
definition O_RDONLY :: usize where [simp]: "O_RDONLY = 0x10000"
definition O_WRONLY :: usize where [simp]: "O_WRONLY = 0x20000"
definition O_RDWR :: usize where [simp]: "O_RDWR = 0x30000"
definition O_NONBLOCK :: usize where [simp]: "O_NONBLOCK = 0x40000"
definition O_APPEND :: usize where [simp]: "O_APPEND = 0x80000"
definition O_SHLOCK :: usize where [simp]: "O_SHLOCK = 0x100000"
definition O_EXLOCK :: usize where [simp]: "O_EXLOCK = 0x200000"
definition O_ASYNC :: usize where [simp]: "O_ASYNC = 0x400000"
definition O_FSYNC :: usize where [simp]: "O_FSYNC = 0x800000"
definition O_CLOEXEC :: usize where [simp]: "O_CLOEXEC = 0x1000000"
definition O_CREAT :: usize where [simp]: "O_CREAT = 0x2000000"
definition O_TRUNC :: usize where [simp]: "O_TRUNC = 0x4000000"
definition O_EXCL :: usize where [simp]: "O_EXCL = 0x8000000"
definition O_DIRECTORY :: usize where [simp]: "O_DIRECTORY = 0x10000000"
definition O_STAT :: usize where [simp]: "O_STAT = 0x20000000"
definition O_ACCMODE :: usize where [simp]: "O_ACCMODE = O_RDONLY OR O_WRONLY OR O_RDWR"
definition SEEK_SET :: usize where [simp]: "SEEK_SET = 0"
definition SEEK_CUR :: usize where [simp]: "SEEK_CUR = 1"
definition SEEK_END :: usize where [simp]: "SEEK_END = 2"
definition SIGHUP :: usize where [simp]: "SIGHUP = 1"
definition SIGINT :: usize where [simp]: "SIGINT = 2"
definition SIGQUIT :: usize where [simp]: "SIGQUIT = 3"
definition SIGILL :: usize where [simp]: "SIGILL = 4"
definition SIGTRAP :: usize where [simp]: "SIGTRAP = 5"
definition SIGABRT :: usize where [simp]: "SIGABRT = 6"
definition SIGBUS :: usize where [simp]: "SIGBUS = 7"
definition SIGFPE :: usize where [simp]: "SIGFPE = 8"
definition SIGKILL :: usize where [simp]: "SIGKILL = 9"
definition SIGUSR1 :: usize where [simp]: "SIGUSR1 = 0xa"
definition SIGSEGV :: usize where [simp]: "SIGSEGV = 0xb"
definition SIGUSR2 :: usize where [simp]: "SIGUSR2 = 0xc"
definition SIGPIPE :: usize where [simp]: "SIGPIPE = 0xd"
definition SIGALRM :: usize where [simp]: "SIGALRM = 0xe"
definition SIGTERM :: usize where [simp]: "SIGTERM = 0xf"
definition SIGSTKFLT :: usize where [simp]: "SIGSTKFLT = 0x10"
definition SIGCHLD :: usize where [simp]: "SIGCHLD = 0x11"
definition SIGCONT :: usize where [simp]: "SIGCONT = 0x12"
definition SIGSTOP :: usize where [simp]: "SIGSTOP = 0x13"
definition SIGTSTP :: usize where [simp]: "SIGTSTP = 0x14"
definition SIGTTIN :: usize where [simp]: "SIGTTIN = 0x15"
definition SIGTTOU :: usize where [simp]: "SIGTTOU = 0x16"
definition SIGURG :: usize where [simp]: "SIGURG = 0x17"
definition SIGXCPU :: usize where [simp]: "SIGXCPU = 0x18"
definition SIGXFSZ :: usize where [simp]: "SIGXFSZ = 0x19"
definition SIGVTALRM :: usize where [simp]: "SIGVTALRM = 0x1a"
definition SIGPROF :: usize where [simp]: "SIGPROF = 0x1b"
definition SIGWINCH :: usize where [simp]: "SIGWINCH = 0x1c"
definition SIGIO :: usize where [simp]: "SIGIO = 0x1d"
definition SIGPWR :: usize where [simp]: "SIGPWR = 0x1e"
definition SIGSYS :: usize where [simp]: "SIGSYS = 0x1f"
definition WNOHANG :: usize where [simp]: "WNOHANG = 1"

section \<open>Call numbers (number.rs)\<close>

definition SYS_CLASS :: usize where [simp]: "SYS_CLASS = 0xf0000000"
definition SYS_CLASS_PATH :: usize where [simp]: "SYS_CLASS_PATH = 0x10000000"
definition SYS_CLASS_FILE :: usize where [simp]: "SYS_CLASS_FILE = 0x20000000"
definition SYS_ARG :: usize where [simp]: "SYS_ARG = 0xf000000"
definition SYS_ARG_SLICE :: usize where [simp]: "SYS_ARG_SLICE = 0x1000000"
definition SYS_ARG_MSLICE :: usize where [simp]: "SYS_ARG_MSLICE = 0x2000000"
definition SYS_ARG_PATH :: usize where [simp]: "SYS_ARG_PATH = 0x3000000"
definition SYS_RET :: usize where [simp]: "SYS_RET = 0xf00000"
definition SYS_RET_FILE :: usize where [simp]: "SYS_RET_FILE = 0x100000"
definition SYS_LINK :: usize where [simp]: "SYS_LINK = SYS_CLASS_PATH OR SYS_ARG_PATH OR 9"
definition SYS_OPEN :: usize where [simp]: "SYS_OPEN = SYS_CLASS_PATH OR SYS_RET_FILE OR 5"
definition SYS_CHMOD :: usize where [simp]: "SYS_CHMOD = SYS_CLASS_PATH OR 15"
definition SYS_RMDIR :: usize where [simp]: "SYS_RMDIR = SYS_CLASS_PATH OR 84"
definition SYS_UNLINK :: usize where [simp]: "SYS_UNLINK = SYS_CLASS_PATH OR 10"
definition SYS_CLOSE :: usize where [simp]: "SYS_CLOSE = SYS_CLASS_FILE OR 6"
definition SYS_DUP :: usize where [simp]: "SYS_DUP = SYS_CLASS_FILE OR SYS_RET_FILE OR 41"
definition SYS_READ :: usize where [simp]: "SYS_READ = SYS_CLASS_FILE OR SYS_ARG_MSLICE OR 3"
definition SYS_WRITE :: usize where [simp]: "SYS_WRITE = SYS_CLASS_FILE OR SYS_ARG_SLICE OR 4"
definition SYS_LSEEK :: usize where [simp]: "SYS_LSEEK = SYS_CLASS_FILE OR 19"
definition SYS_FCNTL :: usize where [simp]: "SYS_FCNTL = SYS_CLASS_FILE OR 55"
definition SYS_FEVENT :: usize where [simp]: "SYS_FEVENT = SYS_CLASS_FILE OR 927"
definition SYS_FMAP :: usize where [simp]: "SYS_FMAP = SYS_CLASS_FILE OR 90"
definition SYS_FUNMAP :: usize where [simp]: "SYS_FUNMAP = SYS_CLASS_FILE OR 91"
definition SYS_FPATH :: usize where [simp]: "SYS_FPATH = SYS_CLASS_FILE OR SYS_ARG_MSLICE OR 928"
definition SYS_FSTAT :: usize where [simp]: "SYS_FSTAT = SYS_CLASS_FILE OR SYS_ARG_MSLICE OR 28"
definition SYS_FSTATVFS :: usize where [simp]: "SYS_FSTATVFS = SYS_CLASS_FILE OR SYS_ARG_MSLICE OR 100"
definition SYS_FSYNC :: usize where [simp]: "SYS_FSYNC = SYS_CLASS_FILE OR 118"
definition SYS_FTRUNCATE :: usize where [simp]: "SYS_FTRUNCATE = SYS_CLASS_FILE OR 93"
definition SYS_BRK :: usize where [simp]: "SYS_BRK = 45"
definition SYS_CHDIR :: usize where [simp]: "SYS_CHDIR = 12"
definition SYS_CLOCK_GETTIME :: usize where [simp]: "SYS_CLOCK_GETTIME = 265"
definition SYS_CLONE :: usize where [simp]: "SYS_CLONE = 120"
definition SYS_EXECVE :: usize where [simp]: "SYS_EXECVE = 11"
definition SYS_EXIT :: usize where [simp]: "SYS_EXIT = 1"
definition SYS_FUTEX :: usize where [simp]: "SYS_FUTEX = 240"
definition SYS_GETCWD :: usize where [simp]: "SYS_GETCWD = 183"
definition SYS_GETEGID :: usize where [simp]: "SYS_GETEGID = 202"
definition SYS_GETENS :: usize where [simp]: "SYS_GETENS = 951"
definition SYS_GETEUID :: usize where [simp]: "SYS_GETEUID = 201"
definition SYS_GETGID :: usize where [simp]: "SYS_GETGID = 200"
definition SYS_GETNS :: usize where [simp]: "SYS_GETNS = 950"
definition SYS_GETPID :: usize where [simp]: "SYS_GETPID = 20"
definition SYS_GETUID :: usize where [simp]: "SYS_GETUID = 199"
definition SYS_IOPL :: usize where [simp]: "SYS_IOPL = 110"
definition SYS_KILL :: usize where [simp]: "SYS_KILL = 37"
definition SYS_MKNS :: usize where [simp]: "SYS_MKNS = 984"
definition SYS_NANOSLEEP :: usize where [simp]: "SYS_NANOSLEEP = 162"
definition SYS_PHYSALLOC :: usize where [simp]: "SYS_PHYSALLOC = 945"
definition SYS_PHYSFREE :: usize where [simp]: "SYS_PHYSFREE = 946"
definition SYS_PHYSMAP :: usize where [simp]: "SYS_PHYSMAP = 947"
definition SYS_PHYSUNMAP :: usize where [simp]: "SYS_PHYSUNMAP = 948"
definition SYS_VIRTTOPHYS :: usize where [simp]: "SYS_VIRTTOPHYS = 949"
definition SYS_PIPE2 :: usize where [simp]: "SYS_PIPE2 = 331"
definition SYS_SETREGID :: usize where [simp]: "SYS_SETREGID = 204"
definition SYS_SETRENS :: usize where [simp]: "SYS_SETRENS = 952"
definition SYS_SETREUID :: usize where [simp]: "SYS_SETREUID = 203"
definition SYS_WAITPID :: usize where [simp]: "SYS_WAITPID = 7"
definition SYS_YIELD :: usize where [simp]: "SYS_YIELD = 158"

end
