(* ===== verification/Syscall_ABI.thy ===== *)
theory Syscall_ABI
  imports ABI_Constants
begin

text \<open>
  The encoding of results in one machine word (\<open>Error::mux\<close>, \<open>Error::demux\<close> and \<open>Error::text\<close> of
  \<open>syscall/src/error.rs\<close>) and the structures that cross the user/kernel boundary
  (\<open>syscall/src/data.rs\<close>).
\<close>

section \<open>Structures (data.rs)\<close>

record event =
  ev_id :: usize
  ev_flags :: usize
  ev_data :: usize

record packet =
  pk_id :: u64
  pk_pid :: usize
  pk_uid :: u32
  pk_gid :: u32
  pk_a :: usize
  pk_b :: usize
  pk_c :: usize
  pk_d :: usize

record stat =
  st_dev :: u64
  st_ino :: u64
  st_mode :: u16
  st_nlink :: u32
  st_uid :: u32
  st_gid :: u32
  st_size :: u64
  st_blksize :: u32
  st_blocks :: u64
  st_mtime :: u64
  st_mtime_nsec :: u32
  st_atime :: u64
  st_atime_nsec :: u32
  st_ctime :: u64
  st_ctime_nsec :: u32

record stat_vfs =
  f_bsize :: u32
  f_blocks :: u64
  f_bfree :: u64
  f_bavail :: u64

record time_spec =
  tv_sec :: u64
  tv_nsec :: i32

text \<open>\<open>mem::size_of\<close> of these structures (\<open>Packet\<close>, \<open>Stat\<close> and \<open>StatVfs\<close> are packed).\<close>

definition size_of_event :: nat where "size_of_event = 24"
definition size_of_packet :: nat where "size_of_packet = 56"
definition size_of_stat :: nat where "size_of_stat = 86"
definition size_of_stat_vfs :: nat where "size_of_stat_vfs = 28"

section \<open>Results in one word (error.rs)\<close>

definition mux :: "usize result \<Rightarrow> usize" where
  "mux r = (case r of Ok v \<Rightarrow> v | Err e \<Rightarrow> scast (- errno e))"

definition demux :: "usize \<Rightarrow> usize result" where
  "demux v =
     (let e = - (ucast v :: i32)
      in if 1 \<le> sint e \<and> sint e < int (length STR_ERROR) then Err (Error e) else Ok v)"

definition error_text :: "error \<Rightarrow> string" where
  "error_text e =
     (let i = unat (scast (errno e) :: usize)
      in if i < length STR_ERROR then STR_ERROR ! i else ''Unknown Error'')"

section \<open>Properties\<close>

lemma length_STR_ERROR: "length STR_ERROR = 132"
  by (simp add: STR_ERROR_def)

text \<open>The error numbers that \<open>demux\<close> recognises, and the words it takes for them.\<close>

definition valid_errno :: "error \<Rightarrow> bool" where
  "valid_errno e \<longleftrightarrow> 1 \<le> sint (errno e) \<and> sint (errno e) < 132"

definition error_window :: "usize \<Rightarrow> bool" where
  "error_window v \<longleftrightarrow> 2 ^ 32 - 132 < unat v mod 2 ^ 32"

lemma ucast_scast_i32: "(ucast (scast (w :: i32) :: usize) :: i32) = w"
  by (rule bit_eqI) (auto simp: bit_simps)

lemma demux_window:
  "(let e = - (ucast (v :: usize) :: i32) in 1 \<le> sint e \<and> sint e < 132) \<longleftrightarrow> error_window v"
proof -
  define w where "w = (ucast v :: i32)"
  have low: "unat v mod 2 ^ 32 = unat w"
    by (simp add: w_def unsigned_ucast_eq take_bit_eq_mod)
  obtain n where n: "unat w = n" "uint w = int n" "n < 2 ^ 32" "w = 0 \<longleftrightarrow> n = 0"
    using unsigned_less [of w, where ?'a = nat] by (auto simp: unat_eq_0)
  show ?thesis
    unfolding error_window_def low Let_def w_def [symmetric] sint_i32 uint_minus_i32 n(1,2,4)
    using n(3) by auto
qed

lemma demux_eq: "demux v = (if error_window v then Err (Error (- ucast v)) else Ok v)"
  using demux_window [of v] by (simp add: demux_def length_STR_ERROR Let_def)

lemma error_window_mux_Err: "valid_errno e \<longleftrightarrow> error_window (mux (Err e))"
  using demux_window [of "mux (Err e)"]
  by (simp add: mux_def valid_errno_def ucast_scast_i32 Let_def)

lemma demux_mux_iff:
  "demux (mux r) = r \<longleftrightarrow> (case r of Ok v \<Rightarrow> \<not> error_window v | Err e \<Rightarrow> valid_errno e)"
proof (cases r)
  case (Ok v)
  then show ?thesis by (auto simp: demux_eq mux_def)
next
  case (Err e)
  then show ?thesis
    by (cases e) (auto simp: demux_eq error_window_mux_Err, auto simp: mux_def ucast_scast_i32)
qed

text \<open>
  C15. The one-word encoding of system call results is decoded exactly: \<open>demux\<close> after \<open>mux\<close> gives the
  result back if and only if an \<open>Err\<close> carries one of the 131 known error numbers and an \<open>Ok\<close> value's
  low 32 bits are not the negation of one of them.
\<close>

theorem demux_mux:
  "demux (mux r) = r \<longleftrightarrow> (case r of Ok v \<Rightarrow> \<not> error_window v | Err e \<Rightarrow> valid_errno e)"
  by (rule demux_mux_iff)

end
