(* ===== verification/BTree_Maps.thy ===== *)
theory BTree_Maps
  imports Prelude
begin

text \<open>
  Rust's \<open>BTreeMap\<close> as the sources use it: a finite map that is iterated in key order. It is
  represented by its in-order list of entries. The locale \<open>ordered_map\<close> states what the
  clients rely on, the interpretation \<open>btree\<close> proves it for the list representation.
\<close>

section \<open>The representation\<close>

type_synonym ('k, 'v) btree_map = "('k \<times> 'v) list"

definition bt_empty :: "('k, 'v) btree_map" where
  "bt_empty = []"

fun bt_get :: "('k, 'v) btree_map \<Rightarrow> 'k \<Rightarrow> 'v option" where
  "bt_get [] k = None"
| "bt_get (e # es) k = (if k = fst e then Some (snd e) else bt_get es k)"

fun bt_insert :: "'k::linorder \<Rightarrow> 'v \<Rightarrow> ('k, 'v) btree_map \<Rightarrow> ('k, 'v) btree_map" where
  "bt_insert k v [] = [(k, v)]"
| "bt_insert k v (e # es) =
     (if fst e < k then e # bt_insert k v es
      else if fst e = k then (k, v) # es
      else (k, v) # e # es)"

fun bt_remove :: "'k \<Rightarrow> ('k, 'v) btree_map \<Rightarrow> ('k, 'v) btree_map" where
  "bt_remove k [] = []"
| "bt_remove k (e # es) = (if k = fst e then es else e # bt_remove k es)"

definition bt_contains_key :: "('k, 'v) btree_map \<Rightarrow> 'k \<Rightarrow> bool" where
  "bt_contains_key m k \<longleftrightarrow> bt_get m k \<noteq> None"

text \<open>\<open>get_mut(&k)\<close> followed by an update of the value; a missing key leaves the map alone.\<close>

fun bt_modify :: "'k \<Rightarrow> ('v \<Rightarrow> 'v) \<Rightarrow> ('k, 'v) btree_map \<Rightarrow> ('k, 'v) btree_map" where
  "bt_modify k f [] = []"
| "bt_modify k f (e # es) = (if k = fst e then (fst e, f (snd e)) # es else e # bt_modify k f es)"

definition bt_keys :: "('k, 'v) btree_map \<Rightarrow> 'k list" where
  "bt_keys m = map fst m"

definition bt_wf :: "('k::linorder, 'v) btree_map \<Rightarrow> bool" where
  "bt_wf m \<longleftrightarrow> sorted_wrt (<) (bt_keys m)"

section \<open>Lemmas\<close>

lemma bt_get_empty [simp]: "bt_get bt_empty k = None"
  by (simp add: bt_empty_def)

lemma bt_keys_Cons [simp]: "bt_keys (e # es) = fst e # bt_keys es"
  by (simp add: bt_keys_def)

lemma bt_keys_Nil [simp]: "bt_keys [] = []"
  by (simp add: bt_keys_def)

lemma bt_get_None_iff: "bt_get m k = None \<longleftrightarrow> k \<notin> set (bt_keys m)"
  by (induction m) auto

lemma bt_get_insert [simp]:
  "bt_get (bt_insert k v m) k' = (if k' = k then Some v else bt_get m k')"
  by (induction m) auto

lemma bt_get_modify [simp]:
  "bt_get (bt_modify k f m) k' = (if k' = k then map_option f (bt_get m k) else bt_get m k')"
  by (induction m) auto

lemma bt_keys_modify [simp]: "bt_keys (bt_modify k f m) = bt_keys m"
  by (induction m) auto

lemma bt_keys_empty [simp]: "bt_keys bt_empty = []"
  by (simp add: bt_empty_def bt_keys_def)

lemma set_bt_keys_insert [simp]: "set (bt_keys (bt_insert k v m)) = insert k (set (bt_keys m))"
  by (induction m) auto

lemma bt_wf_empty [simp, inv_intros]: "bt_wf bt_empty"
  by (simp add: bt_wf_def)

lemma bt_wf_Cons: "bt_wf (e # es) \<longleftrightarrow> (\<forall>k\<in>set (bt_keys es). fst e < k) \<and> bt_wf es"
  by (simp add: bt_wf_def bt_keys_def)

lemma bt_wf_Nil [simp]: "bt_wf []"
  by (simp add: bt_wf_def)

lemma bt_wf_insert [simp, inv_intros]: "bt_wf m \<Longrightarrow> bt_wf (bt_insert k v m)"
  by (induction m) (auto simp: bt_wf_Cons)

lemma bt_keys_remove_subset: "set (bt_keys (bt_remove k m)) \<subseteq> set (bt_keys m)"
  by (induction m) auto

lemma bt_wf_remove [simp, inv_intros]: "bt_wf m \<Longrightarrow> bt_wf (bt_remove k m)"
  by (induction m) (use bt_keys_remove_subset in \<open>fastforce simp: bt_wf_Cons\<close>)+

lemma bt_wf_modify [simp, inv_intros]: "bt_wf m \<Longrightarrow> bt_wf (bt_modify k f m)"
  by (simp add: bt_wf_def)

lemma bt_get_remove [simp]:
  "bt_wf m \<Longrightarrow> bt_get (bt_remove k m) k' = (if k' = k then None else bt_get m k')"
  by (induction m) (auto simp: bt_wf_Cons bt_get_None_iff)

lemma distinct_bt_keys: "bt_wf m \<Longrightarrow> distinct (bt_keys m)"
  by (auto simp: bt_wf_def strict_sorted_iff)

lemma set_bt_keys_remove [simp]: "bt_wf m \<Longrightarrow> set (bt_keys (bt_remove k m)) = set (bt_keys m) - {k}"
  by (auto simp: bt_get_None_iff [symmetric] set_eq_iff simp del: not_None_eq)
     (metis bt_get_None_iff bt_get_remove)+

lemma bt_get_mem: "bt_wf m \<Longrightarrow> bt_get m k = Some v \<longleftrightarrow> (k, v) \<in> set m"
  by (induction m) (auto simp: bt_wf_Cons bt_keys_def dest: image_eqI [where f = fst])

lemma bt_ext: "bt_wf m \<Longrightarrow> bt_wf n \<Longrightarrow> (\<And>k. bt_get m k = bt_get n k) \<Longrightarrow> m = n"
proof -
  assume wf: "bt_wf m" "bt_wf n" and eq: "\<And>k. bt_get m k = bt_get n k"
  have "set (bt_keys m) = set (bt_keys n)"
    using eq by (metis bt_get_None_iff set_eqI)
  then have keys: "bt_keys m = bt_keys n"
    using wf by (intro strict_sorted_equal) (auto simp: bt_wf_def)
  have "set m = set n"
    using eq wf by (auto simp: bt_get_mem [symmetric])
  with keys wf show ?thesis
    by (metis bt_keys_def distinct_bt_keys distinct_map inj_on_map_eq_map sup.idem
        list.inj_map_strong inj_onD)
qed

section \<open>The interface the clients use\<close>

locale ordered_map =
  fixes empty :: "'m"
    and get :: "'m \<Rightarrow> 'k::linorder \<Rightarrow> 'v option"
    and insert :: "'k \<Rightarrow> 'v \<Rightarrow> 'm \<Rightarrow> 'm"
    and remove :: "'k \<Rightarrow> 'm \<Rightarrow> 'm"
    and keys :: "'m \<Rightarrow> 'k list"
    and wf :: "'m \<Rightarrow> bool"
  assumes get_empty: "get empty k = None"
    and get_insert: "wf m \<Longrightarrow> get (insert k v m) k' = (if k' = k then Some v else get m k')"
    and get_remove: "wf m \<Longrightarrow> get (remove k m) k' = (if k' = k then None else get m k')"
    and keys_sorted: "wf m \<Longrightarrow> sorted_wrt (<) (keys m)"
    and keys_iff: "wf m \<Longrightarrow> k \<in> set (keys m) \<longleftrightarrow> get m k \<noteq> None"
    and wf_empty: "wf empty"
    and wf_insert: "wf m \<Longrightarrow> wf (insert k v m)"
    and wf_remove: "wf m \<Longrightarrow> wf (remove k m)"
begin

lemma keys_finite: "wf m \<Longrightarrow> finite {k. get m k \<noteq> None}"
  by (metis (mono_tags, lifting) List.finite_set keys_iff mem_Collect_eq rev_finite_subset subsetI)

lemma insert_fresh_remove:
  "wf m \<Longrightarrow> get m k = None \<Longrightarrow> get (remove k (insert k v m)) k' = get m k'"
  by (simp add: get_insert get_remove wf_insert)

lemma card_keys: "wf m \<Longrightarrow> card {k. get m k \<noteq> None} = length (keys m)"
proof -
  assume wf: "wf m"
  have "{k. get m k \<noteq> None} = set (keys m)"
    using keys_iff [OF wf] by auto
  moreover have "distinct (keys m)"
    using keys_sorted [OF wf] by (simp add: strict_sorted_iff)
  ultimately show ?thesis
    by (simp add: distinct_card)
qed

end

interpretation btree: ordered_map bt_empty bt_get bt_insert bt_remove bt_keys bt_wf
  by unfold_locales (auto simp: bt_get_None_iff bt_wf_def [symmetric])

end
