(* ===== verification/Id_Allocation.thy ===== *)
theory Id_Allocation
  imports BTree_Maps
begin

text \<open>
  Identifier allocation. \<open>ContextList::new_context\<close> and \<open>SchemeList::insert\<close> search upwards for an
  unused key (\<open>skip_used\<close>); the handle tables of the in-kernel schemes draw identifiers from a
  \<open>fetch_add\<close> counter (\<open>handle_table\<close>). The locale \<open>id_allocator\<close> states what both promise.
\<close>

section \<open>Searching for an unused key\<close>

text \<open>
  \<open>while map.contains_key(&next_id) { next_id += 1; }\<close>. The counter wraps around, so the loop runs
  forever if every key is taken; not returning is the value \<open>None\<close>.
\<close>

partial_function (option) skip_used :: "(usize \<Rightarrow> bool) \<Rightarrow> usize \<Rightarrow> usize option" where
  "skip_used used n = (if used n then skip_used used (n + 1) else Some n)"

lemma skip_used_steps:
  "(\<And>j. j < k \<Longrightarrow> used (n + of_nat j)) \<Longrightarrow> \<not> used (n + of_nat k) \<Longrightarrow>
   skip_used used n = Some (n + of_nat k)"
proof (induction k arbitrary: n)
  case 0
  then show ?case by (simp add: skip_used.simps)
next
  case (Suc k)
  from Suc.prems(1) [of 0] have "used n" by simp
  then have "skip_used used n = skip_used used (n + 1)"
    by (simp add: skip_used.simps)
  also have "\<dots> = Some (n + 1 + of_nat k)"
  proof (rule Suc.IH)
    show "used (n + 1 + of_nat j)" if "j < k" for j
      using Suc.prems(1) [of "Suc j"] that by (simp add: algebra_simps)
    show "\<not> used (n + 1 + of_nat k)"
      using Suc.prems(2) by (simp add: algebra_simps)
  qed
  finally show ?case by (simp add: algebra_simps)
qed

text \<open>The search returns the first unused key at or above its start.\<close>

lemma skip_used_first:
  assumes free: "\<not> used b" and le: "n \<le> b"
  shows "\<exists>m. skip_used used n = Some m \<and> n \<le> m \<and> m \<le> b \<and> \<not> used m \<and>
    (\<forall>x. n \<le> x \<longrightarrow> x < m \<longrightarrow> used x)"
proof -
  define P where "P k \<longleftrightarrow> \<not> used (n + of_nat k)" for k
  have ex: "P (unat (b - n))"
    using free by (simp add: P_def)
  define k where "k = (LEAST k. P k)"
  have Pk: "P k" and least: "\<And>j. j < k \<Longrightarrow> \<not> P j"
    unfolding k_def by (rule LeastI [of P, OF ex], rule not_less_Least)
  have kle: "k \<le> unat (b - n)"
    unfolding k_def by (rule Least_le [of P, OF ex])
  have bn: "unat (b - n) = unat b - unat n"
    using le by (simp add: unat_sub)
  have fits: "unat n + k < 2 ^ 64"
    using kle bn unsigned_less [of b, where ?'a = nat] le by (simp add: word_le_nat_alt)
  then have un: "unat (n + of_nat k) = unat n + k"
    by (simp add: unat_word_ariths)
  have "skip_used used n = Some (n + of_nat k)"
    by (rule skip_used_steps) (use Pk least in \<open>auto simp: P_def\<close>)
  moreover have "used x" if "n \<le> x" "x < n + of_nat k" for x
  proof -
    have "unat (x - n) < k"
      using that un by (simp add: unat_sub word_le_nat_alt word_less_nat_alt)
    then show ?thesis
      using least [of "unat (x - n)"] by (simp add: P_def)
  qed
  ultimately show ?thesis
    using Pk un kle bn le by (auto simp: P_def word_le_nat_alt)
qed

section \<open>Handle tables\<close>

text \<open>
  \<open>next_id: AtomicUsize\<close> with \<open>handles: RwLock<BTreeMap<usize, Handle>>\<close>, and the three access
  patterns of the schemes: \<open>fetch_add\<close> and insert, \<open>get(..).ok_or(EBADF)\<close>, and
  \<open>remove(..).ok_or(EBADF).and(Ok(0))\<close>. The error number is a parameter here.
\<close>

record 'h handle_table =
  next_id :: usize
  handles :: "(usize, 'h) btree_map"

definition new_table :: "usize \<Rightarrow> 'h handle_table" where
  "new_table first = \<lparr>next_id = first, handles = bt_empty\<rparr>"

definition add_handle :: "'h handle_table \<Rightarrow> 'h \<Rightarrow> usize \<times> 'h handle_table" where
  "add_handle t h = (next_id t, t\<lparr>next_id := next_id t + 1, handles := bt_insert (next_id t) h (handles t)\<rparr>)"

definition get_handle :: "'h handle_table \<Rightarrow> usize \<Rightarrow> i32 \<Rightarrow> 'h result" where
  "get_handle t i e = ok_or (bt_get (handles t) i) e"

definition set_handle :: "'h handle_table \<Rightarrow> usize \<Rightarrow> 'h \<Rightarrow> 'h handle_table" where
  "set_handle t i h = t\<lparr>handles := bt_modify i (\<lambda>_. h) (handles t)\<rparr>"

definition close_handle :: "'h handle_table \<Rightarrow> usize \<Rightarrow> i32 \<Rightarrow> usize result \<times> 'h handle_table" where
  "close_handle t i e =
     (case bt_get (handles t) i of
        None \<Rightarrow> (Err (Error e), t)
      | Some _ \<Rightarrow> (Ok 0, t\<lparr>handles := bt_remove i (handles t)\<rparr>))"

text \<open>
  The counter has not wrapped: every live identifier was handed out before. The last identifier is
  kept unused, so that the counter stays above every live one.
\<close>

definition table_wf :: "'h handle_table \<Rightarrow> bool" where
  "table_wf t \<longleftrightarrow> bt_wf (handles t) \<and> (\<forall>i\<in>set (bt_keys (handles t)). i < next_id t)"

definition table_room :: "'h handle_table \<Rightarrow> bool" where
  "table_room t \<longleftrightarrow> next_id t < - 1"

lemma table_wf_new [simp, inv_intros]: "table_wf (new_table n)"
  by (simp add: table_wf_def new_table_def)

lemma table_wf_add [inv_intros]:
  assumes "table_wf t" "table_room t"
  shows "table_wf (snd (add_handle t h))"
  using assms word_less_succ [of "next_id t"]
  by (auto simp: table_wf_def table_room_def add_handle_def intro: less_trans)

lemma table_wf_close [simp, inv_intros]: "table_wf t \<Longrightarrow> table_wf (snd (close_handle t i e))"
  by (auto simp: table_wf_def close_handle_def split: option.splits)

lemma table_wf_set [simp, inv_intros]: "table_wf t \<Longrightarrow> table_wf (set_handle t i h)"
  by (auto simp: table_wf_def set_handle_def)

lemma add_handle_fresh: "table_wf t \<Longrightarrow> bt_get (handles t) (fst (add_handle t h)) = None"
  by (auto simp: table_wf_def add_handle_def bt_get_None_iff)

lemma get_add_handle:
  "add_handle t h = (i, t') \<Longrightarrow>
   get_handle t' j e = (if j = i then Ok h else get_handle t j e)"
  by (auto simp: add_handle_def get_handle_def)

lemma get_set_handle:
  "get_handle t i e' = Ok h0 \<Longrightarrow>
   get_handle (set_handle t i h) j e = (if j = i then Ok h else get_handle t j e)"
  by (auto simp: set_handle_def get_handle_def result_simps)

lemma get_close_handle:
  "table_wf t \<Longrightarrow> close_handle t i e' = (r, t') \<Longrightarrow>
   get_handle t' j e = (if j = i then Err (Error e) else get_handle t j e)"
  by (auto simp: close_handle_def get_handle_def table_wf_def split: option.splits)

section \<open>The contract\<close>

locale id_allocator =
  fixes live :: "'s \<Rightarrow> usize set"
    and alloc :: "'s \<Rightarrow> (usize \<times> 's) option"
    and inv :: "'s \<Rightarrow> bool"
  assumes alloc_fresh: "inv s \<Longrightarrow> alloc s = Some (i, s') \<Longrightarrow> i \<notin> live s"
    and alloc_live: "inv s \<Longrightarrow> alloc s = Some (i, s') \<Longrightarrow> live s' = insert i (live s)"
    and alloc_inv: "inv s \<Longrightarrow> alloc s = Some (i, s') \<Longrightarrow> inv s'"
begin

fun alloc_many :: "nat \<Rightarrow> 's \<Rightarrow> (usize list \<times> 's) option" where
  "alloc_many 0 s = Some ([], s)"
| "alloc_many (Suc n) s =
     (case alloc s of None \<Rightarrow> None
      | Some (i, s1) \<Rightarrow> map_option (\<lambda>(js, s2). (i # js, s2)) (alloc_many n s1))"

lemma alloc_many_distinct:
  "inv s \<Longrightarrow> alloc_many n s = Some (js, s') \<Longrightarrow>
   distinct js \<and> set js \<inter> live s = {} \<and> live s' = set js \<union> live s \<and> inv s'"
proof (induction n arbitrary: s js)
  case 0
  then show ?case by simp
next
  case (Suc n)
  then obtain i s1 ks where a: "alloc s = Some (i, s1)" and m: "alloc_many n s1 = Some (ks, s')"
    and eq: "js = i # ks"
    by (auto split: option.splits)
  have "inv s1" "i \<notin> live s" "live s1 = insert i (live s)"
    using Suc.prems(1) a alloc_inv alloc_fresh alloc_live by blast+
  then show ?case
    using Suc.IH [OF _ m] eq by auto
qed

end

text \<open>A handle table whose counter has not wrapped is an identifier allocator.\<close>

definition table_alloc :: "'h \<Rightarrow> 'h handle_table \<Rightarrow> (usize \<times> 'h handle_table) option" where
  "table_alloc h t = (if table_room t then Some (add_handle t h) else None)"

interpretation tables: id_allocator "\<lambda>t. set (bt_keys (handles t))" "table_alloc h" table_wf
  for h :: 'h
proof unfold_locales
  fix s s' :: "'h handle_table" and i
  assume wf: "table_wf s" and alloc: "table_alloc h s = Some (i, s')"
  then have room: "table_room s" and eq: "add_handle s h = (i, s')"
    by (auto simp: table_alloc_def split: if_splits)
  show "i \<notin> set (bt_keys (handles s))"
    using add_handle_fresh [OF wf, of h] eq by (simp add: bt_get_None_iff)
  show "set (bt_keys (handles s')) = insert i (set (bt_keys (handles s)))"
    using eq by (auto simp: add_handle_def)
  show "table_wf s'"
    using table_wf_add [OF wf room, of h] eq by simp
qed

end
