(* ===== verification/Contexts.thy ===== *)
theory Contexts
  imports Syscall_ABI Id_Allocation
begin

text \<open>
  Contexts, that is processes and threads (\<open>kernel/context\<close>): the context structure, path
  canonicalisation, blocking and unblocking, the file descriptor table (\<open>context.rs\<close>, \<open>file.rs\<close>)
  and the context list (\<open>list.rs\<close>, \<open>mod.rs\<close>). A field of type \<open>Arc<..>\<close>, shared by the threads
  that \<open>clone\<close> makes, is a reference into the kernel's object store; the functions here work on
  the object itself. The saved registers (\<open>arch\<close>) are not modelled.
\<close>

type_synonym ref = nat

section \<open>Data (file.rs, context.rs)\<close>

record kfile =
  f_scheme :: usize
  f_number :: usize
  f_event :: "usize option"

datatype status = Runnable | Blocked | Exited usize

record memory =
  mem_start :: usize
  mem_size :: usize
  mem_flags :: u64

record tls =
  tls_master :: usize
  tls_file_size :: usize
  tls_mem :: memory

record ctx =
  ctx_id :: usize
  ppid :: usize
  ruid :: u32
  rgid :: u32
  rns :: usize
  euid :: u32
  egid :: u32
  ens :: usize
  status :: status
  running :: bool
  cpu_id :: "usize option"
  vfork :: bool
  waitpid_ref :: ref
  pending :: "u8 list"
  wake :: "(u64 \<times> u64) option"
  kfx :: "bytes option"
  kstack :: "bytes option"
  image :: "ref list"
  heap :: "ref option"
  stack :: "memory option"
  tls_of :: "tls option"
  grants_ref :: ref
  name_ref :: ref
  cwd_ref :: ref
  events_ref :: ref
  env_ref :: ref
  files_ref :: ref

text \<open>\<open>Context::new\<close>: every shared object of the new context is freshly allocated at \<open>r\<close>.\<close>

definition new_ctx :: "ref \<Rightarrow> usize \<Rightarrow> ctx" where
  "new_ctx r i =
     \<lparr>ctx_id = i, ppid = 0, ruid = 0, rgid = 0, rns = 0, euid = 0, egid = 0, ens = 0,
      status = Blocked, running = False, cpu_id = None, vfork = False, waitpid_ref = r,
      pending = [], wake = None, kfx = None, kstack = None, image = [], heap = None,
      stack = None, tls_of = None, grants_ref = r, name_ref = r, cwd_ref = r, events_ref = r,
      env_ref = r, files_ref = r\<rparr>"

section \<open>Paths\<close>

abbreviation colon :: u8 where "colon \<equiv> 58"
abbreviation slash :: u8 where "slash \<equiv> 47"

text \<open>\<open>cwd[..n]\<close>: slicing past the end panics.\<close>

definition slice_to :: "'a list \<Rightarrow> nat \<Rightarrow> 'a list outcome" where
  "slice_to xs n = (if n \<le> length xs then Return (take n xs) else Panic)"

text \<open>
  \<open>cwd[..cwd[..cwd.len() - 1].iter().rposition(|&b| b == b'/' || b == b':').map_or(cwd.len(), |i| i + 1)]\<close>.
  The inner length is computed by a wrapping subtraction, so an empty \<open>cwd\<close> panics.
\<close>

definition parent_of :: "bytes \<Rightarrow> bytes outcome" where
  "parent_of cwd =
     (if cwd = [] then Panic
      else slice_to cwd
        (case rposition (\<lambda>b. b = slash \<or> b = colon) (take (length cwd - 1) cwd) of
           None \<Rightarrow> length cwd | Some i \<Rightarrow> i + 1))"

definition with_slash :: "bytes \<Rightarrow> bytes" where
  "with_slash cwd = (if cwd \<noteq> [] \<and> last cwd = slash then cwd else cwd @ [slash])"

definition canonicalize :: "bytes \<Rightarrow> bytes \<Rightarrow> bytes outcome" where
  "canonicalize cwd path =
     (if position (\<lambda>b. b = colon) path = None then
        if path = bytes_of ''.'' then Return cwd
        else if path = bytes_of ''..'' then parent_of cwd
        else if take 2 path = bytes_of ''./'' then Return (with_slash cwd @ drop 2 path)
        else if take 3 path = bytes_of ''../'' then
          bind_outcome (parent_of cwd) (\<lambda>canon. Return (canon @ drop 3 path))
        else if take 1 path = bytes_of ''/'' then
          bind_outcome
            (slice_to cwd (case position (\<lambda>b. b = colon) cwd of None \<Rightarrow> 1 | Some i \<Rightarrow> i + 1))
            (\<lambda>canon. Return (canon @ path))
        else Return (with_slash cwd @ path)
      else Return path)"

section \<open>Blocking\<close>

definition block :: "ctx \<Rightarrow> ctx \<times> bool" where
  "block c = (if status c = Runnable then (c\<lparr>status := Blocked\<rparr>, True) else (c, False))"

text \<open>\<open>unblock\<close> also sends an inter-processor interrupt to the context's CPU if it is another one.\<close>

definition unblock_ipi :: "usize \<Rightarrow> ctx \<Rightarrow> usize option" where
  "unblock_ipi this_cpu c =
     (if status c = Blocked then
        case cpu_id c of None \<Rightarrow> None | Some cpu \<Rightarrow> (if cpu \<noteq> this_cpu then Some cpu else None)
      else None)"

definition unblock :: "ctx \<Rightarrow> ctx \<times> bool" where
  "unblock c = (if status c = Blocked then (c\<lparr>status := Runnable\<rparr>, True) else (c, False))"

section \<open>The file descriptor table\<close>

type_synonym file_table = "kfile option list"

definition CONTEXT_MAX_FILES :: nat where "CONTEXT_MAX_FILES = 65536"

fun first_free :: "file_table \<Rightarrow> nat option" where
  "first_free [] = None"
| "first_free (f # fs) = (if f = None then Some 0 else map_option Suc (first_free fs))"

definition add_file :: "file_table \<Rightarrow> kfile \<Rightarrow> file_table \<times> usize option" where
  "add_file files file =
     (case first_free files of
        Some i \<Rightarrow> (files[i := Some file], Some (of_nat i))
      | None \<Rightarrow>
          (if length files < CONTEXT_MAX_FILES
           then (files @ [Some file], Some (of_nat (length files)))
           else (files, None)))"

definition get_file :: "file_table \<Rightarrow> usize \<Rightarrow> kfile option" where
  "get_file files i = (if unat i < length files then files ! unat i else None)"

definition remove_file :: "file_table \<Rightarrow> usize \<Rightarrow> file_table \<times> kfile option" where
  "remove_file files i =
     (if unat i < length files then (files[unat i := None], files ! unat i) else (files, None))"

section \<open>The context list (list.rs, mod.rs)\<close>

definition CONTEXT_MAX_CONTEXTS :: usize where "CONTEXT_MAX_CONTEXTS = - 1 - 1"

record context_list =
  ctx_map :: "(usize, ctx) btree_map"
  ctx_next_id :: usize

definition empty_contexts :: context_list where
  "empty_contexts = \<lparr>ctx_map = bt_empty, ctx_next_id = 1\<rparr>"

definition get_context :: "context_list \<Rightarrow> usize \<Rightarrow> ctx option" where
  "get_context l i = bt_get (ctx_map l) i"

definition set_context :: "context_list \<Rightarrow> usize \<Rightarrow> (ctx \<Rightarrow> ctx) \<Rightarrow> context_list" where
  "set_context l i f = l\<lparr>ctx_map := bt_modify i f (ctx_map l)\<rparr>"

definition remove_context :: "context_list \<Rightarrow> usize \<Rightarrow> ctx option \<times> context_list" where
  "remove_context l i = (bt_get (ctx_map l) i, l\<lparr>ctx_map := bt_remove i (ctx_map l)\<rparr>)"

text \<open>\<open>None\<close>: the search for an unused identifier does not end; \<open>Panic\<close>: the \<open>assert!\<close> fails.\<close>

definition new_context ::
    "ref \<Rightarrow> context_list \<Rightarrow> (usize result \<times> context_list) outcome option" where
  "new_context r l =
     (let start = (if ctx_next_id l \<ge> CONTEXT_MAX_CONTEXTS then 1 else ctx_next_id l)
      in case skip_used (bt_contains_key (ctx_map l)) start of
           None \<Rightarrow> None
         | Some i \<Rightarrow> Some
             (if i \<ge> CONTEXT_MAX_CONTEXTS then Return (Err (Error EAGAIN), l\<lparr>ctx_next_id := i\<rparr>)
              else if bt_contains_key (ctx_map l) i then Panic
              else Return (Ok i, l\<lparr>ctx_next_id := i + 1, ctx_map := bt_insert i (new_ctx r i) (ctx_map l)\<rparr>)))"

section \<open>Lemmas on paths\<close>

text \<open>\<open>in_scheme n p\<close>: the path is absolute and its scheme, the part before the first colon, is \<open>n\<close>.\<close>

definition in_scheme :: "bytes \<Rightarrow> bytes \<Rightarrow> bool" where
  "in_scheme n p \<longleftrightarrow> colon \<in> set p \<and> takeWhile (\<lambda>b. b \<noteq> colon) p = n"

lemma in_scheme_append: "in_scheme n p \<Longrightarrow> in_scheme n (p @ q)"
  by (auto simp: in_scheme_def takeWhile_append1)

lemma in_scheme_with_slash: "in_scheme n p \<Longrightarrow> in_scheme n (with_slash p)"
  by (auto simp: with_slash_def in_scheme_append)

lemma in_scheme_split: "in_scheme n p \<longleftrightarrow> colon \<notin> set n \<and> (\<exists>q. p = n @ colon # q)"
proof
  assume a: "in_scheme n p"
  then have "p = n @ dropWhile (\<lambda>b. b \<noteq> colon) p" "dropWhile (\<lambda>b. b \<noteq> colon) p \<noteq> []"
    by (auto simp: in_scheme_def dropWhile_eq_Nil_conv)
  moreover have "hd (dropWhile (\<lambda>b. b \<noteq> colon) p) = colon"
    using hd_dropWhile [of "\<lambda>b. b \<noteq> colon" p] calculation(2) by auto
  moreover have "colon \<notin> set n"
    using a by (auto simp: in_scheme_def dest: set_takeWhileD)
  ultimately show "colon \<notin> set n \<and> (\<exists>q. p = n @ colon # q)"
    by (metis list.collapse)
next
  assume "colon \<notin> set n \<and> (\<exists>q. p = n @ colon # q)"
  then show "in_scheme n p"
    by (auto simp: in_scheme_def takeWhile_append)
qed

text \<open>A prefix that reaches past the first colon stays in the scheme.\<close>

lemma in_scheme_take: "in_scheme n p \<Longrightarrow> length n < k \<Longrightarrow> in_scheme n (take k p)"
  by (cases "k - length n") (auto simp: in_scheme_split)

lemma parent_of_in_scheme:
  assumes cwd: "in_scheme n cwd" and ns: "slash \<notin> set n"
  shows "\<exists>p. parent_of cwd = Return p \<and> in_scheme n p"
proof -
  obtain q where q: "cwd = n @ colon # q" "colon \<notin> set n"
    using cwd by (auto simp: in_scheme_split)
  define pre where "pre = take (length cwd - 1) cwd"
  show ?thesis
  proof (cases "rposition (\<lambda>b. b = slash \<or> b = colon) pre")
    case None
    then show ?thesis
      using cwd q by (auto simp: parent_of_def slice_to_def pre_def)
  next
    case (Some i)
    note r = rposition_Some [OF Some]
    have i: "i < length cwd" "pre ! i = cwd ! i"
      using r by (auto simp: pre_def)
    have "length n \<le> i"
    proof (rule ccontr)
      assume "\<not> length n \<le> i"
      then have "cwd ! i \<in> set n"
        using q by (simp add: nth_append)
      then show False
        using r i ns q by auto
    qed
    then have "in_scheme n (take (i + 1) cwd)"
      using cwd by (intro in_scheme_take) auto
    then show ?thesis
      using Some i q by (auto simp: parent_of_def slice_to_def pre_def)
  qed
qed

lemma take_scheme: "in_scheme n cwd \<Longrightarrow> position (\<lambda>b. b = colon) cwd = Some (length n)"
proof -
  assume "in_scheme n cwd"
  then obtain q where q: "cwd = n @ colon # q" "colon \<notin> set n"
    by (auto simp: in_scheme_split)
  have "colon \<notin> set n \<Longrightarrow> position (\<lambda>b. b = colon) (n @ colon # q) = Some (length n)" for n
    by (induction n) auto
  then show ?thesis
    using q by simp
qed

section \<open>Properties of paths\<close>

text \<open>
  C16. A relative path cannot leave the scheme of the working directory: if the working directory is
  an absolute path in scheme \<open>n\<close> and no slash occurs in the scheme's name, then \<open>canonicalize\<close> of any
  path without a colon returns (it does not panic) an absolute path in the same scheme; a path with
  a colon is returned unchanged.
\<close>

theorem canonicalize_stays_in_scheme:
  assumes "in_scheme n cwd" and "slash \<notin> set n"
  shows "\<exists>p. canonicalize cwd path = Return p \<and>
    (if colon \<in> set path then p = path else in_scheme n p)"
proof (cases "colon \<in> set path")
  case True
  then show ?thesis
    by (auto simp: canonicalize_def position_None_iff)
next
  case False
  then have rel: "position (\<lambda>b. b = colon) path = None"
    by (auto simp: position_None_iff)
  obtain u where u: "parent_of cwd = Return u" "in_scheme n u"
    using parent_of_in_scheme [OF assms] by blast
  have root: "slice_to cwd (length n + 1) = Return (take (length n + 1) cwd)"
    using assms(1) by (auto simp: slice_to_def in_scheme_split)
  show ?thesis
    using False rel assms(1) u root
    by (auto simp: canonicalize_def take_scheme in_scheme_append in_scheme_with_slash in_scheme_take)
qed

theorem canonicalize_stays_in_scheme_witness:
  "\<exists>p. canonicalize (bytes_of ''file:/a'') (bytes_of ''../b'') = Return p \<and>
     (if colon \<in> set (bytes_of ''../b'') then p = bytes_of ''../b'' else in_scheme (bytes_of ''file'') p)"
  by (rule canonicalize_stays_in_scheme) (simp_all add: in_scheme_def bytes_of_def)

section \<open>Properties of the file descriptor table\<close>

lemma first_free_None_iff: "first_free fs = None \<longleftrightarrow> None \<notin> set fs"
  by (induction fs) auto

lemma first_free_Some:
  "first_free fs = Some i \<Longrightarrow> i < length fs \<and> fs ! i = None \<and> (\<forall>j<i. fs ! j \<noteq> None)"
  by (induction fs arbitrary: i) (auto simp: less_Suc_eq_0_disj split: if_splits)

definition files_wf :: "file_table \<Rightarrow> bool" where
  "files_wf fs \<longleftrightarrow> length fs \<le> CONTEXT_MAX_FILES"

lemma files_wf_index: "files_wf fs \<Longrightarrow> i \<le> length fs \<Longrightarrow> unat (of_nat i :: usize) = i"
  by (simp add: files_wf_def CONTEXT_MAX_FILES_def)

lemma files_wf_add [inv_intros]: "files_wf fs \<Longrightarrow> files_wf (fst (add_file fs f))"
  by (auto simp: files_wf_def add_file_def split: option.splits)

lemma files_wf_remove [inv_intros]: "files_wf fs \<Longrightarrow> files_wf (fst (remove_file fs i))"
  by (auto simp: files_wf_def remove_file_def)

lemma get_remove_file:
  "get_file (fst (remove_file fs i)) j = (if j = i then None else get_file fs j)"
  by (auto simp: get_file_def remove_file_def nth_list_update)

lemma add_file_spec:
  assumes wf: "files_wf fs" and add: "add_file fs f = (fs', r)"
  shows "files_wf fs' \<and>
    (case r of
       None \<Rightarrow> fs' = fs \<and> (\<forall>j<CONTEXT_MAX_FILES. get_file fs (of_nat j) \<noteq> None)
     | Some fd \<Rightarrow> get_file fs fd = None \<and> (\<forall>j<fd. get_file fs j \<noteq> None) \<and>
         (\<forall>j. get_file fs' j = (if j = fd then Some f else get_file fs j)))"
proof (cases "first_free fs")
  case None
  then have used: "\<And>j. j < length fs \<Longrightarrow> \<exists>y. fs ! j = Some y"
    by (metis first_free_None_iff not_None_eq nth_mem)
  show ?thesis
  proof (cases "length fs < CONTEXT_MAX_FILES")
    case True
    have ul: "unat (of_nat (length fs) :: usize) = length fs"
      by (rule files_wf_index [OF wf]) simp
    have r: "r = Some (of_nat (length fs))" and fs': "fs' = fs @ [Some f]"
      using None True add by (auto simp: add_file_def)
    have eq: "j = of_nat (length fs) \<longleftrightarrow> unat j = length fs" for j :: usize
      using ul by (metis word_unat_eq_iff)
    have "files_wf fs'"
      using True fs' by (simp add: files_wf_def)
    then show ?thesis
      using used ul by (auto simp: r fs' get_file_def eq nth_append word_less_nat_alt)
  next
    case False
    then have "length fs = CONTEXT_MAX_FILES"
      using wf by (simp add: files_wf_def)
    then show ?thesis
      using None add wf used files_wf_index [OF wf]
      by (auto simp: add_file_def get_file_def)
  qed
next
  case (Some i)
  note first = first_free_Some [OF Some]
  then have ui: "unat (of_nat i :: usize) = i"
    by (intro files_wf_index [OF wf]) simp
  have r: "r = Some (of_nat i)" and fs': "fs' = fs[i := Some f]"
    using Some add by (auto simp: add_file_def)
  have eq: "j = of_nat i \<longleftrightarrow> unat j = i" for j :: usize
    using ui by (metis word_unat_eq_iff)
  have "files_wf fs'"
    using wf fs' by (simp add: files_wf_def)
  then show ?thesis
    using first ui by (auto simp: r fs' get_file_def eq nth_list_update word_less_nat_alt)
qed

text \<open>
  \<open>add_file\<close> hands out the lowest free descriptor and touches no other: on a table within its
  bound, if a descriptor is returned then it was free, every lower one was in use, the new table
  maps it to the file and every other descriptor to what it was; nothing is returned exactly when
  all 65536 descriptors are in use, and then the table is unchanged. The bound is kept.
\<close>

theorem add_file_lowest_free:
  assumes wf: "files_wf fs" and add: "add_file fs f = (fs', r)"
  shows "files_wf fs' \<and>
    (case r of
       None \<Rightarrow> fs' = fs \<and> (\<forall>j<CONTEXT_MAX_FILES. get_file fs (of_nat j) \<noteq> None)
     | Some fd \<Rightarrow> get_file fs fd = None \<and> (\<forall>j<fd. get_file fs j \<noteq> None) \<and>
         (\<forall>j. get_file fs' j = (if j = fd then Some f else get_file fs j)))"
  by (rule add_file_spec [OF assms])

theorem add_file_lowest_free_witness:
  "files_wf [Some \<lparr>f_scheme = 1, f_number = 2, f_event = None\<rparr>, None] \<and>
   add_file [Some \<lparr>f_scheme = 1, f_number = 2, f_event = None\<rparr>, None] \<lparr>f_scheme = 3, f_number = 4, f_event = None\<rparr> =
     ([Some \<lparr>f_scheme = 1, f_number = 2, f_event = None\<rparr>, Some \<lparr>f_scheme = 3, f_number = 4, f_event = None\<rparr>], Some 1) \<and>
   get_file [Some \<lparr>f_scheme = 1, f_number = 2, f_event = None\<rparr>, None] 1 = None"
proof -
  let ?t = "[Some \<lparr>f_scheme = 1, f_number = 2, f_event = None\<rparr>, None]"
  let ?f = "\<lparr>f_scheme = 3, f_number = 4, f_event = None\<rparr>"
  have wf: "files_wf ?t"
    by (simp add: files_wf_def CONTEXT_MAX_FILES_def)
  have add: "add_file ?t ?f = ([hd ?t, Some ?f], Some 1)"
    by (simp add: add_file_def)
  show ?thesis
    using wf add add_file_lowest_free [OF wf add] by simp
qed

section \<open>Properties of the context list\<close>

definition contexts_wf :: "context_list \<Rightarrow> bool" where
  "contexts_wf l \<longleftrightarrow> bt_wf (ctx_map l) \<and> ctx_next_id l \<noteq> 0 \<and>
     (\<forall>i c. get_context l i = Some c \<longrightarrow> ctx_id c = i \<and> 0 < i \<and> i < CONTEXT_MAX_CONTEXTS)"

lemma contexts_wf_empty [simp, inv_intros]: "contexts_wf empty_contexts"
  by (simp add: contexts_wf_def empty_contexts_def get_context_def)

lemma get_set_context [simp]:
  "get_context (set_context l i f) j =
     (if j = i then map_option f (get_context l i) else get_context l j)"
  by (simp add: get_context_def set_context_def)

lemma contexts_wf_set [inv_intros]:
  "contexts_wf l \<Longrightarrow> (\<And>c. ctx_id (f c) = ctx_id c) \<Longrightarrow> contexts_wf (set_context l i f)"
  by (auto simp: contexts_wf_def) (auto simp: set_context_def)

lemma contexts_wf_remove [inv_intros]: "contexts_wf l \<Longrightarrow> contexts_wf (snd (remove_context l i))"
  by (auto simp: contexts_wf_def remove_context_def get_context_def split: if_splits)

lemma usize_max_pred: "(- 1 - 1 :: usize) < - 1" "(1 :: usize) < - 1 - 1" "(0 :: usize) < - 1 - 1"
  by (simp_all add: word_less_nat_alt unat_usize_max)

lemma contexts_wf_add:
  assumes "contexts_wf l" "0 < i" "i < CONTEXT_MAX_CONTEXTS"
  shows "contexts_wf (l\<lparr>ctx_next_id := i + 1, ctx_map := bt_insert i (new_ctx r i) (ctx_map l)\<rparr>)"
proof -
  have "i < - 1"
    using assms(3) usize_max_pred(1) by (auto simp: CONTEXT_MAX_CONTEXTS_def intro: less_trans)
  then have "i + 1 \<noteq> 0"
    using word_less_succ [of i] by (auto dest: less_trans)
  then show ?thesis
    using assms by (auto simp: contexts_wf_def get_context_def new_ctx_def split: if_splits)
qed

lemma new_context_spec:
  assumes wf: "contexts_wf l"
  shows "\<exists>res l'. new_context r l = Some (Return (res, l')) \<and> contexts_wf l' \<and>
    (case res of
       Ok i \<Rightarrow> get_context l i = None \<and> 0 < i \<and> i < CONTEXT_MAX_CONTEXTS \<and>
         get_context l' = (get_context l)(i \<mapsto> new_ctx r i)
     | Err e \<Rightarrow> e = Error EAGAIN \<and> ctx_map l' = ctx_map l)"
proof -
  define used where "used = bt_contains_key (ctx_map l)"
  define start where "start = (if ctx_next_id l \<ge> CONTEXT_MAX_CONTEXTS then 1 else ctx_next_id l)"
  have usedD: "used i \<Longrightarrow> 0 < i \<and> i < CONTEXT_MAX_CONTEXTS" for i
    using wf by (auto simp: used_def bt_contains_key_def contexts_wf_def get_context_def)
  have "\<not> used CONTEXT_MAX_CONTEXTS" "start \<le> CONTEXT_MAX_CONTEXTS" "0 < start"
    using usedD [of CONTEXT_MAX_CONTEXTS] usize_max_pred wf
    by (auto simp: start_def CONTEXT_MAX_CONTEXTS_def contexts_wf_def word_gt_0 intro: less_imp_le)
  then obtain i where i: "skip_used used start = Some i" "0 < i" "i \<le> CONTEXT_MAX_CONTEXTS" "\<not> used i"
    using skip_used_first [of used CONTEXT_MAX_CONTEXTS start] by (auto dest: order.strict_trans2)
  show ?thesis
  proof (cases "i = CONTEXT_MAX_CONTEXTS")
    case True
    have "contexts_wf (l\<lparr>ctx_next_id := i\<rparr>)"
      using wf i(2) by (auto simp: contexts_wf_def get_context_def)
    then show ?thesis
      using True i by (simp add: new_context_def Let_def used_def start_def)
  next
    case False
    then have "i < CONTEXT_MAX_CONTEXTS"
      using i(3) by simp
    moreover have "new_context r l =
        Some (Return (Ok i, l\<lparr>ctx_next_id := i + 1, ctx_map := bt_insert i (new_ctx r i) (ctx_map l)\<rparr>))"
      using i \<open>i < CONTEXT_MAX_CONTEXTS\<close>
      by (simp add: new_context_def Let_def used_def start_def)
    moreover have "get_context l i = None"
      using i(4) by (simp add: used_def bt_contains_key_def get_context_def)
    ultimately show ?thesis
      using contexts_wf_add [OF wf i(2), of r] i(2) by (auto simp: get_context_def fun_eq_iff)
  qed
qed

text \<open>The context list allocates process identifiers.\<close>

definition alloc_pid :: "ref \<Rightarrow> context_list \<Rightarrow> (usize \<times> context_list) option" where
  "alloc_pid r l =
     (case new_context r l of Some (Return (Ok i, l')) \<Rightarrow> Some (i, l') | _ \<Rightarrow> None)"

lemma alloc_pid_spec:
  assumes "contexts_wf l" "alloc_pid r l = Some (i, l')"
  shows "get_context l i = None \<and> get_context l' = (get_context l)(i \<mapsto> new_ctx r i) \<and> contexts_wf l'"
proof -
  have "new_context r l = Some (Return (Ok i, l'))"
    using assms(2)
    by (auto simp: alloc_pid_def split: option.splits outcome.splits prod.splits result.splits)
  then show ?thesis
    using new_context_spec [OF assms(1), of r] by auto
qed

interpretation pids: id_allocator "\<lambda>l. dom (get_context l)" "alloc_pid r" contexts_wf
  for r :: ref
  by unfold_locales (use alloc_pid_spec in \<open>fastforce+\<close>)

text \<open>
  C17. \<open>new_context\<close> always returns on a well-formed context list: it neither searches forever nor
  fails its assertion. It either returns an identifier that was unused and inserts a new context
  under it, leaving all others, or returns \<open>EAGAIN\<close> and leaves the contexts unchanged. The list
  stays well-formed.
\<close>

theorem new_context_returns_fresh:
  assumes wf: "contexts_wf l"
  shows "\<exists>res l'. new_context r l = Some (Return (res, l')) \<and> contexts_wf l' \<and>
    (case res of
       Ok i \<Rightarrow> get_context l i = None \<and> 0 < i \<and> i < CONTEXT_MAX_CONTEXTS \<and>
         get_context l' = (get_context l)(i \<mapsto> new_ctx r i)
     | Err e \<Rightarrow> e = Error EAGAIN \<and> ctx_map l' = ctx_map l)"
  using new_context_spec [OF wf] .

theorem new_context_returns_fresh_witness:
  "contexts_wf empty_contexts \<and>
   (\<exists>l'. new_context 0 empty_contexts = Some (Return (Ok 1, l')) \<and> contexts_wf l')"
proof -
  have "new_context 0 empty_contexts =
      Some (Return (Ok 1, \<lparr>ctx_map = [(1, new_ctx 0 1)], ctx_next_id = 2\<rparr>))"
    using usize_max_pred(2)
    by (simp add: new_context_def empty_contexts_def skip_used.simps bt_contains_key_def
        CONTEXT_MAX_CONTEXTS_def bt_empty_def)
  then show ?thesis
    using new_context_returns_fresh [of empty_contexts 0] by auto
qed

end
