(* ===== verification/Memory_Regions.thy ===== *)
theory Memory_Regions
  imports Paging Contexts
begin

text \<open>
  Regions of a context's address space (\<open>kernel/context/memory.rs\<close>): \<open>Grant\<close>, memory that belongs to another
  context or to a device, and \<open>Memory\<close>, memory of its own, which is mapped, moved, resized and unmapped page
  by page. The contents of pages are not modelled, so clearing and copying have no effect here.
\<close>

section \<open>Loops over pages\<close>

text \<open>
  \<open>for page in Page::range_inclusive(..) { body }\<close>: \<open>None\<close> if the loop or the frame allocator does not return,
  \<open>Panic\<close> if the body panics.
\<close>

partial_function (option) for_pages :: "(page \<Rightarrow> 's \<Rightarrow> 's outcome option) \<Rightarrow> page_iter \<Rightarrow> 's \<Rightarrow> 's outcome option" where
  "for_pages body it s =
     (case page_next it of
        (None, _) \<Rightarrow> Some (Return s)
      | (Some p, it') \<Rightarrow>
          Option.bind (body p s) (\<lambda>r. case r of Panic \<Rightarrow> Some Panic | Return s' \<Rightarrow> for_pages body it' s'))"

text \<open>The pages of \<open>size\<close> bytes from an address: none for a size of 0, as the end wraps to the page before.\<close>

definition region :: "usize \<Rightarrow> usize \<Rightarrow> page_iter" where
  "region start sz = page_range (page_containing start) (page_containing (start + sz - 1))"

definition then_do :: "'s outcome option \<Rightarrow> ('s \<Rightarrow> 'b outcome option) \<Rightarrow> 'b outcome option" where
  "then_do m k = Option.bind m (\<lambda>r. case r of Panic \<Rightarrow> Some Panic | Return s \<Rightarrow> k s)"

section \<open>Grants\<close>

record grant =
  g_start :: usize
  g_size :: usize
  g_flags :: u64
  g_mapped :: bool

definition grant_physmap :: "usize \<Rightarrow> usize \<Rightarrow> usize \<Rightarrow> u64 \<Rightarrow> page_mem \<Rightarrow> (grant \<times> page_mem) outcome option" where
  "grant_physmap from to sz flags pm =
     then_do (for_pages (\<lambda>p. map_to p (containing_address (page_start_address p - to + from)) flags) (region to sz) pm)
       (\<lambda>pm. Some (Return (\<lparr>g_start = to, g_size = sz, g_flags = flags, g_mapped = True\<rparr>, pm)))"

text \<open>The frames behind a region of the active table; unmapped memory panics.\<close>

definition grant_frames :: "usize \<Rightarrow> usize \<Rightarrow> page_mem \<Rightarrow> frame list outcome option" where
  "grant_frames from sz pm =
     for_pages (\<lambda>p frames. Some (bind_outcome (bind_outcome (translate_page pm p) unwrap) (\<lambda>f. Return (frames @ [f]))))
       (region from sz) []"

definition grant_map_inactive ::
    "usize \<Rightarrow> usize \<Rightarrow> usize \<Rightarrow> u64 \<Rightarrow> frame \<Rightarrow> page \<Rightarrow> page_mem \<Rightarrow> (grant \<times> page_mem) outcome option" where
  "grant_map_inactive from to sz flags table tmp pm =
     then_do (grant_frames from sz pm) (\<lambda>frames.
     then_do (active_with table tmp (\<lambda>pm.
         then_do (for_pages (\<lambda>p (frames, pm).
             case frames of
               [] \<Rightarrow> Some Panic
             | f # rest \<Rightarrow> then_do (map_to p f flags pm) (\<lambda>pm. Some (Return (rest, pm)))) (region to sz) (frames, pm))
           (\<lambda>(_, pm). Some (Return pm))) pm)
       (\<lambda>pm. Some (Return (\<lparr>g_start = to, g_size = sz, g_flags = flags, g_mapped = True\<rparr>, pm))))"

definition unmap_region :: "grant \<Rightarrow> page_mem \<Rightarrow> page_mem outcome option" where
  "unmap_region g = for_pages (\<lambda>p pm. Some (bind_outcome (unmap_return p pm) (\<lambda>(_, pm). Return pm))) (region (g_start g) (g_size g))"

definition grant_unmap :: "grant \<Rightarrow> page_mem \<Rightarrow> page_mem outcome option" where
  "grant_unmap g pm = (if g_mapped g then unmap_region g pm else Some Panic)"

definition grant_unmap_inactive :: "grant \<Rightarrow> frame \<Rightarrow> page \<Rightarrow> page_mem \<Rightarrow> page_mem outcome option" where
  "grant_unmap_inactive g table tmp pm =
     (if g_mapped g then active_with table tmp (unmap_region g) pm else Some Panic)"

text \<open>\<open>Drop for Grant\<close>: a grant must have been unmapped.\<close>

definition grant_drop :: "grant \<Rightarrow> unit outcome" where
  "grant_drop g = (if g_mapped g then Panic else Return ())"

section \<open>Memory\<close>

definition memory_pages :: "memory \<Rightarrow> page_iter" where
  "memory_pages m = region (mem_start m) (mem_size m)"

definition memory_map_pages :: "bool \<Rightarrow> bool \<Rightarrow> memory \<Rightarrow> page_mem \<Rightarrow> page_mem outcome option" where
  "memory_map_pages flush clear m pm =
     then_do (for_pages (\<lambda>p. map_page p (mem_flags m)) (memory_pages m) pm)
       (\<lambda>pm. Some (if clear \<and> \<not> (flush \<and> has_flag (mem_flags m) WRITABLE) then Panic else Return pm))"

definition memory_new :: "usize \<Rightarrow> usize \<Rightarrow> u64 \<Rightarrow> bool \<Rightarrow> bool \<Rightarrow> page_mem \<Rightarrow> (memory \<times> page_mem) outcome option" where
  "memory_new start sz flags flush clear pm =
     (let m = \<lparr>mem_start = start, mem_size = sz, mem_flags = flags\<rparr>
      in then_do (memory_map_pages flush clear m pm) (\<lambda>pm. Some (Return (m, pm))))"

definition memory_unmap :: "memory \<Rightarrow> page_mem \<Rightarrow> page_mem outcome option" where
  "memory_unmap m = for_pages (\<lambda>p pm. Some (unmap p pm)) (memory_pages m)"

definition memory_move_to :: "usize \<Rightarrow> frame \<Rightarrow> page \<Rightarrow> memory \<Rightarrow> page_mem \<Rightarrow> (memory \<times> page_mem) outcome option" where
  "memory_move_to new_start table tmp m pm =
     then_do (for_pages (\<lambda>p pm.
         case unmap_return p pm of
           Panic \<Rightarrow> Some Panic
         | Return (f, pm) \<Rightarrow>
             active_with table tmp
               (map_to (page_containing (page_start_address p - mem_start m + new_start)) f (mem_flags m)) pm)
         (memory_pages m) pm)
       (\<lambda>pm. Some (Return (m\<lparr>mem_start := new_start\<rparr>, pm)))"

definition memory_remap :: "u64 \<Rightarrow> memory \<Rightarrow> page_mem \<Rightarrow> (memory \<times> page_mem) outcome option" where
  "memory_remap new_flags m pm =
     then_do (for_pages (\<lambda>p pm. Some (remap p new_flags pm)) (memory_pages m) pm)
       (\<lambda>pm. Some (Return (m\<lparr>mem_flags := new_flags\<rparr>, pm)))"

text \<open>One page of \<open>resize\<close>: map it if it is not mapped, or unmap it if it is.\<close>

definition grow_page :: "u64 \<Rightarrow> page \<Rightarrow> page_mem \<Rightarrow> page_mem outcome option" where
  "grow_page flags p pm =
     (case translate_page pm p of
        Panic \<Rightarrow> Some Panic
      | Return None \<Rightarrow> map_page p flags pm
      | Return (Some _) \<Rightarrow> Some (Return pm))"

definition shrink_page :: "page \<Rightarrow> page_mem \<Rightarrow> page_mem outcome option" where
  "shrink_page p pm =
     (case translate_page pm p of
        Panic \<Rightarrow> Some Panic
      | Return None \<Rightarrow> Some (Return pm)
      | Return (Some _) \<Rightarrow> Some (unmap p pm))"

definition memory_resize :: "usize \<Rightarrow> bool \<Rightarrow> bool \<Rightarrow> memory \<Rightarrow> page_mem \<Rightarrow> (memory \<times> page_mem) outcome option" where
  "memory_resize new_size flush clear m pm =
     then_do
       (if new_size > mem_size m then
          then_do (for_pages (grow_page (mem_flags m))
              (page_range (page_containing (mem_start m + mem_size m)) (page_containing (mem_start m + new_size - 1))) pm)
            (\<lambda>pm. Some (if clear \<and> \<not> flush then Panic else Return pm))
        else if new_size < mem_size m then
          for_pages shrink_page
            (page_range (page_containing (mem_start m + new_size)) (page_containing (mem_start m + mem_size m - 1))) pm
        else Some (Return pm))
       (\<lambda>pm. Some (Return (m\<lparr>mem_size := new_size\<rparr>, pm)))"

definition memory_drop :: "memory \<Rightarrow> page_mem \<Rightarrow> page_mem outcome option" where
  "memory_drop = memory_unmap"

section \<open>Loops that unmap\<close>

lemma for_pages_step:
  "for_pages body (page_range s e) st =
     (if s \<le> e then then_do (body s st) (for_pages body (page_range (Page (page_number s + 1)) e)) else Some (Return st))"
  by (subst for_pages.simps) (simp add: page_next_def page_range_def then_do_def)

lemma then_do_Return:
  "then_do m k = Some (Return x) \<longleftrightarrow> (\<exists>s. m = Some (Return s) \<and> k s = Some (Return x))"
  by (cases m; cases "the m") (auto simp: then_do_def)

text \<open>Different pages of the 48-bit address space have different indices.\<close>

lemma page_index_inj:
  assumes "unat (page_number p) < 2 ^ 36" "unat (page_number q) < 2 ^ 36" "page_index p = page_index q"
  shows "p = q"
proof -
  have "bit (page_number p) n = bit (page_number q) n" for n
  proof -
    consider "n < 9" | "9 \<le> n" "n < 18" | "18 \<le> n" "n < 27" | "27 \<le> n" "n < 36" | "36 \<le> n"
      by linarith
    then show ?thesis
    proof cases
      case 5
      have "\<not> bit (page_number r) n" if "unat (page_number r) < 2 ^ 36" for r
      proof -
        have "page_number r < 2 ^ 36"
          using that by (simp add: word_less_nat_alt)
        then have "take_bit 36 (page_number r) = page_number r"
          by (simp add: take_bit_usize_iff)
        then show ?thesis
          using 5 by (metis bit_take_bit_iff not_le)
      qed
      then show ?thesis
        using assms by blast
    qed (use assms(3) in \<open>auto simp: page_index_def p4_index_def p3_index_def p2_index_def p1_index_def and_511 bit_eq_iff bit_simps
        dest: spec[of _ n] spec[of _ "n - 9"] spec[of _ "n - 18"] spec[of _ "n - 27"]\<close>)
  qed
  then have "page_number p = page_number q"
    by (simp add: bit_eq_iff)
  then show ?thesis
    by (cases p; cases q) simp
qed

text \<open>
  The body of such a loop takes one page out of the page map; \<open>strict\<close> says that the page must be mapped. The
  loop then takes out all pages of the range, and does not panic.
\<close>

locale erases_pages =
  fixes body :: "page \<Rightarrow> page_mem \<Rightarrow> page_mem outcome option" and strict :: bool
  assumes erase: "tables_wf pm \<Longrightarrow> p4_index p \<noteq> 511 \<Longrightarrow> (strict \<Longrightarrow> page_map pm (page_index p) \<noteq> None) \<Longrightarrow>
    \<exists>pm'. body p pm = Some (Return pm') \<and> tables_wf pm' \<and> page_map pm' = (page_map pm)(page_index p := None)"
begin

lemma erase_loop:
  assumes "tables_wf pm" "unat (page_number e) < 2 ^ 35"
    and "strict \<Longrightarrow> (\<forall>p. s \<le> p \<and> p \<le> e \<longrightarrow> page_map pm (page_index p) \<noteq> None)"
  shows "\<exists>pm'. for_pages body (page_range s e) pm = Some (Return pm') \<and> tables_wf pm' \<and>
    page_map pm' = (\<lambda>x. if \<exists>p. s \<le> p \<and> p \<le> e \<and> x = page_index p then None else page_map pm x)"
  using assms(1,3)
proof (induction "unat (page_number e) + 1 - unat (page_number s)" arbitrary: s pm rule: less_induct)
  case less
  show ?case
  proof (cases "s \<le> e")
    case False
    then have "(\<lambda>x. if \<exists>p. s \<le> p \<and> p \<le> e \<and> x = page_index p then None else page_map pm x) = page_map pm"
      by (auto simp: fun_eq_iff)
    then show ?thesis
      using False less.prems unfolding for_pages_step[of _ s e] by auto
  next
    case True
    let ?t = "Page (page_number s + 1)"
    have t: "unat (page_number ?t) = unat (page_number s) + 1"
      using True assms(2) unat_add_usize[of "page_number s" 1] by (simp add: page_order)
    have split: "s \<le> p \<longleftrightarrow> p = s \<or> ?t \<le> p" for p
      unfolding page_order t by linarith
    have other: "page_index p \<noteq> page_index s" if "?t \<le> p" "p \<le> e" for p
      using page_index_inj[of p s] that assms(2) t unfolding page_order by auto
    have "p4_index s \<noteq> 511"
      using True assms(2) low_page[of s] by (simp add: page_order)
    then obtain pm1 where 1: "body s pm = Some (Return pm1)" "tables_wf pm1"
      "page_map pm1 = (page_map pm)(page_index s := None)"
      using erase[OF less.prems(1)] less.prems(2) True by blast
    have "unat (page_number e) + 1 - unat (page_number ?t) < unat (page_number e) + 1 - unat (page_number s)"
      using True t by (simp add: page_order)
    moreover have "strict \<Longrightarrow> (\<forall>p. ?t \<le> p \<and> p \<le> e \<longrightarrow> page_map pm1 (page_index p) \<noteq> None)"
      using less.prems(2) other split unfolding 1(3) by auto
    ultimately obtain pm2 where 2: "for_pages body (page_range ?t e) pm1 = Some (Return pm2)" "tables_wf pm2"
      "page_map pm2 = (\<lambda>x. if \<exists>p. ?t \<le> p \<and> p \<le> e \<and> x = page_index p then None else page_map pm1 x)"
      using less.hyps[of ?t pm1] 1(2) by blast
    have "for_pages body (page_range s e) pm = Some (Return pm2)"
      using True 1(1) 2(1) by (simp add: for_pages_step[of _ s e] then_do_def)
    moreover have eq: "(\<exists>p. s \<le> p \<and> p \<le> e \<and> x = page_index p) \<longleftrightarrow> x = page_index s \<or> (\<exists>p. ?t \<le> p \<and> p \<le> e \<and> x = page_index p)" for x
      using True split by metis
    have "page_map pm2 = (\<lambda>x. if \<exists>p. s \<le> p \<and> p \<le> e \<and> x = page_index p then None else page_map pm x)"
      unfolding 2(3) 1(3) eq by (intro ext) (auto simp only: fun_upd_apply split: if_splits)
    ultimately show ?thesis
      using 2(2) by blast
  qed
qed

end

lemma unmap_mapped:
  assumes wf: "tables_wf pm" and p: "p4_index p \<noteq> 511" and mapped: "page_map pm (page_index p) \<noteq> None"
  shows "\<exists>f pm'. unmap_return p pm = Return (f, pm') \<and> unmap p pm = Return pm' \<and> tables_wf pm' \<and>
    page_map pm' = (page_map pm)(page_index p := None)"
proof -
  obtain f where f: "page_map pm (page_index p) = Some f"
    using mapped by blast
  obtain g where g: "descend pm (pg_cr3 pm) [p4_index p, p3_index p, p2_index p] = Some g"
    using page_map_Some_path[OF f] .
  let ?pm = "write_entry g (p1_index p) 0 pm"
  have x: "valid_index (p4_index p, p3_index p, p2_index p, p1_index p)"
    using valid_page_index[OF p] by (simp add: page_index_def)
  have wf': "tables_wf ?pm"
    by (rule leaf_write_wf[OF wf x g])
  then obtain a where a: "ALLOCATOR (pg_memory ?pm) = Some a"
    by (auto simp: tables_wf_def)
  then have "pg_memory ?pm\<lparr>ALLOCATOR := Some a\<rparr> = pg_memory ?pm"
    by simp
  then have "unmap p pm = Return ?pm"
    using f g a by (simp add: unmap_def unmap_return_spec[OF wf p] deallocate_frame_def deallocate_frames_def
        area_deallocate_frames_def del: descend.simps write_entry_simps)
  moreover have "unmap_return p pm = Return (f, ?pm)"
    using f g by (simp add: unmap_return_spec[OF wf p])
  moreover have "page_map ?pm = (page_map pm)(page_index p := None)"
    by (simp add: page_map_leaf_write[OF wf x g] page_index_def has_flag_def PRESENT_def)
  ultimately show ?thesis
    using wf' by blast
qed

interpretation shrinking: erases_pages shrink_page False
proof
  fix pm p
  assume wf: "tables_wf pm" and p: "p4_index p \<noteq> 511"
  have t: "translate_page pm p = Return (page_map pm (page_index p))"
    using wf p by (simp add: translate_page_eq[OF tables_wfD(1)[OF wf]] page_map_walk[OF p])
  show "\<exists>pm'. shrink_page p pm = Some (Return pm') \<and> tables_wf pm' \<and> page_map pm' = (page_map pm)(page_index p := None)"
  proof (cases "page_map pm (page_index p)")
    case None
    then have "(page_map pm)(page_index p := None) = page_map pm"
      by (simp add: fun_upd_idem)
    then show ?thesis
      using None wf t by (simp add: shrink_page_def)
  next
    case (Some f)
    then show ?thesis
      using unmap_mapped[OF wf p] t by (auto simp: shrink_page_def)
  qed
qed

interpretation unmapping: erases_pages "\<lambda>p pm. Some (unmap p pm)" True
  by unfold_locales (use unmap_mapped in fastforce)

interpretation returning: erases_pages "\<lambda>p pm. Some (bind_outcome (unmap_return p pm) (\<lambda>(_, pm). Return pm))" True
  by unfold_locales (use unmap_mapped in fastforce)

section \<open>Regions\<close>

text \<open>The pages that hold the bytes of a region.\<close>

definition region_pages :: "usize \<Rightarrow> usize \<Rightarrow> page_index set" where
  "region_pages start sz = page_index ` {p. page_containing start \<le> p \<and> p \<le> page_containing (start + sz - 1)}"

definition low_region :: "usize \<Rightarrow> usize \<Rightarrow> bool" where
  "low_region start sz \<longleftrightarrow> unat start + unat sz \<le> 2 ^ 47 \<and> (start \<noteq> 0 \<or> sz \<noteq> 0)"

lemma region_end:
  assumes "low_region start sz"
  shows "unat (page_number (page_containing (start + sz - 1))) < 2 ^ 35"
proof -
  have "unat (start + sz) = unat start + unat sz" "start + sz \<noteq> 0"
    using assms unat_add_usize[of start sz] by (auto simp: low_region_def simp flip: unat_eq_0)
  then have "unat (start + sz - 1) < 2 ^ 47"
    using assms by (auto simp: low_region_def unat_minus_one)
  then show ?thesis
    by (simp add: page_number_containing)
qed

lemma erased_region:
  "(\<lambda>x. if \<exists>p. page_containing start \<le> p \<and> p \<le> page_containing (start + sz - 1) \<and> x = page_index p then None else f x) =
     (\<lambda>x. if x \<in> region_pages start sz then None else f x)"
  by (auto simp: region_pages_def fun_eq_iff)

lemma memory_unmap_spec:
  assumes "tables_wf pm" "low_region (mem_start m) (mem_size m)"
    and "\<forall>x \<in> region_pages (mem_start m) (mem_size m). page_map pm x \<noteq> None"
  shows "\<exists>pm'. memory_unmap m pm = Some (Return pm') \<and> tables_wf pm' \<and>
    page_map pm' = (\<lambda>x. if x \<in> region_pages (mem_start m) (mem_size m) then None else page_map pm x)"
  using unmapping.erase_loop[OF assms(1) region_end[OF assms(2)], of "page_containing (mem_start m)"] assms(3)
  unfolding erased_region memory_unmap_def memory_pages_def region_def by (simp add: region_pages_def)

lemma grant_unmap_spec:
  assumes "tables_wf pm" "low_region (g_start g) (g_size g)" "g_mapped g"
    and "\<forall>x \<in> region_pages (g_start g) (g_size g). page_map pm x \<noteq> None"
  shows "\<exists>pm'. grant_unmap g pm = Some (Return pm') \<and> tables_wf pm' \<and>
    page_map pm' = (\<lambda>x. if x \<in> region_pages (g_start g) (g_size g) then None else page_map pm x)"
  using returning.erase_loop[OF assms(1) region_end[OF assms(2)], of "page_containing (g_start g)"] assms(3,4)
  unfolding erased_region grant_unmap_def unmap_region_def region_def by (simp add: region_pages_def)

section \<open>Loops that map\<close>

text \<open>With the tables in place and a free frame, \<open>map\<close> uses a fresh frame and changes no other entry.\<close>

lemma map_page_ready:
  assumes wf: "tables_wf pm" and p: "p4_index p \<noteq> 511" and e: "leaf_entry pm (page_index p) = Some 0"
    and f: "can_allocate pm f" and fl: "flags AND ALL_FLAGS = flags"
  shows "\<exists>g pm'. map_page p flags pm = Some (Return pm') \<and> tables_wf pm' \<and> can_allocate pm g \<and>
    (\<forall>h. can_allocate pm' h \<longleftrightarrow> can_allocate pm h \<and> h \<noteq> g) \<and> page_map pm' = (page_map pm)(page_index p \<mapsto> g) \<and>
    (\<forall>y. valid_index y \<and> y \<noteq> page_index p \<longrightarrow> leaf_entry pm' y = leaf_entry pm y)"
proof -
  obtain a where a: "ALLOCATOR (pg_memory pm) = Some a" "frames_wf (MEMORY_MAP (pg_memory pm)) a"
    using wf by (auto simp: tables_wf_def)
  obtain r a' where r: "allocate_frame (pg_memory pm) = Some (Return (r, (pg_memory pm)\<lparr>ALLOCATOR := Some a'\<rparr>))"
    "handed_out (MEMORY_MAP (pg_memory pm)) a r a'"
    by (rule allocate_frame_spec[OF a])
  have "r \<noteq> None"
    using f a(1) r(2) by (cases r) (auto simp: can_allocate_def handed_out_def)
  then obtain g where g: "r = Some g"
    by blast
  let ?pm = "pm\<lparr>pg_memory := (pg_memory pm)\<lparr>ALLOCATOR := Some a'\<rparr>\<rparr>"
  note T = take_frame[OF wf r(1)[unfolded g]]
  obtain t where t: "descend pm (pg_cr3 pm) [p4_index p, p3_index p, p2_index p] = Some t" "pg_tables pm t (p1_index p) = 0"
    using e p by (auto simp: page_index_def simp del: descend.simps)
  let ?pm' = "write_entry t (p1_index p) (entry_set g (flags OR PRESENT)) ?pm"
  have x: "valid_index (p4_index p, p3_index p, p2_index p, p1_index p)"
    using valid_page_index[OF p] by (simp add: page_index_def)
  have t': "descend ?pm (pg_cr3 ?pm) [p4_index p, p3_index p, p2_index p] = Some t" "pg_tables ?pm t (p1_index p) = 0"
    by (simp_all add: t del: descend.simps)
  have m: "map_to p g flags ?pm = Some (Return ?pm')"
    unfolding map_to_existing[OF T(1) p t'(1)] by (simp add: t(2))
  have "leaf_entry ?pm y = leaf_entry pm y" for y
    by (cases y) (simp del: descend.simps)
  then have "leaf_entry ?pm' y = leaf_entry pm y" if "valid_index y" "y \<noteq> page_index p" for y
    using that leaf_write_entry[OF T(1) x t'(1) that(1)] by (simp add: page_index_def del: leaf_entry.simps)
  moreover have "can_allocate ?pm' h \<longleftrightarrow> can_allocate pm h \<and> h \<noteq> g" for h
    using T(4) by (simp add: can_allocate_def)
  moreover have "map_page p flags pm = Some (Return ?pm')"
    using r(1) m by (simp add: map_page_def g)
  moreover have "page_map ?pm' = (page_map pm)(page_index p \<mapsto> g)"
    using map_to_page_map(3)[OF T(1) p T(3) fl m] by simp
  ultimately show ?thesis
    using map_to_page_map(1)[OF T(1) p T(3) fl m] T(2) by blast
qed

text \<open>The pages of \<open>s\<close> up to \<open>e\<close> have become mapped to frames that were free, no two to the same.\<close>

definition newly_mapped :: "page_index set \<Rightarrow> page_mem \<Rightarrow> page_mem \<Rightarrow> bool" where
  "newly_mapped X pm pm' \<longleftrightarrow> tables_wf pm' \<and> (\<forall>x. x \<notin> X \<longrightarrow> page_map pm' x = page_map pm x) \<and>
     (\<forall>x \<in> X. \<exists>f. page_map pm' x = Some f \<and> can_allocate pm f \<and> \<not> can_allocate pm' f) \<and>
     inj_on (page_map pm') X \<and> (\<forall>h. can_allocate pm' h \<longrightarrow> can_allocate pm h)"

lemma newly_mapped_insert:
  assumes 1: "can_allocate pm g" "\<forall>h. can_allocate pm1 h \<longleftrightarrow> can_allocate pm h \<and> h \<noteq> g" "page_map pm1 = (page_map pm)(x \<mapsto> g)"
    and 2: "newly_mapped X pm1 pm2" and x: "x \<notin> X"
  shows "newly_mapped (insert x X) pm pm2"
proof -
  have fx: "page_map pm2 x = Some g"
    using 2 x unfolding newly_mapped_def 1(3) by (metis fun_upd_same)
  have y: "\<exists>f. page_map pm2 y = Some f \<and> can_allocate pm f \<and> \<not> can_allocate pm2 f \<and> f \<noteq> g" if "y \<in> X" for y
    using 1(2) 2 that unfolding newly_mapped_def by metis
  have g: "\<not> can_allocate pm2 g"
    using 1(2) 2 unfolding newly_mapped_def by metis
  have "inj_on (page_map pm2) (insert x X)"
    using 2 fx y x unfolding newly_mapped_def by (auto simp: inj_on_insert dest!: y)
  moreover have "\<forall>z. z \<notin> insert x X \<longrightarrow> page_map pm2 z = page_map pm z"
    using 2 unfolding newly_mapped_def 1(3) by (metis fun_upd_other insertCI)
  moreover have "\<forall>h. can_allocate pm2 h \<longrightarrow> can_allocate pm h"
    using 2 1(2) by (simp add: newly_mapped_def)
  moreover have "\<forall>z \<in> insert x X. \<exists>f. page_map pm2 z = Some f \<and> can_allocate pm f \<and> \<not> can_allocate pm2 f"
    using fx g 1(1) y by blast
  ultimately show ?thesis
    using 2 unfolding newly_mapped_def by blast
qed

lemma map_fresh_loop:
  assumes "tables_wf pm" "unat (page_number e) < 2 ^ 35" "flags AND ALL_FLAGS = flags"
    and "\<forall>p. s \<le> p \<and> p \<le> e \<longrightarrow> leaf_entry pm (page_index p) = Some 0"
    and "unat (page_number e) + 1 - unat (page_number s) \<le> card {f. can_allocate pm f}"
  shows "\<exists>pm'. for_pages (\<lambda>p. map_page p flags) (page_range s e) pm = Some (Return pm') \<and>
    newly_mapped (page_index ` {p. s \<le> p \<and> p \<le> e}) pm pm'"
  using assms(1,4,5)
proof (induction "unat (page_number e) + 1 - unat (page_number s)" arbitrary: s pm rule: less_induct)
  case less
  show ?case
  proof (cases "s \<le> e")
    case False
    then have "{p. s \<le> p \<and> p \<le> e} = {}"
      by auto
    then show ?thesis
      using False less.prems(1) unfolding for_pages_step[of _ s e] by (simp only: image_empty) (simp add: newly_mapped_def)
  next
    case True
    let ?t = "Page (page_number s + 1)"
    have t: "unat (page_number ?t) = unat (page_number s) + 1"
      using True assms(2) unat_add_usize[of "page_number s" 1] by (simp add: page_order)
    have split: "s \<le> p \<longleftrightarrow> p = s \<or> ?t \<le> p" for p
      unfolding page_order t by linarith
    have other: "page_index p \<noteq> page_index s" if "?t \<le> p" "p \<le> e" for p
      using page_index_inj[of p s] that assms(2) t unfolding page_order by auto
    have low: "p4_index p \<noteq> 511" if "p \<le> e" for p
      using that assms(2) low_page[of p] by (simp add: page_order)
    have size: "0 < card {f. can_allocate pm f}"
      using less.prems(3) True by (simp add: page_order)
    then obtain f where f: "can_allocate pm f"
      by (metis card.empty empty_Collect_eq less_irrefl)
    obtain g pm1 where 1: "map_page s flags pm = Some (Return pm1)" "tables_wf pm1" "can_allocate pm g"
      "\<forall>h. can_allocate pm1 h \<longleftrightarrow> can_allocate pm h \<and> h \<noteq> g" "page_map pm1 = (page_map pm)(page_index s \<mapsto> g)"
      "\<forall>y. valid_index y \<and> y \<noteq> page_index s \<longrightarrow> leaf_entry pm1 y = leaf_entry pm y"
      using map_page_ready[OF less.prems(1) low[OF True] _ f assms(3)] less.prems(2) True by blast
    have "{f. can_allocate pm1 f} = {f. can_allocate pm f} - {g}"
      using 1(4) by auto
    then have "card {f. can_allocate pm1 f} = card {f. can_allocate pm f} - 1"
      using 1(3) by (simp add: card_Diff_singleton)
    then have "unat (page_number e) + 1 - unat (page_number ?t) \<le> card {f. can_allocate pm1 f}"
      using less.prems(3) t by linarith
    moreover have "unat (page_number e) + 1 - unat (page_number ?t) < unat (page_number e) + 1 - unat (page_number s)"
      using True t by (simp add: page_order)
    moreover have "\<forall>p. ?t \<le> p \<and> p \<le> e \<longrightarrow> leaf_entry pm1 (page_index p) = Some 0"
      using less.prems(2) 1(6) other low split valid_page_index by metis
    ultimately obtain pm2 where 2: "for_pages (\<lambda>p. map_page p flags) (page_range ?t e) pm1 = Some (Return pm2)"
      "newly_mapped (page_index ` {p. ?t \<le> p \<and> p \<le> e}) pm1 pm2"
      using less.hyps[of ?t pm1] 1(2) by blast
    have "for_pages (\<lambda>p. map_page p flags) (page_range s e) pm = Some (Return pm2)"
      using True 1(1) 2(1) by (simp add: for_pages_step[of _ s e] then_do_def)
    moreover have "page_index s \<notin> page_index ` {p. ?t \<le> p \<and> p \<le> e}"
      using other by (metis (no_types, lifting) imageE mem_Collect_eq)
    then have "newly_mapped (insert (page_index s) (page_index ` {p. ?t \<le> p \<and> p \<le> e})) pm pm2"
      by (rule newly_mapped_insert[OF 1(3-5) 2(2)])
    moreover have "{p. s \<le> p \<and> p \<le> e} = insert s {p. ?t \<le> p \<and> p \<le> e}"
      using True split by auto
    ultimately show ?thesis
      by auto
  qed
qed

lemma region_size:
  assumes "low_region start sz"
  shows "unat (page_number (page_containing (start + sz - 1))) + 1 - unat (page_number (page_containing start)) \<le> unat sz div 4096 + 2"
proof -
  have "unat (start + sz) = unat start + unat sz" "start + sz \<noteq> 0"
    using assms unat_add_usize[of start sz] by (auto simp: low_region_def simp flip: unat_eq_0)
  then have "unat (page_number (page_containing (start + sz - 1))) = (unat start + unat sz - 1) div 4096"
    by (simp add: page_number_containing unat_minus_one)
  then show ?thesis
    by (simp add: page_number_containing)
qed

lemma memory_new_maps:
  assumes "tables_wf pm" "low_region start sz" "flags AND ALL_FLAGS = flags" "has_flag flags WRITABLE"
    and "\<forall>x \<in> region_pages start sz. leaf_entry pm x = Some 0" "unat sz div 4096 + 2 \<le> card {f. can_allocate pm f}"
  shows "\<exists>pm'. memory_new start sz flags True clear pm = Some (Return (\<lparr>mem_start = start, mem_size = sz, mem_flags = flags\<rparr>, pm')) \<and>
    newly_mapped (region_pages start sz) pm pm'"
proof -
  have "unat (page_number (page_containing (start + sz - 1))) + 1 - unat (page_number (page_containing start)) \<le> card {f. can_allocate pm f}"
    using region_size[OF assms(2)] assms(6) by simp
  moreover have "\<forall>p. page_containing start \<le> p \<and> p \<le> page_containing (start + sz - 1) \<longrightarrow> leaf_entry pm (page_index p) = Some 0"
    using assms(5) by (auto simp: region_pages_def)
  ultimately obtain pm' where "for_pages (\<lambda>p. map_page p flags) (region start sz) pm = Some (Return pm')" "newly_mapped (region_pages start sz) pm pm'"
    using map_fresh_loop[OF assms(1) region_end[OF assms(2)] assms(3), of "page_containing start"] unfolding region_def region_pages_def by blast
  then show ?thesis
    using assms(4) by (simp add: memory_new_def memory_map_pages_def memory_pages_def then_do_def Let_def)
qed

section \<open>Properties\<close>

text \<open>
  Shrinking memory always returns, unmaps every page from the one that holds the new end to the one that
  holds the old last byte, and changes no other page. When the new end is not on a page boundary, the first
  of these pages also holds the last bytes that the memory keeps: it is unmapped although part of it is still
  in use.
\<close>

theorem shrink_unmaps_pages:
  assumes "tables_wf pm" "new_size < mem_size m" "unat (mem_start m) + unat (mem_size m) \<le> 2 ^ 47"
  shows "\<exists>pm'. memory_resize new_size flush clear m pm = Some (Return (m\<lparr>mem_size := new_size\<rparr>, pm')) \<and> tables_wf pm' \<and>
    page_map pm' = (\<lambda>x. if \<exists>p. page_containing (mem_start m + new_size) \<le> p \<and>
        p \<le> page_containing (mem_start m + mem_size m - 1) \<and> x = page_index p then None else page_map pm x) \<and>
    ((mem_start m + new_size) mod 4096 \<noteq> 0 \<longrightarrow>
      page_map pm' (page_index (page_containing (mem_start m + new_size - 1))) = None)"
proof -
  let ?a = "mem_start m + new_size" and ?z = "mem_start m + mem_size m - 1"
  have n: "unat new_size < unat (mem_size m)"
    using assms(2) by (simp add: word_less_nat_alt)
  have a: "unat ?a = unat (mem_start m) + unat new_size"
    using n assms(3) by (intro unat_add_usize) simp
  have "unat (mem_start m + mem_size m) = unat (mem_start m) + unat (mem_size m)"
    using assms(3) by (intro unat_add_usize) simp
  moreover have "mem_start m + mem_size m \<noteq> 0"
    using calculation n by (metis add_eq_0_iff_both_eq_0 not_less_zero unsigned_0)
  ultimately have z: "unat ?z = unat (mem_start m) + unat (mem_size m) - 1"
    by (simp add: unat_minus_one)
  then have "unat (page_number (page_containing ?z)) < 2 ^ 35"
    using assms(3) n by (simp add: page_number_containing)
  from shrinking.erase_loop[OF assms(1) this, of "page_containing ?a"] obtain pm' where
    loop: "for_pages shrink_page (page_range (page_containing ?a) (page_containing ?z)) pm = Some (Return pm')"
    and wf': "tables_wf pm'" and map': "page_map pm' = (\<lambda>x. if \<exists>p. page_containing ?a \<le> p \<and> p \<le> page_containing ?z \<and>
      x = page_index p then None else page_map pm x)"
    by auto
  have res: "memory_resize new_size flush clear m pm = Some (Return (m\<lparr>mem_size := new_size\<rparr>, pm'))"
    using loop assms(2) less_not_sym[OF assms(2)] by (simp add: memory_resize_def then_do_def)
  have gone: "page_map pm' (page_index (page_containing (?a - 1))) = None" if "?a mod 4096 \<noteq> 0"
  proof -
    have "unat ?a mod 4096 \<noteq> 0"
      using that by (simp add: unat_mod flip: unat_eq_unat_iff)
    moreover have "k div 4096 = (k - 1) div 4096 \<and> k \<noteq> 0" if "k mod 4096 \<noteq> 0" for k :: nat
      using that by (cases k) (simp_all add: div_Suc)
    ultimately have "unat ?a div 4096 = (unat ?a - 1) div 4096" "unat ?a \<noteq> 0"
      by blast+
    moreover have "unat (?a - 1) = unat ?a - 1"
      using \<open>unat ?a \<noteq> 0\<close> by (intro unat_minus_one) auto
    ultimately have "page_containing (?a - 1) = page_containing ?a"
      by (simp add: page_order(2) page_number_containing)
    moreover have "page_containing ?a \<le> page_containing ?z"
      using n a z by (auto simp: page_order(1) page_number_containing intro!: div_le_mono)
    ultimately show ?thesis
      unfolding map' by auto
  qed
  show ?thesis
    by (intro exI[of _ pm'] conjI impI) (fact res, fact wf', fact map', fact gone)
qed

theorem shrink_unmaps_pages_witness:
  "\<exists>pm'. memory_resize 100 True True \<lparr>mem_start = 0, mem_size = 0x1000, mem_flags = PRESENT OR WRITABLE\<rparr> small_tables =
     Some (Return (\<lparr>mem_start = 0, mem_size = 100, mem_flags = PRESENT OR WRITABLE\<rparr>, pm')) \<and>
     page_map pm' (page_index (page_containing 99)) = None"
  using shrink_unmaps_pages[OF small_tables_wf, of 100 "\<lparr>mem_start = 0, mem_size = 0x1000, mem_flags = PRESENT OR WRITABLE\<rparr>" True True]
  by auto

text \<open>
  C36. New memory is fresh: where the tables are in place and unused, and there are frames enough, \<open>Memory::new\<close>
  returns; every page of the region is then mapped, each to a frame of its own that was free before and cannot
  be allocated again; and no other page is changed.
\<close>

theorem new_memory_is_fresh:
  assumes "tables_wf pm" "low_region start sz" "flags AND ALL_FLAGS = flags" "has_flag flags WRITABLE"
    and "\<forall>x \<in> region_pages start sz. leaf_entry pm x = Some 0" "unat sz div 4096 + 2 \<le> card {f. can_allocate pm f}"
  shows "\<exists>pm'. memory_new start sz flags True clear pm = Some (Return (\<lparr>mem_start = start, mem_size = sz, mem_flags = flags\<rparr>, pm')) \<and>
    tables_wf pm' \<and> (\<forall>x. x \<notin> region_pages start sz \<longrightarrow> page_map pm' x = page_map pm x) \<and>
    (\<forall>x \<in> region_pages start sz. \<exists>f. page_map pm' x = Some f \<and> can_allocate pm f \<and> \<not> can_allocate pm' f) \<and>
    inj_on (page_map pm') (region_pages start sz)"
  using memory_new_maps[OF assms] unfolding newly_mapped_def by blast

text \<open>The pages of the first table under an entry of the top table.\<close>

lemma first_table_page:
  assumes "unat (page_number p) = k * 2 ^ 27 + j" "k < 512" "j < 512"
  shows "page_index p = (of_nat k, 0, 0, of_nat j)"
proof -
  have i: "unat (drop_bit n (page_number p) AND 511) = unat (page_number p) div 2 ^ n mod 512" for n
    unfolding and_511 unsigned_take_bit_eq unat_drop_bit_eq by (simp add: take_bit_eq_mod drop_bit_eq_div)
  have "unat (of_nat k :: usize) = k" "unat (of_nat j :: usize) = j"
    using assms(2,3) by (simp_all add: unat_of_nat_small)
  moreover have "(k * 2 ^ 27 + j) div 2 ^ 27 = k" "(k * 2 ^ 27 + j) div 2 ^ 18 = k * 512" "(k * 2 ^ 27 + j) div 2 ^ 9 = k * 2 ^ 18"
    "(k * 2 ^ 27 + j) mod 512 = j"
    using assms(3) by (simp_all add: mod_add_left_eq[symmetric, of "k * 134217728" j 512])
  ultimately show ?thesis
    unfolding page_index_def p4_index_def p3_index_def p2_index_def p1_index_def prod.inject word_unat_eq_iff i assms(1)
    using assms(2,3) by auto
qed

lemma small_tables_ready:
  "4 \<le> card {f. can_allocate small_tables f}" "\<forall>x \<in> region_pages 0 0x2000. leaf_entry small_tables x = Some 0"
proof -
  have "card {Frame 4, Frame 5, Frame 6, Frame 7} \<le> card {f. can_allocate small_tables f}"
    by (rule card_mono) (auto simp: small_available less_eq_frame_def)
  then show "4 \<le> card {f. can_allocate small_tables f}"
    by simp
  have "page_index p = (0, 0, 0, of_nat (unat (page_number p)))" if "p \<le> page_containing 0x1FFF" for p
    using that first_table_page[of p 0 "unat (page_number p)"] by (simp add: page_order page_number_containing)
  then show "\<forall>x \<in> region_pages 0 0x2000. leaf_entry small_tables x = Some 0"
    by (auto simp: region_pages_def small_step) (simp add: small_tables_at_def)
qed

theorem new_memory_is_fresh_witness:
  "\<exists>pm'. memory_new 0 0x2000 (NO_EXECUTE OR WRITABLE) True True small_tables =
     Some (Return (\<lparr>mem_start = 0, mem_size = 0x2000, mem_flags = NO_EXECUTE OR WRITABLE\<rparr>, pm')) \<and>
     inj_on (page_map pm') (region_pages 0 0x2000)"
  using new_memory_is_fresh[OF small_tables_wf, of 0 "0x2000" "NO_EXECUTE OR WRITABLE" True] small_tables_ready
  by (auto simp: low_region_def NO_EXECUTE_def WRITABLE_def ALL_FLAGS_def has_flag_def)

end
