(* ===== verification/Scheme_List.thy ===== *)
theory Scheme_List
  imports Id_Allocation Syscall_ABI
begin

text \<open>
  The scheme list (\<open>kernel/scheme/mod.rs\<close>): schemes by identifier, and for every namespace a map from
  names to identifiers. A call yields \<open>None\<close> if the search for an identifier does not end and \<open>Panic\<close> if
  an \<open>unwrap\<close>, an index or an assertion fails. The list built without the feature \<open>live\<close> is modelled.
\<close>

section \<open>Data\<close>

text \<open>The scheme objects; \<open>UserScheme\<close> stands for one registered through the root scheme.\<close>

datatype scheme_object =
    RootScheme usize usize | EventScheme | EnvScheme | NullScheme | SysScheme | ZeroScheme
  | DebugScheme usize | InitFsScheme | IrqScheme usize | PipeScheme usize | UserScheme usize

type_synonym names = "(bytes, usize) btree_map"

record scheme_list =
  sl_map :: "(usize, scheme_object) btree_map"
  sl_names :: "(usize, names) btree_map"
  sl_next_ns :: usize
  sl_next_id :: usize

definition SCHEME_MAX_SCHEMES :: usize where
  "SCHEME_MAX_SCHEMES = 65536"

section \<open>Operations\<close>

type_synonym 'a run = "('a \<times> scheme_list) outcome option"

fun bind_run :: "'a run \<Rightarrow> ('a \<Rightarrow> scheme_list \<Rightarrow> 'b run) \<Rightarrow> 'b run" where
  "bind_run (Some (Return (a, l))) f = f a l"
| "bind_run (Some Panic) f = Some Panic"
| "bind_run None f = None"

definition get_scheme :: "scheme_list \<Rightarrow> usize \<Rightarrow> scheme_object option" where
  "get_scheme l i = bt_get (sl_map l) i"

text \<open>\<open>self.names[&ns].get(name)\<close> panics if there is no such namespace.\<close>

definition get_name :: "scheme_list \<Rightarrow> usize \<Rightarrow> bytes \<Rightarrow> (usize \<times> scheme_object) option outcome" where
  "get_name l ns name =
     (case bt_get (sl_names l) ns of
        None \<Rightarrow> Panic
      | Some names \<Rightarrow> Return
          (case bt_get names name of
             None \<Rightarrow> None
           | Some i \<Rightarrow> map_option (\<lambda>s. (i, s)) (get_scheme l i)))"

definition iter_name :: "scheme_list \<Rightarrow> usize \<Rightarrow> names outcome" where
  "iter_name l ns = (case bt_get (sl_names l) ns of None \<Rightarrow> Panic | Some names \<Rightarrow> Return names)"

definition insert_scheme :: "usize \<Rightarrow> bytes \<Rightarrow> (usize \<Rightarrow> scheme_object) \<Rightarrow> scheme_list \<Rightarrow> usize result run" where
  "insert_scheme ns name scheme_fn l =
     (case bt_get (sl_names l) ns of
        None \<Rightarrow> Some Panic
      | Some names \<Rightarrow>
          if bt_contains_key names name then Some (Return (Err (Error EEXIST), l))
          else
            (case skip_used (bt_contains_key (sl_map l))
                    (if sl_next_id l \<ge> SCHEME_MAX_SCHEMES then 1 else sl_next_id l) of
               None \<Rightarrow> None
             | Some i \<Rightarrow>
                 if bt_contains_key (sl_map l) i then Some Panic
                 else Some (Return (Ok i,
                   l\<lparr>sl_next_id := i + 1, sl_map := bt_insert i (scheme_fn i) (sl_map l),
                     sl_names := bt_modify ns (bt_insert name i) (sl_names l)\<rparr>))))"

text \<open>\<open>insert(..).unwrap()\<close> for a sequence of schemes.\<close>

fun insert_all :: "usize \<Rightarrow> (bytes \<times> (usize \<Rightarrow> scheme_object)) list \<Rightarrow> scheme_list \<Rightarrow> unit run" where
  "insert_all ns [] l = Some (Return ((), l))"
| "insert_all ns (e # es) l =
     bind_run (insert_scheme ns (fst e) (snd e) l)
       (\<lambda>r l'. case r of Ok _ \<Rightarrow> insert_all ns es l' | Err _ \<Rightarrow> Some Panic)"

definition common_schemes :: "usize \<Rightarrow> (bytes \<times> (usize \<Rightarrow> scheme_object)) list" where
  "common_schemes ns =
     [(bytes_of '''', \<lambda>i. RootScheme ns i), (bytes_of ''event'', \<lambda>i. EventScheme),
      (bytes_of ''env'', \<lambda>i. EnvScheme), (bytes_of ''null'', \<lambda>i. NullScheme),
      (bytes_of ''sys'', \<lambda>i. SysScheme), (bytes_of ''zero'', \<lambda>i. ZeroScheme)]"

definition new_ns :: "scheme_list \<Rightarrow> usize run" where
  "new_ns l =
     (let ns = sl_next_ns l;
          l1 = l\<lparr>sl_next_ns := ns + 1, sl_names := bt_insert ns bt_empty (sl_names l)\<rparr>
      in bind_run (insert_all ns (common_schemes ns) l1) (\<lambda>_ l2. Some (Return (ns, l2))))"

definition root_schemes :: "(bytes \<times> (usize \<Rightarrow> scheme_object)) list" where
  "root_schemes =
     [(bytes_of ''debug'', DebugScheme), (bytes_of ''initfs'', \<lambda>i. InitFsScheme),
      (bytes_of ''irq'', IrqScheme), (bytes_of ''pipe'', PipeScheme)]"

definition new_root :: "scheme_list \<Rightarrow> unit run" where
  "new_root l = bind_run (new_ns l) (\<lambda>ns l1. insert_all ns root_schemes l1)"

definition new_schemes :: "unit run" where
  "new_schemes = new_root \<lparr>sl_map = bt_empty, sl_names = bt_empty, sl_next_ns = 0, sl_next_id = 1\<rparr>"

text \<open>The loop of \<open>make_ns\<close> that copies the requested names.\<close>

fun copy_names :: "usize \<Rightarrow> usize \<Rightarrow> bytes list \<Rightarrow> scheme_list \<Rightarrow> usize result run" where
  "copy_names src dst [] l = Some (Return (Ok dst, l))"
| "copy_names src dst (name # ns) l =
     (case get_name l src name of
        Panic \<Rightarrow> Some Panic
      | Return None \<Rightarrow> Some (Return (Err (Error ENODEV), l))
      | Return (Some (i, _)) \<Rightarrow>
          (case bt_get (sl_names l) dst of
             None \<Rightarrow> Some Panic
           | Some names \<Rightarrow>
               if bt_contains_key names name then Some Panic
               else copy_names src dst ns (l\<lparr>sl_names := bt_modify dst (bt_insert name i) (sl_names l)\<rparr>)))"

definition make_ns :: "usize \<Rightarrow> bytes list \<Rightarrow> scheme_list \<Rightarrow> usize result run" where
  "make_ns src ns l = bind_run (new_ns l) (\<lambda>dst l1. copy_names src dst ns l1)"

section \<open>Invariant\<close>

text \<open>
  Every name of every namespace refers to a registered scheme, and the namespace counter is above all
  namespaces. \<open>sl_room\<close> bounds the number of schemes; it rules out only states that no memory can hold.
\<close>

definition schemes_wf :: "scheme_list \<Rightarrow> bool" where
  "schemes_wf l \<longleftrightarrow> bt_wf (sl_map l) \<and> bt_wf (sl_names l) \<and>
     (\<forall>ns names. bt_get (sl_names l) ns = Some names \<longrightarrow> ns < sl_next_ns l \<and> bt_wf names \<and>
        (\<forall>name i. bt_get names name = Some i \<longrightarrow> get_scheme l i \<noteq> None))"

definition sl_room :: "nat \<Rightarrow> scheme_list \<Rightarrow> bool" where
  "sl_room k l \<longleftrightarrow> length (sl_map l) + k < 2 ^ 63"

text \<open>The scheme that a name stands for; nothing if the namespace does not exist.\<close>

definition lookup :: "scheme_list \<Rightarrow> usize \<Rightarrow> bytes \<Rightarrow> usize option" where
  "lookup l ns name = (case bt_get (sl_names l) ns of None \<Rightarrow> None | Some names \<Rightarrow> bt_get names name)"

section \<open>Lemmas\<close>

lemma bind_run_Some: "bind_run r f = Some (Return x) \<longleftrightarrow> (\<exists>a l. r = Some (Return (a, l)) \<and> f a l = Some (Return x))"
  by (cases "(r, f)" rule: bind_run.cases) auto

lemma length_bt_insert: "bt_get m k = None \<Longrightarrow> length (bt_insert k v m) = Suc (length m)"
  by (induction m) (auto split: if_splits)

text \<open>A map with fewer than \<open>2 ^ 63\<close> entries has a free key at or above any small start.\<close>

lemma free_key_above:
  fixes m :: "(usize, 'v) btree_map"
  assumes "length m < 2 ^ 63" "unat start < 2 ^ 63"
  shows "\<exists>b. start \<le> b \<and> bt_get m b = None"
proof (rule ccontr)
  assume "\<not> ?thesis"
  then have used: "\<And>b. start \<le> b \<Longrightarrow> b \<in> set (bt_keys m)"
    by (metis bt_get_None_iff)
  define f where "f n = (of_nat (unat start + n) :: usize)" for n
  have uf: "unat (f n) = unat start + n" if "n < 2 ^ 63" for n
    using that assms(2) unfolding f_def by (intro unat_of_nat_small) simp
  have "inj_on f {..<2 ^ 63}"
    using uf by (intro inj_onI) (metis add_left_cancel lessThan_iff)
  moreover have "f ` {..<2 ^ 63} \<subseteq> set (bt_keys m)"
    using uf used by (auto simp: word_le_nat_alt)
  ultimately have "2 ^ 63 \<le> card (set (bt_keys m))"
    using card_inj_on_le [of f "{..<2 ^ 63}" "set (bt_keys m)"] by simp
  also have "\<dots> \<le> length m"
    using card_length [of "bt_keys m"] by (simp add: bt_keys_def)
  finally show False
    using assms(1) by simp
qed

lemma get_scheme_insert:
  "insert_scheme ns name f l = Some (Return (Ok i, l')) \<Longrightarrow>
   get_scheme l i = None \<and> get_scheme l' = (get_scheme l)(i \<mapsto> f i)"
  by (auto simp: insert_scheme_def get_scheme_def bt_contains_key_def fun_eq_iff
      split: option.splits if_splits)

lemma lookup_insert:
  "insert_scheme ns name f l = Some (Return (Ok i, l')) \<Longrightarrow>
   lookup l ns name = None \<and>
   lookup l' = (\<lambda>ns'. if ns' = ns then (lookup l ns)(name \<mapsto> i) else lookup l ns')"
  by (auto simp: insert_scheme_def lookup_def bt_contains_key_def fun_eq_iff
      split: option.splits if_splits)

lemma insert_scheme_frame:
  "insert_scheme ns name f l = Some (Return (Ok i, l')) \<Longrightarrow>
   sl_next_ns l' = sl_next_ns l \<and> length (sl_map l') = Suc (length (sl_map l)) \<and>
   (\<forall>ns'. bt_get (sl_names l') ns' \<noteq> None \<longleftrightarrow> bt_get (sl_names l) ns' \<noteq> None)"
  by (auto simp: insert_scheme_def bt_contains_key_def length_bt_insert split: option.splits if_splits)

lemma schemes_wf_insert [inv_intros]:
  assumes wf: "schemes_wf l" and ins: "insert_scheme ns name f l = Some (Return (Ok i, l'))"
  shows "schemes_wf l'"
proof -
  obtain names where n: "bt_get (sl_names l) ns = Some names" "bt_get names name = None"
    and i: "bt_get (sl_map l) i = None"
    and l': "l' = l\<lparr>sl_next_id := i + 1, sl_map := bt_insert i (f i) (sl_map l),
                     sl_names := bt_modify ns (bt_insert name i) (sl_names l)\<rparr>"
    using ins by (auto simp: insert_scheme_def bt_contains_key_def split: option.splits if_splits)
  show ?thesis
    using wf n i unfolding l' schemes_wf_def get_scheme_def by (auto split: if_splits)
qed

text \<open>With room, an insertion into an existing namespace returns, and fails only on a taken name.\<close>

lemma insert_scheme_returns:
  assumes wf: "schemes_wf l" and ns: "bt_get (sl_names l) ns \<noteq> None" and room: "sl_room 0 l"
  shows "\<exists>r l'. insert_scheme ns name f l = Some (Return (r, l')) \<and>
    (if lookup l ns name = None then \<exists>i. r = Ok i else r = Err (Error EEXIST) \<and> l' = l)"
proof -
  obtain names where names: "bt_get (sl_names l) ns = Some names"
    using ns by blast
  define start where "start = (if sl_next_id l \<ge> SCHEME_MAX_SCHEMES then 1 else sl_next_id l)"
  have "unat start < 2 ^ 63"
    by (auto simp: start_def SCHEME_MAX_SCHEMES_def word_le_nat_alt not_le)
  then obtain b where "start \<le> b" "\<not> bt_contains_key (sl_map l) b"
    using free_key_above [of "sl_map l" start] room by (auto simp: sl_room_def bt_contains_key_def)
  then obtain i where "skip_used (bt_contains_key (sl_map l)) start = Some i" "\<not> bt_contains_key (sl_map l) i"
    using skip_used_first by blast
  then show ?thesis
    using names unfolding insert_scheme_def lookup_def start_def [symmetric]
    by (auto simp: bt_contains_key_def)
qed

text \<open>What one or several insertions into \<open>ns\<close> leave alone.\<close>

definition extends :: "usize \<Rightarrow> scheme_list \<Rightarrow> scheme_list \<Rightarrow> bool" where
  "extends ns l l' \<longleftrightarrow> schemes_wf l' \<and> get_scheme l \<subseteq>\<^sub>m get_scheme l' \<and> sl_next_ns l' = sl_next_ns l \<and>
     (\<forall>ns'. ns' \<noteq> ns \<longrightarrow> lookup l' ns' = lookup l ns') \<and>
     (\<forall>ns'. bt_get (sl_names l') ns' \<noteq> None \<longleftrightarrow> bt_get (sl_names l) ns' \<noteq> None)"

lemma extends_insert:
  assumes "schemes_wf l" "insert_scheme ns name f l = Some (Return (Ok i, l'))"
  shows "extends ns l l'"
  using schemes_wf_insert [OF assms] get_scheme_insert [OF assms(2)] lookup_insert [OF assms(2)]
    insert_scheme_frame [OF assms(2)]
  by (auto simp: extends_def map_le_def dom_def)

lemma extends_trans: "extends ns l l1 \<Longrightarrow> extends ns l1 l2 \<Longrightarrow> extends ns l l2"
  by (auto simp: extends_def intro: map_le_trans)

lemma extends_get: "extends ns l l' \<Longrightarrow> get_scheme l i = Some x \<Longrightarrow> get_scheme l' i = Some x"
  unfolding extends_def map_le_def by (metis domI)

lemma insert_all_spec:
  assumes "schemes_wf l" "bt_get (sl_names l) ns \<noteq> None" "sl_room (length es) l" "distinct (map fst es)"
    and "\<forall>e\<in>set es. lookup l ns (fst e) = None"
  shows "\<exists>l'. insert_all ns es l = Some (Return ((), l')) \<and> extends ns l l' \<and>
    length (sl_map l') = length (sl_map l) + length es \<and>
    (\<forall>name. name \<notin> set (map fst es) \<longrightarrow> lookup l' ns name = lookup l ns name) \<and>
    (\<forall>e\<in>set es. \<exists>i. lookup l' ns (fst e) = Some i \<and> get_scheme l i = None \<and> get_scheme l' i = Some (snd e i))"
  using assms
proof (induction es arbitrary: l)
  case Nil
  then show ?case by (simp add: extends_def)
next
  case (Cons e es)
  have "sl_room 0 l"
    using Cons.prems(3) by (simp add: sl_room_def)
  from insert_scheme_returns [OF Cons.prems(1,2) this, of "fst e" "snd e"]
  obtain i l1 where ins: "insert_scheme ns (fst e) (snd e) l = Some (Return (Ok i, l1))"
    using Cons.prems(5) by auto
  note new = get_scheme_insert [OF ins] lookup_insert [OF ins] insert_scheme_frame [OF ins]
  note ext = extends_insert [OF Cons.prems(1) ins]
  have "fst x \<noteq> fst e" if "x \<in> set es" for x
    using Cons.prems(4) that by (metis distinct.simps(2) image_eqI list.set_map list.simps(9))
  then have "\<forall>e\<in>set es. lookup l1 ns (fst e) = None"
    using new Cons.prems(5) by simp
  then obtain l2 where l2: "insert_all ns es l1 = Some (Return ((), l2))" "extends ns l1 l2"
      "length (sl_map l2) = length (sl_map l1) + length es"
      "\<forall>name. name \<notin> set (map fst es) \<longrightarrow> lookup l2 ns name = lookup l1 ns name"
      "\<forall>e\<in>set es. \<exists>i. lookup l2 ns (fst e) = Some i \<and> get_scheme l1 i = None \<and> get_scheme l2 i = Some (snd e i)"
    using Cons.IH [of l1] Cons.prems new ext by (auto simp: extends_def sl_room_def)
  have first: "lookup l2 ns (fst e) = Some i" "get_scheme l2 i = Some (snd e i)"
    using l2(4) Cons.prems(4) new extends_get [OF l2(2)] by auto
  have rest: "\<exists>j. lookup l2 ns (fst x) = Some j \<and> get_scheme l j = None \<and> get_scheme l2 j = Some (snd x j)"
    if x: "x \<in> set es" for x
  proof -
    obtain j where "lookup l2 ns (fst x) = Some j" "get_scheme l1 j = None" "get_scheme l2 j = Some (snd x j)"
      using l2(5) x by blast
    moreover from this have "get_scheme l j = None"
      using new by (cases "j = i") auto
    ultimately show ?thesis
      by blast
  qed
  have "lookup l2 ns name = lookup l ns name" if "name \<notin> set (map fst (e # es))" for name
    using that l2(4) new by simp
  then show ?case
    using ins l2(1,3) first rest new extends_trans [OF ext l2(2)]
    by (intro exI [of _ l2]) auto
qed

lemma bytes_of_inject [simp]: "bytes_of a = bytes_of b \<longleftrightarrow> a = b"
proof -
  have "inj (of_char :: char \<Rightarrow> u8)"
  proof (rule injI)
    fix x y
    assume "of_char x = (of_char y :: u8)"
    then have "of_nat (of_char x) = (of_nat (of_char y) :: u8)"
      by (simp add: of_nat_of_char)
    then have "unat (of_nat (of_char x) :: u8) = unat (of_nat (of_char y) :: u8)"
      by simp
    then have "of_char x = (of_char y :: nat)"
      by (simp add: unat_of_nat)
    then show "x = y"
      by simp
  qed
  then show ?thesis
    by (simp add: bytes_of_def inj_map_eq_map)
qed

definition common_names :: "bytes list" where
  "common_names = map bytes_of ['''', ''event'', ''env'', ''null'', ''sys'', ''zero'']"

lemma common_schemes_names: "map fst (common_schemes ns) = common_names"
  by (simp add: common_schemes_def common_names_def)

lemma distinct_common_names: "distinct common_names"
  by (simp add: common_names_def)

lemma new_ns_spec:
  assumes wf: "schemes_wf l" and room: "sl_room 6 l" "sl_next_ns l < - 1"
  shows "\<exists>l'. new_ns l = Some (Return (sl_next_ns l, l')) \<and> schemes_wf l' \<and> get_scheme l \<subseteq>\<^sub>m get_scheme l' \<and>
    bt_get (sl_names l) (sl_next_ns l) = None \<and>
    (\<forall>ns. ns \<noteq> sl_next_ns l \<longrightarrow> lookup l' ns = lookup l ns) \<and>
    (\<forall>ns. bt_get (sl_names l') ns \<noteq> None \<longleftrightarrow> ns = sl_next_ns l \<or> bt_get (sl_names l) ns \<noteq> None) \<and>
    (\<forall>name. name \<notin> set common_names \<longrightarrow> lookup l' (sl_next_ns l) name = None) \<and>
    (\<forall>e\<in>set (common_schemes (sl_next_ns l)).
       \<exists>i. lookup l' (sl_next_ns l) (fst e) = Some i \<and> get_scheme l i = None \<and> get_scheme l' i = Some (snd e i))"
proof -
  define ns where "ns = sl_next_ns l"
  define l1 where "l1 = l\<lparr>sl_next_ns := ns + 1, sl_names := bt_insert ns bt_empty (sl_names l)\<rparr>"
  have unused: "bt_get (sl_names l) ns = None"
    using wf unfolding schemes_wf_def ns_def by (metis less_irrefl not_None_eq)
  have "ns < ns + 1"
    using room(2) word_less_succ by (simp add: ns_def)
  then have wf1: "schemes_wf l1"
    using wf by (auto simp: schemes_wf_def l1_def get_scheme_def ns_def intro: less_trans)
  have lk: "lookup l1 ns name = None" "ns' \<noteq> ns \<Longrightarrow> lookup l1 ns' = lookup l ns'" for name ns'
    by (auto simp: lookup_def l1_def)
  have gs: "get_scheme l1 = get_scheme l"
    by (auto simp: get_scheme_def l1_def)
  have "length (common_schemes ns) = 6"
    by (simp add: common_schemes_def)
  then obtain l2 where l2: "insert_all ns (common_schemes ns) l1 = Some (Return ((), l2))" "extends ns l1 l2"
      "\<forall>name. name \<notin> set common_names \<longrightarrow> lookup l2 ns name = lookup l1 ns name"
      "\<forall>e\<in>set (common_schemes ns). \<exists>i. lookup l2 ns (fst e) = Some i \<and> get_scheme l1 i = None \<and> get_scheme l2 i = Some (snd e i)"
    using insert_all_spec [OF wf1, of ns "common_schemes ns"] room(1) lk
    by (auto simp: l1_def sl_room_def common_schemes_names distinct_common_names)
  have names: "bt_get (sl_names l1) ns' \<noteq> None \<longleftrightarrow> ns' = ns \<or> bt_get (sl_names l) ns' \<noteq> None" for ns'
    by (simp add: l1_def)
  have "new_ns l = Some (Return (ns, l2))"
    using l2(1) by (simp add: new_ns_def Let_def ns_def [symmetric] l1_def [symmetric])
  then show ?thesis
    using l2(2-4) lk gs unused names unfolding ns_def [symmetric] extends_def by auto
qed

text \<open>The scheme list allocates scheme identifiers.\<close>

definition alloc_scheme ::
    "usize \<Rightarrow> bytes \<Rightarrow> (usize \<Rightarrow> scheme_object) \<Rightarrow> scheme_list \<Rightarrow> (usize \<times> scheme_list) option" where
  "alloc_scheme ns name f l =
     (case insert_scheme ns name f l of Some (Return (Ok i, l')) \<Rightarrow> Some (i, l') | _ \<Rightarrow> None)"

lemma alloc_scheme_insert:
  "alloc_scheme ns name f l = Some (i, l') \<Longrightarrow> insert_scheme ns name f l = Some (Return (Ok i, l'))"
  by (auto simp: alloc_scheme_def split: option.splits outcome.splits prod.splits result.splits)

interpretation scheme_ids: id_allocator "\<lambda>l. dom (get_scheme l)" "alloc_scheme ns name f" schemes_wf
  for ns name f
proof unfold_locales
  fix s s' i
  assume wf: "schemes_wf s" and "alloc_scheme ns name f s = Some (i, s')"
  then have ins: "insert_scheme ns name f s = Some (Return (Ok i, s'))"
    by (simp add: alloc_scheme_insert)
  show "i \<notin> dom (get_scheme s)" "dom (get_scheme s') = insert i (dom (get_scheme s))"
    using get_scheme_insert [OF ins] by auto
  show "schemes_wf s'"
    using schemes_wf_insert [OF wf ins] .
qed

lemma lookup_get_scheme: "schemes_wf l \<Longrightarrow> lookup l ns name = Some i \<Longrightarrow> \<exists>x. get_scheme l i = Some x"
  by (auto simp: schemes_wf_def lookup_def split: option.splits)

lemma get_name_lookup:
  "schemes_wf l \<Longrightarrow> bt_get (sl_names l) ns \<noteq> None \<Longrightarrow>
   get_name l ns name = Return (case lookup l ns name of None \<Rightarrow> None | Some i \<Rightarrow> map_option (\<lambda>s. (i, s)) (get_scheme l i))"
  by (auto simp: get_name_def lookup_def)

lemma copy_names_spec:
  assumes "schemes_wf l" "bt_get (sl_names l) src \<noteq> None" "bt_get (sl_names l) dst \<noteq> None" "src \<noteq> dst"
    and "distinct ns" "\<forall>n\<in>set ns. lookup l src n \<noteq> None \<and> lookup l dst n = None"
  shows "\<exists>l'. copy_names src dst ns l = Some (Return (Ok dst, l')) \<and> schemes_wf l' \<and>
    get_scheme l' = get_scheme l \<and> (\<forall>k. k \<noteq> dst \<longrightarrow> lookup l' k = lookup l k) \<and>
    (\<forall>n. lookup l' dst n = (if n \<in> set ns then lookup l src n else lookup l dst n))"
  using assms
proof (induction ns arbitrary: l)
  case Nil
  then show ?case by simp
next
  case (Cons n ns)
  obtain i x where i: "lookup l src n = Some i" "get_scheme l i = Some x"
    using Cons.prems(6) lookup_get_scheme [OF Cons.prems(1)] by (metis list.set_intros(1) not_None_eq)
  obtain names where names: "bt_get (sl_names l) dst = Some names"
    using Cons.prems(3) by blast
  define l1 where "l1 = l\<lparr>sl_names := bt_modify dst (bt_insert n i) (sl_names l)\<rparr>"
  have gs: "get_scheme l1 = get_scheme l"
    by (simp add: get_scheme_def l1_def fun_eq_iff)
  have wf: "schemes_wf l1"
  proof -
    have "bt_wf names" "\<And>m j. bt_get names m = Some j \<Longrightarrow> get_scheme l j \<noteq> None"
      using Cons.prems(1) names unfolding schemes_wf_def by blast+
    then show ?thesis
      using Cons.prems(1) i names unfolding schemes_wf_def gs by (auto simp: l1_def)
  qed
  have lk: "k \<noteq> dst \<Longrightarrow> lookup l1 k = lookup l k" "lookup l1 dst = (lookup l dst)(n \<mapsto> i)" for k
    by (auto simp: lookup_def l1_def names fun_eq_iff)
  have "\<not> bt_contains_key names n"
    using Cons.prems(6) names by (auto simp: lookup_def bt_contains_key_def)
  then have step: "copy_names src dst (n # ns) l = copy_names src dst ns l1"
    using Cons.prems i names by (simp add: get_name_lookup l1_def)
  have "\<exists>l'. copy_names src dst ns l1 = Some (Return (Ok dst, l')) \<and> schemes_wf l' \<and>
      get_scheme l' = get_scheme l1 \<and> (\<forall>k. k \<noteq> dst \<longrightarrow> lookup l' k = lookup l1 k) \<and>
      (\<forall>m. lookup l' dst m = (if m \<in> set ns then lookup l1 src m else lookup l1 dst m))"
    using Cons.prems wf lk by (intro Cons.IH) (auto simp: l1_def)
  then show ?case
    using step gs lk i Cons.prems(4,5) by auto
qed

section \<open>Properties\<close>

text \<open>
  Registering a scheme: on a well-formed list with room and an existing namespace, \<open>insert\<close> always
  returns. A free name gets an identifier that no scheme had, under which exactly the new scheme is
  found; every other name, namespace and scheme is as before, and no name dangles. A taken name gives
  \<open>EEXIST\<close> and changes nothing.
\<close>

theorem insert_scheme_fresh:
  assumes "schemes_wf l" and "bt_get (sl_names l) ns \<noteq> None" and "sl_room 0 l"
  shows "\<exists>r l'. insert_scheme ns name f l = Some (Return (r, l')) \<and> schemes_wf l' \<and>
    (case r of
       Err e \<Rightarrow> e = Error EEXIST \<and> lookup l ns name \<noteq> None \<and> l' = l
     | Ok i \<Rightarrow> lookup l ns name = None \<and> get_scheme l i = None \<and> get_scheme l' = (get_scheme l)(i \<mapsto> f i) \<and>
         get_name l' ns name = Return (Some (i, f i)) \<and>
         (\<forall>k m. lookup l' k m = (if k = ns \<and> m = name then Some i else lookup l k m)))"
proof (cases "lookup l ns name")
  case (Some i)
  then show ?thesis
    using insert_scheme_returns [OF assms, of name f] assms(1) by auto
next
  case None
  then obtain i l' where ins: "insert_scheme ns name f l = Some (Return (Ok i, l'))"
    using insert_scheme_returns [OF assms, of name f] by auto
  note facts = schemes_wf_insert [OF assms(1) ins] get_scheme_insert [OF ins] lookup_insert [OF ins]
    insert_scheme_frame [OF ins]
  have "get_name l' ns name = Return (Some (i, f i))"
    using facts assms(2) by (subst get_name_lookup) auto
  then show ?thesis
    using ins facts by auto
qed

definition one_namespace :: scheme_list where
  "one_namespace = \<lparr>sl_map = [(1, NullScheme)], sl_names = [(0, [(bytes_of ''null'', 1)])], sl_next_ns = 1, sl_next_id = 1\<rparr>"

lemma one_namespace_ok:
  "schemes_wf one_namespace" "bt_get (sl_names one_namespace) 0 \<noteq> None" "sl_room 6 one_namespace" "sl_room 0 one_namespace"
  by (auto simp: one_namespace_def schemes_wf_def bt_wf_def get_scheme_def sl_room_def split: if_splits)

theorem insert_scheme_fresh_witness:
  "\<exists>l'. insert_scheme 0 (bytes_of ''disk'') UserScheme one_namespace = Some (Return (Ok 2, l')) \<and>
     get_name l' 0 (bytes_of ''disk'') = Return (Some (2, UserScheme 2))"
proof -
  have "\<exists>l'. insert_scheme 0 (bytes_of ''disk'') UserScheme one_namespace = Some (Return (Ok 2, l'))"
    by (simp add: insert_scheme_def one_namespace_def bt_contains_key_def skip_used.simps SCHEME_MAX_SCHEMES_def)
  then show ?thesis
    using insert_scheme_fresh [OF one_namespace_ok(1,2,4), of "bytes_of ''disk''" UserScheme] by auto
qed

text \<open>
  C22. Namespaces isolate: if the requested names are distinct, exist in the source namespace and are
  not among the six that every namespace gets, then \<open>make_ns\<close> returns a namespace that did not exist
  before. A requested name means the same scheme there as in the source; each of the six standard names
  means a newly registered scheme; no other name exists. Every other namespace and every registered
  scheme is unchanged.
\<close>

theorem make_ns_isolates:
  assumes "schemes_wf l" "bt_get (sl_names l) src \<noteq> None" "sl_room 6 l" "sl_next_ns l < - 1"
    and "distinct ns" "\<forall>n\<in>set ns. lookup l src n \<noteq> None \<and> n \<notin> set common_names"
  shows "\<exists>dst l'. make_ns src ns l = Some (Return (Ok dst, l')) \<and> schemes_wf l' \<and>
    bt_get (sl_names l) dst = None \<and> get_scheme l \<subseteq>\<^sub>m get_scheme l' \<and>
    (\<forall>k. k \<noteq> dst \<longrightarrow> lookup l' k = lookup l k) \<and>
    (\<forall>n. if n \<in> set ns then lookup l' dst n = lookup l src n
         else if n \<in> set common_names then \<exists>i. lookup l' dst n = Some i \<and> get_scheme l i = None \<and> get_scheme l' i \<noteq> None
         else lookup l' dst n = None)"
proof -
  define dst where "dst = sl_next_ns l"
  obtain l1 where l1: "new_ns l = Some (Return (dst, l1))" "schemes_wf l1" "get_scheme l \<subseteq>\<^sub>m get_scheme l1"
      "bt_get (sl_names l) dst = None" "\<And>k. k \<noteq> dst \<Longrightarrow> lookup l1 k = lookup l k"
      "\<And>k. bt_get (sl_names l1) k \<noteq> None \<longleftrightarrow> k = dst \<or> bt_get (sl_names l) k \<noteq> None"
      "\<And>n. n \<notin> set common_names \<Longrightarrow> lookup l1 dst n = None"
      "\<forall>e\<in>set (common_schemes dst). \<exists>i. lookup l1 dst (fst e) = Some i \<and> get_scheme l i = None \<and> get_scheme l1 i = Some (snd e i)"
    using new_ns_spec [OF assms(1,3,4)] unfolding dst_def by blast
  have src: "src \<noteq> dst"
    using assms(2) l1(4) by auto
  then obtain l2 where l2: "copy_names src dst ns l1 = Some (Return (Ok dst, l2))" "schemes_wf l2"
      "get_scheme l2 = get_scheme l1" "\<forall>k. k \<noteq> dst \<longrightarrow> lookup l2 k = lookup l1 k"
      "\<forall>n. lookup l2 dst n = (if n \<in> set ns then lookup l1 src n else lookup l1 dst n)"
    using copy_names_spec [OF l1(2), of src dst ns] assms(2,5,6) l1(5-7) by auto
  have common: "\<exists>i. lookup l1 dst n = Some i \<and> get_scheme l i = None \<and> get_scheme l1 i \<noteq> None"
    if "n \<in> set common_names" for n
    using that l1(8) unfolding common_schemes_names [symmetric, of dst] by fastforce
  have "make_ns src ns l = Some (Return (Ok dst, l2))"
    using l1(1) l2(1) by (simp add: make_ns_def)
  then show ?thesis
    using l1(3-5,7) l2(2-5) common src by (intro exI [of _ dst] exI [of _ l2]) auto
qed

theorem make_ns_isolates_witness:
  "\<exists>dst l'. make_ns 0 [bytes_of ''disk''] (one_namespace\<lparr>sl_names := [(0, [(bytes_of ''disk'', 1)])]\<rparr>) = Some (Return (Ok dst, l')) \<and>
     lookup l' dst (bytes_of ''disk'') = Some 1 \<and> lookup l' dst (bytes_of ''initfs'') = None"
proof -
  let ?l = "one_namespace\<lparr>sl_names := [(0, [(bytes_of ''disk'', 1)])]\<rparr>"
  have lk: "lookup ?l 0 (bytes_of ''disk'') = Some 1"
    by (simp add: lookup_def)
  have wf: "schemes_wf ?l" "bt_get (sl_names ?l) 0 \<noteq> None" "sl_room 6 ?l" "sl_next_ns ?l < - 1"
    by (auto simp: one_namespace_def schemes_wf_def bt_wf_def get_scheme_def sl_room_def word_less_nat_alt
        unat_usize_max split: if_splits)
  obtain dst l' where r: "make_ns 0 [bytes_of ''disk''] ?l = Some (Return (Ok dst, l'))"
      "\<forall>n. if n \<in> set [bytes_of ''disk''] then lookup l' dst n = lookup ?l 0 n
         else if n \<in> set common_names then \<exists>i. lookup l' dst n = Some i \<and> get_scheme ?l i = None \<and> get_scheme l' i \<noteq> None
         else lookup l' dst n = None"
    using make_ns_isolates [OF wf, of "[bytes_of ''disk'']"] lk by (auto simp: common_names_def)
  show ?thesis
    using r(1) r(2) [rule_format, of "bytes_of ''disk''"] r(2) [rule_format, of "bytes_of ''initfs''"] lk
    by (auto simp: common_names_def)
qed

text \<open>
  Naming one of the six standard schemes in \<open>make_ns\<close> panics the kernel: the assertion that the
  name is new in the namespace fails, because \<open>new_ns\<close> has already registered it there.
\<close>

theorem make_ns_standard_name_panics:
  assumes "schemes_wf l" "bt_get (sl_names l) src \<noteq> None" "sl_room 6 l" "sl_next_ns l < - 1"
    and "n \<in> set common_names" "lookup l src n \<noteq> None"
  shows "make_ns src (n # ns) l = Some Panic"
proof -
  define dst where "dst = sl_next_ns l"
  obtain l1 where l1: "new_ns l = Some (Return (dst, l1))" "schemes_wf l1"
      "bt_get (sl_names l) dst = None" "\<And>k. k \<noteq> dst \<Longrightarrow> lookup l1 k = lookup l k"
      "\<And>k. bt_get (sl_names l1) k \<noteq> None \<longleftrightarrow> k = dst \<or> bt_get (sl_names l) k \<noteq> None"
      "\<forall>e\<in>set (common_schemes dst). \<exists>i. lookup l1 dst (fst e) = Some i"
    using new_ns_spec [OF assms(1,3,4)] unfolding dst_def by blast
  have "src \<noteq> dst"
    using assms(2) l1(3) by auto
  then obtain i x where i: "lookup l1 src n = Some i" "get_scheme l1 i = Some x"
    using assms(6) l1(4) lookup_get_scheme [OF l1(2)] by (metis not_None_eq)
  have "\<exists>j. lookup l1 dst n = Some j"
    using assms(5) l1(6) unfolding common_schemes_names [symmetric, of dst] by fastforce
  then obtain names where "bt_get (sl_names l1) dst = Some names" "bt_contains_key names n"
    by (auto simp: lookup_def bt_contains_key_def split: option.splits)
  then show ?thesis
    using l1 i assms(2) by (simp add: make_ns_def get_name_lookup)
qed

theorem make_ns_standard_name_panics_witness:
  "make_ns 0 [bytes_of ''null''] one_namespace = Some Panic"
  by (rule make_ns_standard_name_panics [OF one_namespace_ok(1-3)])
     (simp_all add: common_names_def lookup_def one_namespace_def word_less_nat_alt unat_usize_max)

end
