(* ===== verification/Privilege.thy ===== *)
theory Privilege
  imports Contexts Scheme_List
begin

text \<open>
  User, group and namespace identities (\<open>kernel/syscall/privilege.rs\<close>), and the check for the super-user
  in front of the driver calls (\<open>enforce_root\<close> of \<open>kernel/syscall/driver.rs\<close>).
\<close>

section \<open>Operations\<close>

text \<open>\<open>contexts.current().ok_or(Error::new(ESRCH))?.read()\<close>\<close>

definition with_current :: "usize \<Rightarrow> context_list \<Rightarrow> (ctx \<Rightarrow> 'a result) \<Rightarrow> 'a result" where
  "with_current cur l f = bind_result (ok_or (get_context l cur) ESRCH) f"

definition getegid :: "usize \<Rightarrow> context_list \<Rightarrow> usize result" where
  "getegid cur l = with_current cur l (\<lambda>c. Ok (ucast (egid c)))"

definition getens :: "usize \<Rightarrow> context_list \<Rightarrow> usize result" where
  "getens cur l = with_current cur l (\<lambda>c. Ok (ens c))"

definition geteuid :: "usize \<Rightarrow> context_list \<Rightarrow> usize result" where
  "geteuid cur l = with_current cur l (\<lambda>c. Ok (ucast (euid c)))"

definition getgid :: "usize \<Rightarrow> context_list \<Rightarrow> usize result" where
  "getgid cur l = with_current cur l (\<lambda>c. Ok (ucast (rgid c)))"

definition getns :: "usize \<Rightarrow> context_list \<Rightarrow> usize result" where
  "getns cur l = with_current cur l (\<lambda>c. Ok (rns c))"

definition getuid :: "usize \<Rightarrow> context_list \<Rightarrow> usize result" where
  "getuid cur l = with_current cur l (\<lambda>c. Ok (ucast (ruid c)))"

definition enforce_root :: "usize \<Rightarrow> context_list \<Rightarrow> unit result" where
  "enforce_root cur l = with_current cur l (\<lambda>c. if euid c = 0 then Ok () else Err (Error EPERM))"

text \<open>
  \<open>mkns\<close>; \<open>name_at\<close> is \<open>validate_slice\<close> applied to an address and a length, with the bytes found there.
\<close>

fun collect_names :: "(usize \<times> usize \<Rightarrow> bytes result) \<Rightarrow> (usize \<times> usize) list \<Rightarrow> bytes list result" where
  "collect_names name_at [] = Ok []"
| "collect_names name_at (p # ps) =
     bind_result (name_at p) (\<lambda>n. bind_result (collect_names name_at ps) (\<lambda>ns. Ok (n # ns)))"

definition mkns :: "(usize \<times> usize \<Rightarrow> bytes result) \<Rightarrow> (usize \<times> usize) list \<Rightarrow> usize \<Rightarrow> context_list \<Rightarrow>
    scheme_list \<Rightarrow> usize result run" where
  "mkns name_at name_ptrs cur l schemes =
     (case collect_names name_at name_ptrs of
        Err e \<Rightarrow> Some (Return (Err e, schemes))
      | Ok names \<Rightarrow>
          (case get_context l cur of
             None \<Rightarrow> Some (Return (Err (Error ESRCH), schemes))
           | Some c \<Rightarrow>
               if euid c = 0 then make_ns (ens c) names schemes
               else Some (Return (Err (Error EACCES), schemes))))"

text \<open>The condition the three setters share: \<open>v\<close> may be taken by a context with identities \<open>e\<close> and \<open>r\<close>.\<close>

definition may_take :: "bool \<Rightarrow> 'a::len word \<Rightarrow> 'a word \<Rightarrow> 'a word \<Rightarrow> bool" where
  "may_take root v e r \<longleftrightarrow> root \<or> v = - 1 \<or> v = e \<or> v = r"

definition setregid :: "u32 \<Rightarrow> u32 \<Rightarrow> usize \<Rightarrow> context_list \<Rightarrow> usize result \<times> context_list" where
  "setregid r e cur l =
     (case get_context l cur of
        None \<Rightarrow> (Err (Error ESRCH), l)
      | Some c \<Rightarrow>
          if may_take (euid c = 0) r (egid c) (rgid c) \<and> may_take (euid c = 0) e (egid c) (rgid c)
          then (Ok 0, set_context l cur (\<lambda>c. c\<lparr>rgid := if r \<noteq> - 1 then r else rgid c, egid := if e \<noteq> - 1 then e else egid c\<rparr>))
          else (Err (Error EPERM), l))"

definition setrens :: "usize \<Rightarrow> usize \<Rightarrow> usize \<Rightarrow> context_list \<Rightarrow> usize result \<times> context_list" where
  "setrens r e cur l =
     (case get_context l cur of
        None \<Rightarrow> (Err (Error ESRCH), l)
      | Some c \<Rightarrow>
          if may_take (euid c = 0) r (ens c) (rns c) \<and> may_take (euid c = 0) e (ens c) (rns c)
          then (Ok 0, set_context l cur (\<lambda>c. c\<lparr>rns := if r \<noteq> - 1 then r else rns c, ens := if e \<noteq> - 1 then e else ens c\<rparr>))
          else (Err (Error EPERM), l))"

definition setreuid :: "u32 \<Rightarrow> u32 \<Rightarrow> usize \<Rightarrow> context_list \<Rightarrow> usize result \<times> context_list" where
  "setreuid r e cur l =
     (case get_context l cur of
        None \<Rightarrow> (Err (Error ESRCH), l)
      | Some c \<Rightarrow>
          if may_take (euid c = 0) r (euid c) (ruid c) \<and> may_take (euid c = 0) e (euid c) (ruid c)
          then (Ok 0, set_context l cur (\<lambda>c. c\<lparr>ruid := if r \<noteq> - 1 then r else ruid c, euid := if e \<noteq> - 1 then e else euid c\<rparr>))
          else (Err (Error EPERM), l))"

section \<open>Sequences of identity calls\<close>

datatype identity_call = Setreuid u32 u32 | Setregid u32 u32 | Setrens usize usize

fun run_identity :: "usize \<Rightarrow> identity_call \<Rightarrow> context_list \<Rightarrow> context_list" where
  "run_identity cur (Setreuid r e) l = snd (setreuid r e cur l)"
| "run_identity cur (Setregid r e) l = snd (setregid r e cur l)"
| "run_identity cur (Setrens r e) l = snd (setrens r e cur l)"

text \<open>
  The identities of \<open>d\<close> are among those of \<open>c\<close>, and everything else of the context is as it was.
\<close>

definition no_new_identity :: "ctx \<Rightarrow> ctx \<Rightarrow> bool" where
  "no_new_identity c d \<longleftrightarrow>
     (\<exists>ru\<in>{ruid c, euid c}. \<exists>eu\<in>{ruid c, euid c}. \<exists>rg\<in>{rgid c, egid c}. \<exists>eg\<in>{rgid c, egid c}.
      \<exists>rn\<in>{rns c, ens c}. \<exists>en\<in>{rns c, ens c}.
        d = c\<lparr>ruid := ru, euid := eu, rgid := rg, egid := eg, rns := rn, ens := en\<rparr>)"

lemma no_new_identityI:
  assumes "ru \<in> {ruid c, euid c}" "eu \<in> {ruid c, euid c}" "rg \<in> {rgid c, egid c}" "eg \<in> {rgid c, egid c}"
    "rn \<in> {rns c, ens c}" "en \<in> {rns c, ens c}" "d = c\<lparr>ruid := ru, euid := eu, rgid := rg, egid := eg, rns := rn, ens := en\<rparr>"
  shows "no_new_identity c d"
  using assms unfolding no_new_identity_def by blast

lemma no_new_identity_refl: "no_new_identity c c"
  by (rule no_new_identityI [of "ruid c" c "euid c" "rgid c" "egid c" "rns c" "ens c"]) simp_all

lemma no_new_identity_euid: "no_new_identity c d \<Longrightarrow> ruid d \<in> {ruid c, euid c} \<and> euid d \<in> {ruid c, euid c}"
  unfolding no_new_identity_def by (elim bexE) simp

lemma no_new_identity_trans:
  assumes "no_new_identity a b" "no_new_identity b c"
  shows "no_new_identity a c"
proof -
  obtain ru eu rg eg rn en where b: "ru \<in> {ruid a, euid a}" "eu \<in> {ruid a, euid a}" "rg \<in> {rgid a, egid a}" "eg \<in> {rgid a, egid a}"
    "rn \<in> {rns a, ens a}" "en \<in> {rns a, ens a}" "b = a\<lparr>ruid := ru, euid := eu, rgid := rg, egid := eg, rns := rn, ens := en\<rparr>"
    using assms(1) unfolding no_new_identity_def by blast
  obtain ru' eu' rg' eg' rn' en' where c: "ru' \<in> {ruid b, euid b}" "eu' \<in> {ruid b, euid b}"
    "rg' \<in> {rgid b, egid b}" "eg' \<in> {rgid b, egid b}" "rn' \<in> {rns b, ens b}" "en' \<in> {rns b, ens b}" "c = b\<lparr>ruid := ru', euid := eu', rgid := rg', egid := eg', rns := rn', ens := en'\<rparr>"
    using assms(2) unfolding no_new_identity_def by blast
  have f: "{ruid b, euid b} \<subseteq> {ruid a, euid a}" "{rgid b, egid b} \<subseteq> {rgid a, egid a}" "{rns b, ens b} \<subseteq> {rns a, ens a}"
    using b by simp_all
  show ?thesis
    by (rule no_new_identityI [OF subsetD [OF f(1) c(1)] subsetD [OF f(1) c(2)] subsetD [OF f(2) c(3)]
          subsetD [OF f(2) c(4)] subsetD [OF f(3) c(5)] subsetD [OF f(3) c(6)]])
       (simp add: c(7) b(7))
qed

lemma run_identity_step:
  assumes "get_context l cur = Some c" "0 \<notin> {ruid c, euid c}"
  shows "\<exists>d. get_context (run_identity cur call l) cur = Some d \<and> no_new_identity c d \<and>
    (\<forall>i. i \<noteq> cur \<longrightarrow> get_context (run_identity cur call l) i = get_context l i)"
proof (cases call)
  case (Setreuid r e)
  have "no_new_identity c (c\<lparr>ruid := if r \<noteq> - 1 then r else ruid c, euid := if e \<noteq> - 1 then e else euid c\<rparr>)"
    if "may_take False r (euid c) (ruid c)" "may_take False e (euid c) (ruid c)"
    by (rule no_new_identityI [of "if r \<noteq> - 1 then r else ruid c" c "if e \<noteq> - 1 then e else euid c" "rgid c" "egid c" "rns c" "ens c"])
       (use that in \<open>auto simp: may_take_def\<close>)
  then show ?thesis
    using assms Setreuid no_new_identity_refl [of c] by (simp add: setreuid_def)
next
  case (Setregid r e)
  have "no_new_identity c (c\<lparr>rgid := if r \<noteq> - 1 then r else rgid c, egid := if e \<noteq> - 1 then e else egid c\<rparr>)"
    if "may_take False r (egid c) (rgid c)" "may_take False e (egid c) (rgid c)"
    by (rule no_new_identityI [of "ruid c" c "euid c" "if r \<noteq> - 1 then r else rgid c" "if e \<noteq> - 1 then e else egid c" "rns c" "ens c"])
       (use that in \<open>auto simp: may_take_def\<close>)
  then show ?thesis
    using assms Setregid no_new_identity_refl [of c] by (simp add: setregid_def)
next
  case (Setrens r e)
  have "no_new_identity c (c\<lparr>rns := if r \<noteq> - 1 then r else rns c, ens := if e \<noteq> - 1 then e else ens c\<rparr>)"
    if "may_take False r (ens c) (rns c)" "may_take False e (ens c) (rns c)"
    by (rule no_new_identityI [of "ruid c" c "euid c" "rgid c" "egid c" "if r \<noteq> - 1 then r else rns c" "if e \<noteq> - 1 then e else ens c"])
       (use that in \<open>auto simp: may_take_def\<close>)
  then show ?thesis
    using assms Setrens no_new_identity_refl [of c] by (simp add: setrens_def)
qed

lemma run_identities:
  assumes "get_context l cur = Some c" "0 \<notin> {ruid c, euid c}"
  shows "\<exists>d. get_context (fold (run_identity cur) calls l) cur = Some d \<and> no_new_identity c d \<and>
    (\<forall>i. i \<noteq> cur \<longrightarrow> get_context (fold (run_identity cur) calls l) i = get_context l i)"
  using assms
proof (induction calls arbitrary: l c)
  case Nil
  then show ?case by (simp add: no_new_identity_refl)
next
  case (Cons call calls)
  obtain d where d: "get_context (run_identity cur call l) cur = Some d" "no_new_identity c d"
      "\<forall>i. i \<noteq> cur \<longrightarrow> get_context (run_identity cur call l) i = get_context l i"
    using run_identity_step [OF Cons.prems] by blast
  then have "0 \<notin> {ruid d, euid d}"
    using Cons.prems(2) no_new_identity_euid [OF d(2)] by auto
  then obtain e where "get_context (fold (run_identity cur) (call # calls) l) cur = Some e" "no_new_identity d e"
      "\<forall>i. i \<noteq> cur \<longrightarrow> get_context (fold (run_identity cur) (call # calls) l) i = get_context (run_identity cur call l) i"
    using Cons.IH [OF d(1)] by auto
  then show ?case
    using d no_new_identity_trans by metis
qed

section \<open>Properties\<close>

text \<open>
  C12. Privileges cannot be regained: whatever sequence of \<open>setreuid\<close>, \<open>setregid\<close> and \<open>setrens\<close> calls a
  context makes that has the user 0 neither as real nor as effective user, its user, group and namespace
  identities stay among those it had, nothing else of it changes, and no other context changes; so it
  is still refused by \<open>enforce_root\<close>, and by \<open>mkns\<close>.
\<close>

theorem no_privilege_escalation:
  assumes "get_context l cur = Some c" "ruid c \<noteq> 0" "euid c \<noteq> 0"
  shows "\<exists>d. get_context (fold (run_identity cur) calls l) cur = Some d \<and> no_new_identity c d \<and>
    (\<forall>i. i \<noteq> cur \<longrightarrow> get_context (fold (run_identity cur) calls l) i = get_context l i) \<and>
    enforce_root cur (fold (run_identity cur) calls l) = Err (Error EPERM) \<and>
    (\<forall>name_at ptrs names s. collect_names name_at ptrs = Ok names \<longrightarrow>
       mkns name_at ptrs cur (fold (run_identity cur) calls l) s = Some (Return (Err (Error EACCES), s)))"
proof -
  obtain d where d: "get_context (fold (run_identity cur) calls l) cur = Some d" "no_new_identity c d"
      "\<forall>i. i \<noteq> cur \<longrightarrow> get_context (fold (run_identity cur) calls l) i = get_context l i"
    using run_identities [of l cur c calls] assms by auto
  then have "euid d \<noteq> 0"
    using assms no_new_identity_euid [OF d(2)] by auto
  then show ?thesis
    using d by (auto simp: enforce_root_def with_current_def mkns_def)
qed

theorem no_privilege_escalation_witness:
  "enforce_root 1 (fold (run_identity 1) [Setreuid 1000 0, Setreuid 1000 1000]
     \<lparr>ctx_map = [(1, (new_ctx 0 1)\<lparr>ruid := 1000, euid := 1001\<rparr>)], ctx_next_id = 2\<rparr>) = Err (Error EPERM)"
proof -
  let ?c = "(new_ctx 0 1)\<lparr>ruid := 1000, euid := 1001\<rparr>"
  have "get_context \<lparr>ctx_map = [(1, ?c)], ctx_next_id = 2\<rparr> 1 = Some ?c" "ruid ?c \<noteq> 0" "euid ?c \<noteq> 0"
    by (simp_all add: get_context_def)
  then show ?thesis
    using no_privilege_escalation [of _ 1 ?c] by blast
qed

end
