(* ===== verification/Driver.thy ===== *)
theory Driver
  imports Memory_Regions Privilege
begin

text \<open>
  The driver calls (\<open>kernel/syscall/driver.rs\<close>) and \<open>funmap\<close> of \<open>kernel/syscall/fs.rs\<close>: physical memory for
  programs of the super-user, and where new grants are placed in a context's address space.
\<close>

section \<open>Operations\<close>

definition PML4_SIZE :: usize where "PML4_SIZE = 0x0000008000000000"
definition USER_OFFSET :: usize where "USER_OFFSET = 0"
definition USER_HEAP_OFFSET :: usize where "USER_HEAP_OFFSET = USER_OFFSET + PML4_SIZE"
definition USER_GRANT_OFFSET :: usize where "USER_GRANT_OFFSET = USER_HEAP_OFFSET + PML4_SIZE"
definition USER_STACK_OFFSET :: usize where "USER_STACK_OFFSET = USER_GRANT_OFFSET + PML4_SIZE"
definition USER_TLS_OFFSET :: usize where "USER_TLS_OFFSET = USER_STACK_OFFSET + PML4_SIZE"
definition USER_TMP_OFFSET :: usize where "USER_TMP_OFFSET = USER_TLS_OFFSET + PML4_SIZE"
definition USER_TMP_HEAP_OFFSET :: usize where "USER_TMP_HEAP_OFFSET = USER_TMP_OFFSET + PML4_SIZE"
definition USER_TMP_GRANT_OFFSET :: usize where "USER_TMP_GRANT_OFFSET = USER_TMP_HEAP_OFFSET + PML4_SIZE"

lemmas layout_defs = PML4_SIZE_def USER_OFFSET_def USER_HEAP_OFFSET_def USER_GRANT_OFFSET_def USER_STACK_OFFSET_def
  USER_TLS_OFFSET_def USER_TMP_OFFSET_def USER_TMP_HEAP_OFFSET_def USER_TMP_GRANT_OFFSET_def

text \<open>The grant lists are shared objects, as in the context structure.\<close>

record address_world =
  aw_contexts :: context_list
  aw_current :: usize
  aw_grants :: "ref \<Rightarrow> grant list"
  aw_pages :: page_mem

type_synonym 'r call = "address_world \<Rightarrow> ('r result \<times> address_world) outcome option"

definition fails :: "error \<Rightarrow> 'r call" where
  "fails e w = Some (Return (Err e, w))"

definition as_root :: "'r call \<Rightarrow> 'r call" where
  "as_root k w = (case enforce_root (aw_current w) (aw_contexts w) of Err e \<Rightarrow> fails e w | Ok _ \<Rightarrow> k w)"

definition iopl :: "usize \<Rightarrow> usize \<Rightarrow> usize call" where
  "iopl level stack_base = as_root (\<lambda>w. Some (Return (Ok 0, w)))"

definition physalloc :: "usize \<Rightarrow> usize call" where
  "physalloc sz = as_root (\<lambda>w.
     then_do (allocate_frames ((sz + 4095) div 4096) (pg_memory (aw_pages w)))
       (\<lambda>(r, mem). Some (Return
          (bind_result (ok_or r ENOMEM) (\<lambda>f. Ok (start_address f)), w\<lparr>aw_pages := (aw_pages w)\<lparr>pg_memory := mem\<rparr>\<rparr>))))"

definition physfree :: "usize \<Rightarrow> usize \<Rightarrow> usize call" where
  "physfree physical_address sz = as_root (\<lambda>w.
     Some (bind_outcome (deallocate_frames (containing_address physical_address) ((sz + 4095) div 4096) (pg_memory (aw_pages w)))
       (\<lambda>mem. Return (Ok 0, w\<lparr>aw_pages := (aw_pages w)\<lparr>pg_memory := mem\<rparr>\<rparr>))))"

text \<open>
  The loop over the grants that looks for room: the index for the new grant and its address.
\<close>

fun place_grant :: "grant list \<Rightarrow> usize \<Rightarrow> usize \<Rightarrow> nat \<times> usize" where
  "place_grant [] full_size to_address = (0, to_address)"
| "place_grant (g # gs) full_size to_address =
     (if to_address + full_size < g_start g then (0, to_address)
      else let pages = (g_size g + 4095) div 4096;
               (i, t) = place_grant gs full_size (g_start g + pages * 4096)
           in (Suc i, t))"

definition insert_at :: "nat \<Rightarrow> 'a \<Rightarrow> 'a list \<Rightarrow> 'a list" where
  "insert_at i x xs = take i xs @ x # drop i xs"

definition physmap_flags :: "usize \<Rightarrow> u64" where
  "physmap_flags flags =
     (let fl = PRESENT OR NO_EXECUTE OR USER_ACCESSIBLE;
          fl = (if has_flag flags MAP_WRITE then fl OR WRITABLE else fl)
      in if has_flag flags MAP_WRITE_COMBINE then fl OR HUGE_PAGE else fl)"

definition physmap :: "usize \<Rightarrow> usize \<Rightarrow> usize \<Rightarrow> usize call" where
  "physmap physical_address sz flags = as_root (\<lambda>w.
     if sz = 0 then Some (Return (Ok 0, w))
     else case get_context (aw_contexts w) (aw_current w) of
       None \<Rightarrow> fails (Error ESRCH) w
     | Some c \<Rightarrow>
         let grants = aw_grants w (grants_ref c);
             from_address = (physical_address div 4096) * 4096;
             offset = physical_address - from_address;
             full_size = ((offset + sz + 4095) div 4096) * 4096;
             (i, to_address) = place_grant grants full_size USER_GRANT_OFFSET
         in then_do (grant_physmap from_address to_address full_size (physmap_flags flags) (aw_pages w))
              (\<lambda>(g, pm). Some (Return (Ok (to_address + offset),
                 w\<lparr>aw_grants := (aw_grants w)(grants_ref c := insert_at i g grants), aw_pages := pm\<rparr>))))"

text \<open>The first grant that contains an address.\<close>

definition covers :: "usize \<Rightarrow> grant \<Rightarrow> bool" where
  "covers virtual_address g \<longleftrightarrow>
     (let end = g_start g + g_size g in virtual_address \<ge> g_start g \<and> virtual_address < end)"

definition funmap :: "usize \<Rightarrow> usize call" where
  "funmap virtual_address w =
     (if virtual_address = 0 then Some (Return (Ok 0, w))
      else case get_context (aw_contexts w) (aw_current w) of
        None \<Rightarrow> fails (Error ESRCH) w
      | Some c \<Rightarrow>
          let grants = aw_grants w (grants_ref c)
          in case position (covers virtual_address) grants of
               None \<Rightarrow> fails (Error EFAULT) w
             | Some i \<Rightarrow>
                 then_do (grant_unmap (grants ! i) (aw_pages w))
                   (\<lambda>pm. Some (Return (Ok 0,
                      w\<lparr>aw_grants := (aw_grants w)(grants_ref c := take i grants @ drop (Suc i) grants), aw_pages := pm\<rparr>))))"

definition physunmap :: "usize \<Rightarrow> usize call" where
  "physunmap virtual_address = as_root (funmap virtual_address)"

definition virttophys :: "usize \<Rightarrow> usize call" where
  "virttophys virtual_address = as_root (\<lambda>w.
     Some (bind_outcome (translate (aw_pages w) virtual_address) (\<lambda>r. Return (ok_or r EFAULT, w))))"

section \<open>Placing grants\<close>

text \<open>The grants of a context are whole pages, in ascending order and apart, from \<open>lo\<close> to the end of the lower half.\<close>

fun grants_wf :: "nat \<Rightarrow> grant list \<Rightarrow> bool" where
  "grants_wf lo [] \<longleftrightarrow> lo \<le> 2 ^ 47"
| "grants_wf lo (g # gs) \<longleftrightarrow>
     lo \<le> unat (g_start g) \<and> unat (g_start g) mod 4096 = 0 \<and> unat (g_size g) mod 4096 = 0 \<and> unat (g_start g) + unat (g_size g) \<le> 2 ^ 47 \<and>
     grants_wf (unat (g_start g) + unat (g_size g)) gs"

lemma grants_wf_lo: "grants_wf lo gs \<Longrightarrow> lo \<le> 2 ^ 47"
  by (cases gs) auto

lemma grants_wf_mono: "grants_wf lo gs \<Longrightarrow> lo' \<le> lo \<Longrightarrow> grants_wf lo' gs"
  by (cases gs) auto

text \<open>Rounding a whole number of pages up to pages does not change it.\<close>

lemma round_pages:
  assumes "unat sz mod 4096 = 0" "unat sz \<le> 2 ^ 47"
  shows "(sz + 4095) div 4096 * 4096 = (sz :: usize)"
proof -
  obtain k where k: "unat sz = 4096 * k"
    using assms(1) by auto
  have "unat ((sz + 4095) div 4096) = k"
    using k assms(2) by (simp add: unat_div unat_add_usize)
  then have "unat ((sz + 4095) div 4096 * 4096) = unat sz"
    using k assms(2) by (simp add: unat_word_ariths)
  then show ?thesis
    by simp
qed

lemma place_grant_address:
  assumes "grants_wf (unat to) gs" "unat to mod 4096 = 0" "place_grant gs full to = (i, t)"
  shows "unat to \<le> unat t \<and> unat t \<le> 2 ^ 47 \<and> unat t mod 4096 = 0"
  using assms
proof (induction gs arbitrary: to i)
  case (Cons h gs)
  show ?case
  proof (cases "to + full < g_start h")
    case False
    let ?next = "g_start h + (g_size h + 4095) div 4096 * 4096"
    obtain j where j: "place_grant gs full ?next = (j, t)"
      using False Cons.prems(3) by (auto simp: Let_def split: prod.splits)
    have h: "unat (g_size h) mod 4096 = 0" "unat (g_start h) mod 4096 = 0" "unat (g_start h) + unat (g_size h) \<le> 2 ^ 47"
      using Cons.prems(1) by simp_all
    have "?next = g_start h + g_size h"
      using round_pages[OF h(1)] h(3) by simp
    then have nx: "unat ?next = unat (g_start h) + unat (g_size h)"
      using h(3) by (simp add: unat_add_usize)
    then have "unat ?next mod 4096 = 0"
      using h(1,2) by (simp add: mod_add_eq [symmetric])
    then show ?thesis
      using Cons.IH[of ?next j] j Cons.prems(1) nx by simp
  qed (use Cons.prems grants_wf_lo[of "unat to" "h # gs"] in auto)
qed (use grants_wf_lo in auto)

lemma place_grant_wf:
  assumes "grants_wf (unat to) gs" "unat full \<le> 2 ^ 47" "place_grant gs full to = (i, t)" "unat t mod 4096 = 0"
    and "g_start g = t" "g_size g = full" "unat full mod 4096 = 0" "unat t + unat full \<le> 2 ^ 47"
  shows "grants_wf (unat to) (insert_at i g gs) \<and> unat to \<le> unat t"
  using assms(1,3)
proof (induction gs arbitrary: to i)
  case Nil
  then show ?case
    using assms(4-8) by (simp add: insert_at_def)
next
  case (Cons h gs)
  let ?next = "g_start h + (g_size h + 4095) div 4096 * 4096"
  have h: "unat to \<le> unat (g_start h)" "unat (g_size h) mod 4096 = 0"
    "unat (g_start h) + unat (g_size h) \<le> 2 ^ 47" "grants_wf (unat (g_start h) + unat (g_size h)) gs"
    using Cons.prems(1) by simp_all
  show ?case
  proof (cases "to + full < g_start h")
    case True
    have "unat (to + full) = unat to + unat full"
      using h(1,3) assms(2) by (intro unat_add_usize) simp
    then show ?thesis
      using True Cons.prems assms(4-8) h by (simp add: insert_at_def word_less_nat_alt)
  next
    case False
    obtain j where j: "place_grant gs full ?next = (j, t)" "i = Suc j"
      using False Cons.prems(2) by (auto simp: Let_def split: prod.splits)
    have "?next = g_start h + g_size h"
      using round_pages[OF h(2)] h(3) by simp
    then have nx: "unat ?next = unat (g_start h) + unat (g_size h)"
      using h(3) by (simp add: unat_add_usize)
    then have "grants_wf (unat ?next) (insert_at j g gs)" "unat ?next \<le> unat t"
      using Cons.IH[of ?next j] j(1) h(4) by simp_all
    then show ?thesis
      using h nx j(2) Cons.prems(1) by (simp add: insert_at_def)
  qed
qed

text \<open>In an ordered list the search for the grant that covers an address finds the only one.\<close>

lemma grants_wf_start: "grants_wf lo gs \<Longrightarrow> g \<in> set gs \<Longrightarrow> lo \<le> unat (g_start g)"
proof (induction gs arbitrary: lo)
  case (Cons h gs)
  have "lo \<le> unat (g_start h)" "g \<noteq> h \<Longrightarrow> unat (g_start h) + unat (g_size h) \<le> unat (g_start g)"
    using Cons.prems Cons.IH[of "unat (g_start h) + unat (g_size h)"] by simp_all
  then show ?case
    by (cases "g = h") simp_all
qed simp

lemma find_grant:
  assumes "grants_wf lo gs" "g \<in> set gs" "covers a g"
  obtains i where "position (covers a) gs = Some i" "gs ! i = g" "take i gs @ drop (Suc i) gs = remove1 g gs"
proof -
  have "\<exists>i. position (covers a) gs = Some i \<and> gs ! i = g \<and> take i gs @ drop (Suc i) gs = remove1 g gs"
    using assms(1,2)
  proof (induction gs arbitrary: lo)
    case (Cons h gs)
    show ?case
    proof (cases "h = g")
      case True
      then show ?thesis
        using assms(3) by (auto simp: Cons)
    next
      case False
      have "unat (g_start h) + unat (g_size h) \<le> unat (g_start g)"
        using grants_wf_start[of _ gs g] Cons.prems False by auto
      moreover have "unat (g_start h + g_size h) = unat (g_start h) + unat (g_size h)"
        using Cons.prems(1) by (intro unat_add_usize) simp
      ultimately have "\<not> covers a h"
        using assms(3) by (auto simp: covers_def Let_def word_le_nat_alt word_less_nat_alt)
      moreover obtain i where "position (covers a) gs = Some i" "gs ! i = g" "take i gs @ drop (Suc i) gs = remove1 g gs"
        using Cons.IH[of "unat (g_start h) + unat (g_size h)"] Cons.prems False by auto
      ultimately show ?thesis
        using False by (intro exI[of _ "Suc i"]) simp
    qed
  qed simp
  then show thesis
    using that by blast
qed

lemma remove_inserted: "g \<notin> set gs \<Longrightarrow> remove1 g (insert_at i g gs) = gs"
  by (auto simp: insert_at_def remove1_append dest: in_set_takeD)

section \<open>Mapping a region\<close>

lemma map_loop:
  assumes "tables_wf pm" "unat (page_number e) < 2 ^ 35" "flags AND ALL_FLAGS = flags"
    and "\<And>p. s \<le> p \<Longrightarrow> p \<le> e \<Longrightarrow> frame_number (fr p) < 2 ^ 40"
    and "for_pages (\<lambda>p. map_to p (fr p) flags) (page_range s e) pm = Some (Return pm')"
  shows "tables_wf pm' \<and>
    (\<forall>p. s \<le> p \<and> p \<le> e \<longrightarrow> page_map pm (page_index p) = None \<and> page_map pm' (page_index p) = Some (fr p)) \<and>
    (\<forall>x. (\<forall>p. s \<le> p \<and> p \<le> e \<longrightarrow> x \<noteq> page_index p) \<longrightarrow> page_map pm' x = page_map pm x)"
  using assms(1,4,5)
proof (induction "unat (page_number e) + 1 - unat (page_number s)" arbitrary: s pm rule: less_induct)
  case less
  show ?case
  proof (cases "s \<le> e")
    case False
    then have "pm' = pm"
      using less.prems(3) by (simp add: for_pages_step[of _ s e])
    then show ?thesis
      using False less.prems(1) by auto
  next
    case True
    let ?t = "Page (page_number s + 1)"
    have t: "unat (page_number ?t) = unat (page_number s) + 1"
      using True assms(2) unat_add_usize[of "page_number s" 1] by (simp add: page_order)
    have split: "s \<le> p \<longleftrightarrow> p = s \<or> ?t \<le> p" for p
      unfolding page_order t by linarith
    obtain pm1 where pm1: "map_to s (fr s) flags pm = Some (Return pm1)"
      "for_pages (\<lambda>p. map_to p (fr p) flags) (page_range ?t e) pm1 = Some (Return pm')"
      using less.prems(3) True by (cases "map_to s (fr s) flags pm")
        (auto simp: for_pages_step[of _ s e] then_do_def split: outcome.splits)
    have "p4_index s \<noteq> 511"
      using True assms(2) low_page[of s] by (simp add: page_order)
    note 1 = map_to_page_map[OF less.prems(1) this less.prems(2)[OF order_refl True] assms(3) pm1(1)]
    have "unat (page_number e) + 1 - unat (page_number ?t) < unat (page_number e) + 1 - unat (page_number s)"
      using True t by (simp add: page_order)
    moreover have "frame_number (fr p) < 2 ^ 40" if "?t \<le> p" "p \<le> e" for p
      using that less.prems(2)[of p] split by blast
    ultimately have IH: "tables_wf pm' \<and>
        (\<forall>p. ?t \<le> p \<and> p \<le> e \<longrightarrow> page_map pm1 (page_index p) = None \<and> page_map pm' (page_index p) = Some (fr p)) \<and>
        (\<forall>x. (\<forall>p. ?t \<le> p \<and> p \<le> e \<longrightarrow> x \<noteq> page_index p) \<longrightarrow> page_map pm' x = page_map pm1 x)"
      using less.hyps[of ?t pm1] 1(1) pm1(2) by blast
    have other: "page_index p \<noteq> page_index s" if "?t \<le> p" "p \<le> e" for p
      using IH that 1(3) by (metis fun_upd_same option.distinct(1))
    show ?thesis
    proof (intro conjI allI impI)
      fix p
      assume p: "s \<le> p \<and> p \<le> e"
      have "page_map pm (page_index p) = None \<and> page_map pm' (page_index p) = Some (fr p)"
      proof (cases "p = s")
        case True
        moreover have "page_map pm' (page_index s) = page_map pm1 (page_index s)"
          using IH other by metis
        ultimately show ?thesis
          using 1(2,3) by simp
      next
        case False
        then have "?t \<le> p"
          using p split by blast
        then show ?thesis
          using IH p other[of p] 1(3) by auto
      qed
      then show "page_map pm (page_index p) = None" "page_map pm' (page_index p) = Some (fr p)"
        by simp_all
    next
      fix x
      assume x: "\<forall>p. s \<le> p \<and> p \<le> e \<longrightarrow> x \<noteq> page_index p"
      then have "page_map pm' x = page_map pm1 x"
        using IH split by blast
      then show "page_map pm' x = page_map pm x"
        using x True 1(3) by auto
    qed (use IH in blast)
  qed
qed

text \<open>The page of an aligned region at an offset, and the frame that \<open>Grant::physmap\<close> gives to it.\<close>

lemma page_floor: "unat (a :: usize) div 4096 * 4096 < 2 ^ 64"
proof -
  have "unat a < 2 ^ 64"
    using unsigned_less[of a] by simp
  then show ?thesis
    using div_times_less_eq_dividend[of "unat a" 4096] by simp
qed

lemma start_of_page: "unat (page_start_address (page_containing a)) = unat a div 4096 * 4096"
  using page_floor[of a] by (simp add: page_start_address_def page_containing_def PAGE_SIZE_def unat_div unat_word_ariths)

lemma start_of_frame: "unat (start_address (containing_address a)) = unat a div 4096 * 4096"
  using page_floor[of a] by (simp add: start_address_def containing_address_def PAGE_SIZE_def unat_div unat_word_ariths)

lemma page_at_offset:
  assumes to: "unat to mod 4096 = 0" "unat to + n < 2 ^ 47" and src: "unat from mod 4096 = 0" "unat from + n < 2 ^ 47"
  defines "a \<equiv> to + of_nat n :: usize" and "y \<equiv> page_start_address (page_containing (to + of_nat n)) - to + from"
  shows "start_address (containing_address y) + a mod 4096 = from + of_nat n" "unat y \<le> unat from + n"
proof -
  obtain t where t: "unat to = 4096 * t"
    using to(1) by auto
  obtain f where f: "unat from = 4096 * f"
    using src(1) by auto
  have a: "unat a = 4096 * t + n"
    using to(2) t unat_add_usize[of to "of_nat n"] by (simp add: a_def unat_of_nat)
  have m: "unat (of_nat (n div 4096 * 4096) :: usize) = n div 4096 * 4096" "n div 4096 * 4096 \<le> n"
    using to(2) div_times_less_eq_dividend[of n 4096] by (simp_all only: unat_of_nat) simp
  have "page_start_address (page_containing a) = to + of_nat (n div 4096 * 4096)"
    using a t to(2) unat_add_usize[of to "of_nat (n div 4096 * 4096)"] m
    by (simp add: start_of_page del: of_nat_mult flip: unat_eq_unat_iff)
  then have y: "y = from + of_nat (n div 4096 * 4096)"
    by (simp add: y_def a_def)
  have uy: "unat y = 4096 * (f + n div 4096)"
    using f src(2) unat_add_usize[of "from" "of_nat (n div 4096 * 4096)"] m by (simp add: y del: of_nat_mult)
  show "unat y \<le> unat from + n"
    using uy f by simp
  have "start_address (containing_address y) = y"
    by (simp add: start_of_frame uy flip: unat_eq_unat_iff)
  moreover have "a mod 4096 = of_nat (n mod 4096)"
    using a to(2) t by (simp add: unat_mod unat_of_nat flip: unat_eq_unat_iff)
  ultimately have "start_address (containing_address y) + a mod 4096 = from + (of_nat (n div 4096 * 4096) + of_nat (n mod 4096))"
    by (simp add: y)
  also have "of_nat (n div 4096 * 4096) + of_nat (n mod 4096) = (of_nat n :: usize)"
    by (metis div_mult_mod_eq of_nat_add)
  finally show "start_address (containing_address y) + a mod 4096 = from + of_nat n" .
qed

lemma grant_physmap_translates:
  assumes wf: "tables_wf pm" and fl: "flags AND ALL_FLAGS = flags" and full: "full \<noteq> 0"
    and to: "unat to mod 4096 = 0" "unat to + unat full \<le> 2 ^ 47"
    and src: "unat from mod 4096 = 0" "unat from + unat full \<le> 2 ^ 47"
    and r: "grant_physmap from to full flags pm = Some (Return (g, pm'))"
  shows "g = \<lparr>g_start = to, g_size = full, g_flags = flags, g_mapped = True\<rparr>" "tables_wf pm'"
    "n < unat full \<Longrightarrow> translate pm' (to + of_nat n) = Return (Some (from + of_nat n))"
    "page_map pm x \<noteq> None \<Longrightarrow> page_map pm' x = page_map pm x"
proof -
  let ?fr = "\<lambda>p. containing_address (page_start_address p - to + from)"
  let ?e = "page_containing (to + full - 1)"
  have loop: "for_pages (\<lambda>p. map_to p (?fr p) flags) (page_range (page_containing to) ?e) pm = Some (Return pm')"
    and g: "g = \<lparr>g_start = to, g_size = full, g_flags = flags, g_mapped = True\<rparr>"
    using r by (auto simp: grant_physmap_def region_def then_do_Return)
  have in_range: "(page_containing to \<le> p \<and> p \<le> ?e) \<longleftrightarrow> (\<exists>i < unat full. p = page_containing (to + of_nat i))" for p
    using range_pages[OF full, of to p] to(2) by simp
  have low: "unat (page_number (page_containing (to + of_nat i))) < 2 ^ 35" if "i < unat full" for i
    using that to(2) unat_add_usize[of to "of_nat i"] by (simp add: page_number_containing unat_of_nat)
  have e: "unat (page_number ?e) < 2 ^ 35"
  proof -
    have "of_nat (unat full - 1) = (of_nat (unat (full - 1)) :: usize)"
      using unat_minus_one[OF full] by simp
    then have "of_nat (unat full - 1) = full - 1" "0 < unat full"
      using full by (simp_all add: unat_gt_0)
    then show ?thesis
      using low[of "unat full - 1"] by (simp add: add_diff_eq)
  qed
  have small: "frame_number (?fr p) < 2 ^ 40" if p: "page_containing to \<le> p" "p \<le> ?e" for p
  proof -
    obtain i where i: "i < unat full" "p = page_containing (to + of_nat i)"
      using in_range p by metis
    have "unat (page_start_address p - to + from) \<le> unat from + i"
      using i(1) page_at_offset(2)[OF to(1) _ src(1), of i] to(2) src(2) by (simp add: i(2))
    then show ?thesis
      using i(1) src(2) by (simp add: containing_address_def PAGE_SIZE_def word_less_nat_alt unat_div)
  qed
  note L = map_loop[OF wf e fl small loop]
  show "g = \<lparr>g_start = to, g_size = full, g_flags = flags, g_mapped = True\<rparr>" "tables_wf pm'"
    using g L by simp_all
  show "translate pm' (to + of_nat n) = Return (Some (from + of_nat n))" if n: "n < unat full"
  proof -
    let ?p = "page_containing (to + of_nat n)"
    have "page_map pm' (page_index ?p) = Some (?fr ?p)"
      using L in_range n by metis
    then have "translate_page pm' ?p = Return (Some (?fr ?p))"
      using L low_page[OF low[OF n]] by (simp add: translate_page_eq[OF tables_wfD(1)] page_map_walk)
    then show ?thesis
      using n page_at_offset(1)[OF to(1) _ src(1), of n] to(2) src(2) by (simp add: translate_def PAGE_SIZE_def)
  qed
  show "page_map pm' x = page_map pm x" if "page_map pm x \<noteq> None"
  proof -
    have "x \<noteq> page_index p" if "page_containing to \<le> p \<and> p \<le> ?e" for p
      using L that \<open>page_map pm x \<noteq> None\<close> by metis
    then show ?thesis
      using L by blast
  qed
qed

lemma physmap_flags_valid: "physmap_flags flags AND ALL_FLAGS = physmap_flags flags"
  by (simp add: physmap_flags_def PRESENT_def NO_EXECUTE_def USER_ACCESSIBLE_def WRITABLE_def HUGE_PAGE_def ALL_FLAGS_def)

text \<open>The sizes that \<open>physmap\<close> computes.\<close>

lemma physmap_sizes:
  fixes pa sz :: usize
  assumes "unat sz + 8192 \<le> 2 ^ 64"
  defines "from \<equiv> pa div 4096 * 4096"
  defines "full \<equiv> (pa - from + sz + 4095) div 4096 * 4096"
  shows "unat from = unat pa div 4096 * 4096" "unat (pa - from) = unat pa mod 4096"
    "unat full = (unat pa mod 4096 + unat sz + 4095) div 4096 * 4096"
    "unat pa mod 4096 + unat sz \<le> unat full" "unat full \<le> unat pa mod 4096 + unat sz + 4095"
proof -
  let ?n = "unat pa mod 4096 + unat sz + 4095"
  have pa: "unat pa div 4096 * 4096 \<le> unat pa"
    by (rule div_times_less_eq_dividend)
  show f: "unat from = unat pa div 4096 * 4096"
    using page_floor[of pa] by (simp add: from_def unat_word_ariths unat_div)
  then have "from \<le> pa"
    using pa by (simp add: word_le_nat_alt)
  then show o: "unat (pa - from) = unat pa mod 4096"
    using f by (simp add: unat_sub modulo_nat_def mult.commute)
  have lt: "unat pa mod 4096 < 4096"
    by simp
  then have "unat (pa - from + sz + 4095) = ?n"
    using o assms(1) unat_add_usize[of "pa - from" sz] unat_add_usize[of "pa - from + sz" 4095] by simp
  moreover have "?n div 4096 * 4096 \<le> ?n"
    by (rule div_times_less_eq_dividend)
  moreover have "?n < 2 ^ 64"
    using assms(1) lt by linarith
  ultimately show full: "unat full = ?n div 4096 * 4096"
    by (simp add: full_def unat_word_ariths unat_div)
  show "unat pa mod 4096 + unat sz \<le> unat full" "unat full \<le> ?n"
    unfolding full using div_mult_mod_eq[of ?n 4096] mod_less_divisor[of 4096 ?n] by linarith+
qed

section \<open>Properties\<close>

text \<open>
  C31. When \<open>physmap\<close> returns an address to the super-user, every byte from there on is translated to the
  physical byte that was asked for; the new grant was inserted where it overlaps no other grant and the list
  stays in order; and every page that was mapped before is mapped to the same frame as before.
\<close>

theorem physmap_translates:
  assumes "tables_wf (aw_pages w)" "get_context (aw_contexts w) (aw_current w) = Some c"
    "grants_wf (unat USER_GRANT_OFFSET) (aw_grants w (grants_ref c))"
    and "sz \<noteq> 0" "unat pa + unat sz \<le> 2 ^ 46"
    and "physmap pa sz flags w = Some (Return (Ok va, w'))" "unat va + unat sz + 4096 \<le> 2 ^ 47"
  shows "tables_wf (aw_pages w') \<and> grants_wf (unat USER_GRANT_OFFSET) (aw_grants w' (grants_ref c)) \<and>
    (\<forall>k < unat sz. translate (aw_pages w') (va + of_nat k) = Return (Some (pa + of_nat k))) \<and>
    (\<forall>x. page_map (aw_pages w) x \<noteq> None \<longrightarrow> page_map (aw_pages w') x = page_map (aw_pages w) x)"
proof -
  let ?gs = "aw_grants w (grants_ref c)"
  define base where "base = pa div 4096 * 4096"
  define full where "full = (pa - base + sz + 4095) div 4096 * 4096"
  have "unat sz + 8192 \<le> 2 ^ 64"
    using assms(5) by simp
  note sizes = physmap_sizes[OF this, of pa, folded base_def, folded full_def]
  obtain i to where place: "place_grant ?gs full USER_GRANT_OFFSET = (i, to)"
    by fastforce
  obtain g pm where g: "grant_physmap base to full (physmap_flags flags) (aw_pages w) = Some (Return (g, pm))"
    and va: "va = to + (pa - base)"
    and w': "w' = w\<lparr>aw_grants := (aw_grants w)(grants_ref c := insert_at i g ?gs), aw_pages := pm\<rparr>"
    using assms(2,4,6) place unfolding base_def full_def
    by (auto simp: physmap_def as_root_def fails_def Let_def then_do_Return split: result.splits)
  have to: "unat USER_GRANT_OFFSET \<le> unat to" "unat to \<le> 2 ^ 47" "unat to mod 4096 = 0"
    using place_grant_address[OF assms(3) _ place] by (simp_all add: layout_defs)
  have "unat va = unat to + unat pa mod 4096"
    using to(2) unat_add_usize[of to "pa - base"] sizes(2) by (simp add: va)
  then have full: "unat to + unat full \<le> 2 ^ 47" and covered: "unat pa mod 4096 + unat sz \<le> unat full"
    using assms(7) sizes(4,5) by linarith+
  have "0 < unat sz"
    using assms(4) by (simp add: unat_gt_0)
  then have nz: "full \<noteq> 0"
    using covered by auto
  have al: "unat full mod 4096 = 0" "unat base mod 4096 = 0"
    using sizes(1,3) by simp_all
  have "unat base + unat full \<le> 2 ^ 46 + 4095"
    using sizes(1,5) assms(5) div_mult_mod_eq[of "unat pa" 4096] by linarith
  then have base: "unat base + unat full \<le> 2 ^ 47"
    by simp
  note G = grant_physmap_translates[OF assms(1) physmap_flags_valid nz to(3) full al(2) base g]
  have "translate pm (va + of_nat k) = Return (Some (pa + of_nat k))" if "k < unat sz" for k
  proof -
    have eqs: "va + of_nat k = to + of_nat (unat (pa - base) + k)" "pa + of_nat k = base + of_nat (unat (pa - base) + k)"
      by (simp_all add: va)
    show ?thesis
      unfolding eqs using that covered sizes(2) by (intro G(3)) simp
  qed
  moreover have "grants_wf (unat USER_GRANT_OFFSET) (insert_at i g ?gs)"
    using place_grant_wf[OF assms(3) _ place to(3) _ _ al(1) full, of g] full G(1) by simp
  ultimately show ?thesis
    using G(2,4) by (simp add: w')
qed

text \<open>A context of the super-user without grants maps a byte of the text buffer of the screen.\<close>

definition small_world :: address_world where
  "small_world = \<lparr>aw_contexts = \<lparr>ctx_map = [(1, new_ctx 0 1)], ctx_next_id = 2\<rparr>, aw_current = 1,
     aw_grants = (\<lambda>_. []), aw_pages = small_tables_at 2\<rparr>"

theorem physmap_translates_witness:
  "\<exists>w'. physmap 0xB8005 1 MAP_WRITE small_world = Some (Return (Ok (USER_GRANT_OFFSET + 5), w')) \<and>
     translate (aw_pages w') (USER_GRANT_OFFSET + 5) = Return (Some 0xB8005)"
proof -
  let ?p = "page_containing USER_GRANT_OFFSET" and ?pm = "small_tables_at 2"
  have i: "p4_index ?p = 2" "p3_index ?p = 0" "p2_index ?p = 0" "p1_index ?p = 0"
    by (simp_all add: p4_index_def p3_index_def p2_index_def p1_index_def page_containing_def layout_defs PAGE_SIZE_def)
  have wf: "tables_wf ?pm"
    by (rule small_tables_at_wf) simp
  have e: "pg_tables ?pm (Frame 102) 0 = 0"
    by (simp add: small_tables_at_def)
  have d: "descend ?pm (pg_cr3 ?pm) [p4_index ?p, p3_index ?p, p2_index ?p] = Some (Frame 102)"
    by (simp add: i small_step)
  obtain pm' where map: "map_to ?p (containing_address 0xB8000) (physmap_flags MAP_WRITE) ?pm = Some (Return pm')"
    using map_to_existing[OF wf _ d, of "containing_address 0xB8000" "physmap_flags MAP_WRITE"] e by (simp add: i)
  have r: "region USER_GRANT_OFFSET 4096 = page_range ?p ?p" "page_start_address ?p = USER_GRANT_OFFSET"
    by (simp_all add: region_def page_containing_def page_start_address_def layout_defs PAGE_SIZE_def)
  have "\<not> Page (page_number ?p + 1) \<le> ?p"
    by (simp add: page_containing_def layout_defs PAGE_SIZE_def less_eq_page_def)
  then have "grant_physmap 0xB8000 USER_GRANT_OFFSET 4096 (physmap_flags MAP_WRITE) ?pm =
      Some (Return (\<lparr>g_start = USER_GRANT_OFFSET, g_size = 4096, g_flags = physmap_flags MAP_WRITE, g_mapped = True\<rparr>, pm'))"
    using map by (simp add: grant_physmap_def r for_pages_step then_do_def)
  then have run: "\<exists>w'. physmap 0xB8005 1 MAP_WRITE small_world = Some (Return (Ok (USER_GRANT_OFFSET + 5), w'))"
    by (simp add: physmap_def as_root_def enforce_root_def with_current_def get_context_def small_world_def new_ctx_def Let_def then_do_def)
  have off: "unat (USER_GRANT_OFFSET + 5) + 1 + 4096 \<le> 2 ^ 47" "grants_wf (unat USER_GRANT_OFFSET) []"
    by (simp_all add: layout_defs)
  from run obtain w' where w': "physmap 0xB8005 1 MAP_WRITE small_world = Some (Return (Ok (USER_GRANT_OFFSET + 5), w'))"
    by blast
  then show ?thesis
    using physmap_translates[OF _ _ _ _ _ w', of "new_ctx 0 1"] wf off by (simp add: small_world_def get_context_def)
qed



end
