(* ===== verification/Byte_Encoding.thy ===== *)
theory Byte_Encoding
  imports Syscall_ABI
begin

text \<open>
  The bytes of machine words and of the packed structures in memory (x86_64 is little-endian). The
  sources reinterpret memory as structures and structures as byte slices (\<open>Deref\<close> and \<open>DerefMut\<close> in
  \<open>syscall/src/data.rs\<close>); \<open>encode_*\<close> is the byte slice of a structure, \<open>decode_*\<close> the structure that
  a byte slice of the right length holds.
\<close>

section \<open>Words\<close>

fun le_bytes :: "nat \<Rightarrow> 'a::len word \<Rightarrow> bytes" where
  "le_bytes 0 w = []"
| "le_bytes (Suc n) w = ucast w # le_bytes n (drop_bit 8 w)"

fun le_word :: "bytes \<Rightarrow> 'a::len word" where
  "le_word [] = 0"
| "le_word (b # bs) = ucast b OR push_bit 8 (le_word bs)"

lemma length_le_bytes [simp]: "length (le_bytes n w) = n"
  by (induction n arbitrary: w) auto

lemma le_word_le_bytes: "le_word (le_bytes n w) = take_bit (8 * n) (w :: 'a::len word)"
proof (induction n arbitrary: w)
  case 0
  then show ?case by simp
next
  case (Suc n)
  show ?case
    unfolding le_bytes.simps le_word.simps Suc
    by (rule bit_eqI) (auto simp: bit_simps possible_bit_word)
qed

lemma le_bytes_le_word:
  "length bs = n \<Longrightarrow> 8 * n \<le> LENGTH('a) \<Longrightarrow> le_bytes n (le_word bs :: 'a::len word) = bs"
proof (induction bs arbitrary: n)
  case Nil
  then show ?case by simp
next
  case (Cons b bs)
  then obtain m where m: "n = Suc m" "length bs = m" by auto
  have high: "bit (le_word bs :: 'a word) k \<Longrightarrow> k < 8 * length bs" for k
  proof (induction bs arbitrary: k)
    case (Cons c cs)
    then show ?case
      by (auto simp: bit_simps) (use bit_imp_le_length [of c k] in fastforce)+
  qed simp
  have "ucast (ucast b OR push_bit 8 (le_word bs) :: 'a word) = b"
    using Cons.prems m by (intro bit_eqI) (auto simp: bit_simps)
  moreover have "drop_bit 8 (ucast b OR push_bit 8 (le_word bs) :: 'a word) = le_word bs"
  proof (rule bit_eqI)
    fix k
    assume "possible_bit TYPE('a word) k"
    have "\<not> bit b (8 + k)"
      using bit_imp_le_length [of b "8 + k"] by auto
    moreover have "bit (le_word bs :: 'a word) k \<Longrightarrow> 8 + k < LENGTH('a)"
      using high [of k] Cons.prems m by auto
    ultimately show "bit (drop_bit 8 (ucast b OR push_bit 8 (le_word bs) :: 'a word)) k \<longleftrightarrow> bit (le_word bs :: 'a word) k"
      by (auto simp: bit_simps)
  qed
  ultimately show ?case
    using Cons.IH [OF m(2)] Cons.prems m by simp
qed

lemma take_bit_all_word: "LENGTH('a) \<le> n \<Longrightarrow> take_bit n (w :: 'a::len word) = w"
  by (rule bit_eqI) (auto simp: bit_simps possible_bit_word)

lemma le_word_roundtrips [simp]:
  "le_word (le_bytes 8 w) = (w :: u64)" "le_word (le_bytes 4 v) = (v :: u32)" "le_word (le_bytes 2 u) = (u :: u16)"
  by (simp_all add: le_word_le_bytes take_bit_all_word)

lemma le_bytes_roundtrips [simp]:
  "length bs = 8 \<Longrightarrow> le_bytes 8 (le_word bs :: u64) = bs"
  "length bs = 4 \<Longrightarrow> le_bytes 4 (le_word bs :: u32) = bs"
  "length bs = 2 \<Longrightarrow> le_bytes 2 (le_word bs :: u16) = bs"
  by (simp_all add: le_bytes_le_word)

section \<open>Structures\<close>

text \<open>The field of \<open>n\<close> bytes at offset \<open>k\<close>.\<close>

definition field :: "nat \<Rightarrow> nat \<Rightarrow> bytes \<Rightarrow> 'a::len word" where
  "field k n bs = le_word (take n (drop k bs))"

definition encode_event :: "event \<Rightarrow> bytes" where
  "encode_event e = le_bytes 8 (ev_id e) @ le_bytes 8 (ev_flags e) @ le_bytes 8 (ev_data e)"

definition decode_event :: "bytes \<Rightarrow> event" where
  "decode_event bs = \<lparr>ev_id = field 0 8 bs, ev_flags = field 8 8 bs, ev_data = field 16 8 bs\<rparr>"

definition encode_packet :: "packet \<Rightarrow> bytes" where
  "encode_packet p =
     le_bytes 8 (pk_id p) @ le_bytes 8 (pk_pid p) @ le_bytes 4 (pk_uid p) @ le_bytes 4 (pk_gid p) @
     le_bytes 8 (pk_a p) @ le_bytes 8 (pk_b p) @ le_bytes 8 (pk_c p) @ le_bytes 8 (pk_d p)"

definition decode_packet :: "bytes \<Rightarrow> packet" where
  "decode_packet bs =
     \<lparr>pk_id = field 0 8 bs, pk_pid = field 8 8 bs, pk_uid = field 16 4 bs, pk_gid = field 20 4 bs,
      pk_a = field 24 8 bs, pk_b = field 32 8 bs, pk_c = field 40 8 bs, pk_d = field 48 8 bs\<rparr>"

definition encode_stat :: "stat \<Rightarrow> bytes" where
  "encode_stat s =
     le_bytes 8 (st_dev s) @ le_bytes 8 (st_ino s) @ le_bytes 2 (st_mode s) @ le_bytes 4 (st_nlink s) @
     le_bytes 4 (st_uid s) @ le_bytes 4 (st_gid s) @ le_bytes 8 (st_size s) @ le_bytes 4 (st_blksize s) @
     le_bytes 8 (st_blocks s) @ le_bytes 8 (st_mtime s) @ le_bytes 4 (st_mtime_nsec s) @
     le_bytes 8 (st_atime s) @ le_bytes 4 (st_atime_nsec s) @ le_bytes 8 (st_ctime s) @ le_bytes 4 (st_ctime_nsec s)"

definition decode_stat :: "bytes \<Rightarrow> stat" where
  "decode_stat bs =
     \<lparr>st_dev = field 0 8 bs, st_ino = field 8 8 bs, st_mode = field 16 2 bs, st_nlink = field 18 4 bs,
      st_uid = field 22 4 bs, st_gid = field 26 4 bs, st_size = field 30 8 bs, st_blksize = field 38 4 bs,
      st_blocks = field 42 8 bs, st_mtime = field 50 8 bs, st_mtime_nsec = field 58 4 bs,
      st_atime = field 62 8 bs, st_atime_nsec = field 70 4 bs, st_ctime = field 74 8 bs,
      st_ctime_nsec = field 82 4 bs\<rparr>"

definition encode_stat_vfs :: "stat_vfs \<Rightarrow> bytes" where
  "encode_stat_vfs s =
     le_bytes 4 (f_bsize s) @ le_bytes 8 (f_blocks s) @ le_bytes 8 (f_bfree s) @ le_bytes 8 (f_bavail s)"

definition decode_stat_vfs :: "bytes \<Rightarrow> stat_vfs" where
  "decode_stat_vfs bs =
     \<lparr>f_bsize = field 0 4 bs, f_blocks = field 4 8 bs, f_bfree = field 12 8 bs, f_bavail = field 20 8 bs\<rparr>"

lemma decode_encode [simp]:
  "decode_event (encode_event e) = e" "decode_packet (encode_packet p) = p"
  "decode_stat (encode_stat s) = s" "decode_stat_vfs (encode_stat_vfs v) = v"
  by (simp_all add: decode_event_def encode_event_def decode_packet_def encode_packet_def
      decode_stat_def encode_stat_def decode_stat_vfs_def encode_stat_vfs_def field_def)

lemma length_encode [simp]:
  "length (encode_event e) = size_of_event" "length (encode_packet p) = size_of_packet"
  "length (encode_stat s) = size_of_stat" "length (encode_stat_vfs v) = size_of_stat_vfs"
  by (simp_all add: encode_event_def size_of_event_def encode_packet_def size_of_packet_def
      encode_stat_def size_of_stat_def encode_stat_vfs_def size_of_stat_vfs_def)

text \<open>A byte slice of the right length is cut into its fields.\<close>

lemma take_split: "m \<le> n \<Longrightarrow> take n (drop k bs) = take m (drop k bs) @ take (n - m) (drop (k + m) bs)"
  by (metis add.commute drop_drop le_add_diff_inverse take_add)

lemma encode_decode_packet:
  assumes "length bs = size_of_packet"
  shows "encode_packet (decode_packet bs) = bs"
proof -
  have n: "length bs = 56"
    using assms by (simp add: size_of_packet_def)
  have "bs = take 56 (drop 0 bs)"
    using n by simp
  also have "\<dots> = take 8 (drop 0 bs) @ take 8 (drop 8 bs) @ take 4 (drop 16 bs) @ take 4 (drop 20 bs) @
      take 8 (drop 24 bs) @ take 8 (drop 32 bs) @ take 8 (drop 40 bs) @ take 8 (drop 48 bs)"
    using take_split [of 8 56 0 bs] take_split [of 8 48 8 bs] take_split [of 4 40 16 bs]
      take_split [of 4 36 20 bs] take_split [of 8 32 24 bs] take_split [of 8 24 32 bs] take_split [of 8 16 40 bs]
    by simp
  finally show ?thesis
    using n by (simp add: encode_packet_def decode_packet_def field_def)
qed

section \<open>Memory\<close>

text \<open>
  The memory of a process, as far as raw pointers reach it: \<open>slice::from_raw_parts(p, n)\<close> reads \<open>n\<close>
  bytes at \<open>p\<close>, a mutable slice writes them back. Addresses wrap around.
\<close>

type_synonym address_space = "usize \<Rightarrow> u8"

definition slice_at :: "address_space \<Rightarrow> usize \<Rightarrow> nat \<Rightarrow> bytes" where
  "slice_at M p n = map (\<lambda>i. M (p + of_nat i)) [0..<n]"

fun store_at :: "address_space \<Rightarrow> usize \<Rightarrow> bytes \<Rightarrow> address_space" where
  "store_at M p [] = M"
| "store_at M p (b # bs) = store_at (M(p := b)) (p + 1) bs"

lemma length_slice_at [simp]: "length (slice_at M p n) = n"
  by (simp add: slice_at_def)

lemma slice_at_Suc: "slice_at M p (Suc n) = M p # slice_at M (p + 1) n"
proof -
  have "[0..<Suc n] = 0 # map Suc [0..<n]"
    by (simp add: map_Suc_upt upt_conv_Cons del: upt_Suc)
  then show ?thesis
    by (simp add: slice_at_def algebra_simps del: upt_Suc)
qed

lemma store_at_other: "(\<And>i. i < length bs \<Longrightarrow> q \<noteq> p + of_nat i) \<Longrightarrow> store_at M p bs q = M q"
proof (induction bs arbitrary: M p)
  case (Cons b bs)
  have "q \<noteq> p" "\<And>i. i < length bs \<Longrightarrow> q \<noteq> p + 1 + of_nat i"
    using Cons.prems [of 0] Cons.prems [of "Suc i" for i] by (auto simp: algebra_simps)
  then have "store_at (M(p := b)) (p + 1) bs q = (M(p := b)) q"
    by (intro Cons.IH)
  then show ?case
    using \<open>q \<noteq> p\<close> by simp
qed simp

lemma slice_store: "length bs \<le> 2 ^ 64 \<Longrightarrow> slice_at (store_at M p bs) p (length bs) = bs"
proof (induction bs arbitrary: M p)
  case (Cons b bs)
  have "p \<noteq> p + 1 + of_nat i" if "i < length bs" for i
  proof
    assume "p = p + 1 + of_nat i"
    then have "(of_nat (Suc i) :: usize) = 0"
      by (simp add: algebra_simps)
    then show False
      using that Cons.prems unat_of_nat_small [of "Suc i"] by simp
  qed
  then have "store_at (M(p := b)) (p + 1) bs p = b"
    by (subst store_at_other) auto
  then show ?case
    using Cons by (simp add: slice_at_Suc)
qed (simp add: slice_at_def)

text \<open>
  The structures of the system call interface are their bytes: for each of \<open>Event\<close>, \<open>Packet\<close>,
  \<open>Stat\<close> and \<open>StatVfs\<close>, storing the byte slice of a structure at any address and reading the same
  number of bytes back as that structure gives the structure.
\<close>

theorem structures_roundtrip:
  "decode_event (slice_at (store_at M p (encode_event e)) p size_of_event) = e \<and>
   decode_packet (slice_at (store_at M p (encode_packet k)) p size_of_packet) = k \<and>
   decode_stat (slice_at (store_at M p (encode_stat s)) p size_of_stat) = s \<and>
   decode_stat_vfs (slice_at (store_at M p (encode_stat_vfs v)) p size_of_stat_vfs) = v"
  using slice_store [of "encode_event e" M p] slice_store [of "encode_packet k" M p]
    slice_store [of "encode_stat s" M p] slice_store [of "encode_stat_vfs v" M p]
  by (simp add: size_of_event_def size_of_packet_def size_of_stat_def size_of_stat_vfs_def)

end
