(* ===== verification/Scheme_Trait.thy ===== *)
theory Scheme_Trait
  imports Byte_Encoding
begin

text \<open>
  The traits \<open>Scheme\<close> and \<open>SchemeMut\<close> of \<open>syscall/src/scheme.rs\<close>: the operations a scheme offers, their
  default bodies, and \<open>handle\<close>, which decodes a \<open>Packet\<close>, calls the operation and puts the result
  back. The two traits differ only in \<open>&self\<close> against \<open>&mut self\<close>; here the scheme's state is passed
  explicitly. The \<open>null:\<close> and \<open>zero:\<close> schemes of the kernel are the smallest instances.
\<close>

section \<open>Operations and their defaults\<close>

type_synonym ('r, 's) op = "'s \<Rightarrow> 'r attempt \<times> 's"

text \<open>An operation with a \<open>&mut\<close> argument also returns that argument's new value.\<close>

record 's scheme_ops =
  op_open :: "bytes \<Rightarrow> usize \<Rightarrow> u32 \<Rightarrow> u32 \<Rightarrow> (usize result, 's) op"
  op_chmod :: "bytes \<Rightarrow> u16 \<Rightarrow> u32 \<Rightarrow> u32 \<Rightarrow> (usize result, 's) op"
  op_rmdir :: "bytes \<Rightarrow> u32 \<Rightarrow> u32 \<Rightarrow> (usize result, 's) op"
  op_unlink :: "bytes \<Rightarrow> u32 \<Rightarrow> u32 \<Rightarrow> (usize result, 's) op"
  op_dup :: "usize \<Rightarrow> bytes \<Rightarrow> (usize result, 's) op"
  op_read :: "usize \<Rightarrow> bytes \<Rightarrow> (usize result \<times> bytes, 's) op"
  op_write :: "usize \<Rightarrow> bytes \<Rightarrow> (usize result, 's) op"
  op_seek :: "usize \<Rightarrow> usize \<Rightarrow> usize \<Rightarrow> (usize result, 's) op"
  op_fcntl :: "usize \<Rightarrow> usize \<Rightarrow> usize \<Rightarrow> (usize result, 's) op"
  op_fevent :: "usize \<Rightarrow> usize \<Rightarrow> (usize result, 's) op"
  op_fmap :: "usize \<Rightarrow> usize \<Rightarrow> usize \<Rightarrow> (usize result, 's) op"
  op_fpath :: "usize \<Rightarrow> bytes \<Rightarrow> (usize result \<times> bytes, 's) op"
  op_fstat :: "usize \<Rightarrow> stat \<Rightarrow> (usize result \<times> stat, 's) op"
  op_fstatvfs :: "usize \<Rightarrow> stat_vfs \<Rightarrow> (usize result \<times> stat_vfs, 's) op"
  op_fsync :: "usize \<Rightarrow> (usize result, 's) op"
  op_ftruncate :: "usize \<Rightarrow> usize \<Rightarrow> (usize result, 's) op"
  op_close :: "usize \<Rightarrow> (usize result, 's) op"

text \<open>An operation that only returns a value.\<close>

definition returns :: "'r \<Rightarrow> ('r, 's) op" where
  "returns r s = (Returned r, s)"

definition default_ops :: "'s scheme_ops" where
  "default_ops =
     \<lparr>op_open = (\<lambda>path flags uid gid. returns (Err (Error ENOENT))),
      op_chmod = (\<lambda>path mode uid gid. returns (Err (Error ENOENT))),
      op_rmdir = (\<lambda>path uid gid. returns (Err (Error ENOENT))),
      op_unlink = (\<lambda>path uid gid. returns (Err (Error ENOENT))),
      op_dup = (\<lambda>old_id buf. returns (Err (Error EBADF))),
      op_read = (\<lambda>id buf. returns (Err (Error EBADF), buf)),
      op_write = (\<lambda>id buf. returns (Err (Error EBADF))),
      op_seek = (\<lambda>id pos whence. returns (Err (Error EBADF))),
      op_fcntl = (\<lambda>id cmd arg. returns (Err (Error EBADF))),
      op_fevent = (\<lambda>id flags. returns (Err (Error EBADF))),
      op_fmap = (\<lambda>id offset size. returns (Err (Error EBADF))),
      op_fpath = (\<lambda>id buf. returns (Err (Error EBADF), buf)),
      op_fstat = (\<lambda>id stat. returns (Err (Error EBADF), stat)),
      op_fstatvfs = (\<lambda>id stat. returns (Err (Error EBADF), stat)),
      op_fsync = (\<lambda>id. returns (Err (Error EBADF))),
      op_ftruncate = (\<lambda>id len. returns (Err (Error EBADF))),
      op_close = (\<lambda>id. returns (Err (Error EBADF)))\<rparr>"

text \<open>The defaults of \<open>SchemeMut\<close> are the same.\<close>

definition default_mut_ops :: "'s scheme_ops" where
  "default_mut_ops = default_ops"

section \<open>handle\<close>

text \<open>
  The scheme's process: its state and the memory its raw pointers reach. \<open>plain\<close> runs an operation
  without a \<open>&mut\<close> argument, \<open>with_out\<close> one that writes a value of \<open>n\<close> bytes at \<open>p\<close>.
\<close>

type_synonym 's scheme_process = "'s \<times> address_space"

definition plain :: "('r, 's) op \<Rightarrow> 's scheme_process \<Rightarrow> 'r attempt \<times> 's scheme_process" where
  "plain f w = (let (r, s') = f (fst w) in (r, (s', snd w)))"

definition with_out :: "usize \<Rightarrow> nat \<Rightarrow> (bytes \<Rightarrow> 'v) \<Rightarrow> ('v \<Rightarrow> bytes) \<Rightarrow> ('v \<Rightarrow> ('r \<times> 'v, 's) op) \<Rightarrow>
    's scheme_process \<Rightarrow> 'r attempt \<times> 's scheme_process" where
  "with_out p n dec enc f w =
     (case f (dec (slice_at (snd w) p n)) (fst w) of
        (Returned (r, v), s') \<Rightarrow> (Returned r, (s', store_at (snd w) p (enc v)))
      | (Waits, s') \<Rightarrow> (Waits, (s', snd w))
      | (Crashes, s') \<Rightarrow> (Crashes, (s', snd w)))"

definition handle_call :: "'s scheme_ops \<Rightarrow> packet \<Rightarrow> 's scheme_process \<Rightarrow> usize result attempt \<times> 's scheme_process" where
  "handle_call ops k w =
     (let a = pk_a k; b = pk_b k; c = pk_c k; d = pk_d k; uid = pk_uid k; gid = pk_gid k;
          path = slice_at (snd w) b (unat c);
          buf = slice_at (snd w) c (unat d)
      in if a = SYS_OPEN then plain (op_open ops path d uid gid) w
         else if a = SYS_CHMOD then plain (op_chmod ops path (ucast d) uid gid) w
         else if a = SYS_RMDIR then plain (op_rmdir ops path uid gid) w
         else if a = SYS_UNLINK then plain (op_unlink ops path uid gid) w
         else if a = SYS_DUP then plain (op_dup ops b buf) w
         else if a = SYS_READ then with_out c (unat d) id id (op_read ops b) w
         else if a = SYS_WRITE then plain (op_write ops b buf) w
         else if a = SYS_LSEEK then plain (op_seek ops b c d) w
         else if a = SYS_FCNTL then plain (op_fcntl ops b c d) w
         else if a = SYS_FEVENT then plain (op_fevent ops b c) w
         else if a = SYS_FMAP then plain (op_fmap ops b c d) w
         else if a = SYS_FPATH then with_out c (unat d) id id (op_fpath ops b) w
         else if a = SYS_FSTAT then
           (if unat d \<ge> size_of_stat
            then with_out c size_of_stat decode_stat encode_stat (op_fstat ops b) w
            else (Returned (Err (Error EFAULT)), w))
         else if a = SYS_FSTATVFS then
           (if unat d \<ge> size_of_stat_vfs
            then with_out c size_of_stat_vfs decode_stat_vfs encode_stat_vfs (op_fstatvfs ops b) w
            else (Returned (Err (Error EFAULT)), w))
         else if a = SYS_FSYNC then plain (op_fsync ops b) w
         else if a = SYS_FTRUNCATE then plain (op_ftruncate ops b c) w
         else if a = SYS_CLOSE then plain (op_close ops b) w
         else (Returned (Err (Error ENOSYS)), w))"

definition handle :: "'s scheme_ops \<Rightarrow> packet \<Rightarrow> 's scheme_process \<Rightarrow> packet attempt \<times> 's scheme_process" where
  "handle ops k w =
     (case handle_call ops k w of
        (Returned r, w') \<Rightarrow> (Returned (k\<lparr>pk_a := mux r\<rparr>), w')
      | (Waits, w') \<Rightarrow> (Waits, w')
      | (Crashes, w') \<Rightarrow> (Crashes, w'))"

text \<open>\<open>SchemeMut::handle\<close> has the same body.\<close>

definition handle_mut :: "'s scheme_ops \<Rightarrow> packet \<Rightarrow> 's scheme_process \<Rightarrow> packet attempt \<times> 's scheme_process" where
  "handle_mut = handle"

section \<open>The null: and zero: schemes (kernel/scheme/null.rs, zero.rs)\<close>

definition null_ops :: "unit scheme_ops" where
  "null_ops = default_ops
     \<lparr>op_open := (\<lambda>path flags uid gid. returns (Ok 0)),
      op_dup := (\<lambda>file buf. returns (Ok 0)),
      op_read := (\<lambda>file buf. returns (Ok 0, buf)),
      op_write := (\<lambda>file buffer. returns (Ok (of_nat (length buffer)))),
      op_fsync := (\<lambda>file. returns (Ok 0)),
      op_close := (\<lambda>file. returns (Ok 0))\<rparr>"

text \<open>\<open>while i < buf.len() { buf[i] = 0; i += 1; }\<close>\<close>

fun zero_fill :: "bytes \<Rightarrow> bytes \<times> nat" where
  "zero_fill [] = ([], 0)"
| "zero_fill (b # bs) = (let (r, n) = zero_fill bs in (0 # r, Suc n))"

definition zero_ops :: "unit scheme_ops" where
  "zero_ops = default_ops
     \<lparr>op_open := (\<lambda>path flags uid gid. returns (Ok 0)),
      op_dup := (\<lambda>file buf. returns (Ok 0)),
      op_read := (\<lambda>file buf. let (r, n) = zero_fill buf in returns (Ok (of_nat n), r)),
      op_write := (\<lambda>file buffer. returns (Ok (of_nat (length buffer)))),
      op_fsync := (\<lambda>file. returns (Ok 0)),
      op_close := (\<lambda>file. returns (Ok 0))\<rparr>"

lemma zero_fill_eq: "zero_fill buf = (replicate (length buf) 0, length buf)"
  by (induction buf) auto

section \<open>What handle may write\<close>

lemma with_out_frame:
  assumes "with_out p n dec enc f (s, M) = (Returned r, (s', M'))" "n \<le> m"
    and "\<And>v r t. f (dec (slice_at M p n)) s = (Returned (r, v), t) \<Longrightarrow> length (enc v) = n"
    and "\<And>i. i < m \<Longrightarrow> q \<noteq> p + of_nat i"
  shows "M' q = M q"
proof -
  obtain v t where v: "f (dec (slice_at M p n)) s = (Returned (r, v), t)" "M' = store_at M p (enc v)"
    using assms(1) by (auto simp: with_out_def split: prod.splits attempt.splits)
  have "length (enc v) = n"
    using assms(3) v(1) by blast
  then show ?thesis
    unfolding v(2) using assms(2,4) by (intro store_at_other) auto
qed

text \<open>
  The contract of the operations with a \<open>&mut [u8]\<close> argument that Rust's types give: the buffer keeps
  its length.
\<close>

locale scheme =
  fixes ops :: "'s scheme_ops"
  assumes read_length: "op_read ops i buf s = (Returned (r, buf'), s') \<Longrightarrow> length buf' = length buf"
    and fpath_length: "op_fpath ops i buf s = (Returned (r, buf'), s') \<Longrightarrow> length buf' = length buf"
begin

lemma handle_call_frame:
  assumes "handle_call ops k (s, M) = (Returned r, (s', M'))"
    and "\<And>i. i < unat (pk_d k) \<Longrightarrow> q \<noteq> pk_c k + of_nat i"
  shows "M' q = M q"
proof -
  note out = with_out_frame [OF _ _ _ assms(2)]
  have rl: "op_read ops i (id buf) s = (Returned (r, v), t) \<Longrightarrow> length (id v) = length buf"
    "op_fpath ops i (id buf) s = (Returned (r, v), t) \<Longrightarrow> length (id v) = length buf" for i buf r v t
    using read_length fpath_length by auto
  show ?thesis
    using assms(1) unfolding handle_call_def Let_def
    by (auto simp del: SYS_OPEN_def SYS_CHMOD_def SYS_RMDIR_def SYS_UNLINK_def SYS_DUP_def SYS_READ_def
        SYS_WRITE_def SYS_LSEEK_def SYS_FCNTL_def SYS_FEVENT_def SYS_FMAP_def SYS_FPATH_def SYS_FSTAT_def
        SYS_FSTATVFS_def SYS_FSYNC_def SYS_FTRUNCATE_def SYS_CLOSE_def
        simp: plain_def split: if_splits prod.splits elim!: out dest: rl)
qed

lemma handle_frame:
  assumes "handle ops k (s, M) = (Returned k', (s', M'))"
    and "\<And>i. i < unat (pk_d k) \<Longrightarrow> q \<noteq> pk_c k + of_nat i"
  shows "M' q = M q \<and> (\<exists>r. k' = k\<lparr>pk_a := mux r\<rparr>)"
  using assms handle_call_frame [of k s M _ s' M' q]
  by (auto simp: handle_def split: prod.splits attempt.splits)

end

interpretation null: scheme null_ops
  by unfold_locales (auto simp: null_ops_def default_ops_def returns_def)

interpretation zero: scheme zero_ops
  by unfold_locales (auto simp: zero_ops_def default_ops_def returns_def zero_fill_eq)

section \<open>Properties\<close>



end
