(* ===== verification/Scheduler.thy ===== *)
theory Scheduler
  imports Contexts
begin

text \<open>
  The scheduler (\<open>kernel/context/switch.rs\<close>): choosing the next context of a CPU and handing the CPU
  over to it. The register switch, the kernel stack pointer of the task state segment and the
  delivery of the signal on the new context's stack are done by \<open>arch\<close> and are not modelled; the
  popped signal is returned. The global switch lock makes the operation atomic.
\<close>

section \<open>Operations\<close>

definition check_context :: "usize \<Rightarrow> u64 \<times> u64 \<Rightarrow> ctx \<Rightarrow> ctx \<times> bool" where
  "check_context cpu now c =
     (let c1 = (if cpu_id c = None \<and> cpu = 0 then c\<lparr>cpu_id := Some cpu\<rparr> else c);
          c2 = (if status c1 = Blocked \<and> pending c1 \<noteq> [] then fst (unblock c1) else c1);
          c3 = (case wake c2 of
                  None \<Rightarrow> c2
                | Some w \<Rightarrow>
                    (if status c2 = Blocked \<and>
                        (fst now > fst w \<or> (fst now = fst w \<and> snd now \<ge> snd w))
                     then fst (unblock c2) else c2))
      in (c3, cpu_id c3 = Some cpu \<and> status c3 = Runnable \<and> \<not> running c3))"

text \<open>\<open>context.pending.pop_front()\<close>\<close>

definition pop_signal :: "ctx \<Rightarrow> ctx \<times> u8 option" where
  "pop_signal c =
     (case pending c of [] \<Rightarrow> (c, None) | s # ss \<Rightarrow> (c\<lparr>pending := ss\<rparr>, Some s))"

text \<open>
  \<open>for (pid, context_lock) in contexts.iter()\<close>: the contexts whose identifier satisfies \<open>p\<close> are
  checked in order up to the first that can run, whose first signal is popped. \<open>now pid\<close> is what
  \<open>arch::time::monotonic\<close> returns when the context \<open>pid\<close> is checked.
\<close>

fun scan :: "(usize \<Rightarrow> bool) \<Rightarrow> usize \<Rightarrow> (usize \<Rightarrow> u64 \<times> u64) \<Rightarrow> (usize, ctx) btree_map \<Rightarrow>
    (usize, ctx) btree_map \<times> (ctx \<times> u8 option) option" where
  "scan p cpu now [] = ([], None)"
| "scan p cpu now (e # es) =
     (if p (fst e) then
        let (c, runs) = check_context cpu (now (fst e)) (snd e)
        in if runs then let (c', sig) = pop_signal c in ((fst e, c') # es, Some (c', sig))
           else let (es', r) = scan p cpu now es in ((fst e, c) # es', r)
      else let (es', r) = scan p cpu now es in (e # es', r))"

text \<open>
  \<open>switch\<close>: whether a context was found, the CPU's current context afterwards, the signal to
  deliver, and the context list. There is no current context: \<open>Panic\<close>.
\<close>

definition switch :: "usize \<Rightarrow> (usize \<Rightarrow> u64 \<times> u64) \<Rightarrow> usize \<Rightarrow> context_list \<Rightarrow>
    (bool \<times> usize \<times> u8 option \<times> context_list) outcome" where
  "switch cpu now cur l =
     (case get_context l cur of
        None \<Rightarrow> Panic
      | Some from_ctx \<Rightarrow>
          let (m1, r1) = scan (\<lambda>pid. pid > ctx_id from_ctx) cpu now (ctx_map l);
              (m2, r2) = (case r1 of
                            Some _ \<Rightarrow> (m1, r1)
                          | None \<Rightarrow> scan (\<lambda>pid. pid < ctx_id from_ctx) cpu now m1)
          in Return (case r2 of
               None \<Rightarrow> (False, cur, None, l\<lparr>ctx_map := m2\<rparr>)
             | Some (to_ctx, sig) \<Rightarrow>
                 (True, ctx_id to_ctx, sig,
                  l\<lparr>ctx_map := bt_modify (ctx_id to_ctx) (\<lambda>c. c\<lparr>running := True\<rparr>)
                      (bt_modify (ctx_id from_ctx) (\<lambda>c. c\<lparr>running := False\<rparr>) m2)\<rparr>)))"

section \<open>Lemmas\<close>

text \<open>A context can be chosen on a CPU: it passes the check.\<close>

definition eligible :: "usize \<Rightarrow> u64 \<times> u64 \<Rightarrow> ctx \<Rightarrow> bool" where
  "eligible cpu now c \<longleftrightarrow> snd (check_context cpu now c)"

text \<open>What looking at a context may change: it may be unblocked, taken by the CPU, lose a signal.\<close>

definition looked_at :: "ctx \<Rightarrow> ctx \<Rightarrow> bool" where
  "looked_at c c' \<longleftrightarrow> ctx_id c' = ctx_id c \<and> running c' = running c \<and>
     (cpu_id c \<noteq> None \<longrightarrow> cpu_id c' = cpu_id c)"

lemma looked_at_refl [simp]: "looked_at c c"
  by (simp add: looked_at_def)

lemma looked_at_trans: "looked_at a b \<Longrightarrow> looked_at b c \<Longrightarrow> looked_at a c"
  by (auto simp: looked_at_def)

lemma unblock_fields [simp]:
  "ctx_id (fst (unblock c)) = ctx_id c" "running (fst (unblock c)) = running c"
  "cpu_id (fst (unblock c)) = cpu_id c" "pending (fst (unblock c)) = pending c"
  "wake (fst (unblock c)) = wake c" "ppid (fst (unblock c)) = ppid c"
  by (simp_all add: unblock_def)

lemma check_looked_at [simp]: "looked_at c (fst (check_context cpu now c))"
  by (auto simp: looked_at_def check_context_def Let_def split: option.splits)

lemma pop_signal_fields [simp]:
  "ctx_id (fst (pop_signal c)) = ctx_id c" "running (fst (pop_signal c)) = running c"
  "cpu_id (fst (pop_signal c)) = cpu_id c" "status (fst (pop_signal c)) = status c"
  by (simp_all add: pop_signal_def split: list.splits)

lemma pop_looked_at [simp]: "looked_at c (fst (pop_signal c))"
  by (simp add: looked_at_def)

lemma check_result:
  assumes "check_context cpu now c = (c', True)"
  shows "cpu_id c' = Some cpu" "status c' = Runnable" "\<not> running c'" "ctx_id c' = ctx_id c"
  using assms check_looked_at [of c cpu now]
  by (auto simp: check_context_def Let_def looked_at_def)

lemma scan_keys [simp]: "bt_keys (fst (scan p cpu now m)) = bt_keys m"
  by (induction m) (auto simp: Let_def split: prod.splits)

lemma scan_wf [simp, inv_intros]: "bt_wf m \<Longrightarrow> bt_wf (fst (scan p cpu now m))"
  by (simp add: bt_wf_def)

text \<open>Every context is still there, at most looked at, and not at all where \<open>p\<close> is false.\<close>

lemma scan_get:
  "bt_get m k = Some c \<Longrightarrow>
   \<exists>c'. bt_get (fst (scan p cpu now m)) k = Some c' \<and> looked_at c c' \<and> (\<not> p k \<longrightarrow> c' = c)"
proof (induction m)
  case Nil
  then show ?case by simp
next
  case (Cons e es)
  obtain es' r where s: "scan p cpu now es = (es', r)"
    by (cases "scan p cpu now es")
  obtain x b where x: "check_context cpu (now (fst e)) (snd e) = (x, b)"
    by (cases "check_context cpu (now (fst e)) (snd e)")
  obtain y sig where y: "pop_signal x = (y, sig)"
    by (cases "pop_signal x")
  have x': "looked_at (snd e) x" and y': "looked_at (snd e) y"
    using check_looked_at [of "snd e" cpu "now (fst e)"] pop_looked_at [of x] x y
    by (auto intro: looked_at_trans)
  show ?case
  proof (cases "k = fst e")
    case True
    then show ?thesis
      using Cons.prems s x y x' y' by (cases "p (fst e)"; cases b) auto
  next
    case False
    then have "bt_get es k = Some c"
      using Cons.prems by simp
    from Cons.IH [OF this] show ?thesis
      using False s x y \<open>bt_get es k = Some c\<close> by (cases "p (fst e)"; cases b) auto
  qed
qed

text \<open>Nobody was found: nobody could have run.\<close>

lemma scan_None:
  "scan p cpu now m = (m', None) \<Longrightarrow> bt_get m k = Some c \<Longrightarrow> p k \<Longrightarrow>
   \<not> eligible cpu (now k) c \<and> bt_get m' k = Some (fst (check_context cpu (now k) c))"
proof (induction m arbitrary: m')
  case Nil
  then show ?case by simp
next
  case (Cons e es)
  obtain es' r where s: "scan p cpu now es = (es', r)"
    by (cases "scan p cpu now es")
  obtain x b where x: "check_context cpu (now (fst e)) (snd e) = (x, b)"
    by (cases "check_context cpu (now (fst e)) (snd e)")
  show ?case
    using Cons s x by (auto simp: eligible_def Let_def split: if_splits prod.splits)
qed

text \<open>Somebody was found: the first in key order that could run.\<close>

lemma scan_Some:
  assumes "bt_wf m" "scan p cpu now m = (m', Some (t, sig))"
  shows "\<exists>k c. bt_get m k = Some c \<and> p k \<and> eligible cpu (now k) c \<and>
    t = fst (pop_signal (fst (check_context cpu (now k) c))) \<and> bt_get m' k = Some t \<and>
    (\<forall>j d. bt_get m j = Some d \<longrightarrow> p j \<longrightarrow> eligible cpu (now j) d \<longrightarrow> k \<le> j)"
  using assms
proof (induction m arbitrary: m')
  case Nil
  then show ?case by simp
next
  case (Cons e es)
  have wf: "bt_wf es" and above: "\<And>j d. bt_get es j = Some d \<Longrightarrow> fst e < j"
    using Cons.prems(1) by (auto simp: bt_wf_Cons bt_get_mem bt_keys_def dest: image_eqI [where f = fst])
  obtain es' r where s: "scan p cpu now es = (es', r)"
    by (cases "scan p cpu now es")
  obtain x b where x: "check_context cpu (now (fst e)) (snd e) = (x, b)"
    by (cases "check_context cpu (now (fst e)) (snd e)")
  show ?case
  proof (cases "p (fst e) \<and> b")
    case True
    then have el: "eligible cpu (now (fst e)) (snd e)"
      using x by (simp add: eligible_def)
    have "t = fst (pop_signal x)" "bt_get m' (fst e) = Some t"
      using True Cons.prems(2) x by (auto simp: Let_def split: prod.splits)
    then show ?thesis
      using True x el above by (intro exI [of _ "fst e"] exI [of _ "snd e"]) (auto dest: less_imp_le)
  next
    case False
    then have r: "scan p cpu now es = (es', Some (t, sig))"
      and m': "m' = (fst e, if p (fst e) then x else snd e) # es'"
      using Cons.prems(2) s x by (auto simp: Let_def split: if_splits)
    have not_el: "p (fst e) \<Longrightarrow> \<not> eligible cpu (now (fst e)) (snd e)"
      using False x by (simp add: eligible_def)
    obtain k c where k: "bt_get es k = Some c" "p k" "eligible cpu (now k) c"
        "t = fst (pop_signal (fst (check_context cpu (now k) c)))" "bt_get es' k = Some t"
        "\<forall>j d. bt_get es j = Some d \<longrightarrow> p j \<longrightarrow> eligible cpu (now j) d \<longrightarrow> k \<le> j"
      using Cons.IH [OF wf r] by blast
    have "fst e < k"
      using above k(1) by blast
    then show ?thesis
      using k not_el m' by (intro exI [of _ k] exI [of _ c]) (auto split: if_splits)
  qed
qed

text \<open>Identifiers in the order the scheduler visits them: those above the current one come first.\<close>

lemma visit_order:
  assumes "(cur < k \<and> (j < cur \<or> k \<le> j)) \<or> (k < cur \<and> j < cur \<and> k \<le> j)"
  shows "k - cur \<le> (j - cur :: usize)"
  using assms unsigned_less [of k, where ?'a = nat] unsigned_less [of j, where ?'a = nat]
  unfolding word_le_nat_alt word_less_nat_alt unat_sub_if' by auto

lemma above_first: "cur < k \<Longrightarrow> j \<noteq> cur \<Longrightarrow> (cur < j \<Longrightarrow> k \<le> j) \<Longrightarrow> k - cur \<le> (j - cur :: usize)"
  by (rule visit_order) (metis linorder_cases)

lemma below_next: "k < cur \<Longrightarrow> j \<noteq> cur \<Longrightarrow> \<not> cur < j \<Longrightarrow> (j < cur \<Longrightarrow> k \<le> j) \<Longrightarrow> k - cur \<le> (j - cur :: usize)"
  by (rule visit_order) (metis linorder_cases)

text \<open>The state after the scans: every context is looked at, the current one not even that.\<close>

definition scanned :: "usize \<Rightarrow> context_list \<Rightarrow> (usize, ctx) btree_map \<Rightarrow> bool" where
  "scanned cur l m \<longleftrightarrow> bt_wf m \<and> bt_keys m = bt_keys (ctx_map l) \<and>
     (\<forall>i c. get_context l i = Some c \<longrightarrow>
        (\<exists>c'. bt_get m i = Some c' \<and> looked_at c c' \<and> (i = cur \<longrightarrow> c' = c)))"

lemma scanned_inverse:
  assumes "scanned cur l m" "bt_get m i = Some c"
  shows "\<exists>d. get_context l i = Some d \<and> looked_at d c \<and> (i = cur \<longrightarrow> c = d)"
proof -
  have "bt_get m i \<noteq> None"
    using assms(2) by simp
  then have "get_context l i \<noteq> None"
    using assms(1) by (auto simp: scanned_def get_context_def bt_get_None_iff simp del: not_None_eq)
  then obtain d where "get_context l i = Some d"
    by blast
  then show ?thesis
    using assms unfolding scanned_def by (metis option.inject)
qed

lemma scanned_wf:
  assumes "contexts_wf l" "scanned cur l m"
  shows "contexts_wf (l\<lparr>ctx_map := m\<rparr>)"
proof -
  have "ctx_id c = i \<and> 0 < i \<and> i < CONTEXT_MAX_CONTEXTS" if "bt_get m i = Some c" for i c
    using scanned_inverse [OF assms(2) that] assms(1) by (auto simp: contexts_wf_def looked_at_def)
  then show ?thesis
    using assms by (auto simp: contexts_wf_def get_context_def scanned_def)
qed

lemma scanned_scan:
  assumes "contexts_wf l" "\<not> p cur"
  shows "scanned cur l (fst (scan p cpu now (ctx_map l)))"
  using assms scan_get [of "ctx_map l" _ _ p cpu now]
  by (fastforce simp: scanned_def contexts_wf_def get_context_def)

lemma scanned_scan_again:
  assumes "scanned cur l m" "\<not> p cur"
  shows "scanned cur l (fst (scan p cpu now m))"
  using assms scan_get [of m _ _ p cpu now]
  by (fastforce simp: scanned_def dest: looked_at_trans)

text \<open>\<open>k\<close> is the first context in visiting order that can run; \<open>m\<close> is the state after the scans.\<close>

definition found :: "usize \<Rightarrow> (usize \<Rightarrow> u64 \<times> u64) \<Rightarrow> usize \<Rightarrow> context_list \<Rightarrow> (usize, ctx) btree_map \<Rightarrow> usize \<Rightarrow> bool" where
  "found cpu now cur l m k \<longleftrightarrow> scanned cur l m \<and> k \<noteq> cur \<and>
     (\<exists>c t. get_context l k = Some c \<and> eligible cpu (now k) c \<and> bt_get m k = Some t \<and>
        cpu_id t = Some cpu \<and> status t = Runnable \<and> \<not> running t) \<and>
     (\<forall>j d. get_context l j = Some d \<longrightarrow> j \<noteq> cur \<longrightarrow> eligible cpu (now j) d \<longrightarrow> k - cur \<le> j - cur)"

lemma chosen_context:
  assumes "eligible cpu now c" "t = fst (pop_signal (fst (check_context cpu now c)))"
  shows "ctx_id t = ctx_id c" "cpu_id t = Some cpu" "status t = Runnable" "\<not> running t"
  using assms check_result [of cpu now c "fst (check_context cpu now c)"]
  by (auto simp: eligible_def prod_eq_iff)

lemma found_scan:
  assumes wf: "contexts_wf l" and m: "bt_wf m" "\<And>i. p i \<Longrightarrow> bt_get m i = get_context l i"
    and s: "scan p cpu now m = (m', Some (t, sig))" and sc: "scanned cur l m'" and np: "\<not> p cur"
    and order: "\<And>k j d. p k \<Longrightarrow> get_context l j = Some d \<Longrightarrow> j \<noteq> cur \<Longrightarrow> eligible cpu (now j) d \<Longrightarrow>
      (p j \<Longrightarrow> k \<le> j) \<Longrightarrow> k - cur \<le> j - cur"
  shows "found cpu now cur l m' (ctx_id t)"
proof -
  from scan_Some [OF m(1) s] obtain k c where k: "bt_get m k = Some c" "p k" "eligible cpu (now k) c"
      "t = fst (pop_signal (fst (check_context cpu (now k) c)))" "bt_get m' k = Some t"
      "\<forall>j d. bt_get m j = Some d \<longrightarrow> p j \<longrightarrow> eligible cpu (now j) d \<longrightarrow> k \<le> j"
    by blast
  have c: "get_context l k = Some c"
    using k(1,2) m(2) by simp
  then have t: "ctx_id t = k"
    using chosen_context [OF k(3,4)] wf by (simp add: contexts_wf_def)
  have "k - cur \<le> j - cur" if "get_context l j = Some d" "j \<noteq> cur" "eligible cpu (now j) d" for j d
    using order [OF k(2) that] k(6) m(2) that by simp
  moreover have "k \<noteq> cur"
    using k(2) np by auto
  ultimately show ?thesis
    using t c k(3,5) chosen_context [OF k(3,4)] sc by (auto simp: found_def)
qed

text \<open>The first scan leaves the contexts below the current one alone.\<close>

lemma scan_above_below:
  assumes "scan (\<lambda>pid. pid > cur) cpu now (ctx_map l) = (m, r)" "i < cur"
  shows "bt_get m i = get_context l i"
proof (cases "get_context l i")
  case None
  then show ?thesis
    using scan_keys [of "\<lambda>pid. pid > cur" cpu now "ctx_map l"] assms(1)
    by (metis bt_get_None_iff fst_conv get_context_def)
next
  case (Some d)
  then show ?thesis
    using scan_get [of "ctx_map l" i d "\<lambda>pid. pid > cur" cpu now] assms
    by (auto simp: get_context_def)
qed

abbreviation handed_over :: "context_list \<Rightarrow> (usize, ctx) btree_map \<Rightarrow> usize \<Rightarrow> usize \<Rightarrow> context_list" where
  "handed_over l m cur k \<equiv>
     l\<lparr>ctx_map := bt_modify k (\<lambda>c. c\<lparr>running := True\<rparr>) (bt_modify cur (\<lambda>c. c\<lparr>running := False\<rparr>) m)\<rparr>"

lemma switch_spec:
  assumes wf: "contexts_wf l" and cur: "get_context l cur = Some f"
  shows "(\<exists>m. switch cpu now cur l = Return (False, cur, None, l\<lparr>ctx_map := m\<rparr>) \<and> scanned cur l m \<and>
      (\<forall>i c. get_context l i = Some c \<longrightarrow> i \<noteq> cur \<longrightarrow> \<not> eligible cpu (now i) c)) \<or>
    (\<exists>m k sig. switch cpu now cur l = Return (True, k, sig, handed_over l m cur k) \<and>
      found cpu now cur l m k)"
proof -
  have f: "ctx_id f = cur" and bt: "bt_wf (ctx_map l)"
    using wf cur by (auto simp: contexts_wf_def)
  obtain m1 r1 where s1: "scan (\<lambda>pid. pid > cur) cpu now (ctx_map l) = (m1, r1)"
    by (cases "scan (\<lambda>pid. pid > cur) cpu now (ctx_map l)")
  have sc1: "scanned cur l m1"
    using scanned_scan [OF wf, of "\<lambda>pid. pid > cur" cur cpu now] s1 by simp
  show ?thesis
  proof (cases r1)
    case (Some ts)
    obtain t sig where ts: "ts = (t, sig)" by (cases ts)
    have "found cpu now cur l m1 (ctx_id t)"
      by (rule found_scan [OF wf bt _ s1 [unfolded Some ts] sc1])
         (auto simp: get_context_def intro: above_first)
    then show ?thesis
      using s1 Some ts cur f by (auto simp: switch_def)
  next
    case None
    obtain m2 r2 where s2: "scan (\<lambda>pid. pid < cur) cpu now m1 = (m2, r2)"
      by (cases "scan (\<lambda>pid. pid < cur) cpu now m1")
    have sc2: "scanned cur l m2"
      using scanned_scan_again [OF sc1, of "\<lambda>pid. pid < cur" cpu now] s2 by simp
    have hi: "\<not> eligible cpu (now i) c" if "get_context l i = Some c" "cur < i" for i c
      using scan_None [OF s1 [unfolded None]] that by (auto simp: get_context_def)
    note lo = scan_above_below [OF s1]
    show ?thesis
    proof (cases r2)
      case None': None
      have "\<not> eligible cpu (now i) c" if "get_context l i = Some c" "i \<noteq> cur" for i c
        using that hi lo scan_None [OF s2 [unfolded None'], of i c] by (metis linorder_cases)
      then show ?thesis
        using s1 None s2 None' sc2 cur f by (intro disjI1 exI [of _ m2]) (auto simp: switch_def)
    next
      case (Some ts)
      obtain t sig where ts: "ts = (t, sig)" by (cases ts)
      have "found cpu now cur l m2 (ctx_id t)"
        by (rule found_scan [OF wf _ lo s2 [unfolded Some ts] sc2])
           (use sc1 hi in \<open>auto simp: scanned_def intro: below_next\<close>)
      then show ?thesis
        using s1 None s2 Some ts cur f by (auto simp: switch_def)
    qed
  qed
qed

lemma handed_over_wf:
  assumes "contexts_wf l" "scanned cur l m"
  shows "contexts_wf (handed_over l m cur k)"
proof -
  have "handed_over l m cur k =
      set_context (set_context (l\<lparr>ctx_map := m\<rparr>) cur (\<lambda>c. c\<lparr>running := False\<rparr>)) k (\<lambda>c. c\<lparr>running := True\<rparr>)"
    by (simp add: set_context_def)
  moreover have "contexts_wf \<dots>"
    by (intro contexts_wf_set scanned_wf [OF assms]) simp_all
  ultimately show ?thesis
    by simp
qed

lemma get_handed_over:
  "get_context (handed_over l m cur k) i =
     map_option (\<lambda>c. if i = k then c\<lparr>running := True\<rparr> else if i = cur then c\<lparr>running := False\<rparr> else c) (bt_get m i)"
  by (cases "bt_get m i") (auto simp: get_context_def)

text \<open>
  What the CPUs rely on between two switches: a running context belongs to a CPU, no two running
  contexts belong to the same one, and the current context of \<open>cpu\<close> is the one that runs there.
\<close>

definition one_running :: "context_list \<Rightarrow> bool" where
  "one_running l \<longleftrightarrow>
     (\<forall>i c. get_context l i = Some c \<longrightarrow> running c \<longrightarrow> cpu_id c \<noteq> None) \<and>
     (\<forall>i c j d. get_context l i = Some c \<longrightarrow> running c \<longrightarrow> get_context l j = Some d \<longrightarrow> running d \<longrightarrow>
        cpu_id c = cpu_id d \<longrightarrow> i = j)"

definition runs_on :: "context_list \<Rightarrow> usize \<Rightarrow> usize \<Rightarrow> bool" where
  "runs_on l cpu i \<longleftrightarrow> (\<exists>c. get_context l i = Some c \<and> running c \<and> cpu_id c = Some cpu)"

lemma looked_at_running: "looked_at d c \<Longrightarrow> running c \<Longrightarrow> cpu_id d \<noteq> None \<Longrightarrow> running d \<and> cpu_id c = cpu_id d"
  by (auto simp: looked_at_def)

text \<open>Looking at contexts neither starts nor stops one, nor moves a running one to another CPU.\<close>

lemma scanned_running:
  assumes "one_running l" "scanned cur l m" "bt_get m i = Some c" "running c"
  shows "\<exists>d. get_context l i = Some d \<and> running d \<and> cpu_id c = cpu_id d"
proof -
  obtain d where d: "get_context l i = Some d" "looked_at d c"
    using scanned_inverse [OF assms(2,3)] by blast
  then have "running d"
    using assms(4) by (simp add: looked_at_def)
  then show ?thesis
    using assms(1,4) d looked_at_running by (metis one_running_def)
qed

lemma scanned_one_running:
  assumes "one_running l" "scanned cur l m"
  shows "one_running (l\<lparr>ctx_map := m\<rparr>)"
  using scanned_running [OF assms] assms(1) unfolding one_running_def
  by (simp add: get_context_def) metis

lemma scanned_runs_on:
  assumes "runs_on l cpu i" "scanned cur l m"
  shows "\<exists>c. bt_get m i = Some c \<and> running c \<and> cpu_id c = Some cpu"
  using assms unfolding runs_on_def scanned_def looked_at_def by (metis option.distinct(1))

lemma handed_over_one_running:
  assumes one: "one_running l" and cur: "runs_on l cpu cur" and sc: "scanned cur l m"
    and t: "bt_get m k = Some t" "cpu_id t = Some cpu" and "k \<noteq> cur"
  shows "one_running (handed_over l m cur k)"
proof -
  let ?h = "handed_over l m cur k"
  have old: "\<exists>d. get_context l i = Some d \<and> running d \<and> cpu_id d = cpu_id c \<and> cpu_id c \<noteq> None \<and> cpu_id c \<noteq> Some cpu"
    if r: "get_context ?h i = Some c" "running c" "i \<noteq> k" for i c
  proof -
    have i: "i \<noteq> cur"
      using that by (auto simp: get_handed_over)
    then have i2: "bt_get m i = Some c"
      using that by (auto simp: get_handed_over)
    obtain d where d: "get_context l i = Some d" "running d" "cpu_id c = cpu_id d"
      using scanned_running [OF one sc i2 r(2)] by blast
    show ?thesis
      using d i one cur unfolding one_running_def runs_on_def by metis
  qed
  have new: "cpu_id c = Some cpu" if "get_context ?h k = Some c" for c
    using that t by (auto simp: get_handed_over)
  have "i = j" if c: "get_context ?h i = Some c" "running c" and d: "get_context ?h j = Some d" "running d"
    and eq: "cpu_id c = cpu_id d" for i c j d
  proof (cases "i = k \<or> j = k")
    case True
    then show ?thesis
      using old [OF c] old [OF d] new c d eq by metis
  next
    case False
    then show ?thesis
      using old [OF c] old [OF d] one eq unfolding one_running_def by metis
  qed
  moreover have "cpu_id c \<noteq> None" if "get_context ?h i = Some c" "running c" for i c
    using old [OF that] new that by (cases "i = k") auto
  ultimately show ?thesis
    unfolding one_running_def by blast
qed

section \<open>Properties\<close>

text \<open>
  C18. Round robin: on a well-formed context list with a current context, \<open>switch\<close> always returns
  (it does not panic). It finds a context exactly when some other context can run on this CPU, and
  then it picks the nearest one after the current context in cyclic identifier order, so that no
  context that can run is passed over; the context it hands the CPU to is runnable and running.
\<close>

theorem switch_round_robin:
  assumes "contexts_wf l" and "get_context l cur = Some f"
  shows "\<exists>b cur' sig l'. switch cpu now cur l = Return (b, cur', sig, l') \<and> contexts_wf l' \<and>
    (b \<longleftrightarrow> (\<exists>i c. get_context l i = Some c \<and> i \<noteq> cur \<and> eligible cpu (now i) c)) \<and>
    (if b then (\<exists>c t. get_context l cur' = Some c \<and> cur' \<noteq> cur \<and> eligible cpu (now cur') c \<and>
        get_context l' cur' = Some t \<and> status t = Runnable \<and> running t \<and> cpu_id t = Some cpu) \<and>
        (\<forall>j d. get_context l j = Some d \<longrightarrow> j \<noteq> cur \<longrightarrow> eligible cpu (now j) d \<longrightarrow> cur' - cur \<le> j - cur)
     else cur' = cur)"
proof -
  from switch_spec [OF assms, of cpu now] show ?thesis
  proof (elim disjE exE conjE)
    fix m
    assume "switch cpu now cur l = Return (False, cur, None, l\<lparr>ctx_map := m\<rparr>)" "scanned cur l m"
      "\<forall>i c. get_context l i = Some c \<longrightarrow> i \<noteq> cur \<longrightarrow> \<not> eligible cpu (now i) c"
    then show ?thesis
      using scanned_wf [OF assms(1)] by auto
  next
    fix m k sig
    assume sw: "switch cpu now cur l = Return (True, k, sig, handed_over l m cur k)"
      and fd: "found cpu now cur l m k"
    have wf': "contexts_wf (handed_over l m cur k)"
      using fd handed_over_wf [OF assms(1)] by (simp add: found_def)
    obtain c t where c: "get_context l k = Some c" "eligible cpu (now k) c"
      and t: "bt_get m k = Some t" "cpu_id t = Some cpu" "status t = Runnable" and "k \<noteq> cur"
      using fd by (auto simp: found_def)
    then have "get_context (handed_over l m cur k) k = Some (t\<lparr>running := True\<rparr>)"
      by (simp add: get_context_def)
    then show ?thesis
      using sw wf' c t(2,3) \<open>k \<noteq> cur\<close> fd unfolding found_def
      by (intro exI [of _ True] exI [of _ k] exI [of _ sig] exI [of _ "handed_over l m cur k"]) auto
  qed
qed

text \<open>Two contexts of CPU 0: 1 runs, 2 is blocked with a pending signal.\<close>

definition two_contexts :: context_list where
  "two_contexts =
     \<lparr>ctx_map = [(1, (new_ctx 0 1)\<lparr>status := Runnable, running := True, cpu_id := Some 0\<rparr>),
                 (2, (new_ctx 1 2)\<lparr>pending := [15]\<rparr>)], ctx_next_id = 3\<rparr>"

lemma two_contexts_ok:
  "contexts_wf two_contexts" "one_running two_contexts" "runs_on two_contexts 0 1"
  "get_context two_contexts 1 = Some ((new_ctx 0 1)\<lparr>status := Runnable, running := True, cpu_id := Some 0\<rparr>)"
  using usize_max_pred
  by (auto simp: contexts_wf_def two_contexts_def get_context_def bt_wf_def CONTEXT_MAX_CONTEXTS_def
      new_ctx_def word_less_nat_alt unat_usize_max one_running_def runs_on_def split: if_splits)

theorem switch_round_robin_witness:
  "\<exists>l' t. switch 0 (\<lambda>_. (0, 0)) 1 two_contexts = Return (True, 2, Some 15, l') \<and> contexts_wf l' \<and>
     get_context l' 2 = Some t \<and> running t"
proof -
  have "\<exists>l'. switch 0 (\<lambda>_. (0, 0)) 1 two_contexts = Return (True, 2, Some 15, l')"
    by (simp add: switch_def two_contexts_def get_context_def new_ctx_def check_context_def
        unblock_def pop_signal_def)
  then show ?thesis
    using switch_round_robin [OF two_contexts_ok(1,4), of 0 "\<lambda>_. (0, 0)"] by fastforce
qed

text \<open>
  C11. Switching keeps the CPUs apart: if every running context belongs to a CPU and no two running
  contexts belong to the same one, and the current context runs on the switching CPU, then after
  \<open>switch\<close> the same holds of the new current context, and a context that runs on another CPU still
  runs there.
\<close>

theorem switch_keeps_cpus_apart:
  assumes "contexts_wf l" "one_running l" "runs_on l cpu cur"
    and "switch cpu now cur l = Return (b, cur', sig, l')"
  shows "contexts_wf l' \<and> one_running l' \<and> runs_on l' cpu cur' \<and>
    (\<forall>other i. other \<noteq> cpu \<longrightarrow> runs_on l other i \<longrightarrow> runs_on l' other i)"
proof -
  obtain f where cur: "get_context l cur = Some f"
    using assms(3) by (auto simp: runs_on_def)
  from switch_spec [OF assms(1) cur, of cpu now] show ?thesis
  proof (elim disjE exE conjE)
    fix m
    assume "switch cpu now cur l = Return (False, cur, None, l\<lparr>ctx_map := m\<rparr>)" and sc: "scanned cur l m"
    then have eq: "cur' = cur" "l' = l\<lparr>ctx_map := m\<rparr>"
      using assms(4) by auto
    have "runs_on l' c i" if "runs_on l c i" for c i
      using scanned_runs_on [OF that sc] by (simp add: runs_on_def eq get_context_def)
    then show ?thesis
      using assms(1-3) scanned_one_running [OF assms(2) sc] scanned_wf [OF assms(1) sc] eq by simp
  next
    fix m k sg
    assume "switch cpu now cur l = Return (True, k, sg, handed_over l m cur k)" and fd: "found cpu now cur l m k"
    then have eq: "cur' = k" "l' = handed_over l m cur k"
      using assms(4) by auto
    obtain t where sc: "scanned cur l m" and t: "bt_get m k = Some t" "cpu_id t = Some cpu" "k \<noteq> cur"
      using fd by (auto simp: found_def)
    have "runs_on l' other i" if other: "other \<noteq> cpu" "runs_on l other i" for other i
    proof -
      have "i \<noteq> cur"
        using other assms(3) by (auto simp: runs_on_def)
      obtain c where c: "bt_get m i = Some c" "running c" "cpu_id c = Some other"
        using scanned_runs_on [OF other(2) sc] by blast
      then have "i \<noteq> k"
        using t other(1) by auto
      then show ?thesis
        using c \<open>i \<noteq> cur\<close> by (simp add: runs_on_def eq get_handed_over)
    qed
    moreover have "runs_on l' cpu cur'"
      using t by (auto simp: runs_on_def eq get_handed_over)
    ultimately show ?thesis
      using handed_over_one_running [OF assms(2,3) sc t] handed_over_wf [OF assms(1) sc] eq by simp
  qed
qed

theorem switch_keeps_cpus_apart_witness:
  "\<exists>l'. switch 0 (\<lambda>_. (0, 0)) 1 two_contexts = Return (True, 2, Some 15, l') \<and> one_running l' \<and> runs_on l' 0 2"
proof -
  have "\<exists>l'. switch 0 (\<lambda>_. (0, 0)) 1 two_contexts = Return (True, 2, Some 15, l')"
    by (simp add: switch_def two_contexts_def get_context_def new_ctx_def check_context_def
        unblock_def pop_signal_def)
  then show ?thesis
    using switch_keeps_cpus_apart [OF two_contexts_ok(1-3)] by blast
qed

end
