(* ===== verification/Wait_Queues.thy ===== *)
theory Wait_Queues
  imports Scheduler
begin

text \<open>
  Sleeping and waking (\<open>kernel/sync\<close>): \<open>WaitCondition\<close>, the queue \<open>WaitQueue\<close> and the map \<open>WaitMap\<close>.
  A condition holds the identifiers of the contexts that sleep on it. A call that has to sleep is
  modelled up to the call of \<open>context::switch\<close>: its result is \<open>Waits\<close>, and the turn is taken again
  when the context is next scheduled. Turns are atomic: contexts run on one CPU (\<open>switch\<close> only gives
  contexts to CPU 0) and the kernel is not interrupted inside a system call.
\<close>

section \<open>WaitCondition\<close>

type_synonym wait_condition = "usize list"

definition new_condition :: wait_condition where
  "new_condition = []"

text \<open>\<open>while let Some(context_lock) = contexts.pop() { context_lock.write().unblock(); }\<close>\<close>

fun wake_all :: "usize list \<Rightarrow> context_list \<Rightarrow> context_list" where
  "wake_all [] l = l"
| "wake_all (i # is) l = wake_all is (set_context l i (\<lambda>c. fst (unblock c)))"

definition notify :: "wait_condition \<Rightarrow> context_list \<Rightarrow> usize \<times> wait_condition \<times> context_list" where
  "notify cond l = (of_nat (length cond), [], wake_all (rev cond) l)"

definition wait :: "usize \<Rightarrow> wait_condition \<Rightarrow> context_list \<Rightarrow> (wait_condition \<times> context_list) outcome" where
  "wait cur cond l =
     (case get_context l cur of
        None \<Rightarrow> Panic
      | Some _ \<Rightarrow> Return (cond @ [cur], set_context l cur (\<lambda>c. fst (block c))))"

definition drop_condition :: "wait_condition \<Rightarrow> context_list \<Rightarrow> context_list" where
  "drop_condition cond l = snd (snd (notify cond l))"

section \<open>WaitQueue\<close>

record 'a wait_queue =
  q_inner :: "'a list"
  q_condition :: wait_condition

definition new_queue :: "'a wait_queue" where
  "new_queue = \<lparr>q_inner = [], q_condition = new_condition\<rparr>"

definition clone_queue :: "'a wait_queue \<Rightarrow> 'a wait_queue" where
  "clone_queue q = \<lparr>q_inner = q_inner q, q_condition = new_condition\<rparr>"

definition queue_is_empty :: "'a wait_queue \<Rightarrow> bool" where
  "queue_is_empty q \<longleftrightarrow> q_inner q = []"

text \<open>Going to sleep on the condition of a queue.\<close>

definition sleep_on_queue :: "usize \<Rightarrow> 'a wait_queue \<Rightarrow> context_list \<Rightarrow> 'b attempt \<times> 'a wait_queue \<times> context_list" where
  "sleep_on_queue cur q l =
     (case wait cur (q_condition q) l of
        Panic \<Rightarrow> (Crashes, q, l)
      | Return (cond, l') \<Rightarrow> (Waits, q\<lparr>q_condition := cond\<rparr>, l'))"

definition receive :: "usize \<Rightarrow> 'a wait_queue \<Rightarrow> context_list \<Rightarrow> 'a attempt \<times> 'a wait_queue \<times> context_list" where
  "receive cur q l =
     (case q_inner q of
        v # vs \<Rightarrow> (Returned v, q\<lparr>q_inner := vs\<rparr>, l)
      | [] \<Rightarrow> sleep_on_queue cur q l)"

text \<open>The loop that fills a buffer from the front of the queue: buffer, count, rest of the queue.\<close>

fun pop_into :: "'a list \<Rightarrow> 'a list \<Rightarrow> 'a list \<times> nat \<times> 'a list" where
  "pop_into [] vs = ([], 0, vs)"
| "pop_into (b # bs) [] = (b # bs, 0, [])"
| "pop_into (b # bs) (v # vs) = (let (r, n, vs') = pop_into bs vs in (v # r, Suc n, vs'))"

definition receive_into :: "usize \<Rightarrow> 'a list \<Rightarrow> bool \<Rightarrow> 'a wait_queue \<Rightarrow> context_list \<Rightarrow>
    ('a list \<times> usize) attempt \<times> 'a wait_queue \<times> context_list" where
  "receive_into cur buf blk q l =
     (if buf \<noteq> [] \<and> blk then
        case receive cur q l of
          (Returned v, q1, l1) \<Rightarrow>
            let (r, n, vs) = pop_into (tl buf) (q_inner q1)
            in (Returned (v # r, of_nat (Suc n)), q1\<lparr>q_inner := vs\<rparr>, l1)
        | (Waits, q1, l1) \<Rightarrow> (Waits, q1, l1)
        | (Crashes, q1, l1) \<Rightarrow> (Crashes, q1, l1)
      else
        let (r, n, vs) = pop_into buf (q_inner q)
        in (Returned (r, of_nat n), q\<lparr>q_inner := vs\<rparr>, l))"

definition send :: "'a \<Rightarrow> 'a wait_queue \<Rightarrow> context_list \<Rightarrow> usize \<times> 'a wait_queue \<times> context_list" where
  "send v q l =
     (let inner = q_inner q @ [v];
          (_, cond, l') = notify (q_condition q) l
      in (of_nat (length inner), \<lparr>q_inner = inner, q_condition = cond\<rparr>, l'))"

definition send_from :: "'a list \<Rightarrow> 'a wait_queue \<Rightarrow> context_list \<Rightarrow> usize \<times> 'a wait_queue \<times> context_list" where
  "send_from buf q l =
     (let inner = q_inner q @ buf;
          (_, cond, l') = notify (q_condition q) l
      in (of_nat (length inner), \<lparr>q_inner = inner, q_condition = cond\<rparr>, l'))"

section \<open>WaitMap\<close>

record ('k, 'v) wait_map =
  m_inner :: "('k, 'v) btree_map"
  m_condition :: wait_condition

definition new_wait_map :: "('k, 'v) wait_map" where
  "new_wait_map = \<lparr>m_inner = bt_empty, m_condition = new_condition\<rparr>"

definition sleep_on_map ::
    "usize \<Rightarrow> ('k, 'v) wait_map \<Rightarrow> context_list \<Rightarrow> 'b attempt \<times> ('k, 'v) wait_map \<times> context_list" where
  "sleep_on_map cur w l =
     (case wait cur (m_condition w) l of
        Panic \<Rightarrow> (Crashes, w, l)
      | Return (cond, l') \<Rightarrow> (Waits, w\<lparr>m_condition := cond\<rparr>, l'))"

definition receive_nonblock :: "'k \<Rightarrow> ('k, 'v) wait_map \<Rightarrow> 'v option \<times> ('k, 'v) wait_map" where
  "receive_nonblock k w = (bt_get (m_inner w) k, w\<lparr>m_inner := bt_remove k (m_inner w)\<rparr>)"

definition map_receive ::
    "usize \<Rightarrow> 'k \<Rightarrow> ('k, 'v) wait_map \<Rightarrow> context_list \<Rightarrow> 'v attempt \<times> ('k, 'v) wait_map \<times> context_list" where
  "map_receive cur k w l =
     (case receive_nonblock k w of
        (Some v, w') \<Rightarrow> (Returned v, w', l)
      | (None, w') \<Rightarrow> sleep_on_map cur w' l)"

definition receive_any_nonblock :: "('k, 'v) wait_map \<Rightarrow> ('k \<times> 'v) option \<times> ('k, 'v) wait_map" where
  "receive_any_nonblock w =
     (case bt_keys (m_inner w) of
        [] \<Rightarrow> (None, w)
      | k # _ \<Rightarrow> (map_option (\<lambda>v. (k, v)) (bt_get (m_inner w) k), w\<lparr>m_inner := bt_remove k (m_inner w)\<rparr>))"

definition receive_any ::
    "usize \<Rightarrow> ('k, 'v) wait_map \<Rightarrow> context_list \<Rightarrow> ('k \<times> 'v) attempt \<times> ('k, 'v) wait_map \<times> context_list" where
  "receive_any cur w l =
     (case receive_any_nonblock w of
        (Some kv, w') \<Rightarrow> (Returned kv, w', l)
      | (None, w') \<Rightarrow> sleep_on_map cur w' l)"

definition receive_all :: "('k, 'v) wait_map \<Rightarrow> ('k, 'v) btree_map \<times> ('k, 'v) wait_map" where
  "receive_all w = (m_inner w, w\<lparr>m_inner := bt_empty\<rparr>)"

definition map_send ::
    "'k::linorder \<Rightarrow> 'v \<Rightarrow> ('k, 'v) wait_map \<Rightarrow> context_list \<Rightarrow> ('k, 'v) wait_map \<times> context_list" where
  "map_send k v w l =
     (let (_, cond, l') = notify (m_condition w) l
      in (\<lparr>m_inner = bt_insert k v (m_inner w), m_condition = cond\<rparr>, l'))"

section \<open>Lemmas\<close>

lemma unblock_idem [simp]: "fst (unblock (fst (unblock c))) = fst (unblock c)"
  by (simp add: unblock_def)

lemma get_wake_all:
  "get_context (wake_all is l) i =
     (if i \<in> set is then map_option (\<lambda>c. fst (unblock c)) (get_context l i) else get_context l i)"
  by (induction "is" arbitrary: l) (auto simp: option.map_comp comp_def)

lemma contexts_wf_wake_all [inv_intros]: "contexts_wf l \<Longrightarrow> contexts_wf (wake_all is l)"
  by (induction "is" arbitrary: l) (simp_all add: contexts_wf_set)

lemma pop_into_eq:
  "pop_into buf vs = (let n = min (length buf) (length vs) in (take n vs @ drop n buf, n, drop n vs))"
  by (induction buf vs rule: pop_into.induct) (auto simp: Let_def)

text \<open>What a turn of \<open>receive_into\<close> takes from the queue.\<close>

lemma receive_into_Returned:
  assumes "receive_into cur buf blk q l = (Returned (buf', n), q', l')"
  shows "\<exists>k \<le> length buf. n = of_nat k \<and> length buf' = length buf \<and> take k buf' @ q_inner q' = q_inner q \<and>
    drop k buf' = drop k buf \<and> k = min (length buf) (length (q_inner q)) \<and>
    q_condition q' = q_condition q \<and> l' = l"
proof (cases "buf \<noteq> [] \<and> blk")
  case True
  then obtain v vs where v: "q_inner q = v # vs"
    using assms by (cases "q_inner q")
      (auto simp: receive_into_def receive_def sleep_on_queue_def split: outcome.splits)
  define k where "k = min (length (tl buf)) (length vs)"
  have "buf' = v # take k vs @ drop k (tl buf)" "n = of_nat (Suc k)"
    "q' = q\<lparr>q_inner := drop k vs\<rparr>" "l' = l"
    using assms True v by (auto simp: receive_into_def receive_def pop_into_eq Let_def k_def)
  then show ?thesis
    using True v by (intro exI [of _ "Suc k"]) (cases buf; auto simp: k_def)
next
  case False
  define k where "k = min (length buf) (length (q_inner q))"
  have "buf' = take k (q_inner q) @ drop k buf" "n = of_nat k"
    "q' = q\<lparr>q_inner := drop k (q_inner q)\<rparr>" "l' = l"
    using assms False by (auto simp: receive_into_def pop_into_eq Let_def k_def)
  then show ?thesis
    by (intro exI [of _ k]) (auto simp: k_def)
qed

text \<open>A turn that sleeps found the queue empty.\<close>

lemma sleep_on_queue_Waits:
  "sleep_on_queue cur q l = (Waits, q', l') \<longleftrightarrow>
   get_context l cur \<noteq> None \<and> q' = q\<lparr>q_condition := q_condition q @ [cur]\<rparr> \<and>
   l' = set_context l cur (\<lambda>c. fst (block c))"
  by (auto simp: sleep_on_queue_def wait_def split: option.splits)

lemma receive_into_Waits:
  assumes "receive_into cur buf blk q l = (Waits, q', l')"
  shows "q_inner q = [] \<and> sleep_on_queue cur q l = (Waits :: 'a attempt, q' :: 'a wait_queue, l')"
  using assms
  by (auto simp: receive_into_def receive_def Let_def split: if_splits list.splits attempt.splits prod.splits)

section \<open>A queue and its users\<close>

text \<open>
  The steps that contexts take on one queue, with what was sent and received so far. A context that
  calls \<open>receive_into\<close> is runnable.
\<close>

record 'a queue_state =
  qs_queue :: "'a wait_queue"
  qs_contexts :: context_list
  qs_sent :: "'a list"
  qs_received :: "'a list"

definition runnable :: "context_list \<Rightarrow> usize \<Rightarrow> bool" where
  "runnable l i \<longleftrightarrow> (\<exists>c. get_context l i = Some c \<and> status c = Runnable)"

inductive queue_step :: "'a queue_state \<Rightarrow> 'a queue_state \<Rightarrow> bool" where
  step_send: "send v (qs_queue s) (qs_contexts s) = (n, q, l) \<Longrightarrow>
    queue_step s (s\<lparr>qs_queue := q, qs_contexts := l, qs_sent := qs_sent s @ [v]\<rparr>)"
| step_send_from: "send_from buf (qs_queue s) (qs_contexts s) = (n, q, l) \<Longrightarrow>
    queue_step s (s\<lparr>qs_queue := q, qs_contexts := l, qs_sent := qs_sent s @ buf\<rparr>)"
| step_receive: "runnable (qs_contexts s) cur \<Longrightarrow>
    receive_into cur buf blk (qs_queue s) (qs_contexts s) = (Returned (buf', n), q, l) \<Longrightarrow>
    length buf < 2 ^ 64 \<Longrightarrow>
    queue_step s (s\<lparr>qs_queue := q, qs_contexts := l, qs_received := qs_received s @ take (unat n) buf'\<rparr>)"
| step_sleep: "runnable (qs_contexts s) cur \<Longrightarrow>
    receive_into cur buf blk (qs_queue s) (qs_contexts s) = (Waits, q, l) \<Longrightarrow>
    queue_step s (s\<lparr>qs_queue := q, qs_contexts := l\<rparr>)"

inductive_cases queue_stepE: "queue_step s s'"

definition queue_start :: "context_list \<Rightarrow> 'a queue_state" where
  "queue_start l = \<lparr>qs_queue = new_queue, qs_contexts = l, qs_sent = [], qs_received = []\<rparr>"

definition queue_inv :: "'a queue_state \<Rightarrow> bool" where
  "queue_inv s \<longleftrightarrow> qs_received s @ q_inner (qs_queue s) = qs_sent s \<and>
     (q_inner (qs_queue s) \<noteq> [] \<longrightarrow> q_condition (qs_queue s) = []) \<and>
     (\<forall>i\<in>set (q_condition (qs_queue s)). \<exists>c. get_context (qs_contexts s) i = Some c \<and> status c = Blocked)"

lemma queue_inv_start: "queue_inv (queue_start l)"
  by (simp add: queue_inv_def queue_start_def new_queue_def new_condition_def)

lemma queue_inv_step:
  assumes "queue_step s s'" "queue_inv s"
  shows "queue_inv s'"
  using assms(1)
proof cases
  case (step_receive cur buf blk buf' n q l)
  obtain k where "k \<le> length buf" "n = of_nat k" "take k buf' @ q_inner q = q_inner (qs_queue s)"
      "q_condition q = q_condition (qs_queue s)" "l = qs_contexts s"
    using receive_into_Returned [OF step_receive(3)] by blast
  moreover from this have "unat n = k"
    using step_receive(4) by simp
  ultimately show ?thesis
    using assms(2) step_receive(1) by (auto simp: queue_inv_def)
next
  case (step_sleep cur buf blk q l)
  note w = receive_into_Waits [OF step_sleep(3)]
  have q: "q = (qs_queue s)\<lparr>q_condition := q_condition (qs_queue s) @ [cur]\<rparr>"
    and l: "l = set_context (qs_contexts s) cur (\<lambda>c. fst (block c))"
    using w by (simp_all add: sleep_on_queue_Waits)
  show ?thesis
    using assms(2) step_sleep(1,2) w by (auto simp: queue_inv_def q l runnable_def block_def)
qed (use assms(2) in \<open>auto simp: queue_inv_def send_def send_from_def notify_def Let_def\<close>)

lemma queue_inv_reachable: "queue_step\<^sup>*\<^sup>* s s' \<Longrightarrow> queue_inv s \<Longrightarrow> queue_inv s'"
  by (induction rule: rtranclp_induct) (auto intro: queue_inv_step)

section \<open>Properties\<close>

text \<open>
  C19. Queues are FIFO and lose no wake-up: in every state that contexts reach from a fresh queue by
  \<open>send\<close>, \<open>send_from\<close> and turns of \<open>receive_into\<close>, the values received, in order, followed by the
  queue's contents are the values sent, in order; no context sleeps on a queue that holds a value;
  every context that sleeps on it is blocked; and the next \<open>send\<close> makes each of them runnable.
\<close>

theorem queue_fifo_no_lost_wakeup:
  assumes "queue_step\<^sup>*\<^sup>* (queue_start l) s"
  shows "qs_received s @ q_inner (qs_queue s) = qs_sent s \<and>
    (q_inner (qs_queue s) \<noteq> [] \<longrightarrow> q_condition (qs_queue s) = []) \<and>
    (\<forall>i\<in>set (q_condition (qs_queue s)). \<exists>c. get_context (qs_contexts s) i = Some c \<and> status c = Blocked) \<and>
    (\<forall>v n q' l' i. send v (qs_queue s) (qs_contexts s) = (n, q', l') \<longrightarrow> i \<in> set (q_condition (qs_queue s)) \<longrightarrow>
       runnable l' i \<and> q_condition q' = [])"
proof -
  have inv: "queue_inv s"
    using queue_inv_reachable [OF assms queue_inv_start] .
  have "runnable (wake_all (rev (q_condition (qs_queue s))) (qs_contexts s)) i"
    if i: "i \<in> set (q_condition (qs_queue s))" for i
  proof -
    obtain c where "get_context (qs_contexts s) i = Some c" "status c = Blocked"
      using inv i unfolding queue_inv_def by blast
    then show ?thesis
      using i by (simp add: runnable_def get_wake_all unblock_def)
  qed
  then show ?thesis
    using inv by (auto simp: queue_inv_def send_def notify_def Let_def)
qed

definition one_runnable :: context_list where
  "one_runnable = \<lparr>ctx_map = [(1, (new_ctx 0 1)\<lparr>status := Runnable\<rparr>)], ctx_next_id = 2\<rparr>"

theorem queue_fifo_no_lost_wakeup_witness:
  "\<exists>s :: nat queue_state. queue_step\<^sup>*\<^sup>* (queue_start one_runnable) s \<and>
     q_condition (qs_queue s) = [1] \<and> qs_received s @ q_inner (qs_queue s) = qs_sent s"
proof -
  let ?s = "queue_start one_runnable :: nat queue_state"
  let ?t = "?s\<lparr>qs_queue := \<lparr>q_inner = [], q_condition = [1]\<rparr>,
              qs_contexts := set_context one_runnable 1 (\<lambda>c. fst (block c))\<rparr>"
  have "queue_step ?s ?t"
    by (rule step_sleep [where cur = 1 and buf = "[0]" and blk = True])
       (simp_all add: queue_start_def one_runnable_def runnable_def get_context_def receive_into_def
         receive_def new_queue_def new_condition_def sleep_on_queue_def wait_def)
  then have r: "queue_step\<^sup>*\<^sup>* ?s ?t"
    by blast
  then show ?thesis
    using queue_fifo_no_lost_wakeup [OF r] by (intro exI [of _ ?t]) simp
qed

text \<open>
  \<open>WaitMap::receive_any\<close> on a map with entries returns the one with the smallest key and removes
  exactly it; on an empty map it blocks the caller, which the next \<open>send\<close> makes runnable, and the
  value sent is then what the caller receives.
\<close>

theorem receive_any_smallest:
  assumes "bt_wf (m_inner w)" "runnable l cur"
  shows "(\<forall>k v w' l'. receive_any cur w l = (Returned (k, v), w', l') \<longrightarrow>
      bt_get (m_inner w) k = Some v \<and> (\<forall>j. bt_get (m_inner w) j \<noteq> None \<longrightarrow> k \<le> j) \<and> l' = l \<and>
      (\<forall>j. bt_get (m_inner w') j = (if j = k then None else bt_get (m_inner w) j))) \<and>
    (m_inner w \<noteq> [] \<longrightarrow> (\<exists>k v w'. receive_any cur w l = (Returned (k, v), w', l))) \<and>
    (m_inner w = [] \<longrightarrow> (\<exists>w' l'. receive_any cur w l = (Waits, w', l') \<and> \<not> runnable l' cur \<and>
      (\<forall>k v w2 l2. map_send k v w' l' = (w2, l2) \<longrightarrow> runnable l2 cur \<and>
         (\<exists>w3. receive_any cur w2 l2 = (Returned (k, v), w3, l2) \<and> m_inner w3 = []))))"
proof (cases "m_inner w")
  case Nil
  obtain c where "get_context l cur = Some c" "status c = Runnable"
    using assms(2) by (auto simp: runnable_def)
  then show ?thesis
    using Nil
    by (auto simp: receive_any_def receive_any_nonblock_def sleep_on_map_def wait_def runnable_def
        block_def map_send_def notify_def get_wake_all unblock_def)
next
  case (Cons e es)
  have eq: "receive_any cur w l = (Returned (fst e, snd e), w\<lparr>m_inner := es\<rparr>, l)"
    using Cons by (simp add: receive_any_def receive_any_nonblock_def)
  have "fst e \<le> j" if "bt_get es j = Some y" for j y
    using that assms(1) Cons bt_get_None_iff [of es j] by (auto simp: bt_wf_Cons less_imp_le)
  moreover have "bt_get es (fst e) = None"
    using Cons assms(1) by (auto simp: bt_wf_Cons bt_get_None_iff)
  ultimately show ?thesis
    using Cons eq by auto
qed

theorem receive_any_smallest_witness:
  "\<exists>w'. receive_any 1 \<lparr>m_inner = [(3, 30), (5, 50)], m_condition = []\<rparr> one_runnable =
     (Returned (3 :: nat, 30 :: nat), w', one_runnable) \<and> bt_get (m_inner w') 3 = None"
proof -
  let ?w = "\<lparr>m_inner = [(3, 30), (5, 50)], m_condition = []\<rparr> :: (nat, nat) wait_map"
  have wf: "bt_wf (m_inner ?w)" and r: "runnable one_runnable 1"
    by (simp_all add: bt_wf_def runnable_def one_runnable_def get_context_def)
  have "\<exists>w'. receive_any 1 ?w one_runnable = (Returned (3, 30), w', one_runnable)"
    by (simp add: receive_any_def receive_any_nonblock_def)
  then show ?thesis
    using receive_any_smallest [OF wf r] by auto
qed

end
