(* ===== verification/Pipes.thy ===== *)
theory Pipes
  imports Scheme_Trait Wait_Queues
begin

text \<open>
  Pipes (\<open>kernel/scheme/pipe.rs\<close>). The byte queue and the condition of a pipe are shared by its ends: by
  the read ends through \<open>Arc\<close>, by the write ends through \<open>Weak\<close> (the queue) and \<open>Arc\<close> (the condition).
  Here both live in stores indexed by the pipe. The number of weak references to a queue is the number of
  open write ends; the queue can be upgraded as long as a read end is open or a reader sleeps, because
  a sleeping reader keeps a clone of its read end. \<open>p_held\<close> records these clones.
\<close>

section \<open>Data\<close>

record pipe_end =
  pe_flags :: usize
  pe_pipe :: ref

record pipes =
  p_reads :: "(usize, pipe_end) btree_map"
  p_writes :: "(usize, pipe_end) btree_map"
  p_next_id :: usize
  p_data :: "ref \<Rightarrow> bytes"
  p_condition :: "ref \<Rightarrow> wait_condition"
  p_next_ref :: ref
  p_held :: "(usize, pipe_end) btree_map"
  p_contexts :: context_list
  p_current :: usize

definition new_pipes :: "context_list \<Rightarrow> usize \<Rightarrow> pipes" where
  "new_pipes l cur =
     \<lparr>p_reads = bt_empty, p_writes = bt_empty, p_next_id = 0, p_data = (\<lambda>_. []), p_condition = (\<lambda>_. new_condition),
      p_next_ref = 0, p_held = bt_empty, p_contexts = l, p_current = cur\<rparr>"

definition ends_of :: "ref \<Rightarrow> (usize, pipe_end) btree_map \<Rightarrow> nat" where
  "ends_of r m = length (filter (\<lambda>e. pe_pipe (snd e) = r) m)"

text \<open>\<open>Arc::weak_count\<close> of the queue, and whether a \<open>Weak\<close> to it can be upgraded.\<close>

definition weak_count :: "pipes \<Rightarrow> ref \<Rightarrow> nat" where
  "weak_count s r = ends_of r (p_writes s)"

definition upgradable :: "pipes \<Rightarrow> ref \<Rightarrow> bool" where
  "upgradable s r \<longleftrightarrow> ends_of r (p_reads s) > 0 \<or> ends_of r (p_held s) > 0"

section \<open>Operations\<close>

definition pipe :: "usize \<Rightarrow> pipes \<Rightarrow> (usize \<times> usize) \<times> pipes" where
  "pipe flags s =
     (let read_id = p_next_id s; write_id = p_next_id s + 1; r = p_next_ref s
      in ((read_id, write_id),
          s\<lparr>p_next_id := p_next_id s + 1 + 1, p_next_ref := Suc r,
            p_data := (p_data s)(r := []), p_condition := (p_condition s)(r := new_condition),
            p_reads := bt_insert read_id \<lparr>pe_flags = flags, pe_pipe = r\<rparr> (p_reads s),
            p_writes := bt_insert write_id \<lparr>pe_flags = flags, pe_pipe = r\<rparr> (p_writes s)\<rparr>))"

text \<open>\<open>PipeRead::dup\<close> and \<open>PipeWrite::dup\<close>\<close>

definition end_dup :: "bytes \<Rightarrow> pipe_end \<Rightarrow> pipe_end result" where
  "end_dup buf e =
     (if buf = bytes_of ''exec'' \<and> has_flag (pe_flags e) O_CLOEXEC then Err (Error EBADF)
      else Ok (if buf = [] then e\<lparr>pe_flags := pe_flags e AND NOT O_CLOEXEC\<rparr> else e))"

definition pipe_dup :: "usize \<Rightarrow> bytes \<Rightarrow> (usize result, pipes) op" where
  "pipe_dup i buf s =
     (case bt_get (p_reads s) i of
        Some e \<Rightarrow>
          (case end_dup buf e of
             Err er \<Rightarrow> (Returned (Err er), s)
           | Ok e' \<Rightarrow> (Returned (Ok (p_next_id s)),
               s\<lparr>p_next_id := p_next_id s + 1, p_reads := bt_insert (p_next_id s) e' (p_reads s)\<rparr>))
      | None \<Rightarrow>
          (case bt_get (p_writes s) i of
             Some e \<Rightarrow>
               (case end_dup buf e of
                  Err er \<Rightarrow> (Returned (Err er), s)
                | Ok e' \<Rightarrow> (Returned (Ok (p_next_id s)),
                    s\<lparr>p_next_id := p_next_id s + 1, p_writes := bt_insert (p_next_id s) e' (p_writes s)\<rparr>))
           | None \<Rightarrow> (Returned (Err (Error EBADF)), s)))"

text \<open>
  One turn of the loop of \<open>PipeRead::read\<close>, by the current context on its clone of the read end. A reader
  that goes to sleep holds the clone; one that returns drops it.
\<close>

definition read_turn :: "pipe_end \<Rightarrow> bytes \<Rightarrow> (usize result \<times> bytes, pipes) op" where
  "read_turn e buf s =
     (let r = pe_pipe e; (buf', n, rest) = pop_into buf (p_data s r);
          s1 = s\<lparr>p_data := (p_data s)(r := rest)\<rparr>;
          done = s1\<lparr>p_held := bt_remove (p_current s) (p_held s)\<rparr>
      in if n > 0 then (Returned (Ok (of_nat n), buf'), done)
         else if weak_count s1 r = 0 then (Returned (Ok 0, buf'), done)
         else if has_flag (pe_flags e) O_NONBLOCK then (Returned (Err (Error EAGAIN), buf'), done)
         else (case wait (p_current s) (p_condition s1 r) (p_contexts s1) of
                 Panic \<Rightarrow> (Crashes, s1)
               | Return (cond, l) \<Rightarrow>
                   (Waits, s1\<lparr>p_condition := (p_condition s1)(r := cond), p_contexts := l,
                             p_held := bt_insert (p_current s) e (p_held s)\<rparr>)))"

text \<open>\<open>PipeScheme::read\<close>; a context that wakes up goes on with the clone it holds.\<close>

definition pipe_read :: "usize \<Rightarrow> bytes \<Rightarrow> (usize result \<times> bytes, pipes) op" where
  "pipe_read i buf s =
     (case bt_get (p_held s) (p_current s) of
        Some e \<Rightarrow> read_turn e buf s
      | None \<Rightarrow>
          (case bt_get (p_reads s) i of
             None \<Rightarrow> (Returned (Err (Error EBADF), buf), s)
           | Some e \<Rightarrow> read_turn e buf s))"

text \<open>\<open>self.condition.notify()\<close>\<close>

definition notify_pipe :: "ref \<Rightarrow> pipes \<Rightarrow> pipes" where
  "notify_pipe r s =
     (let (_, cond, l) = notify (p_condition s r) (p_contexts s)
      in s\<lparr>p_condition := (p_condition s)(r := cond), p_contexts := l\<rparr>)"

definition pipe_write :: "usize \<Rightarrow> bytes \<Rightarrow> (usize result, pipes) op" where
  "pipe_write i buf s =
     (case bt_get (p_writes s) i of
        None \<Rightarrow> (Returned (Err (Error EBADF)), s)
      | Some e \<Rightarrow>
          (let r = pe_pipe e
           in if upgradable s r
              then (Returned (Ok (of_nat (length buf))), notify_pipe r (s\<lparr>p_data := (p_data s)(r := p_data s r @ buf)\<rparr>))
              else (Returned (Err (Error EPIPE)), s)))"

definition end_fcntl :: "usize \<Rightarrow> usize \<Rightarrow> pipe_end \<Rightarrow> usize result \<times> pipe_end" where
  "end_fcntl cmd arg e =
     (if cmd = F_GETFL then (Ok (pe_flags e), e)
      else if cmd = F_SETFL then (Ok 0, e\<lparr>pe_flags := arg AND NOT O_ACCMODE\<rparr>)
      else (Err (Error EINVAL), e))"

definition pipe_fcntl :: "usize \<Rightarrow> usize \<Rightarrow> usize \<Rightarrow> (usize result, pipes) op" where
  "pipe_fcntl i cmd arg s =
     (case bt_get (p_reads s) i of
        Some e \<Rightarrow> (let (r, e') = end_fcntl cmd arg e in (Returned r, s\<lparr>p_reads := bt_modify i (\<lambda>_. e') (p_reads s)\<rparr>))
      | None \<Rightarrow>
          (case bt_get (p_writes s) i of
             Some e \<Rightarrow> (let (r, e') = end_fcntl cmd arg e in (Returned r, s\<lparr>p_writes := bt_modify i (\<lambda>_. e') (p_writes s)\<rparr>))
           | None \<Rightarrow> (Returned (Err (Error EBADF)), s)))"

definition pipe_fsync :: "usize \<Rightarrow> (usize result, pipes) op" where
  "pipe_fsync i = returns (Ok 0)"

text \<open>Dropping a write end notifies the condition (\<open>impl Drop for PipeWrite\<close>).\<close>

definition pipe_close :: "usize \<Rightarrow> (usize result, pipes) op" where
  "pipe_close i s =
     (let s1 = s\<lparr>p_reads := bt_remove i (p_reads s)\<rparr>;
          s2 = (case bt_get (p_writes s1) i of
                  None \<Rightarrow> s1
                | Some e \<Rightarrow> notify_pipe (pe_pipe e) (s1\<lparr>p_writes := bt_remove i (p_writes s1)\<rparr>))
      in (Returned (Ok 0), s2))"

definition pipe_ops :: "pipes scheme_ops" where
  "pipe_ops = default_ops
     \<lparr>op_dup := pipe_dup, op_read := pipe_read, op_write := pipe_write, op_fcntl := pipe_fcntl,
      op_fsync := pipe_fsync, op_close := pipe_close\<rparr>"

section \<open>Lemmas\<close>

lemma read_turn_length: "read_turn e buf s = (Returned (r, buf'), s') \<Longrightarrow> length buf' = length buf"
  by (auto simp: read_turn_def pop_into_eq Let_def split: if_splits outcome.splits)

interpretation pipe_scheme: scheme pipe_ops
  by unfold_locales
     (auto simp: pipe_ops_def default_ops_def returns_def pipe_read_def dest: read_turn_length split: option.splits)

lemma notify_pipe_simps [simp]:
  "p_reads (notify_pipe r s) = p_reads s" "p_writes (notify_pipe r s) = p_writes s"
  "p_data (notify_pipe r s) = p_data s" "p_held (notify_pipe r s) = p_held s"
  "p_next_ref (notify_pipe r s) = p_next_ref s" "p_next_id (notify_pipe r s) = p_next_id s"
  "p_condition (notify_pipe r s) = (p_condition s)(r := [])"
  "p_contexts (notify_pipe r s) = wake_all (rev (p_condition s r)) (p_contexts s)"
  "p_current (notify_pipe r s) = p_current s"
  by (simp_all add: notify_pipe_def notify_def)

lemma ends_of_0: "bt_wf m \<Longrightarrow> ends_of r m = 0 \<longleftrightarrow> (\<forall>k e. bt_get m k = Some e \<longrightarrow> pe_pipe e \<noteq> r)"
  by (simp add: ends_of_def filter_empty_conv bt_get_mem) force

section \<open>Invariant\<close>

text \<open>
  No context sleeps on a pipe that holds bytes or that has no write end; the ends refer to pipes that
  exist, and identifiers have not wrapped around.
\<close>

definition quiet :: "pipes \<Rightarrow> bool" where
  "quiet s \<longleftrightarrow> (\<forall>r. p_data s r \<noteq> [] \<or> weak_count s r = 0 \<longrightarrow> p_condition s r = [])"

definition ends_bound :: "(usize, pipe_end) btree_map \<Rightarrow> ref \<Rightarrow> usize \<Rightarrow> bool" where
  "ends_bound m R N \<longleftrightarrow> bt_wf m \<and> (\<forall>k e. bt_get m k = Some e \<longrightarrow> pe_pipe e < R \<and> k < N)"

definition ends_ok :: "pipes \<Rightarrow> bool" where
  "ends_ok s \<longleftrightarrow> ends_bound (p_reads s) (p_next_ref s) (p_next_id s) \<and>
     ends_bound (p_writes s) (p_next_ref s) (p_next_id s)"

definition pipes_wf :: "pipes \<Rightarrow> bool" where
  "pipes_wf s \<longleftrightarrow> quiet s \<and> ends_ok s"

lemma pipes_wf_new: "pipes_wf (new_pipes l cur)"
  by (simp add: pipes_wf_def quiet_def ends_ok_def ends_bound_def new_pipes_def new_condition_def)

lemma ends_bound_mono: "ends_bound m R N \<Longrightarrow> R \<le> R' \<Longrightarrow> N \<le> N' \<Longrightarrow> ends_bound m R' N'"
  unfolding ends_bound_def by (meson order.strict_trans2)

lemma ends_bound_insert:
  assumes "ends_bound m R N" "pe_pipe e < R'" "R \<le> R'" "k < N'" "N \<le> N'"
  shows "ends_bound (bt_insert k e m) R' N'"
  using ends_bound_mono [OF assms(1,3,5)] assms(2,4) by (auto simp: ends_bound_def split: if_splits)

lemma ends_bound_remove: "ends_bound m R N \<Longrightarrow> ends_bound (bt_remove k m) R N"
  by (auto simp: ends_bound_def split: if_splits)

lemma ends_bound_modify: "ends_bound m R N \<Longrightarrow> pe_pipe e < R \<Longrightarrow> ends_bound (bt_modify k (\<lambda>_. e) m) R N"
  by (auto simp: ends_bound_def split: if_splits)

text \<open>Adding an end under a fresh identifier keeps all others.\<close>

lemma ends_of_insert:
  assumes "ends_bound m R N" "N \<le> k" "ends_of r (bt_insert k e m) = 0"
  shows "ends_of r m = 0"
proof -
  have wf: "bt_wf m" and k: "bt_get m k = None"
    using assms(1,2) by (auto simp: ends_bound_def) (metis leD not_None_eq)
  show ?thesis
    using assms(3) wf k unfolding ends_of_0 [OF wf] ends_of_0 [OF bt_wf_insert [OF wf]] bt_get_insert
    by (metis option.distinct(1))
qed

lemma next_id_steps:
  assumes "unat n < 2 ^ 64 - 2"
  shows "n < n + (1 :: usize)" "n + 1 < n + 1 + 1" "n < n + 1 + 1"
proof -
  have "unat (n + 1) = unat n + 1" "unat (n + 1 + 1) = unat n + 2"
    using assms by (simp_all add: unat_word_ariths)
  then show "n < n + (1 :: usize)" "n + 1 < n + 1 + 1" "n < n + 1 + 1"
    by (simp_all add: word_less_nat_alt)
qed

definition id_room :: "pipes \<Rightarrow> bool" where
  "id_room s \<longleftrightarrow> unat (p_next_id s) < 2 ^ 64 - 2"

lemma pipes_wf_pipe [inv_intros]:
  assumes wf: "pipes_wf s" and room: "id_room s"
  shows "pipes_wf (snd (pipe flags s))"
proof -
  note steps = next_id_steps [OF room [unfolded id_room_def]]
  define e where "e = \<lparr>pe_flags = flags, pe_pipe = p_next_ref s\<rparr>"
  have b: "ends_bound (p_reads s) (p_next_ref s) (p_next_id s)" "ends_bound (p_writes s) (p_next_ref s) (p_next_id s)"
    using wf by (simp_all add: pipes_wf_def ends_ok_def)
  have "ends_bound (bt_insert (p_next_id s) e (p_reads s)) (Suc (p_next_ref s)) (p_next_id s + 1 + 1)"
    "ends_bound (bt_insert (p_next_id s + 1) e (p_writes s)) (Suc (p_next_ref s)) (p_next_id s + 1 + 1)"
    using steps b by (auto intro!: ends_bound_insert simp: e_def less_imp_le)
  then have "ends_ok (snd (pipe flags s))"
    by (simp add: pipe_def Let_def ends_ok_def e_def)
  moreover have "quiet (snd (pipe flags s))"
    using wf ends_of_insert [OF b(2), of "p_next_id s + 1" _ e] steps(1)
    by (auto simp: pipe_def Let_def quiet_def pipes_wf_def weak_count_def e_def new_condition_def less_imp_le)
  ultimately show ?thesis
    by (simp add: pipes_wf_def)
qed

lemma end_dup_pipe: "end_dup buf e = Ok e' \<Longrightarrow> pe_pipe e' = pe_pipe e"
  by (auto simp: end_dup_def split: if_splits)

lemma pipe_dup_cases:
  assumes "pipe_dup i buf s = (x, s')"
  obtains "s' = s"
    | e0 e where "bt_get (p_reads s) i = Some e0" "pe_pipe e = pe_pipe e0"
        "s' = s\<lparr>p_next_id := p_next_id s + 1, p_reads := bt_insert (p_next_id s) e (p_reads s)\<rparr>"
    | e0 e where "bt_get (p_writes s) i = Some e0" "pe_pipe e = pe_pipe e0"
        "s' = s\<lparr>p_next_id := p_next_id s + 1, p_writes := bt_insert (p_next_id s) e (p_writes s)\<rparr>"
proof (cases "bt_get (p_reads s) i")
  case (Some e0)
  show thesis
  proof (cases "end_dup buf e0")
    case (Ok e)
    show thesis
      by (rule that(2) [of e0 e]) (use Some Ok assms in \<open>simp_all add: pipe_dup_def end_dup_pipe\<close>)
  next
    case (Err e)
    show thesis
      by (rule that(1)) (use Some Err assms in \<open>simp add: pipe_dup_def\<close>)
  qed
next
  case None
  note reads = this
  show thesis
  proof (cases "bt_get (p_writes s) i")
    case (Some e0)
    show thesis
    proof (cases "end_dup buf e0")
      case (Ok e)
      show thesis
        by (rule that(3) [of e0 e]) (use reads Some Ok assms in \<open>simp_all add: pipe_dup_def end_dup_pipe\<close>)
    next
      case (Err e)
      show thesis
        by (rule that(1)) (use reads Some Err assms in \<open>simp add: pipe_dup_def\<close>)
    qed
  next
    case None
    show thesis
      by (rule that(1)) (use reads None assms in \<open>simp add: pipe_dup_def\<close>)
  qed
qed

lemma pipes_wf_dup [inv_intros]:
  assumes wf: "pipes_wf s" and room: "id_room s" and d: "pipe_dup i buf s = (x, s')"
  shows "pipes_wf s' \<and> p_data s' = p_data s"
proof -
  note step = less_imp_le [OF next_id_steps(1) [OF room [unfolded id_room_def]]]
  have b: "ends_bound (p_reads s) (p_next_ref s) (p_next_id s)" "ends_bound (p_writes s) (p_next_ref s) (p_next_id s)"
    using wf by (simp_all add: pipes_wf_def ends_ok_def)
  have new: "ends_bound (bt_insert (p_next_id s) e m) (p_next_ref s) (p_next_id s + 1)"
    if "ends_bound m (p_next_ref s) (p_next_id s)" "pe_pipe e < p_next_ref s" for e m
    using that next_id_steps(1) [OF room [unfolded id_room_def]] by (intro ends_bound_insert) auto
  from d show ?thesis
  proof (cases rule: pipe_dup_cases)
    case 1
    then show ?thesis using wf by simp
  next
    case (2 e0 e)
    then have "pe_pipe e < p_next_ref s"
      using b(1) by (simp add: ends_bound_def)
    then show ?thesis
      using 2 wf new [OF b(1)] ends_bound_mono [OF b(2) order.refl step]
      by (simp add: pipes_wf_def ends_ok_def quiet_def weak_count_def)
  next
    case (3 e0 e)
    then have "pe_pipe e < p_next_ref s"
      using b(2) by (simp add: ends_bound_def)
    then show ?thesis
      using 3 wf new [OF b(2)] ends_bound_mono [OF b(1) order.refl step] ends_of_insert [OF b(2) order.refl]
      by (auto simp: pipes_wf_def ends_ok_def quiet_def weak_count_def)
  qed
qed

text \<open>A turn of a read with a buffer: it takes bytes from the front, or the pipe was empty.\<close>

lemma read_turn_nonempty:
  assumes "p_data s (pe_pipe e) \<noteq> []" "buf \<noteq> []"
  shows "read_turn e buf s =
    (let n = min (length buf) (length (p_data s (pe_pipe e)))
     in (Returned (Ok (of_nat n), take n (p_data s (pe_pipe e)) @ drop n buf),
         s\<lparr>p_data := (p_data s)(pe_pipe e := drop n (p_data s (pe_pipe e))),
           p_held := bt_remove (p_current s) (p_held s)\<rparr>))"
  using assms by (simp add: read_turn_def pop_into_eq Let_def)

lemma read_turn_empty:
  assumes "p_data s (pe_pipe e) = []"
  shows "read_turn e buf s =
    (let done = s\<lparr>p_held := bt_remove (p_current s) (p_held s)\<rparr>
     in if weak_count s (pe_pipe e) = 0 then (Returned (Ok 0, buf), done)
        else if has_flag (pe_flags e) O_NONBLOCK then (Returned (Err (Error EAGAIN), buf), done)
        else (case wait (p_current s) (p_condition s (pe_pipe e)) (p_contexts s) of
                Panic \<Rightarrow> (Crashes, s)
              | Return (cond, l) \<Rightarrow>
                  (Waits, s\<lparr>p_condition := (p_condition s)(pe_pipe e := cond), p_contexts := l,
                            p_held := bt_insert (p_current s) e (p_held s)\<rparr>)))"
proof -
  have "s\<lparr>p_data := (p_data s)(pe_pipe e := [])\<rparr> = s"
    using assms by (simp add: fun_upd_idem)
  moreover have "pop_into buf (p_data s (pe_pipe e)) = (buf, 0, [])"
    using assms by (cases buf) simp_all
  ultimately show ?thesis
    by (auto simp: read_turn_def Let_def split: outcome.splits)
qed

lemma pipes_wf_read_turn:
  assumes "pipes_wf s" "buf \<noteq> []" "read_turn e buf s = (x, s')"
  shows "pipes_wf s'"
proof (cases "p_data s (pe_pipe e)")
  case Nil
  show ?thesis
    using assms unfolding read_turn_empty [OF Nil] Let_def
    by (auto simp: pipes_wf_def quiet_def ends_ok_def weak_count_def Nil split: if_splits outcome.splits)
next
  case (Cons b bs)
  then have ne: "p_data s (pe_pipe e) \<noteq> []"
    by simp
  then have "p_condition s (pe_pipe e) = []"
    using assms(1) by (simp add: pipes_wf_def quiet_def)
  then show ?thesis
    using assms unfolding read_turn_nonempty [OF ne assms(2)] Let_def
    by (auto simp: pipes_wf_def quiet_def ends_ok_def weak_count_def split: if_splits)
qed

lemma read_turn_data:
  assumes "read_turn e buf s = (x, s')" "buf \<noteq> []" "length buf < 2 ^ 64"
  shows "(case x of
      Returned (Ok n, buf') \<Rightarrow> take (unat n) buf' @ p_data s' (pe_pipe e) = p_data s (pe_pipe e) \<and>
        (n = 0 \<longleftrightarrow> p_data s (pe_pipe e) = [])
    | _ \<Rightarrow> p_data s' (pe_pipe e) = p_data s (pe_pipe e)) \<and>
    (\<forall>r. r \<noteq> pe_pipe e \<longrightarrow> p_data s' r = p_data s r)"
proof (cases "p_data s (pe_pipe e)")
  case Nil
  show ?thesis
    using assms(1) unfolding read_turn_empty [OF Nil] Let_def
    by (auto simp: Nil split: if_splits outcome.splits)
next
  case (Cons b bs)
  then have ne: "p_data s (pe_pipe e) \<noteq> []"
    by simp
  define n where "n = min (length buf) (length (p_data s (pe_pipe e)))"
  have "n < 2 ^ 64" "n \<noteq> 0"
    using assms(2,3) ne by (auto simp: n_def)
  then have n: "unat (of_nat n :: usize) = n" "(of_nat n :: usize) \<noteq> 0"
    by (auto dest: arg_cong [where f = unat])
  show ?thesis
    using assms(1) n ne unfolding read_turn_nonempty [OF ne assms(2)] Let_def n_def [symmetric]
    by (auto simp: n_def)
qed

lemma notify_quiet: "quiet s \<Longrightarrow> quiet (notify_pipe r s)"
  by (simp add: quiet_def weak_count_def)

lemma notify_ends_ok [simp]: "ends_ok (notify_pipe r s) = ends_ok s"
  by (simp add: ends_ok_def)

lemma pipes_wf_write [inv_intros]:
  assumes "pipes_wf s" "pipe_write i buf s = (x, s')"
  shows "pipes_wf s'"
  using assms
  by (auto simp: pipe_write_def Let_def pipes_wf_def quiet_def weak_count_def split: option.splits if_splits)
     (simp_all add: ends_ok_def)

lemma ends_of_modify:
  "bt_wf m \<Longrightarrow> bt_get m i = Some e \<Longrightarrow> pe_pipe e' = pe_pipe e \<Longrightarrow> ends_of r (bt_modify i (\<lambda>_. e') m) = ends_of r m"
  by (induction m) (auto simp: ends_of_def bt_wf_Cons)

lemma end_fcntl_pipe: "end_fcntl cmd arg e = (x, e') \<Longrightarrow> pe_pipe e' = pe_pipe e"
  by (auto simp: end_fcntl_def split: if_splits)

lemma pipes_wf_fcntl [inv_intros]:
  assumes "pipes_wf s" "pipe_fcntl i cmd arg s = (x, s')"
  shows "pipes_wf s' \<and> p_data s' = p_data s"
proof -
  have b: "ends_bound (p_reads s) (p_next_ref s) (p_next_id s)" "ends_bound (p_writes s) (p_next_ref s) (p_next_id s)"
    using assms(1) by (simp_all add: pipes_wf_def ends_ok_def)
  have mod: "ends_bound (bt_modify i (\<lambda>_. e') m) (p_next_ref s) (p_next_id s) \<and> ends_of r (bt_modify i (\<lambda>_. e') m) = ends_of r m"
    if "ends_bound m (p_next_ref s) (p_next_id s)" "bt_get m i = Some e" "end_fcntl cmd arg e = (y, e')" for m e e' y r
    using that end_fcntl_pipe [OF that(3)] by (auto simp: ends_bound_def ends_of_modify split: if_splits)
  show ?thesis
    using assms b mod
    by (auto simp: pipe_fcntl_def Let_def pipes_wf_def ends_ok_def quiet_def weak_count_def split: option.splits prod.splits)
qed

lemma pipes_wf_close [inv_intros]:
  assumes "pipes_wf s" "pipe_close i s = (x, s')"
  shows "pipes_wf s' \<and> p_data s' = p_data s"
proof -
  have b: "ends_bound (bt_remove i (p_reads s)) (p_next_ref s) (p_next_id s)" "ends_bound (bt_remove i (p_writes s)) (p_next_ref s) (p_next_id s)"
    using assms(1) by (simp_all add: pipes_wf_def ends_ok_def ends_bound_remove)
  show ?thesis
  proof (cases "bt_get (p_writes s) i")
    case None
    then show ?thesis
      using assms b by (auto simp: pipe_close_def pipes_wf_def ends_ok_def quiet_def weak_count_def)
  next
    case (Some e)
    have wf: "bt_wf (p_writes s)"
      using assms(1) by (simp add: pipes_wf_def ends_ok_def ends_bound_def)
    have gone: "ends_of r (p_writes s) = 0" if "ends_of r (bt_remove i (p_writes s)) = 0" "r \<noteq> pe_pipe e" for r
      using that wf Some unfolding ends_of_0 [OF wf] ends_of_0 [OF bt_wf_remove [OF wf]]
      by (metis bt_get_remove option.inject)
    then have "quiet (snd (pipe_close i s))"
      using assms(1) Some by (auto simp: pipe_close_def pipes_wf_def quiet_def weak_count_def)
    then show ?thesis
      using assms b Some by (auto simp: pipe_close_def pipes_wf_def ends_ok_def)
  qed
qed

section \<open>A system of pipes and their users\<close>

text \<open>
  The steps that contexts take on the pipes, with the bytes that went into and came out of every pipe so
  far. Reads have a buffer: a read into an empty slice is looked at separately below.
\<close>

record pipe_history =
  ph_pipes :: pipes
  ph_sent :: "ref \<Rightarrow> bytes"
  ph_received :: "ref \<Rightarrow> bytes"

definition reader_end :: "pipes \<Rightarrow> usize \<Rightarrow> pipe_end option" where
  "reader_end s i = (case bt_get (p_held s) (p_current s) of Some e \<Rightarrow> Some e | None \<Rightarrow> bt_get (p_reads s) i)"

inductive pipe_step :: "pipe_history \<Rightarrow> pipe_history \<Rightarrow> bool" where
  ps_switch: "pipe_step h (h\<lparr>ph_pipes := (ph_pipes h)\<lparr>p_current := cur\<rparr>\<rparr>)"
| ps_pipe: "id_room (ph_pipes h) \<Longrightarrow> pipe flags (ph_pipes h) = (ids, s) \<Longrightarrow>
    pipe_step h (h\<lparr>ph_pipes := s, ph_sent := (ph_sent h)(p_next_ref (ph_pipes h) := []),
      ph_received := (ph_received h)(p_next_ref (ph_pipes h) := [])\<rparr>)"
| ps_dup: "id_room (ph_pipes h) \<Longrightarrow> pipe_dup i buf (ph_pipes h) = (x, s) \<Longrightarrow> pipe_step h (h\<lparr>ph_pipes := s\<rparr>)"
| ps_read: "buf \<noteq> [] \<Longrightarrow> length buf < 2 ^ 64 \<Longrightarrow> reader_end (ph_pipes h) i = Some e \<Longrightarrow>
    pipe_read i buf (ph_pipes h) = (Returned (Ok n, buf'), s) \<Longrightarrow>
    pipe_step h (h\<lparr>ph_pipes := s,
      ph_received := (ph_received h)(pe_pipe e := ph_received h (pe_pipe e) @ take (unat n) buf')\<rparr>)"
| ps_sleep: "buf \<noteq> [] \<Longrightarrow> length buf < 2 ^ 64 \<Longrightarrow> pipe_read i buf (ph_pipes h) = (Waits, s) \<Longrightarrow> pipe_step h (h\<lparr>ph_pipes := s\<rparr>)"
| ps_read_error: "buf \<noteq> [] \<Longrightarrow> length buf < 2 ^ 64 \<Longrightarrow> pipe_read i buf (ph_pipes h) = (Returned (Err er, buf'), s) \<Longrightarrow>
    pipe_step h (h\<lparr>ph_pipes := s\<rparr>)"
| ps_write: "bt_get (p_writes (ph_pipes h)) i = Some e \<Longrightarrow> pipe_write i buf (ph_pipes h) = (Returned (Ok n), s) \<Longrightarrow>
    pipe_step h (h\<lparr>ph_pipes := s, ph_sent := (ph_sent h)(pe_pipe e := ph_sent h (pe_pipe e) @ buf)\<rparr>)"
| ps_write_error: "pipe_write i buf (ph_pipes h) = (Returned (Err er), s) \<Longrightarrow> pipe_step h (h\<lparr>ph_pipes := s\<rparr>)"
| ps_fcntl: "pipe_fcntl i cmd arg (ph_pipes h) = (x, s) \<Longrightarrow> pipe_step h (h\<lparr>ph_pipes := s\<rparr>)"
| ps_close: "pipe_close i (ph_pipes h) = (x, s) \<Longrightarrow> pipe_step h (h\<lparr>ph_pipes := s\<rparr>)"

definition pipe_start :: "context_list \<Rightarrow> usize \<Rightarrow> pipe_history" where
  "pipe_start l cur = \<lparr>ph_pipes = new_pipes l cur, ph_sent = (\<lambda>_. []), ph_received = (\<lambda>_. [])\<rparr>"

definition history_ok :: "pipe_history \<Rightarrow> bool" where
  "history_ok h \<longleftrightarrow> pipes_wf (ph_pipes h) \<and> (\<forall>r. ph_received h r @ p_data (ph_pipes h) r = ph_sent h r)"

lemma pipe_read_turn:
  "pipe_read i buf s =
     (case reader_end s i of None \<Rightarrow> (Returned (Err (Error EBADF), buf), s) | Some e \<Rightarrow> read_turn e buf s)"
  by (auto simp: pipe_read_def reader_end_def split: option.splits)

lemma pipe_read_other:
  assumes "pipe_read i buf s = (x, s')" "buf \<noteq> []" "length buf < 2 ^ 64" "pipes_wf s"
    and "x = Waits \<or> x = Returned (Err er, buf')"
  shows "pipes_wf s' \<and> p_data s' = p_data s"
proof (cases "reader_end s i")
  case None
  then show ?thesis
    using assms by (simp add: pipe_read_turn)
next
  case (Some e)
  then have rt: "read_turn e buf s = (x, s')"
    using assms(1) by (simp add: pipe_read_turn)
  then have "p_data s' r = p_data s r" for r
    using read_turn_data [OF rt assms(2,3)] assms(5) by (cases "r = pe_pipe e") auto
  then show ?thesis
    using pipes_wf_read_turn [OF assms(4,2) rt] by auto
qed

lemma pipe_write_data:
  assumes "pipe_write i buf s = (Returned x, s')"
  shows "(case x of
      Ok n \<Rightarrow> \<exists>e. bt_get (p_writes s) i = Some e \<and> p_data s' = (p_data s)(pe_pipe e := p_data s (pe_pipe e) @ buf)
    | Err er \<Rightarrow> p_data s' = p_data s)"
  using assms by (auto simp: pipe_write_def Let_def split: option.splits if_splits)

lemma history_ok_step:
  assumes "pipe_step h h'" "history_ok h"
  shows "history_ok h'"
proof -
  have wf: "pipes_wf (ph_pipes h)" and eq: "\<And>r. ph_received h r @ p_data (ph_pipes h) r = ph_sent h r"
    using assms(2) by (auto simp: history_ok_def)
  show ?thesis
    using assms(1)
  proof cases
    case (ps_switch cur)
    then show ?thesis
      using wf eq by (simp add: history_ok_def pipes_wf_def quiet_def ends_ok_def weak_count_def)
  next
    case (ps_pipe flags ids s)
    then have "pipes_wf s"
      using pipes_wf_pipe [OF wf ps_pipe(2), of flags] by simp
    moreover have "p_data s = (p_data (ph_pipes h))(p_next_ref (ph_pipes h) := [])"
      using ps_pipe(3) by (auto simp: pipe_def Let_def)
    ultimately show ?thesis
      using ps_pipe(1) eq by (simp add: history_ok_def)
  next
    case (ps_dup i buf x s)
    then show ?thesis
      using pipes_wf_dup [OF wf ps_dup(2,3)] eq by (simp add: history_ok_def)
  next
    case (ps_read buf i e n buf' s)
    then have rt: "read_turn e buf (ph_pipes h) = (Returned (Ok n, buf'), s)"
      by (simp add: pipe_read_turn)
    show ?thesis
      using ps_read(1) eq read_turn_data [OF rt ps_read(2,3)] pipes_wf_read_turn [OF wf ps_read(2) rt]
      by (simp add: history_ok_def)
  next
    case (ps_write i e buf n s)
    then have "p_data s = (p_data (ph_pipes h))(pe_pipe e := p_data (ph_pipes h) (pe_pipe e) @ buf)"
      using pipe_write_data [OF ps_write(3)] by simp
    then show ?thesis
      using ps_write eq pipes_wf_write [OF wf ps_write(3)]
      by (auto simp: history_ok_def)
  qed (use eq pipe_read_other [OF _ _ _ wf] pipes_wf_write [OF wf] pipe_write_data pipes_wf_fcntl [OF wf]
        pipes_wf_close [OF wf] in \<open>fastforce simp: history_ok_def\<close>)+
qed

lemma history_ok_reachable: "pipe_step\<^sup>*\<^sup>* h h' \<Longrightarrow> history_ok h \<Longrightarrow> history_ok h'"
  by (induction rule: rtranclp_induct) (auto intro: history_ok_step)

section \<open>Properties\<close>

text \<open>
  C10. Pipes carry byte streams: in every state that contexts reach from no pipes by creating pipes,
  duplicating, reading with a buffer, writing, setting flags and closing, in any interleaving, the bytes
  read from a pipe so far followed by those it holds are exactly the bytes written to it, in order; and
  no context sleeps on a pipe that holds bytes or whose write ends are all closed.
\<close>

theorem pipe_stream:
  assumes "pipe_step\<^sup>*\<^sup>* (pipe_start l cur) h"
  shows "ph_received h r @ p_data (ph_pipes h) r = ph_sent h r \<and>
    (p_data (ph_pipes h) r \<noteq> [] \<or> weak_count (ph_pipes h) r = 0 \<longrightarrow> p_condition (ph_pipes h) r = [])"
proof -
  have "history_ok (pipe_start l cur)"
    by (simp add: history_ok_def pipe_start_def pipes_wf_new new_pipes_def [of l cur, THEN arg_cong [where f = p_data]])
  then have "history_ok h"
    using history_ok_reachable [OF assms] by blast
  then show ?thesis
    by (auto simp: history_ok_def pipes_wf_def quiet_def)
qed

theorem pipe_stream_witness:
  "\<exists>h. pipe_step\<^sup>*\<^sup>* (pipe_start one_runnable 1) h \<and> ph_sent h 0 = [7, 8] \<and>
     ph_received h 0 @ p_data (ph_pipes h) 0 = ph_sent h 0"
proof -
  let ?h = "pipe_start one_runnable 1"
  let ?s = "snd (pipe 0 (ph_pipes ?h))"
  let ?h1 = "?h\<lparr>ph_pipes := ?s, ph_sent := (ph_sent ?h)(0 := []), ph_received := (ph_received ?h)(0 := [])\<rparr>"
  have "id_room (ph_pipes ?h)" "p_next_ref (ph_pipes ?h) = 0"
    by (simp_all add: pipe_start_def new_pipes_def id_room_def)
  then have 1: "pipe_step ?h ?h1"
    using ps_pipe [of ?h 0 "fst (pipe 0 (ph_pipes ?h))" ?s] by (simp add: pipe_def Let_def)
  have w: "bt_get (p_writes ?s) 1 = Some \<lparr>pe_flags = 0, pe_pipe = 0\<rparr>" "upgradable ?s 0"
    by (simp_all add: pipe_start_def new_pipes_def pipe_def Let_def upgradable_def ends_of_def bt_empty_def)
  then have "pipe_write 1 [7, 8] ?s = (Returned (Ok 2), notify_pipe 0 (?s\<lparr>p_data := (p_data ?s)(0 := p_data ?s 0 @ [7, 8])\<rparr>))"
    by (simp add: pipe_write_def)
  then have 2: "pipe_step ?h1 (?h1\<lparr>ph_pipes := notify_pipe 0 (?s\<lparr>p_data := (p_data ?s)(0 := p_data ?s 0 @ [7, 8])\<rparr>),
      ph_sent := (ph_sent ?h1)(0 := [7, 8])\<rparr>)" (is "pipe_step _ ?h2")
    using ps_write [of ?h1 1 "\<lparr>pe_flags = 0, pe_pipe = 0\<rparr>" "[7, 8]"] w by simp
  have r: "pipe_step\<^sup>*\<^sup>* ?h ?h2"
    by (rule converse_rtranclp_into_rtranclp [OF 1 r_into_rtranclp [where r = pipe_step, OF 2]])
  have "ph_sent ?h2 0 = [7, 8]"
    by simp
  then show ?thesis
    using r pipe_stream [OF r, of 0] by blast
qed

text \<open>
  The ends of a pipe see each other go: a read with a buffer from an empty pipe returns end of file
  exactly if no write end is open, \<open>EAGAIN\<close> if one is and the read end is non-blocking, and otherwise
  puts the reader to sleep; a read from a pipe that holds bytes returns between one byte and the
  buffer's length; a write fails with \<open>EPIPE\<close> exactly if no read end is open and no reader sleeps, and
  otherwise makes every sleeping reader runnable.
\<close>

theorem pipe_ends:
  assumes "reader_end s i = Some e" "buf \<noteq> []" "length buf < 2 ^ 64" "bt_get (p_writes s) j = Some w"
    and "get_context (p_contexts s) (p_current s) \<noteq> None"
  shows "(if p_data s (pe_pipe e) \<noteq> [] then
       \<exists>n buf' s'. pipe_read i buf s = (Returned (Ok n, buf'), s') \<and> 0 < n \<and> unat n \<le> length buf
     else if weak_count s (pe_pipe e) = 0 then \<exists>s'. pipe_read i buf s = (Returned (Ok 0, buf), s')
     else if has_flag (pe_flags e) O_NONBLOCK then \<exists>s'. pipe_read i buf s = (Returned (Err (Error EAGAIN), buf), s')
     else \<exists>s'. pipe_read i buf s = (Waits, s') \<and> p_current s \<in> set (p_condition s' (pe_pipe e))) \<and>
    (if upgradable s (pe_pipe w) then
       \<exists>s'. pipe_write j data s = (Returned (Ok (of_nat (length data))), s') \<and>
         (\<forall>c. c \<in> set (p_condition s (pe_pipe w)) \<longrightarrow> (\<exists>x. get_context (p_contexts s) c = Some x \<and> status x = Blocked) \<longrightarrow>
            runnable (p_contexts s') c)
     else pipe_write j data s = (Returned (Err (Error EPIPE)), s))"
proof -
  have read: "pipe_read i buf s = read_turn e buf s"
    using assms(1) by (simp add: pipe_read_turn)
  have nonempty: "\<exists>n buf' s'. pipe_read i buf s = (Returned (Ok n, buf'), s') \<and> 0 < n \<and> unat n \<le> length buf"
    if ne: "p_data s (pe_pipe e) \<noteq> []"
  proof -
    define n where "n = min (length buf) (length (p_data s (pe_pipe e)))"
    have "n < 2 ^ 64" "n \<noteq> 0" "n \<le> length buf"
      using assms(2,3) ne by (auto simp: n_def)
    then have "unat (of_nat n :: usize) = n" "(of_nat n :: usize) \<noteq> 0"
      by (auto dest: arg_cong [where f = unat])
    then show ?thesis
      unfolding read read_turn_nonempty [OF ne assms(2)] Let_def n_def [symmetric]
      using \<open>n \<le> length buf\<close> by (simp add: word_gt_0)
  qed
  have "runnable (wake_all (rev (p_condition s r)) (p_contexts s)) c"
    if "c \<in> set (p_condition s r)" "get_context (p_contexts s) c = Some x" "status x = Blocked" for c r x
    using that by (simp add: runnable_def get_wake_all unblock_def)
  then have wr: "if upgradable s (pe_pipe w) then
       \<exists>s'. pipe_write j data s = (Returned (Ok (of_nat (length data))), s') \<and>
         (\<forall>c. c \<in> set (p_condition s (pe_pipe w)) \<longrightarrow> (\<exists>x. get_context (p_contexts s) c = Some x \<and> status x = Blocked) \<longrightarrow>
            runnable (p_contexts s') c)
     else pipe_write j data s = (Returned (Err (Error EPIPE)), s)"
    using assms(4) by (auto simp: pipe_write_def Let_def)
  have empty: "if weak_count s (pe_pipe e) = 0 then \<exists>s'. pipe_read i buf s = (Returned (Ok 0, buf), s')
     else if has_flag (pe_flags e) O_NONBLOCK then \<exists>s'. pipe_read i buf s = (Returned (Err (Error EAGAIN), buf), s')
     else \<exists>s'. pipe_read i buf s = (Waits, s') \<and> p_current s \<in> set (p_condition s' (pe_pipe e))"
    if "p_data s (pe_pipe e) = []"
    using assms(5) unfolding read read_turn_empty [OF that] Let_def wait_def by auto
  show ?thesis
    using nonempty empty wr by presburger
qed

definition one_pipe :: pipes where
  "one_pipe = snd (pipe 0 (new_pipes one_runnable 1))"

theorem pipe_ends_witness:
  "(\<exists>s'. pipe_read 0 [0] one_pipe = (Waits, s') \<and> 1 \<in> set (p_condition s' 0)) \<and>
   (\<exists>s'. pipe_write 1 [5] one_pipe = (Returned (Ok 1), s'))"
proof -
  have a: "reader_end one_pipe 0 = Some \<lparr>pe_flags = 0, pe_pipe = 0\<rparr>" "[0 :: u8] \<noteq> []" "length [0 :: u8] < 2 ^ 64"
    "bt_get (p_writes one_pipe) 1 = Some \<lparr>pe_flags = 0, pe_pipe = 0\<rparr>"
    "get_context (p_contexts one_pipe) (p_current one_pipe) \<noteq> None"
    by (simp_all add: one_pipe_def reader_end_def pipe_def new_pipes_def Let_def one_runnable_def get_context_def)
  have b: "p_data one_pipe 0 = []" "weak_count one_pipe 0 \<noteq> 0" "upgradable one_pipe 0" "p_current one_pipe = 1"
    by (simp_all add: one_pipe_def pipe_def new_pipes_def Let_def weak_count_def upgradable_def ends_of_def bt_empty_def)
  show ?thesis
    using pipe_ends [OF a, of "[5]"] b by auto
qed

text \<open>
  C23. A read into an empty slice from a blocking read end never returns as long as a write end is open:
  every turn puts the caller to sleep, whatever the pipe holds, so that no \<open>write\<close> can complete it.
\<close>

theorem empty_read_never_returns:
  assumes "reader_end s i = Some e" "weak_count s (pe_pipe e) \<noteq> 0" "\<not> has_flag (pe_flags e) O_NONBLOCK"
    and "get_context (p_contexts s) (p_current s) \<noteq> None"
  shows "\<exists>s'. pipe_read i [] s = (Waits, s') \<and> reader_end s' i = Some e \<and>
    (\<forall>j data s2. pipe_write j data s' = (Returned (Ok (of_nat (length data))), s2) \<longrightarrow>
       weak_count s2 (pe_pipe e) \<noteq> 0 \<and> (\<exists>s3. pipe_read i [] s2 = (Waits, s3)))"
proof -
  have sleeps: "\<exists>s'. pipe_read i [] s = (Waits, s') \<and> reader_end s' i = Some e \<and> weak_count s' (pe_pipe e) \<noteq> 0 \<and>
      p_current s' = p_current s \<and> get_context (p_contexts s') (p_current s) \<noteq> None"
    if "reader_end s i = Some e" "weak_count s (pe_pipe e) \<noteq> 0" "get_context (p_contexts s) (p_current s) \<noteq> None" for s
    using that assms(3)
    by (auto simp: pipe_read_turn read_turn_def Let_def wait_def reader_end_def weak_count_def)
  from sleeps [OF assms(1,2,4)] obtain s' where s': "pipe_read i [] s = (Waits, s')" "reader_end s' i = Some e"
      "weak_count s' (pe_pipe e) \<noteq> 0" "p_current s' = p_current s" "get_context (p_contexts s') (p_current s) \<noteq> None"
    by blast
  have "weak_count s2 (pe_pipe e) \<noteq> 0 \<and> (\<exists>s3. pipe_read i [] s2 = (Waits, s3))"
    if "pipe_write j data s' = (Returned (Ok (of_nat (length data))), s2)" for j data s2
  proof -
    have "weak_count s2 (pe_pipe e) \<noteq> 0" "reader_end s2 i = Some e" "get_context (p_contexts s2) (p_current s2) \<noteq> None"
      using that s' by (auto simp: pipe_write_def Let_def weak_count_def reader_end_def get_wake_all split: option.splits if_splits)
    then show ?thesis
      using sleeps [of s2] by blast
  qed
  then show ?thesis
    using s' by blast
qed

theorem empty_read_never_returns_witness:
  "\<exists>s'. pipe_read 0 [] (one_pipe\<lparr>p_data := (p_data one_pipe)(0 := [1, 2, 3])\<rparr>) = (Waits, s')"
proof -
  let ?s = "one_pipe\<lparr>p_data := (p_data one_pipe)(0 := [1, 2, 3])\<rparr>"
  have a: "reader_end ?s 0 = Some \<lparr>pe_flags = 0, pe_pipe = 0\<rparr>" "weak_count ?s (pe_pipe \<lparr>pe_flags = 0, pe_pipe = 0\<rparr>) \<noteq> 0"
    "\<not> has_flag (pe_flags \<lparr>pe_flags = 0, pe_pipe = 0\<rparr>) O_NONBLOCK"
    "get_context (p_contexts ?s) (p_current ?s) \<noteq> None"
    by (simp_all add: one_pipe_def reader_end_def pipe_def new_pipes_def Let_def one_runnable_def get_context_def
        weak_count_def ends_of_def bt_empty_def)
  show ?thesis
    using empty_read_never_returns [OF a] by blast
qed

end
