(* ===== verification/Memory_Files.thy ===== *)
theory Memory_Files
  imports Scheme_Trait Id_Allocation
begin

text \<open>
  What the schemes that serve bytes from memory have in common (\<open>env:\<close>, \<open>initfs:\<close>, \<open>sys:\<close> and the live
  \<open>disk:\<close>): path checks, the read, write and seek loops on a byte vector with a cursor, and handle tables
  whose handles own their bytes. The locale \<open>file_scheme\<close> states the contract of such a scheme and shows
  that a file can be read in pieces of any size.
\<close>

section \<open>Strings\<close>

text \<open>\<open>str::from_utf8(path).is_ok()\<close>\<close>

definition continuation :: "u8 \<Rightarrow> bool" where
  "continuation b \<longleftrightarrow> 0x80 \<le> b \<and> b \<le> 0xBF"

definition second_of_3 :: "u8 \<Rightarrow> u8 \<Rightarrow> bool" where
  "second_of_3 a b \<longleftrightarrow>
     (a = 0xE0 \<and> 0xA0 \<le> b \<and> b \<le> 0xBF) \<or> (0xE1 \<le> a \<and> a \<le> 0xEC \<and> continuation b) \<or>
     (a = 0xED \<and> 0x80 \<le> b \<and> b \<le> 0x9F) \<or> (0xEE \<le> a \<and> a \<le> 0xEF \<and> continuation b)"

definition second_of_4 :: "u8 \<Rightarrow> u8 \<Rightarrow> bool" where
  "second_of_4 a b \<longleftrightarrow>
     (a = 0xF0 \<and> 0x90 \<le> b \<and> b \<le> 0xBF) \<or> (0xF1 \<le> a \<and> a \<le> 0xF3 \<and> continuation b) \<or>
     (a = 0xF4 \<and> 0x80 \<le> b \<and> b \<le> 0x8F)"

fun valid_utf8 :: "bytes \<Rightarrow> bool" where
  "valid_utf8 [] = True"
| "valid_utf8 (a # s) =
     (if a < 0x80 then valid_utf8 s
      else case s of [] \<Rightarrow> False | b # s1 \<Rightarrow>
        if 0xC2 \<le> a \<and> a \<le> 0xDF then continuation b \<and> valid_utf8 s1
        else case s1 of [] \<Rightarrow> False | c # s2 \<Rightarrow>
          if second_of_3 a b then continuation c \<and> valid_utf8 s2
          else case s2 of [] \<Rightarrow> False | d # s3 \<Rightarrow>
            second_of_4 a b \<and> continuation c \<and> continuation d \<and> valid_utf8 s3)"

text \<open>\<open>trim_matches('/')\<close>\<close>

definition trim_slashes :: "bytes \<Rightarrow> bytes" where
  "trim_slashes p = rev (dropWhile (\<lambda>b. b = 47) (rev (dropWhile (\<lambda>b. b = 47) p)))"

section \<open>Loops on a byte vector with a cursor\<close>

text \<open>\<open>while i < buffer.len() && seek < data.len() { buffer[i] = data[seek]; i += 1; seek += 1; }\<close>\<close>

definition read_at :: "bytes \<Rightarrow> usize \<Rightarrow> bytes \<Rightarrow> bytes \<times> usize \<times> usize" where
  "read_at data seek buf =
     (let (buf', n) = copy_into buf (drop (unat seek) data) in (buf', of_nat n, seek + of_nat n))"

text \<open>
  \<open>while i < buffer.len() && seek < data.len() { data[seek] = buffer[i]; i += 1; seek += 1; }\<close>: the
  data and what is left of the buffer.
\<close>

fun overwrite :: "bytes \<Rightarrow> nat \<Rightarrow> bytes \<Rightarrow> bytes \<times> bytes" where
  "overwrite data k [] = (data, [])"
| "overwrite data k (b # bs) =
     (if k < length data then overwrite (data[k := b]) (Suc k) bs else (data, b # bs))"

text \<open>The new cursor of \<open>seek\<close>; the sums are \<open>isize\<close> sums, which wrap around.\<close>

definition seek_in :: "bytes \<Rightarrow> usize \<Rightarrow> usize \<Rightarrow> usize \<Rightarrow> usize result" where
  "seek_in data seek pos whence =
     (let len = of_nat (length data) :: usize
      in if whence = SEEK_SET then Ok (min len pos)
         else if whence = SEEK_CUR then Ok (of_int (max 0 (min (sint len) (sint (seek + pos)))))
         else if whence = SEEK_END then Ok (of_int (max 0 (min (sint len) (sint (len + pos)))))
         else Err (Error EINVAL))"

text \<open>The two loops of \<open>fpath\<close>: the scheme's name, then the path.\<close>

definition fpath_into :: "bytes \<Rightarrow> bytes \<Rightarrow> bytes \<Rightarrow> bytes \<times> usize" where
  "fpath_into scheme_path path buf =
     (let (buf1, i) = copy_into buf scheme_path;
          (buf2, j) = copy_into (drop i buf1) path
      in (take i buf1 @ buf2, of_nat (i + j)))"

section \<open>Handles that own their bytes\<close>

record mem_handle =
  h_path :: bytes
  h_data :: bytes
  h_mode :: u16
  h_seek :: usize

type_synonym mem_table = "mem_handle handle_table"

definition mh_dup :: "usize \<Rightarrow> mem_table \<Rightarrow> usize result \<times> mem_table" where
  "mh_dup i t =
     (case get_handle t i EBADF of
        Err e \<Rightarrow> (Err e, t)
      | Ok h \<Rightarrow> (let (j, t') = add_handle t h in (Ok j, t')))"

definition mh_read :: "usize \<Rightarrow> bytes \<Rightarrow> mem_table \<Rightarrow> (usize result \<times> bytes) \<times> mem_table" where
  "mh_read i buf t =
     (case get_handle t i EBADF of
        Err e \<Rightarrow> ((Err e, buf), t)
      | Ok h \<Rightarrow> (let (buf', n, seek) = read_at (h_data h) (h_seek h) buf
                in ((Ok n, buf'), set_handle t i (h\<lparr>h_seek := seek\<rparr>))))"

definition mh_seek :: "usize \<Rightarrow> usize \<Rightarrow> usize \<Rightarrow> mem_table \<Rightarrow> usize result \<times> mem_table" where
  "mh_seek i pos whence t =
     (case get_handle t i EBADF of
        Err e \<Rightarrow> (Err e, t)
      | Ok h \<Rightarrow> (case seek_in (h_data h) (h_seek h) pos whence of
                  Err e \<Rightarrow> (Err e, t)
                | Ok seek \<Rightarrow> (Ok seek, set_handle t i (h\<lparr>h_seek := seek\<rparr>))))"

definition mh_fpath :: "bytes \<Rightarrow> usize \<Rightarrow> bytes \<Rightarrow> mem_table \<Rightarrow> usize result \<times> bytes" where
  "mh_fpath scheme_path i buf t =
     (case get_handle t i EBADF of
        Err e \<Rightarrow> (Err e, buf)
      | Ok h \<Rightarrow> (let (buf', n) = fpath_into scheme_path (h_path h) buf in (Ok n, buf')))"

definition mh_fstat :: "usize \<Rightarrow> stat \<Rightarrow> mem_table \<Rightarrow> usize result \<times> stat" where
  "mh_fstat i st t =
     (case get_handle t i EBADF of
        Err e \<Rightarrow> (Err e, st)
      | Ok h \<Rightarrow> (Ok 0, st\<lparr>st_mode := h_mode h, st_uid := 0, st_gid := 0, st_size := of_nat (length (h_data h))\<rparr>))"

section \<open>Lemmas\<close>

lemma read_at_eq:
  "read_at data seek buf =
     (let n = min (length buf) (length data - unat seek)
      in (take n (drop (unat seek) data) @ drop n buf, of_nat n, seek + of_nat n))"
  by (auto simp: read_at_def copy_into_eq Let_def min_def)

lemma length_read_at [simp]: "length (fst (read_at data seek buf)) = length buf"
  by (simp add: read_at_def split: prod.splits) (metis fst_conv length_copy_into)

lemma fpath_into_eq: "fpath_into sp path buf = (let (b, n) = copy_into buf (sp @ path) in (b, of_nat n))"
  by (auto simp: fpath_into_def copy_into_eq Let_def min_def add.commute)

lemma length_fpath_into [simp]: "length (fst (fpath_into sp path buf)) = length buf"
  by (simp add: fpath_into_eq copy_into_eq)

lemma overwrite_eq:
  "overwrite data k bs =
     (let n = min (length bs) (length data - k) in (take k data @ take n bs @ drop (k + n) data, drop n bs))"
proof (induction data k bs rule: overwrite.induct)
  case (1 data k)
  then show ?case by simp
next
  case (2 data k b bs)
  show ?case
  proof (cases "k < length data")
    case True
    have t: "take (Suc k) (data[k := b]) = take k data @ [b]"
      using True by (simp add: take_Suc_conv_app_nth)
    obtain m where m: "length data - k = Suc m" "length data - Suc k = m"
      using True by (metis Suc_diff_Suc)
    show ?thesis
      using True 2 t by (simp add: Let_def m)
  next
    case False
    then show ?thesis by simp
  qed
qed

lemma min_of_nat_usize: "m < 2 ^ 64 \<Longrightarrow> unat p \<le> m \<Longrightarrow> min (of_nat m) p = (p :: usize)"
  by (simp add: min_def word_le_nat_alt)

lemma seek_set: "length data < 2 ^ 64 \<Longrightarrow> unat p \<le> length data \<Longrightarrow> seek_in data seek p SEEK_SET = Ok p"
  by (simp add: seek_in_def min_of_nat_usize)

text \<open>Every cursor that \<open>seek\<close> leaves behind lies in the file.\<close>

lemma sint_of_nat_usize: "m < 2 ^ 63 \<Longrightarrow> sint (of_nat m :: usize) = int m"
proof -
  assume m: "m < 2 ^ 63"
  then have "uint (of_nat m :: usize) = int m"
    by (simp add: uint_nat)
  then show ?thesis
    using m by (simp add: sint_i64)
qed

lemma unat_clamped: "n < 2 ^ 64 \<Longrightarrow> unat (of_int (max 0 (min (int n) z)) :: usize) \<le> n"
proof -
  assume n: "n < 2 ^ 64"
  define k where "k = nat (max 0 (min (int n) z))"
  have k: "k \<le> n" "max 0 (min (int n) z) = int k"
    unfolding k_def by linarith+
  then show ?thesis
    using n by simp
qed

lemma seek_in_bound:
  assumes len: "length data < 2 ^ 63" and r: "seek_in data seek pos whence = Ok s"
  shows "unat s \<le> length data"
proof -
  have s: "sint (of_nat (length data) :: usize) = int (length data)"
    using len by (rule sint_of_nat_usize)
  have "unat (of_int (max 0 (min (int (length data)) z)) :: usize) \<le> length data" for z :: int
    using len by (intro unat_clamped) simp
  moreover have "unat (min (of_nat (length data)) pos) \<le> length data"
    using len by (simp add: min_def word_le_nat_alt)
  ultimately show ?thesis
    using r by (auto simp: seek_in_def Let_def s split: if_splits)
qed

section \<open>The contract of a file scheme\<close>

text \<open>A program that reads a file in pieces: the bytes it gets from successive \<open>read\<close> calls.\<close>

fun read_many :: "'s scheme_ops \<Rightarrow> usize \<Rightarrow> bytes list \<Rightarrow> 's \<Rightarrow> bytes \<times> 's" where
  "read_many ops i [] s = ([], s)"
| "read_many ops i (buf # bufs) s =
     (case op_read ops i buf s of
        (Returned (Ok n, buf'), s') \<Rightarrow>
          (let (r, s2) = read_many ops i bufs s' in (take (unat n) buf' @ r, s2))
      | (_, s') \<Rightarrow> ([], s'))"

text \<open>
  \<open>contents\<close> and \<open>cursor\<close> give the bytes and the position of an open handle. Vectors are shorter than
  \<open>isize::MAX\<close> bytes.
\<close>

locale file_scheme = scheme ops for ops :: "'s scheme_ops" +
  fixes contents :: "'s \<Rightarrow> usize \<Rightarrow> bytes option"
    and cursor :: "'s \<Rightarrow> usize \<Rightarrow> usize"
    and inv :: "'s \<Rightarrow> bool"
  assumes contents_length: "inv s \<Longrightarrow> contents s i = Some d \<Longrightarrow> length d < 2 ^ 63"
    and read_contents: "inv s \<Longrightarrow> contents s i = Some d \<Longrightarrow> read_at d (cursor s i) buf = (buf', n, k) \<Longrightarrow>
      \<exists>s'. op_read ops i buf s = (Returned (Ok n, buf'), s') \<and> inv s' \<and> contents s' = contents s \<and> cursor s' i = k"
    and seek_cursor: "inv s \<Longrightarrow> contents s i = Some d \<Longrightarrow> seek_in d (cursor s i) pos whence = Ok k \<Longrightarrow>
      \<exists>s'. op_seek ops i pos whence s = (Returned (Ok k), s') \<and> inv s' \<and> contents s' = contents s \<and> cursor s' i = k"
begin

lemma read_many_contents:
  "inv s \<Longrightarrow> contents s i = Some d \<Longrightarrow>
   \<exists>s'. read_many ops i bufs s = (take (sum_list (map length bufs)) (drop (unat (cursor s i)) d), s') \<and>
     inv s' \<and> contents s' = contents s"
proof (induction bufs arbitrary: s)
  case Nil
  then show ?case by simp
next
  case (Cons buf bufs)
  define n where "n = min (length buf) (length d - unat (cursor s i))"
  have len: "length d < 2 ^ 63"
    using contents_length Cons.prems by blast
  have n: "n < 2 ^ 64" "unat (cursor s i) + n < 2 ^ 64"
    using len unsigned_less [of "cursor s i", where ?'a = nat] by (auto simp: n_def)
  have cur: "unat (cursor s i + of_nat n) = unat (cursor s i) + n"
    using n by (simp add: unat_word_ariths)
  obtain s1 where s1: "op_read ops i buf s =
        (Returned (Ok (of_nat n), take n (drop (unat (cursor s i)) d) @ drop n buf), s1)"
      "inv s1" "contents s1 = contents s" "cursor s1 i = cursor s i + of_nat n"
    using read_contents [OF Cons.prems, of buf] by (auto simp: read_at_eq n_def Let_def)
  obtain s2 where s2: "read_many ops i bufs s1 =
        (take (sum_list (map length bufs)) (drop (unat (cursor s i) + n) d), s2)"
      "inv s2" "contents s2 = contents s1"
    using Cons.IH [of s1] s1 Cons.prems cur by auto
  have "take n (drop (unat (cursor s i)) d) @ take (sum_list (map length bufs)) (drop (unat (cursor s i) + n) d) =
      take (length buf + sum_list (map length bufs)) (drop (unat (cursor s i)) d)"
  proof (cases "length buf \<le> length d - unat (cursor s i)")
    case True
    then show ?thesis
      by (simp add: n_def take_add add.commute)
  next
    case False
    then show ?thesis
      by (simp add: n_def)
  qed
  then show ?case
    using s1 s2 n by (simp add: n_def)
qed

lemma read_whole_file:
  assumes "inv s" "contents s i = Some d" "length d \<le> sum_list (map length bufs)"
  shows "\<exists>s1 s2. op_seek ops i 0 SEEK_SET s = (Returned (Ok 0), s1) \<and> read_many ops i bufs s1 = (d, s2) \<and>
    contents s2 = contents s \<and> inv s2"
proof -
  have "seek_in d (cursor s i) 0 SEEK_SET = Ok 0"
    using contents_length [OF assms(1,2)] by (intro seek_set) auto
  then obtain s1 where s1: "op_seek ops i 0 SEEK_SET s = (Returned (Ok 0), s1)" "inv s1"
      "contents s1 = contents s" "cursor s1 i = 0"
    using seek_cursor [OF assms(1,2)] by blast
  then show ?thesis
    using read_many_contents [of s1 i d bufs] assms by auto
qed

end

section \<open>Tables of handles that own their bytes\<close>

definition mem_contents :: "mem_table \<Rightarrow> usize \<Rightarrow> bytes option" where
  "mem_contents t i = map_option h_data (bt_get (handles t) i)"

definition mem_cursor :: "mem_table \<Rightarrow> usize \<Rightarrow> usize" where
  "mem_cursor t i = (case bt_get (handles t) i of None \<Rightarrow> 0 | Some h \<Rightarrow> h_seek h)"

definition mem_inv :: "mem_table \<Rightarrow> bool" where
  "mem_inv t \<longleftrightarrow> (\<forall>i d. mem_contents t i = Some d \<longrightarrow> length d < 2 ^ 63)"

lemma mem_contents_set_seek:
  "bt_get (handles t) i = Some h \<Longrightarrow> mem_contents (set_handle t i (h\<lparr>h_seek := k\<rparr>)) = mem_contents t"
  by (auto simp: mem_contents_def set_handle_def fun_eq_iff)

lemma mem_cursor_set_seek:
  "bt_get (handles t) i = Some h \<Longrightarrow> mem_cursor (set_handle t i (h\<lparr>h_seek := k\<rparr>)) i = k"
  by (auto simp: mem_cursor_def set_handle_def)

lemma mh_read_contents:
  assumes "mem_inv t" "mem_contents t i = Some d" "read_at d (mem_cursor t i) buf = (buf', n, k)"
  shows "\<exists>t'. mh_read i buf t = ((Ok n, buf'), t') \<and> mem_inv t' \<and> mem_contents t' = mem_contents t \<and> mem_cursor t' i = k"
proof -
  obtain h where h: "bt_get (handles t) i = Some h" "h_data h = d"
    using assms(2) by (auto simp: mem_contents_def)
  then show ?thesis
    using assms mem_contents_set_seek [OF h(1), of k] mem_cursor_set_seek [OF h(1), of k]
    by (auto simp: mh_read_def get_handle_def mem_cursor_def mem_inv_def)
qed

lemma mh_seek_cursor:
  assumes "mem_inv t" "mem_contents t i = Some d" "seek_in d (mem_cursor t i) pos whence = Ok k"
  shows "\<exists>t'. mh_seek i pos whence t = (Ok k, t') \<and> mem_inv t' \<and> mem_contents t' = mem_contents t \<and> mem_cursor t' i = k"
proof -
  obtain h where h: "bt_get (handles t) i = Some h" "h_data h = d"
    using assms(2) by (auto simp: mem_contents_def)
  then show ?thesis
    using assms mem_contents_set_seek [OF h(1), of k] mem_cursor_set_seek [OF h(1), of k]
    by (auto simp: mh_seek_def get_handle_def mem_cursor_def mem_inv_def)
qed

lemma mh_read_length: "mh_read i buf t = ((r, buf'), t') \<Longrightarrow> length buf' = length buf"
  by (auto simp: mh_read_def read_at_eq Let_def split: result.splits)

lemma mh_fpath_length: "mh_fpath sp i buf t = (r, buf') \<Longrightarrow> length buf' = length buf"
  by (auto simp: mh_fpath_def fpath_into_eq copy_into_eq split: result.splits)

end
