(* ===== verification/Events.thy ===== *)
theory Events
  imports Wait_Queues Scheme_Trait Memory_Files "HOL-Library.Product_Lexorder"
begin

text \<open>
  Event notification: the registry of subscriptions (\<open>kernel/context/event.rs\<close>), the \<open>event:\<close> scheme through
  which a context reads its events (\<open>kernel/scheme/event.rs\<close>), and the two kernel schemes that trigger
  events from interrupt handlers, \<open>irq:\<close> (\<open>kernel/scheme/irq.rs\<close>) and \<open>debug:\<close> (\<open>kernel/scheme/debug.rs\<close>).
  The event queues are objects of a store, referred to by the contexts that own them.
\<close>

section \<open>The registry (event.rs)\<close>

text \<open>\<open>RegKey\<close> is a scheme with an event, \<open>ProcessKey\<close> a context with a file descriptor, both in lexicographic order.\<close>

type_synonym reg_key = "usize \<times> usize"
type_synonym process_key = "usize \<times> usize"
type_synonym registry = "(reg_key, (process_key, ref) btree_map) btree_map"

record event_world =
  ew_registry :: registry
  ew_queues :: "ref \<Rightarrow> event wait_queue"
  ew_contexts :: context_list
  ew_current :: usize

definition register :: "usize \<Rightarrow> usize \<Rightarrow> usize \<Rightarrow> 'a event_world_scheme \<Rightarrow> (bool \<times> 'a event_world_scheme) outcome" where
  "register fd scheme_id event_id w =
     (case get_context (ew_contexts w) (ew_current w) of
        None \<Rightarrow> Panic
      | Some c \<Rightarrow>
          let key = (scheme_id, event_id);
              entry = (case bt_get (ew_registry w) key of Some e \<Rightarrow> e | None \<Rightarrow> bt_empty);
              process_key = (ctx_id c, fd)
          in if bt_contains_key entry process_key
             then Return (False, w\<lparr>ew_registry := bt_insert key entry (ew_registry w)\<rparr>)
             else Return (True,
               w\<lparr>ew_registry := bt_insert key (bt_insert process_key (events_ref c) entry) (ew_registry w)\<rparr>))"

text \<open>\<open>context_id()\<close> is the identifier of the CPU's current context, whether it is in the list or not.\<close>

definition unregister :: "usize \<Rightarrow> usize \<Rightarrow> usize \<Rightarrow> 'a event_world_scheme \<Rightarrow> 'a event_world_scheme" where
  "unregister fd scheme_id event_id w =
     (let key = (scheme_id, event_id)
      in case bt_get (ew_registry w) key of
           None \<Rightarrow> w
         | Some entry \<Rightarrow>
             let entry' = bt_remove (ew_current w, fd) entry;
                 reg = bt_insert key entry' (ew_registry w)
             in w\<lparr>ew_registry := if entry' = [] then bt_remove key reg else reg\<rparr>)"

text \<open>
  \<open>Weak::upgrade\<close>: a queue lives as long as a context that owns it. (A context that was reaped while a wait
  condition still holds it would keep its queue a little longer, with nobody to read it.)
\<close>

definition queue_alive :: "'a event_world_scheme \<Rightarrow> ref \<Rightarrow> bool" where
  "queue_alive w r \<longleftrightarrow> list_ex (\<lambda>e. events_ref (snd e) = r) (ctx_map (ew_contexts w))"

fun trigger_all :: "(process_key \<times> ref) list \<Rightarrow> usize \<Rightarrow> usize \<Rightarrow> 'a event_world_scheme \<Rightarrow> 'a event_world_scheme" where
  "trigger_all [] flags data w = w"
| "trigger_all (e # es) flags data w =
     trigger_all es flags data
       (if queue_alive w (snd e) then
          let (n, q, l) = send \<lparr>ev_id = snd (fst e), ev_flags = flags, ev_data = data\<rparr> (ew_queues w (snd e)) (ew_contexts w)
          in w\<lparr>ew_queues := (ew_queues w)(snd e := q), ew_contexts := l\<rparr>
        else w)"

definition trigger :: "usize \<Rightarrow> usize \<Rightarrow> usize \<Rightarrow> usize \<Rightarrow> 'a event_world_scheme \<Rightarrow> 'a event_world_scheme" where
  "trigger scheme_id event_id flags data w =
     (case bt_get (ew_registry w) (scheme_id, event_id) of
        None \<Rightarrow> w
      | Some event_lists \<Rightarrow> trigger_all event_lists flags data w)"

section \<open>The event: scheme (scheme/event.rs)\<close>

record event_scheme = event_world +
  evs_table :: "ref handle_table"

definition event_open :: "bytes \<Rightarrow> usize \<Rightarrow> u32 \<Rightarrow> u32 \<Rightarrow> (usize result, event_scheme) op" where
  "event_open path flags uid gid s =
     (case get_context (ew_contexts s) (ew_current s) of
        None \<Rightarrow> (Returned (Err (Error ESRCH)), s)
      | Some c \<Rightarrow> let (i, t) = add_handle (evs_table s) (events_ref c) in (Returned (Ok i), s\<lparr>evs_table := t\<rparr>))"

text \<open>A handle whose queue is gone is as bad as no handle.\<close>

definition live_handle :: "event_scheme \<Rightarrow> usize \<Rightarrow> ref result" where
  "live_handle s i =
     bind_result (get_handle (evs_table s) i EBADF)
       (\<lambda>r. if queue_alive s r then Ok r else Err (Error EBADF))"

definition event_dup :: "usize \<Rightarrow> bytes \<Rightarrow> (usize result, event_scheme) op" where
  "event_dup i buf s =
     (case live_handle s i of
        Err e \<Rightarrow> (Returned (Err e), s)
      | Ok r \<Rightarrow> let (j, t) = add_handle (evs_table s) r in (Returned (Ok j), s\<lparr>evs_table := t\<rparr>))"

text \<open>The buffer seen as an array of \<open>Event\<close>: the whole events that fit, and the bytes after them.\<close>

definition event_slots :: "bytes \<Rightarrow> event list" where
  "event_slots buf =
     map (\<lambda>i. decode_event (take size_of_event (drop (i * size_of_event) buf))) [0..<length buf div size_of_event]"

definition event_bytes :: "event list \<Rightarrow> bytes \<Rightarrow> bytes" where
  "event_bytes evs buf = concat (map encode_event evs) @ drop (length evs * size_of_event) buf"

definition event_read :: "usize \<Rightarrow> bytes \<Rightarrow> (usize result \<times> bytes, event_scheme) op" where
  "event_read i buf s =
     (case live_handle s i of
        Err e \<Rightarrow> (Returned (Err e, buf), s)
      | Ok r \<Rightarrow>
          (case receive_into (ew_current s) (event_slots buf) True (ew_queues s r) (ew_contexts s) of
             (Returned (evs, n), q, l) \<Rightarrow>
               (Returned (Ok (n * of_nat size_of_event), event_bytes evs buf),
                s\<lparr>ew_queues := (ew_queues s)(r := q), ew_contexts := l\<rparr>)
           | (Waits, q, l) \<Rightarrow> (Waits, s\<lparr>ew_queues := (ew_queues s)(r := q), ew_contexts := l\<rparr>)
           | (Crashes, q, l) \<Rightarrow> (Crashes, s\<lparr>ew_queues := (ew_queues s)(r := q), ew_contexts := l\<rparr>)))"

definition event_fsync :: "usize \<Rightarrow> (usize result, event_scheme) op" where
  "event_fsync i s = (Returned (bind_result (live_handle s i) (\<lambda>_. Ok 0)), s)"

definition event_close :: "usize \<Rightarrow> (usize result, event_scheme) op" where
  "event_close i s = (let (r, t) = close_handle (evs_table s) i EBADF in (Returned r, s\<lparr>evs_table := t\<rparr>))"

definition event_ops :: "event_scheme scheme_ops" where
  "event_ops = default_ops
     \<lparr>op_open := event_open, op_dup := event_dup, op_read := event_read, op_fsync := event_fsync,
      op_close := event_close\<rparr>"

section \<open>The irq: scheme (scheme/irq.rs)\<close>

text \<open>\<open>ACKS\<close> and \<open>COUNTS\<close> have sixteen entries. \<open>irq_acknowledged\<close> logs the calls of \<open>arch::interrupt::irq::acknowledge\<close>.\<close>

record irq_world = event_world +
  irq_scheme_id :: usize
  irq_acks :: "usize list"
  irq_counts :: "usize list"
  irq_acknowledged :: "usize list"

definition irq_new :: "usize \<Rightarrow> irq_world \<Rightarrow> irq_world" where
  "irq_new scheme_id s = s\<lparr>irq_scheme_id := scheme_id\<rparr>"

definition irq_trigger :: "u8 \<Rightarrow> irq_world \<Rightarrow> irq_world outcome" where
  "irq_trigger irq s =
     (if unat irq < length (irq_counts s)
      then Return (trigger (irq_scheme_id s) (ucast irq) EVENT_READ 8
             (s\<lparr>irq_counts := (irq_counts s)[unat irq := irq_counts s ! unat irq + 1]\<rparr>))
      else Panic)"

text \<open>\<open>str::parse::<usize>()\<close>: an optional plus sign, then at least one decimal digit, without overflow.\<close>

fun parse_digits :: "nat \<Rightarrow> bytes \<Rightarrow> nat option" where
  "parse_digits acc [] = Some acc"
| "parse_digits acc (b # bs) =
     (if 48 \<le> b \<and> b \<le> 57 \<and> acc * 10 + (unat b - 48) < 2 ^ 64
      then parse_digits (acc * 10 + (unat b - 48)) bs else None)"

definition parse_usize :: "bytes \<Rightarrow> usize option" where
  "parse_usize s =
     (let digits = (case s of b # bs \<Rightarrow> if b = 43 then bs else s | [] \<Rightarrow> [])
      in if digits = [] then None else map_option of_nat (parse_digits 0 digits))"

definition irq_open :: "bytes \<Rightarrow> usize \<Rightarrow> u32 \<Rightarrow> u32 \<Rightarrow> (usize result, irq_world) op" where
  "irq_open path flags uid gid s =
     (Returned
       (if uid = 0 then
          if valid_utf8 path then
            bind_result (ok_or (parse_usize path) ENOENT)
              (\<lambda>i. if unat i < length (irq_counts s) then Ok i else Err (Error ENOENT))
          else Err (Error ENOENT)
        else Err (Error EACCES)), s)"

text \<open>A file number out of range panics; \<open>open\<close> never returns one.\<close>

definition irq_read :: "usize \<Rightarrow> bytes \<Rightarrow> (usize result \<times> bytes, irq_world) op" where
  "irq_read i buf s =
     (if length buf \<ge> 8 then
        if unat i < length (irq_acks s) \<and> unat i < length (irq_counts s) then
          let ack = irq_acks s ! unat i; current = irq_counts s ! unat i
          in if ack \<noteq> current then (Returned (Ok 8, le_bytes 8 current @ drop 8 buf), s)
             else (Returned (Ok 0, buf), s)
        else (Crashes, s)
      else (Returned (Err (Error EINVAL), buf), s))"

definition irq_write :: "usize \<Rightarrow> bytes \<Rightarrow> (usize result, irq_world) op" where
  "irq_write i buf s =
     (if length buf \<ge> 8 then
        if unat i < length (irq_counts s) then
          let ack = le_word (take 8 buf); current = irq_counts s ! unat i
          in if ack = current then
               if unat i < length (irq_acks s)
               then (Returned (Ok 8), s\<lparr>irq_acks := (irq_acks s)[unat i := ack], irq_acknowledged := irq_acknowledged s @ [i]\<rparr>)
               else (Crashes, s)
             else (Returned (Ok 0), s)
        else (Crashes, s)
      else (Returned (Err (Error EINVAL)), s))"

definition irq_ops :: "irq_world scheme_ops" where
  "irq_ops = default_ops
     \<lparr>op_open := irq_open, op_dup := (\<lambda>i buf. returns (Ok i)), op_read := irq_read, op_write := irq_write,
      op_fevent := (\<lambda>i flags. returns (Ok i)), op_fsync := (\<lambda>i. returns (Ok 0)), op_close := (\<lambda>i. returns (Ok 0))\<rparr>"

section \<open>The debug: scheme (scheme/debug.rs)\<close>

text \<open>\<open>dbg_output\<close> is what was printed on the console.\<close>

record debug_world = event_world +
  dbg_scheme_id :: usize
  dbg_input :: "u8 wait_queue"
  dbg_output :: bytes

definition debug_new :: "usize \<Rightarrow> debug_world \<Rightarrow> debug_world" where
  "debug_new scheme_id s = s\<lparr>dbg_scheme_id := scheme_id\<rparr>"

definition debug_input :: "u8 \<Rightarrow> debug_world \<Rightarrow> debug_world" where
  "debug_input b s =
     (let (len, q, l) = send b (dbg_input s) (ew_contexts s)
      in trigger (dbg_scheme_id s) 0 EVENT_READ len (s\<lparr>dbg_input := q, ew_contexts := l\<rparr>))"

definition debug_read :: "usize \<Rightarrow> bytes \<Rightarrow> (usize result \<times> bytes, debug_world) op" where
  "debug_read i buf s =
     (case receive_into (ew_current s) buf True (dbg_input s) (ew_contexts s) of
        (Returned (buf', n), q, l) \<Rightarrow> (Returned (Ok n, buf'), s\<lparr>dbg_input := q, ew_contexts := l\<rparr>)
      | (Waits, q, l) \<Rightarrow> (Waits, s\<lparr>dbg_input := q, ew_contexts := l\<rparr>)
      | (Crashes, q, l) \<Rightarrow> (Crashes, s\<lparr>dbg_input := q, ew_contexts := l\<rparr>))"

definition debug_write :: "usize \<Rightarrow> bytes \<Rightarrow> (usize result, debug_world) op" where
  "debug_write i buf s = (Returned (Ok (of_nat (length buf))), s\<lparr>dbg_output := dbg_output s @ buf\<rparr>)"

definition debug_ops :: "debug_world scheme_ops" where
  "debug_ops = default_ops
     \<lparr>op_open := (\<lambda>path flags uid gid. returns (Ok 0)), op_dup := (\<lambda>i buf. returns (Ok 0)), op_read := debug_read,
      op_write := debug_write, op_fevent := (\<lambda>i flags. returns (Ok 0)), op_fsync := (\<lambda>i. returns (Ok 0)),
      op_close := (\<lambda>i. returns (Ok 0))\<rparr>"

section \<open>The schemes keep the length of buffers\<close>

lemma receive_into_length:
  "receive_into cur buf blk q l = (Returned (buf', n), q', l') \<Longrightarrow> length buf' = length buf"
  by (auto simp: receive_into_def receive_def sleep_on_queue_def wait_def pop_into_eq Let_def neq_Nil_conv
      split: if_splits list.splits option.splits)

lemma length_event_bytes: "length (event_bytes evs buf) = max (length evs * size_of_event) (length buf)"
  by (simp add: event_bytes_def length_concat comp_def length_encode sum_list_triv max_def)

interpretation event: scheme event_ops
proof unfold_locales
  show "op_read event_ops i buf s = (Returned (r, buf'), s') \<Longrightarrow> length buf' = length buf" for i buf s r buf' s'
    by (auto simp: event_ops_def event_read_def length_event_bytes event_slots_def max_def
        split: result.splits prod.splits attempt.splits dest!: receive_into_length)
  show "op_fpath event_ops i buf s = (Returned (r, buf'), s') \<Longrightarrow> length buf' = length buf" for i buf s r buf' s'
    by (simp add: event_ops_def default_ops_def returns_def)
qed

interpretation irq: scheme irq_ops
  by unfold_locales
    (auto simp: irq_ops_def irq_read_def default_ops_def returns_def Let_def split: if_splits)

interpretation debug: scheme debug_ops
  by unfold_locales
    (auto simp: debug_ops_def debug_read_def default_ops_def returns_def
      split: prod.splits attempt.splits dest!: receive_into_length)

section \<open>Lemmas on the registry\<close>

definition subscriptions :: "'a event_world_scheme \<Rightarrow> reg_key \<Rightarrow> (process_key, ref) btree_map" where
  "subscriptions w key = (case bt_get (ew_registry w) key of Some e \<Rightarrow> e | None \<Rightarrow> bt_empty)"

text \<open>No key is kept without a subscription.\<close>

definition registry_wf :: "'a event_world_scheme \<Rightarrow> bool" where
  "registry_wf w \<longleftrightarrow> bt_wf (ew_registry w) \<and>
     (\<forall>k e. bt_get (ew_registry w) k = Some e \<longrightarrow> bt_wf e \<and> e \<noteq> [])"

lemma registry_wf_subscriptions: "registry_wf w \<Longrightarrow> bt_wf (subscriptions w key)"
  by (cases key) (auto simp: registry_wf_def subscriptions_def split: option.splits)

lemma bt_insert_not_Nil [simp]: "bt_insert k v m \<noteq> []"
  using set_bt_keys_insert[of k v m] by fastforce

lemma register_True:
  assumes "register fd sid eid w = Return (True, w1)" "get_context (ew_contexts w) (ew_current w) = Some c"
  shows "w1 = w\<lparr>ew_registry := bt_insert (sid, eid)
      (bt_insert (ctx_id c, fd) (events_ref c) (subscriptions w (sid, eid))) (ew_registry w)\<rparr>"
    and "bt_get (subscriptions w (sid, eid)) (ctx_id c, fd) = None"
  using assms by (auto simp: register_def subscriptions_def Let_def bt_contains_key_def split: if_splits option.splits)

lemma registry_wf_insert:
  assumes "registry_wf w" "bt_wf e" "e \<noteq> []"
  shows "registry_wf (w\<lparr>ew_registry := bt_insert k e (ew_registry w)\<rparr>)"
  using assms unfolding registry_wf_def by (simp del: split_paired_All)

lemma registry_wf_register [inv_intros]:
  assumes "registry_wf w" "register fd sid eid w = Return (b, w1)"
  shows "registry_wf w1"
proof -
  let ?s = "subscriptions w (sid, eid)"
  obtain c where c: "get_context (ew_contexts w) (ew_current w) = Some c"
    using assms(2) by (auto simp: register_def split: option.splits)
  have "bt_wf ?s"
    by (rule registry_wf_subscriptions[OF assms(1)])
  moreover have "w1 = w\<lparr>ew_registry := bt_insert (sid, eid) ?s (ew_registry w)\<rparr> \<and> ?s \<noteq> [] \<or>
      w1 = w\<lparr>ew_registry := bt_insert (sid, eid) (bt_insert (ctx_id c, fd) (events_ref c) ?s) (ew_registry w)\<rparr>"
    using assms(2) c by (auto simp: register_def subscriptions_def bt_contains_key_def Let_def split: if_splits)
  ultimately show ?thesis
    using registry_wf_insert[OF assms(1)] by auto
qed

lemma registry_wf_unregister [inv_intros]: "registry_wf w \<Longrightarrow> registry_wf (unregister fd sid eid w)"
  by (auto simp: registry_wf_def unregister_def Let_def simp del: split_paired_All split: option.splits if_splits)

text \<open>Unregistering takes back exactly what registering added.\<close>

lemma unregister_register:
  assumes "registry_wf w" "register fd sid eid w = Return (True, w1)"
    and "get_context (ew_contexts w) (ew_current w) = Some c" "ctx_id c = ew_current w"
    and "ew_registry w2 = ew_registry w1" "ew_current w2 = ew_current w"
  shows "ew_registry (unregister fd sid eid w2) = ew_registry w"
proof -
  let ?s = "subscriptions w (sid, eid)" and ?k = "(sid, eid)" and ?p = "(ew_current w, fd)"
  note r = register_True[OF assms(2,3)]
  have s: "bt_remove ?p (bt_insert ?p (events_ref c) ?s) = ?s"
    using registry_wf_subscriptions[OF assms(1)] r(2) assms(4) by (intro bt_ext) auto
  have wf: "bt_wf (ew_registry w)"
    using assms(1) by (simp add: registry_wf_def)
  show ?thesis
  proof (cases "?s = []")
    case True
    have none: "bt_get (ew_registry w) ?k = None"
      using True assms(1) by (cases "bt_get (ew_registry w) ?k") (auto simp: subscriptions_def registry_wf_def)
    have "ew_registry (unregister fd sid eid w2) =
        bt_remove ?k (bt_insert ?k [] (bt_insert ?k (bt_insert ?p (events_ref c) ?s) (ew_registry w)))"
      using r(1) s True assms(4-6) by (simp add: unregister_def Let_def)
    also have "\<dots> = ew_registry w"
      using wf none by (intro bt_ext) auto
    finally show ?thesis .
  next
    case False
    have some: "bt_get (ew_registry w) ?k = Some ?s"
      using False by (cases "bt_get (ew_registry w) ?k") (auto simp: subscriptions_def bt_empty_def)
    have "ew_registry (unregister fd sid eid w2) =
        bt_insert ?k ?s (bt_insert ?k (bt_insert ?p (events_ref c) ?s) (ew_registry w))"
      using r(1) s False assms(4-6) by (simp add: unregister_def Let_def)
    also have "\<dots> = ew_registry w"
      using wf some by (intro bt_ext) auto
    finally show ?thesis .
  qed
qed

section \<open>Lemmas on delivery\<close>

lemma bt_get_SomeD: "bt_get m k = Some v \<Longrightarrow> (k, v) \<in> set m"
  by (induction m) (auto split: if_splits)

lemma map_bt_modify:
  "(\<And>v. g (f v) = g v) \<Longrightarrow> map (\<lambda>e. g (snd e)) (bt_modify k f m) = map (\<lambda>e. g (snd e)) m"
  by (induction m) auto

lemma events_refs_wake_all:
  "map (\<lambda>e. events_ref (snd e)) (ctx_map (wake_all is l)) = map (\<lambda>e. events_ref (snd e)) (ctx_map l)"
  by (induction "is" arbitrary: l) (simp_all add: set_context_def map_bt_modify unblock_def)

lemma queue_alive_wake_all [simp]:
  "list_ex (\<lambda>e. events_ref (snd e) = r) (ctx_map (wake_all is l)) \<longleftrightarrow>
   list_ex (\<lambda>e. events_ref (snd e) = r) (ctx_map l)"
proof -
  have *: "list_ex (\<lambda>e. events_ref (snd e) = r) m \<longleftrightarrow> r \<in> set (map (\<lambda>e. events_ref (snd e)) m)" for m :: "(usize, ctx) btree_map"
    by (auto simp: list_ex_iff)
  show ?thesis
    unfolding * events_refs_wake_all ..
qed

definition deliver :: "process_key \<times> ref \<Rightarrow> usize \<Rightarrow> usize \<Rightarrow> 'a event_world_scheme \<Rightarrow> 'a event_world_scheme" where
  "deliver e flags data w =
     (if queue_alive w (snd e) then
        w\<lparr>ew_queues := (ew_queues w)(snd e :=
             \<lparr>q_inner = q_inner (ew_queues w (snd e)) @ [\<lparr>ev_id = snd (fst e), ev_flags = flags, ev_data = data\<rparr>],
              q_condition = []\<rparr>),
          ew_contexts := wake_all (rev (q_condition (ew_queues w (snd e)))) (ew_contexts w)\<rparr>
      else w)"

lemma trigger_all_deliver:
  "trigger_all (e # es) flags data w = trigger_all es flags data (deliver e flags data w)"
  by (simp add: deliver_def send_def notify_def Let_def)

lemma deliver_simps [simp]:
  "queue_alive (deliver e flags data w) r \<longleftrightarrow> queue_alive w r"
  "ew_registry (deliver e flags data w) = ew_registry w"
  "ew_current (deliver e flags data w) = ew_current w"
  by (simp_all add: queue_alive_def deliver_def)

lemma deliver_queue:
  "q_inner (ew_queues (deliver e flags data w) r) = q_inner (ew_queues w r) @
     (if queue_alive w r \<and> snd e = r then [\<lparr>ev_id = snd (fst e), ev_flags = flags, ev_data = data\<rparr>] else [])"
  by (auto simp: deliver_def)

lemma trigger_all_simps [simp]:
  "ew_registry (trigger_all es flags data w) = ew_registry w"
  "ew_current (trigger_all es flags data w) = ew_current w"
  by (induction es arbitrary: w) (simp_all add: trigger_all_deliver del: trigger_all.simps(2))

lemma trigger_simps [simp]:
  "ew_registry (trigger sid eid flags data w) = ew_registry w"
  "ew_current (trigger sid eid flags data w) = ew_current w"
  by (simp_all add: trigger_def split: option.split)

lemma trigger_all_queue:
  "q_inner (ew_queues (trigger_all es flags data w) r) = q_inner (ew_queues w r) @
     (if queue_alive w r
      then map (\<lambda>e. \<lparr>ev_id = snd (fst e), ev_flags = flags, ev_data = data\<rparr>) (filter (\<lambda>e. snd e = r) es)
      else [])"
  by (induction es arbitrary: w) (auto simp: trigger_all_deliver deliver_queue simp del: trigger_all.simps(2))

lemma unblock_not_Blocked [simp]: "status (fst (unblock c)) \<noteq> Blocked"
  by (simp add: unblock_def)

lemma deliver_stays_awake:
  assumes "\<And>d. get_context (ew_contexts w) i = Some d \<Longrightarrow> status d \<noteq> Blocked"
    and "get_context (ew_contexts (deliver e flags data w)) i = Some d"
  shows "status d \<noteq> Blocked"
  using assms by (auto simp: deliver_def get_wake_all split: if_splits)

lemma trigger_all_stays_awake:
  assumes "\<And>d. get_context (ew_contexts w) i = Some d \<Longrightarrow> status d \<noteq> Blocked"
    and "get_context (ew_contexts (trigger_all es flags data w)) i = Some d"
  shows "status d \<noteq> Blocked"
  using assms
proof (induction es arbitrary: w)
  case (Cons e es)
  show ?case
    using Cons.IH[of "deliver e flags data w"] Cons.prems deliver_stays_awake[of w i e flags data]
    by (auto simp: trigger_all_deliver simp del: trigger_all.simps(2))
qed simp

lemma deliver_condition:
  "snd e \<noteq> r \<Longrightarrow> q_condition (ew_queues (deliver e flags data w) r) = q_condition (ew_queues w r)"
  by (simp add: deliver_def)

lemma trigger_all_wakes:
  assumes "queue_alive w r" "r \<in> snd ` set es" "i \<in> set (q_condition (ew_queues w r))"
    and "get_context (ew_contexts (trigger_all es flags data w)) i = Some d"
  shows "status d \<noteq> Blocked"
  using assms
proof (induction es arbitrary: w)
  case (Cons e es)
  show ?case
  proof (cases "snd e = r")
    case True
    have "status d' \<noteq> Blocked" if "get_context (ew_contexts (deliver e flags data w)) i = Some d'" for d'
      using that True Cons.prems(1,3) by (auto simp: deliver_def get_wake_all split: if_splits)
    then show ?thesis
      using trigger_all_stays_awake[of "deliver e flags data w" i] Cons.prems(4)
      by (auto simp: trigger_all_deliver simp del: trigger_all.simps(2))
  next
    case False
    then show ?thesis
      using Cons.IH[of "deliver e flags data w"] Cons.prems deliver_condition[of e r flags data w]
      by (auto simp: trigger_all_deliver simp del: trigger_all.simps(2))
  qed
qed simp

section \<open>Interrupt counts\<close>

lemma irq_trigger_all_simps [simp]:
  "irq_counts (trigger_all es flags data (s :: irq_world)) = irq_counts s"
  "irq_acks (trigger_all es flags data s) = irq_acks s"
  by (induction es arbitrary: s) (simp_all add: trigger_all_deliver deliver_def del: trigger_all.simps(2))

lemma irq_trigger_simps [simp]:
  "irq_counts (trigger sid eid flags data (s :: irq_world)) = irq_counts s"
  "irq_acks (trigger sid eid flags data s) = irq_acks s"
  by (simp_all add: trigger_def split: option.split)

text \<open>A sequence of interrupts.\<close>

fun irq_triggers :: "u8 list \<Rightarrow> irq_world \<Rightarrow> irq_world outcome" where
  "irq_triggers [] s = Return s"
| "irq_triggers (j # js) s = bind_outcome (irq_trigger j s) (irq_triggers js)"

lemma irq_triggers_counts:
  assumes "irq_triggers js s = Return s'"
  shows "irq_acks s' = irq_acks s \<and> length (irq_counts s') = length (irq_counts s) \<and>
    (\<forall>i < length (irq_counts s).
      irq_counts s' ! i = irq_counts s ! i + of_nat (length (filter (\<lambda>j. unat j = i) js)))"
  using assms
proof (induction js arbitrary: s)
  case (Cons j js)
  obtain t where t: "irq_trigger j s = Return t" "irq_triggers js t = Return s'"
    using Cons.prems by (auto simp: result_simps)
  then have "irq_acks t = irq_acks s" "length (irq_counts t) = length (irq_counts s)"
    "irq_counts t ! i = irq_counts s ! i + (if unat j = i then 1 else 0)" if "i < length (irq_counts s)" for i
    using that by (auto simp: irq_trigger_def nth_list_update split: if_splits)
  moreover have "irq_acks t = irq_acks s" "length (irq_counts t) = length (irq_counts s)"
    using t(1) by (auto simp: irq_trigger_def split: if_splits)
  ultimately show ?case
    using Cons.IH[OF t(2)] by auto
qed simp

section \<open>Properties\<close>

text \<open>
  Registering a descriptor subscribes the current context to an event of a scheme. Triggering that event
  then appends, to the queue of each live context, exactly one event for each of its subscribed descriptors,
  in the order of the registry, and to no other queue; everybody who sleeps on the subscriber's queue is
  awake afterwards. Unregistering puts the registry back exactly as it was.
\<close>

theorem events_delivered_once:
  assumes "registry_wf w" "get_context (ew_contexts w) (ew_current w) = Some c" "ctx_id c = ew_current w"
    and "register fd sid eid w = Return (True, w1)"
    and w2_def: "w2 = trigger sid eid flags data w1"
  shows "registry_wf w1 \<and> bt_get (subscriptions w1 (sid, eid)) (ew_current w, fd) = Some (events_ref c) \<and>
    (\<forall>r. q_inner (ew_queues w2 r) = q_inner (ew_queues w r) @
       (if queue_alive w r
        then map (\<lambda>e. \<lparr>ev_id = snd (fst e), ev_flags = flags, ev_data = data\<rparr>)
               (filter (\<lambda>e. snd e = r) (subscriptions w1 (sid, eid)))
        else [])) \<and>
    (\<forall>i\<in>set (q_condition (ew_queues w (events_ref c))). \<forall>d.
       get_context (ew_contexts w2) i = Some d \<longrightarrow> status d \<noteq> Blocked) \<and>
    ew_registry (unregister fd sid eid w2) = ew_registry w"
proof (intro conjI allI ballI impI)
  let ?es = "subscriptions w1 (sid, eid)"
  note r = register_True[OF assms(4,2)]
  have get: "bt_get (ew_registry w1) (sid, eid) = Some ?es"
    using r(1) by (simp add: subscriptions_def)
  have w2: "w2 = trigger_all ?es flags data w1"
    using get by (simp add: w2_def trigger_def)
  have world: "ew_queues w1 = ew_queues w" "ew_contexts w1 = ew_contexts w" "ew_current w1 = ew_current w"
    using r(1) by simp_all
  then have alive: "queue_alive w1 = queue_alive w"
    by (simp add: queue_alive_def fun_eq_iff)
  show wf1: "registry_wf w1"
    using assms(1,4) by (rule registry_wf_register)
  show sub: "bt_get ?es (ew_current w, fd) = Some (events_ref c)"
    using r(1) assms(3) by (simp add: subscriptions_def)
  show "q_inner (ew_queues w2 q) = q_inner (ew_queues w q) @ (if queue_alive w q
        then map (\<lambda>e. \<lparr>ev_id = snd (fst e), ev_flags = flags, ev_data = data\<rparr>) (filter (\<lambda>e. snd e = q) ?es)
        else [])" for q
    unfolding w2 trigger_all_queue world alive ..
  show "status d \<noteq> Blocked"
    if "i \<in> set (q_condition (ew_queues w (events_ref c)))" "get_context (ew_contexts w2) i = Some d" for i d
  proof (rule trigger_all_wakes)
    show "queue_alive w1 (events_ref c)"
      using bt_get_SomeD[of "ctx_map (ew_contexts w)"] assms(2)
      unfolding alive queue_alive_def get_context_def by (force simp: list_ex_iff)
    show "events_ref c \<in> snd ` set ?es"
      using sub registry_wf_subscriptions[OF wf1] by (force simp: bt_get_mem)
  qed (use that w2 world in auto)
  show "ew_registry (unregister fd sid eid w2) = ew_registry w"
    using world by (intro unregister_register[OF assms(1,4,2,3)]) (simp_all add: w2_def)
qed

text \<open>One context, number 1, that sleeps on its own event queue.\<close>

definition one_sleeper :: event_world where
  "one_sleeper =
     \<lparr>ew_registry = bt_empty, ew_queues = (\<lambda>_. \<lparr>q_inner = [], q_condition = [1]\<rparr>),
      ew_contexts = \<lparr>ctx_map = [(1, new_ctx 0 1)], ctx_next_id = 2\<rparr>, ew_current = 1\<rparr>"

theorem events_delivered_once_witness:
  "\<exists>w1. register 4 7 9 one_sleeper = Return (True, w1) \<and>
     q_inner (ew_queues (trigger 7 9 1 8 w1) 0) = [\<lparr>ev_id = 4, ev_flags = 1, ev_data = 8\<rparr>] \<and>
     ew_registry (unregister 4 7 9 (trigger 7 9 1 8 w1)) = bt_empty"
proof -
  let ?w1 = "one_sleeper\<lparr>ew_registry := [((7, 9), [((1, 4), 0)])]\<rparr>"
  have reg: "register 4 7 9 one_sleeper = Return (True, ?w1)"
    by (simp add: register_def one_sleeper_def get_context_def new_ctx_def bt_empty_def bt_contains_key_def)
  have hyps: "registry_wf one_sleeper"
    "get_context (ew_contexts one_sleeper) (ew_current one_sleeper) = Some (new_ctx 0 1)"
    "ctx_id (new_ctx 0 1) = ew_current one_sleeper"
    by (simp_all add: registry_wf_def one_sleeper_def get_context_def new_ctx_def)
  have "queue_alive one_sleeper 0" "subscriptions ?w1 (7, 9) = [((1, 4), 0)]"
    by (simp_all add: queue_alive_def one_sleeper_def new_ctx_def subscriptions_def)
  then show ?thesis
    using events_delivered_once[OF hyps reg refl, of 1 8] reg by (simp add: one_sleeper_def)
qed

text \<open>
  C28. No interrupt is lost between a read of \<open>irq:\<close> and the acknowledgement: if interrupts with the number
  read arrive in between, the write of the count that was read acknowledges nothing and returns 0, and the
  next read returns the new count; if none arrives, the write acknowledges the interrupt once and the next
  read returns 0. Interrupts with other numbers make no difference. Fewer than \<open>2 ^ 64\<close> interrupts may be
  unacknowledged at a time.
\<close>

theorem irq_no_lost_interrupt:
  assumes "irq_read i buf s = (Returned (Ok 8, buf'), s)" "irq_triggers js s = Return s'"
    and "n = length (filter (\<lambda>j. unat j = unat i) js)"
    and "unat (irq_counts s ! unat i - irq_acks s ! unat i) + n < 2 ^ 64"
  shows "if n > 0
    then irq_write i buf' s' = (Returned (Ok 0), s') \<and>
         irq_read i buf s' = (Returned (Ok 8, le_bytes 8 (irq_counts s ! unat i + of_nat n) @ drop 8 buf), s')
    else (let t = s'\<lparr>irq_acks := (irq_acks s)[unat i := irq_counts s ! unat i],
                    irq_acknowledged := irq_acknowledged s' @ [i]\<rparr>
          in irq_write i buf' s' = (Returned (Ok 8), t) \<and> irq_read i buf t = (Returned (Ok 0, buf), t))"
proof -
  let ?a = "irq_acks s ! unat i" and ?c = "irq_counts s ! unat i"
  have r: "8 \<le> length buf" "unat i < length (irq_acks s)" "unat i < length (irq_counts s)" "?a \<noteq> ?c"
    "buf' = le_bytes 8 ?c @ drop 8 buf"
    using assms(1) by (auto simp: irq_read_def Let_def split: if_splits)
  have t: "irq_acks s' = irq_acks s" "length (irq_counts s') = length (irq_counts s)"
    "irq_counts s' ! unat i = ?c + of_nat n"
    using irq_triggers_counts[OF assms(2)] r(3) assms(3) by auto
  have word: "le_word (take 8 buf') = ?c" "8 \<le> length buf'"
    using r(5) by (simp_all add: le_word_roundtrips)
  have n: "n < 2 ^ 64"
    using assms(4) by simp
  have zero: "(of_nat n :: usize) = 0 \<longleftrightarrow> n = 0"
    using n unat_of_nat_small[of n] by (auto simp del: unat_of_nat_small)
  have ack: "?a \<noteq> ?c + of_nat n" if "n > 0"
  proof
    assume eq: "?a = ?c + of_nat n"
    have "unat ((?c - ?a) + of_nat n) = unat (?c - ?a) + n"
      using assms(4) n by (subst unat_add_usize) simp_all
    moreover have "(?c - ?a) + of_nat n = 0"
      using eq by (simp add: algebra_simps)
    ultimately show False
      using that by simp
  qed
  show ?thesis
    using r t word zero ack by (auto simp: irq_read_def irq_write_def Let_def)
qed

text \<open>Interrupt 1 has come once and has not been acknowledged.\<close>

definition one_interrupt :: irq_world where
  "one_interrupt =
     \<lparr>ew_registry = bt_empty, ew_queues = (\<lambda>_. new_queue), ew_contexts = empty_contexts, ew_current = 0,
      irq_scheme_id = 3, irq_acks = replicate 16 0, irq_counts = (replicate 16 0)[1 := 1], irq_acknowledged = []\<rparr>"

theorem irq_no_lost_interrupt_witness:
  "\<exists>s'. irq_triggers [1, 2] one_interrupt = Return s' \<and>
     irq_write 1 (le_bytes 8 (1 :: usize)) s' = (Returned (Ok 0), s') \<and>
     irq_read 1 (replicate 8 0) s' = (Returned (Ok 8, le_bytes 8 (2 :: usize)), s')"
proof -
  have read: "irq_read 1 (replicate 8 0) one_interrupt = (Returned (Ok 8, le_bytes 8 (1 :: usize)), one_interrupt)"
    by (simp add: irq_read_def one_interrupt_def)
  obtain s' where s': "irq_triggers [1, 2] one_interrupt = Return s'"
    by (simp add: irq_trigger_def one_interrupt_def)
  have "irq_counts one_interrupt ! 1 = 1" "irq_acks one_interrupt ! 1 = 0"
    by (simp_all add: one_interrupt_def)
  then show ?thesis
    using irq_no_lost_interrupt[OF read s' refl] s' by simp
qed

end
