(* ===== verification/Initfs_Scheme.thy ===== *)
theory Initfs_Scheme
  imports Memory_Files
begin

text \<open>
  The \<open>initfs:\<close> scheme (\<open>kernel/scheme/initfs.rs\<close>): the read-only files that are linked into the kernel.
  The file table is generated by the build, so it is part of the state that \<open>InitFsScheme::new\<close> is given.
\<close>

record initfs =
  in_files :: "(bytes, bytes \<times> bool) btree_map"
  in_table :: mem_table

definition initfs_new :: "(bytes, bytes \<times> bool) btree_map \<Rightarrow> initfs" where
  "initfs_new files = \<lparr>in_files = files, in_table = new_table 0\<rparr>"

definition initfs_open :: "bytes \<Rightarrow> usize \<Rightarrow> u32 \<Rightarrow> u32 \<Rightarrow> (usize result, initfs) op" where
  "initfs_open path flags uid gid s =
     (if \<not> valid_utf8 path then (Returned (Err (Error ENOENT)), s)
      else case bt_get (in_files s) (trim_slashes path) of
        None \<Rightarrow> (Returned (Err (Error ENOENT)), s)
      | Some (data, dir) \<Rightarrow>
          let (i, t) = add_handle (in_table s)
                \<lparr>h_path = trim_slashes path, h_data = data,
                 h_mode = (if dir then MODE_DIR OR 493 else MODE_FILE OR 484), h_seek = 0\<rparr>
          in (Returned (Ok i), s\<lparr>in_table := t\<rparr>))"

definition initfs_dup :: "usize \<Rightarrow> bytes \<Rightarrow> (usize result, initfs) op" where
  "initfs_dup i buf s = (let (r, t) = mh_dup i (in_table s) in (Returned r, s\<lparr>in_table := t\<rparr>))"

definition initfs_read :: "usize \<Rightarrow> bytes \<Rightarrow> (usize result \<times> bytes, initfs) op" where
  "initfs_read i buf s = (let (r, t) = mh_read i buf (in_table s) in (Returned r, s\<lparr>in_table := t\<rparr>))"

definition initfs_seek :: "usize \<Rightarrow> usize \<Rightarrow> usize \<Rightarrow> (usize result, initfs) op" where
  "initfs_seek i pos whence s = (let (r, t) = mh_seek i pos whence (in_table s) in (Returned r, s\<lparr>in_table := t\<rparr>))"

definition initfs_fpath :: "usize \<Rightarrow> bytes \<Rightarrow> (usize result \<times> bytes, initfs) op" where
  "initfs_fpath i buf s = (Returned (mh_fpath (bytes_of ''initfs:'') i buf (in_table s)), s)"

definition initfs_fstat :: "usize \<Rightarrow> stat \<Rightarrow> (usize result \<times> stat, initfs) op" where
  "initfs_fstat i st s = (Returned (mh_fstat i st (in_table s)), s)"

definition initfs_fsync :: "usize \<Rightarrow> (usize result, initfs) op" where
  "initfs_fsync i = returns (Ok 0)"

definition initfs_close :: "usize \<Rightarrow> (usize result, initfs) op" where
  "initfs_close i s = (let (r, t) = close_handle (in_table s) i EBADF in (Returned r, s\<lparr>in_table := t\<rparr>))"

definition initfs_ops :: "initfs scheme_ops" where
  "initfs_ops = default_ops
     \<lparr>op_open := initfs_open, op_dup := initfs_dup, op_read := initfs_read, op_seek := initfs_seek,
      op_fpath := initfs_fpath, op_fstat := initfs_fstat, op_fsync := initfs_fsync, op_close := initfs_close\<rparr>"

lemma initfs_ops_simps [simp]:
  "op_open initfs_ops = initfs_open" "op_dup initfs_ops = initfs_dup" "op_read initfs_ops = initfs_read"
  "op_seek initfs_ops = initfs_seek" "op_fpath initfs_ops = initfs_fpath" "op_close initfs_ops = initfs_close"
  "op_write initfs_ops = (\<lambda>id buf. returns (Err (Error EBADF)))"
  by (simp_all add: initfs_ops_def default_ops_def)

interpretation initfs: file_scheme initfs_ops "\<lambda>s. mem_contents (in_table s)" "\<lambda>s. mem_cursor (in_table s)"
    "\<lambda>s. mem_inv (in_table s)"
proof unfold_locales
  fix s :: initfs and i d buf buf' n k pos whence r s'
  show "op_read initfs_ops i buf s = (Returned (r, buf'), s') \<Longrightarrow> length buf' = length buf"
    by (auto simp: initfs_read_def mh_read_length split: prod.splits)
  show "op_fpath initfs_ops i buf s = (Returned (r, buf'), s') \<Longrightarrow> length buf' = length buf"
    by (auto simp: initfs_fpath_def mh_fpath_length)
  assume inv: "mem_inv (in_table s)" and d: "mem_contents (in_table s) i = Some d"
  show "length d < 2 ^ 63"
    using inv d by (simp add: mem_inv_def)
  show "\<exists>s'. op_read initfs_ops i buf s = (Returned (Ok n, buf'), s') \<and> mem_inv (in_table s') \<and>
      mem_contents (in_table s') = mem_contents (in_table s) \<and> mem_cursor (in_table s') i = k"
    if "read_at d (mem_cursor (in_table s) i) buf = (buf', n, k)"
    using mh_read_contents [OF inv d that] by (auto simp: initfs_read_def)
  show "\<exists>s'. op_seek initfs_ops i pos whence s = (Returned (Ok k), s') \<and> mem_inv (in_table s') \<and>
      mem_contents (in_table s') = mem_contents (in_table s) \<and> mem_cursor (in_table s') i = k"
    if "seek_in d (mem_cursor (in_table s) i) pos whence = Ok k"
    using mh_seek_cursor [OF inv d that] by (auto simp: initfs_seek_def)
qed

text \<open>The state of the scheme: files short enough for a vector, handles with the files' bytes.\<close>

definition initfs_wf :: "initfs \<Rightarrow> bool" where
  "initfs_wf s \<longleftrightarrow> table_wf (in_table s) \<and> table_room (in_table s) \<and> mem_inv (in_table s) \<and>
     (\<forall>p d b. bt_get (in_files s) p = Some (d, b) \<longrightarrow> length d < 2 ^ 63)"

lemma mem_contents_add:
  "add_handle t h = (i, t') \<Longrightarrow> mem_contents t' = (mem_contents t)(i \<mapsto> h_data h)"
  by (auto simp: add_handle_def mem_contents_def fun_eq_iff)

lemma mem_cursor_add: "add_handle t h = (i, t') \<Longrightarrow> mem_cursor t' i = h_seek h"
  by (auto simp: add_handle_def mem_cursor_def)

text \<open>
  \<open>initfs:\<close> serves its files: opening a path of the table, with any slashes around it, returns a new
  handle; reading it in pieces of any sizes that together reach the file's length gives exactly the
  file's bytes; every handle that was open before still has its contents; and a write is refused.
\<close>

theorem initfs_serves_file:
  assumes "initfs_wf s" "valid_utf8 path" "bt_get (in_files s) (trim_slashes path) = Some (data, dir)"
    and "length data \<le> sum_list (map length bufs)"
  shows "\<exists>i s1 s2. initfs_open path flags uid gid s = (Returned (Ok i), s1) \<and>
    bt_get (handles (in_table s)) i = None \<and> read_many initfs_ops i bufs s1 = (data, s2) \<and>
    (\<forall>j. j \<noteq> i \<longrightarrow> mem_contents (in_table s2) j = mem_contents (in_table s) j) \<and>
    op_write initfs_ops i buf s2 = (Returned (Err (Error EBADF)), s2)"
proof -
  define h where "h = \<lparr>h_path = trim_slashes path, h_data = data,
      h_mode = (if dir then MODE_DIR OR 493 else MODE_FILE OR 484), h_seek = 0\<rparr>"
  obtain i t where add: "add_handle (in_table s) h = (i, t)"
    by (cases "add_handle (in_table s) h")
  define s1 where "s1 = s\<lparr>in_table := t\<rparr>"
  have open1: "initfs_open path flags uid gid s = (Returned (Ok i), s1)"
    using assms(2,3) add by (simp add: initfs_open_def h_def s1_def)
  have c: "mem_contents (in_table s1) = (mem_contents (in_table s))(i \<mapsto> data)"
    and k: "mem_cursor (in_table s1) i = 0"
    using mem_contents_add [OF add] mem_cursor_add [OF add] by (simp_all add: h_def s1_def)
  have inv: "mem_inv (in_table s1)"
  proof -
    have "length data < 2 ^ 63"
      using assms(1,3) unfolding initfs_wf_def by blast
    then show ?thesis
      using assms(1) unfolding initfs_wf_def mem_inv_def c by simp
  qed
  have fresh: "bt_get (handles (in_table s)) i = None"
    using add_handle_fresh [of "in_table s" h] assms(1) add by (simp add: initfs_wf_def)
  obtain s2 where "read_many initfs_ops i bufs s1 = (data, s2)" "mem_contents (in_table s2) = mem_contents (in_table s1)"
    using initfs.read_many_contents [OF inv, of i data bufs] c k assms(4) by auto
  then show ?thesis
    using open1 fresh c by (intro exI [of _ i] exI [of _ s1] exI [of _ s2]) (simp add: returns_def)
qed

text \<open>One file.\<close>

definition small_initfs :: initfs where
  "small_initfs = initfs_new [(bytes_of ''etc/init'', [1, 2, 3], False)]"

lemma small_initfs_ok:
  "initfs_wf small_initfs" "valid_utf8 (bytes_of ''/etc/init'')"
  "bt_get (in_files small_initfs) (trim_slashes (bytes_of ''/etc/init'')) = Some ([1, 2, 3], False)"
proof -
  show "initfs_wf small_initfs"
    by (auto simp: small_initfs_def initfs_wf_def initfs_new_def table_room_def new_table_def mem_inv_def mem_contents_def
        table_wf_def word_less_nat_alt unat_usize_max split: if_splits)
qed (simp_all add: small_initfs_def initfs_new_def bytes_of_def trim_slashes_def)

theorem initfs_serves_file_witness:
  "\<exists>i s1 s2. initfs_open (bytes_of ''/etc/init'') 0 0 0 small_initfs = (Returned (Ok i), s1) \<and>
     read_many initfs_ops i [[0, 0], [0, 0]] s1 = ([1, 2, 3], s2)"
  using initfs_serves_file [OF small_initfs_ok, of "[[0, 0], [0, 0]]" 0 0 0 "[]"] by auto

end
