(* ===== verification/File_Calls.thy ===== *)
theory File_Calls
  imports Pipes Events Initfs_Scheme Scheme_List
begin

text \<open>
  The file system calls (\<open>kernel/syscall/fs.rs\<close>): they find the scheme by the canonical path or by the file
  descriptor, call it, and keep the caller's descriptor table. How each scheme object implements the
  operations is the parameter \<open>impl\<close>; an operation may change the whole state. Where a scheme puts the caller
  to sleep the call waits; it is resumed in the scheme's operation.
\<close>

section \<open>State\<close>

text \<open>The descriptor tables and working directories are shared objects. \<open>fw_state\<close> is the state of the schemes.\<close>

record 's fs_world = event_world +
  fw_schemes :: scheme_list
  fw_files :: "ref \<Rightarrow> file_table"
  fw_cwds :: "ref \<Rightarrow> bytes"
  fw_pipes :: pipes
  fw_pipe_id :: usize
  fw_state :: 's

type_synonym 's impl = "scheme_object \<Rightarrow> 's fs_world scheme_ops"

definition current_context :: "'s fs_world \<Rightarrow> ctx option" where
  "current_context w = get_context (ew_contexts w) (ew_current w)"

definition set_files :: "ref \<Rightarrow> file_table \<Rightarrow> 's fs_world \<Rightarrow> 's fs_world" where
  "set_files r files w = w\<lparr>fw_files := (fw_files w)(r := files)\<rparr>"

definition then_attempt :: "'a attempt \<times> 'w \<Rightarrow> ('a \<Rightarrow> 'w \<Rightarrow> 'b attempt \<times> 'w) \<Rightarrow> 'b attempt \<times> 'w" where
  "then_attempt x k = (case x of (Returned a, w) \<Rightarrow> k a w | (Waits, w) \<Rightarrow> (Waits, w) | (Crashes, w) \<Rightarrow> (Crashes, w))"

definition of_outcome :: "'a result outcome \<Rightarrow> ('a \<Rightarrow> ('b result, 'w) op) \<Rightarrow> ('b result, 'w) op" where
  "of_outcome r k w =
     (case r of Panic \<Rightarrow> (Crashes, w) | Return (Err e) \<Rightarrow> (Returned (Err e), w) | Return (Ok a) \<Rightarrow> k a w)"

section \<open>Calls on descriptors\<close>

text \<open>The file that a descriptor of the caller stands for, its scheme and the caller.\<close>

definition fd_target :: "usize \<Rightarrow> 's fs_world \<Rightarrow> (kfile \<times> scheme_object \<times> ctx) result" where
  "fd_target fd w =
     (case current_context w of
        None \<Rightarrow> Err (Error ESRCH)
      | Some c \<Rightarrow>
          bind_result (ok_or (get_file (fw_files w (files_ref c)) fd) EBADF)
            (\<lambda>f. bind_result (ok_or (get_scheme (fw_schemes w) (f_scheme f)) EBADF) (\<lambda>s. Ok (f, s, c))))"

definition file_packet :: "usize \<Rightarrow> usize \<Rightarrow> usize \<Rightarrow> kfile \<Rightarrow> ctx \<Rightarrow> packet" where
  "file_packet a c d f ctx =
     \<lparr>pk_id = 0, pk_pid = ctx_id ctx, pk_uid = euid ctx, pk_gid = egid ctx, pk_a = a, pk_b = f_number f, pk_c = c, pk_d = d\<rparr>"

definition file_op ::
    "'s impl \<Rightarrow> usize \<Rightarrow> usize \<Rightarrow> usize \<Rightarrow> usize \<Rightarrow> 's fs_world scheme_process \<Rightarrow> usize result attempt \<times> 's fs_world scheme_process" where
  "file_op impl a fd c d w =
     (case fd_target fd (fst w) of
        Err e \<Rightarrow> (Returned (Err e), w)
      | Ok (f, s, ctx) \<Rightarrow>
          then_attempt (handle (impl s) (file_packet a c d f ctx) w) (\<lambda>packet w'. (Returned (demux (pk_a packet)), w')))"

definition file_op_slice ::
    "'s impl \<Rightarrow> usize \<Rightarrow> usize \<Rightarrow> usize \<times> usize \<Rightarrow> 's fs_world scheme_process \<Rightarrow> usize result attempt \<times> 's fs_world scheme_process" where
  "file_op_slice impl a fd buf = file_op impl a fd (fst buf) (snd buf)"

definition file_op_mut_slice ::
    "'s impl \<Rightarrow> usize \<Rightarrow> usize \<Rightarrow> usize \<times> usize \<Rightarrow> 's fs_world scheme_process \<Rightarrow> usize result attempt \<times> 's fs_world scheme_process" where
  "file_op_mut_slice impl a fd buf = file_op impl a fd (fst buf) (snd buf)"

text \<open>Giving a file to the caller.\<close>

definition give_file :: "kfile \<Rightarrow> (usize result, 's fs_world) op" where
  "give_file f w =
     (case current_context w of
        None \<Rightarrow> (Returned (Err (Error ESRCH)), w)
      | Some c \<Rightarrow>
          let (files, fd) = add_file (fw_files w (files_ref c)) f
          in (Returned (ok_or fd EMFILE), set_files (files_ref c) files w))"

definition close :: "'s impl \<Rightarrow> usize \<Rightarrow> (usize result, 's fs_world) op" where
  "close impl fd w =
     (case current_context w of
        None \<Rightarrow> (Returned (Err (Error ESRCH)), w)
      | Some c \<Rightarrow>
          (case remove_file (fw_files w (files_ref c)) fd of
             (files, None) \<Rightarrow> (Returned (Err (Error EBADF)), set_files (files_ref c) files w)
           | (files, Some f) \<Rightarrow>
               let w1 = set_files (files_ref c) files w;
                   w2 = (case f_event f of None \<Rightarrow> w1 | Some event_id \<Rightarrow> unregister fd (f_scheme f) event_id w1)
               in case get_scheme (fw_schemes w2) (f_scheme f) of
                    None \<Rightarrow> (Returned (Err (Error EBADF)), w2)
                  | Some s \<Rightarrow> op_close (impl s) (f_number f) w2))"

definition dup :: "'s impl \<Rightarrow> usize \<Rightarrow> bytes \<Rightarrow> (usize result, 's fs_world) op" where
  "dup impl fd buf w =
     (case fd_target fd w of
        Err e \<Rightarrow> (Returned (Err e), w)
      | Ok (f, s, _) \<Rightarrow>
          then_attempt (op_dup (impl s) (f_number f) buf w)
            (\<lambda>r w'. case r of
               Err e \<Rightarrow> (Returned (Err e), w')
             | Ok new_id \<Rightarrow> give_file \<lparr>f_scheme = f_scheme f, f_number = new_id, f_event = None\<rparr> w'))"

text \<open>
  \<open>fevent\<close>. \<open>File\<close> is \<open>Copy\<close> and \<open>Option::ok_or\<close> takes its argument by value, so \<open>let mut file\<close> is a copy:
  taking the old event out of it, or putting the new one in, does not reach the descriptor table.
\<close>

definition fevent :: "'s impl \<Rightarrow> usize \<Rightarrow> usize \<Rightarrow> (usize result, 's fs_world) op" where
  "fevent impl fd flags w =
     (case current_context w of
        None \<Rightarrow> (Returned (Err (Error ESRCH)), w)
      | Some c \<Rightarrow>
          (case get_file (fw_files w (files_ref c)) fd of
             None \<Rightarrow> (Returned (Err (Error EBADF)), w)
           | Some f \<Rightarrow>
               let w1 = (case f_event f of None \<Rightarrow> w | Some event_id \<Rightarrow> unregister fd (f_scheme f) event_id w)
               in case get_scheme (fw_schemes w1) (f_scheme f) of
                    None \<Rightarrow> (Returned (Err (Error EBADF)), w1)
                  | Some s \<Rightarrow>
                      then_attempt (op_fevent (impl s) (f_number f) flags w1)
                        (\<lambda>r w2. case r of
                           Err e \<Rightarrow> (Returned (Err e), w2)
                         | Ok event_id \<Rightarrow>
                             (case current_context w2 of
                                None \<Rightarrow> (Returned (Err (Error ESRCH)), w2)
                              | Some c2 \<Rightarrow>
                                  (case get_file (fw_files w2 (files_ref c2)) fd of
                                     None \<Rightarrow> (Returned (Err (Error EBADF)), w2)
                                   | Some _ \<Rightarrow>
                                       (case register fd (f_scheme f) event_id w2 of
                                          Panic \<Rightarrow> (Crashes, w2)
                                        | Return (_, w3) \<Rightarrow> (Returned (Ok 0), w3)))))))"

section \<open>Calls on paths\<close>

text \<open>\<open>path.splitn(2, |&b| b == b':')\<close>\<close>

definition splitn_colon :: "bytes \<Rightarrow> bytes \<times> bytes option" where
  "splitn_colon path =
     (case position (\<lambda>b. b = colon) path of
        None \<Rightarrow> (path, None)
      | Some i \<Rightarrow> (take i path, Some (drop (Suc i) path)))"

text \<open>The scheme of a path, with its identifier, the rest of the path, and the caller's user and group.\<close>

definition resolve :: "bytes \<Rightarrow> 's fs_world \<Rightarrow> (usize \<times> scheme_object \<times> bytes \<times> u32 \<times> u32) result outcome" where
  "resolve path w =
     (case current_context w of
        None \<Rightarrow> Return (Err (Error ESRCH))
      | Some c \<Rightarrow>
          bind_outcome (canonicalize (fw_cwds w (cwd_ref c)) path) (\<lambda>path_canon.
            let parts = splitn_colon path_canon;
                scheme_name = fst parts;
                reference = (case snd parts of None \<Rightarrow> [] | Some r \<Rightarrow> r)
            in bind_outcome (get_name (fw_schemes w) (ens c) scheme_name)
                 (\<lambda>r. Return (case r of
                    None \<Rightarrow> Err (Error ENODEV)
                  | Some (scheme_id, s) \<Rightarrow> Ok (scheme_id, s, reference, euid c, egid c)))))"

definition open_call :: "'s impl \<Rightarrow> bytes \<Rightarrow> usize \<Rightarrow> (usize result, 's fs_world) op" where
  "open_call impl path flags w =
     of_outcome (resolve path w) (\<lambda>(scheme_id, s, reference, uid, gid) w.
       then_attempt (op_open (impl s) reference flags uid gid w)
         (\<lambda>r w'. case r of
            Err e \<Rightarrow> (Returned (Err e), w')
          | Ok file_id \<Rightarrow> give_file \<lparr>f_scheme = scheme_id, f_number = file_id, f_event = None\<rparr> w')) w"

definition chmod :: "'s impl \<Rightarrow> bytes \<Rightarrow> u16 \<Rightarrow> (usize result, 's fs_world) op" where
  "chmod impl path mode w =
     of_outcome (resolve path w) (\<lambda>(_, s, reference, uid, gid). op_chmod (impl s) reference mode uid gid) w"

definition rmdir :: "'s impl \<Rightarrow> bytes \<Rightarrow> (usize result, 's fs_world) op" where
  "rmdir impl path w = of_outcome (resolve path w) (\<lambda>(_, s, reference, uid, gid). op_rmdir (impl s) reference uid gid) w"

definition unlink :: "'s impl \<Rightarrow> bytes \<Rightarrow> (usize result, 's fs_world) op" where
  "unlink impl path w = of_outcome (resolve path w) (\<lambda>(_, s, reference, uid, gid). op_unlink (impl s) reference uid gid) w"

text \<open>\<open>chdir\<close>; \<open>stat_ptr\<close> is where the local variable \<open>stat\<close> lies.\<close>

definition chdir :: "'s impl \<Rightarrow> usize \<Rightarrow> bytes \<Rightarrow> 's fs_world scheme_process \<Rightarrow> usize result attempt \<times> 's fs_world scheme_process" where
  "chdir impl stat_ptr path w =
     then_attempt (plain (open_call impl path (O_RDONLY OR O_DIRECTORY)) w) (\<lambda>r w.
       case r of
         Err e \<Rightarrow> (Returned (Err e), w)
       | Ok fd \<Rightarrow>
           let w = (fst w, store_at (snd w) stat_ptr (replicate size_of_stat 0))
           in then_attempt (file_op_mut_slice impl SYS_FSTAT fd (stat_ptr, of_nat size_of_stat) w) (\<lambda>stat_res w.
                then_attempt (plain (close impl fd) w) (\<lambda>_ w.
                  case stat_res of
                    Err e \<Rightarrow> (Returned (Err e), w)
                  | Ok _ \<Rightarrow>
                      if st_mode (decode_stat (slice_at (snd w) stat_ptr size_of_stat)) AND (MODE_FILE OR MODE_DIR) = MODE_DIR
                      then case current_context (fst w) of
                             None \<Rightarrow> (Returned (Err (Error ESRCH)), w)
                           | Some c \<Rightarrow>
                               (case canonicalize (fw_cwds (fst w) (cwd_ref c)) path of
                                  Panic \<Rightarrow> (Crashes, w)
                                | Return canonical \<Rightarrow>
                                    (Returned (Ok 0),
                                     ((fst w)\<lparr>fw_cwds := (fw_cwds (fst w))(cwd_ref c := canonical)\<rparr>, snd w)))
                      else (Returned (Err (Error ENOTDIR)), w))))"

definition getcwd :: "bytes \<Rightarrow> 's fs_world \<Rightarrow> usize result \<times> bytes" where
  "getcwd buf w =
     (case current_context w of
        None \<Rightarrow> (Err (Error ESRCH), buf)
      | Some c \<Rightarrow> let (buf', n) = copy_into buf (fw_cwds w (cwd_ref c)) in (Ok (of_nat n), buf'))"

text \<open>\<open>pipe2\<close>; the new contents of \<open>fds\<close> are part of the result.\<close>

definition pipe2 :: "usize list \<Rightarrow> usize \<Rightarrow> 's fs_world \<Rightarrow> (usize result \<times> usize list) attempt \<times> 's fs_world" where
  "pipe2 fds flags w =
     (if length fds \<ge> 2 then
        let ((read_id, write_id), ps) = pipe flags (fw_pipes w);
            scheme_id = fw_pipe_id w;
            w1 = w\<lparr>fw_pipes := ps\<rparr>
        in then_attempt (give_file \<lparr>f_scheme = scheme_id, f_number = read_id, f_event = None\<rparr> w1) (\<lambda>r w2.
             case r of
               Err e \<Rightarrow> (Returned (Err e, fds), w2)
             | Ok read_fd \<Rightarrow>
                 then_attempt (give_file \<lparr>f_scheme = scheme_id, f_number = write_id, f_event = None\<rparr> w2) (\<lambda>r w3.
                   case r of
                     Err e \<Rightarrow> (Returned (Err e, fds), w3)
                   | Ok write_fd \<Rightarrow> (Returned (Ok 0, fds[0 := read_fd, 1 := write_fd]), w3)))
      else (Returned (Err (Error EFAULT), fds), w))"

section \<open>Schemes that leave the caller's tables alone\<close>

text \<open>
  A scheme operation may wake or block contexts and change the scheme's own state, but not the descriptor
  tables, the working directories, the list of schemes, the registered events or the identity of a context.
\<close>

definition identity :: "ctx \<Rightarrow> ctx" where
  "identity c = c\<lparr>status := Runnable\<rparr>"

definition keeps :: "'s fs_world \<Rightarrow> 's fs_world \<Rightarrow> bool" where
  "keeps w w' \<longleftrightarrow> fw_files w' = fw_files w \<and> fw_cwds w' = fw_cwds w \<and> fw_schemes w' = fw_schemes w \<and>
     ew_current w' = ew_current w \<and> ew_registry w' = ew_registry w \<and>
     (\<forall>i. map_option identity (get_context (ew_contexts w') i) = map_option identity (get_context (ew_contexts w) i))"

lemma keeps_refl [simp]: "keeps w w"
  by (simp add: keeps_def)

lemma keeps_context:
  assumes "keeps w w'" "current_context w = Some c"
  obtains c' where "current_context w' = Some c'" "files_ref c' = files_ref c" "cwd_ref c' = cwd_ref c" "ctx_id c' = ctx_id c"
    "euid c' = euid c" "egid c' = egid c" "ens c' = ens c"
proof -
  have "map_option identity (current_context w') = Some (identity c)"
    using assms by (simp add: keeps_def current_context_def)
  then obtain c' where c': "current_context w' = Some c'" "identity c' = identity c"
    by auto
  have "files_ref c' = files_ref (identity c')" "cwd_ref c' = cwd_ref (identity c')" "ctx_id c' = ctx_id (identity c')"
    "euid c' = euid (identity c')" "egid c' = egid (identity c')" "ens c' = ens (identity c')"
    by (simp_all add: identity_def)
  then show thesis
    using that[OF c'(1)] unfolding c'(2) by (simp add: identity_def)
qed

lemma resolve_scheme:
  "resolve path w = Return (Ok (sid, s, reference, u, g)) \<Longrightarrow> get_scheme (fw_schemes w) sid = Some s"
  by (auto simp: resolve_def get_name_def Let_def bind_outcome_Return_iff split: option.splits)

locale quiet_schemes =
  fixes impl :: "'s impl"
  assumes open_keeps: "op_open (impl s) p fl u g w = (r, w') \<Longrightarrow> keeps w w'"
    and dup_keeps: "op_dup (impl s) i buf w = (r, w') \<Longrightarrow> keeps w w'"
    and fevent_keeps: "op_fevent (impl s) i fl w = (r, w') \<Longrightarrow> keeps w w'"
    and close_keeps: "op_close (impl s) i w = (r, w') \<Longrightarrow> keeps w w'"
begin

text \<open>Opening: the resolved scheme is asked with the caller's user and group, and one descriptor is new.\<close>

lemma open_call_Ok:
  assumes "open_call impl path flags w = (Returned (Ok fd), w')"
  obtains c sid s reference n w1 where "current_context w = Some c"
    "resolve path w = Return (Ok (sid, s, reference, euid c, egid c))"
    "op_open (impl s) reference flags (euid c) (egid c) w = (Returned (Ok n), w1)"
    "add_file (fw_files w (files_ref c)) \<lparr>f_scheme = sid, f_number = n, f_event = None\<rparr> = (fw_files w' (files_ref c), Some fd)"
    "keeps w w1" "w' = set_files (files_ref c) (fw_files w' (files_ref c)) w1"
proof -
  obtain c where c: "current_context w = Some c"
    using assms by (cases "current_context w") (auto simp: open_call_def of_outcome_def resolve_def)
  then obtain sid s reference where r: "resolve path w = Return (Ok (sid, s, reference, euid c, egid c))"
    using assms by (auto simp: open_call_def of_outcome_def resolve_def Let_def bind_outcome_Return_iff
        split: outcome.splits result.splits prod.splits option.splits)
  then obtain n w1 where o: "op_open (impl s) reference flags (euid c) (egid c) w = (Returned (Ok n), w1)"
    and g: "give_file \<lparr>f_scheme = sid, f_number = n, f_event = None\<rparr> w1 = (Returned (Ok fd), w')"
    using assms by (auto simp: open_call_def of_outcome_def then_attempt_def split: prod.splits attempt.splits result.splits)
  have k: "keeps w w1"
    using open_keeps[OF o] .
  then obtain c1 where c1: "current_context w1 = Some c1" "files_ref c1 = files_ref c"
    using c by (rule keeps_context)
  have "add_file (fw_files w (files_ref c)) \<lparr>f_scheme = sid, f_number = n, f_event = None\<rparr> = (fw_files w' (files_ref c), Some fd)"
    "w' = set_files (files_ref c) (fw_files w' (files_ref c)) w1"
    using g c1 k by (auto simp: give_file_def Let_def set_files_def keeps_def ok_or_Ok_iff split: prod.splits)
  then show thesis
    using that c r o k by blast
qed

end

section \<open>The schemes whose state is a table in memory\<close>

text \<open>A scheme with its own state, as part of a larger state.\<close>

definition lift_op :: "('w \<Rightarrow> 's) \<Rightarrow> ('s \<Rightarrow> 'w \<Rightarrow> 'w) \<Rightarrow> ('r, 's) op \<Rightarrow> ('r, 'w) op" where
  "lift_op get put f w = (let (r, s) = f (get w) in (r, put s w))"

definition lift_ops :: "('w \<Rightarrow> 's) \<Rightarrow> ('s \<Rightarrow> 'w \<Rightarrow> 'w) \<Rightarrow> 's scheme_ops \<Rightarrow> 'w scheme_ops" where
  "lift_ops get put ops =
     \<lparr>op_open = (\<lambda>path flags uid gid. lift_op get put (op_open ops path flags uid gid)),
      op_chmod = (\<lambda>path mode uid gid. lift_op get put (op_chmod ops path mode uid gid)),
      op_rmdir = (\<lambda>path uid gid. lift_op get put (op_rmdir ops path uid gid)),
      op_unlink = (\<lambda>path uid gid. lift_op get put (op_unlink ops path uid gid)),
      op_dup = (\<lambda>i buf. lift_op get put (op_dup ops i buf)),
      op_read = (\<lambda>i buf. lift_op get put (op_read ops i buf)),
      op_write = (\<lambda>i buf. lift_op get put (op_write ops i buf)),
      op_seek = (\<lambda>i pos whence. lift_op get put (op_seek ops i pos whence)),
      op_fcntl = (\<lambda>i cmd arg. lift_op get put (op_fcntl ops i cmd arg)),
      op_fevent = (\<lambda>i flags. lift_op get put (op_fevent ops i flags)),
      op_fmap = (\<lambda>i offset n. lift_op get put (op_fmap ops i offset n)),
      op_fpath = (\<lambda>i buf. lift_op get put (op_fpath ops i buf)),
      op_fstat = (\<lambda>i stat. lift_op get put (op_fstat ops i stat)),
      op_fstatvfs = (\<lambda>i stat. lift_op get put (op_fstatvfs ops i stat)),
      op_fsync = (\<lambda>i. lift_op get put (op_fsync ops i)),
      op_ftruncate = (\<lambda>i len. lift_op get put (op_ftruncate ops i len)),
      op_close = (\<lambda>i. lift_op get put (op_close ops i))\<rparr>"

text \<open>\<open>null:\<close>, \<open>zero:\<close>, \<open>initfs:\<close> and \<open>debug:\<close> over one state; the other schemes are left out here.\<close>

record kernel_state =
  ks_initfs :: initfs
  ks_debug_id :: usize
  ks_input :: "u8 wait_queue"
  ks_output :: bytes

definition get_debug :: "kernel_state fs_world \<Rightarrow> debug_world" where
  "get_debug w =
     \<lparr>ew_registry = ew_registry w, ew_queues = ew_queues w, ew_contexts = ew_contexts w, ew_current = ew_current w,
      dbg_scheme_id = ks_debug_id (fw_state w), dbg_input = ks_input (fw_state w), dbg_output = ks_output (fw_state w)\<rparr>"

definition put_debug :: "debug_world \<Rightarrow> kernel_state fs_world \<Rightarrow> kernel_state fs_world" where
  "put_debug s w =
     w\<lparr>ew_queues := ew_queues s, ew_contexts := ew_contexts s,
       fw_state := (fw_state w)\<lparr>ks_input := dbg_input s, ks_output := dbg_output s\<rparr>\<rparr>"

definition memory_impl :: "kernel_state impl" where
  "memory_impl s =
     (case s of
        NullScheme \<Rightarrow> lift_ops (\<lambda>_. ()) (\<lambda>_ w. w) null_ops
      | ZeroScheme \<Rightarrow> lift_ops (\<lambda>_. ()) (\<lambda>_ w. w) zero_ops
      | InitFsScheme \<Rightarrow>
          lift_ops (\<lambda>w. ks_initfs (fw_state w)) (\<lambda>t w. w\<lparr>fw_state := (fw_state w)\<lparr>ks_initfs := t\<rparr>\<rparr>) initfs_ops
      | DebugScheme _ \<Rightarrow> lift_ops get_debug put_debug debug_ops
      | _ \<Rightarrow> default_ops)"

lemma put_get_debug [simp]: "put_debug (get_debug w) w = w"
  by (simp add: put_debug_def get_debug_def)

lemma keeps_state [simp]: "keeps w (w\<lparr>fw_state := t\<rparr>)"
  by (simp add: keeps_def)

interpretation memory_schemes: quiet_schemes memory_impl
  by unfold_locales
    (auto simp: memory_impl_def lift_ops_def lift_op_def default_ops_def debug_ops_def null_ops_def zero_ops_def returns_def split: scheme_object.splits prod.splits)

section \<open>Properties\<close>


text \<open>One runnable context, the \<open>null:\<close> scheme, and no open file.\<close>

definition small_fs :: "kernel_state fs_world" where
  "small_fs =
     \<lparr>ew_registry = bt_empty, ew_queues = (\<lambda>_. new_queue), ew_contexts = one_runnable, ew_current = 1, fw_schemes = one_namespace,
      fw_files = (\<lambda>_. []), fw_cwds = (\<lambda>_. bytes_of ''null:''), fw_pipes = new_pipes one_runnable 1, fw_pipe_id = 0,
      fw_state = \<lparr>ks_initfs = initfs_new [], ks_debug_id = 2, ks_input = new_queue, ks_output = []\<rparr>\<rparr>"

lemma small_fs_context: "current_context small_fs = Some ((new_ctx 0 1)\<lparr>status := Runnable\<rparr>)"
  by (simp add: current_context_def small_fs_def one_runnable_def get_context_def)

lemma small_fs_open: "open_call memory_impl (bytes_of ''null:x'') 0 small_fs =
  (Returned (Ok 0), set_files 0 [Some \<lparr>f_scheme = 1, f_number = 0, f_event = None\<rparr>] small_fs)"
proof -
  have "resolve (bytes_of ''null:x'') small_fs = Return (Ok (1, NullScheme, bytes_of ''x'', 0, 0))"
    by (simp add: resolve_def small_fs_context canonicalize_def splitn_colon_def get_name_def get_scheme_def bytes_of_def)
      (simp add: small_fs_def one_namespace_def new_ctx_def get_scheme_def bytes_of_def)
  then show ?thesis
    by (simp add: open_call_def of_outcome_def memory_impl_def lift_ops_def lift_op_def null_ops_def returns_def then_attempt_def
        give_file_def small_fs_context)
      (simp add: add_file_def small_fs_def new_ctx_def CONTEXT_MAX_FILES_def)
qed


text \<open>
  C33. \<open>fevent\<close> never stores the event in the descriptor table, so \<open>close\<close> does not know of it: after a
  successful \<open>fevent\<close> on a descriptor the tables are unchanged, and when the descriptor is closed the
  subscription of this context and descriptor stays in the registry.
\<close>

theorem fevent_survives_close:
  assumes "quiet_schemes impl" "current_context w = Some c" "get_file (fw_files w (files_ref c)) fd = Some f" "f_event f = None"
    and "fevent impl fd flags w = (Returned (Ok 0), w1)" "close impl fd w1 = (Returned r, w2)"
  shows "fw_files w1 = fw_files w \<and>
    (\<exists>event_id. bt_get (subscriptions w1 (f_scheme f, event_id)) (ctx_id c, fd) \<noteq> None \<and>
      bt_get (subscriptions w2 (f_scheme f, event_id)) (ctx_id c, fd) \<noteq> None \<and>
      get_file (fw_files w2 (files_ref c)) fd = None)"
proof -
  obtain s event_id wa b where s: "op_fevent (impl s) (f_number f) flags w = (Returned (Ok event_id), wa)"
    and reg: "register fd (f_scheme f) event_id wa = Return (b, w1)"
    using assms(2-5) by (auto simp: fevent_def then_attempt_def Let_def
        split: option.splits prod.splits attempt.splits result.splits outcome.splits)
  have k: "keeps w wa"
    using quiet_schemes.fevent_keeps[OF assms(1) s] .
  then obtain ca where ca: "current_context wa = Some ca" "files_ref ca = files_ref c" "ctx_id ca = ctx_id c"
    using assms(2) by (rule keeps_context)
  have w1: "fw_files w1 = fw_files w" "current_context w1 = Some ca"
    "bt_get (subscriptions w1 (f_scheme f, event_id)) (ctx_id c, fd) \<noteq> None"
    using reg ca k by (auto simp: register_def current_context_def subscriptions_def keeps_def bt_contains_key_def Let_def
        split: option.splits if_splits)
  have "unat fd < length (fw_files w (files_ref c))" "fw_files w (files_ref c) ! unat fd = Some f"
    using assms(3) by (auto simp: get_file_def split: if_splits)
  then have "keeps (set_files (files_ref c) (fst (remove_file (fw_files w (files_ref c)) fd)) w1) w2"
    using assms(4,6) w1 ca by (auto simp: close_def remove_file_def set_files_def Let_def
        intro: quiet_schemes.close_keeps[OF assms(1)] split: option.splits)
  then have "ew_registry w2 = ew_registry w1" "fw_files w2 (files_ref c) = fst (remove_file (fw_files w (files_ref c)) fd)"
    by (simp_all add: keeps_def set_files_def)
  then show ?thesis
    using w1 by (auto simp: get_remove_file subscriptions_def)
qed


text \<open>The same with one open file of the \<open>debug:\<close> scheme.\<close>

definition debug_fs :: "kernel_state fs_world" where
  "debug_fs = small_fs\<lparr>fw_schemes := one_namespace\<lparr>sl_map := [(1, NullScheme), (2, DebugScheme 2)]\<rparr>,
     fw_files := (\<lambda>_. [Some \<lparr>f_scheme = 2, f_number = 0, f_event = None\<rparr>])\<rparr>"

theorem fevent_survives_close_witness:
  "\<exists>w1 w2 event_id. fevent memory_impl 0 EVENT_READ debug_fs = (Returned (Ok 0), w1) \<and>
     close memory_impl 0 w1 = (Returned (Ok 0), w2) \<and> get_file (fw_files w2 0) 0 = None \<and>
     bt_get (subscriptions w2 (2, event_id)) (1, 0) \<noteq> None"
proof -
  let ?f = "\<lparr>f_scheme = 2, f_number = 0, f_event = None\<rparr>" and ?c = "(new_ctx 0 1)\<lparr>status := Runnable\<rparr>"
  let ?w1 = "debug_fs\<lparr>ew_registry := [((2, 0), [((1, 0), 0)])]\<rparr>"
  let ?w2 = "?w1\<lparr>fw_files := (fw_files debug_fs)(0 := [None])\<rparr>"
  have c: "current_context debug_fs = Some ?c" "current_context ?w1 = Some ?c"
    using small_fs_context by (simp_all add: current_context_def debug_fs_def)
  have f: "get_file (fw_files debug_fs (files_ref ?c)) 0 = Some ?f" "get_scheme (fw_schemes debug_fs) 2 = Some (DebugScheme 2)"
    "files_ref ?c = 0" "ew_registry debug_fs = []"
    by (simp_all add: debug_fs_def small_fs_def get_file_def get_scheme_def new_ctx_def bt_empty_def)
  have ops: "op_fevent (memory_impl (DebugScheme 2)) i fl w = (Returned (Ok 0), w)"
    "op_close (memory_impl (DebugScheme 2)) i w = (Returned (Ok 0), w)" for i fl w
    by (simp_all add: memory_impl_def lift_ops_def lift_op_def debug_ops_def returns_def)
  have "register 0 2 0 debug_fs = Return (True, ?w1)"
    using c(1) f(4) by (simp add: register_def current_context_def bt_contains_key_def bt_empty_def new_ctx_def)
  then have 1: "fevent memory_impl 0 EVENT_READ debug_fs = (Returned (Ok 0), ?w1)"
    using c f by (simp add: fevent_def then_attempt_def ops)
  have 2: "close memory_impl 0 ?w1 = (Returned (Ok 0), ?w2)"
    using c f by (simp add: close_def remove_file_def set_files_def ops get_file_def split: if_splits) (simp add: debug_fs_def)
  have "f_event ?f = None" "files_ref ?c = 0" "ctx_id ?c = 1"
    by (simp_all add: new_ctx_def)
  then show ?thesis
    using fevent_survives_close[OF memory_schemes.quiet_schemes_axioms c(1) f(1) _ 1 2] 1 2 by auto
qed

end
