(* ===== verification/Syscall_Dispatch.thy ===== *)
theory Syscall_Dispatch
  imports Byte_Encoding
begin

text \<open>
  How a system call gets from a program into the kernel: the wrappers of the system call crate
  (\<open>syscall/src/call.rs\<close>), the registers they load (\<open>syscall/src/x86_64.rs\<close>, read back by
  \<open>arch/x86_64/src/interrupt/syscall.rs\<close>), the checking of user pointers (\<open>kernel/syscall/validate.rs\<close>,
  over the page walk, which is a parameter here) and the dispatcher (\<open>kernel/syscall/mod.rs\<close>). A
  decoded call is a value of \<open>kcall\<close>; the handlers themselves are in the theories of their components.
\<close>

section \<open>Registers (x86_64.rs)\<close>

record regs =
  rax :: usize
  rbx :: usize
  rcx :: usize
  rdx :: usize
  rsi :: usize
  rdi :: usize

text \<open>
  The register contents at \<open>int 0x80\<close>; \<open>r\<close> holds what the registers that the wrapper does not load
  happen to contain.
\<close>

definition syscall0 :: "usize \<Rightarrow> regs \<Rightarrow> regs" where
  "syscall0 a r = r\<lparr>rax := a\<rparr>"

definition syscall1 :: "usize \<Rightarrow> usize \<Rightarrow> regs \<Rightarrow> regs" where
  "syscall1 a b r = r\<lparr>rax := a, rbx := b\<rparr>"

definition syscall1_clobber :: "usize \<Rightarrow> usize \<Rightarrow> regs \<Rightarrow> regs" where
  "syscall1_clobber a b r = r\<lparr>rax := a, rbx := b\<rparr>"

definition syscall2 :: "usize \<Rightarrow> usize \<Rightarrow> usize \<Rightarrow> regs \<Rightarrow> regs" where
  "syscall2 a b c r = r\<lparr>rax := a, rbx := b, rcx := c\<rparr>"

definition syscall3 :: "usize \<Rightarrow> usize \<Rightarrow> usize \<Rightarrow> usize \<Rightarrow> regs \<Rightarrow> regs" where
  "syscall3 a b c d r = r\<lparr>rax := a, rbx := b, rcx := c, rdx := d\<rparr>"

definition syscall4 :: "usize \<Rightarrow> usize \<Rightarrow> usize \<Rightarrow> usize \<Rightarrow> usize \<Rightarrow> regs \<Rightarrow> regs" where
  "syscall4 a b c d e r = r\<lparr>rax := a, rbx := b, rcx := c, rdx := d, rsi := e\<rparr>"

definition syscall5 :: "usize \<Rightarrow> usize \<Rightarrow> usize \<Rightarrow> usize \<Rightarrow> usize \<Rightarrow> usize \<Rightarrow> regs \<Rightarrow> regs" where
  "syscall5 a b c d e f r = r\<lparr>rax := a, rbx := b, rcx := c, rdx := d, rsi := e, rdi := f\<rparr>"

section \<open>The wrappers (call.rs)\<close>

text \<open>A slice argument is its address and its length in elements; other references are addresses.\<close>

type_synonym slice = "usize \<times> usize"

datatype (plugins only: code size) ucall =
    UBrk usize | UChdir slice | UChmod slice usize | UClone usize | UClose usize
  | UClockGettime usize usize | UDup usize slice | UExecve slice slice | UExit usize
  | UFcntl usize usize usize | UFevent usize usize | UFmap usize usize usize | UFunmap usize
  | UFpath usize slice | UFstat usize usize | UFstatvfs usize usize | UFsync usize
  | UFtruncate usize usize | UFutex usize usize i32 usize usize | UGetcwd slice | UGetegid | UGetens
  | UGeteuid | UGetgid | UGetns | UGetpid | UGetuid | UIopl usize | UKill usize usize
  | ULink usize usize | ULseek usize usize usize | UMkns slice | UNanosleep usize usize
  | UOpen slice usize | UPhysalloc usize | UPhysfree usize usize | UPhysmap usize usize usize
  | UPhysunmap usize | UPipe2 usize usize | URead usize slice | URmdir slice | USetregid usize usize
  | USetrens usize usize | USetreuid usize usize | UUnlink slice | UVirttophys usize
  | UWaitpid usize usize usize | UWrite usize slice | USchedYield

fun registers :: "ucall \<Rightarrow> regs \<Rightarrow> regs" where
  "registers (UBrk addr) = syscall1 SYS_BRK addr"
| "registers (UChdir path) = syscall2 SYS_CHDIR (fst path) (snd path)"
| "registers (UChmod path mode) = syscall3 SYS_CHMOD (fst path) (snd path) mode"
| "registers (UClone flags) = syscall1_clobber SYS_CLONE flags"
| "registers (UClose fd) = syscall1 SYS_CLOSE fd"
| "registers (UClockGettime clock tp) = syscall2 SYS_CLOCK_GETTIME clock tp"
| "registers (UDup fd buf) = syscall3 SYS_DUP fd (fst buf) (snd buf)"
| "registers (UExecve path args) = syscall4 SYS_EXECVE (fst path) (snd path) (fst args) (snd args)"
| "registers (UExit stat) = syscall1 SYS_EXIT stat"
| "registers (UFcntl fd cmd arg) = syscall3 SYS_FCNTL fd cmd arg"
| "registers (UFevent fd flags) = syscall2 SYS_FEVENT fd flags"
| "registers (UFmap fd offset sz) = syscall3 SYS_FMAP fd offset sz"
| "registers (UFunmap addr) = syscall1 SYS_FUNMAP addr"
| "registers (UFpath fd buf) = syscall3 SYS_FPATH fd (fst buf) (snd buf)"
| "registers (UFstat fd st) = syscall3 SYS_FSTAT fd st (of_nat size_of_stat)"
| "registers (UFstatvfs fd st) = syscall3 SYS_FSTATVFS fd st (of_nat size_of_stat_vfs)"
| "registers (UFsync fd) = syscall1 SYS_FSYNC fd"
| "registers (UFtruncate fd len) = syscall2 SYS_FTRUNCATE fd len"
| "registers (UFutex addr fop val val2 addr2) = syscall5 SYS_FUTEX addr fop (scast val) val2 addr2"
| "registers (UGetcwd buf) = syscall2 SYS_GETCWD (fst buf) (snd buf)"
| "registers UGetegid = syscall0 SYS_GETEGID"
| "registers UGetens = syscall0 SYS_GETENS"
| "registers UGeteuid = syscall0 SYS_GETEUID"
| "registers UGetgid = syscall0 SYS_GETGID"
| "registers UGetns = syscall0 SYS_GETNS"
| "registers UGetpid = syscall0 SYS_GETPID"
| "registers UGetuid = syscall0 SYS_GETUID"
| "registers (UIopl level) = syscall1 SYS_IOPL level"
| "registers (UKill pid sig) = syscall2 SYS_KILL pid sig"
| "registers (ULink old new) = syscall2 SYS_LINK old new"
| "registers (ULseek fd offset whence) = syscall3 SYS_LSEEK fd offset whence"
| "registers (UMkns schemes) = syscall2 SYS_MKNS (fst schemes) (snd schemes)"
| "registers (UNanosleep req rem) = syscall2 SYS_NANOSLEEP req rem"
| "registers (UOpen path flags) = syscall3 SYS_OPEN (fst path) (snd path) flags"
| "registers (UPhysalloc sz) = syscall1 SYS_PHYSALLOC sz"
| "registers (UPhysfree addr sz) = syscall2 SYS_PHYSFREE addr sz"
| "registers (UPhysmap addr sz flags) = syscall3 SYS_PHYSMAP addr sz flags"
| "registers (UPhysunmap addr) = syscall1 SYS_PHYSUNMAP addr"
| "registers (UPipe2 fds flags) = syscall2 SYS_PIPE2 fds flags"
| "registers (URead fd buf) = syscall3 SYS_READ fd (fst buf) (snd buf)"
| "registers (URmdir path) = syscall2 SYS_RMDIR (fst path) (snd path)"
| "registers (USetregid r e) = syscall2 SYS_SETREGID r e"
| "registers (USetrens r e) = syscall2 SYS_SETRENS r e"
| "registers (USetreuid r e) = syscall2 SYS_SETREUID r e"
| "registers (UUnlink path) = syscall2 SYS_UNLINK (fst path) (snd path)"
| "registers (UVirttophys addr) = syscall1 SYS_VIRTTOPHYS addr"
| "registers (UWaitpid pid st options) = syscall3 SYS_WAITPID pid st options"
| "registers (UWrite fd buf) = syscall3 SYS_WRITE fd (fst buf) (snd buf)"
| "registers USchedYield = syscall0 SYS_YIELD"

section \<open>Validation of user slices (validate.rs)\<close>

text \<open>
  \<open>validate(address, size, flags)\<close>; the last argument says whether \<open>WRITABLE\<close> is required. A slice of
  no elements is never looked at: it becomes \<open>&[]\<close>, here at address \<open>0\<close>.
\<close>

type_synonym validator = "usize \<Rightarrow> usize \<Rightarrow> bool \<Rightarrow> unit result"

definition validate_slice :: "validator \<Rightarrow> usize \<Rightarrow> usize \<Rightarrow> usize \<Rightarrow> slice result" where
  "validate_slice v elem p n =
     (if n = 0 then Ok (0, 0) else bind_result (v p (n * elem) False) (\<lambda>_. Ok (p, n)))"

definition validate_slice_mut :: "validator \<Rightarrow> usize \<Rightarrow> usize \<Rightarrow> usize \<Rightarrow> slice result" where
  "validate_slice_mut v elem p n =
     (if n = 0 then Ok (0, 0) else bind_result (v p (n * elem) True) (\<lambda>_. Ok (p, n)))"

section \<open>The dispatcher (kernel/syscall/mod.rs)\<close>

datatype (plugins only: code size) kcall =
    KFileOpSlice usize usize slice | KFileOpMutSlice usize usize slice | KClose usize | KDup usize slice
  | KFevent usize usize | KFunmap usize | KFileOp usize usize usize usize | KOpen slice usize
  | KChmod slice u16 | KRmdir slice | KUnlink slice | KSchedYield | KNanosleep usize "usize option"
  | KClockGettime usize usize | KFutex usize usize i32 usize usize | KBrk usize | KGetpid
  | KClone usize usize | KExit usize | KKill usize usize | KWaitpid usize usize usize | KChdir slice
  | KExec slice slice | KIopl usize usize | KGetcwd slice | KGetegid | KGetens | KGeteuid | KGetgid
  | KGetns | KGetuid | KMkns slice | KSetreuid u32 u32 | KSetrens usize usize | KSetregid u32 u32
  | KPipe2 slice usize | KPhysalloc usize | KPhysfree usize usize | KPhysmap usize usize usize
  | KPhysunmap usize | KVirttophys usize

definition size_of_time_spec :: usize where "size_of_time_spec = 12"

abbreviation map_ok :: "('a \<Rightarrow> 'b) \<Rightarrow> 'a result \<Rightarrow> 'b result" where
  "map_ok f r \<equiv> bind_result r (\<lambda>x. Ok (f x))"

text \<open>\<open>SYS_CLASS_FILE\<close>\<close>

definition decode_file :: "validator \<Rightarrow> regs \<Rightarrow> kcall result" where
  "decode_file v r =
     (let a = rax r; b = rbx r; c = rcx r; d = rdx r
      in if a AND SYS_ARG = SYS_ARG_SLICE then map_ok (KFileOpSlice a b) (validate_slice v 1 c d)
         else if a AND SYS_ARG = SYS_ARG_MSLICE then map_ok (KFileOpMutSlice a b) (validate_slice_mut v 1 c d)
         else if a = SYS_CLOSE then Ok (KClose b)
         else if a = SYS_DUP then map_ok (KDup b) (validate_slice v 1 c d)
         else if a = SYS_FEVENT then Ok (KFevent b c)
         else if a = SYS_FUNMAP then Ok (KFunmap b)
         else Ok (KFileOp a b c d))"

text \<open>\<open>SYS_CLASS_PATH\<close>; any other number of the class reaches \<open>unreachable!()\<close>.\<close>

definition decode_path :: "validator \<Rightarrow> regs \<Rightarrow> kcall result outcome" where
  "decode_path v r =
     (let a = rax r; path = validate_slice v 1 (rbx r) (rcx r); d = rdx r
      in if a = SYS_OPEN then Return (map_ok (\<lambda>p. KOpen p d) path)
         else if a = SYS_CHMOD then Return (map_ok (\<lambda>p. KChmod p (ucast d)) path)
         else if a = SYS_RMDIR then Return (map_ok KRmdir path)
         else if a = SYS_UNLINK then Return (map_ok KUnlink path)
         else Panic)"

definition decode_other :: "validator \<Rightarrow> regs \<Rightarrow> usize \<Rightarrow> kcall result" where
  "decode_other v r stk =
     (let a = rax r; b = rbx r; c = rcx r; d = rdx r; e = rsi r; f = rdi r
      in if a = SYS_YIELD then Ok KSchedYield
         else if a = SYS_NANOSLEEP then
           map_ok (\<lambda>_. KNanosleep b (case validate_slice_mut v size_of_time_spec c 1 of Ok _ \<Rightarrow> Some c | Err _ \<Rightarrow> None))
             (validate_slice v size_of_time_spec b 1)
         else if a = SYS_CLOCK_GETTIME then map_ok (\<lambda>_. KClockGettime b c) (validate_slice_mut v size_of_time_spec c 1)
         else if a = SYS_FUTEX then map_ok (\<lambda>_. KFutex b c (ucast d) e f) (validate_slice_mut v 4 b 1)
         else if a = SYS_BRK then Ok (KBrk b)
         else if a = SYS_GETPID then Ok KGetpid
         else if a = SYS_CLONE then Ok (KClone b stk)
         else if a = SYS_EXIT then Ok (KExit (push_bit 8 (b AND 0xFF)))
         else if a = SYS_KILL then Ok (KKill b c)
         else if a = SYS_WAITPID then Ok (KWaitpid b c d)
         else if a = SYS_CHDIR then map_ok KChdir (validate_slice v 1 b c)
         else if a = SYS_EXECVE then
           bind_result (validate_slice v 1 b c) (\<lambda>p. map_ok (KExec p) (validate_slice v 16 d e))
         else if a = SYS_IOPL then Ok (KIopl b stk)
         else if a = SYS_GETCWD then map_ok KGetcwd (validate_slice_mut v 1 b c)
         else if a = SYS_GETEGID then Ok KGetegid
         else if a = SYS_GETENS then Ok KGetens
         else if a = SYS_GETEUID then Ok KGeteuid
         else if a = SYS_GETGID then Ok KGetgid
         else if a = SYS_GETNS then Ok KGetns
         else if a = SYS_GETUID then Ok KGetuid
         else if a = SYS_MKNS then map_ok KMkns (validate_slice v 16 b c)
         else if a = SYS_SETREUID then Ok (KSetreuid (ucast b) (ucast c))
         else if a = SYS_SETRENS then Ok (KSetrens b c)
         else if a = SYS_SETREGID then Ok (KSetregid (ucast b) (ucast c))
         else if a = SYS_PIPE2 then map_ok (\<lambda>fds. KPipe2 fds c) (validate_slice_mut v 8 b 2)
         else if a = SYS_PHYSALLOC then Ok (KPhysalloc b)
         else if a = SYS_PHYSFREE then Ok (KPhysfree b c)
         else if a = SYS_PHYSMAP then Ok (KPhysmap b c d)
         else if a = SYS_PHYSUNMAP then Ok (KPhysunmap b)
         else if a = SYS_VIRTTOPHYS then Ok (KVirttophys b)
         else Err (Error ENOSYS))"

definition decode_call :: "validator \<Rightarrow> regs \<Rightarrow> usize \<Rightarrow> kcall result outcome" where
  "decode_call v r stk =
     (if rax r AND SYS_CLASS = SYS_CLASS_FILE then Return (decode_file v r)
      else if rax r AND SYS_CLASS = SYS_CLASS_PATH then decode_path v r
      else Return (decode_other v r stk))"

text \<open>\<open>syscall\<close>: the result word and the kernel's new state; \<open>exec\<close> runs the handler of a decoded call.\<close>

definition syscall :: "validator \<Rightarrow> (kcall \<Rightarrow> 's \<Rightarrow> usize result \<times> 's) \<Rightarrow> usize \<Rightarrow> regs \<Rightarrow> 's \<Rightarrow> (usize \<times> 's) outcome" where
  "syscall v exec stk r s =
     bind_outcome (decode_call v r stk)
       (\<lambda>k. Return (case k of
          Err e \<Rightarrow> (mux (Err e), s)
        | Ok call \<Rightarrow> (let (res, s') = exec call s in (mux res, s'))))"

text \<open>A wrapper call: registers, \<open>int 0x80\<close>, \<open>Error::demux\<close>.\<close>

definition user_call ::
    "validator \<Rightarrow> (kcall \<Rightarrow> 's \<Rightarrow> usize result \<times> 's) \<Rightarrow> usize \<Rightarrow> ucall \<Rightarrow> regs \<Rightarrow> 's \<Rightarrow> (usize result \<times> 's) outcome" where
  "user_call v exec stk u r s =
     bind_outcome (syscall v exec stk (registers u r) s) (\<lambda>(a, s'). Return (demux a, s'))"

section \<open>What the caller of a wrapper means\<close>

text \<open>
  An empty slice has no address. The kernel has no \<open>link\<close> call; \<open>fsync\<close> and \<open>ftruncate\<close> pass registers they
  do not load, which the schemes ignore.
\<close>

definition the_slice :: "slice \<Rightarrow> slice" where
  "the_slice p = (if snd p = 0 then (0, 0) else p)"

fun intended :: "regs \<Rightarrow> usize \<Rightarrow> ucall \<Rightarrow> kcall option" where
  "intended r stk (UBrk addr) = Some (KBrk addr)"
| "intended r stk (UChdir path) = Some (KChdir (the_slice path))"
| "intended r stk (UChmod path mode) = Some (KChmod (the_slice path) (ucast mode))"
| "intended r stk (UClone flags) = Some (KClone flags stk)"
| "intended r stk (UClose fd) = Some (KClose fd)"
| "intended r stk (UClockGettime clock tp) = Some (KClockGettime clock tp)"
| "intended r stk (UDup fd buf) = Some (KDup fd (the_slice buf))"
| "intended r stk (UExecve path args) = Some (KExec (the_slice path) (the_slice args))"
| "intended r stk (UExit stat) = Some (KExit (push_bit 8 (stat AND 0xFF)))"
| "intended r stk (UFcntl fd cmd arg) = Some (KFileOp SYS_FCNTL fd cmd arg)"
| "intended r stk (UFevent fd flags) = Some (KFevent fd flags)"
| "intended r stk (UFmap fd offset sz) = Some (KFileOp SYS_FMAP fd offset sz)"
| "intended r stk (UFunmap addr) = Some (KFunmap addr)"
| "intended r stk (UFpath fd buf) = Some (KFileOpMutSlice SYS_FPATH fd (the_slice buf))"
| "intended r stk (UFstat fd st) = Some (KFileOpMutSlice SYS_FSTAT fd (st, of_nat size_of_stat))"
| "intended r stk (UFstatvfs fd st) = Some (KFileOpMutSlice SYS_FSTATVFS fd (st, of_nat size_of_stat_vfs))"
| "intended r stk (UFsync fd) = Some (KFileOp SYS_FSYNC fd (rcx r) (rdx r))"
| "intended r stk (UFtruncate fd len) = Some (KFileOp SYS_FTRUNCATE fd len (rdx r))"
| "intended r stk (UFutex addr fop val val2 addr2) = Some (KFutex addr fop val val2 addr2)"
| "intended r stk (UGetcwd buf) = Some (KGetcwd (the_slice buf))"
| "intended r stk UGetegid = Some (KGetegid)"
| "intended r stk UGetens = Some (KGetens)"
| "intended r stk UGeteuid = Some (KGeteuid)"
| "intended r stk UGetgid = Some (KGetgid)"
| "intended r stk UGetns = Some (KGetns)"
| "intended r stk UGetpid = Some (KGetpid)"
| "intended r stk UGetuid = Some (KGetuid)"
| "intended r stk (UIopl level) = Some (KIopl level stk)"
| "intended r stk (UKill pid sig) = Some (KKill pid sig)"
| "intended r stk (ULink old new) = None"
| "intended r stk (ULseek fd offset whence) = Some (KFileOp SYS_LSEEK fd offset whence)"
| "intended r stk (UMkns schemes) = Some (KMkns (the_slice schemes))"
| "intended r stk (UNanosleep req rem) = Some (KNanosleep req (Some rem))"
| "intended r stk (UOpen path flags) = Some (KOpen (the_slice path) flags)"
| "intended r stk (UPhysalloc sz) = Some (KPhysalloc sz)"
| "intended r stk (UPhysfree addr sz) = Some (KPhysfree addr sz)"
| "intended r stk (UPhysmap addr sz flags) = Some (KPhysmap addr sz flags)"
| "intended r stk (UPhysunmap addr) = Some (KPhysunmap addr)"
| "intended r stk (UPipe2 fds flags) = Some (KPipe2 (fds, 2) flags)"
| "intended r stk (URead fd buf) = Some (KFileOpMutSlice SYS_READ fd (the_slice buf))"
| "intended r stk (URmdir path) = Some (KRmdir (the_slice path))"
| "intended r stk (USetregid rid eid) = Some (KSetregid (ucast rid) (ucast eid))"
| "intended r stk (USetrens rid eid) = Some (KSetrens rid eid)"
| "intended r stk (USetreuid rid eid) = Some (KSetreuid (ucast rid) (ucast eid))"
| "intended r stk (UUnlink path) = Some (KUnlink (the_slice path))"
| "intended r stk (UVirttophys addr) = Some (KVirttophys addr)"
| "intended r stk (UWaitpid pid st options) = Some (KWaitpid pid st options)"
| "intended r stk (UWrite fd buf) = Some (KFileOpSlice SYS_WRITE fd (the_slice buf))"
| "intended r stk USchedYield = Some (KSchedYield)"

text \<open>The user memory a call names is mapped, writable where the kernel writes it.\<close>

definition readable :: "validator \<Rightarrow> usize \<Rightarrow> slice \<Rightarrow> bool" where
  "readable v elem p \<longleftrightarrow> snd p = 0 \<or> is_ok (v (fst p) (snd p * elem) False)"

definition writable :: "validator \<Rightarrow> usize \<Rightarrow> slice \<Rightarrow> bool" where
  "writable v elem p \<longleftrightarrow> snd p = 0 \<or> is_ok (v (fst p) (snd p * elem) True)"

fun memory_ok :: "validator \<Rightarrow> ucall \<Rightarrow> bool" where
  "memory_ok v (UChdir path) = readable v 1 path"
| "memory_ok v (UChmod path mode) = readable v 1 path"
| "memory_ok v (UClockGettime clock tp) = writable v size_of_time_spec (tp, 1)"
| "memory_ok v (UDup fd buf) = readable v 1 buf"
| "memory_ok v (UExecve path args) = (readable v 1 path \<and> readable v 16 args)"
| "memory_ok v (UFpath fd buf) = writable v 1 buf"
| "memory_ok v (UFstat fd st) = writable v 1 (st, of_nat size_of_stat)"
| "memory_ok v (UFstatvfs fd st) = writable v 1 (st, of_nat size_of_stat_vfs)"
| "memory_ok v (UFutex addr fop val val2 addr2) = writable v 4 (addr, 1)"
| "memory_ok v (UGetcwd buf) = writable v 1 buf"
| "memory_ok v (UMkns schemes) = readable v 16 schemes"
| "memory_ok v (UNanosleep req rem) = (readable v size_of_time_spec (req, 1) \<and> writable v size_of_time_spec (rem, 1))"
| "memory_ok v (UOpen path flags) = readable v 1 path"
| "memory_ok v (UPipe2 fds flags) = writable v 8 (fds, 2)"
| "memory_ok v (URead fd buf) = writable v 1 buf"
| "memory_ok v (URmdir path) = readable v 1 path"
| "memory_ok v (UUnlink path) = readable v 1 path"
| "memory_ok v (UWrite fd buf) = readable v 1 buf"
| "memory_ok v u = True"

section \<open>Lemmas\<close>

lemma validate_slice_ok: "readable v elem (p, n) \<Longrightarrow> validate_slice v elem p n = Ok (the_slice (p, n))"
  by (cases "v p (n * elem) False") (auto simp: readable_def validate_slice_def the_slice_def)

lemma validate_slice_mut_ok: "writable v elem (p, n) \<Longrightarrow> validate_slice_mut v elem p n = Ok (the_slice (p, n))"
  by (cases "v p (n * elem) True") (auto simp: writable_def validate_slice_mut_def the_slice_def)

lemmas register_simps = syscall0_def syscall1_def syscall1_clobber_def syscall2_def syscall3_def
  syscall4_def syscall5_def

lemmas decode_simps = decode_call_def decode_file_def decode_path_def decode_other_def Let_def
  register_simps validate_slice_ok validate_slice_mut_ok the_slice_def size_of_stat_def size_of_stat_vfs_def

lemma decode_registers:
  assumes "memory_ok v u"
  shows "decode_call v (registers u r) stk =
    (case intended r stk u of Some k \<Rightarrow> Return (Ok k) | None \<Rightarrow> Panic)"
  using assms by (cases u) (simp_all add: decode_simps ucast_scast_i32)

lemma decode_call_Panic_iff:
  "decode_call v r stk = Panic \<longleftrightarrow> rax r AND SYS_CLASS = SYS_CLASS_PATH \<and>
     rax r \<noteq> SYS_OPEN \<and> rax r \<noteq> SYS_CHMOD \<and> rax r \<noteq> SYS_RMDIR \<and> rax r \<noteq> SYS_UNLINK"
  by (auto simp: decode_call_def decode_path_def Let_def)

section \<open>Properties\<close>

text \<open>
  C13. A system call does what its caller means: whatever the unused registers hold, a wrapper other
  than \<open>link\<close> whose memory is mapped makes the dispatcher run exactly the handler that the wrapper
  names on the arguments it was given, and the caller gets the handler's result back, provided that
  this result survives the one-word encoding.
\<close>

theorem user_call_runs_handler:
  assumes "memory_ok v u" and "intended r stk u = Some k" and "exec k s = (res, s')"
    and "case res of Ok w \<Rightarrow> \<not> error_window w | Err e \<Rightarrow> valid_errno e"
  shows "user_call v exec stk u r s = Return (res, s')"
proof -
  have "demux (mux res) = res"
    using assms(4) by (cases res) (auto simp: demux_mux_iff)
  then show ?thesis
    using decode_registers [OF assms(1), of r stk] assms(2,3) by (simp add: user_call_def syscall_def)
qed

theorem user_call_runs_handler_witness:
  "user_call (\<lambda>p n w. Ok ()) (\<lambda>k s. (if k = KKill 7 9 then Ok 0 else Err (Error EINVAL), s + 1)) 0 (UKill 7 9)
     \<lparr>rax = 1, rbx = 1, rcx = 1, rdx = 1, rsi = 1, rdi = 1\<rparr> (0 :: nat) = Return (Ok 0, 1)"
  by (rule user_call_runs_handler [where k = "KKill 7 9"]) (simp_all add: error_window_def)

text \<open>The numbers outside the file and path classes that have a handler.\<close>

definition known_calls :: "usize list" where
  "known_calls =
     [SYS_YIELD, SYS_NANOSLEEP, SYS_CLOCK_GETTIME, SYS_FUTEX, SYS_BRK, SYS_GETPID, SYS_CLONE, SYS_EXIT,
      SYS_KILL, SYS_WAITPID, SYS_CHDIR, SYS_EXECVE, SYS_IOPL, SYS_GETCWD, SYS_GETEGID, SYS_GETENS,
      SYS_GETEUID, SYS_GETGID, SYS_GETNS, SYS_GETUID, SYS_MKNS, SYS_SETREUID, SYS_SETRENS, SYS_SETREGID,
      SYS_PIPE2, SYS_PHYSALLOC, SYS_PHYSFREE, SYS_PHYSMAP, SYS_PHYSUNMAP, SYS_VIRTTOPHYS]"

lemma decode_other_unknown: "rax r \<notin> set known_calls \<Longrightarrow> decode_other v r stk = Err (Error ENOSYS)"
  by (simp add: known_calls_def decode_other_def Let_def)

text \<open>
  C21. The dispatcher panics exactly on the numbers of the path class other than \<open>open\<close>, \<open>chmod\<close>,
  \<open>rmdir\<close> and \<open>unlink\<close>; in particular every call of the wrapper \<open>link\<close> panics the kernel. A number of
  neither the file nor the path class that has no handler is refused with \<open>ENOSYS\<close> and changes nothing.
\<close>

theorem dispatcher_panics_iff:
  "(syscall v exec stk r s = Panic \<longleftrightarrow> rax r AND SYS_CLASS = SYS_CLASS_PATH \<and>
     rax r \<notin> {SYS_OPEN, SYS_CHMOD, SYS_RMDIR, SYS_UNLINK}) \<and>
   user_call v exec stk (ULink old new) r s = Panic \<and>
   (rax r AND SYS_CLASS \<notin> {SYS_CLASS_FILE, SYS_CLASS_PATH} \<and> rax r \<notin> set known_calls \<longrightarrow>
     syscall v exec stk r s = Return (mux (Err (Error ENOSYS)), s))"
proof -
  have "syscall v exec stk r s = Panic \<longleftrightarrow> decode_call v r stk = Panic"
    by (cases "decode_call v r stk") (simp_all add: syscall_def)
  moreover have "decode_call v (registers (ULink old new) r) stk = Panic"
    by (simp add: decode_call_Panic_iff register_simps)
  then have "user_call v exec stk (ULink old new) r s = Panic"
    by (simp add: user_call_def syscall_def)
  moreover have "syscall v exec stk r s = Return (mux (Err (Error ENOSYS)), s)"
    if "rax r AND SYS_CLASS \<notin> {SYS_CLASS_FILE, SYS_CLASS_PATH}" "rax r \<notin> set known_calls"
    using that decode_other_unknown [OF that(2), of v stk]
    by (simp add: syscall_def decode_call_def)
  ultimately show ?thesis
    unfolding decode_call_Panic_iff by simp
qed

theorem dispatcher_panics_iff_witness:
  "syscall (\<lambda>p n w. Ok ()) (\<lambda>k s. (Ok 0, s)) 0 \<lparr>rax = 1000, rbx = 0, rcx = 0, rdx = 0, rsi = 0, rdi = 0\<rparr> (0 :: nat) =
     Return (mux (Err (Error ENOSYS)), 0)"
  using dispatcher_panics_iff [of "\<lambda>p n w. Ok ()" "\<lambda>k s. (Ok 0, s)" 0
      "\<lparr>rax = 1000, rbx = 0, rcx = 0, rdx = 0, rsi = 0, rdi = 0\<rparr>" "0 :: nat" 0 0]
  by (simp add: known_calls_def)

end
