(* ===== verification/Process_Calls.thy ===== *)
theory Process_Calls
  imports Driver File_Calls Syscall_Dispatch
begin

text \<open>
  Life and death of processes (\<open>kernel/syscall/process.rs\<close>): \<open>brk\<close>, \<open>exit\<close>, \<open>getpid\<close>, \<open>kill\<close> and \<open>waitpid\<close>.
  An exiting process closes its files, gives its children to its parent, releases its memory, and sends its
  status to its parent, which removes it from the context list in \<open>waitpid\<close>.
\<close>

section \<open>State\<close>

text \<open>
  What the process calls add to the state of the file calls: the \<open>waitpid\<close> maps, and the memory regions, grant
  lists, names and environments (with the cells that hold the values of variables), which contexts may share;
  the page tables, with the address of the table of each context. \<open>ps_next_ref\<close> is where the next \<open>Arc\<close> is
  allocated; \<open>ps_rest\<close> is the state of the schemes.
\<close>

record 't proc_state =
  ps_waitpid :: "ref \<Rightarrow> (usize, usize) wait_map"
  ps_memory :: "ref \<Rightarrow> memory"
  ps_grants :: "ref \<Rightarrow> grant list"
  ps_pages :: page_mem
  ps_page_table :: "usize \<Rightarrow> usize"
  ps_names :: "ref \<Rightarrow> bytes"
  ps_envs :: "ref \<Rightarrow> (bytes, ref) btree_map"
  ps_cells :: "ref \<Rightarrow> bytes"
  ps_next_ref :: ref
  ps_rest :: 't

type_synonym 't kernel = "'t proc_state fs_world"

definition fresh_ref :: "'t kernel \<Rightarrow> ref \<times> 't kernel" where
  "fresh_ref w = (ps_next_ref (fw_state w), w\<lparr>fw_state := (fw_state w)\<lparr>ps_next_ref := Suc (ps_next_ref (fw_state w))\<rparr>\<rparr>)"

definition set_memory :: "ref \<Rightarrow> memory \<Rightarrow> 't kernel \<Rightarrow> 't kernel" where
  "set_memory r m w = w\<lparr>fw_state := (fw_state w)\<lparr>ps_memory := (ps_memory (fw_state w))(r := m)\<rparr>\<rparr>"

definition set_grants :: "ref \<Rightarrow> grant list \<Rightarrow> 't kernel \<Rightarrow> 't kernel" where
  "set_grants r gs w = w\<lparr>fw_state := (fw_state w)\<lparr>ps_grants := (ps_grants (fw_state w))(r := gs)\<rparr>\<rparr>"

definition set_pages :: "page_mem \<Rightarrow> 't kernel \<Rightarrow> 't kernel" where
  "set_pages pm w = w\<lparr>fw_state := (fw_state w)\<lparr>ps_pages := pm\<rparr>\<rparr>"

definition modify_context :: "usize \<Rightarrow> (ctx \<Rightarrow> ctx) \<Rightarrow> 't kernel \<Rightarrow> 't kernel" where
  "modify_context i f w = w\<lparr>ew_contexts := set_context (ew_contexts w) i f\<rparr>"

text \<open>\<open>Arc::strong_count\<close> of an object that only contexts of the list refer to.\<close>

definition users :: "(ctx \<Rightarrow> ref) \<Rightarrow> ref \<Rightarrow> 't kernel \<Rightarrow> nat" where
  "users sel r w = length (filter (\<lambda>e. sel (snd e) = r) (ctx_map (ew_contexts w)))"

section \<open>brk\<close>

definition brk :: "usize \<Rightarrow> 't kernel \<Rightarrow> (usize result \<times> 't kernel) outcome option" where
  "brk address w =
     (case current_context w of
        None \<Rightarrow> Some (Return (Err (Error ESRCH), w))
      | Some c \<Rightarrow>
          (case heap c of
             None \<Rightarrow> Some Panic
           | Some r \<Rightarrow>
               let h = ps_memory (fw_state w) r;
                   current = mem_start h + mem_size h
               in if address = 0 then Some (Return (Ok current, w))
                  else if address \<ge> USER_HEAP_OFFSET then
                    then_do (memory_resize (address - USER_HEAP_OFFSET) True True h (ps_pages (fw_state w)))
                      (\<lambda>(h, pm). Some (Return (Ok address, set_pages pm (set_memory r h w))))
                  else Some (Return (Err (Error ENOMEM), w))))"

section \<open>Releasing memory\<close>

text \<open>The references to shared memory that the contexts of the list hold.\<close>

definition heap_ref :: "ctx \<Rightarrow> ref list" where
  "heap_ref c = (case heap c of None \<Rightarrow> [] | Some r \<Rightarrow> [r])"

definition memory_refs :: "ctx \<Rightarrow> ref list" where
  "memory_refs c = image c @ heap_ref c"

definition memory_users :: "'t kernel \<Rightarrow> ref set" where
  "memory_users w = (\<Union>e \<in> set (ctx_map (ew_contexts w)). set (memory_refs (snd e)))"

definition drop_memory :: "memory \<Rightarrow> 't kernel \<Rightarrow> 't kernel outcome option" where
  "drop_memory m w = then_do (memory_drop m (ps_pages (fw_state w))) (\<lambda>pm. Some (Return (set_pages pm w)))"

definition drop_own :: "memory option \<Rightarrow> 't kernel \<Rightarrow> 't kernel outcome option" where
  "drop_own m w = (case m of None \<Rightarrow> Some (Return w) | Some m \<Rightarrow> drop_memory m w)"

text \<open>Dropping references that were just taken out of a context: the last reference unmaps the memory.\<close>

fun drop_shared :: "ref list \<Rightarrow> 't kernel \<Rightarrow> 't kernel outcome option" where
  "drop_shared [] w = Some (Return w)"
| "drop_shared (r # rs) w =
     (if r \<in> set rs \<or> r \<in> memory_users w then drop_shared rs w
      else then_do (drop_memory (ps_memory (fw_state w) r) w) (drop_shared rs))"

fun unmap_grants :: "grant list \<Rightarrow> 't kernel \<Rightarrow> 't kernel outcome option" where
  "unmap_grants [] w = Some (Return w)"
| "unmap_grants (g # gs) w =
     then_do (grant_unmap g (ps_pages (fw_state w))) (\<lambda>pm. unmap_grants gs (set_pages pm w))"

text \<open>
  \<open>context.image.clear(); drop(context.heap.take()); drop(context.stack.take()); drop(context.tls.take());\<close>
  and the grants, which are unmapped if no other context shares them.
\<close>

definition release_grants :: "ctx \<Rightarrow> 't kernel \<Rightarrow> 't kernel outcome option" where
  "release_grants c w =
     (let mine = users grants_ref (grants_ref c) w = 1;
          gs = (if mine then ps_grants (fw_state w) (grants_ref c) else []);
          w = (if mine then set_grants (grants_ref c) [] w else w);
          (r, w) = fresh_ref w
      in unmap_grants gs (modify_context (ctx_id c) (\<lambda>c. c\<lparr>grants_ref := r\<rparr>) (set_grants r [] w)))"

definition release_memory :: "ctx \<Rightarrow> 't kernel \<Rightarrow> 't kernel outcome option" where
  "release_memory c w =
     then_do (drop_shared (image c) (modify_context (ctx_id c) (\<lambda>c. c\<lparr>image := []\<rparr>) w)) (\<lambda>w.
     then_do (drop_shared (heap_ref c) (modify_context (ctx_id c) (\<lambda>c. c\<lparr>heap := None\<rparr>) w)) (\<lambda>w.
     then_do (drop_own (stack c) (modify_context (ctx_id c) (\<lambda>c. c\<lparr>stack := None\<rparr>) w)) (\<lambda>w.
     then_do (drop_own (map_option tls_mem (tls_of c)) (modify_context (ctx_id c) (\<lambda>c. c\<lparr>tls_of := None\<rparr>) w))
       (release_grants c))))"

section \<open>exit\<close>

text \<open>
  The beginning of \<open>exit\<close>: the identifier of the context and of its parent, and the files to close, which are
  those of the context unless it shares the table.
\<close>

definition exit_begin :: "'t kernel \<Rightarrow> (usize \<times> usize \<times> file_table \<times> 't kernel) outcome" where
  "exit_begin w =
     (case current_context w of
        None \<Rightarrow> Panic
      | Some c \<Rightarrow>
          let mine = users files_ref (files_ref c) w = 1;
              files = (if mine then fw_files w (files_ref c) else []);
              w = (if mine then set_files (files_ref c) [] w else w);
              (r, w) = fresh_ref w
          in Return (ctx_id c, ppid c, files, modify_context (ctx_id c) (\<lambda>c. c\<lparr>files_ref := r\<rparr>) (set_files r [] w)))"

definition close_file :: "'s impl \<Rightarrow> usize \<Rightarrow> kfile option \<Rightarrow> (unit, 's fs_world) op" where
  "close_file impl fd file_option w =
     (case file_option of
        None \<Rightarrow> (Returned (), w)
      | Some f \<Rightarrow>
          let w = (case f_event f of None \<Rightarrow> w | Some event_id \<Rightarrow> unregister fd (f_scheme f) event_id w)
          in case get_scheme (fw_schemes w) (f_scheme f) of
               None \<Rightarrow> (Returned (), w)
             | Some s \<Rightarrow> then_attempt (op_close (impl s) (f_number f) w) (\<lambda>_ w. (Returned (), w)))"

fun close_files :: "'s impl \<Rightarrow> nat \<Rightarrow> file_table \<Rightarrow> (unit, 's fs_world) op" where
  "close_files impl fd [] w = (Returned (), w)"
| "close_files impl fd (f # fs) w = then_attempt (close_file impl (of_nat fd) f w) (\<lambda>_. close_files impl (Suc fd) fs)"

text \<open>Transfer child processes to parent.\<close>

definition transfer_children :: "usize \<Rightarrow> usize \<Rightarrow> context_list \<Rightarrow> context_list" where
  "transfer_children pid parent l =
     l\<lparr>ctx_map := map (\<lambda>(i, c). (i, if ppid c = pid then c\<lparr>ppid := parent, vfork := False\<rparr> else c)) (ctx_map l)\<rparr>"

definition send_status :: "ref \<Rightarrow> usize \<times> usize \<Rightarrow> 't kernel \<Rightarrow> 't kernel" where
  "send_status r s w =
     (let (m, l) = map_send (fst s) (snd s) (ps_waitpid (fw_state w) r) (ew_contexts w)
      in w\<lparr>ew_contexts := l, fw_state := (fw_state w)\<lparr>ps_waitpid := (ps_waitpid (fw_state w))(r := m)\<rparr>\<rparr>)"

text \<open>The statuses of the context's own children, and its own, go to the parent, if there still is one.\<close>

definition notify_parent :: "usize \<Rightarrow> bool \<Rightarrow> (usize \<times> usize) list \<Rightarrow> 't kernel \<Rightarrow> 't kernel" where
  "notify_parent parent was_vfork statuses w =
     (case get_context (ew_contexts w) parent of
        None \<Rightarrow> w
      | Some p \<Rightarrow>
          fold (send_status (waitpid_ref p)) statuses
            (if was_vfork then modify_context parent (\<lambda>p. fst (unblock p)) w else w))"

text \<open>
  The rest of \<open>exit\<close>, up to the \<open>context::switch\<close> that leaves the context for ever. The context is still in the
  list, as it is removed only by \<open>reap\<close>, after its status has been sent.
\<close>

definition exit_finish :: "usize \<Rightarrow> usize \<Rightarrow> usize \<Rightarrow> 't kernel \<Rightarrow> 't kernel outcome option" where
  "exit_finish pid parent status_code w =
     (let w = w\<lparr>ew_contexts := transfer_children pid parent (ew_contexts w)\<rparr>
      in case get_context (ew_contexts w) pid of
           None \<Rightarrow> Some Panic
         | Some c \<Rightarrow>
             then_do (release_memory c w) (\<lambda>w.
               let (children, m) = receive_all (ps_waitpid (fw_state w) (waitpid_ref c));
                   w = modify_context pid (\<lambda>c. c\<lparr>vfork := False, status := Exited status_code\<rparr>)
                         (w\<lparr>fw_state := (fw_state w)\<lparr>ps_waitpid := (ps_waitpid (fw_state w))(waitpid_ref c := m)\<rparr>\<rparr>)
               in Some (Return (notify_parent parent (vfork c) (children @ [(pid, status_code)]) w))))"

definition exit_call :: "'t proc_state impl \<Rightarrow> usize \<Rightarrow> 't kernel \<Rightarrow> (unit attempt \<times> 't kernel) option" where
  "exit_call impl status_code w =
     (case exit_begin w of
        Panic \<Rightarrow> Some (Crashes, w)
      | Return (pid, parent, files, w1) \<Rightarrow>
          (case close_files impl 0 files w1 of
             (Returned _, w2) \<Rightarrow>
               map_option (\<lambda>r. case r of Panic \<Rightarrow> (Crashes, w2) | Return w3 \<Rightarrow> (Returned (), w3)) (exit_finish pid parent status_code w2)
           | (Waits, w2) \<Rightarrow> Some (Waits, w2)
           | (Crashes, w2) \<Rightarrow> Some (Crashes, w2)))"

section \<open>getpid, kill\<close>

definition getpid :: "'t kernel \<Rightarrow> usize result" where
  "getpid w = (case current_context w of None \<Rightarrow> Err (Error ESRCH) | Some c \<Rightarrow> Ok (ctx_id c))"

definition kill :: "usize \<Rightarrow> usize \<Rightarrow> 't kernel \<Rightarrow> usize result \<times> 't kernel" where
  "kill pid sig w =
     (case current_context w of
        None \<Rightarrow> (Err (Error ESRCH), w)
      | Some c \<Rightarrow>
          if sig > 0 \<and> sig \<le> 0x7F then
            (case get_context (ew_contexts w) pid of
               None \<Rightarrow> (Err (Error ESRCH), w)
             | Some t \<Rightarrow>
                 if euid c = 0 \<or> euid c = ruid t \<or> ruid c = ruid t
                 then (Ok 0, modify_context pid (\<lambda>t. t\<lparr>pending := pending t @ [ucast sig]\<rparr>) w)
                 else (Err (Error EPERM), w))
          else (Err (Error EINVAL), w))"

section \<open>waitpid\<close>

text \<open>
  The loop of \<open>reap\<close>, which tests \<open>running\<close> before it reads it. Another CPU that changes the context meanwhile
  is not part of this function.
\<close>

partial_function (option) reap_spin :: "bool \<Rightarrow> usize \<Rightarrow> 't kernel \<Rightarrow> unit result option" where
  "reap_spin spinning pid w =
     (if spinning then
        case get_context (ew_contexts w) pid of
          None \<Rightarrow> Some (Err (Error ESRCH))
        | Some c \<Rightarrow> reap_spin (running c) pid w
      else Some (Ok ()))"

text \<open>The context that is removed has exited, so that dropping it only frees memory of the kernel.\<close>

definition reap :: "usize \<Rightarrow> 't kernel \<Rightarrow> (usize result \<times> 't kernel) option" where
  "reap pid w =
     map_option (\<lambda>r. case r of
         Err e \<Rightarrow> (Err e, w)
       | Ok _ \<Rightarrow>
           (case remove_context (ew_contexts w) pid of
              (None, _) \<Rightarrow> (Err (Error ESRCH), w)
            | (Some _, l) \<Rightarrow> (Ok pid, w\<lparr>ew_contexts := l\<rparr>)))
       (reap_spin False pid w)"

text \<open>What is received from the \<open>waitpid\<close> map: \<open>None\<close> for the \<open>Ok(0)\<close> of a call that must not wait.\<close>

definition receive_status ::
    "usize \<Rightarrow> usize \<Rightarrow> usize \<Rightarrow> (usize, usize) wait_map \<Rightarrow> context_list \<Rightarrow>
     (usize \<times> usize) option attempt \<times> (usize, usize) wait_map \<times> context_list" where
  "receive_status cur pid flags m l =
     (if pid = 0 then
        if has_flag flags WNOHANG then let (r, m) = receive_any_nonblock m in (Returned r, m, l)
        else (case receive_any cur m l of
                (Returned s, m, l) \<Rightarrow> (Returned (Some s), m, l) | (Waits, m, l) \<Rightarrow> (Waits, m, l) | (Crashes, m, l) \<Rightarrow> (Crashes, m, l))
      else
        if has_flag flags WNOHANG then let (r, m) = receive_nonblock pid m in (Returned (map_option (Pair pid) r), m, l)
        else (case map_receive cur pid m l of
                (Returned s, m, l) \<Rightarrow> (Returned (Some (pid, s)), m, l) | (Waits, m, l) \<Rightarrow> (Waits, m, l) | (Crashes, m, l) \<Rightarrow> (Crashes, m, l)))"

definition waitpid ::
    "validator \<Rightarrow> usize \<Rightarrow> usize \<Rightarrow> usize \<Rightarrow> 't kernel \<times> address_space \<Rightarrow> (usize result attempt \<times> 't kernel \<times> address_space) option" where
  "waitpid v pid status_ptr flags wM =
     (let (w, M) = wM
      in case current_context w of
           None \<Rightarrow> Some (Returned (Err (Error ESRCH)), w, M)
         | Some c \<Rightarrow>
             (case (if status_ptr \<noteq> 0 then validate_slice_mut v 8 status_ptr 1 else Ok (0, 0)) of
                Err e \<Rightarrow> Some (Returned (Err e), w, M)
              | Ok _ \<Rightarrow>
                  let (r, m, l) = receive_status (ew_current w) pid flags (ps_waitpid (fw_state w) (waitpid_ref c)) (ew_contexts w);
                      w = w\<lparr>ew_contexts := l, fw_state := (fw_state w)\<lparr>ps_waitpid := (ps_waitpid (fw_state w))(waitpid_ref c := m)\<rparr>\<rparr>
                  in case r of
                       Waits \<Rightarrow> Some (Waits, w, M)
                     | Crashes \<Rightarrow> Some (Crashes, w, M)
                     | Returned None \<Rightarrow> Some (Returned (Ok 0), w, M)
                     | Returned (Some (w_pid, s)) \<Rightarrow>
                         let M = (if status_ptr \<noteq> 0 then store_at M status_ptr (le_bytes 8 s) else M)
                         in map_option (\<lambda>(r, w). (Returned r, w, M)) (reap w_pid w)))"

section \<open>Which memory an exiting process frees\<close>

definition other_users :: "ctx \<Rightarrow> 't kernel \<Rightarrow> ref set" where
  "other_users c w = (\<Union>e \<in> set (filter (\<lambda>e. fst e \<noteq> ctx_id c) (ctx_map (ew_contexts w))). set (memory_refs (snd e)))"

definition memory_region :: "memory \<Rightarrow> usize \<times> usize" where
  "memory_region m = (mem_start m, mem_size m)"

definition grant_region :: "grant \<Rightarrow> usize \<times> usize" where
  "grant_region g = (g_start g, g_size g)"

definition own_regions :: "memory option \<Rightarrow> (usize \<times> usize) list" where
  "own_regions m = (case m of None \<Rightarrow> [] | Some m \<Rightarrow> [memory_region m])"

definition shared_regions :: "ref list \<Rightarrow> ctx \<Rightarrow> 't kernel \<Rightarrow> (usize \<times> usize) list" where
  "shared_regions rs c w = map (\<lambda>r. memory_region (ps_memory (fw_state w) r)) (filter (\<lambda>r. r \<notin> other_users c w) rs)"

text \<open>The regions that no other context uses.\<close>

definition private_regions :: "ctx \<Rightarrow> 't kernel \<Rightarrow> (usize \<times> usize) list" where
  "private_regions c w =
     shared_regions (image c) c w @ shared_regions (heap_ref c) c w @ own_regions (stack c) @ own_regions (map_option tls_mem (tls_of c)) @
     (if users grants_ref (grants_ref c) w = 1 then map grant_region (ps_grants (fw_state w) (grants_ref c)) else [])"

definition pages_of :: "(usize \<times> usize) list \<Rightarrow> page_index set" where
  "pages_of rs = (\<Union>r \<in> set rs. region_pages (fst r) (snd r))"

text \<open>Regions that can be unmapped one after the other, and the tables after that.\<close>

fun unmappable :: "page_mem \<Rightarrow> (usize \<times> usize) list \<Rightarrow> bool" where
  "unmappable pm [] \<longleftrightarrow> True"
| "unmappable pm (r # rs) \<longleftrightarrow> low_region (fst r) (snd r) \<and> (\<forall>x \<in> region_pages (fst r) (snd r). page_map pm x \<noteq> None) \<and>
     region_pages (fst r) (snd r) \<inter> pages_of rs = {} \<and> unmappable pm rs"

definition freed :: "page_mem \<Rightarrow> page_mem \<Rightarrow> (usize \<times> usize) list \<Rightarrow> bool" where
  "freed pm pm' rs \<longleftrightarrow> tables_wf pm' \<and> page_map pm' = (\<lambda>x. if x \<in> pages_of rs then None else page_map pm x)"

lemma pages_of_simps [simp]:
  "pages_of [] = {}" "pages_of (r # rs) = region_pages (fst r) (snd r) \<union> pages_of rs" "pages_of (rs @ rs') = pages_of rs \<union> pages_of rs'"
  by (auto simp: pages_of_def)

lemma freed_Nil: "tables_wf pm \<Longrightarrow> freed pm pm []"
  by (simp add: freed_def)

lemma freed_trans: "freed pm pm1 rs \<Longrightarrow> freed pm1 pm2 rs' \<Longrightarrow> freed pm pm2 (rs @ rs')"
  by (auto simp: freed_def)

lemma unmappable_cong: "(\<And>x. x \<in> pages_of rs \<Longrightarrow> page_map pm x = page_map pm' x) \<Longrightarrow> unmappable pm rs \<longleftrightarrow> unmappable pm' rs"
  by (induction rs) auto

lemma unmappable_append:
  "unmappable pm (rs @ rs') \<longleftrightarrow> unmappable pm rs \<and> unmappable pm rs' \<and> pages_of rs \<inter> pages_of rs' = {}"
  by (induction rs) auto

lemma unmappable_freed: "unmappable pm (rs @ rs') \<Longrightarrow> freed pm pm' rs \<Longrightarrow> unmappable pm' rs'"
  unfolding unmappable_append freed_def by (subst unmappable_cong[of _ _ pm]) auto

lemma set_pages_simps [simp]:
  "ps_pages (fw_state (set_pages pm w)) = pm" "set_pages pm (set_pages pm' w) = set_pages pm w"
  "ew_contexts (set_pages pm w) = ew_contexts w" "ps_memory (fw_state (set_pages pm w)) = ps_memory (fw_state w)"
  "set_pages (ps_pages (fw_state w)) w = w"
  by (simp_all add: set_pages_def)

lemma drop_memory_frees:
  assumes "tables_wf (ps_pages (fw_state w))" "unmappable (ps_pages (fw_state w)) [memory_region m]"
  shows "\<exists>pm. drop_memory m w = Some (Return (set_pages pm w)) \<and> freed (ps_pages (fw_state w)) pm [memory_region m]"
  using memory_unmap_spec[OF assms(1), of m] assms(2)
  by (auto simp: drop_memory_def memory_drop_def then_do_def freed_def memory_region_def)

lemma drop_own_frees:
  assumes "tables_wf (ps_pages (fw_state w))" "unmappable (ps_pages (fw_state w)) (own_regions m)"
  shows "\<exists>pm. drop_own m w = Some (Return (set_pages pm w)) \<and> freed (ps_pages (fw_state w)) pm (own_regions m)"
proof (cases m)
  case None
  then show ?thesis
    using freed_Nil[OF assms(1)] by (auto simp: drop_own_def own_regions_def intro!: exI[of _ "ps_pages (fw_state w)"])
next
  case (Some m')
  then show ?thesis
    using drop_memory_frees[OF assms(1), of m'] assms(2) by (auto simp: drop_own_def own_regions_def)
qed

lemma memory_users_set_pages [simp]: "memory_users (set_pages pm w) = memory_users w"
  by (simp add: memory_users_def)

lemma drop_shared_frees:
  assumes "tables_wf (ps_pages (fw_state w))" "distinct rs"
    and "regions = map (\<lambda>r. memory_region (ps_memory (fw_state w) r)) (filter (\<lambda>r. r \<notin> memory_users w) rs)"
    and "unmappable (ps_pages (fw_state w)) regions"
  shows "\<exists>pm. drop_shared rs w = Some (Return (set_pages pm w)) \<and> freed (ps_pages (fw_state w)) pm regions"
  using assms
proof (induction rs arbitrary: w regions)
  case Nil
  then show ?case
    using freed_Nil by (auto intro!: exI[of _ "ps_pages (fw_state w)"])
next
  case (Cons r rs)
  show ?case
  proof (cases "r \<in> memory_users w")
    case True
    then show ?thesis
      using Cons.IH[of w regions] Cons.prems by auto
  next
    case False
    define rest where "rest = map (\<lambda>r. memory_region (ps_memory (fw_state w) r)) (filter (\<lambda>r. r \<notin> memory_users w) rs)"
    have regions: "regions = [memory_region (ps_memory (fw_state w) r)] @ rest"
      using Cons.prems(3) False by (simp add: rest_def)
    obtain pm1 where 1: "drop_memory (ps_memory (fw_state w) r) w = Some (Return (set_pages pm1 w))"
      "freed (ps_pages (fw_state w)) pm1 [memory_region (ps_memory (fw_state w) r)]"
      using drop_memory_frees[OF Cons.prems(1)] Cons.prems(4) unfolding regions unmappable_append by blast
    have "unmappable pm1 rest"
      using unmappable_freed[OF _ 1(2)] Cons.prems(4) unfolding regions by blast
    moreover have "tables_wf pm1"
      using 1(2) by (simp add: freed_def)
    ultimately obtain pm2 where 2: "drop_shared rs (set_pages pm1 w) = Some (Return (set_pages pm2 w))" "freed pm1 pm2 rest"
      using Cons.IH[of "set_pages pm1 w" rest] Cons.prems(2) by (auto simp: rest_def)
    then show ?thesis
      using False 1 Cons.prems(2) freed_trans[OF 1(2) 2(2)] by (auto simp: then_do_def regions)
  qed
qed

lemma unmap_grants_frees:
  assumes "tables_wf (ps_pages (fw_state w))" "\<forall>g \<in> set gs. g_mapped g"
    and "unmappable (ps_pages (fw_state w)) (map grant_region gs)"
  shows "\<exists>pm. unmap_grants gs w = Some (Return (set_pages pm w)) \<and> freed (ps_pages (fw_state w)) pm (map grant_region gs)"
  using assms
proof (induction gs arbitrary: w)
  case Nil
  then show ?case
    using freed_Nil by (auto intro!: exI[of _ "ps_pages (fw_state w)"])
next
  case (Cons g gs)
  obtain pm1 where 1: "grant_unmap g (ps_pages (fw_state w)) = Some (Return pm1)" "freed (ps_pages (fw_state w)) pm1 [grant_region g]"
    using grant_unmap_spec[OF Cons.prems(1), of g] Cons.prems(2,3) by (auto simp: freed_def grant_region_def)
  have "unmappable pm1 (map grant_region gs)"
    using unmappable_freed[of _ "[grant_region g]", OF _ 1(2)] Cons.prems(3) by simp
  moreover have "tables_wf pm1"
    using 1(2) by (simp add: freed_def)
  ultimately obtain pm2 where 2: "unmap_grants gs (set_pages pm1 w) = Some (Return (set_pages pm2 w))"
    "freed pm1 pm2 (map grant_region gs)"
    using Cons.IH[of "set_pages pm1 w"] Cons.prems(2) by auto
  then show ?case
    using 1 freed_trans[OF 1(2) 2(2)] by (auto simp: then_do_def)
qed

text \<open>The state after the memory of a context has been released, apart from the page tables.\<close>

definition released :: "ctx \<Rightarrow> 't kernel \<Rightarrow> 't kernel" where
  "released c w =
     w\<lparr>ew_contexts := set_context (ew_contexts w) (ctx_id c)
         (\<lambda>d. d\<lparr>image := [], heap := None, stack := None, tls_of := None, grants_ref := ps_next_ref (fw_state w)\<rparr>),
       fw_state := (fw_state w)
         \<lparr>ps_grants := (if users grants_ref (grants_ref c) w = 1 then (ps_grants (fw_state w))(grants_ref c := []) else ps_grants (fw_state w))
            (ps_next_ref (fw_state w) := []),
          ps_next_ref := Suc (ps_next_ref (fw_state w))\<rparr>\<rparr>"

lemma modify_context_simps [simp]:
  "modify_context i f (set_pages pm w) = set_pages pm (modify_context i f w)"
  "fw_state (modify_context i f w) = fw_state w" "ew_contexts (modify_context i f w) = set_context (ew_contexts w) i f"
  "fw_files (modify_context i f w) = fw_files w" "fw_schemes (modify_context i f w) = fw_schemes w"
  "ew_current (modify_context i f w) = ew_current w" "ew_registry (modify_context i f w) = ew_registry w"
  by (simp_all add: modify_context_def set_pages_def)

lemma bt_modify_modify: "bt_modify k g (bt_modify k f m) = bt_modify k (\<lambda>v. g (f v)) m"
  by (induction m) auto

lemma modify_twice [simp]: "modify_context i g (modify_context i f w) = modify_context i (\<lambda>c. g (f c)) w"
  by (simp add: modify_context_def set_context_def bt_modify_modify)

text \<open>References that only the image or only the heap of the context holds.\<close>

lemma memory_users_iff:
  assumes "contexts_wf (ew_contexts w)"
  shows "r \<in> memory_users w \<longleftrightarrow> (\<exists>i d. get_context (ew_contexts w) i = Some d \<and> r \<in> set (memory_refs d))"
    "r \<in> other_users c w \<longleftrightarrow> (\<exists>i d. i \<noteq> ctx_id c \<and> get_context (ew_contexts w) i = Some d \<and> r \<in> set (memory_refs d))"
proof -
  have "(i, d) \<in> set (ctx_map (ew_contexts w)) \<longleftrightarrow> get_context (ew_contexts w) i = Some d" for i d
    using bt_get_mem[of "ctx_map (ew_contexts w)"] assms by (simp add: contexts_wf_def get_context_def)
  then show "r \<in> memory_users w \<longleftrightarrow> (\<exists>i d. get_context (ew_contexts w) i = Some d \<and> r \<in> set (memory_refs d))"
    "r \<in> other_users c w \<longleftrightarrow> (\<exists>i d. i \<noteq> ctx_id c \<and> get_context (ew_contexts w) i = Some d \<and> r \<in> set (memory_refs d))"
    by (auto simp: memory_users_def other_users_def Bex_def split_paired_Ex)
qed

lemma memory_users_modify:
  assumes "contexts_wf (ew_contexts w)" "get_context (ew_contexts w) (ctx_id c) = Some c" "\<And>d. ctx_id (f d) = ctx_id d"
  shows "memory_users (modify_context (ctx_id c) f w) = other_users c w \<union> set (memory_refs (f c))"
proof -
  have "contexts_wf (ew_contexts (modify_context (ctx_id c) f w))"
    using contexts_wf_set[OF assms(1,3)] by simp
  then show ?thesis
    using assms(1,2) by (auto simp: set_eq_iff memory_users_iff split: if_splits)
qed

lemma users_modify [simp]:
  "(\<And>c. sel (f c) = sel c) \<Longrightarrow> users sel r (modify_context i f w) = users sel r w"
proof -
  assume "\<And>c. sel (f c) = sel c"
  then have "length (filter (\<lambda>e. sel (snd e) = r) (bt_modify i f m)) = length (filter (\<lambda>e. sel (snd e) = r) m)" for m
    by (induction m) auto
  then show ?thesis
    by (simp add: users_def set_context_def)
qed

lemma users_set_pages [simp]: "users sel r (set_pages pm w) = users sel r w"
  by (simp add: users_def)

lemma memory_refs_simps [simp]:
  "memory_refs (c\<lparr>image := []\<rparr>) = heap_ref c" "memory_refs (c\<lparr>image := [], heap := None\<rparr>) = []" "distinct (heap_ref c)"
  by (auto simp: memory_refs_def heap_ref_def split: option.splits)

lemma release_memory_spec:
  assumes wf: "contexts_wf (ew_contexts w)" "get_context (ew_contexts w) (ctx_id c) = Some c" "tables_wf (ps_pages (fw_state w))"
    and refs: "distinct (memory_refs c)" "\<forall>g \<in> set (ps_grants (fw_state w) (grants_ref c)). g_mapped g"
    and un: "unmappable (ps_pages (fw_state w)) (private_regions c w)"
  shows "\<exists>pm. release_memory c w = Some (Return (set_pages pm (released c w))) \<and> freed (ps_pages (fw_state w)) pm (private_regions c w)"
proof -
  let ?pm = "ps_pages (fw_state w)" and ?mod = "\<lambda>f. modify_context (ctx_id c) f w"
  define mine where "mine \<longleftrightarrow> users grants_ref (grants_ref c) w = 1"
  define gs where "gs = (if mine then ps_grants (fw_state w) (grants_ref c) else [])"
  have split: "private_regions c w = shared_regions (image c) c w @ shared_regions (heap_ref c) c w @ own_regions (stack c) @
      own_regions (map_option tls_mem (tls_of c)) @ map grant_region gs"
    by (simp add: private_regions_def gs_def mine_def)
  note U = un[unfolded split]
  have shared: "shared_regions rs c w = map (\<lambda>r. memory_region (ps_memory (fw_state w) r)) (filter (\<lambda>r. r \<notin> memory_users (?mod f)) rs)"
    if "set rs \<inter> set (memory_refs (f c)) = {}" "\<And>d. ctx_id (f d) = ctx_id d" for rs f
    using that unfolding shared_regions_def memory_users_modify[OF wf(1,2) that(2)] by (auto intro!: arg_cong[where f = "map _"] filter_cong)
  obtain p1 where 1: "drop_shared (image c) (?mod (\<lambda>c. c\<lparr>image := []\<rparr>)) = Some (Return (set_pages p1 (?mod (\<lambda>c. c\<lparr>image := []\<rparr>))))"
    "freed ?pm p1 (shared_regions (image c) c w)"
    using drop_shared_frees[of "?mod (\<lambda>c. c\<lparr>image := []\<rparr>)" "image c", OF _ _ refl] wf(3) refs(1) U
    by (auto simp: shared[of "image c" "\<lambda>c. c\<lparr>image := []\<rparr>", symmetric] memory_refs_def[of c] unmappable_append)
  note U1 = unmappable_freed[OF U 1(2)]
  let ?w2 = "?mod (\<lambda>c. c\<lparr>image := [], heap := None\<rparr>)"
  obtain p2 where 2: "drop_shared (heap_ref c) (set_pages p1 ?w2) = Some (Return (set_pages p2 ?w2))"
    "freed p1 p2 (shared_regions (heap_ref c) c w)"
    using drop_shared_frees[of "set_pages p1 ?w2" "heap_ref c", OF _ _ refl] 1(2) U1 refs(1)
    by (auto simp: shared[of "heap_ref c" "\<lambda>c. c\<lparr>image := [], heap := None\<rparr>", symmetric] unmappable_append freed_def)
  note U2 = unmappable_freed[OF U1 2(2)]
  let ?w3 = "?mod (\<lambda>c. c\<lparr>image := [], heap := None, stack := None\<rparr>)"
  obtain p3 where 3: "drop_own (stack c) (set_pages p2 ?w3) = Some (Return (set_pages p3 ?w3))" "freed p2 p3 (own_regions (stack c))"
    using drop_own_frees[of "set_pages p2 ?w3" "stack c"] 2(2) U2 by (auto simp: unmappable_append freed_def)
  note U3 = unmappable_freed[OF U2 3(2)]
  let ?w4 = "?mod (\<lambda>c. c\<lparr>image := [], heap := None, stack := None, tls_of := None\<rparr>)"
  obtain p4 where 4: "drop_own (map_option tls_mem (tls_of c)) (set_pages p3 ?w4) = Some (Return (set_pages p4 ?w4))"
    "freed p3 p4 (own_regions (map_option tls_mem (tls_of c)))"
    using drop_own_frees[of "set_pages p3 ?w4" "map_option tls_mem (tls_of c)"] 3(2) U3 by (auto simp: unmappable_append freed_def)
  note U4 = unmappable_freed[OF U3 4(2)]
  obtain p5 where 5: "unmap_grants gs (set_pages p4 (released c w)) = Some (Return (set_pages p5 (released c w)))" "freed p4 p5 (map grant_region gs)"
    using unmap_grants_frees[of "set_pages p4 (released c w)" gs] 4(2) U4 refs(2) by (auto simp: freed_def gs_def)
  have u: "users grants_ref (grants_ref c) (set_pages p4 ?w4) = users grants_ref (grants_ref c) w"
    by simp
  have "release_grants c (set_pages p4 ?w4) = unmap_grants gs (set_pages p4 (released c w))"
    unfolding release_grants_def Let_def u mine_def[symmetric] gs_def fresh_ref_def split_beta
    by (intro arg_cong2[where f = unmap_grants])
      (auto simp: released_def set_grants_def modify_context_def set_pages_def set_context_def bt_modify_modify mine_def[symmetric]
        intro!: fs_world.equality proc_state.equality simp del: One_nat_def)
  then have "release_memory c w = Some (Return (set_pages p5 (released c w)))"
    using 1(1) 2(1) 3(1) 4(1) 5(1) by (simp add: release_memory_def then_do_def)
  then show ?thesis
    using freed_trans[OF 1(2) freed_trans[OF 2(2) freed_trans[OF 3(2) freed_trans[OF 4(2) 5(2)]]]] split by auto
qed

section \<open>What the steps of exit leave alone\<close>

definition memory_view :: "ctx \<Rightarrow> usize \<times> ref list \<times> ref option \<times> memory option \<times> tls option \<times> ref" where
  "memory_view c = (ctx_id c, image c, heap c, stack c, tls_of c, grants_ref c)"

definition same_memory :: "'t kernel \<Rightarrow> 't kernel \<Rightarrow> bool" where
  "same_memory w w' \<longleftrightarrow>
     map (apsnd memory_view) (ctx_map (ew_contexts w')) = map (apsnd memory_view) (ctx_map (ew_contexts w)) \<and>
     ps_memory (fw_state w') = ps_memory (fw_state w) \<and> ps_grants (fw_state w') = ps_grants (fw_state w) \<and>
     ps_pages (fw_state w') = ps_pages (fw_state w)"

lemma same_memory_trans: "same_memory w w1 \<Longrightarrow> same_memory w1 w2 \<Longrightarrow> same_memory w w2"
  by (simp add: same_memory_def)

lemma memory_view_fields:
  "memory_view d = memory_view c \<Longrightarrow> ctx_id d = ctx_id c \<and> image d = image c \<and> heap d = heap c \<and> stack d = stack c \<and>
     tls_of d = tls_of c \<and> grants_ref d = grants_ref c \<and> memory_refs d = memory_refs c \<and> heap_ref d = heap_ref c"
  by (simp add: memory_view_def memory_refs_def heap_ref_def)

text \<open>What a context list says about memory depends on these fields only.\<close>

lemma view_set:
  assumes "map (apsnd memory_view) m' = map (apsnd memory_view) m"
  shows "(\<Union>e \<in> set (filter (\<lambda>e. fst e \<noteq> i) m'). set (memory_refs (snd e))) = (\<Union>e \<in> set (filter (\<lambda>e. fst e \<noteq> i) m). set (memory_refs (snd e)))"
    "length (filter (\<lambda>e. grants_ref (snd e) = r) m') = length (filter (\<lambda>e. grants_ref (snd e) = r) m)"
proof -
  have "list_all2 (\<lambda>e d. fst e = fst d \<and> memory_view (snd e) = memory_view (snd d)) m' m"
    using assms unfolding list.rel_eq[symmetric] by (simp add: list.rel_map prod_eq_iff)
  then have "(\<Union>e \<in> set (filter (\<lambda>e. fst e \<noteq> i) m'). set (memory_refs (snd e))) = (\<Union>e \<in> set (filter (\<lambda>e. fst e \<noteq> i) m). set (memory_refs (snd e))) \<and>
      length (filter (\<lambda>e. grants_ref (snd e) = r) m') = length (filter (\<lambda>e. grants_ref (snd e) = r) m)"
  proof (induction rule: list_all2_induct)
    case (Cons e es d ds)
    then show ?case
      using memory_view_fields[of "snd e" "snd d"] by simp
  qed simp
  then show "(\<Union>e \<in> set (filter (\<lambda>e. fst e \<noteq> i) m'). set (memory_refs (snd e))) = (\<Union>e \<in> set (filter (\<lambda>e. fst e \<noteq> i) m). set (memory_refs (snd e)))"
    "length (filter (\<lambda>e. grants_ref (snd e) = r) m') = length (filter (\<lambda>e. grants_ref (snd e) = r) m)"
    by simp_all
qed

lemma private_regions_same:
  assumes "same_memory w w'" "memory_view d = memory_view c"
  shows "private_regions d w' = private_regions c w"
  using assms memory_view_fields[OF assms(2)] view_set(1,2)[of "ctx_map (ew_contexts w')" "ctx_map (ew_contexts w)"]
  by (simp add: private_regions_def shared_regions_def other_users_def users_def same_memory_def)

lemma set_context_view:
  "(\<And>c. memory_view (f c) = memory_view c) \<Longrightarrow> map (apsnd memory_view) (ctx_map (set_context l i f)) = map (apsnd memory_view) (ctx_map l)"
proof -
  assume "\<And>c. memory_view (f c) = memory_view c"
  then have "map (apsnd memory_view) (bt_modify i f m) = map (apsnd memory_view) m" for m
    by (induction m) (auto simp: prod_eq_iff)
  then show ?thesis
    by (simp add: set_context_def)
qed

text \<open>Closing a file of a scheme: no process notices, except that contexts may be woken or blocked.\<close>

definition same_contexts :: "context_list \<Rightarrow> context_list \<Rightarrow> bool" where
  "same_contexts l l' \<longleftrightarrow> ctx_next_id l' = ctx_next_id l \<and> map (apsnd identity) (ctx_map l') = map (apsnd identity) (ctx_map l)"

definition quiet :: "'t kernel \<Rightarrow> 't kernel \<Rightarrow> bool" where
  "quiet w w' \<longleftrightarrow> same_contexts (ew_contexts w) (ew_contexts w') \<and> ew_current w' = ew_current w \<and> fw_files w' = fw_files w \<and>
     fw_schemes w' = fw_schemes w \<and> (\<exists>t. fw_state w' = (fw_state w)\<lparr>ps_rest := t\<rparr>)"

lemma quiet_refl [simp]: "quiet w w"
  by (auto simp: quiet_def same_contexts_def intro!: exI[of _ "ps_rest (fw_state w)"])

lemma quiet_trans: "quiet w w1 \<Longrightarrow> quiet w1 w2 \<Longrightarrow> quiet w w2"
  by (auto simp: quiet_def same_contexts_def)

lemma quiet_unregister: "quiet w (unregister fd s e w)"
  by (auto simp: quiet_def same_contexts_def unregister_def Let_def split: option.splits intro!: exI[of _ "ps_rest (fw_state w)"])

lemma identity_view: "identity d = identity c \<Longrightarrow> memory_view d = memory_view c \<and> ctx_id d = ctx_id c \<and> ppid d = ppid c \<and> vfork d = vfork c \<and>
  waitpid_ref d = waitpid_ref c \<and> running d = running c \<and> files_ref d = files_ref c"
proof -
  assume e: "identity d = identity c"
  have "memory_view x = memory_view (identity x)" "ctx_id x = ctx_id (identity x)" "ppid x = ppid (identity x)" "vfork x = vfork (identity x)"
    "waitpid_ref x = waitpid_ref (identity x)" "running x = running (identity x)" "files_ref x = files_ref (identity x)" for x
    by (simp_all add: identity_def memory_view_def)
  then show ?thesis
    using e by metis
qed

lemma same_contexts_get:
  assumes "same_contexts l l'"
  shows "map_option identity (get_context l' i) = map_option identity (get_context l i)"
proof -
  have "map_option identity (bt_get m i) = bt_get (map (apsnd identity) m) i" for m
    by (induction m) auto
  then show ?thesis
    using assms by (simp add: same_contexts_def get_context_def)
qed

lemma same_contexts_view:
  assumes "same_contexts l l'"
  shows "map (apsnd memory_view) (ctx_map l') = map (apsnd memory_view) (ctx_map l)" "bt_keys (ctx_map l') = bt_keys (ctx_map l)"
proof -
  have eq: "map (apsnd memory_view) (map (apsnd identity) m) = map (apsnd memory_view) m" "bt_keys (map (apsnd identity) m) = bt_keys m" for m
    by (induction m) (auto simp: identity_def memory_view_def)
  have "map (apsnd identity) (ctx_map l') = map (apsnd identity) (ctx_map l)"
    using assms by (simp add: same_contexts_def)
  from arg_cong[OF this, of "map (apsnd memory_view)"] arg_cong[OF this, of bt_keys]
  show "map (apsnd memory_view) (ctx_map l') = map (apsnd memory_view) (ctx_map l)" "bt_keys (ctx_map l') = bt_keys (ctx_map l)"
    by (simp_all only: eq)
qed

lemma same_contexts_wf: "same_contexts l l' \<Longrightarrow> contexts_wf l \<Longrightarrow> contexts_wf l'"
proof -
  assume s: "same_contexts l l'" and wf: "contexts_wf l"
  have "ctx_id c = i \<and> 0 < i \<and> i < CONTEXT_MAX_CONTEXTS" if "get_context l' i = Some c" for i c
  proof -
    have "map_option identity (get_context l i) = Some (identity c)"
      using same_contexts_get[OF s, of i] that by simp
    then obtain d where "get_context l i = Some d" "identity c = identity d"
      by auto
    then show ?thesis
      using wf identity_view[of c d] by (auto simp: contexts_wf_def)
  qed
  then show ?thesis
    using wf s same_contexts_view(2)[OF s] by (simp add: contexts_wf_def bt_wf_def same_contexts_def)
qed

locale process_schemes =
  fixes impl :: "'t proc_state impl"
  assumes close_quiet: "\<exists>r w'. op_close (impl s) i w = (Returned r, w') \<and> quiet w w'"
    and dup_quiet: "\<exists>r w'. op_dup (impl s) i buf w = (Returned r, w') \<and> quiet w w'"
    and open_quiet: "op_open (impl s) path fl u g w = (a, w') \<Longrightarrow> quiet w w'"
    and fstat_quiet: "op_fstat (impl s) i st w = (b, w') \<Longrightarrow> quiet w w'"
    and read_quiet: "op_read (impl s) i buf w = (d, w') \<Longrightarrow> quiet w w'"
begin

lemma close_file_quiet: "\<exists>w'. close_file impl fd f w = (Returned (), w') \<and> quiet w w'"
proof (cases f)
  case (Some k)
  define w1 where "w1 = (case f_event k of None \<Rightarrow> w | Some event_id \<Rightarrow> unregister fd (f_scheme k) event_id w)"
  have 1: "quiet w w1"
    by (simp add: w1_def quiet_unregister split: option.splits)
  show ?thesis
  proof (cases "get_scheme (fw_schemes w1) (f_scheme k)")
    case None
    then show ?thesis
      using Some 1 by (simp add: close_file_def Let_def flip: w1_def)
  next
    case (Some s)
    obtain r w2 where "op_close (impl s) (f_number k) w1 = (Returned r, w2)" "quiet w1 w2"
      using close_quiet by blast
    then show ?thesis
      using \<open>f = Some k\<close> Some quiet_trans[OF 1] by (simp add: close_file_def Let_def then_attempt_def flip: w1_def)
  qed
qed (simp add: close_file_def)

lemma close_files_quiet: "\<exists>w'. close_files impl n fs w = (Returned (), w') \<and> quiet w w'"
proof (induction fs arbitrary: n w)
  case (Cons f fs)
  obtain w1 where "close_file impl (of_nat n) f w = (Returned (), w1)" "quiet w w1"
    using close_file_quiet by blast
  moreover obtain w2 where "close_files impl (Suc n) fs w1 = (Returned (), w2)" "quiet w1 w2"
    using Cons.IH by blast
  ultimately show ?case
    using quiet_trans by (auto simp: then_attempt_def)
qed simp

end

section \<open>The steps of exit\<close>

lemma transfer_children_get:
  "get_context (transfer_children pid parent l) i =
     map_option (\<lambda>c. if ppid c = pid then c\<lparr>ppid := parent, vfork := False\<rparr> else c) (get_context l i)"
proof -
  have "bt_get (map (\<lambda>(i, c). (i, f c)) m) i = map_option f (bt_get m i)" for f :: "ctx \<Rightarrow> ctx" and m
    by (induction m) auto
  then show ?thesis
    by (simp add: transfer_children_def get_context_def)
qed

lemma transfer_children_view:
  "map (apsnd memory_view) (ctx_map (transfer_children pid parent l)) = map (apsnd memory_view) (ctx_map l)"
  by (auto simp: transfer_children_def memory_view_def)

lemma transfer_children_wf: "contexts_wf l \<Longrightarrow> contexts_wf (transfer_children pid parent l)"
proof -
  assume wf: "contexts_wf l"
  have "bt_keys (ctx_map (transfer_children pid parent l)) = bt_keys (ctx_map l)" "ctx_next_id (transfer_children pid parent l) = ctx_next_id l"
    by (auto simp: transfer_children_def bt_keys_def)
  then show ?thesis
    using wf by (auto simp: contexts_wf_def transfer_children_get bt_wf_def split: if_splits)
qed

text \<open>Sending statuses to a parent.\<close>

definition woken :: "context_list \<Rightarrow> context_list \<Rightarrow> bool" where
  "woken l l' \<longleftrightarrow> (\<forall>i. get_context l' i = get_context l i \<or> get_context l' i = map_option (\<lambda>c. fst (unblock c)) (get_context l i))"

lemma woken_trans: "woken l l1 \<Longrightarrow> woken l1 l2 \<Longrightarrow> woken l l2"
  unfolding woken_def by (metis (no_types, lifting) option.map_comp option.map_cong0 comp_apply unblock_idem)

lemma woken_context:
  assumes "woken l l'" "get_context l i = Some c"
  obtains c' where "get_context l' i = Some c'" "identity c' = identity c" "status c = Exited s \<Longrightarrow> c' = c"
proof -
  obtain c' where "get_context l' i = Some c'" "c' = c \<or> c' = fst (unblock c)"
    using assms unfolding woken_def by (metis option.simps(9))
  then show thesis
    using that by (auto simp: unblock_def identity_def split: if_splits)
qed

lemma send_status_spec:
  shows "woken (ew_contexts w) (ew_contexts (send_status r s w))"
    and "contexts_wf (ew_contexts w) \<Longrightarrow> contexts_wf (ew_contexts (send_status r s w))"
    and "m_inner (ps_waitpid (fw_state (send_status r s w)) r) = bt_insert (fst s) (snd s) (m_inner (ps_waitpid (fw_state w) r))"
    and "x \<noteq> r \<Longrightarrow> ps_waitpid (fw_state (send_status r s w)) x = ps_waitpid (fw_state w) x"
    and "ps_pages (fw_state (send_status r s w)) = ps_pages (fw_state w)" "ew_current (send_status r s w) = ew_current w"
  by (auto simp: send_status_def map_send_def notify_def Let_def woken_def get_wake_all contexts_wf_wake_all)

lemma fold_send_status:
  shows "woken (ew_contexts w) (ew_contexts (fold (send_status r) ss w)) \<and>
    (contexts_wf (ew_contexts w) \<longrightarrow> contexts_wf (ew_contexts (fold (send_status r) ss w))) \<and>
    m_inner (ps_waitpid (fw_state (fold (send_status r) ss w)) r) = fold (\<lambda>s. bt_insert (fst s) (snd s)) ss (m_inner (ps_waitpid (fw_state w) r)) \<and>
    (\<forall>x. x \<noteq> r \<longrightarrow> ps_waitpid (fw_state (fold (send_status r) ss w)) x = ps_waitpid (fw_state w) x) \<and>
    ps_pages (fw_state (fold (send_status r) ss w)) = ps_pages (fw_state w) \<and> ew_current (fold (send_status r) ss w) = ew_current w"
proof (induction ss arbitrary: w)
  case Nil
  then show ?case
    by (simp add: woken_def)
next
  case (Cons s ss)
  then show ?case
    using send_status_spec[where w = w and r = r and s = s] woken_trans[OF send_status_spec(1)[where w = w and r = r and s = s]] by simp
qed

lemma fold_bt_insert:
  "bt_get (fold (\<lambda>s. bt_insert (fst s) (snd s)) ss m) k = (case map_of (rev ss) k of None \<Rightarrow> bt_get m k | Some v \<Rightarrow> Some v)"
  "bt_wf m \<Longrightarrow> bt_wf (fold (\<lambda>s. bt_insert (fst s) (snd s)) ss m)"
  by (induction ss arbitrary: m) (auto simp: map_add_def split: option.splits)

text \<open>A status in the map is what \<open>waitpid\<close> returns, and the process is removed.\<close>

lemma reap_spin_idle [simp]: "reap_spin False pid w = Some (Ok ())"
  by (subst reap_spin.simps) simp

lemma waitpid_received:
  assumes "current_context w = Some p" "pid \<noteq> 0" "bt_get (m_inner (ps_waitpid (fw_state w) (waitpid_ref p))) pid = Some s"
    and "contexts_wf (ew_contexts w)" "get_context (ew_contexts w) pid \<noteq> None"
  shows "\<exists>w'. waitpid v pid 0 flags (w, M) = Some (Returned (Ok pid), w', M) \<and>
    (\<forall>i. get_context (ew_contexts w') i = (if i = pid then None else get_context (ew_contexts w) i))"
proof -
  obtain m where m: "receive_status (ew_current w) pid flags (ps_waitpid (fw_state w) (waitpid_ref p)) (ew_contexts w) =
      (Returned (Some (pid, s)), m, ew_contexts w)"
    using assms(2,3) by (auto simp: receive_status_def receive_nonblock_def map_receive_def)
  obtain c where "get_context (ew_contexts w) pid = Some c"
    using assms(5) by blast
  then show ?thesis
    using assms(1,4) m by (simp add: waitpid_def reap_def remove_context_def get_context_def contexts_wf_def)
qed

text \<open>
  The rest of \<open>exit\<close> after the files are closed: \<open>c\<close> is the exiting context, \<open>parent\<close> the identifier that was
  read at the beginning, and the conclusion is what everybody else sees.
\<close>

definition can_release :: "ctx \<Rightarrow> 't kernel \<Rightarrow> bool" where
  "can_release c w \<longleftrightarrow> contexts_wf (ew_contexts w) \<and> tables_wf (ps_pages (fw_state w)) \<and> distinct (memory_refs c) \<and>
     (\<forall>g \<in> set (ps_grants (fw_state w) (grants_ref c)). g_mapped g) \<and> unmappable (ps_pages (fw_state w)) (private_regions c w)"

lemma can_release_same:
  assumes "same_memory w w'" "memory_view d = memory_view c" "contexts_wf (ew_contexts w')" "can_release c w"
  shows "can_release d w'"
  using assms private_regions_same[OF assms(1,2)] memory_view_fields[OF assms(2)] by (simp add: can_release_def same_memory_def)

definition exited :: "ctx \<Rightarrow> usize \<Rightarrow> ctx \<Rightarrow> bool" where
  "exited c code c' \<longleftrightarrow> status c' = Exited code \<and> running c' = running c \<and> image c' = [] \<and> heap c' = None \<and> stack c' = None \<and> tls_of c' = None"

definition other_after_exit :: "ctx \<Rightarrow> ctx \<Rightarrow> ctx \<Rightarrow> bool" where
  "other_after_exit c d d' \<longleftrightarrow> memory_view d' = memory_view d \<and> waitpid_ref d' = waitpid_ref d \<and> running d' = running d \<and>
     ppid d' = (if ppid d = ctx_id c then ppid c else ppid d)"

lemma exit_finish_spec:
  fixes w :: "'t kernel"
  assumes ready: "can_release c w" "get_context (ew_contexts w) (ctx_id c) = Some c" "ppid c \<noteq> ctx_id c"
    and parent: "get_context (ew_contexts w) (ppid c) = Some p" "waitpid_ref p \<noteq> waitpid_ref c"
  obtains w' where "exit_finish (ctx_id c) (ppid c) code w = Some (Return w')" "contexts_wf (ew_contexts w')"
    "\<exists>c'. get_context (ew_contexts w') (ctx_id c) = Some c' \<and> exited c code c'"
    "\<And>i d. i \<noteq> ctx_id c \<Longrightarrow> get_context (ew_contexts w) i = Some d \<Longrightarrow>
       \<exists>d'. get_context (ew_contexts w') i = Some d' \<and> other_after_exit c d d'"
    "freed (ps_pages (fw_state w)) (ps_pages (fw_state w')) (private_regions c w)"
    "m_inner (ps_waitpid (fw_state w') (waitpid_ref p)) =
       fold (\<lambda>s. bt_insert (fst s) (snd s)) (m_inner (ps_waitpid (fw_state w) (waitpid_ref c)) @ [(ctx_id c, code)])
         (m_inner (ps_waitpid (fw_state w) (waitpid_ref p)))"
proof -
  let ?pid = "ctx_id c"
  define w3 where "w3 = w\<lparr>ew_contexts := transfer_children ?pid (ppid c) (ew_contexts w)\<rparr>"
  have c3: "get_context (ew_contexts w3) ?pid = Some c"
    using ready(2,3) by (simp add: w3_def transfer_children_get)
  have wf3: "contexts_wf (ew_contexts w3)"
    using ready(1) by (simp add: w3_def can_release_def transfer_children_wf)
  have same: "same_memory w w3"
    by (simp add: w3_def same_memory_def transfer_children_view)
  note R = can_release_same[OF same refl wf3 ready(1), unfolded can_release_def]
  obtain pm where rel: "release_memory c w3 = Some (Return (set_pages pm (released c w3)))"
    and freed: "freed (ps_pages (fw_state w)) pm (private_regions c w)"
    using release_memory_spec[OF wf3 c3, of] R private_regions_same[OF same refl, of c] same by (auto simp: same_memory_def)
  define w4 where "w4 = set_pages pm (released c w3)"
  define children where "children = m_inner (ps_waitpid (fw_state w) (waitpid_ref c))"
  define w5 where "w5 = modify_context ?pid (\<lambda>c. c\<lparr>vfork := False, status := Exited code\<rparr>)
    (w4\<lparr>fw_state := (fw_state w4)\<lparr>ps_waitpid := (ps_waitpid (fw_state w4))(waitpid_ref c := snd (receive_all (ps_waitpid (fw_state w4) (waitpid_ref c))))\<rparr>\<rparr>)"
  have wp4: "ps_waitpid (fw_state w4) = ps_waitpid (fw_state w)"
    by (simp add: w4_def set_pages_def released_def w3_def)
  have fin: "exit_finish ?pid (ppid c) code w = Some (Return (notify_parent (ppid c) (vfork c) (children @ [(?pid, code)]) w5))"
    using c3 rel unfolding exit_finish_def by (simp add: Let_def then_do_def receive_all_def w5_def wp4 children_def flip: w3_def w4_def)
  have ctx5: "get_context (ew_contexts w5) i = (if i = ?pid then map_option (\<lambda>c. c\<lparr>image := [], heap := None, stack := None, tls_of := None,
      grants_ref := ps_next_ref (fw_state w3), vfork := False, status := Exited code\<rparr>) (get_context (ew_contexts w3) ?pid) else get_context (ew_contexts w3) i)" for i
    by (simp add: w5_def w4_def released_def option.map_comp comp_def)
  have wf5: "contexts_wf (ew_contexts w5)"
    using wf3 by (simp add: w5_def w4_def released_def contexts_wf_set)
  have p5: "get_context (ew_contexts w5) (ppid c) = Some (if ppid p = ?pid then p\<lparr>ppid := ppid c, vfork := False\<rparr> else p)" (is "_ = Some ?p")
    using parent(1) ready(3) by (simp add: ctx5 w3_def transfer_children_get)
  define w6 where "w6 = (if vfork c then modify_context (ppid c) (\<lambda>p. fst (unblock p)) w5 else w5)"
  define w7 where "w7 = fold (send_status (waitpid_ref p)) (children @ [(?pid, code)]) w6"
  have note_eq: "notify_parent (ppid c) (vfork c) (children @ [(?pid, code)]) w5 = w7"
    using p5 by (simp add: notify_parent_def w7_def w6_def)
  have 6: "woken (ew_contexts w5) (ew_contexts w6)" "contexts_wf (ew_contexts w6)" "fw_state w6 = fw_state w5"
    using wf5 contexts_wf_set[OF wf5, of "\<lambda>p. fst (unblock p)" "ppid c"] by (auto simp: w6_def woken_def unblock_def)
  note F = fold_send_status[of w6 "waitpid_ref p" "children @ [(?pid, code)]", folded w7_def]
  have woken: "woken (ew_contexts w5) (ew_contexts w7)"
    using woken_trans[OF 6(1)] F by blast
  show thesis
  proof (rule that)
    show "exit_finish ?pid (ppid c) code w = Some (Return w7)"
      using fin note_eq by simp
    show "contexts_wf (ew_contexts w7)"
      using F 6(2) by blast
    obtain c5 where c5: "get_context (ew_contexts w5) ?pid = Some c5" "exited c code c5"
      using c3 by (simp add: ctx5 exited_def)
    then show "\<exists>c'. get_context (ew_contexts w7) ?pid = Some c' \<and> exited c code c'"
      using woken_context[OF woken c5(1), of code] by (metis exited_def)
    have "ps_pages (fw_state w7) = pm"
      using F 6(3) by (simp add: w5_def w4_def)
    then show "freed (ps_pages (fw_state w)) (ps_pages (fw_state w7)) (private_regions c w)"
      using freed by simp
    have "ps_waitpid (fw_state w6) (waitpid_ref p) = ps_waitpid (fw_state w) (waitpid_ref p)"
      using parent(2) 6(3) wp4 by (simp add: w5_def)
    then show "m_inner (ps_waitpid (fw_state w7) (waitpid_ref p)) = fold (\<lambda>s. bt_insert (fst s) (snd s))
        (m_inner (ps_waitpid (fw_state w) (waitpid_ref c)) @ [(?pid, code)]) (m_inner (ps_waitpid (fw_state w) (waitpid_ref p)))"
      using F by (simp add: children_def)
    fix i d
    assume i: "i \<noteq> ?pid" "get_context (ew_contexts w) i = Some d"
    then have "get_context (ew_contexts w5) i = Some (if ppid d = ?pid then d\<lparr>ppid := ppid c, vfork := False\<rparr> else d)"
      by (simp add: ctx5 w3_def transfer_children_get)
    then obtain d' where d': "get_context (ew_contexts w7) i = Some d'" "identity d' = identity (if ppid d = ?pid then d\<lparr>ppid := ppid c, vfork := False\<rparr> else d)"
      using woken_context[OF woken] by metis
    then show "\<exists>d'. get_context (ew_contexts w7) i = Some d' \<and> other_after_exit c d d'"
      using identity_view[OF d'(2)] by (auto simp: other_after_exit_def memory_view_def)
  qed
qed

lemma exit_begin_spec:
  assumes "current_context w = Some c" "contexts_wf (ew_contexts w)"
  obtains files w1 r where "exit_begin w = Return (ctx_id c, ppid c, files, w1)" "contexts_wf (ew_contexts w1)" "same_memory w w1"
    "ps_waitpid (fw_state w1) = ps_waitpid (fw_state w)"
    "\<forall>i. get_context (ew_contexts w1) i = (if i = ctx_id c then Some (c\<lparr>files_ref := r\<rparr>) else get_context (ew_contexts w) i)"
proof -
  have c: "get_context (ew_contexts w) (ctx_id c) = Some c"
    using assms by (auto simp: current_context_def contexts_wf_def)
  let ?w1 = "modify_context (ctx_id c) (\<lambda>c. c\<lparr>files_ref := ps_next_ref (fw_state w)\<rparr>) (set_files (ps_next_ref (fw_state w)) []
    (snd (fresh_ref (if users files_ref (files_ref c) w = 1 then set_files (files_ref c) [] w else w))))"
  have "exit_begin w = Return (ctx_id c, ppid c, if users files_ref (files_ref c) w = 1 then fw_files w (files_ref c) else [], ?w1)"
    using assms(1) by (simp add: exit_begin_def Let_def fresh_ref_def set_files_def)
  moreover have l: "ew_contexts ?w1 = set_context (ew_contexts w) (ctx_id c) (\<lambda>c. c\<lparr>files_ref := ps_next_ref (fw_state w)\<rparr>)"
    and s: "fw_state ?w1 = (fw_state w)\<lparr>ps_next_ref := Suc (ps_next_ref (fw_state w))\<rparr>"
    by (simp_all add: fresh_ref_def set_files_def)
  moreover have "same_memory w ?w1"
    unfolding same_memory_def l s by (simp add: set_context_view memory_view_def)
  ultimately show thesis
    using that[of _ ?w1 "ps_next_ref (fw_state w)"] c assms(2) by (simp add: contexts_wf_set del: modify_context_simps)
qed

lemma quiet_same_memory: "quiet w w' \<Longrightarrow> same_memory w w'"
  unfolding quiet_def same_memory_def by (auto simp: same_contexts_view)

lemma map_of_rev: "distinct (map fst xs) \<Longrightarrow> map_of (rev xs) = map_of xs"
  by (subst map_of_inject_set) (simp_all add: rev_map[symmetric])

lemma bt_get_map_of: "bt_get m k = map_of m k"
  by (induction m) auto

context process_schemes
begin

lemma exit_spec:
  assumes "current_context w = Some c" "can_release c w" "ppid c \<noteq> ctx_id c"
    and "get_context (ew_contexts w) (ppid c) = Some p" "waitpid_ref p \<noteq> waitpid_ref c"
    and "bt_wf (m_inner (ps_waitpid (fw_state w) (waitpid_ref c)))"
  obtains w' where "exit_call impl code w = Some (Returned (), w')" "contexts_wf (ew_contexts w')"
    "\<exists>c'. get_context (ew_contexts w') (ctx_id c) = Some c' \<and> exited c code c'"
    "\<And>i d. i \<noteq> ctx_id c \<Longrightarrow> get_context (ew_contexts w) i = Some d \<Longrightarrow> \<exists>d'. get_context (ew_contexts w') i = Some d' \<and> other_after_exit c d d'"
    "freed (ps_pages (fw_state w)) (ps_pages (fw_state w')) (private_regions c w)"
    "\<And>k. bt_get (m_inner (ps_waitpid (fw_state w') (waitpid_ref p))) k = (if k = ctx_id c then Some code
       else case bt_get (m_inner (ps_waitpid (fw_state w) (waitpid_ref c))) k of
              None \<Rightarrow> bt_get (m_inner (ps_waitpid (fw_state w) (waitpid_ref p))) k | Some s \<Rightarrow> Some s)"
proof -
  obtain files w1 r where b: "exit_begin w = Return (ctx_id c, ppid c, files, w1)" and wf1: "contexts_wf (ew_contexts w1)"
    and m1: "same_memory w w1" and wp1: "ps_waitpid (fw_state w1) = ps_waitpid (fw_state w)"
    and g1: "\<forall>i. get_context (ew_contexts w1) i = (if i = ctx_id c then Some (c\<lparr>files_ref := r\<rparr>) else get_context (ew_contexts w) i)"
    by (rule exit_begin_spec[OF assms(1) conjunct1[OF assms(2)[unfolded can_release_def]]])
  obtain w2 where cl: "close_files impl 0 files w1 = (Returned (), w2)" and q: "quiet w1 w2"
    using close_files_quiet by blast
  have s: "same_contexts (ew_contexts w1) (ew_contexts w2)"
    using q by (simp add: quiet_def)
  have g2: "\<exists>d2. get_context (ew_contexts w2) i = Some d2 \<and> identity d2 = identity d" if "get_context (ew_contexts w1) i = Some d" for i d
    using same_contexts_get[OF s, of i] that by auto
  have m2: "same_memory w w2"
    using same_memory_trans[OF m1 quiet_same_memory[OF q]] .
  have wp2: "ps_waitpid (fw_state w2) = ps_waitpid (fw_state w)"
    using q wp1 by (auto simp: quiet_def)
  obtain c2 where c2: "get_context (ew_contexts w2) (ctx_id c) = Some c2" "identity c2 = identity (c\<lparr>files_ref := r\<rparr>)"
    using g2[of "ctx_id c"] g1 by auto
  note C = identity_view[OF c2(2)]
  have Cv: "memory_view c2 = memory_view c"
    using C by (simp add: memory_view_def)
  obtain p2 where p2: "get_context (ew_contexts w2) (ppid c) = Some p2" "identity p2 = identity p"
    using g2[of "ppid c" p] g1 assms(3,4) by auto
  have R: "can_release c2 w2"
    using can_release_same[OF m2 Cv same_contexts_wf[OF s wf1] assms(2)] .
  obtain w' where f: "exit_finish (ctx_id c) (ppid c) code w2 = Some (Return w')" "contexts_wf (ew_contexts w')"
    "\<exists>c'. get_context (ew_contexts w') (ctx_id c) = Some c' \<and> exited c2 code c'"
    "\<And>i d. i \<noteq> ctx_id c \<Longrightarrow> get_context (ew_contexts w2) i = Some d \<Longrightarrow> \<exists>d'. get_context (ew_contexts w') i = Some d' \<and> other_after_exit c2 d d'"
    "freed (ps_pages (fw_state w2)) (ps_pages (fw_state w')) (private_regions c2 w2)"
    "m_inner (ps_waitpid (fw_state w') (waitpid_ref p)) = fold (\<lambda>s. bt_insert (fst s) (snd s))
       (m_inner (ps_waitpid (fw_state w) (waitpid_ref c)) @ [(ctx_id c, code)]) (m_inner (ps_waitpid (fw_state w) (waitpid_ref p)))"
    using exit_finish_spec[OF R, of p2 code] c2(1) p2 C identity_view[OF p2(2)] assms(3,5) wp2 by auto
  show thesis
  proof (rule that)
    show "exit_call impl code w = Some (Returned (), w')"
      using b cl f(1) by (simp add: exit_call_def)
    show "\<exists>c'. get_context (ew_contexts w') (ctx_id c) = Some c' \<and> exited c code c'"
      using f(3) C by (simp add: exited_def)
    show "freed (ps_pages (fw_state w)) (ps_pages (fw_state w')) (private_regions c w)"
      using f(5) m2 private_regions_same[OF m2 Cv] by (simp add: same_memory_def)
    show "bt_get (m_inner (ps_waitpid (fw_state w') (waitpid_ref p))) k = (if k = ctx_id c then Some code
       else case bt_get (m_inner (ps_waitpid (fw_state w) (waitpid_ref c))) k of
              None \<Rightarrow> bt_get (m_inner (ps_waitpid (fw_state w) (waitpid_ref p))) k | Some s \<Rightarrow> Some s)" for k
      unfolding f(6) fold_bt_insert using distinct_bt_keys[OF assms(6)] by (simp add: bt_get_map_of map_of_rev bt_keys_def)
    fix i d
    assume i: "i \<noteq> ctx_id c" "get_context (ew_contexts w) i = Some d"
    then obtain d2 where "get_context (ew_contexts w2) i = Some d2" "identity d2 = identity d"
      using g2[of i d] g1 by auto
    then show "\<exists>d'. get_context (ew_contexts w') i = Some d' \<and> other_after_exit c d d'"
      using f(4)[OF i(1)] C identity_view[of d2 d] by (auto simp: other_after_exit_def)
  qed (fact f(2))
qed

end

section \<open>The schemes in memory, for processes\<close>

text \<open>The state of the schemes as the file calls see it.\<close>

definition scheme_part :: "'t kernel \<Rightarrow> 't fs_world" where
  "scheme_part w =
     \<lparr>ew_registry = ew_registry w, ew_queues = ew_queues w, ew_contexts = ew_contexts w, ew_current = ew_current w,
      fw_schemes = fw_schemes w, fw_files = fw_files w, fw_cwds = fw_cwds w, fw_pipes = fw_pipes w, fw_pipe_id = fw_pipe_id w,
      fw_state = ps_rest (fw_state w)\<rparr>"

definition put_scheme_part :: "'t fs_world \<Rightarrow> 't kernel \<Rightarrow> 't kernel" where
  "put_scheme_part s w =
     \<lparr>ew_registry = ew_registry s, ew_queues = ew_queues s, ew_contexts = ew_contexts s, ew_current = ew_current s,
      fw_schemes = fw_schemes s, fw_files = fw_files s, fw_cwds = fw_cwds s, fw_pipes = fw_pipes s, fw_pipe_id = fw_pipe_id s,
      fw_state = (fw_state w)\<lparr>ps_rest := fw_state s\<rparr>\<rparr>"

definition process_impl :: "kernel_state proc_state impl" where
  "process_impl s = lift_ops scheme_part put_scheme_part (memory_impl s)"

text \<open>No scheme operation changes more of a context than whether it is blocked.\<close>

definition quiet_schemes_step :: "'t fs_world \<Rightarrow> 't fs_world \<Rightarrow> bool" where
  "quiet_schemes_step w w' \<longleftrightarrow> same_contexts (ew_contexts w) (ew_contexts w') \<and> ew_current w' = ew_current w \<and>
     fw_files w' = fw_files w \<and> fw_schemes w' = fw_schemes w"

lemma quiet_put: "quiet_schemes_step (scheme_part w) s \<Longrightarrow> quiet w (put_scheme_part s w)"
  by (auto simp: quiet_schemes_step_def quiet_def scheme_part_def put_scheme_part_def)

lemma same_contexts_refl [simp]: "same_contexts l l"
  by (simp add: same_contexts_def)

lemma same_contexts_set: "(\<And>c. identity (f c) = identity c) \<Longrightarrow> same_contexts l (set_context l i f)"
proof -
  assume "\<And>c. identity (f c) = identity c"
  then have "map (apsnd identity) (bt_modify i f m) = map (apsnd identity) m" for m
    by (induction m) (auto simp: prod_eq_iff)
  then show ?thesis
    by (simp add: same_contexts_def set_context_def)
qed

lemma receive_into_contexts: "receive_into cur buf blk q l = (a, q', l') \<Longrightarrow> same_contexts l l'"
  by (auto simp: receive_into_def receive_def sleep_on_queue_def wait_def pop_into_eq Let_def block_def identity_def neq_Nil_conv
      intro!: same_contexts_set split: if_splits list.splits option.splits)

lemma debug_read_contexts:
  "debug_read i buf s = (a, s') \<Longrightarrow> same_contexts (ew_contexts s) (ew_contexts s') \<and> ew_current s' = ew_current s"
  using receive_into_contexts[of "ew_current s" buf True "dbg_input s" "ew_contexts s"]
  by (auto simp: debug_read_def split: prod.splits attempt.splits)

lemmas memory_impl_defs = memory_impl_def lift_ops_def lift_op_def default_ops_def debug_ops_def null_ops_def zero_ops_def returns_def

lemma memory_impl_quiet:
  "op_close (memory_impl s) i w = (a, w') \<Longrightarrow> quiet_schemes_step w w'"
  "op_dup (memory_impl s) i buf w = (a, w') \<Longrightarrow> quiet_schemes_step w w'"
  "op_open (memory_impl s) path fl u g w = (a, w') \<Longrightarrow> quiet_schemes_step w w'"
  "op_fstat (memory_impl s) i st w = (b, w') \<Longrightarrow> quiet_schemes_step w w'"
  by (auto simp: memory_impl_defs quiet_schemes_step_def split: scheme_object.splits prod.splits)

lemma memory_impl_read: "op_read (memory_impl s) i buf w = (a, w') \<Longrightarrow> quiet_schemes_step w w'"
  using debug_read_contexts[of i buf "get_debug w"]
  by (auto simp: memory_impl_defs quiet_schemes_step_def put_debug_def get_debug_def Let_def split: scheme_object.splits prod.splits)

lemma memory_impl_returns:
  "\<exists>r w'. op_close (memory_impl s) i w = (Returned r, w')" "\<exists>r w'. op_dup (memory_impl s) i buf w = (Returned r, w')"
  by (auto simp: memory_impl_defs initfs_close_def close_handle_def initfs_dup_def get_handle_def Let_def
      split: scheme_object.splits prod.splits option.splits result.splits)

interpretation process_memory: process_schemes process_impl
proof
  fix s i path fl u g buf st a b d and w w' :: "kernel_state kernel"
  note put = quiet_put[of w]
  show "\<exists>r w'. op_close (process_impl s) i w = (Returned r, w') \<and> quiet w w'"
    using memory_impl_returns(1)[of s i "scheme_part w"] memory_impl_quiet(1)[of s i "scheme_part w"] put
    by (auto simp: process_impl_def lift_ops_def lift_op_def)
  show "\<exists>r w'. op_dup (process_impl s) i buf w = (Returned r, w') \<and> quiet w w'"
    using memory_impl_returns(2)[of s i buf "scheme_part w"] memory_impl_quiet(2)[of s i buf "scheme_part w"] put
    by (auto simp: process_impl_def lift_ops_def lift_op_def)
  show "quiet w w'" if "op_open (process_impl s) path fl u g w = (a, w')"
    using that memory_impl_quiet(3)[of s path fl u g "scheme_part w"] put
    by (auto simp: process_impl_def lift_ops_def lift_op_def split: prod.splits)
  show "quiet w w'" if "op_fstat (process_impl s) i st w = (b, w')"
    using that memory_impl_quiet(4)[of s i st "scheme_part w"] put
    by (auto simp: process_impl_def lift_ops_def lift_op_def split: prod.splits)
  show "quiet w w'" if "op_read (process_impl s) i buf w = (d, w')"
    using that memory_impl_read[of s i buf "scheme_part w"] put
    by (auto simp: process_impl_def lift_ops_def lift_op_def split: prod.splits)
qed

lemma exit_then_waitpid:
  assumes wf: "contexts_wf (ew_contexts w')" and c': "\<exists>c'. get_context (ew_contexts w') (ctx_id c) = Some c' \<and> exited c code c'"
    and p': "\<exists>p'. get_context (ew_contexts w') (ppid c) = Some p' \<and> other_after_exit c p p'"
    and status: "\<And>k. bt_get (m_inner (ps_waitpid (fw_state w') (waitpid_ref p))) k = (if k = ctx_id c then Some code else f k)"
  shows "\<exists>w''. waitpid v (ctx_id c) 0 flags (w'\<lparr>ew_current := ppid c\<rparr>, M) = Some (Returned (Ok (ctx_id c)), w'', M) \<and>
    (\<forall>i. get_context (ew_contexts w'') i = (if i = ctx_id c then None else get_context (ew_contexts w') i))"
proof -
  obtain p' where p': "get_context (ew_contexts w') (ppid c) = Some p'" "waitpid_ref p' = waitpid_ref p"
    using p' by (auto simp: other_after_exit_def)
  have "ctx_id c \<noteq> 0"
    using wf c' unfolding contexts_wf_def by (metis less_irrefl)
  then show ?thesis
    using waitpid_received[of "w'\<lparr>ew_current := ppid c\<rparr>" p' "ctx_id c" code v flags M] p' wf c' status[of "ctx_id c"]
    by (auto simp: current_context_def)
qed

section \<open>Properties\<close>

text \<open>
  C2. Exit and wait. When a process exits, and its files are in schemes that answer, the call returns; the
  process is left as \<open>Exited\<close> with its status and without memory; every page of a region that no other context
  shares is unmapped and no other page is; its children belong to its parent; and its status, with those of its
  own children that it has not waited for, is in the parent's map. The parent's \<open>waitpid\<close> then returns its
  identifier at once, with or without \<open>WNOHANG\<close>, and removes exactly this context from the list.
\<close>

theorem exit_reaches_parent:
  assumes "process_schemes impl" "current_context w = Some c" "can_release c w" "ppid c \<noteq> ctx_id c"
    and "get_context (ew_contexts w) (ppid c) = Some p" "waitpid_ref p \<noteq> waitpid_ref c"
    and "bt_wf (m_inner (ps_waitpid (fw_state w) (waitpid_ref c)))"
  shows "\<exists>w'. exit_call impl code w = Some (Returned (), w') \<and>
    (\<exists>c'. get_context (ew_contexts w') (ctx_id c) = Some c' \<and> exited c code c') \<and>
    (\<forall>i d. i \<noteq> ctx_id c \<and> get_context (ew_contexts w) i = Some d \<longrightarrow> (\<exists>d'. get_context (ew_contexts w') i = Some d' \<and> other_after_exit c d d')) \<and>
    page_map (ps_pages (fw_state w')) = (\<lambda>x. if x \<in> pages_of (private_regions c w) then None else page_map (ps_pages (fw_state w)) x) \<and>
    (\<forall>k. bt_get (m_inner (ps_waitpid (fw_state w') (waitpid_ref p))) k = (if k = ctx_id c then Some code
       else case bt_get (m_inner (ps_waitpid (fw_state w) (waitpid_ref c))) k of
              None \<Rightarrow> bt_get (m_inner (ps_waitpid (fw_state w) (waitpid_ref p))) k | Some s \<Rightarrow> Some s)) \<and>
    (\<exists>w''. waitpid v (ctx_id c) 0 flags (w'\<lparr>ew_current := ppid c\<rparr>, M) = Some (Returned (Ok (ctx_id c)), w'', M) \<and>
      (\<forall>i. get_context (ew_contexts w'') i = (if i = ctx_id c then None else get_context (ew_contexts w') i)))"
proof -
  obtain w' where w': "exit_call impl code w = Some (Returned (), w')" "contexts_wf (ew_contexts w')"
    "\<exists>c'. get_context (ew_contexts w') (ctx_id c) = Some c' \<and> exited c code c'"
    "\<And>i d. i \<noteq> ctx_id c \<Longrightarrow> get_context (ew_contexts w) i = Some d \<Longrightarrow> \<exists>d'. get_context (ew_contexts w') i = Some d' \<and> other_after_exit c d d'"
    "freed (ps_pages (fw_state w)) (ps_pages (fw_state w')) (private_regions c w)"
    "\<And>k. bt_get (m_inner (ps_waitpid (fw_state w') (waitpid_ref p))) k = (if k = ctx_id c then Some code
       else case bt_get (m_inner (ps_waitpid (fw_state w) (waitpid_ref c))) k of
              None \<Rightarrow> bt_get (m_inner (ps_waitpid (fw_state w) (waitpid_ref p))) k | Some s \<Rightarrow> Some s)"
    using process_schemes.exit_spec[OF assms, of code] by metis
  have W: "\<exists>w''. waitpid v (ctx_id c) 0 flags (w'\<lparr>ew_current := ppid c\<rparr>, M) = Some (Returned (Ok (ctx_id c)), w'', M) \<and>
      (\<forall>i. get_context (ew_contexts w'') i = (if i = ctx_id c then None else get_context (ew_contexts w') i))"
    using exit_then_waitpid[OF w'(2,3) w'(4)[OF assms(4,5)] w'(6)] .
  show ?thesis
    by (rule exI[of _ w'], intro conjI allI impI)
      (use w'(1) in simp, use w'(3) in simp, use w'(4) in blast, use w'(5) in \<open>simp add: freed_def\<close>, use w'(6) in simp, use W in blast)
qed

text \<open>A process of one page, with its parent.\<close>

definition family :: context_list where
  "family = \<lparr>ctx_map = [(1, (new_ctx 0 1)\<lparr>status := Runnable\<rparr>),
     (2, (new_ctx 1 2)\<lparr>status := Runnable, running := True, ppid := 1, image := [5]\<rparr>)], ctx_next_id = 3\<rparr>"

definition one_mapped :: page_mem where
  "one_mapped = write_entry (Frame 102) 0 0xA001 small_tables"

definition small_process :: "kernel_state kernel" where
  "small_process =
     \<lparr>ew_registry = bt_empty, ew_queues = (\<lambda>_. new_queue), ew_contexts = family, ew_current = 2, fw_schemes = one_namespace,
      fw_files = (\<lambda>_. []), fw_cwds = (\<lambda>_. bytes_of ''null:''), fw_pipes = new_pipes family 2, fw_pipe_id = 0,
      fw_state = \<lparr>ps_waitpid = (\<lambda>_. new_wait_map), ps_memory = (\<lambda>_. \<lparr>mem_start = 0, mem_size = 0x1000, mem_flags = PRESENT\<rparr>),
        ps_grants = (\<lambda>_. []), ps_pages = one_mapped, ps_page_table = (\<lambda>_. 0), ps_names = (\<lambda>_. []), ps_envs = (\<lambda>_. bt_empty),
        ps_cells = (\<lambda>_. []), ps_next_ref = 10, ps_rest = fw_state small_fs\<rparr>\<rparr>"

abbreviation small_child :: ctx where
  "small_child \<equiv> (new_ctx 1 2)\<lparr>status := Runnable, running := True, ppid := 1, image := [5]\<rparr>"

lemma one_mapped_ok: "tables_wf one_mapped" "page_map one_mapped (page_index (Page 0)) \<noteq> None"
proof -
  have x: "valid_index (0, 0, 0, 0)" and f: "descend small_tables (pg_cr3 small_tables) [0, 0, 0] = Some (Frame 102)"
    by (simp_all add: valid_index_def vpath_def small_step)
  show "tables_wf one_mapped"
    unfolding one_mapped_def by (rule leaf_write_wf[OF small_tables_wf x f])
  have "page_index (Page 0) = (0, 0, 0, 0)"
    by (simp add: page_index_def p4_index_def p3_index_def p2_index_def p1_index_def)
  then show "page_map one_mapped (page_index (Page 0)) \<noteq> None"
    unfolding one_mapped_def by (simp add: page_map_leaf_write[OF small_tables_wf x f] has_flag_def PRESENT_def)
qed

lemma first_page: "region_pages 0 0x1000 = {page_index (Page 0)}"
proof -
  have "{p. page_containing 0 \<le> p \<and> p \<le> page_containing 0xFFF} = {Page 0}"
    by (auto simp: page_order page_number_containing)
  then show ?thesis
    by (simp add: region_pages_def)
qed

lemma small_process_ok:
  "current_context small_process = Some small_child" "can_release small_child small_process" "ppid small_child \<noteq> ctx_id small_child"
  "get_context (ew_contexts small_process) (ppid small_child) = Some ((new_ctx 0 1)\<lparr>status := Runnable\<rparr>)"
  "waitpid_ref ((new_ctx 0 1)\<lparr>status := Runnable\<rparr>) \<noteq> waitpid_ref small_child"
  "bt_wf (m_inner (ps_waitpid (fw_state small_process) (waitpid_ref small_child)))" "private_regions small_child small_process = [(0, 0x1000)]"
proof -
  show p: "private_regions small_child small_process = [(0, 0x1000)]"
    by (simp add: private_regions_def shared_regions_def other_users_def small_process_def family_def new_ctx_def memory_refs_def
        heap_ref_def own_regions_def memory_region_def)
  have "contexts_wf family"
    using usize_max_pred by (auto simp: contexts_wf_def family_def bt_wf_def get_context_def new_ctx_def CONTEXT_MAX_CONTEXTS_def
        word_less_nat_alt split: if_splits)
  then show "can_release small_child small_process"
    unfolding can_release_def p using one_mapped_ok
    by (simp add: small_process_def first_page low_region_def new_ctx_def memory_refs_def heap_ref_def)
qed (simp_all add: current_context_def small_process_def family_def get_context_def new_ctx_def new_wait_map_def)

theorem exit_reaches_parent_witness:
  "\<exists>w' w''. exit_call process_impl 0x100 small_process = Some (Returned (), w') \<and>
     page_map (ps_pages (fw_state small_process)) (page_index (Page 0)) \<noteq> None \<and> page_map (ps_pages (fw_state w')) (page_index (Page 0)) = None \<and>
     waitpid (\<lambda>_ _ _. Ok ()) 2 0 0 (w'\<lparr>ew_current := 1\<rparr>, \<lambda>_. 0) = Some (Returned (Ok 2), w'', \<lambda>_. 0) \<and>
     get_context (ew_contexts w'') 2 = None"
proof -
  note E = exit_reaches_parent[OF process_memory.process_schemes_axioms small_process_ok(1-6), of "0x100" "\<lambda>_ _ _. Ok ()" 0 "\<lambda>_. 0", unfolded small_process_ok(7)]
  have "ctx_id small_child = 2" "ppid small_child = 1"
    by (simp_all add: new_ctx_def)
  moreover have "page_map (ps_pages (fw_state small_process)) (page_index (Page 0)) \<noteq> None"
    using one_mapped_ok(2) by (simp add: small_process_def)
  moreover have "page_index (Page 0) \<in> pages_of [(0, 0x1000)]"
    by (simp add: first_page)
  ultimately show ?thesis
    using E by auto
qed



end
