(* ===== verification/Exec.thy ===== *)
theory Exec
  imports Process_Calls
begin

text \<open>
  Programs (\<open>kernel/elf.rs\<close> and \<open>exec\<close> of \<open>kernel/syscall/process.rs\<close>): an ELF file is read through the file
  calls, its segments are mapped and copied, heap, stack, thread-local storage and arguments are set up, the
  files are given up and taken again, and the CPU goes to the entry point. The contents of the address space are
  a function from addresses to bytes; memory of the kernel (the file and the \<open>stat\<close> structure) lies in it too.
\<close>

type_synonym 't process = "'t kernel \<times> address_space"

section \<open>ELF (elf.rs)\<close>

definition SIZEOF_EHDR :: nat where "SIZEOF_EHDR = 64"
definition SELFMAG :: nat where "SELFMAG = 4"
definition ELFMAG :: bytes where "ELFMAG = [0x7F, 0x45, 0x4C, 0x46]"
definition EI_CLASS :: nat where "EI_CLASS = 4"
definition ELFCLASS :: u8 where "ELFCLASS = 2"

definition PT_LOAD :: u32 where "PT_LOAD = 1"
definition PT_TLS :: u32 where "PT_TLS = 7"
definition PF_X :: u32 where "PF_X = 1"
definition PF_W :: u32 where "PF_W = 2"
definition PF_R :: u32 where "PF_R = 4"

datatype elf_error = NotEnoughData | InvalidMagic | InvalidArchitecture

text \<open>\<open>Elf::from\<close>: the header is the beginning of the data, where it lies in memory.\<close>

definition elf_from :: "bytes \<Rightarrow> elf_error option" where
  "elf_from data =
     (if length data < SIZEOF_EHDR then Some NotEnoughData
      else if take SELFMAG data \<noteq> ELFMAG then Some InvalidMagic
      else if data ! EI_CLASS \<noteq> ELFCLASS then Some InvalidArchitecture
      else None)"

text \<open>The fields of \<open>Header\<close> that the kernel reads, at the offsets of the structure.\<close>

definition e_entry :: "address_space \<Rightarrow> usize \<Rightarrow> u64" where "e_entry M data = le_word (slice_at M (data + 24) 8)"
definition e_phoff :: "address_space \<Rightarrow> usize \<Rightarrow> u64" where "e_phoff M data = le_word (slice_at M (data + 32) 8)"
definition e_phentsize :: "address_space \<Rightarrow> usize \<Rightarrow> u16" where "e_phentsize M data = le_word (slice_at M (data + 54) 2)"
definition e_phnum :: "address_space \<Rightarrow> usize \<Rightarrow> u16" where "e_phnum M data = le_word (slice_at M (data + 56) 2)"

record program_header =
  p_type :: u32
  p_flags :: u32
  p_offset :: u64
  p_vaddr :: u64
  p_paddr :: u64
  p_filesz :: u64
  p_memsz :: u64
  p_align :: u64

definition program_header_at :: "address_space \<Rightarrow> usize \<Rightarrow> program_header" where
  "program_header_at M a =
     \<lparr>p_type = le_word (slice_at M a 4), p_flags = le_word (slice_at M (a + 4) 4), p_offset = le_word (slice_at M (a + 8) 8),
      p_vaddr = le_word (slice_at M (a + 16) 8), p_paddr = le_word (slice_at M (a + 24) 8), p_filesz = le_word (slice_at M (a + 32) 8),
      p_memsz = le_word (slice_at M (a + 40) 8), p_align = le_word (slice_at M (a + 48) 8)\<rparr>"

text \<open>\<open>ElfSegments::next\<close>; neither the offset nor the number of entries is compared with the size of the file.\<close>

definition segment_next :: "address_space \<Rightarrow> usize \<Rightarrow> usize \<Rightarrow> program_header option" where
  "segment_next M data i =
     (if i < ucast (e_phnum M data)
      then Some (program_header_at M (data + e_phoff M data + i * ucast (e_phentsize M data)))
      else None)"

section \<open>Regions with contents\<close>

definition USER_TCB_OFFSET :: usize where "USER_TCB_OFFSET = 0xB0000000"
definition USER_ARG_OFFSET :: usize where "USER_ARG_OFFSET = USER_OFFSET + PML4_SIZE div 2"
definition USER_STACK_SIZE :: usize where "USER_STACK_SIZE = 0x100000"

text \<open>\<open>Memory::new(start, size, flags, true, true)\<close>: the memory is cleared.\<close>

definition new_region :: "usize \<Rightarrow> usize \<Rightarrow> u64 \<Rightarrow> 't process \<Rightarrow> (memory \<times> 't process) outcome option" where
  "new_region start sz flags p =
     then_do (memory_new start sz flags True True (ps_pages (fw_state (fst p))))
       (\<lambda>(m, pm). Some (Return (m, (set_pages pm (fst p), store_at (snd p) start (replicate (unat sz) 0)))))"

definition remap_region :: "u64 \<Rightarrow> memory \<Rightarrow> 't process \<Rightarrow> (memory \<times> 't process) outcome option" where
  "remap_region flags m p =
     then_do (memory_remap flags m (ps_pages (fw_state (fst p))))
       (\<lambda>(m, pm). Some (Return (m, (set_pages pm (fst p), snd p))))"

definition copy_bytes :: "usize \<Rightarrow> usize \<Rightarrow> usize \<Rightarrow> 't process \<Rightarrow> 't process" where
  "copy_bytes src dst n p = (fst p, store_at (snd p) dst (slice_at (snd p) src (unat n)))"

definition store_word :: "usize \<Rightarrow> usize \<Rightarrow> 't process \<Rightarrow> 't process" where
  "store_word a v p = (fst p, store_at (snd p) a (le_bytes 8 v))"

text \<open>\<open>context.image.push(memory.to_shared())\<close>\<close>

definition push_image :: "usize \<Rightarrow> memory \<Rightarrow> 't process \<Rightarrow> 't process" where
  "push_image pid m p =
     (let (r, w) = fresh_ref (fst p)
      in (modify_context pid (\<lambda>c. c\<lparr>image := image c @ [r]\<rparr>) (set_memory r m w), snd p))"

section \<open>Segments\<close>

text \<open>W ^ X. If it is executable, do not allow it to be writable, even if requested.\<close>

definition segment_flags :: "u32 \<Rightarrow> u64" where
  "segment_flags fl =
     (let flags = NO_EXECUTE OR USER_ACCESSIBLE;
          flags = (if has_flag fl PF_R then flags OR PRESENT else flags)
      in if has_flag fl PF_X then flags AND NOT NO_EXECUTE
         else if has_flag fl PF_W then flags OR WRITABLE
         else flags)"

type_synonym tls_option = "(usize \<times> usize \<times> usize) option"

definition load_segment :: "usize \<Rightarrow> usize \<Rightarrow> program_header \<Rightarrow> tls_option \<Rightarrow> 't process \<Rightarrow> (tls_option \<times> 't process) outcome option" where
  "load_segment pid data seg tls p =
     (if p_type seg = PT_LOAD then
        then_do (new_region (p_vaddr seg) (p_memsz seg) (NO_EXECUTE OR WRITABLE) p) (\<lambda>(m, p).
        then_do (remap_region (segment_flags (p_flags seg)) m (copy_bytes (data + p_offset seg) (p_vaddr seg) (p_filesz seg) p)) (\<lambda>(m, p).
        Some (Return (tls, push_image pid m p))))
      else if p_type seg = PT_TLS then
        then_do (new_region USER_TCB_OFFSET 4096 (NO_EXECUTE OR WRITABLE OR USER_ACCESSIBLE) p) (\<lambda>(m, p).
        Some (Return (Some (p_vaddr seg, p_filesz seg, p_memsz seg),
          push_image pid m (store_word USER_TCB_OFFSET (USER_TLS_OFFSET + p_memsz seg) p))))
      else Some (Return (tls, p)))"

partial_function (option) load_segments :: "usize \<Rightarrow> usize \<Rightarrow> usize \<Rightarrow> tls_option \<Rightarrow> 't process \<Rightarrow> (tls_option \<times> 't process) outcome option" where
  "load_segments pid data i tls p =
     (case segment_next (snd p) data i of
        None \<Rightarrow> Some (Return (tls, p))
      | Some seg \<Rightarrow>
          Option.bind (load_segment pid data seg tls p)
            (\<lambda>r. case r of Panic \<Rightarrow> Some Panic | Return (tls, p) \<Rightarrow> load_segments pid data (i + 1) tls p))"

section \<open>Heap, stack, thread-local storage\<close>

definition map_heap :: "usize \<Rightarrow> 't process \<Rightarrow> 't process outcome option" where
  "map_heap pid p =
     then_do (new_region USER_HEAP_OFFSET 0 (NO_EXECUTE OR WRITABLE OR USER_ACCESSIBLE) p) (\<lambda>(m, p).
       let (r, w) = fresh_ref (fst p)
       in Some (Return (modify_context pid (\<lambda>c. c\<lparr>heap := Some r\<rparr>) (set_memory r m w), snd p)))"

definition map_stack :: "usize \<Rightarrow> 't process \<Rightarrow> 't process outcome option" where
  "map_stack pid p =
     then_do (new_region USER_STACK_OFFSET USER_STACK_SIZE (NO_EXECUTE OR WRITABLE OR USER_ACCESSIBLE) p) (\<lambda>(m, p).
       Some (Return (modify_context pid (\<lambda>c. c\<lparr>stack := Some m\<rparr>) (fst p), snd p)))"

definition map_tls :: "usize \<Rightarrow> tls_option \<Rightarrow> 't process \<Rightarrow> 't process outcome option" where
  "map_tls pid tls p =
     (case tls of
        None \<Rightarrow> Some (Return p)
      | Some (master, file_size, sz) \<Rightarrow>
          then_do (new_region USER_TLS_OFFSET sz (NO_EXECUTE OR WRITABLE OR USER_ACCESSIBLE) p) (\<lambda>(m, p).
            let p = copy_bytes master (mem_start m) file_size p
            in Some (Return (modify_context pid
                 (\<lambda>c. c\<lparr>tls_of := Some \<lparr>tls_master = master, tls_file_size = file_size, tls_mem = m\<rparr>\<rparr>) (fst p), snd p))))"

section \<open>Arguments\<close>

text \<open>
  The arguments in reverse order: for each, its address and its length are pushed on the stack; then their number
  is pushed. The bytes are copied, in the same order, to \<open>USER_ARG_OFFSET\<close>.
\<close>

fun push_args :: "bytes list \<Rightarrow> usize \<Rightarrow> usize \<Rightarrow> address_space \<Rightarrow> usize \<times> usize \<times> address_space" where
  "push_args [] sp arg_size M = (sp, arg_size, M)"
| "push_args (arg # args) sp arg_size M =
     (let M = store_at M (sp - 8) (le_bytes 8 (USER_ARG_OFFSET + arg_size));
          M = store_at M (sp - 8 - 8) (le_bytes 8 (of_nat (length arg) :: usize))
      in push_args args (sp - 8 - 8) (arg_size + of_nat (length arg)) M)"

fun copy_args :: "bytes list \<Rightarrow> usize \<Rightarrow> address_space \<Rightarrow> address_space" where
  "copy_args [] arg_offset M = M"
| "copy_args (arg # args) arg_offset M =
     copy_args args (arg_offset + of_nat (length arg)) (store_at M (USER_ARG_OFFSET + arg_offset) arg)"

definition map_args :: "usize \<Rightarrow> bytes list \<Rightarrow> usize \<Rightarrow> 't process \<Rightarrow> (usize \<times> 't process) outcome option" where
  "map_args pid args sp p =
     (let (sp, arg_size, M) = push_args (rev args) sp 0 (snd p);
          sp = sp - 8;
          M = store_at M sp (le_bytes 8 (of_nat (length args) :: usize))
      in if arg_size > 0 then
           then_do (new_region USER_ARG_OFFSET arg_size (NO_EXECUTE OR WRITABLE) (fst p, M)) (\<lambda>(m, p).
           then_do (remap_region (NO_EXECUTE OR USER_ACCESSIBLE) m (fst p, copy_args (rev args) 0 (snd p))) (\<lambda>(m, p).
           Some (Return (sp, push_image pid m p))))
         else Some (Return (sp, (fst p, M))))"

section \<open>exec\<close>

text \<open>The arguments are copied into the kernel before the address space goes away.\<close>

fun validate_args :: "validator \<Rightarrow> address_space \<Rightarrow> (usize \<times> usize) list \<Rightarrow> bytes list result" where
  "validate_args v M [] = Ok []"
| "validate_args v M ((a, n) # ps) =
     bind_result (validate_slice v 1 a n) (\<lambda>(a, n). bind_result (validate_args v M ps) (\<lambda>args. Ok (slice_at M a (unat n) # args)))"

definition exec_perm :: "stat \<Rightarrow> u32 \<Rightarrow> u32 \<Rightarrow> u16" where
  "exec_perm st uid gid =
     (let perm = st_mode st AND 7;
          perm = (if st_uid st = uid then perm OR (drop_bit 6 (st_mode st) AND 7) else perm);
          perm = (if st_gid st = gid then perm OR (drop_bit 3 (st_mode st) AND 7) else perm)
      in if uid = 0 then perm OR 7 else perm)"

definition then_ok :: "'a result attempt \<times> 'p \<Rightarrow> ('a \<Rightarrow> 'p \<Rightarrow> 'b result attempt \<times> 'p) \<Rightarrow> 'b result attempt \<times> 'p" where
  "then_ok x k = then_attempt x (\<lambda>r p. case r of Err e \<Rightarrow> (Returned (Err e), p) | Ok a \<Rightarrow> k a p)"

text \<open>
  Opening and reading the file: the \<open>stat\<close> structure is at \<open>stat_ptr\<close> and the contents at \<open>data_ptr\<close>. The result is
  the canonical path, what \<open>fstat\<close> said, and the arguments.
\<close>

definition exec_read ::
    "'t proc_state impl \<Rightarrow> validator \<Rightarrow> usize \<Rightarrow> usize \<Rightarrow> bytes \<Rightarrow> (usize \<times> usize) list \<Rightarrow> 't process \<Rightarrow>
     (bytes \<times> stat \<times> bytes list) result attempt \<times> 't process" where
  "exec_read impl v stat_ptr data_ptr path arg_ptrs p =
     (case validate_args v (snd p) arg_ptrs of
        Err e \<Rightarrow> (Returned (Err e), p)
      | Ok args \<Rightarrow>
     (case current_context (fst p) of
        None \<Rightarrow> (Returned (Err (Error ESRCH)), p)
      | Some c \<Rightarrow>
     (case canonicalize (fw_cwds (fst p) (cwd_ref c)) path of
        Panic \<Rightarrow> (Crashes, p)
      | Return canonical \<Rightarrow>
          then_ok (plain (open_call impl canonical O_RDONLY) p) (\<lambda>fd p.
          then_ok (file_op_mut_slice impl SYS_FSTAT fd (stat_ptr, of_nat size_of_stat)
              (fst p, store_at (snd p) stat_ptr (replicate size_of_stat 0))) (\<lambda>_ p.
            let st = decode_stat (slice_at (snd p) stat_ptr size_of_stat)
            in if exec_perm st (euid c) (egid c) AND 1 \<noteq> 1 then
                 then_attempt (plain (close impl fd) p) (\<lambda>_ p. (Returned (Err (Error EACCES)), p))
               else
                 then_ok (file_op_mut_slice impl SYS_READ fd (data_ptr, st_size st)
                     (fst p, store_at (snd p) data_ptr (replicate (unat (st_size st)) 0))) (\<lambda>_ p.
                 then_attempt (plain (close impl fd) p) (\<lambda>_ p. (Returned (Ok (canonical, st, args)), p))))))))"

definition set_name :: "usize \<Rightarrow> bytes \<Rightarrow> 't kernel \<Rightarrow> 't kernel" where
  "set_name pid name w =
     (let (r, w) = fresh_ref w
      in modify_context pid (\<lambda>c. c\<lparr>name_ref := r\<rparr>) (w\<lparr>fw_state := (fw_state w)\<lparr>ps_names := (ps_names (fw_state w))(r := name)\<rparr>\<rparr>))"

definition set_ids :: "usize \<Rightarrow> stat \<Rightarrow> 't kernel \<Rightarrow> 't kernel" where
  "set_ids pid st w =
     (let w = (if has_flag (st_mode st) MODE_SETUID then modify_context pid (\<lambda>c. c\<lparr>euid := st_uid st\<rparr>) w else w)
      in if has_flag (st_mode st) MODE_SETGID then modify_context pid (\<lambda>c. c\<lparr>egid := st_gid st\<rparr>) w else w)"

definition private_files :: "usize \<Rightarrow> ref \<Rightarrow> 't kernel \<Rightarrow> ref \<times> 't kernel" where
  "private_files pid old w =
     (let (r, w) = fresh_ref w
      in (r, modify_context pid (\<lambda>c. c\<lparr>files_ref := r\<rparr>) (set_files r (fw_files w old) w)))"

text \<open>
  The new image of the context \<open>c\<close>: the stack pointer, the new descriptor table and whether a parent waits
  in \<open>vfork\<close>.
\<close>

definition exec_image ::
    "ctx \<Rightarrow> usize \<Rightarrow> bytes \<Rightarrow> stat \<Rightarrow> bytes list \<Rightarrow> 't process \<Rightarrow> ((usize \<times> ref \<times> bool) \<times> 't process) outcome option" where
  "exec_image c data_ptr canonical st args p =
     (let pid = ctx_id c
      in then_do (release_memory c (set_name pid canonical (fst p))) (\<lambda>w.
         then_do (load_segments pid data_ptr 0 None (set_ids pid st w, snd p)) (\<lambda>(tls, p).
         then_do (map_heap pid p) (\<lambda>p.
         then_do (map_stack pid p) (\<lambda>p.
         then_do (map_tls pid tls p) (\<lambda>p.
         then_do (map_args pid args (USER_STACK_OFFSET + USER_STACK_SIZE - 256) p) (\<lambda>(sp, p).
           let (r, w) = private_files pid (files_ref c) (fst p)
           in Some (Return ((sp, r, vfork c), (modify_context pid (\<lambda>c. c\<lparr>vfork := False\<rparr>) w, snd p))))))))))"

text \<open>Duplicate current files using \<open>b"exec"\<close>, close previous.\<close>

definition reopen_file :: "'s impl \<Rightarrow> usize \<Rightarrow> kfile option \<Rightarrow> (kfile option, 's fs_world) op" where
  "reopen_file impl fd file_option w =
     (case file_option of
        None \<Rightarrow> (Returned None, w)
      | Some f \<Rightarrow>
          then_attempt
            (case get_scheme (fw_schemes w) (f_scheme f) of
               None \<Rightarrow> (Returned (Err (Error EBADF)), w)
             | Some s \<Rightarrow> op_dup (impl s) (f_number f) (bytes_of ''exec'') w)
            (\<lambda>res w. then_attempt (close_file impl fd (Some f) w)
              (\<lambda>_ w. (Returned (case res of
                 Ok new_number \<Rightarrow> Some \<lparr>f_scheme = f_scheme f, f_number = new_number, f_event = None\<rparr>
               | Err _ \<Rightarrow> None), w))))"

fun reopen_files :: "'s impl \<Rightarrow> ref \<Rightarrow> nat \<Rightarrow> file_table \<Rightarrow> (unit, 's fs_world) op" where
  "reopen_files impl r fd [] w = (Returned (), w)"
| "reopen_files impl r fd (f # fs) w =
     then_attempt (reopen_file impl (of_nat fd) f w)
       (\<lambda>f' w. reopen_files impl r (Suc fd) fs (set_files r ((fw_files w r)[fd := f']) w))"

definition wake_parent :: "usize \<Rightarrow> 't kernel \<Rightarrow> 't kernel" where
  "wake_parent parent w =
     (case get_context (ew_contexts w) parent of None \<Rightarrow> w | Some _ \<Rightarrow> modify_context parent (\<lambda>c. fst (unblock c)) w)"

text \<open>
  \<open>exec\<close> does not return when it succeeds: the result \<open>Ok (entry, sp)\<close> stands for \<open>usermode(entry, sp)\<close>.
\<close>

definition exec_call ::
    "'t proc_state impl \<Rightarrow> validator \<Rightarrow> usize \<Rightarrow> usize \<Rightarrow> bytes \<Rightarrow> (usize \<times> usize) list \<Rightarrow> 't process \<Rightarrow>
     ((usize \<times> usize) result attempt \<times> 't process) option" where
  "exec_call impl v stat_ptr data_ptr path arg_ptrs p =
     (case exec_read impl v stat_ptr data_ptr path arg_ptrs p of
        (Waits, p) \<Rightarrow> Some (Waits, p)
      | (Crashes, p) \<Rightarrow> Some (Crashes, p)
      | (Returned (Err e), p) \<Rightarrow> Some (Returned (Err e), p)
      | (Returned (Ok (canonical, st, args)), p) \<Rightarrow>
          if elf_from (slice_at (snd p) data_ptr (unat (st_size st))) \<noteq> None then Some (Returned (Err (Error ENOEXEC)), p)
          else
            let entry = e_entry (snd p) data_ptr
            in case current_context (fst p) of
                 None \<Rightarrow> Some (Returned (Err (Error ESRCH)), p)
               | Some c \<Rightarrow>
                   map_option (\<lambda>r. case r of
                       Panic \<Rightarrow> (Crashes, p)
                     | Return ((sp, r, was_vfork), p) \<Rightarrow>
                         then_attempt (plain (reopen_files impl r 0 (fw_files (fst p) r)) p) (\<lambda>_ p.
                           (Returned (Ok (entry, sp)), (if was_vfork then wake_parent (ppid c) (fst p) else fst p, snd p))))
                     (exec_image c data_ptr canonical st args p))"

section \<open>Segments without memory\<close>

text \<open>A region of size 0 on a page boundary other than address 0 has no pages.\<close>

lemma empty_region:
  assumes "start \<noteq> 0" "start mod 4096 = 0"
  shows "for_pages body (region start 0) st = Some (Return st)"
proof -
  have "unat start mod 4096 = 0" "unat start \<noteq> 0"
    using assms by (simp_all add: unat_mod flip: unat_eq_unat_iff)
  moreover have "unat (start - 1) = unat start - 1"
    using assms(1) by (intro unat_minus_one) simp
  moreover have "(k - 1) div 4096 < k div 4096" if "k mod 4096 = 0" "k \<noteq> 0" for k :: nat
    using that by (cases k) (auto simp: div_Suc)
  ultimately have "\<not> page_containing start \<le> page_containing (start + 0 - 1)"
    by (auto simp: page_order page_number_containing not_le)
  then show ?thesis
    unfolding region_def by (subst for_pages_step) simp
qed

lemma map_empty:
  assumes "start \<noteq> 0" "start mod 4096 = 0"
  shows "new_region start 0 (fl OR WRITABLE) p = Some (Return (\<lparr>mem_start = start, mem_size = 0, mem_flags = fl OR WRITABLE\<rparr>, p))"
    "remap_region fl' \<lparr>mem_start = start, mem_size = 0, mem_flags = f\<rparr> p = Some (Return (\<lparr>mem_start = start, mem_size = 0, mem_flags = fl'\<rparr>, p))"
  using assms by (simp_all add: new_region_def memory_new_def memory_map_pages_def memory_pages_def remap_region_def memory_remap_def
      empty_region then_do_def)

section \<open>What the steps of exec do to the context\<close>

text \<open>Releasing memory, if it returns, has changed the page tables and cleared the regions of the context.\<close>

lemma drop_memory_pages: "drop_memory m w = Some (Return w') \<Longrightarrow> \<exists>pm. w' = set_pages pm w"
  by (auto simp: drop_memory_def then_do_Return)

lemma drop_own_pages: "drop_own m w = Some (Return w') \<Longrightarrow> \<exists>pm. w' = set_pages pm w"
  by (cases m) (auto simp: drop_own_def dest: drop_memory_pages intro: exI[of _ "ps_pages (fw_state w)"])

lemma drop_shared_pages: "drop_shared rs w = Some (Return w') \<Longrightarrow> \<exists>pm. w' = set_pages pm w"
proof (induction rs arbitrary: w)
  case Nil
  then show ?case
    by (auto intro: exI[of _ "ps_pages (fw_state w)"])
next
  case (Cons r rs)
  show ?case
  proof (cases "r \<in> set rs \<or> r \<in> memory_users w")
    case False
    then obtain w1 where "drop_memory (ps_memory (fw_state w) r) w = Some (Return w1)" "drop_shared rs w1 = Some (Return w')"
      using Cons.prems by (auto simp: then_do_Return)
    then show ?thesis
      using drop_memory_pages Cons.IH by fastforce
  qed (use Cons in auto)
qed

lemma unmap_grants_pages: "unmap_grants gs w = Some (Return w') \<Longrightarrow> \<exists>pm. w' = set_pages pm w"
proof (induction gs arbitrary: w)
  case Nil
  then show ?case
    by (auto intro: exI[of _ "ps_pages (fw_state w)"])
next
  case (Cons g gs)
  then obtain pm where "unmap_grants gs (set_pages pm w) = Some (Return w')"
    by (auto simp: then_do_Return)
  then show ?case
    using Cons.IH by fastforce
qed

text \<open>What matters for protection: who the context is, and the flags of its regions.\<close>

definition wx_ok :: "u64 \<Rightarrow> bool" where
  "wx_ok flags \<longleftrightarrow> has_flag flags NO_EXECUTE \<or> \<not> has_flag flags WRITABLE"

definition regions_wx :: "ctx \<Rightarrow> (ref \<Rightarrow> memory) \<Rightarrow> bool" where
  "regions_wx c mem \<longleftrightarrow> (\<forall>r \<in> set (memory_refs c). wx_ok (mem_flags (mem r))) \<and>
     (\<forall>m. stack c = Some m \<longrightarrow> wx_ok (mem_flags m)) \<and> (\<forall>t. tls_of c = Some t \<longrightarrow> wx_ok (mem_flags (tls_mem t)))"

definition credentials :: "ctx \<Rightarrow> usize \<times> usize \<times> u32 \<times> u32 \<times> usize \<times> usize \<times> u32 \<times> u32" where
  "credentials c = (ctx_id c, ppid c, ruid c, rgid c, rns c, ens c, euid c, egid c)"

definition protected :: "usize \<Rightarrow> ctx \<Rightarrow> 't kernel \<Rightarrow> bool" where
  "protected pid c w \<longleftrightarrow> (\<exists>d. get_context (ew_contexts w) pid = Some d \<and> credentials d = credentials c \<and> regions_wx d (ps_memory (fw_state w)))"

lemma protected_modify:
  assumes "protected pid c w" "\<And>d. credentials (f d) = credentials d"
    and "\<And>d. regions_wx d (ps_memory (fw_state w)) \<Longrightarrow> regions_wx (f d) (ps_memory (fw_state w))"
  shows "protected pid c (modify_context pid f w)"
  using assms by (auto simp: protected_def)

lemma protected_set_pages [simp]: "protected pid c (set_pages pm w) = protected pid c w"
  by (simp add: protected_def)

lemma regions_wx_upd: "regions_wx d mem \<Longrightarrow> wx_ok (mem_flags m) \<Longrightarrow> regions_wx d (mem(r := m))"
  by (auto simp: regions_wx_def)

lemma protected_set_memory: "protected pid c w \<Longrightarrow> wx_ok (mem_flags m) \<Longrightarrow> protected pid c (set_memory r m (snd (fresh_ref w)))"
  by (auto simp: protected_def set_memory_def fresh_ref_def intro: regions_wx_upd)

lemma new_region_Return:
  assumes "new_region start sz flags p = Some (Return (m, p'))"
  obtains pm where "fst p' = set_pages pm (fst p)" "mem_flags m = flags" "mem_start m = start"
  using assms by (auto simp: new_region_def memory_new_def Let_def then_do_Return)

lemma remap_region_Return:
  assumes "remap_region flags m p = Some (Return (m', p'))"
  obtains pm where "fst p' = set_pages pm (fst p)" "mem_flags m' = flags" "snd p' = snd p"
  using assms by (auto simp: remap_region_def memory_remap_def then_do_Return)

lemma push_image_protected:
  assumes "protected pid c (fst p)" "wx_ok (mem_flags m)"
  shows "protected pid c (fst (push_image pid m p))"
proof -
  let ?r = "fst (fresh_ref (fst p))" and ?w = "set_memory (fst (fresh_ref (fst p))) m (snd (fresh_ref (fst p)))"
  have "regions_wx (d\<lparr>image := image d @ [?r]\<rparr>) (ps_memory (fw_state ?w))" if "regions_wx d (ps_memory (fw_state ?w))" for d
    using that assms(2) by (auto simp: regions_wx_def memory_refs_def heap_ref_def set_memory_def)
  then have "protected pid c (modify_context pid (\<lambda>c. c\<lparr>image := image c @ [?r]\<rparr>) ?w)"
    using protected_set_memory[OF assms] by (intro protected_modify) (auto simp: credentials_def)
  then show ?thesis
    by (simp add: push_image_def split_beta Let_def)
qed

lemma segment_flags_wx: "wx_ok (segment_flags fl)"
proof -
  have "has_flag (a OR b) m" if "has_flag a m" for a b m :: u64
    using that by (auto simp: has_flag_def bit_eq_iff bit_simps)
  then show ?thesis
    by (auto simp: segment_flags_def wx_ok_def Let_def has_flag_def NO_EXECUTE_def USER_ACCESSIBLE_def PRESENT_def WRITABLE_def)
qed

lemma data_flags_wx: "wx_ok (NO_EXECUTE OR WRITABLE)" "wx_ok (NO_EXECUTE OR WRITABLE OR USER_ACCESSIBLE)" "wx_ok (NO_EXECUTE OR USER_ACCESSIBLE)"
  by (auto simp: wx_ok_def has_flag_def NO_EXECUTE_def USER_ACCESSIBLE_def WRITABLE_def)

lemma load_segment_protected:
  assumes "load_segment pid data seg tls p = Some (Return (tls', p'))" "protected pid c (fst p)"
  shows "protected pid c (fst p')"
proof -
  consider "p_type seg = PT_LOAD" | "p_type seg \<noteq> PT_LOAD" "p_type seg = PT_TLS" | "p_type seg \<noteq> PT_LOAD" "p_type seg \<noteq> PT_TLS"
    by blast
  then show ?thesis
  proof cases
    case 1
    then obtain m p1 m2 p2 where s: "new_region (p_vaddr seg) (p_memsz seg) (NO_EXECUTE OR WRITABLE) p = Some (Return (m, p1))"
      "remap_region (segment_flags (p_flags seg)) m (copy_bytes (data + p_offset seg) (p_vaddr seg) (p_filesz seg) p1) = Some (Return (m2, p2))"
      "p' = push_image pid m2 p2"
      using assms(1) by (auto simp: load_segment_def then_do_Return)
    obtain pm1 where 1: "fst p1 = set_pages pm1 (fst p)"
      by (rule new_region_Return[OF s(1)])
    obtain pm2 where 2: "fst p2 = set_pages pm2 (fst p1)" "mem_flags m2 = segment_flags (p_flags seg)"
      using remap_region_Return[OF s(2)] by (metis copy_bytes_def fst_conv)
    show ?thesis
      unfolding s(3) using assms(2) by (intro push_image_protected) (simp_all add: 1 2 segment_flags_wx)
  next
    case 2
    then obtain m p1 where s: "new_region USER_TCB_OFFSET 4096 (NO_EXECUTE OR WRITABLE OR USER_ACCESSIBLE) p = Some (Return (m, p1))"
      "p' = push_image pid m (store_word USER_TCB_OFFSET (USER_TLS_OFFSET + p_memsz seg) p1)"
      using assms(1) by (auto simp: load_segment_def then_do_Return)
    obtain pm1 where 1: "fst p1 = set_pages pm1 (fst p)" "mem_flags m = NO_EXECUTE OR WRITABLE OR USER_ACCESSIBLE"
      by (rule new_region_Return[OF s(1)])
    show ?thesis
      unfolding s(2) using assms(2) by (intro push_image_protected) (simp_all add: 1 store_word_def data_flags_wx)
  next
    case 3
    then show ?thesis
      using assms by (simp add: load_segment_def)
  qed
qed

lemma load_segments_step:
  assumes IH: "\<And>pid data i tls p r. f pid data i tls p = Some r \<Longrightarrow> r = Return (tls', p') \<longrightarrow> protected pid c (fst p) \<longrightarrow> protected pid c (fst p')"
    and eq: "(case segment_next (snd p) data i of
        None \<Rightarrow> Some (Return (tls, p))
      | Some seg \<Rightarrow>
          Option.bind (load_segment pid data seg tls p)
            (\<lambda>r. case r of Panic \<Rightarrow> Some Panic | Return (tls, p) \<Rightarrow> f pid data (i + 1) tls p)) = Some r"
  shows "r = Return (tls', p') \<longrightarrow> protected pid c (fst p) \<longrightarrow> protected pid c (fst p')"
proof (cases "segment_next (snd p) data i")
  case None
  then show ?thesis
    using eq by auto
next
  case (Some seg)
  then obtain x where x: "load_segment pid data seg tls p = Some x"
    "(case x of Panic \<Rightarrow> Some Panic | Return (tls, p) \<Rightarrow> f pid data (i + 1) tls p) = Some r"
    using eq by (auto simp: bind_eq_Some_conv)
  show ?thesis
  proof (cases x)
    case (Return y)
    then show ?thesis
      using IH[of pid data "i + 1" "fst y" "snd y" r] x load_segment_protected[of pid data seg tls p "fst y" "snd y"] by (auto simp: split_beta)
  qed (use x in auto)
qed

lemma load_segments_protected:
  assumes "load_segments pid data i tls p = Some (Return (tls', p'))" "protected pid c (fst p)"
  shows "protected pid c (fst p')"
proof -
  have "Return (tls', p') = Return (tls', p') \<longrightarrow> protected pid c (fst p) \<longrightarrow> protected pid c (fst p')"
    by (rule load_segments.raw_induct[where P = "\<lambda>pid data i tls p r. r = Return (tls', p') \<longrightarrow> protected pid c (fst p) \<longrightarrow> protected pid c (fst p')",
        OF _ assms(1)]) (erule load_segments_step[rotated], blast)
  then show ?thesis
    using assms(2) by blast
qed

lemma map_heap_protected:
  assumes "map_heap pid p = Some (Return p')" "protected pid c (fst p)"
  shows "protected pid c (fst p')"
proof -
  obtain m p1 where s: "new_region USER_HEAP_OFFSET 0 (NO_EXECUTE OR WRITABLE OR USER_ACCESSIBLE) p = Some (Return (m, p1))"
    and p': "fst p' = modify_context pid (\<lambda>c. c\<lparr>heap := Some (fst (fresh_ref (fst p1)))\<rparr>) (set_memory (fst (fresh_ref (fst p1))) m (snd (fresh_ref (fst p1))))"
    using assms(1) by (auto simp: map_heap_def then_do_Return split_beta Let_def)
  obtain pm1 where 1: "fst p1 = set_pages pm1 (fst p)" "mem_flags m = NO_EXECUTE OR WRITABLE OR USER_ACCESSIBLE"
    by (rule new_region_Return[OF s])
  let ?r = "fst (fresh_ref (fst p1))" and ?w = "set_memory (fst (fresh_ref (fst p1))) m (snd (fresh_ref (fst p1)))"
  have "protected pid c ?w"
    using assms(2) by (intro protected_set_memory) (simp_all add: 1 data_flags_wx)
  moreover have "regions_wx (d\<lparr>heap := Some ?r\<rparr>) (ps_memory (fw_state ?w))" if "regions_wx d (ps_memory (fw_state ?w))" for d
    using that by (auto simp: regions_wx_def memory_refs_def heap_ref_def set_memory_def 1(2) data_flags_wx)
  ultimately show ?thesis
    unfolding p' by (intro protected_modify) (auto simp: credentials_def)
qed

lemma map_stack_protected:
  assumes "map_stack pid p = Some (Return p')" "protected pid c (fst p)"
  shows "protected pid c (fst p')"
proof -
  obtain m p1 where s: "new_region USER_STACK_OFFSET USER_STACK_SIZE (NO_EXECUTE OR WRITABLE OR USER_ACCESSIBLE) p = Some (Return (m, p1))"
    and p': "fst p' = modify_context pid (\<lambda>c. c\<lparr>stack := Some m\<rparr>) (fst p1)"
    using assms(1) by (auto simp: map_stack_def then_do_Return)
  obtain pm1 where 1: "fst p1 = set_pages pm1 (fst p)" "mem_flags m = NO_EXECUTE OR WRITABLE OR USER_ACCESSIBLE"
    by (rule new_region_Return[OF s])
  have "protected pid c (fst p1)"
    using assms(2) by (simp add: 1)
  then show ?thesis
    unfolding p' by (rule protected_modify) (auto simp: credentials_def regions_wx_def memory_refs_def heap_ref_def 1(2) data_flags_wx)
qed

lemma map_tls_protected:
  assumes "map_tls pid tls p = Some (Return p')" "protected pid c (fst p)"
  shows "protected pid c (fst p')"
proof (cases tls)
  case (Some t)
  obtain master file_size sz where t: "t = (master, file_size, sz)"
    by (cases t)
  obtain m p1 where s: "new_region USER_TLS_OFFSET sz (NO_EXECUTE OR WRITABLE OR USER_ACCESSIBLE) p = Some (Return (m, p1))"
    and p': "fst p' = modify_context pid (\<lambda>c. c\<lparr>tls_of := Some \<lparr>tls_master = master, tls_file_size = file_size, tls_mem = m\<rparr>\<rparr>) (fst p1)"
    using assms(1) Some by (auto simp: map_tls_def then_do_Return t copy_bytes_def Let_def)
  obtain pm1 where 1: "fst p1 = set_pages pm1 (fst p)" "mem_flags m = NO_EXECUTE OR WRITABLE OR USER_ACCESSIBLE"
    by (rule new_region_Return[OF s])
  have "protected pid c (fst p1)"
    using assms(2) by (simp add: 1)
  then show ?thesis
    unfolding p' by (rule protected_modify) (auto simp: credentials_def regions_wx_def memory_refs_def heap_ref_def 1(2) data_flags_wx)
qed (use assms in \<open>simp add: map_tls_def\<close>)

lemma map_args_protected:
  assumes "map_args pid args sp p = Some (Return (sp', p'))" "protected pid c (fst p)"
  shows "protected pid c (fst p')"
proof -
  obtain sp1 sz M where a: "push_args (rev args) sp 0 (snd p) = (sp1, sz, M)"
    by (cases "push_args (rev args) sp 0 (snd p)") auto
  show ?thesis
  proof (cases "sz > 0")
    case True
    then obtain m p1 m2 p2 q q' where s: "new_region USER_ARG_OFFSET sz (NO_EXECUTE OR WRITABLE) q = Some (Return (m, p1))" "fst q = fst p"
      "remap_region (NO_EXECUTE OR USER_ACCESSIBLE) m q' = Some (Return (m2, p2))" "fst q' = fst p1" "p' = push_image pid m2 p2"
      using assms(1) a by (auto simp: map_args_def then_do_Return Let_def)
    obtain pm1 where 1: "fst p1 = set_pages pm1 (fst q)"
      by (rule new_region_Return[OF s(1)])
    obtain pm2 where 2: "fst p2 = set_pages pm2 (fst q')" "mem_flags m2 = NO_EXECUTE OR USER_ACCESSIBLE"
      by (rule remap_region_Return[OF s(3)])
    show ?thesis
      unfolding s(5) using assms(2) by (intro push_image_protected) (simp_all add: 1 2 s data_flags_wx)
  next
    case False
    then show ?thesis
      using assms a by (auto simp: map_args_def Let_def)
  qed
qed

text \<open>The identity of the program after \<open>exec\<close>.\<close>

definition exec_ids :: "stat \<Rightarrow> ctx \<Rightarrow> ctx" where
  "exec_ids st c =
     c\<lparr>euid := if has_flag (st_mode st) MODE_SETUID then st_uid st else euid c,
       egid := if has_flag (st_mode st) MODE_SETGID then st_gid st else egid c\<rparr>"

lemma release_memory_pages:
  assumes "release_memory c w = Some (Return w')"
  shows "ps_memory (fw_state w') = ps_memory (fw_state w)"
    "get_context (ew_contexts w') i = (if i = ctx_id c then map_option (\<lambda>d. d\<lparr>image := [], heap := None, stack := None, tls_of := None,
       grants_ref := ps_next_ref (fw_state w)\<rparr>) (get_context (ew_contexts w) i) else get_context (ew_contexts w) i)"
proof -
  let ?m = "modify_context (ctx_id c)"
  obtain w1 w2 w3 w4 where s: "drop_shared (image c) (?m (\<lambda>c. c\<lparr>image := []\<rparr>) w) = Some (Return w1)"
    "drop_shared (heap_ref c) (?m (\<lambda>c. c\<lparr>heap := None\<rparr>) w1) = Some (Return w2)"
    "drop_own (stack c) (?m (\<lambda>c. c\<lparr>stack := None\<rparr>) w2) = Some (Return w3)"
    "drop_own (map_option tls_mem (tls_of c)) (?m (\<lambda>c. c\<lparr>tls_of := None\<rparr>) w3) = Some (Return w4)" "release_grants c w4 = Some (Return w')"
    using assms unfolding release_memory_def then_do_Return by metis
  obtain p1 p2 p3 p4 where p: "w1 = set_pages p1 (?m (\<lambda>c. c\<lparr>image := []\<rparr>) w)" "w2 = set_pages p2 (?m (\<lambda>c. c\<lparr>heap := None\<rparr>) w1)"
    "w3 = set_pages p3 (?m (\<lambda>c. c\<lparr>stack := None\<rparr>) w2)" "w4 = set_pages p4 (?m (\<lambda>c. c\<lparr>tls_of := None\<rparr>) w3)"
    using drop_shared_pages[OF s(1)] drop_shared_pages[OF s(2)] drop_own_pages[OF s(3)] drop_own_pages[OF s(4)] by blast
  define y where "y = (if users grants_ref (grants_ref c) w4 = 1 then set_grants (grants_ref c) [] w4 else w4)"
  define w5 where "w5 = set_grants (ps_next_ref (fw_state w4)) [] (snd (fresh_ref y))"
  have y: "ps_next_ref (fw_state y) = ps_next_ref (fw_state w4)" "ew_contexts w5 = ew_contexts w4" "ps_memory (fw_state w5) = ps_memory (fw_state w4)"
    by (simp_all add: y_def w5_def set_grants_def fresh_ref_def)
  have "\<exists>gs. release_grants c w4 = unmap_grants gs (?m (\<lambda>c. c\<lparr>grants_ref := ps_next_ref (fw_state w4)\<rparr>) w5)"
    unfolding release_grants_def Let_def y_def[symmetric] w5_def fresh_ref_def y(1) by (auto simp del: unmap_grants.simps)
  then obtain p5 where w': "w' = set_pages p5 (?m (\<lambda>c. c\<lparr>grants_ref := ps_next_ref (fw_state w4)\<rparr>) w5)"
    using s(5) unmap_grants_pages by fastforce
  have n: "ps_next_ref (fw_state w4) = ps_next_ref (fw_state w)"
    by (simp add: p set_pages_def)
  show "ps_memory (fw_state w') = ps_memory (fw_state w)"
    by (simp add: w' y p)
  show "get_context (ew_contexts w') i = (if i = ctx_id c then map_option (\<lambda>d. d\<lparr>image := [], heap := None, stack := None, tls_of := None,
       grants_ref := ps_next_ref (fw_state w)\<rparr>) (get_context (ew_contexts w) i) else get_context (ew_contexts w) i)"
    by (simp add: w'[unfolded n] y(2) p option.map_comp comp_def)
qed

lemma exec_image_protected:
  assumes "exec_image c data canonical st args p = Some (Return ((sp, r, v), p'))" "get_context (ew_contexts (fst p)) (ctx_id c) = Some c"
  shows "protected (ctx_id c) (exec_ids st c) (fst p')"
proof -
  let ?pid = "ctx_id c" and ?w0 = "set_name (ctx_id c) canonical (fst p)"
  obtain w1 tls p2 p3 p4 p5 p6 where s: "release_memory c ?w0 = Some (Return w1)"
    "load_segments ?pid data 0 None (set_ids ?pid st w1, snd p) = Some (Return (tls, p2))" "map_heap ?pid p2 = Some (Return p3)"
    "map_stack ?pid p3 = Some (Return p4)" "map_tls ?pid tls p4 = Some (Return p5)"
    "map_args ?pid args (USER_STACK_OFFSET + USER_STACK_SIZE - 256) p5 = Some (Return (sp, p6))"
    "fst p' = modify_context ?pid (\<lambda>c. c\<lparr>vfork := False\<rparr>) (snd (private_files ?pid (files_ref c) (fst p6)))"
    using assms(1) by (auto simp: exec_image_def Let_def then_do_Return split_beta)
  have "get_context (ew_contexts w1) ?pid = Some (c\<lparr>name_ref := ps_next_ref (fw_state (fst p)), image := [], heap := None, stack := None, tls_of := None,
      grants_ref := ps_next_ref (fw_state ?w0)\<rparr>)"
    using release_memory_pages(2)[OF s(1), of ?pid] assms(2) by (simp add: set_name_def fresh_ref_def)
  then have "protected ?pid (exec_ids st c) (set_ids ?pid st w1)"
    by (auto simp: protected_def set_ids_def Let_def exec_ids_def credentials_def regions_wx_def memory_refs_def heap_ref_def)
  then have "protected ?pid (exec_ids st c) (fst p6)"
    using load_segments_protected[OF s(2)] map_heap_protected[OF s(3)] map_stack_protected[OF s(4)] map_tls_protected[OF s(5)]
      map_args_protected[OF s(6)] by simp
  then have "protected ?pid (exec_ids st c) (snd (private_files ?pid (files_ref c) (fst p6)))"
    by (auto simp: protected_def private_files_def fresh_ref_def set_files_def credentials_def regions_wx_def memory_refs_def heap_ref_def)
  then show "protected ?pid (exec_ids st c) (fst p')"
    unfolding s(7) by (rule protected_modify) (auto simp: credentials_def regions_wx_def memory_refs_def heap_ref_def)
qed

text \<open>Reading the file and taking the files again change no context but for its status.\<close>

definition same_people :: "'t kernel \<Rightarrow> 't kernel \<Rightarrow> bool" where
  "same_people w w' \<longleftrightarrow> same_contexts (ew_contexts w) (ew_contexts w') \<and> ew_current w' = ew_current w \<and>
     ps_memory (fw_state w') = ps_memory (fw_state w)"

lemma same_people_trans: "same_people w w1 \<Longrightarrow> same_people w1 w2 \<Longrightarrow> same_people w w2"
  by (auto simp: same_people_def same_contexts_def)

lemma same_people_quiet: "quiet w w' \<Longrightarrow> same_people w w'"
  by (auto simp: quiet_def same_people_def)

lemma same_people_files [simp]: "same_people w (set_files r fs w)"
  by (simp add: same_people_def set_files_def)

lemma identity_credentials: "identity d = identity c \<Longrightarrow> credentials d = credentials c"
proof -
  assume "identity d = identity c"
  moreover have "credentials x = credentials (identity x)" for x
    by (simp add: identity_def credentials_def)
  ultimately show ?thesis
    by metis
qed

lemma same_people_context:
  assumes "same_people w w'" "get_context (ew_contexts w) i = Some c"
  obtains c' where "get_context (ew_contexts w') i = Some c'" "credentials c' = credentials c" "memory_view c' = memory_view c"
proof -
  have "map_option identity (get_context (ew_contexts w') i) = Some (identity c)"
    using same_contexts_get[of "ew_contexts w" "ew_contexts w'" i] assms by (simp add: same_people_def)
  then obtain c' where "get_context (ew_contexts w') i = Some c'" "identity c' = identity c"
    by auto
  then show thesis
    using that identity_credentials identity_view by blast
qed

lemma protected_same_people: "protected pid c w \<Longrightarrow> same_people w w' \<Longrightarrow> protected pid c w'"
proof -
  assume p: "protected pid c w" and s: "same_people w w'"
  obtain d where d: "get_context (ew_contexts w) pid = Some d" "credentials d = credentials c" "regions_wx d (ps_memory (fw_state w))"
    using p by (auto simp: protected_def)
  obtain d' where d': "get_context (ew_contexts w') pid = Some d'" "credentials d' = credentials d" "memory_view d' = memory_view d"
    by (rule same_people_context[OF s d(1)])
  have "regions_wx d' (ps_memory (fw_state w'))"
    using d(3) memory_view_fields[OF d'(3)] s by (simp add: regions_wx_def same_people_def)
  then show ?thesis
    using d d' by (auto simp: protected_def)
qed

lemma then_attempt_Returned:
  "then_attempt x k = (Returned b, w') \<longleftrightarrow> (\<exists>a w. x = (Returned a, w) \<and> k a w = (Returned b, w'))"
  by (auto simp: then_attempt_def split: prod.splits attempt.splits)

context process_schemes
begin

lemma reopen_file_quiet: "\<exists>f' w'. reopen_file impl fd f w = (Returned f', w') \<and> quiet w w'"
proof (cases f)
  case (Some k)
  obtain r w1 where 1: "(case get_scheme (fw_schemes w) (f_scheme k) of
      None \<Rightarrow> (Returned (Err (Error EBADF)), w) | Some s \<Rightarrow> op_dup (impl s) (f_number k) (bytes_of ''exec'') w) = (Returned r, w1)" "quiet w w1"
    using dup_quiet by (cases "get_scheme (fw_schemes w) (f_scheme k)") force+
  obtain w2 where "close_file impl fd (Some k) w1 = (Returned (), w2)" "quiet w1 w2"
    using close_file_quiet by blast
  then show ?thesis
    using Some 1 quiet_trans[OF 1(2)] by (auto simp: reopen_file_def then_attempt_def)
qed (simp add: reopen_file_def)

lemma reopen_files_people: "\<exists>w'. reopen_files impl r n fs w = (Returned (), w') \<and> same_people w w'"
proof (induction fs arbitrary: n w)
  case Nil
  then show ?case
    by (simp add: same_people_def)
next
  case (Cons f fs)
  obtain f' w1 where 1: "reopen_file impl (of_nat n) f w = (Returned f', w1)" "quiet w w1"
    using reopen_file_quiet by blast
  let ?w = "set_files r ((fw_files w1 r)[n := f']) w1"
  obtain w2 where 2: "reopen_files impl r (Suc n) fs ?w = (Returned (), w2)" "same_people ?w w2"
    using Cons.IH by blast
  have "same_people w ?w"
    using same_people_trans[OF same_people_quiet[OF 1(2)]] by simp
  then show ?case
    using 1 2 same_people_trans by (auto simp: then_attempt_def)
qed

lemma give_file_people: "give_file f w = (r, w') \<Longrightarrow> same_people w w'"
  by (auto simp: give_file_def same_people_def set_files_def Let_def split: option.splits prod.splits)

lemma open_call_people:
  assumes "open_call impl path fl w = (Returned r, w')"
  shows "same_people w w'"
proof (cases "resolve path w")
  case (Return x)
  show ?thesis
  proof (cases x)
    case (Ok t)
    obtain sid s reference u g where t: "t = (sid, s, reference, u, g)"
      by (cases t)
    obtain a w1 where o: "op_open (impl s) reference fl u g w = (Returned a, w1)"
      and k: "(case a of Err e \<Rightarrow> (Returned (Err e), w1) | Ok n \<Rightarrow> give_file \<lparr>f_scheme = sid, f_number = n, f_event = None\<rparr> w1) = (Returned r, w')"
      using assms Return Ok by (auto simp: open_call_def of_outcome_def then_attempt_Returned t)
    have "same_people w1 w'"
      using k give_file_people by (cases a) (auto simp: same_people_def)
    then show ?thesis
      using same_people_trans[OF same_people_quiet[OF open_quiet[OF o]]] by blast
  qed (use assms Return in \<open>auto simp: open_call_def of_outcome_def same_people_def\<close>)
qed (use assms in \<open>auto simp: open_call_def of_outcome_def\<close>)

lemma close_people:
  assumes "close impl fd w = (Returned r, w')"
  shows "same_people w w'"
proof (cases "current_context w")
  case (Some c)
  obtain files fo where rm: "remove_file (fw_files w (files_ref c)) fd = (files, fo)"
    by fastforce
  let ?w1 = "set_files (files_ref c) files w"
  show ?thesis
  proof (cases fo)
    case (Some f)
    define w2 where "w2 = (case f_event f of None \<Rightarrow> ?w1 | Some event_id \<Rightarrow> unregister fd (f_scheme f) event_id ?w1)"
    have 2: "same_people w w2"
      unfolding w2_def using same_people_trans[OF same_people_files same_people_quiet[OF quiet_unregister]] by (auto split: option.splits)
    show ?thesis
    proof (cases "get_scheme (fw_schemes w2) (f_scheme f)")
      case None
      then show ?thesis
        using assms \<open>current_context w = Some c\<close> rm Some 2 by (auto simp: close_def Let_def simp flip: w2_def)
    next
      case (Some s)
      then have "op_close (impl s) (f_number f) w2 = (Returned r, w')"
        using assms \<open>current_context w = Some c\<close> rm \<open>fo = Some f\<close> by (simp add: close_def Let_def flip: w2_def)
      then have "quiet w2 w'"
        using close_quiet[of s "f_number f" w2] by auto
      then show ?thesis
        using same_people_trans[OF 2 same_people_quiet] by blast
    qed
  qed (use assms Some rm in \<open>auto simp: close_def\<close>)
qed (use assms in \<open>auto simp: close_def same_people_def\<close>)

lemma with_out_people:
  assumes "with_out p n dec enc f (w, M) = (a, (w', M'))" "\<And>v b w'. f v w = (b, w') \<Longrightarrow> quiet w w'"
  shows "same_people w w'"
  using assms(1) assms(2)[of "dec (slice_at M p n)"]
  by (auto simp: with_out_def intro!: same_people_quiet split: prod.splits attempt.splits)

lemma file_op_people:
  assumes "a = SYS_READ \<or> a = SYS_FSTAT" "file_op impl a fd x y (w, M) = (Returned r, (w', M'))"
  shows "same_people w w'"
proof (cases "fd_target fd w")
  case (Ok t)
  obtain f s c where t: "t = (f, s, c)"
    by (cases t)
  obtain b where h: "handle_call (impl s) (file_packet a x y f c) (w, M) = (Returned b, (w', M'))"
    using assms(2) Ok by (auto simp: file_op_def then_attempt_Returned t handle_def split: prod.splits attempt.splits)
  have "same_people w w"
    by (simp add: same_people_def)
  then show ?thesis
    using h assms(1) with_out_people[of _ _ _ _ "op_read (impl s) (f_number f)" w M _ w' M'] read_quiet
      with_out_people[of _ _ _ _ "op_fstat (impl s) (f_number f)" w M _ w' M'] fstat_quiet
    by (auto simp: handle_call_def file_packet_def Let_def split: if_splits)
qed (use assms(2) in \<open>auto simp: file_op_def same_people_def\<close>)

end

lemma then_ok_Returned:
  "then_ok x k = (Returned (Ok b), p') \<longleftrightarrow> (\<exists>a p. x = (Returned (Ok a), p) \<and> k a p = (Returned (Ok b), p'))"
proof
  assume "then_ok x k = (Returned (Ok b), p')"
  then obtain r p where "x = (Returned r, p)" "(case r of Err e \<Rightarrow> (Returned (Err e), p) | Ok a \<Rightarrow> k a p) = (Returned (Ok b), p')"
    by (auto simp: then_ok_def then_attempt_Returned)
  then show "\<exists>a p. x = (Returned (Ok a), p) \<and> k a p = (Returned (Ok b), p')"
    by (cases r) auto
qed (auto simp: then_ok_def then_attempt_def)

lemma plain_Returned: "plain f p = (Returned a, p') \<longleftrightarrow> (\<exists>w'. f (fst p) = (Returned a, w') \<and> p' = (w', snd p))"
  by (auto simp: plain_def split: prod.splits)

context process_schemes
begin

lemma exec_read_spec:
  assumes "exec_read impl v stat_ptr data_ptr path arg_ptrs p = (Returned (Ok (canonical, st, args)), p')" "current_context (fst p) = Some c"
  shows "same_people (fst p) (fst p')" "exec_perm st (euid c) (egid c) AND 1 = 1"
proof -
  obtain fd p1 b p2 b' p3 r where s: "plain (open_call impl canonical O_RDONLY) p = (Returned (Ok fd), p1)"
    "file_op_mut_slice impl SYS_FSTAT fd (stat_ptr, of_nat size_of_stat) (fst p1, store_at (snd p1) stat_ptr (replicate size_of_stat 0)) = (Returned (Ok b), p2)"
    "exec_perm st (euid c) (egid c) AND 1 = 1"
    "file_op_mut_slice impl SYS_READ fd (data_ptr, st_size st) (fst p2, store_at (snd p2) data_ptr (replicate (unat (st_size st)) 0)) = (Returned (Ok b'), p3)"
    "plain (close impl fd) p3 = (Returned r, p')"
    using assms by (auto simp: exec_read_def then_ok_Returned then_attempt_Returned Let_def split: result.splits outcome.splits if_splits)
  have "same_people (fst p) (fst p1)"
    using s(1) open_call_people by (auto simp: plain_Returned)
  moreover have "same_people (fst p1) (fst p2)"
    using s(2) file_op_people[of SYS_FSTAT fd stat_ptr _ "fst p1" _ _ "fst p2" "snd p2"] by (simp add: file_op_mut_slice_def)
  moreover have "same_people (fst p2) (fst p3)"
    using s(4) file_op_people[of SYS_READ fd data_ptr _ "fst p2" _ _ "fst p3" "snd p3"] by (simp add: file_op_mut_slice_def)
  moreover have "same_people (fst p3) (fst p')"
    using s(5) close_people by (auto simp: plain_Returned)
  ultimately show "same_people (fst p) (fst p')"
    using same_people_trans by blast
  show "exec_perm st (euid c) (egid c) AND 1 = 1"
    by (fact s(3))
qed

lemma exec_call_spec:
  assumes "exec_call impl v stat_ptr data_ptr path arg_ptrs p = Some (Returned (Ok (entry, sp)), p')"
    and "contexts_wf (ew_contexts (fst p))" "current_context (fst p) = Some c"
  obtains canonical st args p1 where "exec_read impl v stat_ptr data_ptr path arg_ptrs p = (Returned (Ok (canonical, st, args)), p1)"
    "exec_perm st (euid c) (egid c) AND 1 = 1" "protected (ctx_id c) (exec_ids st c) (fst p')"
proof -
  obtain canonical st args p1 where r: "exec_read impl v stat_ptr data_ptr path arg_ptrs p = (Returned (Ok (canonical, st, args)), p1)"
    using assms(1) by (auto simp: exec_call_def split: prod.splits attempt.splits result.splits)
  note R = exec_read_spec[OF r assms(3)]
  have c: "ew_current (fst p) = ctx_id c" "get_context (ew_contexts (fst p)) (ctx_id c) = Some c"
    using assms(2,3) by (auto simp: current_context_def contexts_wf_def)
  obtain c1 where c1: "get_context (ew_contexts (fst p1)) (ctx_id c) = Some c1" "credentials c1 = credentials c"
    using same_people_context[OF R(1) c(2)] by metis
  have cur: "current_context (fst p1) = Some c1" "ctx_id c1 = ctx_id c"
    using c1 R(1) c(1) by (simp_all add: current_context_def same_people_def credentials_def)
  obtain x p2 where i: "exec_image c1 data_ptr canonical st args p1 = Some (Return (x, p2))"
    and f: "then_attempt (plain (reopen_files impl (fst (snd x)) 0 (fw_files (fst p2) (fst (snd x)))) p2) (\<lambda>_ q.
      (Returned (Ok (e_entry (snd p1) data_ptr, fst x)), (if snd (snd x) then wake_parent (ppid c1) (fst q) else fst q, snd q))) = (Returned (Ok (entry, sp)), p')"
  proof -
    obtain y where y: "exec_image c1 data_ptr canonical st args p1 = Some y"
      "(case y of Panic \<Rightarrow> (Crashes, p1) | Return (x, p2) \<Rightarrow> then_attempt (plain (reopen_files impl (fst (snd x)) 0 (fw_files (fst p2) (fst (snd x)))) p2) (\<lambda>_ q.
        (Returned (Ok (e_entry (snd p1) data_ptr, fst x)), (if snd (snd x) then wake_parent (ppid c1) (fst q) else fst q, snd q)))) = (Returned (Ok (entry, sp)), p')"
      using assms(1) r cur(1) by (auto simp: exec_call_def Let_def split_beta split: if_splits)
    then show thesis
      using that by (cases y) auto
  qed
  obtain w3 where o: "reopen_files impl (fst (snd x)) 0 (fw_files (fst p2) (fst (snd x))) (fst p2) = (Returned (), w3)" "same_people (fst p2) w3"
    using reopen_files_people by blast
  have "protected (ctx_id c1) (exec_ids st c1) (fst p2)"
    using exec_image_protected[of c1 data_ptr canonical st args p1 "fst x" "fst (snd x)" "snd (snd x)" p2] i c1(1) cur(2) by simp
  then have "protected (ctx_id c1) (exec_ids st c1) w3"
    using protected_same_people o(2) by blast
  moreover have "fst p' = w3 \<or> fst p' = wake_parent (ppid c1) w3"
    using f o(1) by (auto simp: then_attempt_Returned plain_Returned)
  moreover have "same_people w3 (wake_parent (ppid c1) w3)"
    by (auto simp: wake_parent_def same_people_def unblock_def identity_def intro!: same_contexts_set split: option.splits)
  ultimately have "protected (ctx_id c) (exec_ids st c1) (fst p')"
    using protected_same_people cur(2) by metis
  moreover have "credentials (exec_ids st c1) = credentials (exec_ids st c)"
    using c1(2) by (auto simp: credentials_def exec_ids_def)
  ultimately show thesis
    using that[OF r R(2)] by (simp add: protected_def)
qed

end

section \<open>A small program\<close>

text \<open>A machine with 512 free frames and tables for the stack; one process without memory; a program in \<open>initfs:\<close>.\<close>

definition wide_area :: memory_area where
  "wide_area = \<lparr>base_addr = 0x200000, area_length = 0x200000, area_type = MEMORY_AREA_FREE, acpi = 0\<rparr>"

definition wide_memory :: physical_memory where
  "wide_memory = \<lparr>MEMORY_MAP = [wide_area], ALLOCATOR = Some (new_allocator [wide_area] 0 0 (area_iter_new MEMORY_AREA_FREE))\<rparr>"

definition stack_tables :: page_mem where
  "stack_tables = (small_tables_at 3)\<lparr>pg_memory := wide_memory\<rparr>"

lemma wide_available: "can_allocate stack_tables f \<longleftrightarrow> Frame 512 \<le> f \<and> f \<le> Frame 1023"
proof -
  have fr: "first_frame wide_area = Frame 512" "last_frame wide_area = Frame 1023"
    by (simp_all add: first_frame_def last_frame_def wide_area_def containing_address_def PAGE_SIZE_def)
  have areas: "area_list [wide_area] (area_iter_new MEMORY_AREA_FREE) = [wide_area]"
    by (simp add: area_list_new wide_area_def)
  have "new_allocator [wide_area] 0 0 (area_iter_new MEMORY_AREA_FREE) = \<lparr>next_free_frame = Frame 512, current_area = Some wide_area,
     areas = area_iter_new MEMORY_AREA_FREE, kernel_start = Frame 0, kernel_end = Frame 0\<rparr>"
    by (simp add: new_allocator_def choose_next_area_def areas fr containing_address_def PAGE_SIZE_def less_eq_frame_def less_frame_def)
  then show ?thesis
    by (auto simp: can_allocate_def stack_tables_def wide_memory_def available_def areas fr in_kernel_def less_eq_frame_def word_le_nat_alt)
qed

lemma stack_tables_wf: "tables_wf stack_tables"
proof (rule tables_wfI)
  note wf = tables_wfD[OF small_tables_at_wf[of 3]]
  show "recursive stack_tables"
    using wf(1) by (simp add: stack_tables_def recursive_def)
  show "\<exists>a. ALLOCATOR (pg_memory stack_tables) = Some a \<and> frames_wf (MEMORY_MAP (pg_memory stack_tables)) a"
    by (simp add: stack_tables_def wide_memory_def frames_wf_new)
  show "q = r" if "vpath q" "vpath r" "descend stack_tables (pg_cr3 stack_tables) q = Some f"
    "descend stack_tables (pg_cr3 stack_tables) r = Some f" for q r f
    using that wf(2)[of q r f] by (simp add: stack_tables_def)
  show "\<not> can_allocate stack_tables f" if "vpath q" "descend stack_tables (pg_cr3 stack_tables) q = Some f" for q f
  proof -
    have "f \<in> {Frame 2, Frame 100, Frame 101, Frame 102}"
      using small_descend[of q 3 f] that by (auto simp: stack_tables_def)
    then show ?thesis
      by (auto simp: wide_available less_eq_frame_def)
  qed
  show "frame_number f < 2 ^ 40" if "can_allocate stack_tables f" for f
    using that by (auto simp: wide_available less_eq_frame_def word_le_nat_alt word_less_nat_alt)
qed

lemma wide_frames: "258 \<le> card {f. can_allocate stack_tables f}"
proof -
  have "inj_on (\<lambda>n. Frame (of_nat n)) {512..<1024}"
    by (auto simp: inj_on_def word_of_nat_eq_iff take_bit_eq_mod)
  then have "card ((\<lambda>n. Frame (of_nat n)) ` {512..<1024}) = 512"
    by (simp add: card_image)
  moreover have "card ((\<lambda>n. Frame (of_nat n)) ` {512..<1024}) \<le> card {f. can_allocate stack_tables f}"
    by (rule card_mono) (auto simp: wide_available less_eq_frame_def word_le_nat_alt unat_of_nat_small)
  ultimately show ?thesis
    by simp
qed

lemma stack_ready: "\<forall>x \<in> region_pages USER_STACK_OFFSET USER_STACK_SIZE. leaf_entry stack_tables x = Some 0"
proof -
  have "leaf_entry stack_tables (page_index p) = Some 0" if "page_containing USER_STACK_OFFSET \<le> p" "p \<le> page_containing (USER_STACK_OFFSET + USER_STACK_SIZE - 1)" for p
  proof -
    let ?j = "unat (page_number p) - 3 * 2 ^ 27"
    have "unat (page_number p) = 3 * 2 ^ 27 + ?j" "?j < 512"
      using that by (simp_all add: page_order page_number_containing layout_defs USER_STACK_SIZE_def)
    then have "page_index p = (3, 0, 0, of_nat ?j)"
      using first_table_page[of p 3 ?j] by simp
    then show ?thesis
      by (simp add: stack_tables_def small_step) (simp add: small_tables_at_def)
  qed
  then show ?thesis
    by (auto simp: region_pages_def)
qed


definition program :: bytes where
  "program = ELFMAG @ [ELFCLASS] @ replicate 59 0"

definition program_handle :: "usize \<Rightarrow> mem_handle" where
  "program_handle k = \<lparr>h_path = bytes_of ''a'', h_data = program, h_mode = MODE_FILE OR 484, h_seek = k\<rparr>"

definition program_initfs :: "mem_table \<Rightarrow> initfs" where
  "program_initfs t = \<lparr>in_files = [(bytes_of ''a'', (program, False))], in_table = t\<rparr>"

text \<open>The process, with its descriptors and the open files of \<open>initfs:\<close>.\<close>

definition program_world :: "file_table \<Rightarrow> mem_table \<Rightarrow> kernel_state kernel" where
  "program_world files t =
     \<lparr>ew_registry = bt_empty, ew_queues = (\<lambda>_. new_queue), ew_contexts = one_runnable, ew_current = 1,
      fw_schemes = \<lparr>sl_map = [(1, InitFsScheme)], sl_names = [(0, [(bytes_of ''initfs'', 1)])], sl_next_ns = 1, sl_next_id = 1\<rparr>,
      fw_files = (\<lambda>_. [])(0 := files), fw_cwds = (\<lambda>_. bytes_of ''initfs:''), fw_pipes = new_pipes one_runnable 1, fw_pipe_id = 0,
      fw_state = \<lparr>ps_waitpid = (\<lambda>_. new_wait_map), ps_memory = (\<lambda>_. \<lparr>mem_start = 0, mem_size = 0x1000, mem_flags = PRESENT\<rparr>),
        ps_grants = (\<lambda>_. []), ps_pages = stack_tables, ps_page_table = (\<lambda>_. 0), ps_names = (\<lambda>_. []), ps_envs = (\<lambda>_. bt_empty),
        ps_cells = (\<lambda>_. []), ps_next_ref = 10,
        ps_rest = \<lparr>ks_initfs = program_initfs t, ks_debug_id = 2, ks_input = new_queue, ks_output = []\<rparr>\<rparr>\<rparr>"

abbreviation program_ctx :: ctx where
  "program_ctx \<equiv> (new_ctx 0 1)\<lparr>status := Runnable\<rparr>"

definition program_stat :: stat where
  "program_stat = (decode_stat (replicate size_of_stat 0))\<lparr>st_mode := MODE_FILE OR 484, st_uid := 0, st_gid := 0, st_size := 64\<rparr>"

lemma program_stat_simps [simp]: "st_mode program_stat = MODE_FILE OR 484" "st_uid program_stat = 0" "st_gid program_stat = 0" "st_size program_stat = 64"
  by (simp_all add: program_stat_def)

lemma program_world_simps [simp]:
  "current_context (program_world files t) = Some program_ctx" "contexts_wf (ew_contexts (program_world files t))"
  "fw_files (program_world files t) 0 = files" "set_files 0 fs (program_world files t) = program_world fs t"
  "get_scheme (fw_schemes (program_world files t)) 1 = Some InitFsScheme" "fw_cwds (program_world files t) r = bytes_of ''initfs:''"
  using usize_max_pred by (auto simp: current_context_def program_world_def one_runnable_def get_context_def contexts_wf_def bt_wf_def new_ctx_def
        CONTEXT_MAX_CONTEXTS_def word_less_nat_alt set_files_def get_scheme_def split: if_splits)

lemma program_ops:
  "f (program_initfs t) = (r, program_initfs t') \<Longrightarrow>
    lift_op scheme_part put_scheme_part (lift_op (\<lambda>w. ks_initfs (fw_state w)) (\<lambda>t w. w\<lparr>fw_state := (fw_state w)\<lparr>ks_initfs := t\<rparr>\<rparr>) f) (program_world files t) =
    (r, program_world files t')"
  by (simp add: lift_op_def scheme_part_def put_scheme_part_def program_world_def)

definition opened :: "usize \<Rightarrow> mem_table" where
  "opened k = \<lparr>next_id = 1, handles = [(0, program_handle k)]\<rparr>"

abbreviation program_fd :: "kfile option" where
  "program_fd \<equiv> Some \<lparr>f_scheme = 1, f_number = 0, f_event = None\<rparr>"

lemma program_open:
  "open_call process_impl (bytes_of ''initfs:a'') O_RDONLY (program_world [] (new_table 0)) = (Returned (Ok 0), program_world [program_fd] (opened 0))"
proof -
  have r: "resolve (bytes_of ''initfs:a'') (program_world [] (new_table 0)) = Return (Ok (1, InitFsScheme, bytes_of ''a'', 0, 0))"
    by (simp add: resolve_def canonicalize_def splitn_colon_def get_name_def bytes_of_def)
      (simp add: program_world_def new_ctx_def get_scheme_def bytes_of_def)
  have "initfs_open (bytes_of ''a'') O_RDONLY 0 0 (program_initfs (new_table 0)) = (Returned (Ok 0), program_initfs (opened 0))"
    by (simp add: initfs_open_def program_initfs_def bytes_of_def trim_slashes_def add_handle_def new_table_def opened_def program_handle_def bt_empty_def)
  from program_ops[where f = "initfs_open (bytes_of ''a'') O_RDONLY 0 0", OF this]
  have o: "op_open (process_impl InitFsScheme) (bytes_of ''a'') O_RDONLY 0 0 (program_world [] (new_table 0)) = (Returned (Ok 0), program_world [] (opened 0))"
    by (simp add: process_impl_def memory_impl_def lift_ops_def)
  show ?thesis
    by (simp add: open_call_def of_outcome_def r o then_attempt_def give_file_def new_ctx_def add_file_def CONTEXT_MAX_FILES_def del: O_RDONLY_def)
qed

lemma program_fstat:
  "file_op_mut_slice process_impl SYS_FSTAT 0 (a, of_nat size_of_stat) (program_world [program_fd] (opened 0), store_at M a (replicate size_of_stat 0)) =
    (Returned (Ok 0), (program_world [program_fd] (opened 0), store_at (store_at M a (replicate size_of_stat 0)) a (encode_stat program_stat)))"
proof -
  have "initfs_fstat 0 st (program_initfs (opened 0)) = (Returned (Ok 0, st\<lparr>st_mode := MODE_FILE OR 484, st_uid := 0, st_gid := 0, st_size := 64\<rparr>), program_initfs (opened 0))" for st
    by (simp add: initfs_fstat_def mh_fstat_def program_initfs_def opened_def get_handle_def program_handle_def program_def ELFMAG_def)
  from program_ops[where f = "initfs_fstat 0 _", OF this]
  have o: "op_fstat (process_impl InitFsScheme) 0 st (program_world [program_fd] (opened 0)) =
      (Returned (Ok 0, st\<lparr>st_mode := MODE_FILE OR 484, st_uid := 0, st_gid := 0, st_size := 64\<rparr>), program_world [program_fd] (opened 0))" for st
    by (simp add: process_impl_def memory_impl_def lift_ops_def initfs_ops_def)
  have size: "unat (of_nat size_of_stat :: usize) = size_of_stat"
    by (simp add: size_of_stat_def)
  have sl: "slice_at (store_at M a (replicate size_of_stat 0)) a size_of_stat = replicate size_of_stat 0"
    using slice_store[of "replicate size_of_stat 0" M a] by (simp add: size_of_stat_def)
  show ?thesis
    by (simp add: file_op_mut_slice_def file_op_def fd_target_def get_file_def new_ctx_def file_packet_def handle_def handle_call_def
        with_out_def o sl then_attempt_def size demux_mux_iff error_window_def program_stat_def Let_def)
qed

lemma program_read:
  "file_op_mut_slice process_impl SYS_READ 0 (a, 64) (program_world [program_fd] (opened 0), store_at M a (replicate 64 0)) =
    (Returned (Ok 64), (program_world [program_fd] (opened 64), store_at (store_at M a (replicate 64 0)) a program))"
proof -
  have len: "length program = 64"
    by (simp add: program_def ELFMAG_def)
  have "initfs_read 0 (replicate 64 0) (program_initfs (opened 0)) = (Returned (Ok 64, program), program_initfs (opened 64))"
    by (simp add: initfs_read_def mh_read_def program_initfs_def opened_def get_handle_def program_handle_def read_at_eq len set_handle_def Let_def)
  from program_ops[where f = "initfs_read 0 _", OF this]
  have o: "op_read (process_impl InitFsScheme) 0 (replicate 64 0) (program_world [program_fd] (opened 0)) =
      (Returned (Ok 64, program), program_world [program_fd] (opened 64))"
    by (simp add: process_impl_def memory_impl_def lift_ops_def initfs_ops_def)
  have sl: "slice_at (store_at M a (replicate 64 0)) a 64 = replicate 64 0"
    using slice_store[of "replicate 64 0" M a] by simp
  show ?thesis
    by (simp add: file_op_mut_slice_def file_op_def fd_target_def get_file_def new_ctx_def file_packet_def handle_def handle_call_def
        with_out_def o sl then_attempt_def demux_mux_iff error_window_def)
qed

lemma program_close:
  "close process_impl 0 (program_world [program_fd] (opened 64)) = (Returned (Ok 0), program_world [None] \<lparr>next_id = 1, handles = []\<rparr>)"
proof -
  have "initfs_close 0 (program_initfs (opened 64)) = (Returned (Ok 0), program_initfs \<lparr>next_id = 1, handles = []\<rparr>)"
    by (simp add: initfs_close_def program_initfs_def opened_def close_handle_def)
  from program_ops[where f = "initfs_close 0", OF this]
  have o: "op_close (process_impl InitFsScheme) 0 (program_world fs (opened 64)) =
      (Returned (Ok 0), program_world fs \<lparr>next_id = 1, handles = []\<rparr>)" for fs
    by (simp add: process_impl_def memory_impl_def lift_ops_def initfs_ops_def)
  show ?thesis
    by (simp add: close_def new_ctx_def remove_file_def o)
qed

lemma program_exec_read:
  "\<exists>M'. exec_read process_impl v 0x2000 0x1000 (bytes_of ''initfs:a'') [] (program_world [] (new_table 0), M) =
    (Returned (Ok (bytes_of ''initfs:a'', program_stat, [])), (program_world [None] \<lparr>next_id = 1, handles = []\<rparr>, M')) \<and>
    slice_at M' 0x1000 64 = program"
proof -
  have len: "length program = 64"
    by (simp add: program_def ELFMAG_def)
  have c: "canonicalize (bytes_of ''initfs:'') (bytes_of ''initfs:a'') = Return (bytes_of ''initfs:a'')"
    by (simp add: canonicalize_def bytes_of_def)
  have sl: "decode_stat (slice_at (store_at M' 0x2000 (encode_stat program_stat)) 0x2000 size_of_stat) = program_stat" for M'
    using slice_store[of "encode_stat program_stat" M' "0x2000"] by (simp add: size_of_stat_def)
  let ?M = "store_at (store_at M 0x2000 (replicate size_of_stat 0)) 0x2000 (encode_stat program_stat)"
  have "exec_read process_impl v 0x2000 0x1000 (bytes_of ''initfs:a'') [] (program_world [] (new_table 0), M) =
    (Returned (Ok (bytes_of ''initfs:a'', program_stat, [])), (program_world [None] \<lparr>next_id = 1, handles = []\<rparr>, store_at (store_at ?M 0x1000 (replicate 64 0)) 0x1000 program))"
    by (simp add: exec_read_def new_ctx_def c then_ok_def plain_def program_open then_attempt_def program_fstat sl exec_perm_def
      program_read program_close Let_def del: O_RDONLY_def SYS_FSTAT_def SYS_READ_def)
  moreover have "slice_at (store_at (store_at ?M 0x1000 (replicate 64 0)) 0x1000 program) 0x1000 64 = program"
    using slice_store[of program] by (simp add: len)
  ultimately show ?thesis
    by blast
qed

lemma slice_sub: "k + n \<le> m \<Longrightarrow> slice_at M (a + of_nat k) n = take n (drop k (slice_at M a m))"
  by (rule nth_equalityI) (simp_all add: slice_at_def add.assoc)

lemma le_word_zeros: "le_word (replicate n 0) = 0"
  by (induction n) simp_all

lemma program_release:
  "\<exists>w1. release_memory program_ctx (set_name 1 name (program_world [None] t)) = Some (Return w1) \<and> ps_pages (fw_state w1) = stack_tables \<and> fw_files w1 0 = [None]"
  by (simp add: release_memory_def set_name_def new_ctx_def then_do_def drop_own_def heap_ref_def release_grants_def Let_def fresh_ref_def
      set_grants_def program_world_def set_pages_def)

lemma stack_mapped:
  assumes "ps_pages (fw_state (fst p)) = stack_tables"
  shows "\<exists>p'. map_stack pid p = Some (Return p') \<and> fw_files (fst p') = fw_files (fst p)"
proof -
  have "low_region USER_STACK_OFFSET USER_STACK_SIZE" "unat USER_STACK_SIZE div 4096 + 2 = 258"
    by (simp_all add: low_region_def layout_defs USER_STACK_SIZE_def)
  moreover have "(NO_EXECUTE OR WRITABLE OR USER_ACCESSIBLE) AND ALL_FLAGS = NO_EXECUTE OR WRITABLE OR USER_ACCESSIBLE"
    "has_flag (NO_EXECUTE OR WRITABLE OR USER_ACCESSIBLE) WRITABLE"
    by (simp_all add: NO_EXECUTE_def WRITABLE_def USER_ACCESSIBLE_def ALL_FLAGS_def has_flag_def)
  ultimately obtain m pm where "memory_new USER_STACK_OFFSET USER_STACK_SIZE (NO_EXECUTE OR WRITABLE OR USER_ACCESSIBLE) True True stack_tables = Some (Return (m, pm))"
    using memory_new_maps[OF stack_tables_wf, of USER_STACK_OFFSET USER_STACK_SIZE] stack_ready wide_frames by metis
  then show ?thesis
    using assms by (simp add: map_stack_def new_region_def then_do_def set_pages_def)
qed

lemma program_exec_image:
  assumes "slice_at M 0x1000 64 = program"
  shows "\<exists>sp r p'. exec_image program_ctx 0x1000 name program_stat [] (program_world [None] t, M) = Some (Return ((sp, r, False), p')) \<and>
    fw_files (fst p') r = [None]"
proof -
  obtain w1 where 1: "release_memory program_ctx (set_name 1 name (program_world [None] t)) = Some (Return w1)" "ps_pages (fw_state w1) = stack_tables" "fw_files w1 0 = [None]"
    using program_release by blast
  have "slice_at M (0x1000 + of_nat 56) 2 = take 2 (drop 56 program)"
    using slice_sub[of 56 2 64 M "0x1000"] assms by simp
  then have "e_phnum M 0x1000 = 0"
    by (simp add: e_phnum_def program_def ELFMAG_def le_word_zeros)
  then have 2: "load_segments pid 0x1000 0 None (w1, M) = Some (Return (None, (w1, M)))" for pid
    by (subst load_segments.simps) (simp add: segment_next_def)
  have ids: "set_ids 1 program_stat w1 = w1"
    by (simp add: set_ids_def has_flag_def Let_def)
  have h: "USER_HEAP_OFFSET \<noteq> 0" "USER_HEAP_OFFSET mod 4096 = 0"
    by (simp_all add: layout_defs)
  have fl: "NO_EXECUTE OR WRITABLE OR USER_ACCESSIBLE = (NO_EXECUTE OR USER_ACCESSIBLE) OR WRITABLE"
    by (simp add: NO_EXECUTE_def WRITABLE_def USER_ACCESSIBLE_def)
  obtain p3 where 3: "map_heap 1 (w1, M) = Some (Return p3)" "ps_pages (fw_state (fst p3)) = stack_tables" "fw_files (fst p3) 0 = [None]"
    using map_empty(1)[OF h, of "NO_EXECUTE OR USER_ACCESSIBLE" "(w1, M)", folded fl] 1
    by (simp add: map_heap_def then_do_def fresh_ref_def set_memory_def modify_context_def)
  obtain p4 where 4: "map_stack 1 p3 = Some (Return p4)" "fw_files (fst p4) = fw_files (fst p3)"
    using stack_mapped[OF 3(2)] by blast
  have "ctx_id program_ctx = 1" "files_ref program_ctx = 0" "vfork program_ctx = False"
    by (simp_all add: new_ctx_def)
  then show ?thesis
    by (simp add: exec_image_def 1 2 3 4 ids then_do_def map_tls_def map_args_def private_files_def fresh_ref_def set_files_def Let_def)
qed

lemma program_exec:
  "\<exists>sp p'. exec_call process_impl v 0x2000 0x1000 (bytes_of ''initfs:a'') [] (program_world [] (new_table 0), M) = Some (Returned (Ok (0, sp)), p')"
proof -
  obtain M' where r: "exec_read process_impl v 0x2000 0x1000 (bytes_of ''initfs:a'') [] (program_world [] (new_table 0), M) =
      (Returned (Ok (bytes_of ''initfs:a'', program_stat, [])), (program_world [None] \<lparr>next_id = 1, handles = []\<rparr>, M'))" "slice_at M' 0x1000 64 = program"
    using program_exec_read by blast
  have "slice_at M' (0x1000 + of_nat 24) 8 = take 8 (drop 24 program)"
    using slice_sub[of 24 8 64 M' "0x1000"] r(2) by simp
  then have e: "e_entry M' 0x1000 = 0"
    by (simp add: e_entry_def program_def ELFMAG_def le_word_zeros)
  have elf: "elf_from program = None"
    by (simp add: elf_from_def program_def ELFMAG_def SIZEOF_EHDR_def SELFMAG_def EI_CLASS_def ELFCLASS_def)
  obtain sp f p' where i: "exec_image program_ctx 0x1000 (bytes_of ''initfs:a'') program_stat [] (program_world [None] \<lparr>next_id = 1, handles = []\<rparr>, M') =
      Some (Return ((sp, f, False), p'))" "fw_files (fst p') f = [None]"
    using program_exec_image[OF r(2)] by blast
  show ?thesis
    by (simp add: exec_call_def r elf e i plain_def reopen_file_def then_attempt_def Let_def)
qed

section \<open>Properties\<close>




text \<open>A segment that names an address in the kernel.\<close>

definition kernel_segment :: program_header where
  "kernel_segment = \<lparr>p_type = PT_LOAD, p_flags = PF_R, p_offset = 16, p_vaddr = 0xFFFFFF0000000000, p_paddr = 0, p_filesz = 4, p_memsz = 0, p_align = 0\<rparr>"


end
