(* ===== verification/Clone.thy ===== *)
theory Clone
  imports Exec
begin

text \<open>
  \<open>clone\<close> of \<open>kernel/syscall/process.rs\<close>: what the new context shares with its parent and what it gets a copy
  of depends on the flags. A copy of memory is made in the temporary regions of the parent's address space,
  whose pages are then moved to the page table of the child. Saved registers are not modelled.
\<close>

section \<open>Parts of the new context\<close>

definition USER_TMP_STACK_OFFSET :: usize where "USER_TMP_STACK_OFFSET = USER_TMP_GRANT_OFFSET + PML4_SIZE"
definition USER_TMP_TLS_OFFSET :: usize where "USER_TMP_TLS_OFFSET = USER_TMP_STACK_OFFSET + PML4_SIZE"
definition KERNEL_PERCPU_OFFSET :: usize where "KERNEL_PERCPU_OFFSET = 0xC0000000"
definition KERNEL_PERCPU_SIZE :: usize where "KERNEL_PERCPU_SIZE = 0x10000"

record clone_parts =
  cp_kfx :: "bytes option"
  cp_kstack :: "bytes option"
  cp_image :: "ref list"
  cp_heap :: "ref option"
  cp_stack :: "memory option"
  cp_tls :: "tls option"
  cp_grants :: ref
  cp_name :: ref
  cp_cwd :: ref
  cp_env :: ref
  cp_files :: ref

text \<open>
  A new region at \<open>at\<close> of the size of \<open>m\<close>, with \<open>n\<close> bytes copied from \<open>src\<close>, and with the flags of \<open>m\<close>. Without
  \<open>clear\<close> the frames keep what they held.
\<close>

definition copy_region :: "usize \<Rightarrow> bool \<Rightarrow> memory \<Rightarrow> usize \<Rightarrow> usize \<Rightarrow> 't process \<Rightarrow> (memory \<times> 't process) outcome option" where
  "copy_region at clear m src n p =
     then_do (memory_new at (mem_size m) (PRESENT OR NO_EXECUTE OR WRITABLE) True clear (ps_pages (fw_state (fst p)))) (\<lambda>(m', pm).
       let p = (set_pages pm (fst p), if clear then store_at (snd p) at (replicate (unat (mem_size m)) 0) else snd p)
       in remap_region (mem_flags m) m' (copy_bytes src at n p))"

text \<open>\<open>to_shared\<close>\<close>

definition share :: "memory \<Rightarrow> 't process \<Rightarrow> ref \<times> 't process" where
  "share m p = (let (r, w) = fresh_ref (fst p) in (r, (set_memory r m w, snd p)))"

fun copy_image :: "ref list \<Rightarrow> 't process \<Rightarrow> (ref list \<times> 't process) outcome option" where
  "copy_image [] p = Some (Return ([], p))"
| "copy_image (r # rs) p =
     (let m = ps_memory (fw_state (fst p)) r
      in then_do (copy_region (mem_start m + USER_TMP_OFFSET) False m (mem_start m) (mem_size m) p) (\<lambda>(m', p).
           let (r', p) = share m' p
           in then_do (copy_image rs p) (\<lambda>(rs', p). Some (Return (r' # rs', p)))))"

definition copy_heap :: "ref option \<Rightarrow> 't process \<Rightarrow> (ref option \<times> 't process) outcome option" where
  "copy_heap h p =
     (case h of
        None \<Rightarrow> Some (Return (None, p))
      | Some r \<Rightarrow>
          let m = ps_memory (fw_state (fst p)) r
          in then_do (copy_region USER_TMP_HEAP_OFFSET False m (mem_start m) (mem_size m) p) (\<lambda>(m', p).
               let (r', p) = share m' p in Some (Return (Some r', p))))"

definition copy_stack :: "memory option \<Rightarrow> 't process \<Rightarrow> (memory option \<times> 't process) outcome option" where
  "copy_stack s p =
     (case s of
        None \<Rightarrow> Some (Return (None, p))
      | Some m \<Rightarrow>
          then_do (copy_region USER_TMP_STACK_OFFSET False m (mem_start m) (mem_size m) p) (\<lambda>(m', p). Some (Return (Some m', p))))"

text \<open>The thread-local storage of the child is filled from the master copy, not from that of the parent.\<close>

definition copy_tls :: "tls option \<Rightarrow> 't process \<Rightarrow> (tls option \<times> 't process) outcome option" where
  "copy_tls t p =
     (case t of
        None \<Rightarrow> Some (Return (None, p))
      | Some t \<Rightarrow>
          then_do (copy_region USER_TMP_TLS_OFFSET True (tls_mem t) (tls_master t) (tls_file_size t) p) (\<lambda>(m', p).
            Some (Return (Some (t\<lparr>tls_mem := m'\<rparr>), p))))"

fun copy_env :: "(bytes \<times> ref) list \<Rightarrow> (bytes, ref) btree_map \<Rightarrow> 't kernel \<Rightarrow> (bytes, ref) btree_map \<times> 't kernel" where
  "copy_env [] new_env w = (new_env, w)"
| "copy_env ((name, r) # items) new_env w =
     (let (r', w) = fresh_ref w;
          w = w\<lparr>fw_state := (fw_state w)\<lparr>ps_cells := (ps_cells (fw_state w))(r' := ps_cells (fw_state w) r)\<rparr>\<rparr>
      in copy_env items (bt_insert name r' new_env) w)"

text \<open>The copy of the kernel stack returns to \<open>clone_ret\<close>.\<close>

definition clone_kstack :: "usize \<Rightarrow> usize \<Rightarrow> usize \<Rightarrow> bytes \<Rightarrow> bytes" where
  "clone_kstack stack_base stack_ptr clone_ret stk =
     (let offset = unat (stack_base - stack_ptr - 8)
      in take offset stk @ le_bytes 8 clone_ret @ drop (offset + 8) stk)"

definition copy_grants :: "bool \<Rightarrow> ctx \<Rightarrow> 't kernel \<Rightarrow> ref \<times> 't kernel" where
  "copy_grants vm c w =
     (if vm then (grants_ref c, w) else let (r, w) = fresh_ref w in (r, set_grants r [] w))"

definition copy_name :: "bool \<Rightarrow> ctx \<Rightarrow> 't kernel \<Rightarrow> ref \<times> 't kernel" where
  "copy_name vm c w =
     (if vm then (name_ref c, w)
      else let (r, w) = fresh_ref w
           in (r, w\<lparr>fw_state := (fw_state w)\<lparr>ps_names := (ps_names (fw_state w))(r := ps_names (fw_state w) (name_ref c))\<rparr>\<rparr>))"

definition copy_cwd :: "bool \<Rightarrow> ctx \<Rightarrow> 't kernel \<Rightarrow> ref \<times> 't kernel" where
  "copy_cwd fs c w =
     (if fs then (cwd_ref c, w)
      else let (r, w) = fresh_ref w in (r, w\<lparr>fw_cwds := (fw_cwds w)(r := fw_cwds w (cwd_ref c))\<rparr>))"

definition copy_environment :: "bool \<Rightarrow> ctx \<Rightarrow> 't kernel \<Rightarrow> ref \<times> 't kernel" where
  "copy_environment vm c w =
     (if vm then (env_ref c, w)
      else let (new_env, w) = copy_env (ps_envs (fw_state w) (env_ref c)) bt_empty w;
               (r, w) = fresh_ref w
           in (r, w\<lparr>fw_state := (fw_state w)\<lparr>ps_envs := (ps_envs (fw_state w))(r := new_env)\<rparr>\<rparr>))"

definition copy_files :: "bool \<Rightarrow> ctx \<Rightarrow> 't kernel \<Rightarrow> ref \<times> 't kernel" where
  "copy_files fl c w =
     (if fl then (files_ref c, w)
      else let (r, w) = fresh_ref w in (r, set_files r (fw_files w (files_ref c)) w))"

definition copy_objects :: "usize \<Rightarrow> ctx \<Rightarrow> 't kernel \<Rightarrow> (ref \<times> ref \<times> ref \<times> ref \<times> ref) \<times> 't kernel" where
  "copy_objects flags c w =
     (let vm = has_flag flags CLONE_VM;
          (grants, w) = copy_grants vm c w;
          (name, w) = copy_name vm c w;
          (cwd, w) = copy_cwd (has_flag flags CLONE_FS) c w;
          (env, w) = copy_environment vm c w;
          (files, w) = copy_files (has_flag flags CLONE_FILES) c w
      in ((grants, name, cwd, env, files), w))"

definition copy_memory :: "usize \<Rightarrow> ctx \<Rightarrow> 't process \<Rightarrow> ((ref list \<times> ref option \<times> memory option \<times> tls option) \<times> 't process) outcome option" where
  "copy_memory flags c p =
     then_do (if has_flag flags CLONE_VM then Some (Return ((image c, heap c), p))
              else then_do (copy_image (image c) p) (\<lambda>(image, p).
                   then_do (copy_heap (heap c) p) (\<lambda>(heap, p). Some (Return ((image, heap), p))))) (\<lambda>((image, heap), p).
     then_do (copy_stack (stack c) p) (\<lambda>(stack, p).
     then_do (copy_tls (tls_of c) p) (\<lambda>(tls, p).
       Some (Return ((image, heap, stack, tls), p)))))"

text \<open>Copy from old process.\<close>

definition clone_copy :: "usize \<Rightarrow> usize \<Rightarrow> usize \<Rightarrow> usize \<Rightarrow> ctx \<Rightarrow> 't process \<Rightarrow> (clone_parts \<times> 't process) outcome option" where
  "clone_copy flags stack_base stack_ptr clone_ret c p =
     then_do (copy_memory flags c p) (\<lambda>((image, heap, stack, tls), p).
       let ((grants, name, cwd, env, files), w) = copy_objects flags c (fst p)
       in Some (Return
            (\<lparr>cp_kfx = kfx c, cp_kstack = map_option (clone_kstack stack_base stack_ptr clone_ret) (kstack c),
              cp_image = image, cp_heap = heap, cp_stack = stack, cp_tls = tls, cp_grants = grants, cp_name = name,
              cp_cwd = cwd, cp_env = env, cp_files = files\<rparr>, (w, snd p))))"

section \<open>Files\<close>

text \<open>If not cloning files, dup to get a new number from scheme. A scheme that is gone ends the call.\<close>

definition clone_file :: "'s impl \<Rightarrow> kfile option \<Rightarrow> (kfile option result, 's fs_world) op" where
  "clone_file impl file_option w =
     (case file_option of
        None \<Rightarrow> (Returned (Ok None), w)
      | Some f \<Rightarrow>
          (case get_scheme (fw_schemes w) (f_scheme f) of
             None \<Rightarrow> (Returned (Err (Error EBADF)), w)
           | Some s \<Rightarrow>
               then_attempt (op_dup (impl s) (f_number f) (bytes_of ''clone'') w) (\<lambda>res w.
                 (Returned (Ok (case res of
                    Ok new_number \<Rightarrow> Some \<lparr>f_scheme = f_scheme f, f_number = new_number, f_event = None\<rparr>
                  | Err _ \<Rightarrow> None)), w))))"

fun clone_files :: "'s impl \<Rightarrow> ref \<Rightarrow> nat \<Rightarrow> file_table \<Rightarrow> (unit result, 's fs_world) op" where
  "clone_files impl r fd [] w = (Returned (Ok ()), w)"
| "clone_files impl r fd (f # fs) w =
     then_ok (clone_file impl f w) (\<lambda>f' w. clone_files impl r (Suc fd) fs (set_files r ((fw_files w r)[fd := f']) w))"

section \<open>The page table of the new context\<close>

definition clone_page :: page where
  "clone_page = page_containing 0x800000000"

text \<open>An entry of the active top table is copied to that of the child.\<close>

definition copy_p4 :: "usize \<Rightarrow> frame \<Rightarrow> page_mem \<Rightarrow> page_mem outcome option" where
  "copy_p4 i table pm =
     (case entry_at pm P4 i of
        Panic \<Rightarrow> Some Panic
      | Return e \<Rightarrow>
          (case pointed_frame e of
             None \<Rightarrow> Some Panic
           | Some f \<Rightarrow> active_with table clone_page (\<lambda>pm. Some (set_entry_at P4 i (entry_set f (entry_flags e)) pm)) pm))"

definition copy_percpu_page :: "frame \<Rightarrow> page \<Rightarrow> page_mem \<Rightarrow> page_mem outcome option" where
  "copy_percpu_page table p pm =
     (case translate_page pm p of
        Return (Some f) \<Rightarrow> active_with table clone_page (map_to p f (PRESENT OR NO_EXECUTE OR WRITABLE)) pm
      | _ \<Rightarrow> Some Panic)"

text \<open>\<open>percpu_size\<close> is the distance of two symbols of the linker.\<close>

fun copy_percpu :: "usize \<Rightarrow> frame \<Rightarrow> nat list \<Rightarrow> page_mem \<Rightarrow> page_mem outcome option" where
  "copy_percpu percpu_size table [] pm = Some (Return pm)"
| "copy_percpu percpu_size table (cpu # cpus) pm =
     (let start = KERNEL_PERCPU_OFFSET + KERNEL_PERCPU_SIZE * of_nat cpu
      in then_do (for_pages (copy_percpu_page table) (page_range (page_containing start) (page_containing (start + percpu_size - 1))) pm)
           (copy_percpu percpu_size table cpus))"

definition move_region :: "usize \<Rightarrow> frame \<Rightarrow> memory \<Rightarrow> 't kernel \<Rightarrow> (memory \<times> 't kernel) outcome option" where
  "move_region start table m w =
     then_do (memory_move_to start table clone_page m (ps_pages (fw_state w))) (\<lambda>(m, pm). Some (Return (m, set_pages pm w)))"

definition move_shared :: "(memory \<Rightarrow> usize) \<Rightarrow> frame \<Rightarrow> ref \<Rightarrow> 't kernel \<Rightarrow> 't kernel outcome option" where
  "move_shared to_start table r w =
     (let m = ps_memory (fw_state w) r
      in then_do (move_region (to_start m) table m w) (\<lambda>(m, w). Some (Return (set_memory r m w))))"

fun move_image :: "frame \<Rightarrow> ref list \<Rightarrow> 't kernel \<Rightarrow> 't kernel outcome option" where
  "move_image table [] w = Some (Return w)"
| "move_image table (r # rs) w =
     then_do (move_shared (\<lambda>m. mem_start m - USER_TMP_OFFSET + USER_OFFSET) table r w) (move_image table rs)"

definition on_pages :: "(page_mem \<Rightarrow> page_mem outcome option) \<Rightarrow> 't kernel \<Rightarrow> 't kernel outcome option" where
  "on_pages f w = then_do (f (ps_pages (fw_state w))) (\<lambda>pm. Some (Return (set_pages pm w)))"

text \<open>\<open>allocate_frame().expect(...)\<close>, \<open>InactivePageTable::new\<close>, and the mapping of the kernel.\<close>

definition new_page_table :: "'t kernel \<Rightarrow> (frame \<times> 't kernel) outcome option" where
  "new_page_table w =
     Option.bind (allocate_frame (pg_memory (ps_pages (fw_state w))))
       (\<lambda>r. case r of
          Return (Some f, mem) \<Rightarrow>
            then_do (inactive_new f clone_page ((ps_pages (fw_state w))\<lparr>pg_memory := mem\<rparr>)) (\<lambda>(table, pm).
            then_do (copy_p4 510 table pm) (\<lambda>pm. Some (Return (table, set_pages pm w))))
        | _ \<Rightarrow> Some Panic)"

text \<open>With \<open>CLONE_VM\<close> the tables of the image, the heap and the grants are shared.\<close>

definition share_user_tables :: "usize \<Rightarrow> frame \<Rightarrow> clone_parts \<Rightarrow> 't kernel \<Rightarrow> 't kernel outcome option" where
  "share_user_tables pid table parts w =
     then_do (if cp_image parts \<noteq> [] then on_pages (copy_p4 0 table) w else Some (Return w)) (\<lambda>w.
     then_do (case cp_heap parts of
                None \<Rightarrow> Some (Return w)
              | Some r \<Rightarrow> then_do (on_pages (copy_p4 1 table) w) (\<lambda>w. Some (Return (modify_context pid (\<lambda>c. c\<lparr>heap := Some r\<rparr>) w)))) (\<lambda>w.
     then_do (if ps_grants (fw_state w) (cp_grants parts) \<noteq> [] then on_pages (copy_p4 2 table) w else Some (Return w)) (\<lambda>w.
       Some (Return (modify_context pid (\<lambda>c. c\<lparr>image := cp_image parts, grants_ref := cp_grants parts\<rparr>) w)))))"

definition move_user_tables :: "nat \<Rightarrow> usize \<Rightarrow> usize \<Rightarrow> frame \<Rightarrow> clone_parts \<Rightarrow> 't kernel \<Rightarrow> 't kernel outcome option" where
  "move_user_tables cpus percpu_size pid table parts w =
     then_do (on_pages (copy_percpu percpu_size table [0..<cpus]) w) (\<lambda>w.
     then_do (move_image table (cp_image parts) w) (\<lambda>w.
       let w = modify_context pid (\<lambda>c. c\<lparr>image := cp_image parts\<rparr>) w
       in case cp_heap parts of
            None \<Rightarrow> Some (Return w)
          | Some r \<Rightarrow>
              then_do (move_shared (\<lambda>_. USER_HEAP_OFFSET) table r w) (\<lambda>w.
                Some (Return (modify_context pid (\<lambda>c. c\<lparr>heap := Some r\<rparr>) w)))))"

definition move_own :: "usize \<Rightarrow> frame \<Rightarrow> clone_parts \<Rightarrow> 't kernel \<Rightarrow> 't kernel outcome option" where
  "move_own pid table parts w =
     then_do (case cp_stack parts of
                None \<Rightarrow> Some (Return w)
              | Some m \<Rightarrow> then_do (move_region USER_STACK_OFFSET table m w) (\<lambda>(m, w). Some (Return (modify_context pid (\<lambda>c. c\<lparr>stack := Some m\<rparr>) w)))) (\<lambda>w.
       case cp_tls parts of
         None \<Rightarrow> Some (Return w)
       | Some t \<Rightarrow> then_do (move_region USER_TLS_OFFSET table (tls_mem t) w) (\<lambda>(m, w).
           Some (Return (modify_context pid (\<lambda>c. c\<lparr>tls_of := Some (t\<lparr>tls_mem := m\<rparr>)\<rparr>) w))))"

section \<open>clone\<close>

text \<open>The fields of the new context that come from the parent \<open>c\<close>, and those that were prepared.\<close>

definition inherit :: "usize \<Rightarrow> ctx \<Rightarrow> bool \<Rightarrow> ctx \<Rightarrow> ctx" where
  "inherit flags c was_vfork child =
     child\<lparr>ppid := ctx_id c, ruid := ruid c, rgid := rgid c, rns := rns c, euid := euid c, egid := egid c, ens := ens c,
       cpu_id := (if has_flag flags CLONE_VM then cpu_id c else None), status := Runnable, vfork := was_vfork\<rparr>"

definition adopt :: "clone_parts \<Rightarrow> ctx \<Rightarrow> ctx" where
  "adopt parts child =
     child\<lparr>name_ref := cp_name parts, cwd_ref := cp_cwd parts, env_ref := cp_env parts, files_ref := cp_files parts\<rparr>"

text \<open>\<open>Context::new\<close> allocates the objects that a context refers to.\<close>

definition new_objects :: "ref \<Rightarrow> 't kernel \<Rightarrow> 't kernel" where
  "new_objects r w =
     w\<lparr>ew_queues := (ew_queues w)(r := new_queue), fw_files := (fw_files w)(r := []), fw_cwds := (fw_cwds w)(r := []),
       fw_state := (fw_state w)\<lparr>ps_waitpid := (ps_waitpid (fw_state w))(r := new_wait_map), ps_grants := (ps_grants (fw_state w))(r := []),
         ps_names := (ps_names (fw_state w))(r := []), ps_envs := (ps_envs (fw_state w))(r := bt_empty)\<rparr>\<rparr>"

definition clone_setup :: "nat \<Rightarrow> usize \<Rightarrow> usize \<Rightarrow> ctx \<Rightarrow> bool \<Rightarrow> clone_parts \<Rightarrow> usize \<Rightarrow> 't kernel \<Rightarrow> 't kernel outcome option" where
  "clone_setup cpus percpu_size flags c was_vfork parts pid w =
     then_do (new_page_table (modify_context pid (inherit flags c was_vfork) w)) (\<lambda>(table, w).
       let w = w\<lparr>fw_state := (fw_state w)\<lparr>ps_page_table := (ps_page_table (fw_state w))(pid := inactive_address table)\<rparr>\<rparr>;
           w = modify_context pid (\<lambda>d. d\<lparr>kfx := (case cp_kfx parts of None \<Rightarrow> kfx d | Some fx \<Rightarrow> Some fx),
                 kstack := (case cp_kstack parts of None \<Rightarrow> kstack d | Some s \<Rightarrow> Some s)\<rparr>) w
       in then_do (if has_flag flags CLONE_VM then share_user_tables pid table parts w
                   else move_user_tables cpus percpu_size pid table parts w) (\<lambda>w.
          then_do (move_own pid table parts w) (\<lambda>w. Some (Return (modify_context pid (adopt parts) w)))))"

text \<open>What was prepared is dropped when the call ends with an error.\<close>

definition clone_abort :: "clone_parts \<Rightarrow> 't kernel \<Rightarrow> 't kernel outcome option" where
  "clone_abort parts w =
     then_do (drop_own (map_option tls_mem (cp_tls parts)) w) (\<lambda>w.
     then_do (drop_own (cp_stack parts) w) (\<lambda>w.
     then_do (drop_shared (case cp_heap parts of None \<Rightarrow> [] | Some r \<Rightarrow> [r]) w)
       (drop_shared (cp_image parts))))"

definition clone_fail :: "error \<Rightarrow> clone_parts \<Rightarrow> 't process \<Rightarrow> (usize result attempt \<times> 't process) option" where
  "clone_fail e parts p =
     map_option (\<lambda>r. case r of Panic \<Rightarrow> (Crashes, p) | Return w \<Rightarrow> (Returned (Err e), (w, snd p))) (clone_abort parts (fst p))"

text \<open>If vfork, block the current process; then set up the new process.\<close>

definition clone_finish :: "nat \<Rightarrow> usize \<Rightarrow> usize \<Rightarrow> ctx \<Rightarrow> clone_parts \<Rightarrow> 't process \<Rightarrow> (usize result attempt \<times> 't process) option" where
  "clone_finish cpus percpu_size flags c parts p =
     (let was_vfork = has_flag flags CLONE_VFORK
      in if was_vfork \<and> current_context (fst p) = None then clone_fail (Error ESRCH) parts p
         else
           let w = (if was_vfork then modify_context (ew_current (fst p)) (\<lambda>c. fst (block c)) (fst p) else fst p);
               (r, w) = fresh_ref w
           in case new_context r (ew_contexts w) of
                None \<Rightarrow> None
              | Some Panic \<Rightarrow> Some (Crashes, p)
              | Some (Return (Err e, l)) \<Rightarrow> clone_fail e parts (w\<lparr>ew_contexts := l\<rparr>, snd p)
              | Some (Return (Ok pid, l)) \<Rightarrow>
                  map_option (\<lambda>r. case r of Panic \<Rightarrow> (Crashes, p) | Return w \<Rightarrow> (Returned (Ok pid), (w, snd p)))
                    (clone_setup cpus percpu_size flags c was_vfork parts pid (new_objects r (w\<lparr>ew_contexts := l\<rparr>))))"

text \<open>
  \<open>clone\<close> up to the \<open>context::switch\<close> before it returns. \<open>stack_ptr\<close> is where the kernel stack of the caller lies,
  \<open>clone_ret\<close> the address of that routine.
\<close>

definition clone_call ::
    "'t proc_state impl \<Rightarrow> nat \<Rightarrow> usize \<Rightarrow> usize \<Rightarrow> usize \<Rightarrow> usize \<Rightarrow> usize \<Rightarrow> 't process \<Rightarrow> (usize result attempt \<times> 't process) option" where
  "clone_call impl cpus percpu_size stack_ptr clone_ret flags stack_base p =
     (case current_context (fst p) of
        None \<Rightarrow> Some (Returned (Err (Error ESRCH)), p)
      | Some c \<Rightarrow>
          (case clone_copy flags stack_base stack_ptr clone_ret c p of
             None \<Rightarrow> None
           | Some Panic \<Rightarrow> Some (Crashes, p)
           | Some (Return (parts, p)) \<Rightarrow>
               (case (if flags AND CLONE_FILES = 0 then plain (clone_files impl (cp_files parts) 0 (fw_files (fst p) (cp_files parts))) p
                      else (Returned (Ok ()), p)) of
                  (Waits, p) \<Rightarrow> Some (Waits, p)
                | (Crashes, p) \<Rightarrow> Some (Crashes, p)
                | (Returned (Err e), p) \<Rightarrow> clone_fail e parts p
                | (Returned (Ok _), p) \<Rightarrow> clone_finish cpus percpu_size flags c parts p)))"

section \<open>What copying changes\<close>

text \<open>Copying allocates objects, and changes no context.\<close>

definition grows :: "'t kernel \<Rightarrow> 't kernel \<Rightarrow> bool" where
  "grows w w' \<longleftrightarrow> ew_contexts w' = ew_contexts w \<and> ew_current w' = ew_current w \<and> ps_next_ref (fw_state w) \<le> ps_next_ref (fw_state w')"

lemma grows_refl [simp]: "grows w w"
  by (simp add: grows_def)

lemma grows_trans: "grows w w1 \<Longrightarrow> grows w1 w2 \<Longrightarrow> grows w w2"
  by (auto simp: grows_def)

lemma grows_steps [simp]: "grows w (set_pages pm w)" "grows w (snd (fresh_ref w))" "grows w (set_memory r m w)" "grows w (set_grants r gs w)"
  by (simp_all add: grows_def fresh_ref_def set_memory_def set_grants_def set_pages_def)

definition fresh_for :: "'t kernel \<Rightarrow> ref \<Rightarrow> bool" where
  "fresh_for w r \<longleftrightarrow> ps_next_ref (fw_state w) \<le> r"

lemma fresh_for_grows: "grows w w' \<Longrightarrow> fresh_for w' r \<Longrightarrow> fresh_for w r"
  by (auto simp: grows_def fresh_for_def)

lemma fresh_ref_fresh: "fresh_ref w = (r, w') \<Longrightarrow> fresh_for w r \<and> grows w w'"
  by (auto simp: fresh_ref_def fresh_for_def grows_def)

lemma copy_region_grows:
  assumes "copy_region at clear m src n p = Some (Return (m', p'))"
  shows "grows (fst p) (fst p')"
proof -
  obtain m1 pm1 q where "remap_region (mem_flags m) m1 q = Some (Return (m', p'))" "fst q = set_pages pm1 (fst p)"
    using assms by (auto simp: copy_region_def then_do_Return Let_def copy_bytes_def)
  moreover obtain pm2 where "fst p' = set_pages pm2 (fst q)"
    by (rule remap_region_Return[OF calculation(1)])
  ultimately show ?thesis
    by (simp add: grows_def set_pages_def)
qed

lemma share_fresh: "share m p = (r, p') \<Longrightarrow> fresh_for (fst p) r \<and> grows (fst p) (fst p')"
  by (auto simp: share_def fresh_ref_def fresh_for_def grows_def set_memory_def)

lemma copy_image_fresh:
  assumes "copy_image rs p = Some (Return (rs', p'))"
  shows "grows (fst p) (fst p') \<and> (\<forall>r \<in> set rs'. fresh_for (fst p) r)"
  using assms
proof (induction rs arbitrary: p rs')
  case (Cons r rs)
  let ?m = "ps_memory (fw_state (fst p)) r"
  obtain m' p1 where 1: "copy_region (mem_start ?m + USER_TMP_OFFSET) False ?m (mem_start ?m) (mem_size ?m) p = Some (Return (m', p1))"
    and k: "(let (r', p) = share m' p1 in then_do (copy_image rs p) (\<lambda>(rs', p). Some (Return (r' # rs', p)))) = Some (Return (rs', p'))"
    using Cons.prems by (auto simp: Let_def then_do_Return)
  obtain r' p2 where 2: "share m' p1 = (r', p2)"
    by (rule prod.exhaust)
  then obtain rs2 where 3: "copy_image rs p2 = Some (Return (rs2, p'))" "rs' = r' # rs2"
    using k by (auto simp: then_do_Return)
  have g: "grows (fst p) (fst p1)" "fresh_for (fst p1) r'" "grows (fst p1) (fst p2)"
    using copy_region_grows[OF 1] share_fresh[OF 2] by auto
  then have "grows (fst p) (fst p2)"
    by (blast intro: grows_trans)
  then show ?case
    using Cons.IH[OF 3(1)] g 3(2) by (auto intro: grows_trans fresh_for_grows)
qed simp

lemma copy_heap_fresh:
  assumes "copy_heap h p = Some (Return (h', p'))"
  shows "grows (fst p) (fst p') \<and> (\<forall>r. h' = Some r \<longrightarrow> fresh_for (fst p) r)"
proof (cases h)
  case (Some r)
  let ?m = "ps_memory (fw_state (fst p)) r"
  obtain m' p1 where 1: "copy_region USER_TMP_HEAP_OFFSET False ?m (mem_start ?m) (mem_size ?m) p = Some (Return (m', p1))"
    and "h' = Some (fst (share m' p1))" "p' = snd (share m' p1)"
    using assms Some by (auto simp: copy_heap_def Let_def then_do_Return split_beta)
  then obtain r' where 2: "share m' p1 = (r', p')" "h' = Some r'"
    by (metis prod.collapse)
  show ?thesis
    using copy_region_grows[OF 1] share_fresh[OF 2(1)] 2(2) by (auto intro: grows_trans fresh_for_grows)
qed (use assms in \<open>auto simp: copy_heap_def\<close>)

lemma copy_stack_grows: "copy_stack s p = Some (Return (s', p')) \<Longrightarrow> grows (fst p) (fst p')"
  by (cases s) (auto simp: copy_stack_def then_do_Return dest!: copy_region_grows)

lemma copy_tls_grows: "copy_tls t p = Some (Return (t', p')) \<Longrightarrow> grows (fst p) (fst p')"
  by (cases t) (auto simp: copy_tls_def then_do_Return dest!: copy_region_grows)

lemma copy_memory_fresh:
  assumes "copy_memory flags c p = Some (Return ((image', heap', s, t), p'))"
  shows "grows (fst p) (fst p')" "has_flag flags CLONE_VM \<Longrightarrow> image' = image c \<and> heap' = heap c"
    "\<not> has_flag flags CLONE_VM \<Longrightarrow> (\<forall>r \<in> set image'. fresh_for (fst p) r) \<and> (\<forall>r. heap' = Some r \<longrightarrow> fresh_for (fst p) r)"
proof -
  define start where "start = (if has_flag flags CLONE_VM then Some (Return ((image c, heap c), p))
    else then_do (copy_image (image c) p) (\<lambda>(image, p). then_do (copy_heap (heap c) p) (\<lambda>(heap, p). Some (Return ((image, heap), p)))))"
  obtain p1 p2 where s: "start = Some (Return ((image', heap'), p1))" "copy_stack (stack c) p1 = Some (Return (s, p2))"
    "copy_tls (tls_of c) p2 = Some (Return (t, p'))"
    using assms unfolding copy_memory_def start_def[symmetric] by (auto simp: then_do_Return)
  have 1: "grows (fst p) (fst p1) \<and> (if has_flag flags CLONE_VM then image' = image c \<and> heap' = heap c
      else (\<forall>r \<in> set image'. fresh_for (fst p) r) \<and> (\<forall>r. heap' = Some r \<longrightarrow> fresh_for (fst p) r))"
  proof (cases "has_flag flags CLONE_VM")
    case False
    then obtain q where "copy_image (image c) p = Some (Return (image', q))" "copy_heap (heap c) q = Some (Return (heap', p1))"
      using s(1) by (auto simp: start_def then_do_Return)
    then show ?thesis
      using copy_image_fresh[of "image c" p image' q] copy_heap_fresh[of "heap c" q heap' p1] False
      by (auto intro: grows_trans fresh_for_grows[of "fst p" "fst q"])
  qed (use s(1) in \<open>auto simp: start_def\<close>)
  then show "has_flag flags CLONE_VM \<Longrightarrow> image' = image c \<and> heap' = heap c"
    "\<not> has_flag flags CLONE_VM \<Longrightarrow> (\<forall>r \<in> set image'. fresh_for (fst p) r) \<and> (\<forall>r. heap' = Some r \<longrightarrow> fresh_for (fst p) r)"
    by (simp_all split: if_splits)
  show "grows (fst p) (fst p')"
    using 1 copy_stack_grows[OF s(2)] copy_tls_grows[OF s(3)] by (blast intro: grows_trans)
qed

lemma copy_env_grows: "copy_env items env w = (env', w') \<Longrightarrow> grows w w'"
proof (induction items env w rule: copy_env.induct)
  case (2 name r items new_env w)
  let ?w = "snd (fresh_ref w)" and ?r = "fst (fresh_ref w)"
  have "copy_env items (bt_insert name ?r new_env) (?w\<lparr>fw_state := (fw_state ?w)\<lparr>ps_cells := (ps_cells (fw_state ?w))(?r := ps_cells (fw_state ?w) r)\<rparr>\<rparr>) = (env', w')"
    using "2.prems" by (simp add: split_beta Let_def)
  then have "grows (?w\<lparr>fw_state := (fw_state ?w)\<lparr>ps_cells := (ps_cells (fw_state ?w))(?r := ps_cells (fw_state ?w) r)\<rparr>\<rparr>) w'"
    using "2.IH"[of "fresh_ref w" ?r ?w] by simp
  then show ?case
    by (simp add: grows_def fresh_ref_def)
qed simp

text \<open>An object is shared if the flag is set, and new otherwise.\<close>

definition shared_or_new :: "bool \<Rightarrow> 't kernel \<Rightarrow> ref \<Rightarrow> ref \<Rightarrow> bool" where
  "shared_or_new sh w old r \<longleftrightarrow> (if sh then r = old else fresh_for w r)"

lemma shared_or_new_grows: "grows w w' \<Longrightarrow> shared_or_new sh w' old r \<Longrightarrow> shared_or_new sh w old r"
  by (auto simp: shared_or_new_def intro: fresh_for_grows split: if_splits)

lemma copy_object:
  "copy_grants sh c w = (r, w') \<Longrightarrow> grows w w' \<and> shared_or_new sh w (grants_ref c) r"
  "copy_name sh c w = (r, w') \<Longrightarrow> grows w w' \<and> shared_or_new sh w (name_ref c) r"
  "copy_cwd sh c w = (r, w') \<Longrightarrow> grows w w' \<and> shared_or_new sh w (cwd_ref c) r"
  "copy_files sh c w = (r, w') \<Longrightarrow> grows w w' \<and> shared_or_new sh w (files_ref c) r"
  by (auto simp: copy_grants_def copy_name_def copy_cwd_def copy_files_def fresh_ref_def shared_or_new_def fresh_for_def grows_def set_grants_def set_files_def
      split: if_splits)

lemma copy_environment_object: "copy_environment sh c w = (r, w') \<Longrightarrow> grows w w' \<and> shared_or_new sh w (env_ref c) r"
proof (cases sh)
  case False
  assume e: "copy_environment sh c w = (r, w')"
  obtain env w1 where 1: "copy_env (ps_envs (fw_state w) (env_ref c)) bt_empty w = (env, w1)"
    by (rule prod.exhaust)
  have "grows w1 w'" "fresh_for w1 r"
    using e False 1 by (auto simp: copy_environment_def fresh_ref_def grows_def fresh_for_def)
  then show ?thesis
    using copy_env_grows[OF 1] False by (auto simp: shared_or_new_def intro: grows_trans fresh_for_grows)
qed (auto simp: copy_environment_def shared_or_new_def)

lemma copy_objects_spec:
  assumes "copy_objects flags c w = ((grants, name, cwd, env, files), w')"
  shows "grows w w'" "shared_or_new (has_flag flags CLONE_VM) w (grants_ref c) grants" "shared_or_new (has_flag flags CLONE_VM) w (name_ref c) name"
    "shared_or_new (has_flag flags CLONE_FS) w (cwd_ref c) cwd" "shared_or_new (has_flag flags CLONE_VM) w (env_ref c) env"
    "shared_or_new (has_flag flags CLONE_FILES) w (files_ref c) files"
proof -
  obtain w1 w2 w3 w4 where s: "copy_grants (has_flag flags CLONE_VM) c w = (grants, w1)" "copy_name (has_flag flags CLONE_VM) c w1 = (name, w2)"
    "copy_cwd (has_flag flags CLONE_FS) c w2 = (cwd, w3)" "copy_environment (has_flag flags CLONE_VM) c w3 = (env, w4)"
    "copy_files (has_flag flags CLONE_FILES) c w4 = (files, w')"
    using assms unfolding copy_objects_def Let_def by (auto simp del: CLONE_VM_def CLONE_FS_def CLONE_FILES_def split: prod.splits)
  note o = copy_object(1)[OF s(1)] copy_object(2)[OF s(2)] copy_object(3)[OF s(3)] copy_environment_object[OF s(4)] copy_object(4)[OF s(5)]
  have g: "grows w w1" "grows w w2" "grows w w3" "grows w w4"
    using o by (blast intro: grows_trans)+
  show "grows w w'"
    using o g by (blast intro: grows_trans)
  show "shared_or_new (has_flag flags CLONE_VM) w (grants_ref c) grants" "shared_or_new (has_flag flags CLONE_VM) w (name_ref c) name"
    "shared_or_new (has_flag flags CLONE_FS) w (cwd_ref c) cwd" "shared_or_new (has_flag flags CLONE_VM) w (env_ref c) env"
    "shared_or_new (has_flag flags CLONE_FILES) w (files_ref c) files"
    using o g by (blast intro: shared_or_new_grows)+
qed

text \<open>What the parts of a new context are, for a parent \<open>c\<close> in the state \<open>w\<close>.\<close>

definition parts_ok :: "usize \<Rightarrow> ctx \<Rightarrow> 't kernel \<Rightarrow> clone_parts \<Rightarrow> bool" where
  "parts_ok flags c w parts \<longleftrightarrow>
     (if has_flag flags CLONE_VM then cp_image parts = image c \<and> cp_heap parts = heap c
      else (\<forall>r \<in> set (cp_image parts). fresh_for w r) \<and> (\<forall>r. cp_heap parts = Some r \<longrightarrow> fresh_for w r)) \<and>
     shared_or_new (has_flag flags CLONE_VM) w (grants_ref c) (cp_grants parts) \<and> shared_or_new (has_flag flags CLONE_VM) w (name_ref c) (cp_name parts) \<and>
     shared_or_new (has_flag flags CLONE_VM) w (env_ref c) (cp_env parts) \<and> shared_or_new (has_flag flags CLONE_FS) w (cwd_ref c) (cp_cwd parts) \<and>
     shared_or_new (has_flag flags CLONE_FILES) w (files_ref c) (cp_files parts)"

lemma clone_copy_parts:
  assumes "clone_copy flags stack_base stack_ptr clone_ret c p = Some (Return (parts, p'))"
  shows "grows (fst p) (fst p')" "parts_ok flags c (fst p) parts"
proof -
  obtain image' heap' s t p1 where m: "copy_memory flags c p = Some (Return ((image', heap', s, t), p1))"
    and k: "(let ((grants, name, cwd, env, files), w) = copy_objects flags c (fst p1)
       in Some (Return (\<lparr>cp_kfx = kfx c, cp_kstack = map_option (clone_kstack stack_base stack_ptr clone_ret) (kstack c),
              cp_image = image', cp_heap = heap', cp_stack = s, cp_tls = t, cp_grants = grants, cp_name = name,
              cp_cwd = cwd, cp_env = env, cp_files = files\<rparr>, (w, snd p1)))) = Some (Return (parts, p'))"
    using assms by (auto simp: clone_copy_def then_do_Return)
  obtain grants name cwd env files w where o: "copy_objects flags c (fst p1) = ((grants, name, cwd, env, files), w)"
    by (metis prod.collapse)
  note M = copy_memory_fresh[OF m] and O = copy_objects_spec[OF o]
  have parts: "parts = \<lparr>cp_kfx = kfx c, cp_kstack = map_option (clone_kstack stack_base stack_ptr clone_ret) (kstack c),
      cp_image = image', cp_heap = heap', cp_stack = s, cp_tls = t, cp_grants = grants, cp_name = name, cp_cwd = cwd, cp_env = env, cp_files = files\<rparr>" "fst p' = w"
    using k o by auto
  show "grows (fst p) (fst p')"
    unfolding parts(2) using M(1) O(1) by (rule grows_trans)
  show "parts_ok flags c (fst p) parts"
    unfolding parts_ok_def parts using M(2,3) O(2-6) shared_or_new_grows[OF M(1)] by (simp del: CLONE_VM_def CLONE_FS_def CLONE_FILES_def)
qed

context process_schemes
begin

lemma clone_file_quiet: "\<exists>r w'. clone_file impl f w = (Returned r, w') \<and> quiet w w'"
proof (cases f)
  case (Some k)
  show ?thesis
  proof (cases "get_scheme (fw_schemes w) (f_scheme k)")
    case (Some s)
    then show ?thesis
      using \<open>f = Some k\<close> dup_quiet[of s "f_number k" "bytes_of ''clone''" w] by (auto simp: clone_file_def then_attempt_def)
  qed (use Some in \<open>simp add: clone_file_def\<close>)
qed (simp add: clone_file_def)

lemma clone_files_people:
  "\<exists>r w'. clone_files impl t n fs w = (Returned r, w') \<and> same_contexts (ew_contexts w) (ew_contexts w') \<and> ew_current w' = ew_current w \<and>
     ps_next_ref (fw_state w') = ps_next_ref (fw_state w) \<and> (\<forall>e. r = Err e \<longrightarrow> e = Error EBADF)"
proof (induction fs arbitrary: n w)
  case (Cons f fs)
  obtain r w1 where 1: "clone_file impl f w = (Returned r, w1)" "quiet w w1"
    using clone_file_quiet by blast
  have e: "e = Error EBADF" if "r = Err e" for e
    using 1(1) that by (auto simp: clone_file_def then_attempt_def split: option.splits prod.splits attempt.splits)
  show ?case
  proof (cases r)
    case (Ok f')
    let ?w = "set_files t ((fw_files w1 t)[n := f']) w1"
    obtain r2 w2 where 2: "clone_files impl t (Suc n) fs ?w = (Returned r2, w2)" "same_contexts (ew_contexts ?w) (ew_contexts w2)"
      "ew_current w2 = ew_current ?w" "ps_next_ref (fw_state w2) = ps_next_ref (fw_state ?w)" "\<forall>e. r2 = Err e \<longrightarrow> e = Error EBADF"
      using Cons.IH[of "Suc n" ?w] by blast
    have "clone_files impl t n (f # fs) w = (Returned r2, w2)"
      using 1(1) 2(1) Ok by (simp add: then_ok_def then_attempt_def)
    moreover have "same_contexts (ew_contexts w) (ew_contexts w2)" "ew_current w2 = ew_current w" "ps_next_ref (fw_state w2) = ps_next_ref (fw_state w)"
      using 1(2) 2 by (auto simp: quiet_def same_contexts_def set_files_def)
    ultimately show ?thesis
      using 2(5) by blast
  next
    case (Err x)
    then have "clone_files impl t n (f # fs) w = (Returned (Err x), w1)"
      using 1(1) by (simp add: then_ok_def then_attempt_def)
    then show ?thesis
      using 1(2) e[OF Err] by (auto simp: quiet_def)
  qed
qed simp

end

section \<open>What setting up the new context changes\<close>

lemma new_page_table_pages:
  assumes "new_page_table w = Some (Return (table, w'))"
  shows "\<exists>pm. w' = set_pages pm w"
proof -
  obtain r where r: "allocate_frame (pg_memory (ps_pages (fw_state w))) = Some r"
    using assms by (cases "allocate_frame (pg_memory (ps_pages (fw_state w)))") (auto simp: new_page_table_def)
  then obtain f mem where "r = Return (Some f, mem)"
    using assms by (cases r) (auto simp: new_page_table_def split: prod.splits option.splits)
  then show ?thesis
    using assms r by (auto simp: new_page_table_def then_do_Return)
qed

lemma on_pages_pages: "on_pages f w = Some (Return w') \<Longrightarrow> \<exists>pm. w' = set_pages pm w"
  by (auto simp: on_pages_def then_do_Return)

lemma move_region_pages: "move_region start table m w = Some (Return (m', w')) \<Longrightarrow> \<exists>pm. w' = set_pages pm w"
  by (auto simp: move_region_def then_do_Return)

lemma move_shared_contexts: "move_shared f table r w = Some (Return w') \<Longrightarrow> ew_contexts w' = ew_contexts w"
  by (auto simp: move_shared_def Let_def then_do_Return set_memory_def dest!: move_region_pages)

lemma move_shared_current: "move_shared f table r w = Some (Return w') \<Longrightarrow> ew_current w' = ew_current w"
  by (auto simp: move_shared_def Let_def then_do_Return set_memory_def set_pages_def dest!: move_region_pages)

lemma move_image_contexts: "move_image table rs w = Some (Return w') \<Longrightarrow> ew_contexts w' = ew_contexts w"
proof (induction rs arbitrary: w)
  case (Cons r rs)
  then obtain w1 where "move_shared (\<lambda>m. mem_start m - USER_TMP_OFFSET + USER_OFFSET) table r w = Some (Return w1)" "move_image table rs w1 = Some (Return w')"
    by (auto simp: then_do_Return)
  then show ?case
    using Cons.IH move_shared_contexts by fastforce
qed simp

lemma share_user_tables_contexts:
  assumes "share_user_tables pid table parts w = Some (Return w')"
  shows "ew_contexts w' = set_context (ew_contexts w) pid (\<lambda>d. d\<lparr>heap := (case cp_heap parts of None \<Rightarrow> heap d | Some r \<Rightarrow> Some r),
    image := cp_image parts, grants_ref := cp_grants parts\<rparr>)"
proof -
  define a where "a = (if cp_image parts \<noteq> [] then on_pages (copy_p4 0 table) w else Some (Return w))"
  obtain w1 w2 w3 where s: "a = Some (Return w1)"
    "(case cp_heap parts of None \<Rightarrow> Some (Return w1)
      | Some r \<Rightarrow> then_do (on_pages (copy_p4 1 table) w1) (\<lambda>w. Some (Return (modify_context pid (\<lambda>c. c\<lparr>heap := Some r\<rparr>) w)))) = Some (Return w2)"
    "(if ps_grants (fw_state w2) (cp_grants parts) \<noteq> [] then on_pages (copy_p4 2 table) w2 else Some (Return w2)) = Some (Return w3)"
    "w' = modify_context pid (\<lambda>c. c\<lparr>image := cp_image parts, grants_ref := cp_grants parts\<rparr>) w3"
    using assms unfolding share_user_tables_def a_def[symmetric] by (auto simp: then_do_Return)
  have 1: "ew_contexts w1 = ew_contexts w"
    using s(1) on_pages_pages[of "copy_p4 0 table" w w1] by (auto simp: a_def split: if_splits)
  have 3: "ew_contexts w3 = ew_contexts w2"
    using s(3) on_pages_pages[of "copy_p4 2 table" w2 w3] by (auto split: if_splits)
  have 2: "ew_contexts w2 = set_context (ew_contexts w1) pid (\<lambda>d. d\<lparr>heap := (case cp_heap parts of None \<Rightarrow> heap d | Some r \<Rightarrow> Some r)\<rparr>)"
  proof (cases "cp_heap parts")
    case None
    have "bt_modify pid (\<lambda>d. d) m = m" for m :: "(usize, ctx) btree_map"
      by (induction m) auto
    then show ?thesis
      using s(2) None by (simp add: set_context_def)
  next
    case (Some r)
    then show ?thesis
      using s(2) by (auto simp: then_do_Return dest!: on_pages_pages)
  qed
  show ?thesis
    by (simp add: s(4) 3 2 1 set_context_def bt_modify_modify)
qed

lemma move_user_tables_contexts:
  assumes "move_user_tables cpus percpu_size pid table parts w = Some (Return w')"
  shows "ew_contexts w' = set_context (ew_contexts w) pid (\<lambda>d. d\<lparr>image := cp_image parts, heap := (case cp_heap parts of None \<Rightarrow> heap d | Some r \<Rightarrow> Some r)\<rparr>)"
proof -
  obtain w1 w2 where s: "on_pages (copy_percpu percpu_size table [0..<cpus]) w = Some (Return w1)" "move_image table (cp_image parts) w1 = Some (Return w2)"
    and h: "(case cp_heap parts of
            None \<Rightarrow> Some (Return (modify_context pid (\<lambda>c. c\<lparr>image := cp_image parts\<rparr>) w2))
          | Some r \<Rightarrow>
              then_do (move_shared (\<lambda>_. USER_HEAP_OFFSET) table r (modify_context pid (\<lambda>c. c\<lparr>image := cp_image parts\<rparr>) w2)) (\<lambda>w.
                Some (Return (modify_context pid (\<lambda>c. c\<lparr>heap := Some r\<rparr>) w)))) = Some (Return w')"
    using assms by (auto simp: move_user_tables_def then_do_Return Let_def)
  have c: "ew_contexts w2 = ew_contexts w"
    using on_pages_pages[OF s(1)] move_image_contexts[OF s(2)] by auto
  show ?thesis
  proof (cases "cp_heap parts")
    case (Some r)
    then obtain w3 where "move_shared (\<lambda>_. USER_HEAP_OFFSET) table r (modify_context pid (\<lambda>c. c\<lparr>image := cp_image parts\<rparr>) w2) = Some (Return w3)"
      "w' = modify_context pid (\<lambda>c. c\<lparr>heap := Some r\<rparr>) w3"
      using h by (auto simp: then_do_Return)
    then show ?thesis
      using c Some by (simp add: move_shared_contexts set_context_def bt_modify_modify)
  qed (use h c in \<open>auto simp: set_context_def\<close>)
qed

lemma move_own_contexts:
  assumes "move_own pid table parts w = Some (Return w')"
  shows "\<exists>f. ew_contexts w' = set_context (ew_contexts w) pid f \<and> (\<forall>d. \<exists>s t. f d = d\<lparr>stack := s, tls_of := t\<rparr>)"
proof -
  obtain w1 where s: "(case cp_stack parts of
                None \<Rightarrow> Some (Return w)
              | Some m \<Rightarrow> then_do (move_region USER_STACK_OFFSET table m w) (\<lambda>(m, w). Some (Return (modify_context pid (\<lambda>c. c\<lparr>stack := Some m\<rparr>) w)))) = Some (Return w1)"
    and t: "(case cp_tls parts of
         None \<Rightarrow> Some (Return w1)
       | Some t \<Rightarrow> then_do (move_region USER_TLS_OFFSET table (tls_mem t) w1) (\<lambda>(m, w).
           Some (Return (modify_context pid (\<lambda>c. c\<lparr>tls_of := Some (t\<lparr>tls_mem := m\<rparr>)\<rparr>) w)))) = Some (Return w')"
    using assms by (auto simp: move_own_def then_do_Return)
  have same: "\<exists>s. d = d\<lparr>stack := s\<rparr>" "\<exists>t. d = d\<lparr>tls_of := t\<rparr>" for d :: ctx
    by (rule exI[of _ "stack d"], simp, rule exI[of _ "tls_of d"], simp)
  have id: "set_context l pid (\<lambda>d. d) = l" for l
  proof -
    have "bt_modify pid (\<lambda>d. d) m = m" for m :: "(usize, ctx) btree_map"
      by (induction m) auto
    then show ?thesis
      by (simp add: set_context_def)
  qed
  have "\<exists>f. ew_contexts w1 = set_context (ew_contexts w) pid f \<and> (\<forall>d. \<exists>s. f d = d\<lparr>stack := s\<rparr>)"
  proof (cases "cp_stack parts")
    case None
    then show ?thesis
      using s id by (intro exI[of _ "\<lambda>d. d"]) (auto intro: same)
  next
    case (Some m)
    then show ?thesis
      using s by (auto simp: then_do_Return dest!: move_region_pages)
  qed
  then obtain f where f: "ew_contexts w1 = set_context (ew_contexts w) pid f" "\<forall>d. \<exists>s. f d = d\<lparr>stack := s\<rparr>"
    by blast
  have "\<exists>g. ew_contexts w' = set_context (ew_contexts w1) pid g \<and> (\<forall>d. \<exists>t. g d = d\<lparr>tls_of := t\<rparr>)"
  proof (cases "cp_tls parts")
    case None
    then show ?thesis
      using t id by (intro exI[of _ "\<lambda>d. d"]) (auto intro: same)
  next
    case (Some m)
    then show ?thesis
      using t by (auto simp: then_do_Return dest!: move_region_pages)
  qed
  then obtain g where g: "ew_contexts w' = set_context (ew_contexts w1) pid g" "\<forall>d. \<exists>t. g d = d\<lparr>tls_of := t\<rparr>"
    by blast
  have "ew_contexts w' = set_context (ew_contexts w) pid (\<lambda>d. g (f d))"
    by (simp add: g(1) f(1) set_context_def bt_modify_modify)
  moreover have "\<exists>s t. g (f d) = d\<lparr>stack := s, tls_of := t\<rparr>" for d
    using f(2)[rule_format, of d] g(2)[rule_format, of "f d"] by metis
  ultimately show ?thesis
    by blast
qed

lemma move_image_current: "move_image table rs w = Some (Return w') \<Longrightarrow> ew_current w' = ew_current w"
proof (induction rs arbitrary: w)
  case (Cons r rs)
  then obtain w1 where "move_shared (\<lambda>m. mem_start m - USER_TMP_OFFSET + USER_OFFSET) table r w = Some (Return w1)" "move_image table rs w1 = Some (Return w')"
    by (auto simp: then_do_Return)
  then show ?case
    using Cons.IH move_shared_current by fastforce
qed simp

lemma share_user_tables_current: "share_user_tables pid table parts w = Some (Return w') \<Longrightarrow> ew_current w' = ew_current w"
  by (auto simp: share_user_tables_def then_do_Return set_pages_def dest!: on_pages_pages split: if_splits option.splits)

lemma move_user_tables_current: "move_user_tables cpus percpu_size pid table parts w = Some (Return w') \<Longrightarrow> ew_current w' = ew_current w"
  by (auto simp: move_user_tables_def then_do_Return Let_def set_pages_def dest!: on_pages_pages move_image_current move_shared_current split: option.splits)

lemma move_own_current: "move_own pid table parts w = Some (Return w') \<Longrightarrow> ew_current w' = ew_current w"
  by (auto simp: move_own_def then_do_Return set_pages_def dest!: move_region_pages split: option.splits)

lemma clone_setup_current:
  assumes "clone_setup cpus percpu_size flags c v parts pid w = Some (Return w')"
  shows "ew_current w' = ew_current w"
  using assms new_page_table_pages[of "modify_context pid (inherit flags c v) w"]
  by (auto simp: clone_setup_def then_do_Return Let_def set_pages_def dest!: share_user_tables_current move_user_tables_current move_own_current split: if_splits)

lemma clone_setup_child:
  assumes "clone_setup cpus percpu_size flags c v parts pid w = Some (Return w')" "get_context (ew_contexts w) pid = Some (new_ctx r pid)"
  obtains d where "get_context (ew_contexts w') pid = Some d" "\<forall>i. i \<noteq> pid \<longrightarrow> get_context (ew_contexts w') i = get_context (ew_contexts w) i"
    "credentials d = (pid, ctx_id c, ruid c, rgid c, rns c, ens c, euid c, egid c)" "status d = Runnable" "vfork d = v"
    "image d = cp_image parts" "heap d = cp_heap parts" "grants_ref d = (if has_flag flags CLONE_VM then cp_grants parts else r)"
    "name_ref d = cp_name parts" "cwd_ref d = cp_cwd parts" "env_ref d = cp_env parts" "files_ref d = cp_files parts" "waitpid_ref d = r"
proof -
  let ?k = "\<lambda>d. d\<lparr>kfx := (case cp_kfx parts of None \<Rightarrow> kfx d | Some fx \<Rightarrow> Some fx), kstack := (case cp_kstack parts of None \<Rightarrow> kstack d | Some s \<Rightarrow> Some s)\<rparr>"
  obtain table w1 where 1: "new_page_table (modify_context pid (inherit flags c v) w) = Some (Return (table, w1))"
    and k: "(let w = w1\<lparr>fw_state := (fw_state w1)\<lparr>ps_page_table := (ps_page_table (fw_state w1))(pid := inactive_address table)\<rparr>\<rparr>;
           w = modify_context pid ?k w
       in then_do (if has_flag flags CLONE_VM then share_user_tables pid table parts w
                   else move_user_tables cpus percpu_size pid table parts w) (\<lambda>w.
          then_do (move_own pid table parts w) (\<lambda>w. Some (Return (modify_context pid (adopt parts) w))))) = Some (Return w')"
    using assms(1) by (auto simp: clone_setup_def then_do_Return simp del: modify_context_simps modify_twice)
  define w2 where "w2 = modify_context pid ?k (w1\<lparr>fw_state := (fw_state w1)\<lparr>ps_page_table := (ps_page_table (fw_state w1))(pid := inactive_address table)\<rparr>\<rparr>)"
  obtain w3 w4 where s: "(if has_flag flags CLONE_VM then share_user_tables pid table parts w2 else move_user_tables cpus percpu_size pid table parts w2) = Some (Return w3)"
    "move_own pid table parts w3 = Some (Return w4)" "w' = modify_context pid (adopt parts) w4"
    using k unfolding Let_def w2_def[symmetric] then_do_Return by auto
  have c2: "ew_contexts w2 = set_context (ew_contexts w) pid (\<lambda>d. ?k (inherit flags c v d))"
    using new_page_table_pages[OF 1] by (auto simp: w2_def set_context_def bt_modify_modify)
  define h :: "ctx \<Rightarrow> ctx" where "h = (\<lambda>d. if has_flag flags CLONE_VM
     then d\<lparr>heap := (case cp_heap parts of None \<Rightarrow> heap d | Some r \<Rightarrow> Some r), image := cp_image parts, grants_ref := cp_grants parts\<rparr>
     else d\<lparr>image := cp_image parts, heap := (case cp_heap parts of None \<Rightarrow> heap d | Some r \<Rightarrow> Some r)\<rparr>)"
  have c3: "ew_contexts w3 = set_context (ew_contexts w2) pid h"
    using s(1) share_user_tables_contexts[of pid table parts w2 w3] move_user_tables_contexts[of cpus percpu_size pid table parts w2 w3]
    by (auto simp: h_def simp del: CLONE_VM_def split: if_splits)
  obtain f where c4: "ew_contexts w4 = set_context (ew_contexts w3) pid f" "\<forall>d. \<exists>s t. f d = d\<lparr>stack := s, tls_of := t\<rparr>"
    using move_own_contexts[OF s(2)] by blast
  let ?d3 = "h (?k (inherit flags c v (new_ctx r pid)))"
  obtain x y where f: "f ?d3 = ?d3\<lparr>stack := x, tls_of := y\<rparr>"
    using c4(2) by blast
  have child: "get_context (ew_contexts w') pid = Some (adopt parts (?d3\<lparr>stack := x, tls_of := y\<rparr>))"
    using assms(2) f by (simp add: s(3) c4(1) c3 c2)
  show thesis
    by (rule that[OF child]) (simp_all add: s(3) c4(1) c3 c2 h_def adopt_def inherit_def credentials_def new_ctx_def split: option.splits)
qed

section \<open>The whole call\<close>

text \<open>What is left of a context when it may have been blocked or woken.\<close>

definition still :: "context_list \<Rightarrow> usize \<Rightarrow> ctx \<Rightarrow> bool" where
  "still l i e \<longleftrightarrow> (\<exists>e'. get_context l i = Some e' \<and> identity e' = identity e)"

lemma still_same_contexts: "same_contexts l l' \<Longrightarrow> get_context l i = Some e \<Longrightarrow> still l' i e"
  using same_contexts_get[of l l' i] by (auto simp: still_def)

lemma identity_block [simp]: "identity (fst (block c)) = identity c"
  by (simp add: block_def identity_def)

text \<open>The state in which the new context is put into the list.\<close>

definition before_new :: "usize \<Rightarrow> 't kernel \<Rightarrow> 't kernel" where
  "before_new flags w = snd (fresh_ref (if has_flag flags CLONE_VFORK then modify_context (ew_current w) (\<lambda>c. fst (block c)) w else w))"

lemma before_new_contexts:
  "same_contexts (ew_contexts w) (ew_contexts (before_new flags w))" "ew_current (before_new flags w) = ew_current w"
  by (auto simp: before_new_def fresh_ref_def intro: same_contexts_set)

lemma clone_finish_eq:
  assumes "current_context (fst p) \<noteq> None"
  shows "clone_finish cpus percpu_size flags c parts p =
    (case new_context (ps_next_ref (fw_state (fst p))) (ew_contexts (before_new flags (fst p))) of
       None \<Rightarrow> None
     | Some Panic \<Rightarrow> Some (Crashes, p)
     | Some (Return (Err e, l)) \<Rightarrow> clone_fail e parts ((before_new flags (fst p))\<lparr>ew_contexts := l\<rparr>, snd p)
     | Some (Return (Ok pid, l)) \<Rightarrow>
         map_option (\<lambda>r. case r of Panic \<Rightarrow> (Crashes, p) | Return w \<Rightarrow> (Returned (Ok pid), (w, snd p)))
           (clone_setup cpus percpu_size flags c (has_flag flags CLONE_VFORK) parts pid
             (new_objects (ps_next_ref (fw_state (fst p))) ((before_new flags (fst p))\<lparr>ew_contexts := l\<rparr>))))"
proof -
  have n: "\<not> (has_flag flags CLONE_VFORK \<and> current_context (fst p) = None)"
    using assms by blast
  have r: "fresh_ref (if has_flag flags CLONE_VFORK then modify_context (ew_current (fst p)) (\<lambda>c. fst (block c)) (fst p) else fst p) =
      (ps_next_ref (fw_state (fst p)), before_new flags (fst p))"
    by (simp add: before_new_def fresh_ref_def)
  show ?thesis
    unfolding clone_finish_def Let_def if_not_P[OF n] r prod.case ..
qed

lemma map_outcome_Returned:
  "map_option (\<lambda>r. case r of Panic \<Rightarrow> (Crashes, p) | Return w \<Rightarrow> f w) x = Some (Returned v, q) \<longleftrightarrow> (\<exists>w. x = Some (Return w) \<and> f w = (Returned v, q))"
  by (cases x; cases "the x") auto

lemma clone_abort_pages:
  assumes "clone_abort parts w = Some (Return w')"
  shows "\<exists>pm. w' = set_pages pm w"
proof -
  obtain w1 w2 w3 where s: "drop_own (map_option tls_mem (cp_tls parts)) w = Some (Return w1)" "drop_own (cp_stack parts) w1 = Some (Return w2)"
    "drop_shared (case cp_heap parts of None \<Rightarrow> [] | Some r \<Rightarrow> [r]) w2 = Some (Return w3)" "drop_shared (cp_image parts) w3 = Some (Return w')"
    using assms unfolding clone_abort_def then_do_Return by blast
  show ?thesis
    using drop_own_pages[OF s(1)] drop_own_pages[OF s(2)] drop_shared_pages[OF s(3)] drop_shared_pages[OF s(4)] by (auto simp: set_pages_def)
qed

lemma clone_fail_result:
  assumes "clone_fail e parts p = Some (Returned r, p')"
  shows "r = Err e" "\<exists>pm. fst p' = set_pages pm (fst p)"
proof -
  obtain w where "clone_abort parts (fst p) = Some (Return w)" "(Returned (Err e), (w, snd p)) = (Returned r, p')"
    using assms unfolding clone_fail_def map_outcome_Returned by blast
  then show "r = Err e" "\<exists>pm. fst p' = set_pages pm (fst p)"
    using clone_abort_pages[of parts "fst p" w] by auto
qed

context process_schemes
begin

text \<open>Every call that gets past the copies comes to \<open>clone_finish\<close>, or fails with \<open>EBADF\<close>.\<close>

lemma clone_call_cases:
  assumes "clone_call impl cpus percpu_size stack_ptr clone_ret flags stack_base p = Some (Returned r, p')"
    and "current_context (fst p) = Some c" "r \<noteq> Err (Error EBADF)" "contexts_wf (ew_contexts (fst p))"
  obtains parts p2 where "parts_ok flags c (fst p) parts" "same_contexts (ew_contexts (fst p)) (ew_contexts (fst p2))" "ew_current (fst p2) = ew_current (fst p)"
    "ps_next_ref (fw_state (fst p)) \<le> ps_next_ref (fw_state (fst p2))" "clone_finish cpus percpu_size flags c parts p2 = Some (Returned r, p')"
proof -
  obtain parts p1 where 1: "clone_copy flags stack_base stack_ptr clone_ret c p = Some (Return (parts, p1))"
    using assms(1,2) by (auto simp: clone_call_def split: option.splits outcome.splits)
  note C = clone_copy_parts[OF 1]
  define files where "files = (if flags AND CLONE_FILES = 0 then plain (clone_files impl (cp_files parts) 0 (fw_files (fst p1) (cp_files parts))) p1
    else (Returned (Ok ()), p1))"
  have call: "(case files of (Waits, p) \<Rightarrow> Some (Waits, p) | (Crashes, p) \<Rightarrow> Some (Crashes, p) | (Returned (Err e), p) \<Rightarrow> clone_fail e parts p
      | (Returned (Ok _), p) \<Rightarrow> clone_finish cpus percpu_size flags c parts p) = Some (Returned r, p')"
    using assms(1,2) 1 by (simp add: clone_call_def files_def)
  obtain res w2 where 2: "clone_files impl (cp_files parts) 0 (fw_files (fst p1) (cp_files parts)) (fst p1) = (Returned res, w2)"
    "same_contexts (ew_contexts (fst p1)) (ew_contexts w2)" "ew_current w2 = ew_current (fst p1)"
    "ps_next_ref (fw_state w2) = ps_next_ref (fw_state (fst p1))" "\<forall>e. res = Err e \<longrightarrow> e = Error EBADF"
    using clone_files_people by blast
  have "\<exists>res p2. files = (Returned res, p2) \<and> same_contexts (ew_contexts (fst p1)) (ew_contexts (fst p2)) \<and> ew_current (fst p2) = ew_current (fst p1) \<and>
      ps_next_ref (fw_state (fst p2)) = ps_next_ref (fw_state (fst p1)) \<and> (\<forall>e. res = Err e \<longrightarrow> e = Error EBADF)"
  proof (cases "flags AND CLONE_FILES = 0")
    case True
    then have "files = (Returned res, (w2, snd p1))"
      using 2(1) by (simp add: files_def plain_def)
    then show ?thesis
      using 2 by auto
  next
    case False
    then have "files = (Returned (Ok ()), p1)"
      unfolding files_def by (simp only: if_False)
    then show ?thesis
      by auto
  qed
  then obtain res p2 where f: "files = (Returned res, p2)" "same_contexts (ew_contexts (fst p1)) (ew_contexts (fst p2))" "ew_current (fst p2) = ew_current (fst p1)"
    "ps_next_ref (fw_state (fst p2)) = ps_next_ref (fw_state (fst p1))" "\<forall>e. res = Err e \<longrightarrow> e = Error EBADF"
    by blast
  show thesis
  proof (cases res)
    case (Ok u)
    then show thesis
      using that[of parts p2] C f call by (auto simp: grows_def)
  next
    case (Err e)
    then have "clone_fail (Error EBADF) parts p2 = Some (Returned r, p')"
      using call f(1,5) by simp
    then show thesis
      using assms(3) clone_fail_result(1) by blast
  qed
qed

lemma clone_current:
  assumes "same_contexts (ew_contexts w) (ew_contexts w')" "ew_current w' = ew_current w" "current_context w = Some c"
  shows "current_context w' \<noteq> None"
  using same_contexts_get[OF assms(1), of "ew_current w"] assms(2,3) by (auto simp: current_context_def)

lemma clone_Ok:
  assumes "clone_call impl cpus percpu_size stack_ptr clone_ret flags stack_base p = Some (Returned (Ok pid), p')"
    and "current_context (fst p) = Some c" "contexts_wf (ew_contexts (fst p))"
  obtains parts r d where "parts_ok flags c (fst p) parts" "fresh_for (fst p) r" "get_context (ew_contexts (fst p)) pid = None"
    "get_context (ew_contexts (fst p')) pid = Some d" "\<forall>i e. get_context (ew_contexts (fst p)) i = Some e \<longrightarrow> still (ew_contexts (fst p')) i e"
    "credentials d = (pid, ctx_id c, ruid c, rgid c, rns c, ens c, euid c, egid c)" "status d = Runnable" "vfork d = has_flag flags CLONE_VFORK"
    "image d = cp_image parts" "heap d = cp_heap parts" "grants_ref d = (if has_flag flags CLONE_VM then cp_grants parts else r)"
    "name_ref d = cp_name parts" "cwd_ref d = cp_cwd parts" "env_ref d = cp_env parts" "files_ref d = cp_files parts" "waitpid_ref d = r"
    "has_flag flags CLONE_VFORK \<longrightarrow> (\<exists>c'. current_context (fst p') = Some c' \<and> status c' \<noteq> Runnable)"
proof -
  obtain parts p2 where c: "parts_ok flags c (fst p) parts" "same_contexts (ew_contexts (fst p)) (ew_contexts (fst p2))" "ew_current (fst p2) = ew_current (fst p)"
    "ps_next_ref (fw_state (fst p)) \<le> ps_next_ref (fw_state (fst p2))" "clone_finish cpus percpu_size flags c parts p2 = Some (Returned (Ok pid), p')"
    using clone_call_cases[OF assms(1,2) _ assms(3)] by blast
  let ?w = "before_new flags (fst p2)" and ?r = "ps_next_ref (fw_state (fst p2))"
  have s: "same_contexts (ew_contexts (fst p)) (ew_contexts ?w)"
    using c(2) before_new_contexts(1)[of "fst p2" flags] by (simp add: same_contexts_def)
  have wf: "contexts_wf (ew_contexts ?w)"
    by (rule same_contexts_wf[OF s assms(3)])
  obtain res l where n: "new_context ?r (ew_contexts ?w) = Some (Return (res, l))"
    "case res of Ok i \<Rightarrow> get_context (ew_contexts ?w) i = None \<and> 0 < i \<and> i < CONTEXT_MAX_CONTEXTS \<and> get_context l = (get_context (ew_contexts ?w))(i \<mapsto> new_ctx ?r i)
     | Err e \<Rightarrow> e = Error EAGAIN \<and> ctx_map l = ctx_map (ew_contexts ?w)"
    using new_context_spec[OF wf, of ?r] by blast
  note eq = clone_finish_eq[OF clone_current[OF c(2,3) assms(2)], of cpus percpu_size flags c parts, unfolded n(1)]
  have "\<exists>x. res = Ok x"
    using c(5) eq by (cases res) (auto dest: clone_fail_result(1))
  then obtain i where i: "res = Ok i"
    by blast
  let ?w1 = "new_objects ?r (?w\<lparr>ew_contexts := l\<rparr>)"
  obtain w3 where w3: "clone_setup cpus percpu_size flags c (has_flag flags CLONE_VFORK) parts i ?w1 = Some (Return w3)" "i = pid" "fst p' = w3"
    using c(5)[unfolded eq i option.case outcome.case prod.case result.case map_outcome_Returned] by auto
  have g: "get_context (ew_contexts ?w) pid = None" "get_context (ew_contexts ?w1) = (get_context (ew_contexts ?w))(pid \<mapsto> new_ctx ?r pid)"
    using n(2) i w3(2) by (simp_all add: new_objects_def)
  have none: "get_context (ew_contexts (fst p)) pid = None"
    using same_contexts_get[OF s, of pid] g(1) by simp
  have "get_context (ew_contexts ?w1) pid = Some (new_ctx ?r pid)"
    using g(2) by simp
  from clone_setup_child[OF w3(1)[unfolded w3(2)] this]
  obtain d where d: "get_context (ew_contexts w3) pid = Some d" "\<forall>i. i \<noteq> pid \<longrightarrow> get_context (ew_contexts w3) i = get_context (ew_contexts ?w1) i"
    "credentials d = (pid, ctx_id c, ruid c, rgid c, rns c, ens c, euid c, egid c)" "status d = Runnable" "vfork d = has_flag flags CLONE_VFORK"
    "image d = cp_image parts" "heap d = cp_heap parts" "grants_ref d = (if has_flag flags CLONE_VM then cp_grants parts else ?r)"
    "name_ref d = cp_name parts" "cwd_ref d = cp_cwd parts" "env_ref d = cp_env parts" "files_ref d = cp_files parts" "waitpid_ref d = ?r"
    by blast
  have others: "still (ew_contexts w3) i e" if "get_context (ew_contexts (fst p)) i = Some e" for i e
  proof -
    have "i \<noteq> pid"
      using that none by auto
    then show ?thesis
      using still_same_contexts[OF s that] d(2) g(2) by (simp add: still_def)
  qed
  have blocked: "\<exists>c'. current_context (fst p') = Some c' \<and> status c' \<noteq> Runnable" if "has_flag flags CLONE_VFORK"
  proof -
    obtain c2 where c2: "get_context (ew_contexts (fst p2)) (ew_current (fst p)) = Some c2"
      using clone_current[OF c(2,3) assms(2)] c(3) by (auto simp: current_context_def)
    have "ew_current (fst p) \<noteq> pid"
      using none assms(2) by (auto simp: current_context_def)
    then have "get_context (ew_contexts w3) (ew_current (fst p)) = Some (fst (block c2))"
      using d(2) g(2) c2 c(3) that by (simp add: before_new_def fresh_ref_def)
    moreover have "ew_current w3 = ew_current (fst p)"
      using clone_setup_current[OF w3(1)] before_new_contexts(2)[of flags "fst p2"] c(3) by (simp add: new_objects_def)
    ultimately show ?thesis
      using w3(3) by (simp add: current_context_def block_def)
  qed
  have "fresh_for (fst p) ?r"
    using c(4) by (simp add: fresh_for_def)
  then show thesis
    using that[OF c(1) _ none _ _ d(3-13)] d(1) others w3(3) blocked by blast
qed

end

section \<open>Properties\<close>

text \<open>The references of a context to objects that may be shared.\<close>

definition object_refs :: "ctx \<Rightarrow> ref set" where
  "object_refs d = set (memory_refs d) \<union> {waitpid_ref d, grants_ref d, name_ref d, cwd_ref d, env_ref d, files_ref d}"


text \<open>A machine on which a page table can be made: the kernel is mapped, and the temporary page has its tables.\<close>

definition clone_tables :: "memory_map \<Rightarrow> frame_allocator \<Rightarrow> page_mem" where
  "clone_tables mm a =
     \<lparr>pg_tables = (\<lambda>f i. if f = Frame 2 \<and> i = 511 then 0x2003 else if f = Frame 2 \<and> i = 0 then 0x64003 else if f = Frame 2 \<and> i = 510 then 0xC8003
        else if f = Frame 100 \<and> i = 32 then 0x65003 else if f = Frame 101 \<and> i = 0 then 0x66003 else 0),
      pg_cr3 = Frame 2, pg_memory = \<lparr>MEMORY_MAP = mm, ALLOCATOR = Some a\<rparr>\<rparr>"

lemma clone_table_made:
  "case inactive_new (Frame 512) clone_page (clone_tables mm a) of
     Some (Return (t, pm)) \<Rightarrow> (case copy_p4 510 t pm of Some (Return _) \<Rightarrow> True | _ \<Rightarrow> False)
   | _ \<Rightarrow> False"
  by code_simp

definition wide_allocator :: frame_allocator where
  "wide_allocator = new_allocator [wide_area] 0 0 (area_iter_new MEMORY_AREA_FREE)"

lemma first_wide_frame: "\<exists>a. allocate_frame \<lparr>MEMORY_MAP = [wide_area], ALLOCATOR = Some wide_allocator\<rparr> =
  Some (Return (Some (Frame 512), \<lparr>MEMORY_MAP = [wide_area], ALLOCATOR = Some a\<rparr>))"
proof -
  let ?pm = "\<lparr>MEMORY_MAP = [wide_area], ALLOCATOR = Some wide_allocator\<rparr>"
  have wf: "frames_wf (MEMORY_MAP ?pm) wide_allocator"
    by (simp add: wide_allocator_def frames_wf_new)
  have av: "available [wide_area] wide_allocator f \<longleftrightarrow> Frame 512 \<le> f \<and> f \<le> Frame 1023" for f
    using wide_available[of f] by (simp add: can_allocate_def stack_tables_def wide_memory_def wide_allocator_def)
  obtain r a where a: "allocate_frame ?pm = Some (Return (r, ?pm\<lparr>ALLOCATOR := Some a\<rparr>))" "handed_out (MEMORY_MAP ?pm) wide_allocator r a"
    by (rule allocate_frame_spec[OF _ wf]) simp
  have "Frame 512 \<le> Frame 512 \<and> Frame 512 \<le> Frame 1023"
    by (simp add: less_eq_frame_def)
  then obtain f where f: "r = Some f" "f \<le> Frame 512" "Frame 512 \<le> f"
    using a(2) unfolding handed_out_def by (cases r) (auto simp: av)
  then have "f = Frame 512"
    by (auto simp: frame_order)
  then show ?thesis
    using a(1) f(1) by auto
qed

definition clone_world :: "kernel_state kernel" where
  "clone_world = set_pages (clone_tables [wide_area] wide_allocator) (program_world [None] (new_table 0))"

lemma clone_world_table:
  assumes "ps_pages (fw_state w) = clone_tables [wide_area] wide_allocator"
  shows "\<exists>t pm. new_page_table w = Some (Return (t, set_pages pm w))"
proof -
  obtain a where a: "allocate_frame \<lparr>MEMORY_MAP = [wide_area], ALLOCATOR = Some wide_allocator\<rparr> =
      Some (Return (Some (Frame 512), \<lparr>MEMORY_MAP = [wide_area], ALLOCATOR = Some a\<rparr>))"
    using first_wide_frame by blast
  have "(clone_tables [wide_area] wide_allocator)\<lparr>pg_memory := \<lparr>MEMORY_MAP = [wide_area], ALLOCATOR = Some a\<rparr>\<rparr> = clone_tables [wide_area] a"
    "pg_memory (clone_tables [wide_area] wide_allocator) = \<lparr>MEMORY_MAP = [wide_area], ALLOCATOR = Some wide_allocator\<rparr>"
    by (simp_all add: clone_tables_def)
  then show ?thesis
    using clone_table_made[of "[wide_area]" a] by (auto simp: new_page_table_def assms a then_do_def split: option.splits outcome.splits prod.splits)
qed

lemma clone_world_call:
  "\<exists>w'. clone_call process_impl 1 0x1000 0 0 CLONE_VM 0 (clone_world, M) = Some (Returned (Ok 2), (w', M))"
proof -
  have c: "current_context clone_world = Some program_ctx"
    using program_world_simps(1) by (simp add: clone_world_def current_context_def set_pages_def)
  have fl: "has_flag (0x100 :: usize) 0x100" "\<not> has_flag (0x100 :: usize) 0x200" "\<not> has_flag (0x100 :: usize) 0x400" "\<not> has_flag (0x100 :: usize) 0x4000"
    by (simp_all add: has_flag_def)
  obtain parts w1 where 1: "clone_copy 0x100 0 0 0 program_ctx (clone_world, M) = Some (Return (parts, (w1, M)))"
    "cp_image parts = []" "cp_heap parts = None" "cp_stack parts = None" "cp_tls parts = None" "cp_grants parts = 0" "fw_files w1 (cp_files parts) = [None]"
    "ew_contexts w1 = one_runnable" "ps_pages (fw_state w1) = clone_tables [wide_area] wide_allocator" "ps_grants (fw_state w1) 0 = []" "current_context w1 = Some program_ctx"
    using c by (simp add: clone_copy_def copy_memory_def copy_stack_def copy_tls_def then_do_def copy_objects_def copy_grants_def copy_name_def copy_cwd_def
        copy_environment_def copy_files_def fl new_ctx_def fresh_ref_def clone_world_def program_world_def set_pages_def set_files_def current_context_def one_runnable_def get_context_def)
  define w2 where "w2 = set_files (cp_files parts) ([None][0 := None]) w1"
  have files: "clone_files process_impl (cp_files parts) 0 [None] w1 = (Returned (Ok ()), w2)"
    using 1(7) by (simp add: w2_def clone_file_def then_ok_def then_attempt_def)
  have w2: "ew_contexts w2 = one_runnable" "ps_pages (fw_state w2) = clone_tables [wide_area] wide_allocator" "ps_grants (fw_state w2) 0 = []" "current_context w2 = Some program_ctx"
    using 1 by (simp_all add: w2_def set_files_def current_context_def)
  let ?r = "ps_next_ref (fw_state w2)"
  have b: "before_new 0x100 w2 = snd (fresh_ref w2)"
    by (simp add: before_new_def fl)
  obtain l where new: "new_context ?r one_runnable = Some (Return (Ok 2, l))"
    using usize_max_pred(2) by (simp add: new_context_def one_runnable_def skip_used.simps bt_contains_key_def CONTEXT_MAX_CONTEXTS_def)
  let ?w3 = "new_objects ?r ((snd (fresh_ref w2))\<lparr>ew_contexts := l\<rparr>)"
  obtain t pm where table: "new_page_table (modify_context 2 (inherit 0x100 program_ctx False) ?w3) = Some (Return (t, set_pages pm (modify_context 2 (inherit 0x100 program_ctx False) ?w3)))"
    using clone_world_table[of "modify_context 2 (inherit 0x100 program_ctx False) ?w3"] w2(2) by (auto simp: new_objects_def fresh_ref_def)
  have "ps_grants (fw_state ?w3) 0 = []"
    using w2(3) by (simp add: new_objects_def fresh_ref_def)
  then have "\<exists>w'. clone_setup 1 0x1000 0x100 program_ctx False parts 2 ?w3 = Some (Return w')"
    using 1(2-6) by (simp add: clone_setup_def table then_do_def fl share_user_tables_def move_own_def Let_def set_pages_def)
  then obtain w' where "clone_setup 1 0x1000 0x100 program_ctx False parts 2 ?w3 = Some (Return w')"
    by blast
  then have "clone_finish 1 0x1000 0x100 program_ctx parts (w2, M) = Some (Returned (Ok 2), (w', M))"
    using clone_finish_eq[of "(w2, M)" 1 "0x1000" "0x100" program_ctx parts] w2(1,4) b new fl(4) by (simp add: fresh_ref_def)
  then show ?thesis
    using c 1(1,7) files by (simp add: clone_call_def plain_def)
qed


end
