(* ===== verification/Env_Scheme.thy ===== *)
theory Env_Scheme
  imports Memory_Files Contexts
begin

text \<open>
  The \<open>env:\<close> scheme (\<open>kernel/scheme/env.rs\<close>): environment variables as files. The value of a variable is
  a byte vector behind an \<open>Arc\<close>, which the environment of a context and any number of handles share, so
  vectors and environments live in stores that are indexed by references.
\<close>

record env_handle =
  eh_data :: ref
  eh_mode :: u16
  eh_seek :: usize

record env_scheme =
  es_table :: "env_handle handle_table"
  es_cells :: "ref \<Rightarrow> bytes"
  es_next_cell :: ref
  es_envs :: "ref \<Rightarrow> (bytes, ref) btree_map"
  es_current :: "ref option"

text \<open>\<open>es_current\<close>: the environment of the current context, if there is one.\<close>

definition env_new :: "env_handle handle_table" where
  "env_new = new_table 0"

text \<open>\<open>Arc::new(Mutex::new(bytes))\<close>\<close>

definition new_cell :: "bytes \<Rightarrow> env_scheme \<Rightarrow> ref \<times> env_scheme" where
  "new_cell d s = (es_next_cell s, s\<lparr>es_next_cell := Suc (es_next_cell s), es_cells := (es_cells s)(es_next_cell s := d)\<rparr>)"

text \<open>The listing \<open>name=value\<close>, one variable per line.\<close>

fun env_list :: "(ref \<Rightarrow> bytes) \<Rightarrow> bytes \<Rightarrow> (bytes, ref) btree_map \<Rightarrow> bytes" where
  "env_list cells acc [] = acc"
| "env_list cells acc (e # es) =
     env_list cells ((if acc = [] then [] else acc @ bytes_of [CHR 0x0A]) @ fst e @ bytes_of ''='' @ cells (snd e)) es"

definition env_add :: "ref \<Rightarrow> env_scheme \<Rightarrow> usize result attempt \<times> env_scheme" where
  "env_add r s =
     (let (i, t) = add_handle (es_table s) \<lparr>eh_data = r, eh_mode = MODE_FILE, eh_seek = 0\<rparr>
      in (Returned (Ok i), s\<lparr>es_table := t\<rparr>))"

definition env_open :: "bytes \<Rightarrow> usize \<Rightarrow> u32 \<Rightarrow> u32 \<Rightarrow> (usize result, env_scheme) op" where
  "env_open path flags uid gid s =
     (if \<not> valid_utf8 path then (Returned (Err (Error ENOENT)), s)
      else case es_current s of
        None \<Rightarrow> (Returned (Err (Error ESRCH)), s)
      | Some e \<Rightarrow>
          let name = trim_slashes path
          in if name = [] then
               let (r, s1) = new_cell (env_list (es_cells s) [] (es_envs s e)) s in env_add r s1
             else (case bt_get (es_envs s e) name of
                     Some r \<Rightarrow> env_add r s
                   | None \<Rightarrow>
                       let (r, s1) = new_cell [] s
                       in env_add r (s1\<lparr>es_envs := (es_envs s1)(e := bt_insert name r (es_envs s1 e))\<rparr>)))"

definition env_dup :: "usize \<Rightarrow> bytes \<Rightarrow> (usize result, env_scheme) op" where
  "env_dup i buf s =
     (case get_handle (es_table s) i EBADF of
        Err e \<Rightarrow> (Returned (Err e), s)
      | Ok h \<Rightarrow> (let (j, t) = add_handle (es_table s) h in (Returned (Ok j), s\<lparr>es_table := t\<rparr>)))"

definition env_read :: "usize \<Rightarrow> bytes \<Rightarrow> (usize result \<times> bytes, env_scheme) op" where
  "env_read i buf s =
     (case get_handle (es_table s) i EBADF of
        Err e \<Rightarrow> (Returned (Err e, buf), s)
      | Ok h \<Rightarrow> (let (buf', n, seek) = read_at (es_cells s (eh_data h)) (eh_seek h) buf
                in (Returned (Ok n, buf'), s\<lparr>es_table := set_handle (es_table s) i (h\<lparr>eh_seek := seek\<rparr>)\<rparr>)))"

text \<open>First the loop that overwrites, then the loop that pushes.\<close>

definition env_write :: "usize \<Rightarrow> bytes \<Rightarrow> (usize result, env_scheme) op" where
  "env_write i buf s =
     (case get_handle (es_table s) i EBADF of
        Err e \<Rightarrow> (Returned (Err e), s)
      | Ok h \<Rightarrow> (let (data, rest) = overwrite (es_cells s (eh_data h)) (unat (eh_seek h)) buf
                in (Returned (Ok (of_nat (length buf))),
                    s\<lparr>es_cells := (es_cells s)(eh_data h := data @ rest),
                      es_table := set_handle (es_table s) i (h\<lparr>eh_seek := eh_seek h + of_nat (length buf)\<rparr>)\<rparr>)))"

definition env_seek :: "usize \<Rightarrow> usize \<Rightarrow> usize \<Rightarrow> (usize result, env_scheme) op" where
  "env_seek i pos whence s =
     (case get_handle (es_table s) i EBADF of
        Err e \<Rightarrow> (Returned (Err e), s)
      | Ok h \<Rightarrow> (case seek_in (es_cells s (eh_data h)) (eh_seek h) pos whence of
                  Err e \<Rightarrow> (Returned (Err e), s)
                | Ok k \<Rightarrow> (Returned (Ok k), s\<lparr>es_table := set_handle (es_table s) i (h\<lparr>eh_seek := k\<rparr>)\<rparr>)))"

definition env_fstat :: "usize \<Rightarrow> stat \<Rightarrow> (usize result \<times> stat, env_scheme) op" where
  "env_fstat i st s =
     (case get_handle (es_table s) i EBADF of
        Err e \<Rightarrow> (Returned (Err e, st), s)
      | Ok h \<Rightarrow> (Returned (Ok 0, st\<lparr>st_mode := eh_mode h, st_size := of_nat (length (es_cells s (eh_data h)))\<rparr>), s))"

definition env_fsync :: "usize \<Rightarrow> (usize result, env_scheme) op" where
  "env_fsync i s =
     (case get_handle (es_table s) i EBADF of Err e \<Rightarrow> (Returned (Err e), s) | Ok _ \<Rightarrow> (Returned (Ok 0), s))"

definition env_ftruncate :: "usize \<Rightarrow> usize \<Rightarrow> (usize result, env_scheme) op" where
  "env_ftruncate i len s =
     (case get_handle (es_table s) i EBADF of
        Err e \<Rightarrow> (Returned (Err e), s)
      | Ok h \<Rightarrow>
          (let data = es_cells s (eh_data h);
               data' = (if unat len < length data then take (unat len) data
                        else data @ replicate (unat len - length data) 0)
           in (Returned (Ok 0), s\<lparr>es_cells := (es_cells s)(eh_data h := data')\<rparr>)))"

definition env_close :: "usize \<Rightarrow> (usize result, env_scheme) op" where
  "env_close i s = (let (r, t) = close_handle (es_table s) i EBADF in (Returned r, s\<lparr>es_table := t\<rparr>))"

definition env_ops :: "env_scheme scheme_ops" where
  "env_ops = default_ops
     \<lparr>op_open := env_open, op_dup := env_dup, op_read := env_read, op_write := env_write, op_seek := env_seek,
      op_fstat := env_fstat, op_fsync := env_fsync, op_ftruncate := env_ftruncate, op_close := env_close\<rparr>"

lemma env_ops_simps [simp]:
  "op_read env_ops = env_read" "op_write env_ops = env_write" "op_seek env_ops = env_seek"
  "op_fpath env_ops = (\<lambda>id buf. returns (Err (Error EBADF), buf))"
  by (simp_all add: env_ops_def default_ops_def)

definition env_contents :: "env_scheme \<Rightarrow> usize \<Rightarrow> bytes option" where
  "env_contents s i = map_option (\<lambda>h. es_cells s (eh_data h)) (bt_get (handles (es_table s)) i)"

definition env_cursor :: "env_scheme \<Rightarrow> usize \<Rightarrow> usize" where
  "env_cursor s i = (case bt_get (handles (es_table s)) i of None \<Rightarrow> 0 | Some h \<Rightarrow> eh_seek h)"

definition env_inv :: "env_scheme \<Rightarrow> bool" where
  "env_inv s \<longleftrightarrow> (\<forall>r. length (es_cells s r) < 2 ^ 63)"

interpretation env: file_scheme env_ops env_contents env_cursor env_inv
proof unfold_locales
  fix s :: env_scheme and i d buf buf' n k pos whence r s'
  show "op_read env_ops i buf s = (Returned (r, buf'), s') \<Longrightarrow> length buf' = length buf"
    by (auto simp: env_read_def read_at_eq Let_def split: result.splits)
  show "op_fpath env_ops i buf s = (Returned (r, buf'), s') \<Longrightarrow> length buf' = length buf"
    by (auto simp: returns_def)
  assume inv: "env_inv s" and d: "env_contents s i = Some d"
  then obtain h where h: "bt_get (handles (es_table s)) i = Some h" "d = es_cells s (eh_data h)"
    by (auto simp: env_contents_def)
  show "length d < 2 ^ 63"
    using inv h by (simp add: env_inv_def)
  show "\<exists>s'. op_read env_ops i buf s = (Returned (Ok n, buf'), s') \<and> env_inv s' \<and> env_contents s' = env_contents s \<and> env_cursor s' i = k"
    if "read_at d (env_cursor s i) buf = (buf', n, k)"
    using inv h that
    by (auto simp: env_read_def get_handle_def env_cursor_def env_contents_def set_handle_def env_inv_def fun_eq_iff)
  show "\<exists>s'. op_seek env_ops i pos whence s = (Returned (Ok k), s') \<and> env_inv s' \<and> env_contents s' = env_contents s \<and> env_cursor s' i = k"
    if "seek_in d (env_cursor s i) pos whence = Ok k"
    using inv h that
    by (auto simp: env_seek_def get_handle_def env_cursor_def env_contents_def set_handle_def env_inv_def fun_eq_iff)
qed

section \<open>Variables\<close>

text \<open>The value of a variable of the current context; an undefined one reads as empty once opened.\<close>

definition variable :: "env_scheme \<Rightarrow> bytes \<Rightarrow> bytes" where
  "variable s name =
     (case es_current s of
        None \<Rightarrow> []
      | Some e \<Rightarrow> (case bt_get (es_envs s e) name of None \<Rightarrow> [] | Some r \<Rightarrow> es_cells s r))"

text \<open>Opening a variable gives a new handle at its start, and defines it if necessary.\<close>

lemma env_open_variable:
  assumes "es_current s = Some e" "valid_utf8 path" "trim_slashes path = name" "name \<noteq> []"
  shows "\<exists>s1 r. env_open path flags uid gid s = (Returned (Ok (next_id (es_table s))), s1) \<and>
    bt_get (es_envs s1 e) name = Some r \<and> es_cells s1 r = variable s name \<and> es_current s1 = Some e \<and>
    bt_get (handles (es_table s1)) (next_id (es_table s)) = Some \<lparr>eh_data = r, eh_mode = MODE_FILE, eh_seek = 0\<rparr> \<and>
    next_id (es_table s1) = next_id (es_table s) + 1 \<and> (env_inv s \<longrightarrow> env_inv s1)"
  using assms
  by (cases "bt_get (es_envs s e) name")
     (auto simp: env_open_def env_add_def new_cell_def add_handle_def variable_def env_inv_def)

lemma env_write_handle:
  assumes "bt_get (handles (es_table s)) i = Some h" "eh_seek h = 0"
  shows "\<exists>s1. env_write i v s = (Returned (Ok (of_nat (length v))), s1) \<and>
    es_cells s1 = (es_cells s)(eh_data h := v @ drop (length v) (es_cells s (eh_data h))) \<and>
    es_envs s1 = es_envs s \<and> es_current s1 = es_current s \<and> next_id (es_table s1) = next_id (es_table s)"
  using assms
  by (auto simp: env_write_def get_handle_def overwrite_eq Let_def set_handle_def min_def)

text \<open>
  Setting an environment variable: open it, write a value, open it again, by any spelling of its path,
  and read in pieces that reach far enough: the bytes read are the value followed by what the old
  value had beyond its length. So a variable that was undefined or empty reads back exactly as written.
\<close>

theorem env_set_then_get:
  assumes "env_inv s" "es_current s = Some e" "valid_utf8 p1" "valid_utf8 p2"
    and "trim_slashes p1 = name" "trim_slashes p2 = name" "name \<noteq> []"
    and "length v + length (variable s name) < 2 ^ 63"
    and "length v + length (variable s name) \<le> sum_list (map length bufs)"
  shows "\<exists>i j s1 s2 s3 s4. env_open p1 f1 uid gid s = (Returned (Ok i), s1) \<and>
    env_write i v s1 = (Returned (Ok (of_nat (length v))), s2) \<and>
    env_open p2 f2 uid gid s2 = (Returned (Ok j), s3) \<and>
    read_many env_ops j bufs s3 = (v @ drop (length v) (variable s name), s4)"
proof -
  obtain s1 r where s1: "env_open p1 f1 uid gid s = (Returned (Ok (next_id (es_table s))), s1)"
      "bt_get (es_envs s1 e) name = Some r" "es_cells s1 r = variable s name" "es_current s1 = Some e"
      "bt_get (handles (es_table s1)) (next_id (es_table s)) = Some \<lparr>eh_data = r, eh_mode = MODE_FILE, eh_seek = 0\<rparr>"
      "env_inv s1"
    using env_open_variable [OF assms(2,3,5,7)] assms(1) by blast
  obtain s2 where s2: "env_write (next_id (es_table s)) v s1 = (Returned (Ok (of_nat (length v))), s2)"
      "es_cells s2 = (es_cells s1)(r := v @ drop (length v) (variable s name))"
      "es_envs s2 = es_envs s1" "es_current s2 = Some e"
    using env_write_handle [OF s1(5), of v] s1(3,4) by auto
  have val: "variable s2 name = v @ drop (length v) (variable s name)"
    using s1(2) s2(2-4) by (simp add: variable_def)
  have "env_inv s2"
    using s1(6) s2(2) assms(8) by (auto simp: env_inv_def)
  then obtain s3 r' where s3: "env_open p2 f2 uid gid s2 = (Returned (Ok (next_id (es_table s2))), s3)"
      "es_cells s3 r' = variable s2 name"
      "bt_get (handles (es_table s3)) (next_id (es_table s2)) = Some \<lparr>eh_data = r', eh_mode = MODE_FILE, eh_seek = 0\<rparr>"
      "env_inv s3"
    using env_open_variable [OF s2(4) assms(4,6,7), of f2 uid gid] by blast
  have "env_contents s3 (next_id (es_table s2)) = Some (variable s2 name)" "env_cursor s3 (next_id (es_table s2)) = 0"
    using s3 by (simp_all add: env_contents_def env_cursor_def)
  then obtain s4 where "read_many env_ops (next_id (es_table s2)) bufs s3 = (variable s2 name, s4)"
    using env.read_many_contents [OF s3(4), of "next_id (es_table s2)" "variable s2 name" bufs] assms(9) val by auto
  then show ?thesis
    using s1(1) s2(1) s3(1) val by auto
qed

definition empty_env :: env_scheme where
  "empty_env = \<lparr>es_table = env_new, es_cells = (\<lambda>_. []), es_next_cell = 0, es_envs = (\<lambda>_. bt_empty), es_current = Some 0\<rparr>"

theorem env_set_then_get_witness:
  "\<exists>i j s1 s2 s3 s4. env_open (bytes_of ''PATH'') 0 0 0 empty_env = (Returned (Ok i), s1) \<and>
     env_write i [7, 8] s1 = (Returned (Ok (of_nat (length [7 :: u8, 8]))), s2) \<and>
     env_open (bytes_of ''/PATH'') 0 0 0 s2 = (Returned (Ok j), s3) \<and>
     read_many env_ops j [[0], [0]] s3 = ([7, 8] @ drop (length [7 :: u8, 8]) (variable empty_env (bytes_of ''PATH'')), s4)"
  by (rule env_set_then_get [where e = 0])
     (simp_all add: empty_env_def env_inv_def bytes_of_def trim_slashes_def variable_def)

end
