(* ===== verification/Futexes.thy ===== *)
theory Futexes
  imports Wait_Queues "HOL-Library.Multiset"
begin

text \<open>
  Fast user mutexes (\<open>kernel/syscall/futex.rs\<close>): a global list of waiting contexts with the addresses they
  wait on. The loops use \<open>swap_remove_back\<close>, which fills the gap with the last element.
\<close>

type_synonym futex_list = "(usize \<times> usize) list"

definition init_futexes :: futex_list where
  "init_futexes = []"

section \<open>Operations\<close>

text \<open>\<open>FUTEX_WAIT\<close>; \<open>loaded\<close> is what \<open>atomic_load(addr)\<close> returns.\<close>

definition futex_wait :: "usize \<Rightarrow> usize \<Rightarrow> i32 \<Rightarrow> i32 \<Rightarrow> futex_list \<Rightarrow> context_list \<Rightarrow>
    usize result attempt \<times> futex_list \<times> context_list" where
  "futex_wait cur addr loaded val fs l =
     (case get_context l cur of
        None \<Rightarrow> (Returned (Err (Error ESRCH)), fs, l)
      | Some _ \<Rightarrow>
          if loaded \<noteq> val then (Returned (Err (Error EAGAIN)), fs, l)
          else (Waits, fs @ [(addr, cur)], set_context l cur (\<lambda>c. fst (block c))))"

definition swap_remove_back :: "nat \<Rightarrow> 'a list \<Rightarrow> 'a list" where
  "swap_remove_back i xs = (if Suc i = length xs then butlast xs else (butlast xs)[i := last xs])"

text \<open>
  \<open>while i < futexes.len() && (woken as i32) < val\<close>: the list, the index and the count at the end of the
  loop, and the contexts.
\<close>

function wake_loop :: "usize \<Rightarrow> i32 \<Rightarrow> nat \<Rightarrow> nat \<Rightarrow> futex_list \<Rightarrow> context_list \<Rightarrow>
    nat \<times> nat \<times> futex_list \<times> context_list" where
  "wake_loop addr val i woken fs l =
     (if i < length fs \<and> sint (of_nat woken :: i32) < sint val then
        if fst (fs ! i) = addr then
          wake_loop addr val i (Suc woken) (swap_remove_back i fs) (set_context l (snd (fs ! i)) (\<lambda>c. fst (unblock c)))
        else wake_loop addr val (Suc i) woken fs l
      else (i, woken, fs, l))"
  by pat_completeness auto

lemma length_swap_remove_back [simp]: "length (swap_remove_back i xs) = length xs - 1"
  by (simp add: swap_remove_back_def)

termination wake_loop
  by (relation "measure (\<lambda>(addr, val, i, woken, fs, l). length fs - i)") auto

declare wake_loop.simps [simp del]

text \<open>\<open>while i < futexes.len() && requeued < val2\<close>\<close>

function requeue_loop :: "usize \<Rightarrow> usize \<Rightarrow> usize \<Rightarrow> nat \<Rightarrow> nat \<Rightarrow> futex_list \<Rightarrow> futex_list" where
  "requeue_loop addr addr2 val2 i requeued fs =
     (if i < length fs \<and> of_nat requeued < val2 then
        if fst (fs ! i) = addr then requeue_loop addr addr2 val2 (Suc i) (Suc requeued) (fs[i := (addr2, snd (fs ! i))])
        else requeue_loop addr addr2 val2 (Suc i) requeued fs
      else fs)"
  by pat_completeness auto

termination requeue_loop
  by (relation "measure (\<lambda>(addr, addr2, val2, i, requeued, fs). length fs - i)") auto

declare requeue_loop.simps [simp del]

text \<open>
  The system call. The word at \<open>addr\<close> has been validated by the dispatcher; \<open>addr2_ok\<close> is the result of
  \<open>validate_slice_mut(addr2, 1)\<close>.
\<close>

definition futex :: "usize \<Rightarrow> usize \<Rightarrow> usize \<Rightarrow> i32 \<Rightarrow> usize \<Rightarrow> usize \<Rightarrow> i32 \<Rightarrow> unit result \<Rightarrow>
    futex_list \<Rightarrow> context_list \<Rightarrow> usize result attempt \<times> futex_list \<times> context_list" where
  "futex cur addr fop val val2 addr2 loaded addr2_ok fs l =
     (if fop = FUTEX_WAIT then futex_wait cur addr loaded val fs l
      else if fop = FUTEX_WAKE then
        let (_, woken, fs', l') = wake_loop addr val 0 0 fs l in (Returned (Ok (of_nat woken)), fs', l')
      else if fop = FUTEX_REQUEUE then
        (case addr2_ok of
           Err e \<Rightarrow> (Returned (Err e), fs, l)
         | Ok _ \<Rightarrow>
             let (i, woken, fs', l') = wake_loop addr val 0 0 fs l
             in (Returned (Ok (of_nat woken)), requeue_loop addr addr2 val2 i 0 fs', l'))
      else (Returned (Err (Error EINVAL)), fs, l))"

section \<open>Lemmas\<close>

lemma mset_swap_remove_back:
  assumes "i < length xs"
  shows "mset xs = add_mset (xs ! i) (mset (swap_remove_back i xs))"
proof -
  obtain ys y where xs: "xs = ys @ [y]"
    using assms by (cases xs rule: rev_cases) auto
  show ?thesis
  proof (cases "Suc i = length xs")
    case True
    then show ?thesis
      by (simp add: swap_remove_back_def xs nth_append)
  next
    case False
    then have "i < length ys"
      using assms xs by simp
    then show ?thesis
      using False by (simp add: swap_remove_back_def xs nth_append mset_update add_mset_commute)
  qed
qed

lemma swap_remove_back_below: "j < i \<Longrightarrow> i < length xs \<Longrightarrow> swap_remove_back i xs ! j = xs ! j"
  by (auto simp: swap_remove_back_def nth_butlast)

text \<open>How many contexts wait on an address.\<close>

definition waiters :: "usize \<Rightarrow> futex_list \<Rightarrow> nat" where
  "waiters addr fs = size (filter_mset (\<lambda>e. fst e = addr) (mset fs))"

lemma waiters_filter: "waiters addr fs = length (filter (\<lambda>e. fst e = addr) fs)"
  by (simp add: waiters_def flip: mset_filter)

lemma waiters_0: "\<forall>j<length fs. fst (fs ! j) \<noteq> addr \<Longrightarrow> waiters addr fs = 0"
  by (auto simp: waiters_filter filter_empty_conv in_set_conv_nth) (metis fst_conv)

text \<open>
  The wake loop: the contexts \<open>ws\<close> that it takes off the list all wait on \<open>addr\<close>, they are unblocked in
  turn, everybody else stays, and it stops only when it has woken enough or nobody is left.
\<close>

lemma wake_loop_spec:
  assumes "wake_loop addr val i woken fs l = (i', woken', fs', l')"
    and "\<forall>j<i. j < length fs \<longrightarrow> fst (fs ! j) \<noteq> addr" "woken + length fs < 2 ^ 31"
  shows "\<exists>ws. mset fs = mset fs' + mset (map (Pair addr) ws) \<and> woken' = woken + length ws \<and> l' = wake_all ws l \<and>
    (\<forall>j<i'. j < length fs' \<longrightarrow> fst (fs' ! j) \<noteq> addr) \<and>
    (int woken' \<ge> sint val \<or> waiters addr fs' = 0) \<and> (ws \<noteq> [] \<longrightarrow> int woken' \<le> sint val)"
  using assms
proof (induction addr val i woken fs l rule: wake_loop.induct)
  case (1 addr val i woken fs l)
  have small: "sint (of_nat woken :: i32) = int woken"
    using "1.prems"(3) by (simp add: sint_i32 uint_nat unat_of_nat)
  show ?case
  proof (cases "i < length fs \<and> sint (of_nat woken :: i32) < sint val")
    case False
    then have eq: "i' = i" "woken' = woken" "fs' = fs" "l' = l"
      using "1.prems"(1) by (auto simp: wake_loop.simps [of addr val i])
    have "waiters addr fs = 0" if "length fs \<le> i"
      using that "1.prems"(2) by (intro waiters_0) auto
    then show ?thesis
      using False small eq "1.prems"(2) by (intro exI [of _ "[]"]) auto
  next
    case True
    show ?thesis
    proof (cases "fst (fs ! i) = addr")
      case match: True
      define c where "c = snd (fs ! i)"
      have fi: "fs ! i = (addr, c)"
        using match by (simp add: c_def prod_eq_iff)
      have step: "wake_loop addr val i (Suc woken) (swap_remove_back i fs) (set_context l c (\<lambda>c. fst (unblock c))) = (i', woken', fs', l')"
        using "1.prems"(1) True match by (simp add: wake_loop.simps [of addr val i woken] c_def)
      have below: "\<forall>j<i. j < length (swap_remove_back i fs) \<longrightarrow> fst (swap_remove_back i fs ! j) \<noteq> addr"
        using "1.prems"(2) True by (simp add: swap_remove_back_below)
      have sz: "Suc woken + length (swap_remove_back i fs) < 2 ^ 31"
        using "1.prems"(3) True by simp
      obtain ws where ws: "mset (swap_remove_back i fs) = mset fs' + mset (map (Pair addr) ws)"
          "woken' = Suc woken + length ws" "l' = wake_all ws (set_context l c (\<lambda>c. fst (unblock c)))"
          "\<forall>j<i'. j < length fs' \<longrightarrow> fst (fs' ! j) \<noteq> addr"
          "int woken' \<ge> sint val \<or> waiters addr fs' = 0" "ws \<noteq> [] \<longrightarrow> int woken' \<le> sint val"
        using "1.IH"(1) [OF True match step [unfolded c_def] below sz] unfolding c_def by blast
      have "mset fs = mset fs' + mset (map (Pair addr) (c # ws))"
        using mset_swap_remove_back [of i fs] True ws(1) fi by simp
      moreover have "int woken' \<le> sint val"
        using ws(2,6) True small by (cases ws) auto
      ultimately show ?thesis
        using ws by (intro exI [of _ "c # ws"]) simp
    next
      case False
      have step: "wake_loop addr val (Suc i) woken fs l = (i', woken', fs', l')"
        using "1.prems"(1) True False by (simp add: wake_loop.simps [of addr val i])
      have "\<forall>j<Suc i. j < length fs \<longrightarrow> fst (fs ! j) \<noteq> addr"
        using "1.prems"(2) False by (auto simp: less_Suc_eq)
      then show ?thesis
        using "1.IH"(2) [OF True False step] "1.prems"(3) by blast
    qed
  qed
qed

text \<open>The requeue loop moves waiters from one address to the other and nothing else.\<close>

lemma requeue_loop_spec:
  assumes "\<forall>j<i. j < length fs \<longrightarrow> fst (fs ! j) \<noteq> addr" "addr \<noteq> addr2" "requeued \<le> i" "requeued \<le> unat val2"
  shows "map snd (requeue_loop addr addr2 val2 i requeued fs) = map snd fs \<and>
    (\<forall>j<length fs. fst (requeue_loop addr addr2 val2 i requeued fs ! j) = fst (fs ! j) \<or>
       (fst (fs ! j) = addr \<and> fst (requeue_loop addr addr2 val2 i requeued fs ! j) = addr2)) \<and>
    waiters addr (requeue_loop addr addr2 val2 i requeued fs) = waiters addr fs - (unat val2 - requeued)"
  using assms
proof (induction addr addr2 val2 i requeued fs rule: requeue_loop.induct)
  case (1 addr addr2 val2 i requeued fs)
  let ?r = "requeue_loop addr addr2 val2"
  have small: "requeued < 2 ^ 64"
    using "1.prems"(4) unsigned_less [of val2, where ?'a = nat] by simp
  show ?case
  proof (cases "i < length fs \<and> (of_nat requeued :: usize) < val2")
    case False
    have "waiters addr fs = 0" if "length fs \<le> i"
      using that "1.prems"(1) by (intro waiters_0) auto
    moreover have "unat val2 \<le> requeued" if "\<not> (of_nat requeued :: usize) < val2"
      using that small by (simp add: word_less_nat_alt)
    ultimately show ?thesis
      using False by (auto simp: requeue_loop.simps [of addr addr2 val2 i])
  next
    case True
    have lt: "requeued < unat val2"
      using True small by (simp add: word_less_nat_alt)
    show ?thesis
    proof (cases "fst (fs ! i) = addr")
      case match: True
      define gs where "gs = fs[i := (addr2, snd (fs ! i))]"
      have r: "?r i requeued fs = ?r (Suc i) (Suc requeued) gs"
        using True match by (simp add: requeue_loop.simps [of addr addr2 val2 i] gs_def)
      have below: "\<forall>j<Suc i. j < length gs \<longrightarrow> fst (gs ! j) \<noteq> addr"
        using "1.prems"(1,2) True by (auto simp: gs_def less_Suc_eq nth_list_update)
      have ih: "map snd (?r (Suc i) (Suc requeued) gs) = map snd gs \<and>
          (\<forall>j<length gs. fst (?r (Suc i) (Suc requeued) gs ! j) = fst (gs ! j) \<or>
            (fst (gs ! j) = addr \<and> fst (?r (Suc i) (Suc requeued) gs ! j) = addr2)) \<and>
          waiters addr (?r (Suc i) (Suc requeued) gs) = waiters addr gs - (unat val2 - Suc requeued)"
        using "1.IH"(1) [OF True match below [unfolded gs_def] "1.prems"(2) Suc_le_mono [THEN iffD2, OF "1.prems"(3)] Suc_leI [OF lt]] unfolding gs_def .
      have "mset fs = add_mset (fs ! i) (mset gs - {#(addr2, snd (fs ! i))#})"
        using True by (simp add: gs_def mset_update)
      moreover have "(addr2, snd (fs ! i)) \<in># mset gs"
        using True by (metis gs_def length_list_update nth_list_update_eq nth_mem set_mset_mset)
      ultimately have "waiters addr fs = Suc (waiters addr gs)"
        using match "1.prems"(2) by (simp add: waiters_def filter_diff_mset)
      moreover have "map snd gs = map snd fs"
        by (simp add: gs_def map_update list_update_same_conv True)
      moreover have "fst (?r (Suc i) (Suc requeued) gs ! j) = fst (fs ! j) \<or>
          (fst (fs ! j) = addr \<and> fst (?r (Suc i) (Suc requeued) gs ! j) = addr2)" if j: "j < length fs" for j
      proof (cases "j = i")
        case eq: True
        then have "fst (gs ! j) = addr2"
          using j by (simp add: gs_def)
        then show ?thesis
          using ih j eq match by (auto simp: gs_def)
      next
        case False
        then have "gs ! j = fs ! j"
          by (simp add: gs_def)
        then show ?thesis
          using ih j by (metis gs_def length_list_update)
      qed
      ultimately show ?thesis
        unfolding r using ih lt by simp
    next
      case False
      then have "\<forall>j<Suc i. j < length fs \<longrightarrow> fst (fs ! j) \<noteq> addr"
        using "1.prems"(1) by (auto simp: less_Suc_eq)
      then show ?thesis
        using "1.IH"(2) [OF True False] "1.prems"(2-4) True False
        by (simp add: requeue_loop.simps [of addr addr2 val2 i])
    qed
  qed
qed

lemma waiters_add: "mset fs = mset fs' + mset (map (Pair addr) ws) \<Longrightarrow> waiters addr fs = waiters addr fs' + length ws"
proof -
  have "filter_mset (\<lambda>e. fst e = addr) (mset (map (Pair addr) ws)) = mset (map (Pair addr) ws)"
    by (induction ws) auto
  then show "mset fs = mset fs' + mset (map (Pair addr) ws) \<Longrightarrow> ?thesis"
    by (simp add: waiters_def)
qed

text \<open>The number woken is the number asked for, or everybody.\<close>

lemma wake_loop_count:
  assumes "wake_loop addr val 0 0 fs l = (i', woken', fs', l')" "length fs < 2 ^ 31"
  shows "woken' = min (nat (sint val)) (waiters addr fs) \<and>
    (\<exists>ws. mset fs = mset fs' + mset (map (Pair addr) ws) \<and> length ws = woken' \<and> l' = wake_all ws l) \<and>
    (\<forall>j<i'. j < length fs' \<longrightarrow> fst (fs' ! j) \<noteq> addr)"
proof -
  obtain ws where ws: "mset fs = mset fs' + mset (map (Pair addr) ws)" "woken' = length ws" "l' = wake_all ws l"
      "\<forall>j<i'. j < length fs' \<longrightarrow> fst (fs' ! j) \<noteq> addr" "int woken' \<ge> sint val \<or> waiters addr fs' = 0"
      "ws \<noteq> [] \<longrightarrow> int woken' \<le> sint val"
    using wake_loop_spec [OF assms(1)] assms(2) by auto
  have "waiters addr fs = waiters addr fs' + woken'"
    using waiters_add [OF ws(1)] ws(2) by simp
  then have "woken' = min (nat (sint val)) (waiters addr fs)"
    using ws(2,5,6) by (cases ws) auto
  then show ?thesis
    using ws by auto
qed

section \<open>Properties\<close>

text \<open>
  C24. \<open>FUTEX_WAKE\<close> wakes exactly as many contexts as it is asked to, or all that wait on the address if
  they are fewer, and returns their number: the contexts it takes off the list waited on that address,
  exactly they are unblocked, and every other entry stays on the list.
\<close>

theorem futex_wake_exact:
  assumes "length fs < 2 ^ 31"
  shows "\<exists>ws fs'. futex cur addr FUTEX_WAKE val val2 addr2 loaded ok fs l =
      (Returned (Ok (of_nat (length ws))), fs', wake_all ws l) \<and>
    length ws = min (nat (sint val)) (waiters addr fs) \<and>
    mset fs = mset fs' + mset (map (Pair addr) ws)"
proof -
  obtain i n fs' l' where w: "wake_loop addr val 0 0 fs l = (i, n, fs', l')"
    by (cases "wake_loop addr val 0 0 fs l")
  obtain ws where "n = min (nat (sint val)) (waiters addr fs)" "mset fs = mset fs' + mset (map (Pair addr) ws)"
      "length ws = n" "l' = wake_all ws l"
    using wake_loop_count [OF w assms] by auto
  then show ?thesis
    using w by (intro exI [of _ ws] exI [of _ fs']) (simp add: futex_def)
qed

theorem futex_wake_exact_witness:
  "\<exists>ws fs'. futex 9 64 FUTEX_WAKE 1 0 0 0 (Ok ()) [(64, 1), (72, 2), (64, 3)] empty_contexts =
      (Returned (Ok (of_nat (length ws))), fs', wake_all ws empty_contexts) \<and> length ws = 1"
proof -
  obtain ws fs' where "futex 9 64 FUTEX_WAKE 1 0 0 0 (Ok ()) [(64, 1), (72, 2), (64, 3)] empty_contexts =
      (Returned (Ok (of_nat (length ws))), fs', wake_all ws empty_contexts)"
    "length ws = min (nat (sint (1 :: i32))) (waiters 64 [(64, 1), (72, 2), (64, 3)])"
    using futex_wake_exact [of "[(64, 1), (72, 2), (64, 3)]" 9 64 1 0 0 0 "Ok ()" empty_contexts] by auto
  then show ?thesis
    by (intro exI [of _ ws] exI [of _ fs']) (simp add: waiters_filter)
qed

text \<open>
  \<open>FUTEX_REQUEUE\<close> loses nobody: with two different addresses it wakes \<open>val\<close> of the waiters, or all if
  they are fewer, and of the others it moves up to \<open>val2\<close> to the second address; every context that is
  not woken is still on the list, and those that waited elsewhere wait there still.
\<close>

theorem futex_requeue_keeps_waiters:
  assumes "length fs < 2 ^ 31" "addr \<noteq> addr2"
  shows "\<exists>ws fs' gs. futex cur addr FUTEX_REQUEUE val val2 addr2 loaded (Ok ()) fs l =
      (Returned (Ok (of_nat (length ws))), gs, wake_all ws l) \<and>
    length ws = min (nat (sint val)) (waiters addr fs) \<and> mset fs = mset fs' + mset (map (Pair addr) ws) \<and>
    map snd gs = map snd fs' \<and> waiters addr gs = waiters addr fs - length ws - unat val2 \<and>
    (\<forall>j<length fs'. fst (gs ! j) = fst (fs' ! j) \<or> (fst (fs' ! j) = addr \<and> fst (gs ! j) = addr2))"
proof -
  obtain i n fs' l' where w: "wake_loop addr val 0 0 fs l = (i, n, fs', l')"
    by (cases "wake_loop addr val 0 0 fs l")
  obtain ws where ws: "n = min (nat (sint val)) (waiters addr fs)" "mset fs = mset fs' + mset (map (Pair addr) ws)"
      "length ws = n" "l' = wake_all ws l" "\<forall>j<i. j < length fs' \<longrightarrow> fst (fs' ! j) \<noteq> addr"
    using wake_loop_count [OF w assms(1)] by auto
  define gs where "gs = requeue_loop addr addr2 val2 i 0 fs'"
  have "length fs' \<le> length fs"
    using arg_cong [OF ws(2), of size] by simp
  then have gs: "map snd gs = map snd fs'" "waiters addr gs = waiters addr fs' - unat val2"
      "\<forall>j<length fs'. fst (gs ! j) = fst (fs' ! j) \<or> (fst (fs' ! j) = addr \<and> fst (gs ! j) = addr2)"
    using requeue_loop_spec [OF ws(5) assms(2), of 0 val2] by (auto simp: gs_def)
  have "futex cur addr FUTEX_REQUEUE val val2 addr2 loaded (Ok ()) fs l = (Returned (Ok (of_nat n)), gs, l')"
    using w by (simp add: futex_def gs_def)
  moreover have "waiters addr fs' = waiters addr fs - length ws"
    using waiters_add [OF ws(2)] by simp
  ultimately show ?thesis
    using ws gs by (intro exI [of _ ws] exI [of _ fs'] exI [of _ gs]) auto
qed

theorem futex_requeue_keeps_waiters_witness:
  "\<exists>ws gs. futex 9 64 FUTEX_REQUEUE 1 1 80 0 (Ok ()) [(64, 1), (64, 2), (64, 3)] empty_contexts =
      (Returned (Ok (of_nat (length ws))), gs, wake_all ws empty_contexts) \<and> length ws = 1 \<and> waiters 64 gs = 1"
proof -
  obtain ws fs' gs where "futex 9 64 FUTEX_REQUEUE 1 1 80 0 (Ok ()) [(64, 1), (64, 2), (64, 3)] empty_contexts =
      (Returned (Ok (of_nat (length ws))), gs, wake_all ws empty_contexts)"
    "length ws = min (nat (sint (1 :: i32))) (waiters 64 [(64, 1), (64, 2), (64, 3)])"
    "waiters 64 gs = waiters 64 [(64, 1), (64, 2), (64, 3)] - length ws - unat (1 :: usize)"
    using futex_requeue_keeps_waiters [of "[(64, 1), (64, 2), (64, 3)]" 64 80 9 1 1 0 empty_contexts] by auto
  then show ?thesis
    by (intro exI [of _ ws] exI [of _ gs]) (simp add: waiters_filter)
qed

end
