(* ===== verification/Redoxfs_Structures.thy ===== *)
theory Redoxfs_Structures
  imports Memory_Files
begin

text \<open>
  The structures of the RedoxFS disk format (\<open>schemes/redoxfs/src\<close>): \<open>Extent\<close> and its block iterator,
  \<open>Header\<close>, \<open>Node\<close> and \<open>ExNode\<close>, with the bytes that \<open>Deref\<close> and \<open>DerefMut\<close> make of them. Each of
  the three packed structures fills one sector of 512 bytes. An array of the source is a list here;
  \<open>node_wf\<close>, \<open>header_wf\<close> and \<open>ex_node_wf\<close> state its length.
\<close>

section \<open>Extents (extent.rs)\<close>

record extent =
  ex_block :: u64
  ex_length :: u64

record block_iter =
  bi_block :: u64
  bi_length :: u64
  bi_i :: u64

definition extent_default :: extent where
  "extent_default = \<lparr>ex_block = 0, ex_length = 0\<rparr>"

definition extent_new :: "u64 \<Rightarrow> u64 \<Rightarrow> extent" where
  "extent_new block len = \<lparr>ex_block = block, ex_length = len\<rparr>"

definition extent_blocks :: "extent \<Rightarrow> block_iter" where
  "extent_blocks e = \<lparr>bi_block = ex_block e, bi_length = ex_length e, bi_i = 0\<rparr>"

definition block_iter_next :: "block_iter \<Rightarrow> (u64 \<times> usize) option \<times> block_iter" where
  "block_iter_next it =
     (if bi_i it < (bi_length it + 511) div 512
      then (Some (bi_block it + bi_i it, min 512 (bi_length it - bi_i it * 512)), it\<lparr>bi_i := bi_i it + 1\<rparr>)
      else (None, it))"

text \<open>The pairs that \<open>for (block, size) in iter\<close> runs through.\<close>

function block_iter_items :: "block_iter \<Rightarrow> (u64 \<times> usize) list" where
  "block_iter_items it =
     (case block_iter_next it of (None, _) \<Rightarrow> [] | (Some x, it') \<Rightarrow> x # block_iter_items it')"
  by auto

lemma below_succ: "i < (k :: u64) \<Longrightarrow> unat (i + 1) = Suc (unat i)"
proof -
  assume "i < k"
  then have "unat i < unat k" "unat k < 2 ^ 64"
    using unsigned_less [of k, where ?'a = nat] by (simp_all add: word_less_nat_alt)
  then show ?thesis
    by (simp add: unat_word_ariths)
qed

termination block_iter_items
  by (relation "measure (\<lambda>it. unat ((bi_length it + 511) div 512) - unat (bi_i it))")
    (auto simp: block_iter_next_def below_succ word_less_nat_alt split: if_splits)

declare block_iter_items.simps [simp del]

text \<open>The number of blocks of an extent.\<close>

definition block_count :: "u64 \<Rightarrow> nat" where
  "block_count len = unat ((len + 511) div 512)"

lemma block_count_less: "block_count len < 2 ^ 64"
  unfolding block_count_def using unsigned_less [of "(len + 511) div 512", where ?'a = nat] by simp

lemma block_iter_items_from:
  "k \<le> block_count len \<Longrightarrow>
   block_iter_items \<lparr>bi_block = b, bi_length = len, bi_i = of_nat k\<rparr> =
     map (\<lambda>j. (b + of_nat j, min 512 (len - of_nat j * 512))) [k..<block_count len]"
proof (induction "block_count len - k" arbitrary: k)
  case 0
  then have k: "k = block_count len"
    by simp
  have "block_count len < 2 ^ 64"
    by (rule block_count_less)
  then have "\<not> (of_nat k :: u64) < (len + 511) div 512"
    by (simp add: word_less_nat_alt k) (simp add: block_count_def)
  then show ?case
    by (subst block_iter_items.simps) (simp add: block_iter_next_def k)
next
  case (Suc m)
  have small: "block_count len < 2 ^ 64"
    by (rule block_count_less)
  have k: "k < block_count len"
    using Suc.hyps(2) by simp
  then have lt: "(of_nat k :: u64) < (len + 511) div 512"
    using small by (simp add: word_less_nat_alt) (simp add: block_count_def)
  have "block_iter_items \<lparr>bi_block = b, bi_length = len, bi_i = of_nat (Suc k)\<rparr> =
      map (\<lambda>j. (b + of_nat j, min 512 (len - of_nat j * 512))) [Suc k..<block_count len]"
    using Suc.hyps(2) k by (intro Suc.hyps(1)) auto
  then show ?case
    using lt k
    by (simp add: block_iter_items.simps [of "\<lparr>bi_block = b, bi_length = len, bi_i = of_nat k\<rparr>"]
        block_iter_next_def upt_conv_Cons add.commute)
qed

lemma block_iter_items_extent:
  "block_iter_items (extent_blocks e) =
     map (\<lambda>j. (ex_block e + of_nat j, min 512 (ex_length e - of_nat j * 512))) [0..<block_count (ex_length e)]"
  using block_iter_items_from [of 0 "ex_length e" "ex_block e"] by (simp add: extent_blocks_def)

definition encode_extent :: "extent \<Rightarrow> bytes" where
  "encode_extent e = le_bytes 8 (ex_block e) @ le_bytes 8 (ex_length e)"

definition decode_extent :: "bytes \<Rightarrow> nat \<Rightarrow> extent" where
  "decode_extent bs k = \<lparr>ex_block = field k 8 bs, ex_length = field (k + 8) 8 bs\<rparr>"

definition encode_extents :: "extent list \<Rightarrow> bytes" where
  "encode_extents es = concat (map encode_extent es)"

text \<open>The array of \<open>n\<close> extents at offset \<open>k\<close>.\<close>

definition decode_extents :: "bytes \<Rightarrow> nat \<Rightarrow> nat \<Rightarrow> extent list" where
  "decode_extents bs k n = map (\<lambda>i. decode_extent bs (k + 16 * i)) [0..<n]"

lemma length_encode_extent [simp]: "length (encode_extent e) = 16"
  by (simp add: encode_extent_def)

lemma length_encode_extents [simp]: "length (encode_extents es) = 16 * length es"
  by (induction es) (simp_all add: encode_extents_def)

lemma length_decode_extents [simp]: "length (decode_extents bs k n) = n"
  by (simp add: decode_extents_def)

lemma decode_extents_Suc: "decode_extents bs k (Suc n) = decode_extent bs k # decode_extents bs (k + 16) n"
proof -
  have "[0..<Suc n] = 0 # map Suc [0..<n]"
    by (simp add: map_Suc_upt upt_conv_Cons del: upt_Suc)
  then show ?thesis
    by (simp add: decode_extents_def algebra_simps del: upt_Suc)
qed

lemma decode_encode_extents:
  "decode_extents (p @ encode_extents es @ q) (length p) (length es) = es"
proof (induction es arbitrary: p)
  case Nil
  then show ?case by (simp add: decode_extents_def)
next
  case (Cons e es)
  have "decode_extents (p @ encode_extents (e # es) @ q) (length p + 16) (length es) = es"
    using Cons.IH [of "p @ encode_extent e"] by (simp add: encode_extents_def)
  moreover have "decode_extent (p @ encode_extents (e # es) @ q) (length p) = e"
    by (simp add: decode_extent_def encode_extents_def encode_extent_def field_def)
  ultimately show ?case
    by (simp add: decode_extents_Suc)
qed

section \<open>Header (header.rs)\<close>

record header =
  hd_signature :: bytes
  hd_version :: u64
  hd_uuid :: bytes
  hd_size :: u64
  hd_root :: u64
  hd_free :: u64
  hd_padding :: bytes

definition SIGNATURE :: bytes where
  "SIGNATURE = bytes_of ''RedoxFS'' @ [0]"

definition VERSION :: u64 where
  "VERSION = 1"

definition header_default :: header where
  "header_default =
     \<lparr>hd_signature = replicate 8 0, hd_version = 0, hd_uuid = replicate 16 0, hd_size = 0, hd_root = 0,
      hd_free = 0, hd_padding = replicate 456 0\<rparr>"

definition header_new :: "u64 \<Rightarrow> u64 \<Rightarrow> u64 \<Rightarrow> header" where
  "header_new sz root free =
     \<lparr>hd_signature = SIGNATURE, hd_version = VERSION, hd_uuid = replicate 16 0, hd_size = sz,
      hd_root = root, hd_free = free, hd_padding = replicate 456 0\<rparr>"

definition header_valid :: "header \<Rightarrow> bool" where
  "header_valid h \<longleftrightarrow> hd_signature h = SIGNATURE \<and> hd_version h = VERSION"

definition encode_header :: "header \<Rightarrow> bytes" where
  "encode_header h =
     hd_signature h @ le_bytes 8 (hd_version h) @ hd_uuid h @ le_bytes 8 (hd_size h) @
     le_bytes 8 (hd_root h) @ le_bytes 8 (hd_free h) @ hd_padding h"

definition decode_header :: "bytes \<Rightarrow> header" where
  "decode_header bs =
     \<lparr>hd_signature = take 8 bs, hd_version = field 8 8 bs, hd_uuid = take 16 (drop 16 bs),
      hd_size = field 32 8 bs, hd_root = field 40 8 bs, hd_free = field 48 8 bs,
      hd_padding = take 456 (drop 56 bs)\<rparr>"

definition header_wf :: "header \<Rightarrow> bool" where
  "header_wf h \<longleftrightarrow> length (hd_signature h) = 8 \<and> length (hd_uuid h) = 16 \<and> length (hd_padding h) = 456"

lemma length_encode_header [simp]: "header_wf h \<Longrightarrow> length (encode_header h) = 512"
  by (simp add: header_wf_def encode_header_def)

lemma decode_encode_header [simp]: "header_wf h \<Longrightarrow> decode_header (encode_header h) = h"
  by (simp add: header_wf_def encode_header_def decode_header_def field_def)

lemma header_wf_intros [simp]: "header_wf header_default" "header_wf (header_new s r f)"
  by (simp_all add: header_wf_def header_default_def header_new_def SIGNATURE_def bytes_of_def)

section \<open>Node (node.rs)\<close>

record node =
  nd_mode :: u16
  nd_uid :: u32
  nd_gid :: u32
  nd_name :: bytes
  nd_parent :: u64
  nd_next :: u64
  nd_extents :: "extent list"

definition NODE_TYPE :: u16 where "NODE_TYPE = 0xF000"
definition NODE_FILE :: u16 where "NODE_FILE = 0x8000"
definition NODE_DIR :: u16 where "NODE_DIR = 0x4000"
definition NODE_PERM :: u16 where "NODE_PERM = 0x0FFF"
definition MODE_EXEC :: u16 where "MODE_EXEC = 1"
definition MODE_WRITE :: u16 where "MODE_WRITE = 2"
definition MODE_READ :: u16 where "MODE_READ = 4"

definition node_default :: node where
  "node_default =
     \<lparr>nd_mode = 0, nd_uid = 0, nd_gid = 0, nd_name = replicate 246 0, nd_parent = 0, nd_next = 0,
      nd_extents = replicate 15 extent_default\<rparr>"

text \<open>\<open>bytes.iter_mut().zip(name.bytes())\<close> stops at the shorter of the two.\<close>

definition node_new :: "u16 \<Rightarrow> bytes \<Rightarrow> u64 \<Rightarrow> node" where
  "node_new mode name parent =
     \<lparr>nd_mode = mode, nd_uid = 0, nd_gid = 0, nd_name = fst (copy_into (replicate 246 0) name),
      nd_parent = parent, nd_next = 0, nd_extents = replicate 15 extent_default\<rparr>"

text \<open>\<open>None\<close> is \<open>Err(Utf8Error)\<close>.\<close>

definition node_name :: "node \<Rightarrow> bytes option" where
  "node_name n = (let s = takeWhile (\<lambda>b. b \<noteq> 0) (nd_name n) in if valid_utf8 s then Some s else None)"

definition node_is_dir :: "node \<Rightarrow> bool" where
  "node_is_dir n \<longleftrightarrow> nd_mode n AND NODE_TYPE = NODE_DIR"

definition node_is_file :: "node \<Rightarrow> bool" where
  "node_is_file n \<longleftrightarrow> nd_mode n AND NODE_TYPE = NODE_FILE"

definition node_permission :: "node \<Rightarrow> u32 \<Rightarrow> u32 \<Rightarrow> u16 \<Rightarrow> bool" where
  "node_permission n uid gid oper =
     (let perm = nd_mode n AND 7;
          perm = if nd_uid n = uid then perm OR (drop_bit 6 (nd_mode n) AND 7) else perm;
          perm = if nd_gid n = gid \<or> gid = 0 then perm OR (drop_bit 3 (nd_mode n) AND 7) else perm;
          perm = if uid = 0 then perm OR 7 else perm
      in perm AND oper = oper)"

definition node_size :: "node \<Rightarrow> u64" where
  "node_size n = fold (\<lambda>e s. s + ex_length e) (nd_extents n) 0"

definition encode_node :: "node \<Rightarrow> bytes" where
  "encode_node n =
     le_bytes 2 (nd_mode n) @ le_bytes 4 (nd_uid n) @ le_bytes 4 (nd_gid n) @ nd_name n @
     le_bytes 8 (nd_parent n) @ le_bytes 8 (nd_next n) @ encode_extents (nd_extents n)"

definition decode_node :: "bytes \<Rightarrow> node" where
  "decode_node bs =
     \<lparr>nd_mode = field 0 2 bs, nd_uid = field 2 4 bs, nd_gid = field 6 4 bs, nd_name = take 246 (drop 10 bs),
      nd_parent = field 256 8 bs, nd_next = field 264 8 bs, nd_extents = decode_extents bs 272 15\<rparr>"

definition node_wf :: "node \<Rightarrow> bool" where
  "node_wf n \<longleftrightarrow> length (nd_name n) = 246 \<and> length (nd_extents n) = 15"

lemma length_encode_node [simp]: "node_wf n \<Longrightarrow> length (encode_node n) = 512"
  by (simp add: node_wf_def encode_node_def)

lemma decode_encode_node [simp]:
  assumes "node_wf n"
  shows "decode_node (encode_node n) = n"
proof -
  let ?p = "le_bytes 2 (nd_mode n) @ le_bytes 4 (nd_uid n) @ le_bytes 4 (nd_gid n) @ nd_name n @
     le_bytes 8 (nd_parent n) @ le_bytes 8 (nd_next n)"
  have "decode_extents (encode_node n) 272 15 = nd_extents n"
    using decode_encode_extents [of ?p "nd_extents n" "[]"] assms by (simp add: node_wf_def encode_node_def)
  then show ?thesis
    using assms by (simp add: decode_node_def) (simp add: node_wf_def encode_node_def field_def)
qed

lemma node_wf_intros [simp]:
  "node_wf node_default" "node_wf (node_new m s p)" "length bs = 512 \<Longrightarrow> node_wf (decode_node bs)"
  by (simp_all add: node_wf_def node_default_def node_new_def decode_node_def)

section \<open>ExNode (ex_node.rs)\<close>

record ex_node =
  xn_prev :: u64
  xn_next :: u64
  xn_extents :: "extent list"

definition ex_node_default :: ex_node where
  "ex_node_default = \<lparr>xn_prev = 0, xn_next = 0, xn_extents = replicate 31 extent_default\<rparr>"

definition ex_node_size :: "ex_node \<Rightarrow> u64" where
  "ex_node_size n = fold (\<lambda>e s. s + ex_length e) (xn_extents n) 0"

definition encode_ex_node :: "ex_node \<Rightarrow> bytes" where
  "encode_ex_node n = le_bytes 8 (xn_prev n) @ le_bytes 8 (xn_next n) @ encode_extents (xn_extents n)"

definition decode_ex_node :: "bytes \<Rightarrow> ex_node" where
  "decode_ex_node bs = \<lparr>xn_prev = field 0 8 bs, xn_next = field 8 8 bs, xn_extents = decode_extents bs 16 31\<rparr>"

definition ex_node_wf :: "ex_node \<Rightarrow> bool" where
  "ex_node_wf n \<longleftrightarrow> length (xn_extents n) = 31"

lemma length_encode_ex_node [simp]: "ex_node_wf n \<Longrightarrow> length (encode_ex_node n) = 512"
  by (simp add: ex_node_wf_def encode_ex_node_def)

lemma decode_encode_ex_node [simp]:
  assumes "ex_node_wf n"
  shows "decode_ex_node (encode_ex_node n) = n"
proof -
  have "decode_extents (encode_ex_node n) 16 31 = xn_extents n"
    using decode_encode_extents [of "le_bytes 8 (xn_prev n) @ le_bytes 8 (xn_next n)" "xn_extents n" "[]"] assms
    by (simp add: ex_node_wf_def encode_ex_node_def)
  then show ?thesis
    by (simp add: decode_ex_node_def) (simp add: encode_ex_node_def field_def)
qed

section \<open>The disk format\<close>



end
