(* ===== verification/Live_Disk.thy ===== *)
theory Live_Disk
  imports Memory_Files
begin

text \<open>
  The \<open>disk:\<close> scheme of the live image (\<open>kernel/scheme/live.rs\<close>): one disk in memory, shared by all
  handles through an \<open>Arc\<close>. Its first contents, the file \<open>build/filesystem.bin\<close>, come from the build.
\<close>

record disk_handle =
  dh_path :: bytes
  dh_mode :: u16
  dh_seek :: usize

record live_disk =
  ld_data :: bytes
  ld_table :: "disk_handle handle_table"

definition disk_new :: "bytes \<Rightarrow> live_disk" where
  "disk_new fs = \<lparr>ld_data = fs, ld_table = new_table 0\<rparr>"

definition disk_open :: "bytes \<Rightarrow> usize \<Rightarrow> u32 \<Rightarrow> u32 \<Rightarrow> (usize result, live_disk) op" where
  "disk_open path flags uid gid s =
     (let (i, t) = add_handle (ld_table s) \<lparr>dh_path = bytes_of ''0'', dh_mode = MODE_FILE OR 484, dh_seek = 0\<rparr>
      in (Returned (Ok i), s\<lparr>ld_table := t\<rparr>))"

definition disk_dup :: "usize \<Rightarrow> bytes \<Rightarrow> (usize result, live_disk) op" where
  "disk_dup i buf s =
     (case get_handle (ld_table s) i EBADF of
        Err e \<Rightarrow> (Returned (Err e), s)
      | Ok h \<Rightarrow> (let (j, t) = add_handle (ld_table s) h in (Returned (Ok j), s\<lparr>ld_table := t\<rparr>)))"

definition disk_read :: "usize \<Rightarrow> bytes \<Rightarrow> (usize result \<times> bytes, live_disk) op" where
  "disk_read i buf s =
     (case get_handle (ld_table s) i EBADF of
        Err e \<Rightarrow> (Returned (Err e, buf), s)
      | Ok h \<Rightarrow> (let (buf', n, seek) = read_at (ld_data s) (dh_seek h) buf
                in (Returned (Ok n, buf'), s\<lparr>ld_table := set_handle (ld_table s) i (h\<lparr>dh_seek := seek\<rparr>)\<rparr>)))"

definition disk_write :: "usize \<Rightarrow> bytes \<Rightarrow> (usize result, live_disk) op" where
  "disk_write i buf s =
     (case get_handle (ld_table s) i EBADF of
        Err e \<Rightarrow> (Returned (Err e), s)
      | Ok h \<Rightarrow> (let (data, rest) = overwrite (ld_data s) (unat (dh_seek h)) buf;
                    n = of_nat (length buf - length rest)
                in (Returned (Ok n),
                    s\<lparr>ld_data := data, ld_table := set_handle (ld_table s) i (h\<lparr>dh_seek := dh_seek h + n\<rparr>)\<rparr>)))"

definition disk_seek :: "usize \<Rightarrow> usize \<Rightarrow> usize \<Rightarrow> (usize result, live_disk) op" where
  "disk_seek i pos whence s =
     (case get_handle (ld_table s) i EBADF of
        Err e \<Rightarrow> (Returned (Err e), s)
      | Ok h \<Rightarrow> (case seek_in (ld_data s) (dh_seek h) pos whence of
                  Err e \<Rightarrow> (Returned (Err e), s)
                | Ok k \<Rightarrow> (Returned (Ok k), s\<lparr>ld_table := set_handle (ld_table s) i (h\<lparr>dh_seek := k\<rparr>)\<rparr>)))"

definition disk_fpath :: "usize \<Rightarrow> bytes \<Rightarrow> (usize result \<times> bytes, live_disk) op" where
  "disk_fpath i buf s =
     (case get_handle (ld_table s) i EBADF of
        Err e \<Rightarrow> (Returned (Err e, buf), s)
      | Ok h \<Rightarrow> (let (buf', n) = fpath_into (bytes_of ''disk:'') (dh_path h) buf in (Returned (Ok n, buf'), s)))"

definition disk_fstat :: "usize \<Rightarrow> stat \<Rightarrow> (usize result \<times> stat, live_disk) op" where
  "disk_fstat i st s =
     (case get_handle (ld_table s) i EBADF of
        Err e \<Rightarrow> (Returned (Err e, st), s)
      | Ok h \<Rightarrow> (Returned (Ok 0, st\<lparr>st_mode := dh_mode h, st_uid := 0, st_gid := 0, st_size := of_nat (length (ld_data s))\<rparr>), s))"

definition disk_fsync :: "usize \<Rightarrow> (usize result, live_disk) op" where
  "disk_fsync i s =
     (case get_handle (ld_table s) i EBADF of Err e \<Rightarrow> (Returned (Err e), s) | Ok _ \<Rightarrow> (Returned (Ok 0), s))"

definition disk_close :: "usize \<Rightarrow> (usize result, live_disk) op" where
  "disk_close i s = (let (r, t) = close_handle (ld_table s) i EBADF in (Returned r, s\<lparr>ld_table := t\<rparr>))"

definition disk_ops :: "live_disk scheme_ops" where
  "disk_ops = default_ops
     \<lparr>op_open := disk_open, op_dup := disk_dup, op_read := disk_read, op_write := disk_write,
      op_seek := disk_seek, op_fpath := disk_fpath, op_fstat := disk_fstat, op_fsync := disk_fsync,
      op_close := disk_close\<rparr>"

lemma disk_ops_simps [simp]:
  "op_read disk_ops = disk_read" "op_write disk_ops = disk_write" "op_seek disk_ops = disk_seek" "op_fpath disk_ops = disk_fpath"
  by (simp_all add: disk_ops_def)

definition disk_contents :: "live_disk \<Rightarrow> usize \<Rightarrow> bytes option" where
  "disk_contents s i = map_option (\<lambda>_. ld_data s) (bt_get (handles (ld_table s)) i)"

definition disk_cursor :: "live_disk \<Rightarrow> usize \<Rightarrow> usize" where
  "disk_cursor s i = (case bt_get (handles (ld_table s)) i of None \<Rightarrow> 0 | Some h \<Rightarrow> dh_seek h)"

definition disk_inv :: "live_disk \<Rightarrow> bool" where
  "disk_inv s \<longleftrightarrow> length (ld_data s) < 2 ^ 63"

interpretation disk: file_scheme disk_ops disk_contents disk_cursor disk_inv
proof unfold_locales
  fix s :: live_disk and i d buf buf' n k pos whence r s'
  show "op_read disk_ops i buf s = (Returned (r, buf'), s') \<Longrightarrow> length buf' = length buf"
    by (auto simp: disk_read_def read_at_eq Let_def split: result.splits)
  show "op_fpath disk_ops i buf s = (Returned (r, buf'), s') \<Longrightarrow> length buf' = length buf"
    by (auto simp: disk_fpath_def fpath_into_eq copy_into_eq split: result.splits)
  assume inv: "disk_inv s" and d: "disk_contents s i = Some d"
  then obtain h where h: "bt_get (handles (ld_table s)) i = Some h" "d = ld_data s"
    by (auto simp: disk_contents_def)
  show "length d < 2 ^ 63"
    using inv h by (simp add: disk_inv_def)
  show "\<exists>s'. op_read disk_ops i buf s = (Returned (Ok n, buf'), s') \<and> disk_inv s' \<and> disk_contents s' = disk_contents s \<and> disk_cursor s' i = k"
    if "read_at d (disk_cursor s i) buf = (buf', n, k)"
    using inv h that
    by (auto simp: disk_read_def get_handle_def disk_cursor_def disk_contents_def set_handle_def disk_inv_def fun_eq_iff)
  show "\<exists>s'. op_seek disk_ops i pos whence s = (Returned (Ok k), s') \<and> disk_inv s' \<and> disk_contents s' = disk_contents s \<and> disk_cursor s' i = k"
    if "seek_in d (disk_cursor s i) pos whence = Ok k"
    using inv h that
    by (auto simp: disk_seek_def get_handle_def disk_cursor_def disk_contents_def set_handle_def disk_inv_def fun_eq_iff)
qed

text \<open>
  The live disk is a disk: a write at the cursor of an open handle replaces the bytes there, as many
  as fit, and nothing else; the disk never changes its length; and whoever then seeks to that position,
  through any open handle, and reads, in pieces of any sizes, gets what was written followed by the
  old bytes.
\<close>

theorem disk_write_then_read:
  assumes "disk_inv s" "bt_get (handles (ld_table s)) i \<noteq> None" "bt_get (handles (ld_table s)) j \<noteq> None"
    and "disk_cursor s i = p" "unat p \<le> length (ld_data s)"
  shows "\<exists>n s1 s2 s3. disk_write i buf s = (Returned (Ok (of_nat n)), s1) \<and>
    n = min (length buf) (length (ld_data s) - unat p) \<and>
    ld_data s1 = take (unat p) (ld_data s) @ take n buf @ drop (unat p + n) (ld_data s) \<and>
    length (ld_data s1) = length (ld_data s) \<and> disk_inv s1 \<and>
    disk_seek j p SEEK_SET s1 = (Returned (Ok p), s2) \<and>
    read_many disk_ops j bufs s2 =
      (take (sum_list (map length bufs)) (take n buf @ drop (unat p + n) (ld_data s)), s3)"
proof -
  define n where "n = min (length buf) (length (ld_data s) - unat p)"
  obtain h where h: "bt_get (handles (ld_table s)) i = Some h" "dh_seek h = p"
    using assms(2,4) by (auto simp: disk_cursor_def)
  define s1 where "s1 = s\<lparr>ld_data := take (unat p) (ld_data s) @ take n buf @ drop (unat p + n) (ld_data s),
      ld_table := set_handle (ld_table s) i (h\<lparr>dh_seek := p + of_nat n\<rparr>)\<rparr>"
  have w: "disk_write i buf s = (Returned (Ok (of_nat n)), s1)"
    using h by (auto simp: disk_write_def get_handle_def overwrite_eq Let_def n_def s1_def min_def)
  have len: "length (ld_data s1) = length (ld_data s)"
    using assms(5) by (auto simp: s1_def n_def)
  then have inv1: "disk_inv s1"
    using assms(1) by (simp add: disk_inv_def)
  have c1: "disk_contents s1 j = Some (ld_data s1)"
    using assms(3) h by (cases "j = i") (auto simp: disk_contents_def s1_def set_handle_def)
  have "seek_in (ld_data s1) (disk_cursor s1 j) p SEEK_SET = Ok p"
    using inv1 assms(5) len by (intro seek_set) (auto simp: disk_inv_def)
  then obtain s2 where s2: "disk_seek j p SEEK_SET s1 = (Returned (Ok p), s2)" "disk_inv s2"
      "disk_contents s2 = disk_contents s1" "disk_cursor s2 j = p"
    using disk.seek_cursor [OF inv1 c1] unfolding disk_ops_simps by blast
  have dr: "drop (unat p) (ld_data s1) = take n buf @ drop (unat p + n) (ld_data s)"
    using assms(5) by (simp add: s1_def)
  obtain s3 where "read_many disk_ops j bufs s2 =
      (take (sum_list (map length bufs)) (take n buf @ drop (unat p + n) (ld_data s)), s3)"
    using disk.read_many_contents [OF s2(2), of j "ld_data s1" bufs] s2(3,4) c1 dr by auto
  then show ?thesis
    using w len inv1 s2(1) n_def by (auto simp: s1_def)
qed

theorem disk_write_then_read_witness:
  "\<exists>s1 s2 s3. disk_write 0 [8, 9] (snd (disk_open [] 0 0 0 (disk_new [1, 2, 3, 4]))) = (Returned (Ok 2), s1) \<and>
     disk_seek 0 0 SEEK_SET s1 = (Returned (Ok 0), s2) \<and> read_many disk_ops 0 [[0], [0, 0]] s2 = ([8, 9, 3], s3)"
proof -
  let ?s = "snd (disk_open [] 0 0 0 (disk_new [1, 2, 3, 4]))"
  have "disk_inv ?s" "bt_get (handles (ld_table ?s)) 0 \<noteq> None" "disk_cursor ?s 0 = 0" "ld_data ?s = [1, 2, 3, 4]"
    by (simp_all add: disk_open_def disk_new_def disk_inv_def disk_cursor_def add_handle_def new_table_def)
  then show ?thesis
    using disk_write_then_read [of ?s 0 0 0 "[8, 9]" "[[0], [0, 0]]"] by auto
qed

end
