(* ===== verification/Redoxfs_Disk.thy ===== *)
theory Redoxfs_Disk
  imports Live_Disk
begin

text \<open>
  The trait \<open>Disk\<close> of RedoxFS (\<open>schemes/redoxfs/src/disk.rs\<close>) and its implementation \<open>Image\<close> on a file
  (\<open>schemes/redoxfs/scheme/image.rs\<close>). The locale \<open>sector_disk\<close> states what the file system relies on: a
  disk is an array of sectors of 512 bytes, and whole sectors inside it are read and written without
  an error. \<open>Image\<close> on a file of the kernel's live \<open>disk:\<close> scheme is such a disk.
\<close>

section \<open>The trait\<close>

text \<open>A \<open>&mut [u8]\<close> argument comes back with the result.\<close>

record 'd disk_impl =
  d_read_at :: "u64 \<Rightarrow> bytes \<Rightarrow> 'd \<Rightarrow> (usize result \<times> bytes) \<times> 'd"
  d_write_at :: "u64 \<Rightarrow> bytes \<Rightarrow> 'd \<Rightarrow> usize result \<times> 'd"
  d_size :: "'d \<Rightarrow> u64 result \<times> 'd"

text \<open>The bytes of \<open>n\<close> sectors, and the sectors after \<open>n\<close> of them are written.\<close>

type_synonym sectors = "nat \<Rightarrow> bytes"

definition read_sectors :: "sectors \<Rightarrow> nat \<Rightarrow> nat \<Rightarrow> bytes" where
  "read_sectors C b n = concat (map C [b..<b + n])"

definition write_sectors :: "sectors \<Rightarrow> nat \<Rightarrow> bytes \<Rightarrow> sectors" where
  "write_sectors C b bs =
     (\<lambda>k. if b \<le> k \<and> k < b + length bs div 512 then take 512 (drop (512 * (k - b)) bs) else C k)"

definition whole_sectors :: "bytes \<Rightarrow> bool" where
  "whole_sectors bs \<longleftrightarrow> length bs mod 512 = 0"

locale sector_disk =
  fixes D :: "'d disk_impl" and valid :: "'d \<Rightarrow> bool" and sectors_of :: "'d \<Rightarrow> sectors" and sector_count :: "'d \<Rightarrow> nat"
  assumes count_small: "valid d \<Longrightarrow> sector_count d < 2 ^ 54"
    and sector_length: "valid d \<Longrightarrow> k < sector_count d \<Longrightarrow> length (sectors_of d k) = 512"
    and read_whole: "valid d \<Longrightarrow> whole_sectors buf \<Longrightarrow> unat b + length buf div 512 \<le> sector_count d \<Longrightarrow>
      \<exists>d'. d_read_at D b buf d = ((Ok (of_nat (length buf)), read_sectors (sectors_of d) (unat b) (length buf div 512)), d') \<and>
        valid d' \<and> sector_count d' = sector_count d \<and> sectors_of d' = sectors_of d"
    and write_whole: "valid d \<Longrightarrow> whole_sectors buf \<Longrightarrow> unat b + length buf div 512 \<le> sector_count d \<Longrightarrow>
      \<exists>d'. d_write_at D b buf d = (Ok (of_nat (length buf)), d') \<and>
        valid d' \<and> sector_count d' = sector_count d \<and> sectors_of d' = write_sectors (sectors_of d) (unat b) buf"
    and size_of_disk: "valid d \<Longrightarrow>
      \<exists>n d'. d_size D d = (Ok n, d') \<and> unat n div 512 = sector_count d \<and> valid d' \<and> sector_count d' = sector_count d \<and> sectors_of d' = sectors_of d"

section \<open>Image (image.rs)\<close>

text \<open>
  \<open>std::fs::File\<close> with \<open>Seek\<close>, \<open>Read\<close> and \<open>Write\<close>; \<open>SeekFrom\<close> of \<open>std::io\<close>. Only whether an
  \<open>io::Error\<close> occurs matters here: \<open>try_disk!\<close> prints it and returns \<open>EIO\<close>.
\<close>

datatype seek_from = FromStart u64 | FromEnd u64

record 'f file_impl =
  f_seek :: "seek_from \<Rightarrow> 'f \<Rightarrow> u64 result \<times> 'f"
  f_read :: "bytes \<Rightarrow> 'f \<Rightarrow> (usize result \<times> bytes) \<times> 'f"
  f_write :: "bytes \<Rightarrow> 'f \<Rightarrow> usize result \<times> 'f"

record 'f image =
  im_file :: 'f

definition try_disk :: "'a result \<times> 'f \<Rightarrow> ('a \<Rightarrow> 'f \<Rightarrow> 'b result \<times> 'f) \<Rightarrow> 'b result \<times> 'f" where
  "try_disk r k = (case r of (Ok v, f) \<Rightarrow> k v f | (Err _, f) \<Rightarrow> (Err (Error EIO), f))"

text \<open>\<open>File::open(path)\<close> has given \<open>r\<close>.\<close>

definition image_open :: "'f result \<Rightarrow> 'f image result" where
  "image_open r = (case r of Ok f \<Rightarrow> Ok \<lparr>im_file = f\<rparr> | Err _ \<Rightarrow> Err (Error EIO))"

definition image_read_at :: "'f file_impl \<Rightarrow> u64 \<Rightarrow> bytes \<Rightarrow> 'f image \<Rightarrow> (usize result \<times> bytes) \<times> 'f image" where
  "image_read_at F block buffer d =
     (case f_seek F (FromStart (block * 512)) (im_file d) of
        (Err _, f) \<Rightarrow> ((Err (Error EIO), buffer), d\<lparr>im_file := f\<rparr>)
      | (Ok _, f) \<Rightarrow>
          (case f_read F buffer f of
             ((Err _, buffer'), f') \<Rightarrow> ((Err (Error EIO), buffer'), d\<lparr>im_file := f'\<rparr>)
           | ((Ok count, buffer'), f') \<Rightarrow> ((Ok count, buffer'), d\<lparr>im_file := f'\<rparr>)))"

definition image_write_at :: "'f file_impl \<Rightarrow> u64 \<Rightarrow> bytes \<Rightarrow> 'f image \<Rightarrow> usize result \<times> 'f image" where
  "image_write_at F block buffer d =
     (let (r, f) = try_disk (f_seek F (FromStart (block * 512)) (im_file d))
            (\<lambda>_ f. try_disk (f_write F buffer f) (\<lambda>count f. (Ok count, f)))
      in (r, d\<lparr>im_file := f\<rparr>))"

definition image_size :: "'f file_impl \<Rightarrow> 'f image \<Rightarrow> u64 result \<times> 'f image" where
  "image_size F d =
     (let (r, f) = try_disk (f_seek F (FromEnd 0) (im_file d)) (\<lambda>n f. (Ok n, f)) in (r, d\<lparr>im_file := f\<rparr>))"

definition image_impl :: "'f file_impl \<Rightarrow> 'f image disk_impl" where
  "image_impl F = \<lparr>d_read_at = image_read_at F, d_write_at = image_write_at F, d_size = image_size F\<rparr>"


section \<open>An image on a file\<close>

text \<open>
  What \<open>Image\<close> relies on: \<open>seek\<close> from the start moves the cursor, \<open>seek\<close> to the end returns the
  length, and \<open>read\<close> and \<open>write\<close> that stay inside the file are complete.
\<close>

locale backing_file =
  fixes F :: "'f file_impl" and open_file :: "'f \<Rightarrow> bool" and contents :: "'f \<Rightarrow> bytes" and cursor :: "'f \<Rightarrow> nat"
  assumes contents_small: "open_file f \<Longrightarrow> length (contents f) < 2 ^ 63"
    and seek_start: "open_file f \<Longrightarrow> unat p \<le> length (contents f) \<Longrightarrow>
      \<exists>f'. f_seek F (FromStart p) f = (Ok p, f') \<and> open_file f' \<and> contents f' = contents f \<and> cursor f' = unat p"
    and seek_end: "open_file f \<Longrightarrow>
      \<exists>f'. f_seek F (FromEnd 0) f = (Ok (of_nat (length (contents f))), f') \<and> open_file f' \<and> contents f' = contents f"
    and read_inside: "open_file f \<Longrightarrow> cursor f + length buf \<le> length (contents f) \<Longrightarrow>
      \<exists>f'. f_read F buf f = ((Ok (of_nat (length buf)), take (length buf) (drop (cursor f) (contents f))), f') \<and>
        open_file f' \<and> contents f' = contents f"
    and write_inside: "open_file f \<Longrightarrow> cursor f + length buf \<le> length (contents f) \<Longrightarrow>
      \<exists>f'. f_write F buf f = (Ok (of_nat (length buf)), f') \<and> open_file f' \<and>
        contents f' = take (cursor f) (contents f) @ buf @ drop (cursor f + length buf) (contents f)"

text \<open>The sectors of a byte string.\<close>

definition sectors_in :: "bytes \<Rightarrow> sectors" where
  "sectors_in bs k = take 512 (drop (512 * k) bs)"

lemma read_sectors_in:
  "512 * (b + n) \<le> length bs \<Longrightarrow> read_sectors (sectors_in bs) b n = take (512 * n) (drop (512 * b) bs)"
proof (induction n)
  case 0
  then show ?case by (simp add: read_sectors_def)
next
  case (Suc n)
  then have "read_sectors (sectors_in bs) b (Suc n) = take (512 * n) (drop (512 * b) bs) @ sectors_in bs (b + n)"
    by (simp add: read_sectors_def)
  also have "sectors_in bs (b + n) = take 512 (drop (512 * n) (drop (512 * b) bs))"
    by (simp add: sectors_in_def algebra_simps)
  finally show ?case
    using take_add [of "512 * n" 512 "drop (512 * b) bs"] by (simp add: add.commute)
qed

lemma write_sectors_in:
  assumes "whole_sectors buf" "512 * b + length buf \<le> length bs"
  shows "sectors_in (take (512 * b) bs @ buf @ drop (512 * b + length buf) bs) = write_sectors (sectors_in bs) b buf"
proof
  fix k
  obtain n where n: "length buf = 512 * n"
    using assms(1) by (auto simp: whole_sectors_def)
  consider "k < b" | "b \<le> k" "k < b + n" | "b + n \<le> k"
    by linarith
  then show "sectors_in (take (512 * b) bs @ buf @ drop (512 * b + length buf) bs) k = write_sectors (sectors_in bs) b buf k"
  proof cases
    case 1
    then have "512 * k + 512 \<le> 512 * b"
      by simp
    moreover have "take 512 (drop (512 * k) (take (512 * b) bs)) = take 512 (drop (512 * k) bs)"
      using calculation by (simp add: drop_take)
    ultimately show ?thesis
      using 1 n assms(2) by (simp add: sectors_in_def write_sectors_def)
  next
    case 2
    then have "512 * (k - b) + 512 \<le> 512 * n"
      by simp
    then show ?thesis
      using 2 n assms(2) by (simp add: sectors_in_def write_sectors_def min_def right_diff_distrib')
  next
    case 3
    then have "512 * (b + n) \<le> 512 * k"
      by simp
    then show ?thesis
      using 3 n assms(2) by (simp add: sectors_in_def write_sectors_def min_def algebra_simps)
  qed
qed

context backing_file
begin

lemma image_seek:
  assumes "open_file f" "unat b + n \<le> length (contents f) div 512"
  shows "\<exists>f'. f_seek F (FromStart (b * 512)) f = (Ok (b * 512), f') \<and> open_file f' \<and> contents f' = contents f \<and>
    cursor f' = 512 * unat b \<and> 512 * unat b + 512 * n \<le> length (contents f)"
proof -
  have le: "512 * unat b + 512 * n \<le> length (contents f)"
    using assms(2) by linarith
  then have "unat (b * 512) = 512 * unat b"
    using contents_small [OF assms(1)] by (simp add: unat_word_ariths)
  then show ?thesis
    using seek_start [OF assms(1), of "b * 512"] le by auto
qed

end

sublocale backing_file \<subseteq> image: sector_disk "image_impl F" "\<lambda>d. open_file (im_file d)" "\<lambda>d. sectors_in (contents (im_file d))"
    "\<lambda>d. length (contents (im_file d)) div 512"
proof unfold_locales
  fix d :: "'f image" and k buf and b :: u64
  assume d: "open_file (im_file d)"
  show "length (contents (im_file d)) div 512 < 2 ^ 54"
    using contents_small [OF d] by simp
  show "length (sectors_in (contents (im_file d)) k) = 512" if "k < length (contents (im_file d)) div 512"
    using that by (simp add: sectors_in_def)
  show "\<exists>n d'. d_size (image_impl F) d = (Ok n, d') \<and> unat n div 512 = length (contents (im_file d)) div 512 \<and>
      open_file (im_file d') \<and> length (contents (im_file d')) div 512 = length (contents (im_file d)) div 512 \<and>
      sectors_in (contents (im_file d')) = sectors_in (contents (im_file d))"
    using seek_end [OF d] contents_small [OF d]
    by (fastforce simp: image_impl_def image_size_def try_disk_def)
  assume buf: "whole_sectors buf" and "unat b + length buf div 512 \<le> length (contents (im_file d)) div 512"
  then obtain f where f: "f_seek F (FromStart (b * 512)) (im_file d) = (Ok (b * 512), f)" "open_file f"
      "contents f = contents (im_file d)" "cursor f = 512 * unat b"
      "512 * unat b + 512 * (length buf div 512) \<le> length (contents (im_file d))"
    using image_seek [OF d] by blast
  have len: "512 * (length buf div 512) = length buf"
    using buf by (auto simp: whole_sectors_def)
  obtain f1 where "f_read F buf f = ((Ok (of_nat (length buf)), take (length buf) (drop (cursor f) (contents f))), f1)"
      "open_file f1" "contents f1 = contents f"
    using read_inside [OF f(2), of buf] f(3-5) len by auto
  then show "\<exists>d'. d_read_at (image_impl F) b buf d =
      ((Ok (of_nat (length buf)), read_sectors (sectors_in (contents (im_file d))) (unat b) (length buf div 512)), d') \<and>
      open_file (im_file d') \<and> length (contents (im_file d')) div 512 = length (contents (im_file d)) div 512 \<and>
      sectors_in (contents (im_file d')) = sectors_in (contents (im_file d))"
    using f len by (simp add: image_impl_def image_read_at_def read_sectors_in algebra_simps)
  obtain f2 where "f_write F buf f = (Ok (of_nat (length buf)), f2)" "open_file f2"
      "contents f2 = take (cursor f) (contents f) @ buf @ drop (cursor f + length buf) (contents f)"
    using write_inside [OF f(2), of buf] f(3-5) len by auto
  then show "\<exists>d'. d_write_at (image_impl F) b buf d = (Ok (of_nat (length buf)), d') \<and>
      open_file (im_file d') \<and> length (contents (im_file d')) div 512 = length (contents (im_file d)) div 512 \<and>
      sectors_in (contents (im_file d')) = write_sectors (sectors_in (contents (im_file d))) (unat b) buf"
    using f len buf
    by (simp add: image_impl_def image_write_at_def try_disk_def write_sectors_in)
qed

section \<open>An image on the live disk\<close>

text \<open>
  \<open>File\<close> on Redox is a descriptor whose calls reach the scheme; for a handle \<open>i\<close> of the kernel's live
  \<open>disk:\<close> scheme they are \<open>disk_seek\<close>, \<open>disk_read\<close> and \<open>disk_write\<close>, which never wait.
\<close>

definition returned_or :: "'r \<Rightarrow> 'r attempt \<times> 's \<Rightarrow> 'r \<times> 's" where
  "returned_or r0 x = (case x of (Returned r, s) \<Rightarrow> (r, s) | (_, s) \<Rightarrow> (r0, s))"

definition live_file :: "usize \<Rightarrow> live_disk file_impl" where
  "live_file i =
     \<lparr>f_seek = (\<lambda>w s. returned_or (Err (Error EIO))
        (case w of FromStart p \<Rightarrow> disk_seek i p SEEK_SET s | FromEnd p \<Rightarrow> disk_seek i p SEEK_END s)),
      f_read = (\<lambda>buf s. returned_or (Err (Error EIO), buf) (disk_read i buf s)),
      f_write = (\<lambda>buf s. returned_or (Err (Error EIO)) (disk_write i buf s))\<rparr>"

definition live_file_open :: "usize \<Rightarrow> live_disk \<Rightarrow> bool" where
  "live_file_open i s \<longleftrightarrow> disk_inv s \<and> bt_get (handles (ld_table s)) i \<noteq> None"

interpretation live: backing_file "live_file i" "live_file_open i" ld_data "\<lambda>s. unat (disk_cursor s i)" for i
proof unfold_locales
  fix s and p and buf :: bytes
  assume s: "live_file_open i s"
  then obtain h where h: "bt_get (handles (ld_table s)) i = Some h" "length (ld_data s) < 2 ^ 63"
    by (auto simp: live_file_open_def disk_inv_def)
  show "length (ld_data s) < 2 ^ 63"
    by (fact h(2))
  have sint_length: "sint (of_nat (length (ld_data s)) :: usize) = int (length (ld_data s))"
    using h(2) by (simp add: sint_i64 uint_nat)
  note keeps = live_file_open_def disk_inv_def set_handle_def disk_cursor_def
  show "\<exists>s'. f_seek (live_file i) (FromStart p) s = (Ok p, s') \<and> live_file_open i s' \<and> ld_data s' = ld_data s \<and>
      unat (disk_cursor s' i) = unat p" if "unat p \<le> length (ld_data s)"
    using h that seek_set [of "ld_data s" p "dh_seek h"]
    by (auto simp: live_file_def returned_or_def disk_seek_def get_handle_def keeps)
  show "\<exists>s'. f_seek (live_file i) (FromEnd 0) s = (Ok (of_nat (length (ld_data s))), s') \<and> live_file_open i s' \<and>
      ld_data s' = ld_data s"
    using h sint_length by (auto simp: live_file_def returned_or_def disk_seek_def get_handle_def keeps seek_in_def Let_def)
  assume le: "unat (disk_cursor s i) + length buf \<le> length (ld_data s)"
  show "\<exists>s'. f_read (live_file i) buf s =
      ((Ok (of_nat (length buf)), take (length buf) (drop (unat (disk_cursor s i)) (ld_data s))), s') \<and>
      live_file_open i s' \<and> ld_data s' = ld_data s"
    using h le
    by (auto simp: live_file_def returned_or_def disk_read_def get_handle_def read_at_eq Let_def keeps)
  show "\<exists>s'. f_write (live_file i) buf s = (Ok (of_nat (length buf)), s') \<and> live_file_open i s' \<and>
      ld_data s' = take (unat (disk_cursor s i)) (ld_data s) @ buf @ drop (unat (disk_cursor s i) + length buf) (ld_data s)"
    using h le
    by (auto simp: live_file_def returned_or_def disk_write_def get_handle_def overwrite_eq Let_def keeps)
qed

end
