(* ===== verification/Redoxfs.thy ===== *)
theory Redoxfs
  imports Redoxfs_Structures Redoxfs_Disk
begin

text \<open>
  The RedoxFS file system (\<open>schemes/redoxfs/src/filesystem.rs\<close>): its state is the disk, the sector the
  file system starts at and the header. \<open>D\<close> is the implementation of the \<open>Disk\<close> trait. A function that
  follows the \<open>next\<close> chain of nodes recurses without a bound, so on a cyclic chain it does not return;
  such a function has an \<open>option\<close> type and \<open>None\<close> is not returning. \<open>read_node\<close> and \<open>write_node\<close> can
  also panic, in their slices and assertions.
\<close>

section \<open>State and combinators\<close>

record 'd file_system =
  fs_disk :: 'd
  fs_block :: u64
  fs_header :: "u64 \<times> header"

text \<open>\<open>try!\<close>: between calls that return, before a call that may not return, and after one.\<close>

definition try_st :: "'a result \<times> 's \<Rightarrow> ('a \<Rightarrow> 's \<Rightarrow> 'b result \<times> 's) \<Rightarrow> 'b result \<times> 's" where
  "try_st m k = (case m of (Ok a, s) \<Rightarrow> k a s | (Err e, s) \<Rightarrow> (Err e, s))"

definition try_rec :: "'a result \<times> 's \<Rightarrow> ('a \<Rightarrow> 's \<Rightarrow> ('b result \<times> 's) option) \<Rightarrow> ('b result \<times> 's) option" where
  "try_rec m k = (case m of (Ok a, s) \<Rightarrow> k a s | (Err e, s) \<Rightarrow> Some (Err e, s))"

definition try_opt :: "('a result \<times> 's) option \<Rightarrow> ('a \<Rightarrow> 's \<Rightarrow> ('b result \<times> 's) option) \<Rightarrow> ('b result \<times> 's) option" where
  "try_opt m k = Option.bind m (\<lambda>r. try_rec r k)"

lemma try_simps [simp, result_simps]:
  "try_st (Ok a, s) k = k a s" "try_st (Err e, s) k = (Err e, s)"
  "try_rec (Ok a, s) k' = k' a s" "try_rec (Err e, s) k' = Some (Err e, s)"
  "try_opt (Some r) k' = try_rec r k'" "try_opt None k' = None"
  by (simp_all add: try_st_def try_rec_def try_opt_def)

lemma try_rec_mono [partial_function_mono]:
  assumes "\<And>a s. mono_option (\<lambda>f. k f a s)"
  shows "mono_option (\<lambda>f. try_rec m (k f))"
  unfolding try_rec_def using assms
  by (auto simp: monotone_def flat_ord_def split: prod.splits result.splits)

lemma try_opt_mono [partial_function_mono]:
  assumes "mono_option m" "\<And>a s. mono_option (\<lambda>f. k f a s)"
  shows "mono_option (\<lambda>f. try_opt (m f) (k f))"
  unfolding try_opt_def by (intro bind_mono assms try_rec_mono)

definition fs_read_at :: "'d disk_impl \<Rightarrow> u64 \<Rightarrow> bytes \<Rightarrow> 'd file_system \<Rightarrow> (usize result \<times> bytes) \<times> 'd file_system" where
  "fs_read_at D block buffer fs =
     (let (r, d) = d_read_at D (fs_block fs + block) buffer (fs_disk fs) in (r, fs\<lparr>fs_disk := d\<rparr>))"

definition fs_write_at :: "'d disk_impl \<Rightarrow> u64 \<Rightarrow> bytes \<Rightarrow> 'd file_system \<Rightarrow> usize result \<times> 'd file_system" where
  "fs_write_at D block buffer fs =
     (let (r, d) = d_write_at D (fs_block fs + block) buffer (fs_disk fs) in (r, fs\<lparr>fs_disk := d\<rparr>))"

section \<open>Opening and creating a file system\<close>

text \<open>
  The loop \<open>for block in 0..65536\<close> with \<open>n\<close> rounds to go. The disk is returned beside the result: its
  contents outlive the \<open>Box<Disk>\<close> that an error drops.
\<close>

fun open_from :: "'d disk_impl \<Rightarrow> nat \<Rightarrow> u64 \<Rightarrow> 'd \<Rightarrow> 'd file_system result \<times> 'd" where
  "open_from D 0 block disk = (Err (Error ENOENT), disk)"
| "open_from D (Suc n) block disk =
     (case d_read_at D (block + 0) (encode_header header_default) disk of
        ((Err e, _), d) \<Rightarrow> (Err e, d)
      | ((Ok _, buf), d) \<Rightarrow>
          (let h = decode_header buf
           in if header_valid h
              then (case d_read_at D (block + hd_root h) (encode_node node_default) d of
                      ((Err e, _), d) \<Rightarrow> (Err e, d)
                    | ((Ok _, _), d) \<Rightarrow>
                        (case d_read_at D (block + hd_free h) (encode_node node_default) d of
                           ((Err e, _), d) \<Rightarrow> (Err e, d)
                         | ((Ok _, _), d) \<Rightarrow> (Ok \<lparr>fs_disk = d, fs_block = block, fs_header = (0, h)\<rparr>, d)))
              else open_from D n (block + 1) d))"

definition fs_open :: "'d disk_impl \<Rightarrow> 'd \<Rightarrow> 'd file_system result \<times> 'd" where
  "fs_open D disk = open_from D 65536 0 disk"

definition fs_create :: "'d disk_impl \<Rightarrow> 'd \<Rightarrow> 'd file_system result \<times> 'd" where
  "fs_create D disk =
     try_st (d_size D disk) (\<lambda>sz d.
       if sz \<ge> 4 * 512
       then (let free = node_new NODE_FILE (bytes_of ''free'') 0;
                 free = free\<lparr>nd_extents := (nd_extents free)[0 := extent_new 4 (sz - 4 * 512)]\<rparr>;
                 root = node_new (NODE_DIR OR 0x1ED) (bytes_of ''root'') 0;
                 header = header_new sz 1 2
             in try_st (d_write_at D 2 (encode_node free) d) (\<lambda>_ d.
                  try_st (d_write_at D 1 (encode_node root) d) (\<lambda>_ d.
                    try_st (d_write_at D 0 (encode_header header) d) (\<lambda>_ d.
                      (Ok \<lparr>fs_disk = d, fs_block = 0, fs_header = (0, header)\<rparr>, d)))))
       else (Err (Error ENOSPC), d))"

section \<open>Nodes\<close>

definition fs_node :: "'d disk_impl \<Rightarrow> u64 \<Rightarrow> 'd file_system \<Rightarrow> (u64 \<times> node) result \<times> 'd file_system" where
  "fs_node D block fs =
     (case fs_read_at D block (encode_node node_default) fs of
        ((Err e, _), fs) \<Rightarrow> (Err e, fs)
      | ((Ok _, buf), fs) \<Rightarrow> (Ok (block, decode_node buf), fs))"

definition fs_ex_node :: "'d disk_impl \<Rightarrow> u64 \<Rightarrow> 'd file_system \<Rightarrow> (u64 \<times> ex_node) result \<times> 'd file_system" where
  "fs_ex_node D block fs =
     (case fs_read_at D block (encode_ex_node ex_node_default) fs of
        ((Err e, _), fs) \<Rightarrow> (Err e, fs)
      | ((Ok _, buf), fs) \<Rightarrow> (Ok (block, decode_ex_node buf), fs))"

text \<open>\<open>for extent in node.extents.iter() { for (block, size) in extent.blocks() { .. } }\<close>\<close>

definition node_blocks :: "node \<Rightarrow> (u64 \<times> usize) list" where
  "node_blocks n = concat (map (\<lambda>e. block_iter_items (extent_blocks e)) (nd_extents n))"

fun push_children :: "'d disk_impl \<Rightarrow> (u64 \<times> usize) list \<Rightarrow> (u64 \<times> node) list \<Rightarrow> 'd file_system \<Rightarrow>
    (u64 \<times> node) list result \<times> 'd file_system" where
  "push_children D [] children fs = (Ok children, fs)"
| "push_children D ((block, sz) # bs) children fs =
     (if sz \<ge> 512
      then try_st (fs_node D block fs) (\<lambda>child fs. push_children D bs (children @ [child]) fs)
      else push_children D bs children fs)"

partial_function (option) fs_child_nodes :: "'d disk_impl \<Rightarrow> (u64 \<times> node) list \<Rightarrow> u64 \<Rightarrow> 'd file_system \<Rightarrow>
    ((u64 \<times> node) list result \<times> 'd file_system) option" where
  "fs_child_nodes D children parent_block fs =
     (if parent_block = 0 then Some (Ok children, fs)
      else try_rec (fs_node D parent_block fs) (\<lambda>parent fs.
        try_rec (push_children D (node_blocks (snd parent)) children fs) (\<lambda>children fs.
          fs_child_nodes D children (nd_next (snd parent)) fs)))"

fun find_child :: "'d disk_impl \<Rightarrow> bytes \<Rightarrow> (u64 \<times> usize) list \<Rightarrow> 'd file_system \<Rightarrow>
    (u64 \<times> node) option result \<times> 'd file_system" where
  "find_child D name [] fs = (Ok None, fs)"
| "find_child D name ((block, sz) # bs) fs =
     (if sz \<ge> 512
      then try_st (fs_node D block fs) (\<lambda>child fs.
        if node_name (snd child) = Some name then (Ok (Some child), fs) else find_child D name bs fs)
      else find_child D name bs fs)"

partial_function (option) fs_find_node :: "'d disk_impl \<Rightarrow> bytes \<Rightarrow> u64 \<Rightarrow> 'd file_system \<Rightarrow>
    ((u64 \<times> node) result \<times> 'd file_system) option" where
  "fs_find_node D name parent_block fs =
     (if parent_block = 0 then Some (Err (Error ENOENT), fs)
      else try_rec (fs_node D parent_block fs) (\<lambda>parent fs.
        try_rec (find_child D name (node_blocks (snd parent)) fs) (\<lambda>found fs.
          case found of
            Some child \<Rightarrow> Some (Ok child, fs)
          | None \<Rightarrow> fs_find_node D name (nd_next (snd parent)) fs)))"

text \<open>\<open>path.split('/')\<close>\<close>

fun split_slash :: "bytes \<Rightarrow> bytes list" where
  "split_slash [] = [[]]"
| "split_slash (b # bs) =
     (if b = 47 then [] # split_slash bs
      else case split_slash bs of [] \<Rightarrow> [[b]] | p # ps \<Rightarrow> (b # p) # ps)"

fun path_parts :: "'d disk_impl \<Rightarrow> bytes list \<Rightarrow> u64 \<Rightarrow> (u64 \<times> node) list \<Rightarrow> 'd file_system \<Rightarrow>
    ((unit result \<times> (u64 \<times> node) list) \<times> 'd file_system) option" where
  "path_parts D [] block nodes fs = Some ((Ok (), nodes), fs)"
| "path_parts D (part # parts) block nodes fs =
     (if part = [] then path_parts D parts block nodes fs
      else case fs_find_node D part block fs of
             None \<Rightarrow> None
           | Some (Err e, fs) \<Rightarrow> Some ((Err e, nodes), fs)
           | Some (Ok node, fs) \<Rightarrow> path_parts D parts (fst node) (nodes @ [node]) fs)"

text \<open>The result and the vector \<open>nodes\<close>, which was empty before; \<open>nodes.pop().unwrap()\<close> finds a node.\<close>

definition fs_path_nodes :: "'d disk_impl \<Rightarrow> bytes \<Rightarrow> 'd file_system \<Rightarrow>
    (((u64 \<times> node) result \<times> (u64 \<times> node) list) \<times> 'd file_system) option" where
  "fs_path_nodes D path fs =
     (let block = hd_root (snd (fs_header fs))
      in case fs_node D block fs of
           (Err e, fs) \<Rightarrow> Some ((Err e, []), fs)
         | (Ok root, fs) \<Rightarrow>
             (case path_parts D (split_slash path) block [root] fs of
                None \<Rightarrow> None
              | Some ((Err e, nodes), fs) \<Rightarrow> Some ((Err e, nodes), fs)
              | Some ((Ok _, nodes), fs) \<Rightarrow> Some ((Ok (last nodes), butlast nodes), fs)))"

section \<open>Allocation\<close>

text \<open>The loop of \<open>allocate\<close>: the first extent with enough sectors.\<close>

fun take_sectors :: "u64 \<Rightarrow> extent list \<Rightarrow> (u64 \<times> extent list) option" where
  "take_sectors len [] = None"
| "take_sectors len (e # es) =
     (if ex_length e div 512 \<ge> len
      then Some (ex_block e, e\<lparr>ex_length := ex_length e - len * 512, ex_block := ex_block e + len\<rparr> # es)
      else map_option (\<lambda>(b, es'). (b, e # es')) (take_sectors len es))"

definition fs_allocate :: "'d disk_impl \<Rightarrow> u64 \<Rightarrow> 'd file_system \<Rightarrow> u64 result \<times> 'd file_system" where
  "fs_allocate D len fs =
     (let free_block = hd_free (snd (fs_header fs))
      in try_st (fs_node D free_block fs) (\<lambda>free fs.
           case take_sectors len (nd_extents (snd free)) of
             Some (block, es) \<Rightarrow>
               try_st (fs_write_at D (fst free) (encode_node ((snd free)\<lparr>nd_extents := es\<rparr>)) fs) (\<lambda>_ fs. (Ok block, fs))
           | None \<Rightarrow> (Err (Error ENOSPC), fs)))"

text \<open>The loop of \<open>insert_blocks\<close>; \<open>None\<close> if nothing was inserted.\<close>

fun place_blocks :: "u64 \<Rightarrow> u64 \<Rightarrow> extent list \<Rightarrow> extent list option" where
  "place_blocks block len [] = None"
| "place_blocks block len (e # es) =
     (if ex_length e = 0 then Some (e\<lparr>ex_block := block, ex_length := len\<rparr> # es)
      else if len mod 512 = 0 \<and> ex_block e = block + len div 512
      then Some (e\<lparr>ex_block := block, ex_length := ex_length e + len\<rparr> # es)
      else if ex_length e mod 512 = 0 \<and> ex_block e + ex_length e div 512 = block
      then Some (e\<lparr>ex_length := ex_length e + len\<rparr> # es)
      else map_option (Cons e) (place_blocks block len es))"

partial_function (option) fs_insert_blocks :: "'d disk_impl \<Rightarrow> u64 \<Rightarrow> u64 \<Rightarrow> u64 \<Rightarrow> 'd file_system \<Rightarrow>
    (unit result \<times> 'd file_system) option" where
  "fs_insert_blocks D block len parent_block fs =
     (if parent_block = 0 then Some (Err (Error ENOSPC), fs)
      else try_rec (fs_node D parent_block fs) (\<lambda>parent fs.
        case place_blocks block len (nd_extents (snd parent)) of
          Some es \<Rightarrow>
            try_rec (fs_write_at D (fst parent) (encode_node ((snd parent)\<lparr>nd_extents := es\<rparr>)) fs) (\<lambda>_ fs. Some (Ok (), fs))
        | None \<Rightarrow>
            if nd_next (snd parent) = 0
            then try_rec (fs_allocate D 1 fs) (\<lambda>new_block fs.
              try_rec (fs_write_at D (fst parent) (encode_node ((snd parent)\<lparr>nd_next := new_block\<rparr>)) fs) (\<lambda>_ fs.
                try_rec (fs_write_at D new_block (encode_node node_default) fs) (\<lambda>_ fs.
                  fs_insert_blocks D block len new_block fs)))
            else fs_insert_blocks D block len (nd_next (snd parent)) fs))"

definition fs_deallocate :: "'d disk_impl \<Rightarrow> u64 \<Rightarrow> u64 \<Rightarrow> 'd file_system \<Rightarrow> (unit result \<times> 'd file_system) option" where
  "fs_deallocate D block len fs = fs_insert_blocks D block len (hd_free (snd (fs_header fs))) fs"

section \<open>Creating and removing nodes\<close>

definition fs_create_node :: "'d disk_impl \<Rightarrow> u16 \<Rightarrow> bytes \<Rightarrow> u64 \<Rightarrow> 'd file_system \<Rightarrow>
    ((u64 \<times> node) result \<times> 'd file_system) option" where
  "fs_create_node D mode name parent_block fs =
     (case fs_find_node D name parent_block fs of
        None \<Rightarrow> None
      | Some (Ok _, fs) \<Rightarrow> Some (Err (Error EEXIST), fs)
      | Some (Err _, fs) \<Rightarrow>
          try_rec (fs_allocate D 1 fs) (\<lambda>block fs.
            let node = (block, node_new mode name parent_block)
            in try_rec (fs_write_at D (fst node) (encode_node (snd node)) fs) (\<lambda>_ fs.
                 try_opt (fs_insert_blocks D (fst node) 512 parent_block fs) (\<lambda>_ fs. Some (Ok node, fs)))))"

text \<open>The loop of \<open>remove_blocks\<close>: the new extents and \<open>replace_option\<close>; \<open>None\<close> if nothing was removed.\<close>

fun cut_blocks :: "u64 \<Rightarrow> u64 \<Rightarrow> extent list \<Rightarrow> (extent list \<times> extent option) option" where
  "cut_blocks block len [] = None"
| "cut_blocks block len (e # es) =
     (if block \<ge> ex_block e \<and> block + len \<le> ex_block e + ex_length e div 512
      then (let left = extent_new (ex_block e) ((block - ex_block e) * 512);
                right = extent_new (block + len) (((ex_block e + ex_length e div 512) - (block + len)) * 512)
            in if ex_length left > 0
               then Some (left # es, if ex_length right > 0 then Some right else None)
               else if ex_length right > 0 then Some (right # es, None)
               else Some (extent_default # es, None))
      else map_option (\<lambda>(es', r). (e # es', r)) (cut_blocks block len es))"

partial_function (option) fs_remove_blocks :: "'d disk_impl \<Rightarrow> u64 \<Rightarrow> u64 \<Rightarrow> u64 \<Rightarrow> 'd file_system \<Rightarrow>
    (unit result \<times> 'd file_system) option" where
  "fs_remove_blocks D block len parent_block fs =
     (if parent_block = 0 then Some (Err (Error ENOENT), fs)
      else try_rec (fs_node D parent_block fs) (\<lambda>parent fs.
        case cut_blocks block len (nd_extents (snd parent)) of
          Some (es, replace) \<Rightarrow>
            try_rec (fs_write_at D (fst parent) (encode_node ((snd parent)\<lparr>nd_extents := es\<rparr>)) fs) (\<lambda>_ fs.
              try_opt (case replace of
                         Some e \<Rightarrow> fs_insert_blocks D (ex_block e) (ex_length e) parent_block fs
                       | None \<Rightarrow> Some (Ok (), fs)) (\<lambda>_ fs.
                fs_deallocate D block 512 fs))
        | None \<Rightarrow> fs_remove_blocks D block len (nd_next (snd parent)) fs))"

definition fs_remove_node :: "'d disk_impl \<Rightarrow> u16 \<Rightarrow> bytes \<Rightarrow> u64 \<Rightarrow> 'd file_system \<Rightarrow>
    (unit result \<times> 'd file_system) option" where
  "fs_remove_node D mode name parent_block fs =
     try_opt (fs_find_node D name parent_block fs) (\<lambda>node fs.
       if nd_mode (snd node) AND NODE_TYPE = mode
       then try_opt (if node_is_dir (snd node) then fs_child_nodes D [] (fst node) fs else Some (Ok [], fs)) (\<lambda>children fs.
              if children \<noteq> [] then Some (Err (Error ENOTEMPTY), fs)
              else try_opt (fs_remove_blocks D (fst node) 1 parent_block fs) (\<lambda>_ fs.
                try_rec (fs_write_at D (fst node) (encode_node node_default) fs) (\<lambda>_ fs. Some (Ok (), fs))))
       else if node_is_dir (snd node) then Some (Err (Error EISDIR), fs)
       else Some (Err (Error ENOTDIR), fs))"

section \<open>The length of a node\<close>

text \<open>The loop of \<open>node_ensure_len\<close>: \<open>changed\<close>, what is left of the length, and the extents.\<close>

fun grow_extents :: "u64 \<Rightarrow> extent list \<Rightarrow> bool \<times> u64 \<times> extent list" where
  "grow_extents len [] = (False, len, [])"
| "grow_extents len (e # es) =
     (if ex_length e \<ge> len then (False, 0, e # es)
      else let allocated = ((ex_length e + 511) div 512) * 512
           in if allocated \<ge> len then (True, 0, e\<lparr>ex_length := len\<rparr> # es)
              else let (_, len', es') = grow_extents (len - allocated) es
                   in (True, len', e\<lparr>ex_length := allocated\<rparr> # es'))"

partial_function (option) fs_node_ensure_len :: "'d disk_impl \<Rightarrow> u64 \<Rightarrow> u64 \<Rightarrow> 'd file_system \<Rightarrow>
    (unit result \<times> 'd file_system) option" where
  "fs_node_ensure_len D block len fs =
     (if block = 0 then Some (Err (Error ENOENT), fs)
      else try_rec (fs_node D block fs) (\<lambda>node fs.
        case grow_extents len (nd_extents (snd node)) of
          (changed, len, es) \<Rightarrow>
            try_rec (if changed then fs_write_at D (fst node) (encode_node ((snd node)\<lparr>nd_extents := es\<rparr>)) fs else (Ok 0, fs)) (\<lambda>_ fs.
              if len > 0
              then if nd_next (snd node) > 0 then fs_node_ensure_len D (nd_next (snd node)) len fs
                   else try_rec (fs_allocate D ((len + 511) div 512) fs) (\<lambda>new_block fs.
                     fs_insert_blocks D new_block len block fs)
              else Some (Ok (), fs))))"

text \<open>The loop of \<open>node_set_len\<close>.\<close>

fun shrink_extents :: "u64 \<Rightarrow> extent list \<Rightarrow> bool \<times> u64 \<times> extent list" where
  "shrink_extents len [] = (False, len, [])"
| "shrink_extents len (e # es) =
     (if ex_length e > len
      then (let (_, len', es') = shrink_extents 0 es in (True, len', e\<lparr>ex_length := len\<rparr> # es'))
      else (let (changed, len', es') = shrink_extents (len - ex_length e) es in (changed, len', e # es')))"

partial_function (option) fs_node_set_len :: "'d disk_impl \<Rightarrow> u64 \<Rightarrow> u64 \<Rightarrow> 'd file_system \<Rightarrow>
    (unit result \<times> 'd file_system) option" where
  "fs_node_set_len D block len fs =
     (if block = 0 then Some (Err (Error ENOENT), fs)
      else try_rec (fs_node D block fs) (\<lambda>node fs.
        case shrink_extents len (nd_extents (snd node)) of
          (changed, len, es) \<Rightarrow>
            try_rec (if changed then fs_write_at D (fst node) (encode_node ((snd node)\<lparr>nd_extents := es\<rparr>)) fs else (Ok 0, fs)) (\<lambda>_ fs.
              if nd_next (snd node) > 0 then fs_node_set_len D (nd_next (snd node)) len fs
              else Some (Ok (), fs))))"

partial_function (option) fs_node_len :: "'d disk_impl \<Rightarrow> u64 \<Rightarrow> 'd file_system \<Rightarrow> (u64 result \<times> 'd file_system) option" where
  "fs_node_len D block fs =
     (if block = 0 then Some (Err (Error ENOENT), fs)
      else try_rec (fs_node D block fs) (\<lambda>node fs.
        let sz = fold (\<lambda>e s. s + ex_length e) (nd_extents (snd node)) 0
        in if nd_next (snd node) > 0
           then try_opt (fs_node_len D (nd_next (snd node)) fs) (\<lambda>n fs. Some (Ok (sz + n), fs))
           else Some (Ok sz, fs)))"

section \<open>Reading and writing a node\<close>

text \<open>The loop of \<open>node_extents\<close> over the blocks of one extent: \<open>offset\<close>, \<open>len\<close> and \<open>push_extent\<close> after it.\<close>

fun collect_blocks :: "(u64 \<times> usize) list \<Rightarrow> u64 \<Rightarrow> usize \<Rightarrow> extent \<Rightarrow> u64 \<times> usize \<times> extent" where
  "collect_blocks [] offset len push = (offset, len, push)"
| "collect_blocks ((block, sz) # bs) offset len push =
     (if offset = 0
      then (let push = if ex_block push = 0 then push\<lparr>ex_block := block\<rparr> else push
            in if len \<ge> sz then collect_blocks bs offset (len - sz) (push\<lparr>ex_length := ex_length push + sz\<rparr>)
               else if len > 0 then (offset, 0, push\<lparr>ex_length := ex_length push + len\<rparr>)
               else (offset, len, push))
      else collect_blocks bs (offset - 1) len push)"

fun collect_extents :: "extent list \<Rightarrow> u64 \<Rightarrow> usize \<Rightarrow> extent list \<Rightarrow> u64 \<times> usize \<times> extent list" where
  "collect_extents [] offset len extents = (offset, len, extents)"
| "collect_extents (e # es) offset len extents =
     (let (offset, len, push) = collect_blocks (block_iter_items (extent_blocks e)) offset len extent_default;
          extents = if ex_length push > 0 then extents @ [push] else extents
      in if len = 0 then (offset, len, extents) else collect_extents es offset len extents)"

partial_function (option) fs_node_extents :: "'d disk_impl \<Rightarrow> u64 \<Rightarrow> u64 \<Rightarrow> usize \<Rightarrow> extent list \<Rightarrow> 'd file_system \<Rightarrow>
    (extent list result \<times> 'd file_system) option" where
  "fs_node_extents D block offset len extents fs =
     (if block = 0 then Some (Ok extents, fs)
      else try_rec (fs_node D block fs) (\<lambda>node fs.
        case collect_extents (nd_extents (snd node)) offset len extents of
          (offset, len, extents) \<Rightarrow>
            if len > 0 then fs_node_extents D (nd_next (snd node)) offset len extents fs
            else Some (Ok extents, fs)))"

text \<open>
  The variables of the loop over the extents in \<open>read_node\<close> and \<open>write_node\<close>. The index \<open>i\<close> never passes
  the end of \<open>buf\<close>, so the slices \<open>buf[i..]\<close> and \<open>buf[i..i + length_aligned]\<close> do not panic;
  \<open>sector[byte_offset..sector_size]\<close> does when \<open>byte_offset > sector_size\<close>.
\<close>

record 'd transfer =
  tr_fs :: "'d file_system"
  tr_buf :: bytes
  tr_i :: nat
  tr_byte_offset :: usize
  tr_block :: u64
  tr_length :: u64

definition then_tr :: "unit result outcome \<times> 's \<Rightarrow> ('s \<Rightarrow> unit result outcome \<times> 's) \<Rightarrow> unit result outcome \<times> 's" where
  "then_tr m k = (case m of (Return (Ok _), s) \<Rightarrow> k s | (Return (Err e), s) \<Rightarrow> (Return (Err e), s) | (Panic, s) \<Rightarrow> (Panic, s))"

lemma then_tr_simps [simp, result_simps]:
  "then_tr (Return (Ok u), s) k = k s" "then_tr (Return (Err e), s) k = (Return (Err e), s)" "then_tr (Panic, s) k = (Panic, s)"
  by (simp_all add: then_tr_def)

text \<open>Part of a sector, from \<open>byte_offset\<close>, is copied to \<open>buf[i..]\<close>.\<close>

definition read_sector :: "'d disk_impl \<Rightarrow> usize \<Rightarrow> 'd transfer \<Rightarrow> unit result outcome \<times> 'd transfer" where
  "read_sector D from_byte t =
     (case fs_read_at D (tr_block t) (replicate 512 0) (tr_fs t) of
        ((Err e, _), fs) \<Rightarrow> (Return (Err e), t\<lparr>tr_fs := fs\<rparr>)
      | ((Ok _, sector), fs) \<Rightarrow>
          (let sector_size = min 512 (tr_length t)
           in if from_byte > sector_size then (Panic, t\<lparr>tr_fs := fs\<rparr>)
              else (let (r, n) = copy_into (drop (tr_i t) (tr_buf t)) (take (unat sector_size - unat from_byte) (drop (unat from_byte) sector))
                    in (Return (Ok ()),
                        t\<lparr>tr_fs := fs, tr_buf := take (tr_i t) (tr_buf t) @ r, tr_i := tr_i t + n,
                          tr_block := tr_block t + 1, tr_length := tr_length t - sector_size\<rparr>))))"

definition read_aligned :: "'d disk_impl \<Rightarrow> 'd transfer \<Rightarrow> unit result outcome \<times> 'd transfer" where
  "read_aligned D t =
     (let length_aligned = (min (tr_length t) (of_nat (length (tr_buf t) - tr_i t)) div 512) * 512;
          n = unat length_aligned
      in if length_aligned > 0
         then (case fs_read_at D (tr_block t) (take n (drop (tr_i t) (tr_buf t))) (tr_fs t) of
                 ((Err e, b), fs) \<Rightarrow>
                   (Return (Err e), t\<lparr>tr_fs := fs, tr_buf := take (tr_i t) (tr_buf t) @ b @ drop (tr_i t + n) (tr_buf t)\<rparr>)
               | ((Ok _, b), fs) \<Rightarrow>
                   (Return (Ok ()),
                    t\<lparr>tr_fs := fs, tr_buf := take (tr_i t) (tr_buf t) @ b @ drop (tr_i t + n) (tr_buf t), tr_i := tr_i t + n,
                      tr_block := tr_block t + length_aligned div 512, tr_length := tr_length t - length_aligned\<rparr>))
         else (Return (Ok ()), t))"

definition assert_done :: "extent \<Rightarrow> 'd transfer \<Rightarrow> unit result outcome \<times> 'd transfer" where
  "assert_done e t =
     (if tr_length t = 0 \<and> tr_block t = ex_block e + (ex_length e + 511) div 512 then (Return (Ok ()), t) else (Panic, t))"

definition read_extent :: "'d disk_impl \<Rightarrow> extent \<Rightarrow> 'd transfer \<Rightarrow> unit result outcome \<times> 'd transfer" where
  "read_extent D e t =
     (let t = t\<lparr>tr_block := ex_block e, tr_length := ex_length e\<rparr>
      in then_tr
           (if tr_byte_offset t > 0 \<and> tr_length t > 0
            then then_tr (read_sector D (tr_byte_offset t) t) (\<lambda>t. (Return (Ok ()), t\<lparr>tr_byte_offset := 0\<rparr>))
            else (Return (Ok ()), t)) (\<lambda>t.
         then_tr (read_aligned D t) (\<lambda>t.
           then_tr (if tr_length t > 0 then read_sector D 0 t else (Return (Ok ()), t)) (\<lambda>t.
             assert_done e t))))"

fun read_extents :: "'d disk_impl \<Rightarrow> extent list \<Rightarrow> 'd transfer \<Rightarrow> unit result outcome \<times> 'd transfer" where
  "read_extents D [] t = (Return (Ok ()), t)"
| "read_extents D (e # es) t = then_tr (read_extent D e t) (read_extents D es)"

text \<open>The result of the loop: \<open>Ok(i)\<close>, and the buffer.\<close>

definition transferred :: "unit result outcome \<times> 'd transfer \<Rightarrow> (usize result outcome \<times> bytes) \<times> 'd file_system" where
  "transferred x =
     (case x of
        (Return (Ok _), t) \<Rightarrow> ((Return (Ok (of_nat (tr_i t))), tr_buf t), tr_fs t)
      | (Return (Err e), t) \<Rightarrow> ((Return (Err e), tr_buf t), tr_fs t)
      | (Panic, t) \<Rightarrow> ((Panic, tr_buf t), tr_fs t))"

definition start_transfer :: "bytes \<Rightarrow> usize \<Rightarrow> 'd file_system \<Rightarrow> 'd transfer" where
  "start_transfer buf byte_offset fs =
     \<lparr>tr_fs = fs, tr_buf = buf, tr_i = 0, tr_byte_offset = byte_offset, tr_block = 0, tr_length = 0\<rparr>"

definition fs_read_node :: "'d disk_impl \<Rightarrow> u64 \<Rightarrow> u64 \<Rightarrow> bytes \<Rightarrow> 'd file_system \<Rightarrow>
    ((usize result outcome \<times> bytes) \<times> 'd file_system) option" where
  "fs_read_node D block offset buf fs =
     (let block_offset = offset div 512; byte_offset = offset mod 512
      in case fs_node_extents D block block_offset (byte_offset + of_nat (length buf)) [] fs of
           None \<Rightarrow> None
         | Some (Err e, fs) \<Rightarrow> Some ((Return (Err e), buf), fs)
         | Some (Ok extents, fs) \<Rightarrow> Some (transferred (read_extents D extents (start_transfer buf byte_offset fs))))"

text \<open>A sector is read, overwritten from \<open>byte_offset\<close> on with \<open>buf[i..]\<close>, and written back.\<close>

definition write_sector :: "'d disk_impl \<Rightarrow> usize \<Rightarrow> 'd transfer \<Rightarrow> unit result outcome \<times> 'd transfer" where
  "write_sector D from_byte t =
     (case fs_read_at D (tr_block t) (replicate 512 0) (tr_fs t) of
        ((Err e, _), fs) \<Rightarrow> (Return (Err e), t\<lparr>tr_fs := fs\<rparr>)
      | ((Ok _, sector), fs) \<Rightarrow>
          (let sector_size = min 512 (tr_length t)
           in if from_byte > sector_size then (Panic, t\<lparr>tr_fs := fs\<rparr>)
              else (let (r, n) = copy_into (take (unat sector_size - unat from_byte) (drop (unat from_byte) sector)) (drop (tr_i t) (tr_buf t));
                        sector = take (unat from_byte) sector @ r @ drop (unat sector_size) sector
                    in case fs_write_at D (tr_block t) sector fs of
                         (Err e, fs) \<Rightarrow> (Return (Err e), t\<lparr>tr_fs := fs, tr_i := tr_i t + n\<rparr>)
                       | (Ok _, fs) \<Rightarrow>
                           (Return (Ok ()),
                            t\<lparr>tr_fs := fs, tr_i := tr_i t + n, tr_block := tr_block t + 1, tr_length := tr_length t - sector_size\<rparr>))))"

definition write_aligned :: "'d disk_impl \<Rightarrow> 'd transfer \<Rightarrow> unit result outcome \<times> 'd transfer" where
  "write_aligned D t =
     (let length_aligned = (min (tr_length t) (of_nat (length (tr_buf t) - tr_i t)) div 512) * 512;
          n = unat length_aligned
      in if length_aligned > 0
         then (case fs_write_at D (tr_block t) (take n (drop (tr_i t) (tr_buf t))) (tr_fs t) of
                 (Err e, fs) \<Rightarrow> (Return (Err e), t\<lparr>tr_fs := fs\<rparr>)
               | (Ok _, fs) \<Rightarrow>
                   (Return (Ok ()),
                    t\<lparr>tr_fs := fs, tr_i := tr_i t + n, tr_block := tr_block t + length_aligned div 512,
                      tr_length := tr_length t - length_aligned\<rparr>))
         else (Return (Ok ()), t))"

definition write_extent :: "'d disk_impl \<Rightarrow> extent \<Rightarrow> 'd transfer \<Rightarrow> unit result outcome \<times> 'd transfer" where
  "write_extent D e t =
     (let t = t\<lparr>tr_block := ex_block e, tr_length := ex_length e\<rparr>
      in then_tr
           (if tr_byte_offset t > 0 \<and> tr_length t > 0
            then then_tr (write_sector D (tr_byte_offset t) t) (\<lambda>t. (Return (Ok ()), t\<lparr>tr_byte_offset := 0\<rparr>))
            else (Return (Ok ()), t)) (\<lambda>t.
         then_tr (write_aligned D t) (\<lambda>t.
           then_tr (if tr_length t > 0 then write_sector D 0 t else (Return (Ok ()), t)) (\<lambda>t.
             assert_done e t))))"

fun write_extents :: "'d disk_impl \<Rightarrow> extent list \<Rightarrow> 'd transfer \<Rightarrow> unit result outcome \<times> 'd transfer" where
  "write_extents D [] t = (Return (Ok ()), t)"
| "write_extents D (e # es) t = then_tr (write_extent D e t) (write_extents D es)"

definition fs_write_node :: "'d disk_impl \<Rightarrow> u64 \<Rightarrow> u64 \<Rightarrow> bytes \<Rightarrow> 'd file_system \<Rightarrow>
    (usize result outcome \<times> 'd file_system) option" where
  "fs_write_node D block offset buf fs =
     (let block_offset = offset div 512; byte_offset = offset mod 512; n = byte_offset + of_nat (length buf)
      in case fs_node_ensure_len D block (block_offset * 512 + n) fs of
           None \<Rightarrow> None
         | Some (Err e, fs) \<Rightarrow> Some (Return (Err e), fs)
         | Some (Ok _, fs) \<Rightarrow>
             (case fs_node_extents D block block_offset n [] fs of
                None \<Rightarrow> None
              | Some (Err e, fs) \<Rightarrow> Some (Return (Err e), fs)
              | Some (Ok extents, fs) \<Rightarrow>
                  (let ((r, _), fs) = transferred (write_extents D extents (start_transfer buf byte_offset fs)) in Some (r, fs))))"

end
