(* ===== verification/Redoxfs_Scheme.thy ===== *)
theory Redoxfs_Scheme
  imports Redoxfs
begin

text \<open>
  The scheme \<open>file:\<close> that RedoxFS serves (\<open>schemes/redoxfs/scheme/resource.rs\<close> and \<open>scheme.rs\<close>): open
  directories and files, and the operations of \<open>FileScheme\<close> on them as an instance of the \<open>Scheme\<close> trait. A
  panic of the file system, or its recursion on a cyclic chain of nodes, which overflows the stack, ends
  the server: the operation \<open>Crashes\<close>.
\<close>

section \<open>Resources (resource.rs)\<close>

record dir_resource =
  dr_path :: bytes
  dr_block :: u64
  dr_data :: bytes
  dr_seek :: usize

record file_resource =
  fr_path :: bytes
  fr_block :: u64
  fr_flags :: usize
  fr_seek :: u64

datatype resource = Dir dir_resource | File file_resource

definition dir_new :: "bytes \<Rightarrow> u64 \<Rightarrow> bytes \<Rightarrow> resource" where
  "dir_new path block data = Dir \<lparr>dr_path = path, dr_block = block, dr_data = data, dr_seek = 0\<rparr>"

definition file_new :: "bytes \<Rightarrow> u64 \<Rightarrow> usize \<Rightarrow> resource" where
  "file_new path block flags = File \<lparr>fr_path = path, fr_block = block, fr_flags = flags, fr_seek = 0\<rparr>"

definition can_read :: "usize \<Rightarrow> bool" where
  "can_read flags \<longleftrightarrow> flags AND O_ACCMODE = O_RDWR \<or> flags AND O_ACCMODE = O_RDONLY"

definition can_write :: "usize \<Rightarrow> bool" where
  "can_write flags \<longleftrightarrow> flags AND O_ACCMODE = O_RDWR \<or> flags AND O_ACCMODE = O_WRONLY"

fun resource_dup :: "bytes \<Rightarrow> resource \<Rightarrow> resource result" where
  "resource_dup buf (Dir r) = Ok (Dir r)"
| "resource_dup buf (File r) =
     (if buf = bytes_of ''exec'' \<and> has_flag (fr_flags r) O_CLOEXEC then Err (Error EBADF) else Ok (File r))"

text \<open>
  The operations that use the file system return \<open>None\<close> when it does not return; \<open>read\<close> also returns
  the buffer.
\<close>

fun resource_read :: "'d disk_impl \<Rightarrow> bytes \<Rightarrow> resource \<Rightarrow> 'd file_system \<Rightarrow>
    (((usize result outcome \<times> bytes) \<times> resource) \<times> 'd file_system) option" where
  "resource_read D buf (Dir r) fs =
     (let (buf', n, seek) = read_at (dr_data r) (dr_seek r) buf in Some (((Return (Ok n), buf'), Dir (r\<lparr>dr_seek := seek\<rparr>)), fs))"
| "resource_read D buf (File r) fs =
     (if can_read (fr_flags r)
      then (case fs_read_node D (fr_block r) (fr_seek r) buf fs of
              None \<Rightarrow> None
            | Some ((Return (Ok count), buf'), fs) \<Rightarrow> Some (((Return (Ok count), buf'), File (r\<lparr>fr_seek := fr_seek r + count\<rparr>)), fs)
            | Some ((Return (Err e), buf'), fs) \<Rightarrow> Some (((Return (Err e), buf'), File r), fs)
            | Some ((Panic, buf'), fs) \<Rightarrow> Some (((Panic, buf'), File r), fs))
      else Some (((Return (Err (Error EBADF)), buf), File r), fs))"

fun resource_write :: "'d disk_impl \<Rightarrow> bytes \<Rightarrow> resource \<Rightarrow> 'd file_system \<Rightarrow>
    ((usize result outcome \<times> resource) \<times> 'd file_system) option" where
  "resource_write D buf (Dir r) fs = Some ((Return (Err (Error EBADF)), Dir r), fs)"
| "resource_write D buf (File r) fs =
     (if can_write (fr_flags r)
      then (case fs_write_node D (fr_block r) (fr_seek r) buf fs of
              None \<Rightarrow> None
            | Some (Return (Ok count), fs) \<Rightarrow> Some ((Return (Ok count), File (r\<lparr>fr_seek := fr_seek r + count\<rparr>)), fs)
            | Some (Return (Err e), fs) \<Rightarrow> Some ((Return (Err e), File r), fs)
            | Some (Panic, fs) \<Rightarrow> Some ((Panic, File r), fs))
      else Some ((Return (Err (Error EBADF)), File r), fs))"

text \<open>
  \<open>min(0, max(size, position))\<close> on signed 64-bit integers, as the source has it; the sums wrap around.
\<close>

definition seek_to :: "u64 \<Rightarrow> u64 \<Rightarrow> usize \<Rightarrow> usize \<Rightarrow> u64 result" where
  "seek_to sz seek offset whence =
     (if whence = SEEK_SET then Ok (of_int (min 0 (max (sint sz) (sint offset))))
      else if whence = SEEK_CUR then Ok (of_int (min 0 (max (sint sz) (sint (seek + offset)))))
      else if whence = SEEK_END then Ok (of_int (min 0 (max (sint sz) (sint (sz + offset)))))
      else Err (Error EINVAL))"

fun resource_seek :: "'d disk_impl \<Rightarrow> usize \<Rightarrow> usize \<Rightarrow> resource \<Rightarrow> 'd file_system \<Rightarrow>
    ((usize result \<times> resource) \<times> 'd file_system) option" where
  "resource_seek D offset whence (Dir r) fs =
     (case seek_to (of_nat (length (dr_data r))) (dr_seek r) offset whence of
        Err e \<Rightarrow> Some ((Err e, Dir r), fs)
      | Ok p \<Rightarrow> Some ((Ok p, Dir (r\<lparr>dr_seek := p\<rparr>)), fs))"
| "resource_seek D offset whence (File r) fs =
     (case fs_node_len D (fr_block r) fs of
        None \<Rightarrow> None
      | Some (Err e, fs) \<Rightarrow> Some ((Err e, File r), fs)
      | Some (Ok sz, fs) \<Rightarrow>
          (case seek_to sz (fr_seek r) offset whence of
             Err e \<Rightarrow> Some ((Err e, File r), fs)
           | Ok p \<Rightarrow> Some ((Ok p, File (r\<lparr>fr_seek := p\<rparr>)), fs)))"

fun resource_fcntl :: "usize \<Rightarrow> usize \<Rightarrow> resource \<Rightarrow> usize result \<times> resource" where
  "resource_fcntl cmd arg (Dir r) = (Err (Error EBADF), Dir r)"
| "resource_fcntl cmd arg (File r) =
     (if cmd = F_GETFL then (Ok (fr_flags r), File r)
      else if cmd = F_SETFL then (Ok 0, File (r\<lparr>fr_flags := arg AND NOT O_ACCMODE\<rparr>))
      else (Err (Error EINVAL), File r))"

fun resource_path :: "bytes \<Rightarrow> resource \<Rightarrow> bytes \<times> nat" where
  "resource_path buf (Dir r) = copy_into buf (dr_path r)"
| "resource_path buf (File r) = copy_into buf (fr_path r)"

fun resource_block :: "resource \<Rightarrow> u64" where
  "resource_block (Dir r) = dr_block r"
| "resource_block (File r) = fr_block r"

text \<open>\<open>stat\<close> of both kinds.\<close>

definition resource_stat :: "'d disk_impl \<Rightarrow> stat \<Rightarrow> resource \<Rightarrow> 'd file_system \<Rightarrow> ((usize result \<times> stat) \<times> 'd file_system) option" where
  "resource_stat D st r fs =
     (case fs_node D (resource_block r) fs of
        (Err e, fs) \<Rightarrow> Some ((Err e, st), fs)
      | (Ok node, fs) \<Rightarrow>
          (let st = st\<lparr>st_mode := nd_mode (snd node), st_uid := nd_uid (snd node), st_gid := nd_gid (snd node)\<rparr>
           in case fs_node_len D (resource_block r) fs of
                None \<Rightarrow> None
              | Some (Err e, fs) \<Rightarrow> Some ((Err e, st), fs)
              | Some (Ok n, fs) \<Rightarrow> Some ((Ok 0, st\<lparr>st_size := n\<rparr>), fs)))"

fun resource_sync :: "resource \<Rightarrow> usize result" where
  "resource_sync (Dir r) = Err (Error EBADF)"
| "resource_sync (File r) = Ok 0"

fun resource_truncate :: "'d disk_impl \<Rightarrow> usize \<Rightarrow> resource \<Rightarrow> 'd file_system \<Rightarrow> (usize result \<times> 'd file_system) option" where
  "resource_truncate D len (Dir r) fs = Some (Err (Error EBADF), fs)"
| "resource_truncate D len (File r) fs =
     (if can_write (fr_flags r)
      then try_opt (fs_node_set_len D (fr_block r) len fs) (\<lambda>_ fs. Some (Ok 0, fs))
      else Some (Err (Error EBADF), fs))"

section \<open>FileScheme (scheme.rs)\<close>

record 'd file_scheme =
  sc_name :: bytes
  sc_fs :: "'d file_system"
  sc_files :: "resource handle_table"

definition scheme_new :: "bytes \<Rightarrow> 'd file_system \<Rightarrow> 'd file_scheme" where
  "scheme_new name fs = \<lparr>sc_name = name, sc_fs = fs, sc_files = new_table 1\<rparr>"

text \<open>A step on the file system, which may not return; a result that may be a panic.\<close>

definition with_fs :: "('a \<times> 'd file_system) option \<Rightarrow> ('a \<Rightarrow> ('r, 'd file_scheme) op) \<Rightarrow> ('r, 'd file_scheme) op" where
  "with_fs m k s = (case m of None \<Rightarrow> (Crashes, s) | Some (a, fs) \<Rightarrow> k a (s\<lparr>sc_fs := fs\<rparr>))"

fun of_outcome :: "'a outcome \<Rightarrow> ('a \<Rightarrow> 'r) \<Rightarrow> ('r, 's) op" where
  "of_outcome (Return a) k s = (Returned (k a), s)"
| "of_outcome Panic k s = (Crashes, s)"

text \<open>\<open>str::from_utf8(url).unwrap_or("").trim_matches('/')\<close>\<close>

definition url_path :: "bytes \<Rightarrow> bytes" where
  "url_path url = trim_slashes (if valid_utf8 url then url else [])"

text \<open>The loop over the directories of a path that \<open>open\<close>, \<open>chmod\<close>, \<open>rmdir\<close> and \<open>unlink\<close> begin with.\<close>

fun check_nodes :: "(u64 \<times> node) list \<Rightarrow> u32 \<Rightarrow> u32 \<Rightarrow> error option" where
  "check_nodes [] uid gid = None"
| "check_nodes (n # ns) uid gid =
     (if \<not> node_permission (snd n) uid gid MODE_EXEC then Some (Error EACCES)
      else if \<not> node_is_dir (snd n) then Some (Error ENOTDIR)
      else check_nodes ns uid gid)"

text \<open>The names of the children, one on each line.\<close>

fun list_names :: "(u64 \<times> node) list \<Rightarrow> bytes \<Rightarrow> bytes" where
  "list_names [] data = data"
| "list_names (c # cs) data =
     (case node_name (snd c) of
        Some name \<Rightarrow> list_names cs ((if data = [] then [] else data @ [10]) @ name)
      | None \<Rightarrow> list_names cs data)"

definition open_existing :: "'d disk_impl \<Rightarrow> bytes \<Rightarrow> usize \<Rightarrow> u32 \<Rightarrow> u32 \<Rightarrow> u64 \<times> node \<Rightarrow> 'd file_system \<Rightarrow>
    (resource result \<times> 'd file_system) option" where
  "open_existing D path flags uid gid node fs =
     (if has_flag flags (O_CREAT OR O_EXCL) then Some (Err (Error EEXIST), fs)
      else if node_is_dir (snd node)
      then if \<not> has_flag flags O_STAT \<and> \<not> has_flag flags O_DIRECTORY then Some (Err (Error EISDIR), fs)
           else if flags AND O_ACCMODE = O_RDONLY
           then if \<not> node_permission (snd node) uid gid MODE_READ then Some (Err (Error EACCES), fs)
                else try_opt (fs_child_nodes D [] (fst node) fs) (\<lambda>children fs.
                  Some (Ok (dir_new path (fst node) (list_names children [])), fs))
           else if has_flag flags O_STAT then Some (Ok (dir_new path (fst node) []), fs)
           else Some (Err (Error EACCES), fs)
      else if has_flag flags O_DIRECTORY then Some (Err (Error ENOTDIR), fs)
      else if can_read flags \<and> \<not> node_permission (snd node) uid gid MODE_READ then Some (Err (Error EACCES), fs)
      else if can_write flags \<and> \<not> node_permission (snd node) uid gid MODE_WRITE then Some (Err (Error EACCES), fs)
      else if has_flag flags O_TRUNC
      then if \<not> node_permission (snd node) uid gid MODE_WRITE then Some (Err (Error EACCES), fs)
           else try_opt (fs_node_set_len D (fst node) 0 fs) (\<lambda>_ fs. Some (Ok (file_new path (fst node) flags), fs))
      else Some (Ok (file_new path (fst node) flags), fs))"

text \<open>The last part of the path that is not empty.\<close>

definition last_part :: "bytes \<Rightarrow> bytes" where
  "last_part path = foldl (\<lambda>l part. if part = [] then l else part) [] (split_slash path)"

definition open_create :: "'d disk_impl \<Rightarrow> bytes \<Rightarrow> usize \<Rightarrow> u32 \<Rightarrow> u32 \<Rightarrow> (u64 \<times> node) list \<Rightarrow> 'd file_system \<Rightarrow>
    (resource result \<times> 'd file_system) option" where
  "open_create D path flags uid gid nodes fs =
     (if last_part path = [] \<or> nodes = [] then Some (Err (Error EPERM), fs)
      else let parent = last nodes
           in if \<not> node_permission (snd parent) uid gid MODE_WRITE then Some (Err (Error EACCES), fs)
              else let dir = has_flag flags O_DIRECTORY;
                       mode = (if dir then NODE_DIR else NODE_FILE) OR (ucast flags AND NODE_PERM)
                   in try_opt (fs_create_node D mode (last_part path) (fst parent) fs) (\<lambda>node fs.
                        let n = (snd node)\<lparr>nd_uid := uid, nd_gid := gid\<rparr>
                        in try_rec (fs_write_at D (fst node) (encode_node n) fs) (\<lambda>_ fs.
                             if can_read flags \<and> \<not> node_permission n uid gid MODE_READ then Some (Err (Error EACCES), fs)
                             else if can_write flags \<and> \<not> node_permission n uid gid MODE_WRITE then Some (Err (Error EACCES), fs)
                             else if dir then Some (Ok (dir_new path (fst node) []), fs)
                             else Some (Ok (file_new path (fst node) flags), fs))))"

definition insert_resource :: "resource \<Rightarrow> (usize result, 'd file_scheme) op" where
  "insert_resource r s = (let (i, t) = add_handle (sc_files s) r in (Returned (Ok i), s\<lparr>sc_files := t\<rparr>))"

definition file_open :: "'d disk_impl \<Rightarrow> bytes \<Rightarrow> usize \<Rightarrow> u32 \<Rightarrow> u32 \<Rightarrow> (usize result, 'd file_scheme) op" where
  "file_open D url flags uid gid s =
     (let path = url_path url
      in with_fs (fs_path_nodes D path (sc_fs s)) (\<lambda>(node_result, nodes) s.
           case check_nodes nodes uid gid of
             Some e \<Rightarrow> (Returned (Err e), s)
           | None \<Rightarrow>
               with_fs
                 (case node_result of
                    Ok node \<Rightarrow> open_existing D path flags uid gid node (sc_fs s)
                  | Err e \<Rightarrow>
                      if errno e = ENOENT \<and> has_flag flags O_CREAT then open_create D path flags uid gid nodes (sc_fs s)
                      else Some (Err e, sc_fs s))
                 (\<lambda>r s. case r of Err e \<Rightarrow> (Returned (Err e), s) | Ok res \<Rightarrow> insert_resource res s) s) s)"

definition file_chmod :: "'d disk_impl \<Rightarrow> bytes \<Rightarrow> u16 \<Rightarrow> u32 \<Rightarrow> u32 \<Rightarrow> (usize result, 'd file_scheme) op" where
  "file_chmod D url mode uid gid s =
     with_fs (fs_path_nodes D (url_path url) (sc_fs s)) (\<lambda>(node_result, nodes) s.
       case check_nodes nodes uid gid of
         Some e \<Rightarrow> (Returned (Err e), s)
       | None \<Rightarrow>
           (case node_result of
              Err e \<Rightarrow> (Returned (Err e), s)
            | Ok node \<Rightarrow>
                if nd_uid (snd node) = uid \<or> uid = 0
                then (let n = (snd node)\<lparr>nd_mode := (nd_mode (snd node) AND NOT MODE_PERM) OR (mode AND MODE_PERM)\<rparr>
                      in with_fs (Some (fs_write_at D (fst node) (encode_node n) (sc_fs s)))
                           (\<lambda>r s. case r of Err e \<Rightarrow> (Returned (Err e), s) | Ok _ \<Rightarrow> (Returned (Ok 0), s)) s)
                else (Returned (Err (Error EPERM)), s))) s"

text \<open>The common part of \<open>rmdir\<close> and \<open>unlink\<close>; \<open>wrong\<close> is the error for the other kind of node.\<close>

definition remove_path :: "'d disk_impl \<Rightarrow> bool \<Rightarrow> u16 \<Rightarrow> i32 \<Rightarrow> bytes \<Rightarrow> u32 \<Rightarrow> u32 \<Rightarrow> (usize result, 'd file_scheme) op" where
  "remove_path D dir mode wrong url uid gid s =
     with_fs (fs_path_nodes D (url_path url) (sc_fs s)) (\<lambda>(node_result, nodes) s.
       case node_result of
         Err e \<Rightarrow> (Returned (Err e), s)
       | Ok child \<Rightarrow>
           (case check_nodes nodes uid gid of
              Some e \<Rightarrow> (Returned (Err e), s)
            | None \<Rightarrow>
                if nodes = [] then (Returned (Err (Error EPERM)), s)
                else let parent = last nodes
                     in if \<not> node_permission (snd parent) uid gid MODE_WRITE then (Returned (Err (Error EACCES)), s)
                        else if node_is_dir (snd child) \<noteq> dir then (Returned (Err (Error wrong)), s)
                        else if \<not> node_permission (snd child) uid gid MODE_WRITE then (Returned (Err (Error EACCES)), s)
                        else case node_name (snd child) of
                               None \<Rightarrow> (Returned (Err (Error ENOENT)), s)
                             | Some name \<Rightarrow>
                                 with_fs (fs_remove_node D mode name (fst parent) (sc_fs s))
                                   (\<lambda>r s. case r of Err e \<Rightarrow> (Returned (Err e), s) | Ok _ \<Rightarrow> (Returned (Ok 0), s)) s)) s"

definition file_rmdir :: "'d disk_impl \<Rightarrow> bytes \<Rightarrow> u32 \<Rightarrow> u32 \<Rightarrow> (usize result, 'd file_scheme) op" where
  "file_rmdir D = remove_path D True NODE_DIR ENOTDIR"

definition file_unlink :: "'d disk_impl \<Rightarrow> bytes \<Rightarrow> u32 \<Rightarrow> u32 \<Rightarrow> (usize result, 'd file_scheme) op" where
  "file_unlink D = remove_path D False NODE_FILE EISDIR"

definition file_dup :: "usize \<Rightarrow> bytes \<Rightarrow> (usize result, 'd file_scheme) op" where
  "file_dup old_id buf s =
     (case get_handle (sc_files s) old_id EBADF of
        Err e \<Rightarrow> (Returned (Err e), s)
      | Ok r \<Rightarrow> (case resource_dup buf r of Err e \<Rightarrow> (Returned (Err e), s) | Ok r' \<Rightarrow> insert_resource r' s))"

definition put_resource :: "usize \<Rightarrow> resource \<Rightarrow> 'd file_scheme \<Rightarrow> 'd file_scheme" where
  "put_resource i r s = s\<lparr>sc_files := set_handle (sc_files s) i r\<rparr>"

definition file_read :: "'d disk_impl \<Rightarrow> usize \<Rightarrow> bytes \<Rightarrow> (usize result \<times> bytes, 'd file_scheme) op" where
  "file_read D i buf s =
     (case get_handle (sc_files s) i EBADF of
        Err e \<Rightarrow> (Returned (Err e, buf), s)
      | Ok r \<Rightarrow> with_fs (resource_read D buf r (sc_fs s)) (\<lambda>((x, buf'), r') s.
          of_outcome x (\<lambda>n. (n, buf')) (put_resource i r' s)) s)"

definition file_write :: "'d disk_impl \<Rightarrow> usize \<Rightarrow> bytes \<Rightarrow> (usize result, 'd file_scheme) op" where
  "file_write D i buf s =
     (case get_handle (sc_files s) i EBADF of
        Err e \<Rightarrow> (Returned (Err e), s)
      | Ok r \<Rightarrow> with_fs (resource_write D buf r (sc_fs s)) (\<lambda>(x, r') s. of_outcome x (\<lambda>n. n) (put_resource i r' s)) s)"

definition file_seek :: "'d disk_impl \<Rightarrow> usize \<Rightarrow> usize \<Rightarrow> usize \<Rightarrow> (usize result, 'd file_scheme) op" where
  "file_seek D i pos whence s =
     (case get_handle (sc_files s) i EBADF of
        Err e \<Rightarrow> (Returned (Err e), s)
      | Ok r \<Rightarrow> with_fs (resource_seek D pos whence r (sc_fs s)) (\<lambda>(x, r') s. (Returned x, put_resource i r' s)) s)"

definition file_fcntl :: "usize \<Rightarrow> usize \<Rightarrow> usize \<Rightarrow> (usize result, 'd file_scheme) op" where
  "file_fcntl i cmd arg s =
     (case get_handle (sc_files s) i EBADF of
        Err e \<Rightarrow> (Returned (Err e), s)
      | Ok r \<Rightarrow> (let (x, r') = resource_fcntl cmd arg r in (Returned x, put_resource i r' s)))"

text \<open>The name of the scheme, \<open>:\<close> and \<open>/\<close> as far as they fit, then the path.\<close>

definition file_fpath :: "usize \<Rightarrow> bytes \<Rightarrow> (usize result \<times> bytes, 'd file_scheme) op" where
  "file_fpath i buf s =
     (case get_handle (sc_files s) i EBADF of
        Err e \<Rightarrow> (Returned (Err e, buf), s)
      | Ok r \<Rightarrow>
          (let (buf1, j) = copy_into buf (sc_name s @ [58, 47]);
               (buf2, n) = resource_path (drop j buf1) r
           in (Returned (Ok (of_nat (j + n)), take j buf1 @ buf2), s)))"

definition file_fstat :: "'d disk_impl \<Rightarrow> usize \<Rightarrow> stat \<Rightarrow> (usize result \<times> stat, 'd file_scheme) op" where
  "file_fstat D i st s =
     (case get_handle (sc_files s) i EBADF of
        Err e \<Rightarrow> (Returned (Err e, st), s)
      | Ok r \<Rightarrow> with_fs (resource_stat D st r (sc_fs s)) (\<lambda>x s. (Returned x, s)) s)"

definition file_fstatvfs :: "'d disk_impl \<Rightarrow> usize \<Rightarrow> stat_vfs \<Rightarrow> (usize result \<times> stat_vfs, 'd file_scheme) op" where
  "file_fstatvfs D i st s =
     (case get_handle (sc_files s) i EBADF of
        Err e \<Rightarrow> (Returned (Err e, st), s)
      | Ok _ \<Rightarrow>
          (let h = snd (fs_header (sc_fs s))
           in with_fs (fs_node_len D (hd_free h) (sc_fs s)) (\<lambda>r s.
                case r of
                  Err e \<Rightarrow> (Returned (Err e, st), s)
                | Ok free_size \<Rightarrow>
                    (Returned (Ok 0, st\<lparr>f_bsize := 512, f_blocks := hd_size h div 512, f_bfree := free_size div 512,
                      f_bavail := free_size div 512\<rparr>), s)) s))"

definition file_fsync :: "usize \<Rightarrow> (usize result, 'd file_scheme) op" where
  "file_fsync i s =
     (case get_handle (sc_files s) i EBADF of Err e \<Rightarrow> (Returned (Err e), s) | Ok r \<Rightarrow> (Returned (resource_sync r), s))"

definition file_ftruncate :: "'d disk_impl \<Rightarrow> usize \<Rightarrow> usize \<Rightarrow> (usize result, 'd file_scheme) op" where
  "file_ftruncate D i len s =
     (case get_handle (sc_files s) i EBADF of
        Err e \<Rightarrow> (Returned (Err e), s)
      | Ok r \<Rightarrow> with_fs (resource_truncate D len r (sc_fs s)) (\<lambda>x s. (Returned x, s)) s)"

definition file_close :: "usize \<Rightarrow> (usize result, 'd file_scheme) op" where
  "file_close i s = (let (r, t) = close_handle (sc_files s) i EBADF in (Returned r, s\<lparr>sc_files := t\<rparr>))"

definition file_ops :: "'d disk_impl \<Rightarrow> 'd file_scheme scheme_ops" where
  "file_ops D = default_ops
     \<lparr>op_open := file_open D, op_chmod := file_chmod D, op_rmdir := file_rmdir D, op_unlink := file_unlink D,
      op_dup := file_dup, op_read := file_read D, op_write := file_write D, op_seek := file_seek D,
      op_fcntl := file_fcntl, op_fpath := file_fpath, op_fstat := file_fstat D, op_fstatvfs := file_fstatvfs D,
      op_fsync := file_fsync, op_ftruncate := file_ftruncate D, op_close := file_close\<rparr>"

section \<open>Permissions\<close>

lemma check_nodes_None:
  "check_nodes ns uid gid = None \<longleftrightarrow> (\<forall>n\<in>set ns. node_permission (snd n) uid gid MODE_EXEC \<and> node_is_dir (snd n))"
  by (induction ns) auto

lemma try_opt_Ok: "try_opt m k = Some (Ok b, s) \<Longrightarrow> \<exists>a s'. m = Some (Ok a, s') \<and> k a s' = Some (Ok b, s)"
proof (cases m)
  case (Some x)
  assume *: "try_opt m k = Some (Ok b, s)"
  obtain r s' where x: "x = (r, s')"
    by fastforce
  show ?thesis
    using * Some x by (cases r) simp_all
qed simp

text \<open>What the node of an existing file has to allow.\<close>

definition may_open :: "node \<Rightarrow> usize \<Rightarrow> u32 \<Rightarrow> u32 \<Rightarrow> resource \<Rightarrow> bool" where
  "may_open n flags uid gid r =
     (case r of
        File h \<Rightarrow> \<not> node_is_dir n \<and> fr_flags h = flags \<and> (can_read flags \<longrightarrow> node_permission n uid gid MODE_READ) \<and>
          (can_write flags \<or> has_flag flags O_TRUNC \<longrightarrow> node_permission n uid gid MODE_WRITE)
      | Dir h \<Rightarrow> node_is_dir n \<and> (dr_data h \<noteq> [] \<longrightarrow> node_permission n uid gid MODE_READ))"

lemma open_existing_Ok:
  assumes "open_existing D path flags uid gid node fs = Some (Ok r, fs')"
  shows "\<not> has_flag flags (O_CREAT OR O_EXCL) \<and> resource_block r = fst node \<and> may_open (snd node) flags uid gid r"
proof (cases "node_is_dir (snd node)")
  case True
  then show ?thesis
    using assms unfolding open_existing_def
    by (auto simp: may_open_def dir_new_def dest!: try_opt_Ok split: if_splits)
next
  case False
  then show ?thesis
    using assms unfolding open_existing_def
    by (auto simp: may_open_def file_new_def dest!: try_opt_Ok split: if_splits)
qed

lemma open_create_Ok:
  "open_create D path flags uid gid nodes fs = Some (Ok r, fs') \<Longrightarrow>
   nodes \<noteq> [] \<and> node_permission (snd (last nodes)) uid gid MODE_WRITE"
  by (auto simp: open_create_def Let_def split: if_splits)

end
