(* ===== verification/Redoxfs_Layout.thy ===== *)
theory Redoxfs_Layout
  imports Redoxfs "HOL-Library.Multiset"
begin

text \<open>
  Which sectors a RedoxFS file occupies. A file system is seen as a function \<open>V\<close> from sector numbers to
  their bytes. \<open>chain V b cs\<close> says that the nodes reached from \<open>b\<close> by \<open>next\<close> are \<open>cs\<close>, and that the
  chain ends; \<open>layout V F cs\<close> lists the sectors of a file with the node chain \<open>cs\<close>: its nodes, the node
  \<open>F\<close> of the free list, the data of the file, and the free sectors. \<open>file_wf\<close> is the invariant: these
  sectors are distinct and inside the disk. The loops of \<open>allocate\<close>, \<open>insert_blocks\<close> and
  \<open>node_ensure_len\<close> keep it.
\<close>

section \<open>Runs of sectors\<close>

definition sector_run :: "u64 \<Rightarrow> nat \<Rightarrow> u64 list" where
  "sector_run b n = map (\<lambda>k. b + of_nat k) [0..<n]"

lemma length_sector_run [simp]: "length (sector_run b n) = n"
  by (simp add: sector_run_def)

lemma sector_run_0 [simp]: "sector_run b 0 = []"
  by (simp add: sector_run_def)

lemma sector_run_Suc: "sector_run b (Suc n) = b # sector_run (b + 1) n"
proof -
  have "[0..<Suc n] = 0 # map Suc [0..<n]"
    by (simp add: map_Suc_upt upt_conv_Cons del: upt_Suc)
  then show ?thesis
    by (simp add: sector_run_def algebra_simps del: upt_Suc)
qed

lemma sector_run_add: "sector_run b (m + n) = sector_run b m @ sector_run (b + of_nat m) n"
  by (induction m arbitrary: b) (simp_all add: sector_run_Suc algebra_simps)

lemma of_nat_unat_word: "of_nat (unat w) = (w :: u64)"
  by (simp add: word_unat_eq_iff unat_of_nat)

lemma sector_run_one [simp]: "sector_run b (Suc 0) = [b]"
  by (simp add: sector_run_Suc)

lemma block_count_eq: "unat len + 511 < 2 ^ 64 \<Longrightarrow> block_count len = (unat len + 511) div 512"
  by (simp add: block_count_def unat_div unat_add_usize)

lemma block_count_0 [simp]: "block_count 0 = 0"
  by (simp add: block_count_eq)

definition extent_sectors :: "extent \<Rightarrow> u64 list" where
  "extent_sectors e = sector_run (ex_block e) (block_count (ex_length e))"

definition free_sectors :: "extent \<Rightarrow> u64 list" where
  "free_sectors e = sector_run (ex_block e) (unat (ex_length e) div 512)"

definition sectors_of_extents :: "extent list \<Rightarrow> u64 list" where
  "sectors_of_extents es = concat (map extent_sectors es)"

definition free_of_extents :: "extent list \<Rightarrow> u64 list" where
  "free_of_extents es = concat (map free_sectors es)"

lemma sectors_of_extents_simps [simp]:
  "sectors_of_extents [] = []" "sectors_of_extents (e # es) = extent_sectors e @ sectors_of_extents es"
  "sectors_of_extents (es @ fs) = sectors_of_extents es @ sectors_of_extents fs"
  by (simp_all add: sectors_of_extents_def)

lemma free_of_extents_simps [simp]:
  "free_of_extents [] = []" "free_of_extents (e # es) = free_sectors e @ free_of_extents es"
  by (simp_all add: free_of_extents_def)

text \<open>The length of an extent can be rounded up without wrapping around.\<close>

definition extent_small :: "extent \<Rightarrow> bool" where
  "extent_small e \<longleftrightarrow> unat (ex_length e) + 511 < 2 ^ 64"

lemma block_count_bound: "extent_small e \<Longrightarrow> unat (ex_length e) \<le> 512 * block_count (ex_length e)"
  by (simp add: extent_small_def block_count_eq)

definition extents_size :: "extent list \<Rightarrow> nat" where
  "extents_size es = sum_list (map (\<lambda>e. unat (ex_length e)) es)"

lemma extents_size_simps [simp]:
  "extents_size [] = 0" "extents_size (e # es) = unat (ex_length e) + extents_size es"
  "extents_size (es @ es') = extents_size es + extents_size es'"
  "extents_size (replicate k extent_default) = 0"
  by (simp_all add: extents_size_def extent_default_def sum_list_replicate)

section \<open>The loops\<close>

lemma take_sectors_spec:
  assumes "take_sectors len es = Some (b, es')"
  shows "mset (free_of_extents es) = mset (sector_run b (unat len)) + mset (free_of_extents es') \<and> length es' = length es"
  using assms
proof (induction es arbitrary: es')
  case (Cons e es)
  show ?case
  proof (cases "ex_length e div 512 \<ge> len")
    case True
    then have le: "unat len \<le> unat (ex_length e) div 512"
      by (simp add: word_le_nat_alt unat_div)
    then have "512 * unat len \<le> unat (ex_length e)"
      by linarith
    then have mul: "unat (len * 512) = 512 * unat len"
      using unsigned_less [of "ex_length e", where ?'a = nat] by (simp add: unat_word_ariths)
    then have "unat (ex_length e - len * 512) = unat (ex_length e) - 512 * unat len"
      using \<open>512 * unat len \<le> unat (ex_length e)\<close> by (simp add: unat_sub word_le_nat_alt)
    then have "unat (ex_length e - len * 512) div 512 = unat (ex_length e) div 512 - unat len"
      by simp
    moreover have "unat (ex_length e) div 512 = unat len + (unat (ex_length e) div 512 - unat len)"
      using le by simp
    then have "free_sectors e = sector_run (ex_block e) (unat len) @ sector_run (ex_block e + len) (unat (ex_length e) div 512 - unat len)"
      unfolding free_sectors_def by (metis sector_run_add of_nat_unat_word)
    ultimately show ?thesis
      using Cons.prems True by (auto simp: free_sectors_def)
  next
    case False
    then show ?thesis
      using Cons by (auto simp: ac_simps)
  qed
qed simp

lemma take_sectors_none: "take_sectors 1 es = None \<Longrightarrow> free_of_extents es = []"
proof (induction es)
  case (Cons e es)
  then have "\<not> 1 \<le> ex_length e div 512" "take_sectors 1 es = None"
    by (auto split: if_splits)
  then show ?case
    using Cons.IH by (simp add: free_sectors_def word_le_nat_alt unat_div)
qed simp

lemma block_count_join:
  assumes "unat a mod 512 = 0" "unat a + unat b + 511 < 2 ^ 64"
  shows "block_count (a + b) = unat a div 512 + block_count b"
proof -
  obtain k where "unat a = 512 * k"
    using assms(1) by (auto simp: mod_eq_0_iff_dvd dvd_def)
  then show ?thesis
    using assms(2) by (simp add: block_count_eq unat_add_usize)
qed

lemma block_count_multiple: "unat a mod 512 = 0 \<Longrightarrow> unat a + 511 < 2 ^ 64 \<Longrightarrow> block_count a = unat a div 512"
  using block_count_join [of a 0] by simp

lemma unat_mod_512: "unat (a mod 512 :: u64) = unat a mod 512"
  by (simp add: unat_mod)

lemma unat_div_512: "unat (a div 512 :: u64) = unat a div 512"
  by (simp add: unat_div)

lemma of_nat_div_512: "of_nat (unat a div 512) = (a div 512 :: u64)"
  by (metis unat_div_512 of_nat_unat_word)

lemma place_blocks_spec:
  assumes "place_blocks block len es = Some es'"
    and "\<forall>e\<in>set es. extent_small e \<and> unat (ex_length e) + unat len + 511 < 2 ^ 64"
  shows "mset (sectors_of_extents es') = mset (sector_run block (block_count len)) + mset (sectors_of_extents es) \<and>
    length es' = length es \<and> (\<forall>e\<in>set es'. extent_small e)"
  using assms
proof (induction es arbitrary: es')
  case (Cons e es)
  have small: "unat (ex_length e) + unat len + 511 < 2 ^ 64"
    using Cons.prems(2) by simp
  then have sum: "unat (ex_length e + len) = unat (ex_length e) + unat len"
    by (simp add: unat_add_usize)
  consider (empty) "ex_length e = 0"
    | (front) "ex_length e \<noteq> 0" "len mod 512 = 0" "ex_block e = block + len div 512"
    | (behind) "ex_length e \<noteq> 0" "\<not> (len mod 512 = 0 \<and> ex_block e = block + len div 512)" "ex_length e mod 512 = 0"
        "ex_block e + ex_length e div 512 = block"
    | (later) es'' where "place_blocks block len es = Some es''" "es' = e # es''"
    using Cons.prems(1) by (auto split: if_splits)
  then show ?case
  proof cases
    case empty
    then show ?thesis
      using Cons.prems small by (auto simp: extent_sectors_def extent_small_def)
  next
    case front
    then have "unat len mod 512 = 0"
      by (metis unat_0 unat_mod_512)
    then have "block_count (ex_length e + len) = block_count len + block_count (ex_length e)"
      using block_count_join [of len "ex_length e"] block_count_multiple [of len] small by (simp add: add.commute)
    moreover have "of_nat (block_count len) = len div 512"
      using block_count_multiple [of len] \<open>unat len mod 512 = 0\<close> small by (simp add: of_nat_div_512)
    ultimately show ?thesis
      using Cons.prems front small sum by (auto simp: extent_sectors_def extent_small_def sector_run_add)
  next
    case behind
    then have m: "unat (ex_length e) mod 512 = 0"
      by (metis unat_0 unat_mod_512)
    then have "block_count (ex_length e + len) = block_count (ex_length e) + block_count len"
      using block_count_join [of "ex_length e" len] block_count_multiple [of "ex_length e"] small by simp
    moreover have "of_nat (block_count (ex_length e)) = ex_length e div 512"
      using block_count_multiple [of "ex_length e"] m small by (simp add: of_nat_div_512)
    ultimately show ?thesis
      using Cons.prems behind small sum by (auto simp: extent_sectors_def extent_small_def sector_run_add)
  next
    case later
    then show ?thesis
      using Cons by (auto simp: ac_simps)
  qed
qed simp

lemma place_blocks_size:
  "place_blocks block len es = Some es' \<Longrightarrow> \<forall>e\<in>set es. extent_small e \<and> unat (ex_length e) + unat len + 511 < 2 ^ 64 \<Longrightarrow>
   extents_size es' = extents_size es + unat len"
  by (induction es arbitrary: es') (auto simp: unat_add_usize split: if_splits)

lemma place_blocks_multiples:
  "place_blocks block len es = Some es' \<Longrightarrow> \<forall>e\<in>set es. unat (ex_length e) mod 512 = 0 \<Longrightarrow> unat len mod 512 = 0 \<Longrightarrow>
   \<forall>e\<in>set es. extent_small e \<and> unat (ex_length e) + unat len + 511 < 2 ^ 64 \<Longrightarrow> \<forall>e\<in>set es'. unat (ex_length e) mod 512 = 0"
proof (induction es arbitrary: es')
  case (Cons e es)
  have "unat (ex_length e + len) mod 512 = 0"
    using Cons.prems by (simp add: unat_add_usize mod_add_eq [of "unat (ex_length e)", symmetric])
  then show ?case
    using Cons by (auto split: if_splits)
qed simp

text \<open>Growing extents inside their last sectors takes no new sector.\<close>

lemma unat_round:
  assumes "unat a + 511 < 2 ^ 64"
  shows "unat (((a + 511 :: u64) div 512) * 512) = (unat a + 511) div 512 * 512"
proof -
  have q: "unat ((a + 511) div 512) = (unat a + 511) div 512"
    using assms by (simp add: unat_div_512 unat_add_usize)
  have "(unat a + 511) div 512 * 512 < 2 ^ 64"
    using assms by linarith
  then show "unat (((a + 511) div 512) * 512) = (unat a + 511) div 512 * 512"
    using q by (simp add: unat_word_ariths)
qed

lemma block_count_within:
  assumes "unat a + 511 < 2 ^ 64" "a \<le> b" "b \<le> ((a + 511) div 512) * 512"
  shows "block_count b = block_count a \<and> unat b + 511 < 2 ^ 64"
proof -
  have b: "unat a \<le> unat b" "unat b \<le> (unat a + 511) div 512 * 512"
    using assms(2,3) unat_round [OF assms(1)] by (simp_all add: word_le_nat_alt)
  have "(unat a + 511) div 512 \<le> 2 ^ 55 - 1"
    using assms(1) by simp
  then have "unat b + 511 < 2 ^ 64"
    using b(2) by simp
  moreover have "(unat b + 511) div 512 = (unat a + 511) div 512"
    using b by linarith
  ultimately show ?thesis
    using assms(1) by (simp add: block_count_eq)
qed

lemma length_le_round: "extent_small e \<Longrightarrow> ex_length e \<le> ((ex_length e + 511) div 512) * 512"
  using unat_round [of "ex_length e"] unfolding word_le_nat_alt by (simp add: extent_small_def)

lemma grow_extents_spec:
  assumes "grow_extents len es = (changed, rest, es')" "\<forall>e\<in>set es. extent_small e"
  shows "sectors_of_extents es' = sectors_of_extents es \<and> length es' = length es \<and> (\<forall>e\<in>set es'. extent_small e) \<and>
    (\<not> changed \<longrightarrow> es' = es) \<and> rest \<le> len"
  using assms
proof (induction es arbitrary: len changed rest es')
  case (Cons e es)
  let ?a = "((ex_length e + 511) div 512) * 512"
  consider (fits) "len \<le> ex_length e" | (last) "ex_length e < len" "len \<le> ?a" | (more) "ex_length e < len" "?a < len"
    by fastforce
  then show ?case
  proof cases
    case fits
    then show ?thesis
      using Cons.prems by auto
  next
    case last
    then have "block_count len = block_count (ex_length e) \<and> unat len + 511 < 2 ^ 64"
      using block_count_within [of "ex_length e" len] Cons.prems(2) by (auto simp: extent_small_def)
    moreover have "grow_extents len (e # es) = (True, 0, e\<lparr>ex_length := len\<rparr> # es)"
      using last by (simp add: not_le [symmetric])
    ultimately show ?thesis
      using Cons.prems by (auto simp: extent_sectors_def extent_small_def simp del: grow_extents.simps)
  next
    case more
    obtain c r es'' where rec: "grow_extents (len - ?a) es = (c, r, es'')"
      by (cases "grow_extents (len - ?a) es")
    have "ex_length e \<le> ?a"
      using Cons.prems(2) length_le_round by simp
    then have "block_count ?a = block_count (ex_length e) \<and> unat ?a + 511 < 2 ^ 64"
      using block_count_within [of "ex_length e" ?a] Cons.prems(2) by (auto simp: extent_small_def)
    moreover have "len - ?a \<le> len"
      using more by (meson less_imp_le word_sub_le)
    moreover have "grow_extents len (e # es) = (True, r, e\<lparr>ex_length := ?a\<rparr> # es'')"
      using more rec by (simp add: not_le [symmetric] Let_def)
    ultimately show ?thesis
      using Cons.IH [OF rec] Cons.prems
      by (auto simp: extent_sectors_def extent_small_def simp del: grow_extents.simps)
  qed
qed simp

lemma grow_extents_size:
  "grow_extents len es = (changed, rest, es') \<Longrightarrow> unat len \<le> extents_size es' + unat rest"
proof (induction es arbitrary: len changed rest es')
  case (Cons e es)
  let ?a = "((ex_length e + 511) div 512) * 512"
  consider (fits) "len \<le> ex_length e" | (last) "\<not> len \<le> ex_length e" "len \<le> ?a" | (more) "\<not> len \<le> ex_length e" "\<not> len \<le> ?a"
    by blast
  then show ?case
  proof cases
    case more
    obtain c r es'' where rec: "grow_extents (len - ?a) es = (c, r, es'')"
      by (cases "grow_extents (len - ?a) es")
    have "unat (len - ?a) = unat len - unat ?a"
      using more(2) by (intro unat_sub) simp
    then show ?thesis
      using Cons.IH [OF rec] Cons.prems more rec by (auto simp: Let_def)
  qed (use Cons.prems in \<open>auto simp: word_le_nat_alt Let_def\<close>)
qed simp

text \<open>Something is left over only if the extents are too short.\<close>

lemma grow_extents_rest:
  "grow_extents len es = (changed, rest, es') \<Longrightarrow> \<forall>e\<in>set es. extent_small e \<Longrightarrow> rest \<noteq> 0 \<Longrightarrow>
   unat rest + extents_size es \<le> unat len"
proof (induction es arbitrary: len changed rest es')
  case (Cons e es)
  let ?a = "((ex_length e + 511) div 512) * 512"
  have more: "\<not> len \<le> ex_length e" "\<not> len \<le> ?a"
    using Cons.prems(1,3) by (auto simp: Let_def split: if_splits)
  obtain c r es'' where rec: "grow_extents (len - ?a) es = (c, r, es'')"
    by (cases "grow_extents (len - ?a) es")
  have "unat (len - ?a) = unat len - unat ?a"
    using more(2) by (intro unat_sub) simp
  moreover have "r = rest"
    using Cons.prems(1) more rec by (auto simp: Let_def)
  moreover have "unat (ex_length e) \<le> unat ?a" "unat ?a < unat len"
    using length_le_round [of e] Cons.prems(2) more(2) by (simp_all add: word_le_nat_alt)
  ultimately show ?case
    using Cons.IH [OF rec] Cons.prems(2,3) by auto
qed simp

section \<open>Chains of nodes\<close>

type_synonym view = "u64 \<Rightarrow> bytes"

abbreviation node_at :: "view \<Rightarrow> u64 \<Rightarrow> node" where
  "node_at V b \<equiv> decode_node (V b)"

fun chain :: "view \<Rightarrow> u64 \<Rightarrow> u64 list \<Rightarrow> bool" where
  "chain V b [] \<longleftrightarrow> b = 0"
| "chain V b (c # cs) \<longleftrightarrow> b = c \<and> c \<noteq> 0 \<and> chain V (nd_next (node_at V c)) cs"

definition chain_extents :: "view \<Rightarrow> u64 list \<Rightarrow> extent list" where
  "chain_extents V cs = concat (map (\<lambda>c. nd_extents (node_at V c)) cs)"

lemma chain_extents_simps [simp]:
  "chain_extents V [] = []" "chain_extents V (c # cs) = nd_extents (node_at V c) @ chain_extents V cs"
  "chain_extents V (cs @ ds) = chain_extents V cs @ chain_extents V ds"
  by (simp_all add: chain_extents_def)

lemma chain_frame [simp]: "c \<notin> set cs \<Longrightarrow> chain (V(c := x)) b cs = chain V b cs"
  by (induction cs arbitrary: b) auto

lemma chain_extents_frame [simp]: "c \<notin> set cs \<Longrightarrow> chain_extents (V(c := x)) cs = chain_extents V cs"
  by (induction cs) auto

lemma chain_cong: "(\<And>c. c \<in> set cs \<Longrightarrow> V c = W c) \<Longrightarrow> chain V b cs = chain W b cs"
  by (induction cs arbitrary: b) auto

lemma chain_extents_cong: "(\<And>c. c \<in> set cs \<Longrightarrow> V c = W c) \<Longrightarrow> chain_extents V cs = chain_extents W cs"
  by (simp add: chain_extents_def cong: map_cong)

lemma chain_tail: "chain V b (xs @ ys) \<Longrightarrow> ys \<noteq> [] \<Longrightarrow> chain V (hd ys) ys"
  by (induction xs arbitrary: b) (cases ys; auto)+

definition layout :: "view \<Rightarrow> u64 \<Rightarrow> u64 list \<Rightarrow> u64 list" where
  "layout V F cs = cs @ F # sectors_of_extents (chain_extents V cs) @ free_of_extents (nd_extents (node_at V F))"

text \<open>
  \<open>N\<close> is the set of sectors inside the disk; \<open>P\<close> lists sectors that have been allocated and are not yet
  part of the file.
\<close>

definition file_wf :: "u64 set \<Rightarrow> u64 list \<Rightarrow> view \<Rightarrow> u64 \<Rightarrow> u64 \<Rightarrow> u64 list \<Rightarrow> bool" where
  "file_wf N P V F b cs \<longleftrightarrow>
     chain V b cs \<and> distinct (P @ layout V F cs) \<and> set (P @ layout V F cs) \<subseteq> N \<and> 0 \<notin> set (P @ layout V F cs) \<and>
     (\<forall>e\<in>set (chain_extents V cs). extent_small e)"

definition file_size :: "view \<Rightarrow> u64 list \<Rightarrow> nat" where
  "file_size V cs = extents_size (chain_extents V cs)"

section \<open>Updates keep the layout\<close>

lemma file_wf_transfer:
  assumes "file_wf N P V F b cs" "chain V' b' cs'" "mset (P' @ layout V' F cs') = mset (P @ layout V F cs)"
    and "\<forall>e\<in>set (chain_extents V' cs'). extent_small e"
  shows "file_wf N P' V' F b' cs'"
proof -
  have "distinct (P' @ layout V' F cs')" "set (P' @ layout V' F cs') = set (P @ layout V F cs)"
    using assms(1) mset_eq_imp_distinct_iff [OF assms(3)] mset_eq_setD [OF assms(3)] by (simp_all add: file_wf_def)
  then show ?thesis
    using assms(1,2,4) by (simp add: file_wf_def)
qed

lemma file_wf_frame:
  assumes wf: "file_wf N P V F b cs" and nodes: "\<forall>c\<in>insert F (set cs). V' c = V c"
  shows "file_wf N P V' F b cs \<and> chain_extents V' cs = chain_extents V cs"
proof -
  have ce: "chain_extents V' cs = chain_extents V cs" and ch: "chain V' b cs = chain V b cs"
    using nodes chain_extents_cong [of cs V' V] chain_cong [of cs V' V b] by simp_all
  moreover have "layout V' F cs = layout V F cs"
    using nodes by (simp add: layout_def ce)
  ultimately show ?thesis
    using wf by (simp add: file_wf_def)
qed

lemma file_wf_drop: "file_wf N (Q @ P) V F b cs \<Longrightarrow> file_wf N P V F b cs"
  by (auto simp: file_wf_def)

lemma chain_update:
  "chain V b cs \<Longrightarrow> distinct cs \<Longrightarrow> node_wf n \<Longrightarrow> nd_next n = nd_next (node_at V c) \<Longrightarrow> chain (V(c := encode_node n)) b cs"
proof (induction cs arbitrary: b)
  case (Cons d ds)
  then show ?case
    by (cases "d = c") auto
qed simp

lemma chain_extents_update:
  "distinct (xs @ c # ys) \<Longrightarrow> node_wf n \<Longrightarrow>
   chain_extents (V(c := encode_node n)) (xs @ c # ys) = chain_extents V xs @ nd_extents n @ chain_extents V ys"
  by simp

lemma layout_update:
  assumes "distinct (layout V F (xs @ c # ys))" "node_wf n"
  shows "layout (V(c := encode_node n)) F (xs @ c # ys) =
    (xs @ c # ys) @ F # sectors_of_extents (chain_extents V xs @ nd_extents n @ chain_extents V ys) @ free_of_extents (nd_extents (node_at V F))"
proof -
  have "distinct (xs @ c # ys)" "F \<noteq> c"
    using assms(1) by (auto simp: layout_def)
  then show ?thesis
    using chain_extents_update [OF \<open>distinct (xs @ c # ys)\<close> assms(2), of V] by (simp add: layout_def)
qed

text \<open>New extents for one node of the chain; the sectors they gain or lose were or become allocated ones.\<close>

lemma file_wf_extents:
  assumes wf: "file_wf N P V F b (xs @ c # ys)" and len: "length (V c) = 512"
    and es: "length es = 15" "mset P' + mset (sectors_of_extents es) = mset P + mset (sectors_of_extents (nd_extents (node_at V c)))"
      "\<forall>e\<in>set es. extent_small e"
  shows "file_wf N P' (V(c := encode_node ((node_at V c)\<lparr>nd_extents := es\<rparr>))) F b (xs @ c # ys)"
    "chain_extents (V(c := encode_node ((node_at V c)\<lparr>nd_extents := es\<rparr>))) (xs @ c # ys) = chain_extents V xs @ es @ chain_extents V ys"
proof -
  let ?n = "(node_at V c)\<lparr>nd_extents := es\<rparr>"
  have n: "node_wf ?n"
    using len es(1) node_wf_intros(3) [of "V c"] by (simp add: node_wf_def)
  have d: "distinct (layout V F (xs @ c # ys))" "distinct (xs @ c # ys)" "chain V b (xs @ c # ys)"
    using wf by (auto simp: file_wf_def layout_def)
  show ce: "chain_extents (V(c := encode_node ?n)) (xs @ c # ys) = chain_extents V xs @ es @ chain_extents V ys"
    using chain_extents_update [OF d(2) n, of V] by simp
  show "file_wf N P' (V(c := encode_node ?n)) F b (xs @ c # ys)"
  proof (rule file_wf_transfer [OF wf])
    show "chain (V(c := encode_node ?n)) b (xs @ c # ys)"
      using d(2,3) n by (intro chain_update) simp_all
    show "mset (P' @ layout (V(c := encode_node ?n)) F (xs @ c # ys)) = mset (P @ layout V F (xs @ c # ys))"
      unfolding layout_update [OF d(1) n] using es(2) by (simp add: layout_def ac_simps)
    show "\<forall>e\<in>set (chain_extents (V(c := encode_node ?n)) (xs @ c # ys)). extent_small e"
      unfolding ce using wf es(3) by (auto simp: file_wf_def)
  qed
qed

text \<open>Sectors taken from the free list.\<close>

lemma file_wf_allocate:
  assumes wf: "file_wf N P V F b cs" and len: "length (V F) = 512"
    and es: "take_sectors n (nd_extents (node_at V F)) = Some (blk, es)"
  shows "file_wf N (P @ sector_run blk (unat n)) (V(F := encode_node ((node_at V F)\<lparr>nd_extents := es\<rparr>))) F b cs"
    "chain_extents (V(F := encode_node ((node_at V F)\<lparr>nd_extents := es\<rparr>))) cs = chain_extents V cs"
proof -
  let ?n = "(node_at V F)\<lparr>nd_extents := es\<rparr>"
  note spec = take_sectors_spec [OF es]
  have n: "node_wf ?n"
    using len spec node_wf_intros(3) [of "V F"] by (simp add: node_wf_def)
  have F: "F \<notin> set cs"
    using wf by (auto simp: file_wf_def layout_def)
  show ce: "chain_extents (V(F := encode_node ?n)) cs = chain_extents V cs"
    using F by simp
  show "file_wf N (P @ sector_run blk (unat n)) (V(F := encode_node ?n)) F b cs"
  proof (rule file_wf_transfer [OF wf])
    show "chain (V(F := encode_node ?n)) b cs"
      using wf F by (simp add: file_wf_def)
    show "mset ((P @ sector_run blk (unat n)) @ layout (V(F := encode_node ?n)) F cs) = mset (P @ layout V F cs)"
      using spec n by (simp add: layout_def ce)
    show "\<forall>e\<in>set (chain_extents (V(F := encode_node ?n)) cs). extent_small e"
      unfolding ce using wf by (simp add: file_wf_def)
  qed
qed

text \<open>A new node at the end of the chain.\<close>

lemma node_default_fields [simp]: "nd_next node_default = 0" "nd_extents node_default = replicate 15 extent_default"
  by (simp_all add: node_default_def)

lemma chain_snoc:
  "chain V b (xs @ [c]) \<Longrightarrow> distinct (xs @ [c, new]) \<Longrightarrow> node_wf n \<Longrightarrow> nd_next n = new \<Longrightarrow> new \<noteq> 0 \<Longrightarrow>
   chain (V(c := encode_node n, new := encode_node node_default)) b (xs @ [c, new])"
proof (induction xs arbitrary: b)
  case Nil
  then show ?case
    by simp
next
  case (Cons d ds)
  then show ?case
    by auto
qed

lemma sectors_of_default [simp]: "sectors_of_extents (replicate k extent_default) = []"
  by (induction k) (simp_all add: extent_default_def extent_sectors_def)

lemma file_wf_new_node:
  assumes wf: "file_wf N (P @ [new]) V F b (xs @ [c])" and len: "length (V c) = 512"
  shows "file_wf N P (V(c := encode_node ((node_at V c)\<lparr>nd_next := new\<rparr>), new := encode_node node_default)) F b (xs @ [c, new])"
    "chain_extents (V(c := encode_node ((node_at V c)\<lparr>nd_next := new\<rparr>), new := encode_node node_default)) (xs @ [c, new]) =
       chain_extents V (xs @ [c]) @ replicate 15 extent_default"
proof -
  let ?n = "(node_at V c)\<lparr>nd_next := new\<rparr>"
  let ?V = "V(c := encode_node ?n, new := encode_node node_default)"
  have n: "node_wf ?n"
    using len node_wf_intros(3) [of "V c"] by (simp add: node_wf_def)
  have d: "distinct (xs @ [c, new])" "F \<notin> {c, new}" "new \<noteq> 0"
    using wf by (auto simp: file_wf_def layout_def)
  show ce: "chain_extents ?V (xs @ [c, new]) = chain_extents V (xs @ [c]) @ replicate 15 extent_default"
    using n d(1) by simp
  show "file_wf N P ?V F b (xs @ [c, new])"
  proof (rule file_wf_transfer [OF wf])
    show "chain ?V b (xs @ [c, new])"
      using wf d n by (intro chain_snoc) (auto simp: file_wf_def)
    show "mset (P @ layout ?V F (xs @ [c, new])) = mset ((P @ [new]) @ layout V F (xs @ [c]))"
      using d(2) unfolding layout_def ce by simp
    show "\<forall>e\<in>set (chain_extents ?V (xs @ [c, new])). extent_small e"
      unfolding ce using wf by (auto simp: file_wf_def extent_default_def extent_small_def)
  qed
qed

section \<open>Room for more\<close>

lemma extent_count_le: "e \<in> set es \<Longrightarrow> block_count (ex_length e) \<le> length (sectors_of_extents es)"
  by (induction es) (auto simp: extent_sectors_def)

text \<open>A disk has so few sectors that lengths of extents do not wrap around.\<close>

lemma file_wf_room:
  assumes wf: "file_wf N (sector_run block (block_count len) @ P) V F b cs" and N: "finite N" "card N < 2 ^ 54"
    and len: "unat len + 511 < 2 ^ 64" and e: "e \<in> set (chain_extents V cs)"
  shows "extent_small e \<and> unat (ex_length e) + unat len + 511 < 2 ^ 64"
proof -
  let ?l = "sector_run block (block_count len) @ P @ layout V F cs"
  have "length ?l \<le> card N"
    using wf N(1) card_mono [of N "set ?l"] distinct_card [of ?l] by (simp add: file_wf_def)
  then have "block_count len + block_count (ex_length e) < 2 ^ 54"
    using N(2) extent_count_le [OF e] by (simp add: layout_def)
  moreover have "unat len \<le> 512 * block_count len"
    using len by (simp add: block_count_eq)
  moreover have small: "extent_small e"
    using wf e by (simp add: file_wf_def)
  ultimately show ?thesis
    using block_count_bound [OF small] by simp
qed

text \<open>The node of the free list has an extent that is not in use.\<close>

definition spare :: "view \<Rightarrow> u64 \<Rightarrow> bool" where
  "spare V F \<longleftrightarrow> (\<exists>e\<in>set (nd_extents (node_at V F)). ex_length e = 0)"

lemma take_sectors_spare:
  "take_sectors 1 es = Some (b, es') \<Longrightarrow> \<exists>e\<in>set es. ex_length e = 0 \<Longrightarrow> \<exists>e\<in>set es'. ex_length e = 0"
proof (induction es arbitrary: es')
  case (Cons e es)
  show ?case
  proof (cases "ex_length e = 0")
    case True
    then show ?thesis
      using Cons.prems(1) by (auto split: if_splits)
  next
    case False
    then show ?thesis
      using Cons by (auto split: if_splits)
  qed
qed simp

definition same_owner :: "node \<Rightarrow> node \<Rightarrow> bool" where
  "same_owner n m \<longleftrightarrow> nd_mode n = nd_mode m \<and> nd_uid n = nd_uid m \<and> nd_gid n = nd_gid m"

lemma same_owner_simps [simp]:
  "same_owner n n" "same_owner (n\<lparr>nd_extents := es\<rparr>) n" "same_owner (n\<lparr>nd_next := b\<rparr>) n"
  by (simp_all add: same_owner_def)

text \<open>
  What inserting \<open>len\<close> bytes at the sectors from \<open>block\<close> on does to a file: these sectors are added to its data,
  its size grows by \<open>len\<close>, whole sectors stay whole sectors, a spare extent of the free list stays, the nodes keep their modes and owners, and only nodes of the file, the node of the free list and
  free sectors are written.
\<close>

definition file_grew :: "view \<Rightarrow> u64 \<Rightarrow> u64 list \<Rightarrow> u64 \<Rightarrow> u64 \<Rightarrow> view \<Rightarrow> u64 list \<Rightarrow> bool" where
  "file_grew V F cs block len V' cs' \<longleftrightarrow>
     mset (sectors_of_extents (chain_extents V' cs')) =
       mset (sector_run block (block_count len)) + mset (sectors_of_extents (chain_extents V cs)) \<and>
     file_size V' cs' = file_size V cs + unat len \<and>
     (unat len mod 512 = 0 \<longrightarrow> (\<forall>e\<in>set (chain_extents V cs). unat (ex_length e) mod 512 = 0) \<longrightarrow>
       (\<forall>e\<in>set (chain_extents V' cs'). unat (ex_length e) mod 512 = 0)) \<and>
     (spare V F \<longrightarrow> spare V' F) \<and> (\<forall>c\<in>set cs. same_owner (node_at V' c) (node_at V c)) \<and>
     (\<forall>x. V' x \<noteq> V x \<longrightarrow> x \<in> insert F (set cs \<union> set (free_of_extents (nd_extents (node_at V F)))))"

lemma file_grew_size: "file_grew V F cs block len V' cs' \<Longrightarrow> file_size V' cs' = file_size V cs + unat len"
  by (simp add: file_grew_def)

end
