(* ===== verification/Redoxfs_Files.thy ===== *)
theory Redoxfs_Files
  imports Redoxfs_Layout
begin

text \<open>
  Files on RedoxFS: what \<open>node_ensure_len\<close>, \<open>node_extents\<close>, \<open>read_node\<close> and \<open>write_node\<close> do on a disk
  that keeps the laws of \<open>sector_disk\<close>. \<open>fs_holds fs V N H\<close> relates the state of a file system to its
  sectors \<open>V\<close>, the sectors \<open>N\<close> inside the disk and its header \<open>H\<close>; each operation has a lemma that gives
  its result and the sectors after it.
\<close>

section \<open>Sectors of a file system\<close>

definition fs_holds :: "('d \<Rightarrow> bool) \<Rightarrow> ('d \<Rightarrow> sectors) \<Rightarrow> ('d \<Rightarrow> nat) \<Rightarrow> 'd file_system \<Rightarrow> view \<Rightarrow> u64 set \<Rightarrow> header \<Rightarrow> bool" where
  "fs_holds valid sectors_of sector_count fs V N H \<longleftrightarrow>
     valid (fs_disk fs) \<and> V = (\<lambda>b. sectors_of (fs_disk fs) (unat (fs_block fs + b))) \<and>
     N = {b. unat (fs_block fs + b) < sector_count (fs_disk fs)} \<and> snd (fs_header fs) = H"

lemma default_length [simp]: "ex_length extent_default = 0"
  by (simp add: extent_default_def)

text \<open>The sectors after the bytes \<open>buf\<close>, whole sectors, are written from \<open>b\<close> on.\<close>

definition write_run :: "view \<Rightarrow> u64 \<Rightarrow> bytes \<Rightarrow> view" where
  "write_run V b buf =
     (\<lambda>x. if unat (x - b) < length buf div 512 then take 512 (drop (512 * unat (x - b)) buf) else V x)"

lemma set_sector_run: "n \<le> 2 ^ 64 \<Longrightarrow> x \<in> set (sector_run b n) \<longleftrightarrow> unat (x - b) < n"
proof
  assume "n \<le> 2 ^ 64" "x \<in> set (sector_run b n)"
  then obtain k where "k < n" "x = b + of_nat k"
    by (auto simp: sector_run_def)
  then show "unat (x - b) < n"
    using \<open>n \<le> 2 ^ 64\<close> by simp
next
  assume "unat (x - b) < n"
  moreover have "x = b + of_nat (unat (x - b))"
    by (simp add: of_nat_unat_word)
  ultimately show "x \<in> set (sector_run b n)"
    unfolding sector_run_def set_map by (metis atLeastLessThan_iff image_eqI le0 set_upt)
qed

lemma write_run_single: "length buf = 512 \<Longrightarrow> write_run V b buf = V(b := buf)"
  by (auto simp: write_run_def fun_eq_iff unat_eq_0)

lemma write_run_other: "x \<notin> set (sector_run b (length buf div 512)) \<Longrightarrow> length buf div 512 \<le> 2 ^ 64 \<Longrightarrow> write_run V b buf x = V x"
  by (simp add: set_sector_run write_run_def)

lemma concat_sectors:
  "length buf = 512 * n \<Longrightarrow> concat (map (\<lambda>k. take 512 (drop (512 * k) buf)) [0..<n]) = buf"
proof -
  assume "length buf = 512 * n"
  moreover have "512 * m \<le> length buf \<Longrightarrow> concat (map (\<lambda>k. take 512 (drop (512 * k) buf)) [0..<m]) = take (512 * m) buf" for m
  proof (induction m)
    case (Suc m)
    then show ?case
      using take_add [of "512 * m" 512 buf] by (simp add: add.commute)
  qed simp
  ultimately show ?thesis
    by simp
qed

lemma write_run_read:
  assumes "length buf = 512 * n" "n \<le> 2 ^ 64"
  shows "concat (map (write_run V b buf) (sector_run b n)) = buf"
proof -
  have "map (write_run V b buf) (sector_run b n) = map (\<lambda>k. take 512 (drop (512 * k) buf)) [0..<n]"
    using assms by (simp add: sector_run_def write_run_def)
  then show ?thesis
    using concat_sectors [OF assms(1)] by simp
qed

context sector_disk
begin

abbreviation holds :: "'d file_system \<Rightarrow> view \<Rightarrow> u64 set \<Rightarrow> header \<Rightarrow> bool" where
  "holds \<equiv> fs_holds valid sectors_of sector_count"

lemma sector_size: "holds fs V N H \<Longrightarrow> b \<in> N \<Longrightarrow> length (V b) = 512"
  by (auto simp: fs_holds_def sector_length)

lemma sectors_finite: "holds fs V N H \<Longrightarrow> finite N \<and> card N < 2 ^ 54"
proof -
  assume h: "holds fs V N H"
  have inj: "inj_on (\<lambda>b. unat (fs_block fs + b)) N"
    by (simp add: inj_on_def)
  have sub: "(\<lambda>b. unat (fs_block fs + b)) ` N \<subseteq> {..<sector_count (fs_disk fs)}"
    using h by (auto simp: fs_holds_def)
  then have "card N \<le> sector_count (fs_disk fs)" "finite N"
    using card_inj_on_le [OF inj sub] inj_on_finite [OF inj sub] by simp_all
  then show ?thesis
    using h count_small [of "fs_disk fs"] by (auto simp: fs_holds_def)
qed

lemma run_inside:
  assumes "holds fs V N H" "set (sector_run b (Suc n)) \<subseteq> N"
  shows "unat (fs_block fs + b) + Suc n \<le> sector_count (fs_disk fs) \<and> unat (fs_block fs + (b + of_nat n)) = unat (fs_block fs + b) + n"
  using assms(2)
proof (induction n)
  case 0
  then show ?case
    using assms(1) by (auto simp: fs_holds_def)
next
  case (Suc n)
  let ?p = "fs_block fs + b"
  have run: "sector_run b (Suc (Suc n)) = sector_run b (Suc n) @ [b + of_nat (Suc n)]"
    by (simp add: sector_run_def)
  then have IH: "unat ?p + Suc n \<le> sector_count (fs_disk fs)" "unat (fs_block fs + (b + of_nat n)) = unat ?p + n"
    using Suc by auto
  have cnt: "sector_count (fs_disk fs) < 2 ^ 54"
    using assms(1) count_small by (simp add: fs_holds_def)
  have "unat (?p + of_nat (Suc n)) = unat ?p + Suc n"
    using IH(1) cnt by (simp add: unat_add_usize del: of_nat_Suc)
  then have eq: "unat (fs_block fs + (b + of_nat (Suc n))) = unat ?p + Suc n"
    by (simp add: add.assoc)
  moreover have "b + of_nat (Suc n) \<in> N"
    using Suc.prems unfolding run by auto
  ultimately show ?case
    using assms(1) by (simp add: fs_holds_def)
qed

lemma read_run:
  assumes h: "holds fs V N H" and run: "set (sector_run b n) \<subseteq> N" and buf: "length buf = 512 * n" "0 < n"
  shows "\<exists>fs'. fs_read_at D b buf fs = ((Ok (of_nat (length buf)), concat (map V (sector_run b n))), fs') \<and> holds fs' V N H"
proof -
  obtain m where m: "n = Suc m"
    using buf(2) gr0_implies_Suc by blast
  have pos: "unat (fs_block fs + (b + of_nat k)) = unat (fs_block fs + b) + k" if "k < n" for k
  proof -
    have "set (sector_run b (Suc k)) \<subseteq> N"
      using run that by (auto simp: sector_run_def)
    then show ?thesis
      using run_inside [OF h] by blast
  qed
  have "unat (fs_block fs + b) + length buf div 512 \<le> sector_count (fs_disk fs)"
    using run_inside [OF h, of b m] run m buf(1) by simp
  then obtain d where d: "d_read_at D (fs_block fs + b) buf (fs_disk fs) =
      ((Ok (of_nat (length buf)), read_sectors (sectors_of (fs_disk fs)) (unat (fs_block fs + b)) n), d)"
      "valid d" "sector_count d = sector_count (fs_disk fs)" "sectors_of d = sectors_of (fs_disk fs)"
    using read_whole [of "fs_disk fs" buf "fs_block fs + b"] h buf by (auto simp: fs_holds_def whole_sectors_def)
  have "map (sectors_of (fs_disk fs)) [unat (fs_block fs + b)..<unat (fs_block fs + b) + n] = map V (sector_run b n)"
    using h pos by (intro nth_equalityI) (auto simp: fs_holds_def sector_run_def)
  then have "read_sectors (sectors_of (fs_disk fs)) (unat (fs_block fs + b)) n = concat (map V (sector_run b n))"
    by (simp add: read_sectors_def)
  then show ?thesis
    using d h by (simp add: fs_read_at_def fs_holds_def)
qed

lemma write_run_at:
  assumes h: "holds fs V N H" and run: "set (sector_run b n) \<subseteq> N" and buf: "length buf = 512 * n" "0 < n"
  shows "\<exists>fs'. fs_write_at D b buf fs = (Ok (of_nat (length buf)), fs') \<and> holds fs' (write_run V b buf) N H"
proof -
  let ?p = "fs_block fs + b"
  obtain m where m: "n = Suc m"
    using buf(2) gr0_implies_Suc by blast
  have le: "unat ?p + n \<le> sector_count (fs_disk fs)"
    using run_inside [OF h, of b m] run m by simp
  have cnt: "sector_count (fs_disk fs) < 2 ^ 54"
    using h count_small by (simp add: fs_holds_def)
  obtain d where d: "d_write_at D ?p buf (fs_disk fs) = (Ok (of_nat (length buf)), d)"
      "valid d" "sector_count d = sector_count (fs_disk fs)" "sectors_of d = write_sectors (sectors_of (fs_disk fs)) (unat ?p) buf"
    using write_whole [of "fs_disk fs" buf ?p] h buf le by (auto simp: fs_holds_def whole_sectors_def)
  have "write_sectors (sectors_of (fs_disk fs)) (unat ?p) buf (unat (fs_block fs + x)) = write_run V b buf x" for x
  proof (cases "unat (x - b) < n")
    case True
    have "fs_block fs + x = ?p + (x - b)"
      by simp
    then have "unat (fs_block fs + x) = unat ?p + unat (x - b)"
      using unat_add_usize [of ?p "x - b"] True le cnt by simp
    then show ?thesis
      using True buf by (simp add: write_sectors_def write_run_def)
  next
    case False
    have "unat (fs_block fs + x) < unat ?p + n \<Longrightarrow> unat (fs_block fs + x) < unat ?p"
    proof (rule ccontr)
      assume *: "unat (fs_block fs + x) < unat ?p + n" "\<not> unat (fs_block fs + x) < unat ?p"
      then have "unat ((fs_block fs + x) - ?p) = unat (fs_block fs + x) - unat ?p"
        by (intro unat_sub) (simp add: word_le_nat_alt)
      then show False
        using * False by simp
    qed
    then show ?thesis
      using False buf h by (auto simp: write_sectors_def write_run_def fs_holds_def)
  qed
  then show ?thesis
    using d h by (simp add: fs_write_at_def fs_holds_def)
qed

lemma node_inside:
  assumes "holds fs V N H" "b \<in> N"
  shows "\<exists>fs'. fs_node D b fs = (Ok (b, node_at V b), fs') \<and> holds fs' V N H"
  using read_run [OF assms(1), of b 1 "encode_node node_default"] assms(2)
  by (auto simp: fs_node_def)

lemma write_inside_at:
  assumes "holds fs V N H" "b \<in> N" "length buf = 512"
  shows "\<exists>fs'. fs_write_at D b buf fs = (Ok 512, fs') \<and> holds fs' (V(b := buf)) N H"
  using write_run_at [OF assms(1), of b 1 buf] assms(2,3) by (simp add: write_run_single)

lemma allocate_inside:
  assumes h: "holds fs V N H" and F: "hd_free H \<in> N"
  shows "take_sectors n (nd_extents (node_at V (hd_free H))) = Some (blk, es) \<Longrightarrow>
      \<exists>fs'. fs_allocate D n fs = (Ok blk, fs') \<and> holds fs' (V(hd_free H := encode_node ((node_at V (hd_free H))\<lparr>nd_extents := es\<rparr>))) N H"
    and "take_sectors n (nd_extents (node_at V (hd_free H))) = None \<Longrightarrow>
      \<exists>fs'. fs_allocate D n fs = (Err (Error ENOSPC), fs') \<and> holds fs' V N H"
proof -
  obtain fs1 where fs1: "fs_node D (hd_free H) fs = (Ok (hd_free H, node_at V (hd_free H)), fs1)" "holds fs1 V N H"
    using node_inside [OF h F] by blast
  have head: "hd_free (snd (fs_header fs)) = hd_free H"
    using h by (simp add: fs_holds_def)
  show "\<exists>fs'. fs_allocate D n fs = (Err (Error ENOSPC), fs') \<and> holds fs' V N H"
    if "take_sectors n (nd_extents (node_at V (hd_free H))) = None"
    using that fs1 head by (simp add: fs_allocate_def)
  assume t: "take_sectors n (nd_extents (node_at V (hd_free H))) = Some (blk, es)"
  let ?n = "(node_at V (hd_free H))\<lparr>nd_extents := es\<rparr>"
  have "node_wf ?n"
    using take_sectors_spec [OF t] sector_size [OF h F] node_wf_intros(3) [of "V (hd_free H)"] by (simp add: node_wf_def)
  then obtain fs2 where "fs_write_at D (hd_free H) (encode_node ?n) fs1 = (Ok 512, fs2)" "holds fs2 (V(hd_free H := encode_node ?n)) N H"
    using write_inside_at [OF fs1(2) F, of "encode_node ?n"] by auto
  then show "\<exists>fs'. fs_allocate D n fs = (Ok blk, fs') \<and> holds fs' (V(hd_free H := encode_node ?n)) N H"
    using t fs1(1) head by (simp add: fs_allocate_def)
qed

lemma insert_here:
  assumes h: "holds fs V N H" and wf: "file_wf N (sector_run block (block_count len) @ P) V F b (xs @ c # ys)"
    and len: "unat len + 511 < 2 ^ 64" and place: "place_blocks block len (nd_extents (node_at V c)) = Some es"
  shows "\<exists>fs' V'. fs_insert_blocks D block len c fs = Some (Ok (), fs') \<and> holds fs' V' N H \<and>
    file_wf N P V' F b (xs @ c # ys) \<and> file_grew V F (xs @ c # ys) block len V' (xs @ c # ys) \<and> (\<forall>x. x \<noteq> c \<longrightarrow> V' x = V x)"
proof -
  have c: "c \<in> N" "c \<noteq> 0" "c \<noteq> F"
    using wf by (auto simp: file_wf_def layout_def)
  note size = sector_size [OF h c(1)]
  have room: "\<forall>e\<in>set (nd_extents (node_at V c)). extent_small e \<and> unat (ex_length e) + unat len + 511 < 2 ^ 64"
    using file_wf_room [OF wf _ _ len] sectors_finite [OF h] by simp
  then have es: "mset (sectors_of_extents es) = mset (sector_run block (block_count len)) + mset (sectors_of_extents (nd_extents (node_at V c)))"
      "length es = 15" "\<forall>e\<in>set es. extent_small e" "extents_size es = extents_size (nd_extents (node_at V c)) + unat len"
    using place_blocks_spec [OF place] place_blocks_size [OF place] node_wf_intros(3) [OF size] by (auto simp: node_wf_def)
  let ?V = "V(c := encode_node ((node_at V c)\<lparr>nd_extents := es\<rparr>))"
  have wf': "file_wf N P ?V F b (xs @ c # ys)" "chain_extents ?V (xs @ c # ys) = chain_extents V xs @ es @ chain_extents V ys"
    using file_wf_extents [of N "sector_run block (block_count len) @ P" V F b xs c ys es P] wf size es(1-3) by (simp_all add: ac_simps)
  obtain fs1 where fs1: "fs_node D c fs = (Ok (c, node_at V c), fs1)" "holds fs1 V N H"
    using node_inside [OF h c(1)] by blast
  have "node_wf ((node_at V c)\<lparr>nd_extents := es\<rparr>)"
    using es(2) node_wf_intros(3) [OF size] by (simp add: node_wf_def)
  then obtain fs2 where "fs_write_at D c (encode_node ((node_at V c)\<lparr>nd_extents := es\<rparr>)) fs1 = (Ok 512, fs2)" "holds fs2 ?V N H"
    using write_inside_at [OF fs1(2) c(1)] by (metis length_encode_node)
  then have "fs_insert_blocks D block len c fs = Some (Ok (), fs2)"
    using fs1(1) c(2) place by (subst fs_insert_blocks.simps) simp
  moreover have "same_owner (node_at ?V d) (node_at V d)" for d
    using \<open>node_wf ((node_at V c)\<lparr>nd_extents := es\<rparr>)\<close> by simp
  then have "file_grew V F (xs @ c # ys) block len ?V (xs @ c # ys)"
    unfolding file_grew_def file_size_def wf'(2)
    using es(1,4) place_blocks_multiples [OF place _ _ room] c(3) by (auto simp: spare_def)
  moreover have "\<forall>x. x \<noteq> c \<longrightarrow> ?V x = V x"
    by simp
  ultimately show ?thesis
    using wf'(1) \<open>holds fs2 ?V N H\<close> by blast
qed

lemma insert_in_new_node:
  assumes h: "holds fs V N H" and wf: "file_wf N (sector_run block (block_count len) @ P) V (hd_free H) b (xs @ [c])"
    and len: "unat len + 511 < 2 ^ 64" and place: "place_blocks block len (nd_extents (node_at V c)) = None"
  shows "\<exists>r fs' V' cs'. fs_insert_blocks D block len c fs = Some (r, fs') \<and> holds fs' V' N H \<and>
    file_wf N P V' (hd_free H) b cs' \<and>
    (r = Ok () \<and> file_grew V (hd_free H) (xs @ [c]) block len V' cs' \<or>
     r = Err (Error ENOSPC) \<and> V' = V \<and> cs' = xs @ [c] \<and> free_of_extents (nd_extents (node_at V (hd_free H))) = [])"
proof -
  have c: "c \<in> N" "c \<noteq> 0" "hd_free H \<in> N" "c \<noteq> hd_free H" and nxt: "nd_next (node_at V c) = 0"
    using wf chain_tail [of V b xs "[c]"] by (auto simp: file_wf_def layout_def)
  obtain fs1 where fs1: "fs_node D c fs = (Ok (c, node_at V c), fs1)" "holds fs1 V N H"
    using node_inside [OF h c(1)] by blast
  show ?thesis
  proof (cases "take_sectors 1 (nd_extents (node_at V (hd_free H)))")
    case None
    then obtain fs2 where "fs_allocate D 1 fs1 = (Err (Error ENOSPC), fs2)" "holds fs2 V N H"
      using allocate_inside(2) [OF fs1(2) c(3)] by blast
    then have "fs_insert_blocks D block len c fs = Some (Err (Error ENOSPC), fs2)"
      using fs1(1) c(2) nxt place by (subst fs_insert_blocks.simps) simp
    then show ?thesis
      using \<open>holds fs2 V N H\<close> file_wf_drop [OF wf] take_sectors_none [OF None] by blast
  next
    case (Some a)
    then obtain new es where t: "take_sectors 1 (nd_extents (node_at V (hd_free H))) = Some (new, es)"
      by (cases a) auto
    define V1 where "V1 = V(hd_free H := encode_node ((node_at V (hd_free H))\<lparr>nd_extents := es\<rparr>))"
    let ?V2 = "V1(c := encode_node ((node_at V c)\<lparr>nd_next := new\<rparr>))"
    let ?V3 = "?V2(new := encode_node node_default)"
    have at: "node_at V1 c = node_at V c"
      using c(4) by (simp add: V1_def)
    obtain fs2 where fs2: "fs_allocate D 1 fs1 = (Ok new, fs2)" "holds fs2 V1 N H"
      using allocate_inside(1) [OF fs1(2) c(3) t] unfolding V1_def by blast
    have wf1: "file_wf N ((sector_run block (block_count len) @ P) @ [new]) V1 (hd_free H) b (xs @ [c])"
      and ce1: "chain_extents V1 (xs @ [c]) = chain_extents V (xs @ [c])"
      using file_wf_allocate [OF wf sector_size [OF h c(3)] t] unfolding V1_def by simp_all
    then have new: "new \<in> N" "new \<noteq> 0" "new \<noteq> c" "new \<noteq> hd_free H"
      by (auto simp: file_wf_def layout_def)
    have "length (encode_node ((node_at V c)\<lparr>nd_next := new\<rparr>)) = 512"
      using node_wf_intros(3) [OF sector_size [OF h c(1)]] by (intro length_encode_node) (simp add: node_wf_def)
    then obtain fs3 where fs3: "fs_write_at D c (encode_node ((node_at V c)\<lparr>nd_next := new\<rparr>)) fs2 = (Ok 512, fs3)" "holds fs3 ?V2 N H"
      using write_inside_at [OF fs2(2) c(1)] by blast
    obtain fs4 where fs4: "fs_write_at D new (encode_node node_default) fs3 = (Ok 512, fs4)" "holds fs4 ?V3 N H"
      using write_inside_at [OF fs3(2) new(1), of "encode_node node_default"] by auto
    have step: "fs_insert_blocks D block len c fs = fs_insert_blocks D block len new fs4"
      using fs1(1) fs2(1) fs3(1) fs4(1) c(2) nxt place by (subst fs_insert_blocks.simps) simp
    have "file_wf N (sector_run block (block_count len) @ P) ?V3 (hd_free H) b (xs @ [c, new])"
      and ce: "chain_extents ?V3 (xs @ [c, new]) = chain_extents V (xs @ [c]) @ replicate 15 extent_default"
      using file_wf_new_node [OF wf1 sector_size [OF fs2(2) c(1)]] unfolding at ce1 by blast+
    then have wf3: "file_wf N (sector_run block (block_count len) @ P) ?V3 (hd_free H) b ((xs @ [c]) @ new # [])"
      by simp
    have "place_blocks block len (nd_extents (node_at ?V3 new)) =
        Some (\<lparr>ex_block = block, ex_length = len\<rparr> # replicate 14 extent_default)"
      by (simp add: extent_default_def numeral_eq_Suc)
    then obtain fs' V' where fs': "fs_insert_blocks D block len new fs4 = Some (Ok (), fs')" "holds fs' V' N H"
        "file_wf N P V' (hd_free H) b ((xs @ [c]) @ [new])"
        "file_grew ?V3 (hd_free H) ((xs @ [c]) @ [new]) block len V' ((xs @ [c]) @ [new])" "\<forall>x. x \<noteq> new \<longrightarrow> V' x = ?V3 x"
      using insert_here [OF fs4(2) wf3 len] by blast
    have ce3: "chain_extents ?V3 ((xs @ [c]) @ [new]) = chain_extents V (xs @ [c]) @ replicate 15 extent_default"
      using ce by (simp only: append_assoc append_Cons append_Nil)
    have new_free: "new \<in> set (free_of_extents (nd_extents (node_at V (hd_free H))))"
      using arg_cong [OF conjunct1 [OF take_sectors_spec [OF t]], of set_mset] by simp
    have "x \<in> insert (hd_free H) (set (xs @ [c]) \<union> set (free_of_extents (nd_extents (node_at V (hd_free H)))))" if "V' x \<noteq> V x" for x
    proof (rule ccontr)
      assume "\<not> ?thesis"
      then have "x \<noteq> new" "x \<noteq> c" "x \<noteq> hd_free H"
        using new_free by auto
      then have "V' x = V x"
        using fs'(5) by (simp add: V1_def)
      then show False
        using that by simp
    qed
    moreover have "\<forall>e\<in>set (chain_extents V' ((xs @ [c]) @ [new])). unat (ex_length e) mod 512 = 0"
      if "unat len mod 512 = 0" "\<forall>e\<in>set (chain_extents V (xs @ [c])). unat (ex_length e) mod 512 = 0"
    proof -
      have "(\<forall>e\<in>set (chain_extents ?V3 ((xs @ [c]) @ [new])). unat (ex_length e) mod 512 = 0) \<longrightarrow> ?thesis"
        using fs'(4) that(1) unfolding file_grew_def by blast
      moreover have "\<forall>e\<in>set (chain_extents ?V3 ((xs @ [c]) @ [new])). unat (ex_length e) mod 512 = 0"
        unfolding ce3 using that(2) by auto
      ultimately show ?thesis
        by (rule mp)
    qed
    moreover have "mset (sectors_of_extents (chain_extents V' ((xs @ [c]) @ [new]))) =
        mset (sector_run block (block_count len)) + mset (sectors_of_extents (chain_extents V (xs @ [c])))"
      "file_size V' ((xs @ [c]) @ [new]) = file_size V (xs @ [c]) + unat len"
      using fs'(4) unfolding file_grew_def file_size_def ce3 by (simp_all only: sectors_of_extents_simps(3) sectors_of_default append_Nil2 extents_size_simps)
    moreover have "\<forall>d\<in>set (xs @ [c]). same_owner (node_at V' d) (node_at V d)"
    proof
      fix d
      assume d: "d \<in> set (xs @ [c])"
      then have "V' d = ?V2 d" "d \<noteq> hd_free H"
        using fs'(5) wf1 by (auto simp: file_wf_def layout_def)
      moreover have "node_wf ((node_at V c)\<lparr>nd_next := new\<rparr>)"
        using node_wf_intros(3) [OF sector_size [OF h c(1)]] by (simp add: node_wf_def)
      ultimately show "same_owner (node_at V' d) (node_at V d)"
        by (simp add: V1_def)
    qed
    moreover have "spare V (hd_free H) \<longrightarrow> spare V' (hd_free H)"
    proof -
      have "V' (hd_free H) = V1 (hd_free H)"
        using fs'(5) c(4) new(4) by simp
      moreover have "node_wf ((node_at V (hd_free H))\<lparr>nd_extents := es\<rparr>)"
        using take_sectors_spec [OF t] node_wf_intros(3) [OF sector_size [OF h c(3)]] by (simp add: node_wf_def)
      ultimately show ?thesis
        using take_sectors_spare [OF t] by (simp add: spare_def V1_def)
    qed
    ultimately have "file_grew V (hd_free H) (xs @ [c]) block len V' ((xs @ [c]) @ [new])"
      unfolding file_grew_def by blast
    then show ?thesis
      using step fs'(1-3) by metis
  qed
qed

lemma insert_blocks_spec:
  assumes "holds fs V N H" "file_wf N (sector_run block (block_count len) @ P) V (hd_free H) b (pre @ c # ys)"
    and len: "unat len + 511 < 2 ^ 64"
  shows "\<exists>r fs' V' cs'. fs_insert_blocks D block len c fs = Some (r, fs') \<and> holds fs' V' N H \<and>
    file_wf N P V' (hd_free H) b cs' \<and>
    (r = Ok () \<and> file_grew V (hd_free H) (pre @ c # ys) block len V' cs' \<or>
     r = Err (Error ENOSPC) \<and> V' = V \<and> cs' = pre @ c # ys \<and> free_of_extents (nd_extents (node_at V (hd_free H))) = [])"
  using assms(1,2)
proof (induction ys arbitrary: pre c fs)
  case Nil
  then show ?case
  proof (cases "place_blocks block len (nd_extents (node_at V c))")
    case None
    then show ?thesis
      using insert_in_new_node [OF Nil len] by blast
  next
    case (Some es)
    then show ?thesis
      using insert_here [OF Nil len] by blast
  qed
next
  case (Cons d ys)
  have c: "c \<in> N" "c \<noteq> 0" and d: "d \<noteq> 0" "nd_next (node_at V c) = d"
    using Cons.prems(2) chain_tail [of V b pre "c # d # ys"] by (auto simp: file_wf_def layout_def)
  show ?case
  proof (cases "place_blocks block len (nd_extents (node_at V c))")
    case None
    obtain fs1 where fs1: "fs_node D c fs = (Ok (c, node_at V c), fs1)" "holds fs1 V N H"
      using node_inside [OF Cons.prems(1) c(1)] by blast
    then have "fs_insert_blocks D block len c fs = fs_insert_blocks D block len d fs1"
      using None c(2) d by (subst fs_insert_blocks.simps) simp
    then show ?thesis
      using Cons.IH [OF fs1(2), of "pre @ [c]" d] Cons.prems(2) by simp
  next
    case (Some es)
    then show ?thesis
      using insert_here [OF Cons.prems len] by blast
  qed
qed

text \<open>One node of \<open>node_ensure_len\<close>: its extents grow inside their sectors.\<close>

lemma ensure_len_step:
  assumes h: "holds fs V N H" and wf: "file_wf N [] V F b (pre @ c # ys)"
    and grow: "grow_extents len (nd_extents (node_at V c)) = (changed, rest, es)"
  shows "\<exists>fs1 V1. fs_node_ensure_len D c len fs =
      (if rest > 0
       then if nd_next (node_at V c) > 0 then fs_node_ensure_len D (nd_next (node_at V c)) rest fs1
            else try_rec (fs_allocate D ((rest + 511) div 512) fs1) (\<lambda>new_block fs. fs_insert_blocks D new_block rest c fs)
       else Some (Ok (), fs1)) \<and>
    holds fs1 V1 N H \<and> file_wf N [] V1 F b (pre @ c # ys) \<and>
    chain_extents V1 (pre @ c # ys) = chain_extents V pre @ es @ chain_extents V ys \<and>
    chain_extents V1 (pre @ [c]) = chain_extents V pre @ es"
proof -
  have c: "c \<in> N" "c \<noteq> 0" "c \<notin> set pre" and small: "\<forall>e\<in>set (nd_extents (node_at V c)). extent_small e"
    using wf by (auto simp: file_wf_def layout_def)
  note size = sector_size [OF h c(1)]
  note spec = grow_extents_spec [OF grow small]
  obtain fs1 where fs1: "fs_node D c fs = (Ok (c, node_at V c), fs1)" "holds fs1 V N H"
    using node_inside [OF h c(1)] by blast
  show ?thesis
  proof (cases changed)
    case False
    then have "chain_extents V (pre @ c # ys) = chain_extents V pre @ es @ chain_extents V ys"
      "chain_extents V (pre @ [c]) = chain_extents V pre @ es"
      using spec by simp_all
    then show ?thesis
      using fs1 wf False grow c(2) by (subst fs_node_ensure_len.simps) auto
  next
    case True
    let ?n = "(node_at V c)\<lparr>nd_extents := es\<rparr>"
    have es: "length es = 15" "length (encode_node ?n) = 512" "node_wf ?n"
      using spec node_wf_intros(3) [OF size] by (simp_all add: node_wf_def)
    have "chain_extents (V(c := encode_node ?n)) (pre @ [c]) = chain_extents V pre @ es"
      using c(3) es(3) by simp
    moreover obtain fs2 where "fs_write_at D c (encode_node ?n) fs1 = (Ok 512, fs2)" "holds fs2 (V(c := encode_node ?n)) N H"
      using write_inside_at [OF fs1(2) c(1) es(2)] by blast
    ultimately show ?thesis
      using fs1(1) True grow c(2) file_wf_extents [of N "[]" V F b pre c ys es "[]"] wf size es(1) spec
      by (subst fs_node_ensure_len.simps) (auto intro!: exI [of _ "V(c := encode_node ?n)"] simp del: chain_extents_simps)
  qed
qed

lemma ensure_len_spec:
  assumes "holds fs V N H" "file_wf N [] V (hd_free H) b (pre @ c # ys)" "unat len + 511 < 2 ^ 64"
  shows "\<exists>r fs' V' cs'. fs_node_ensure_len D c len fs = Some (r, fs') \<and> holds fs' V' N H \<and>
    file_wf N [] V' (hd_free H) b cs' \<and>
    (r = Ok () \<and> extents_size (chain_extents V pre) + unat len \<le> file_size V' cs' \<or>
     r = Err (Error ENOSPC) \<and> extents_size (chain_extents V (c # ys)) < unat len)"
  using assms
proof (induction ys arbitrary: pre c fs V len)
  case Nil
  obtain changed rest es where grow: "grow_extents len (nd_extents (node_at V c)) = (changed, rest, es)"
    by (cases "grow_extents len (nd_extents (node_at V c))")
  then obtain fs1 V1 where step: "fs_node_ensure_len D c len fs =
      (if rest > 0
       then if nd_next (node_at V c) > 0 then fs_node_ensure_len D (nd_next (node_at V c)) rest fs1
            else try_rec (fs_allocate D ((rest + 511) div 512) fs1) (\<lambda>new_block fs. fs_insert_blocks D new_block rest c fs)
       else Some (Ok (), fs1))"
    and h1: "holds fs1 V1 N H" and wf1: "file_wf N [] V1 (hd_free H) b (pre @ [c])"
    and ce: "chain_extents V1 (pre @ [c]) = chain_extents V pre @ es @ chain_extents V []"
    using ensure_len_step [OF Nil(1,2)] by blast
  have nxt: "nd_next (node_at V c) = 0" and F: "hd_free H \<in> N"
    and small: "\<forall>e\<in>set (nd_extents (node_at V c)). extent_small e"
    using Nil(2) chain_tail [of V b pre "[c]"] by (auto simp: file_wf_def layout_def)
  have size: "extents_size (chain_extents V pre) + unat len \<le> file_size V1 (pre @ [c]) + unat rest"
    unfolding file_size_def ce using grow_extents_size [OF grow] by simp
  have rest: "unat rest + 511 < 2 ^ 64"
    using grow_extents_spec [OF grow small] Nil(3) by (simp add: word_le_nat_alt)
  show ?case
  proof (cases "rest > 0")
    case False
    then have "fs_node_ensure_len D c len fs = Some (Ok (), fs1)" "rest = 0"
      using step by (simp_all add: word_gt_0)
    then show ?thesis
      using h1 wf1 size by auto
  next
    case True
    then have go: "fs_node_ensure_len D c len fs =
        try_rec (fs_allocate D ((rest + 511) div 512) fs1) (\<lambda>new_block fs. fs_insert_blocks D new_block rest c fs)"
      using step nxt by simp
    have short: "extents_size (chain_extents V [c]) < unat len"
      using grow_extents_rest [OF grow small] True by (simp add: word_gt_0 unat_gt_0 [symmetric])
    show ?thesis
    proof (cases "take_sectors ((rest + 511) div 512) (nd_extents (node_at V1 (hd_free H)))")
      case None
      then obtain fs2 where "fs_allocate D ((rest + 511) div 512) fs1 = (Err (Error ENOSPC), fs2)" "holds fs2 V1 N H"
        using allocate_inside(2) [OF h1 F] by blast
      then show ?thesis
        using go wf1 short by auto
    next
      case (Some a)
      then obtain new fes where t: "take_sectors ((rest + 511) div 512) (nd_extents (node_at V1 (hd_free H))) = Some (new, fes)"
        by (cases a) auto
      define V2 where "V2 = V1(hd_free H := encode_node ((node_at V1 (hd_free H))\<lparr>nd_extents := fes\<rparr>))"
      obtain fs2 where fs2: "fs_allocate D ((rest + 511) div 512) fs1 = (Ok new, fs2)" "holds fs2 V2 N H"
        using allocate_inside(1) [OF h1 F t] unfolding V2_def by blast
      have wf2: "file_wf N (sector_run new (block_count rest)) V2 (hd_free H) b (pre @ [c])"
        and ce2: "chain_extents V2 (pre @ [c]) = chain_extents V1 (pre @ [c])"
        using file_wf_allocate [OF wf1 sector_size [OF h1 F] t] unfolding V2_def block_count_def append_Nil by blast+
      then have "file_size V2 (pre @ [c]) = file_size V1 (pre @ [c])"
        by (simp only: file_size_def)
      moreover obtain r fs' V' cs' where ins: "fs_insert_blocks D new rest c fs2 = Some (r, fs')" "holds fs' V' N H"
          "file_wf N [] V' (hd_free H) b cs'" "r = Ok () \<and> file_grew V2 (hd_free H) (pre @ [c]) new rest V' cs' \<or> r = Err (Error ENOSPC)"
        using insert_blocks_spec [of fs2 V2 N H new rest "[]" b pre c "[]", OF fs2(2) _ rest] wf2 by auto
      ultimately have "r = Ok () \<and> extents_size (chain_extents V pre) + unat len \<le> file_size V' cs' \<or>
          r = Err (Error ENOSPC) \<and> extents_size (chain_extents V [c]) < unat len"
        using size short file_grew_size [of V2 "hd_free H" "pre @ [c]" new rest V' cs'] by linarith
      moreover have "fs_node_ensure_len D c len fs = Some (r, fs')"
        using go fs2(1) ins(1) by simp
      ultimately show ?thesis
        using ins(2,3) by blast
    qed
  qed
next
  case (Cons d ys)
  obtain changed rest es where grow: "grow_extents len (nd_extents (node_at V c)) = (changed, rest, es)"
    by (cases "grow_extents len (nd_extents (node_at V c))")
  then obtain fs1 V1 where step: "fs_node_ensure_len D c len fs =
      (if rest > 0
       then if nd_next (node_at V c) > 0 then fs_node_ensure_len D (nd_next (node_at V c)) rest fs1
            else try_rec (fs_allocate D ((rest + 511) div 512) fs1) (\<lambda>new_block fs. fs_insert_blocks D new_block rest c fs)
       else Some (Ok (), fs1))"
    and h1: "holds fs1 V1 N H" and wf1: "file_wf N [] V1 (hd_free H) b (pre @ c # d # ys)"
    and ce: "chain_extents V1 (pre @ c # d # ys) = chain_extents V pre @ es @ chain_extents V (d # ys)"
    and pc: "chain_extents V1 (pre @ [c]) = chain_extents V pre @ es"
    using ensure_len_step [OF Cons.prems(1,2)] by blast
  have nxt: "nd_next (node_at V c) = d" "d \<noteq> 0" and small: "\<forall>e\<in>set (nd_extents (node_at V c)). extent_small e"
    using Cons.prems(2) chain_tail [of V b pre "c # d # ys"] by (auto simp: file_wf_def layout_def)
  have rest: "unat rest + 511 < 2 ^ 64"
    using grow_extents_spec [OF grow small] Cons.prems(3) by (simp add: word_le_nat_alt)
  show ?case
  proof (cases "rest > 0")
    case False
    then have "fs_node_ensure_len D c len fs = Some (Ok (), fs1)" "rest = 0"
      using step by (simp_all add: word_gt_0)
    moreover have "extents_size (chain_extents V pre) + unat len \<le> file_size V1 (pre @ c # d # ys) + unat rest"
      unfolding file_size_def ce using grow_extents_size [OF grow] by simp
    ultimately show ?thesis
      using h1 wf1 by auto
  next
    case True
    then have go: "fs_node_ensure_len D c len fs = fs_node_ensure_len D d rest fs1"
      using step nxt by (simp add: word_gt_0)
    have "extents_size (chain_extents V pre) + unat len \<le> extents_size (chain_extents V1 (pre @ [c])) + unat rest"
      unfolding pc using grow_extents_size [OF grow] by simp
    moreover have "chain_extents V1 (d # ys) = chain_extents V (d # ys)"
    proof -
      have "chain_extents V1 (pre @ [c]) @ chain_extents V1 (d # ys) = (chain_extents V pre @ es) @ chain_extents V (d # ys)"
        using ce by simp
      then show ?thesis
        unfolding pc by (rule same_append_eq [THEN iffD1])
    qed
    moreover have "unat rest + extents_size (nd_extents (node_at V c)) \<le> unat len"
      using grow_extents_rest [OF grow small] True by (simp add: word_gt_0)
    moreover obtain r fs' V' cs' where IH: "fs_node_ensure_len D d rest fs1 = Some (r, fs')" "holds fs' V' N H"
        "file_wf N [] V' (hd_free H) b cs'"
        "r = Ok () \<and> extents_size (chain_extents V1 (pre @ [c])) + unat rest \<le> file_size V' cs' \<or>
         r = Err (Error ENOSPC) \<and> extents_size (chain_extents V1 (d # ys)) < unat rest"
      using Cons.IH [OF h1 _ rest, of "pre @ [c]" d] wf1 by auto
    ultimately show ?thesis
      using go by (intro exI [of _ r] exI [of _ fs'] exI [of _ V'] exI [of _ cs']) auto
  qed
qed

end

end
