(* ===== verification/Redoxfs_Transfer.thy ===== *)
theory Redoxfs_Transfer
  imports Redoxfs_Files "HOL-Library.Sublist"
begin

text \<open>
  \<open>node_extents\<close>, \<open>read_node\<close> and \<open>write_node\<close> of RedoxFS. \<open>collect_extents\<close> yields the parts of the
  extents that a transfer touches: their sectors are among those of the file, in the same order, and
  their lengths add up to the length of the transfer. The loops over these parts then read or write
  one byte string, \<open>extents_bytes\<close>.
\<close>

section \<open>Collecting the extents of a transfer\<close>

definition items_from :: "extent \<Rightarrow> nat \<Rightarrow> (u64 \<times> usize) list" where
  "items_from e j = map (\<lambda>i. (ex_block e + of_nat i, min 512 (ex_length e - of_nat i * 512))) [j..<block_count (ex_length e)]"

lemma items_from_step:
  "j < block_count (ex_length e) \<Longrightarrow>
   items_from e j = (ex_block e + of_nat j, min 512 (ex_length e - of_nat j * 512)) # items_from e (Suc j)"
  by (simp add: items_from_def upt_conv_Cons)

lemma item_size:
  assumes "extent_small e" "j < block_count (ex_length e)"
  shows "min 512 (ex_length e - of_nat j * 512) = of_nat (min 512 (unat (ex_length e) - 512 * j)) \<and> 512 * j < unat (ex_length e)"
proof -
  have j: "512 * j < unat (ex_length e)"
    using assms by (simp add: extent_small_def block_count_eq)
  moreover have "unat (of_nat j * 512 :: u64) = 512 * j"
    using j unsigned_less [of "ex_length e", where ?'a = nat] by (simp add: unat_word_ariths)
  ultimately have "unat (ex_length e - of_nat j * 512) = unat (ex_length e) - 512 * j"
    by (simp add: unat_sub word_le_nat_alt)
  then show ?thesis
    using j by (simp add: word_unat_eq_iff min_def word_le_nat_alt)
qed

lemma gather_blocks:
  assumes "extent_small e" "p \<noteq> 0" "j \<le> block_count (ex_length e)"
  shows "collect_blocks (items_from e j) 0 l \<lparr>ex_block = p, ex_length = s\<rparr> =
    (0, l - of_nat (min (unat l) (unat (ex_length e) - 512 * j)),
     \<lparr>ex_block = p, ex_length = s + of_nat (min (unat l) (unat (ex_length e) - 512 * j))\<rparr>)"
  using assms(3)
proof (induction "block_count (ex_length e) - j" arbitrary: j l s)
  case 0
  then have "j = block_count (ex_length e)"
    by simp
  moreover have "unat (ex_length e) \<le> 512 * block_count (ex_length e)"
    using block_count_bound [OF assms(1)] .
  ultimately show ?case
    by (simp add: items_from_def)
next
  case (Suc k)
  then have j: "j < block_count (ex_length e)"
    by simp
  define sz where "sz = min 512 (unat (ex_length e) - 512 * j)"
  have sz: "min 512 (ex_length e - of_nat j * 512) = of_nat sz" "512 * j < unat (ex_length e)" "unat (of_nat sz :: u64) = sz"
    using item_size [OF assms(1) j] by (simp_all add: sz_def)
  show ?case
  proof (cases "sz \<le> unat l")
    case True
    define m where "m = min (unat l - sz) (unat (ex_length e) - 512 * Suc j)"
    have ul: "unat (l - of_nat sz) = unat l - sz"
      using True sz(3) by (simp add: unat_sub word_le_nat_alt)
    have "min (unat l) (unat (ex_length e) - 512 * j) = sz + m"
      using True by (auto simp: m_def sz_def min_def)
    moreover have "collect_blocks (items_from e (Suc j)) 0 (l - of_nat sz) \<lparr>ex_block = p, ex_length = s + of_nat sz\<rparr> =
        (0, l - of_nat sz - of_nat m, \<lparr>ex_block = p, ex_length = s + of_nat sz + of_nat m\<rparr>)"
      using Suc.hyps(1) [of "Suc j" "l - of_nat sz" "s + of_nat sz"] Suc.hyps(2) j ul by (simp add: m_def)
    ultimately show ?thesis
      using True sz assms(2) by (simp add: items_from_step [OF j] word_le_nat_alt algebra_simps)
  next
    case False
    then have "min (unat l) (unat (ex_length e) - 512 * j) = unat l"
      by (auto simp: sz_def)
    then show ?thesis
      using False sz assms(2) by (cases "l = 0") (simp_all add: items_from_step [OF j] word_le_nat_alt of_nat_unat_word word_gt_0)
  qed
qed

lemma skip_blocks:
  "j \<le> block_count (ex_length e) \<Longrightarrow>
   collect_blocks (items_from e j) off l push =
     (if block_count (ex_length e) - j \<le> unat off then (off - of_nat (block_count (ex_length e) - j), l, push)
      else collect_blocks (items_from e (j + unat off)) 0 l push)"
proof (induction "unat off" arbitrary: j off)
  case 0
  then have "off = 0"
    by (simp add: unat_eq_0)
  then show ?case
    using 0 by (auto simp: items_from_def)
next
  case (Suc k)
  then have off: "off \<noteq> 0" "unat (off - 1) = k"
    by (auto simp: unat_eq_0 [symmetric] unat_minus_one)
  show ?case
  proof (cases "j = block_count (ex_length e)")
    case True
    then show ?thesis
      by (simp add: items_from_def)
  next
    case False
    then have j: "j < block_count (ex_length e)"
      using Suc.prems by simp
    then have "collect_blocks (items_from e j) off l push = collect_blocks (items_from e (Suc j)) (off - 1) l push"
      using off(1) by (simp add: items_from_step)
    moreover have "unat off = Suc (unat (off - 1))"
      using Suc.hyps(2) off(2) by simp
    then have "items_from e (j + unat off) = items_from e (Suc j + unat (off - 1))"
      by simp
    moreover have "off - 1 - of_nat (block_count (ex_length e) - Suc j) = off - of_nat (block_count (ex_length e) - j)"
      using j by (simp add: of_nat_diff)
    ultimately show ?thesis
      using Suc.hyps(1) [of "off - 1" "Suc j"] Suc.hyps(2) off(2) j by auto
  qed
qed

text \<open>What \<open>node_extents\<close> makes of one extent.\<close>

lemma collect_one:
  assumes small: "extent_small e" and zero: "0 \<notin> set (extent_sectors e)"
  shows "collect_blocks (block_iter_items (extent_blocks e)) off l extent_default =
    (if block_count (ex_length e) \<le> unat off then (off - of_nat (block_count (ex_length e)), l, extent_default)
     else (0, l - of_nat (min (unat l) (unat (ex_length e) - 512 * unat off)),
           \<lparr>ex_block = ex_block e + off, ex_length = of_nat (min (unat l) (unat (ex_length e) - 512 * unat off))\<rparr>))"
proof -
  have items: "block_iter_items (extent_blocks e) = items_from e 0"
    by (simp add: block_iter_items_extent items_from_def)
  show ?thesis
  proof (cases "block_count (ex_length e) \<le> unat off")
    case True
    then show ?thesis
      unfolding items using skip_blocks [of 0 e off] by simp
  next
    case False
    then have j: "unat off < block_count (ex_length e)"
      by simp
    then have "ex_block e + off \<in> set (extent_sectors e)"
      using block_count_less [of "ex_length e"] by (simp add: extent_sectors_def set_sector_run)
    then have nz: "ex_block e + off \<noteq> 0"
      using zero by metis
    have "collect_blocks (items_from e (unat off)) 0 l extent_default =
        collect_blocks (items_from e (unat off)) 0 l \<lparr>ex_block = ex_block e + off, ex_length = 0\<rparr>"
      using nz by (simp add: items_from_step [OF j] extent_default_def of_nat_unat_word)
    then show ?thesis
      unfolding items using skip_blocks [of 0 e off] False gather_blocks [OF small nz, of "unat off" l 0] j by simp
  qed
qed

lemma part_sectors:
  assumes "extent_small e" "unat off < block_count (ex_length e)" "m \<le> unat (ex_length e) - 512 * unat off"
  shows "subseq (extent_sectors \<lparr>ex_block = ex_block e + off, ex_length = of_nat m\<rparr>) (extent_sectors e) \<and>
    extent_small \<lparr>ex_block = ex_block e + off, ex_length = of_nat m\<rparr> \<and> unat (of_nat m :: u64) = m"
proof -
  let ?n = "block_count (ex_length e)"
  have m: "unat (of_nat m :: u64) = m" "m + 511 < 2 ^ 64"
    using assms(1,3) by (simp_all add: extent_small_def)
  have "block_count (of_nat m) \<le> ?n - unat off"
    using assms m by (simp add: block_count_eq extent_small_def)
  then obtain k where k: "?n - unat off = block_count (of_nat m) + k"
    using le_iff_add by blast
  have "?n = unat off + (block_count (of_nat m) + k)"
    using assms(2) k by simp
  then have "extent_sectors e = sector_run (ex_block e) (unat off) @ sector_run (ex_block e + off) (block_count (of_nat m)) @
      sector_run (ex_block e + off + of_nat (block_count (of_nat m))) k"
    unfolding extent_sectors_def by (metis sector_run_add of_nat_unat_word)
  then show ?thesis
    using m by (simp add: extent_sectors_def extent_small_def subseq_drop_many subseq_rev_drop_many)
qed

lemma collect_extents_spec:
  assumes "\<forall>e\<in>set es. extent_small e" "0 \<notin> set (sectors_of_extents es)"
  shows "\<exists>off' l' ys. collect_extents es off l acc = (off', l', acc @ ys) \<and>
    extents_size ys + unat l' = unat l \<and> subseq (sectors_of_extents ys) (sectors_of_extents es) \<and>
    (\<forall>y\<in>set ys. extent_small y \<and> ex_length y \<noteq> 0) \<and>
    (l' \<noteq> 0 \<longrightarrow> extents_size es + 512 * unat off' \<le> 512 * unat off + extents_size ys)"
  using assms
proof (induction es arbitrary: off l acc)
  case (Cons e es)
  have small: "extent_small e" and zero: "0 \<notin> set (extent_sectors e)"
    using Cons.prems by auto
  show ?case
  proof (cases "block_count (ex_length e) \<le> unat off")
    case True
    let ?off = "off - of_nat (block_count (ex_length e))"
    have one: "collect_blocks (block_iter_items (extent_blocks e)) off l extent_default = (?off, l, extent_default)"
      using collect_one [OF small zero] True by simp
    have "unat (of_nat (block_count (ex_length e)) :: u64) = block_count (ex_length e)"
      using block_count_less by simp
    then have uo: "unat ?off = unat off - block_count (ex_length e)"
      using True by (simp add: unat_sub word_le_nat_alt)
    show ?thesis
    proof (cases "l = 0")
      case True
      then show ?thesis
        using one by (auto simp: extent_default_def)
    next
      case False
      obtain off' l' ys where IH: "collect_extents es ?off l acc = (off', l', acc @ ys)" "extents_size ys + unat l' = unat l"
          "subseq (sectors_of_extents ys) (sectors_of_extents es)" "\<forall>y\<in>set ys. extent_small y \<and> ex_length y \<noteq> 0"
          "l' \<noteq> 0 \<longrightarrow> extents_size es + 512 * unat off' \<le> 512 * unat ?off + extents_size ys"
        using Cons.IH [of ?off l acc] Cons.prems by auto
      have "collect_extents (e # es) off l acc = (off', l', acc @ ys)"
        using one False IH(1) by (simp add: extent_default_def)
      then show ?thesis
        using IH(2-5) uo True block_count_bound [OF small]
        by (intro exI [of _ off'] exI [of _ l'] exI [of _ ys]) (auto simp: list_emb_append2)
    qed
  next
    case False
    define m where "m = min (unat l) (unat (ex_length e) - 512 * unat off)"
    let ?p = "\<lparr>ex_block = ex_block e + off, ex_length = of_nat m\<rparr>"
    have one: "collect_blocks (block_iter_items (extent_blocks e)) off l extent_default = (0, l - of_nat m, ?p)"
      using collect_one [OF small zero] False by (simp add: m_def)
    have p: "subseq (extent_sectors ?p) (extent_sectors e)" "extent_small ?p" "unat (of_nat m :: u64) = m"
      using part_sectors [OF small, of off m] False by (simp_all add: m_def)
    have ul: "unat (l - of_nat m) = unat l - m" "m \<le> unat l"
      using p(3) by (simp_all add: unat_sub word_le_nat_alt m_def)
    define q where "q = (if m = 0 then [] else [?p])"
    have q: "(if ex_length ?p > 0 then acc @ [?p] else acc) = acc @ q" "extents_size q = m"
        "subseq (sectors_of_extents q) (extent_sectors e)" "\<forall>y\<in>set q. extent_small y \<and> ex_length y \<noteq> 0"
      using p by (auto simp: q_def word_gt_0 unat_eq_0 [symmetric])
    show ?thesis
    proof (cases "l - of_nat m = 0")
      case True
      then have "collect_extents (e # es) off l acc = (0, 0, acc @ q)" "unat l = m"
        using one q(1) ul by simp_all
      then show ?thesis
        using q(2-4) by (intro exI [of _ 0] exI [of _ 0] exI [of _ q]) (auto simp: list_emb_append2 subseq_rev_drop_many)
    next
      case False
      obtain off' l' ys where IH: "collect_extents es 0 (l - of_nat m) (acc @ q) = (off', l', (acc @ q) @ ys)"
          "extents_size ys + unat l' = unat l - m"
          "subseq (sectors_of_extents ys) (sectors_of_extents es)" "\<forall>y\<in>set ys. extent_small y \<and> ex_length y \<noteq> 0"
          "l' \<noteq> 0 \<longrightarrow> extents_size es + 512 * unat off' \<le> 512 * unat (0 :: u64) + extents_size ys"
        using Cons.IH [of 0 "l - of_nat m" "acc @ q"] Cons.prems ul by auto
      have "collect_extents (e # es) off l acc = (off', l', acc @ (q @ ys))"
        using one q(1) False IH(1) by simp
      moreover have "subseq (sectors_of_extents (q @ ys)) (sectors_of_extents (e # es))"
        using q(3) IH(3) by (simp add: list_emb_append_mono)
      moreover have "m = unat (ex_length e) - 512 * unat off"
        using False ul by (auto simp: m_def min_def of_nat_unat_word split: if_splits)
      ultimately show ?thesis
        using IH(2,4,5) q(2,4) ul(2)
        by (intro exI [of _ off'] exI [of _ l'] exI [of _ "q @ ys"]) auto
    qed
  qed
qed simp

lemma collect_extents_append:
  "es \<noteq> [] \<Longrightarrow> collect_extents (es @ fs) off l acc =
     (case collect_extents es off l acc of
        (off', l', acc') \<Rightarrow> if l' = 0 then (off', l', acc') else collect_extents fs off' l' acc')"
proof (induction es arbitrary: off l acc)
  case (Cons e es)
  show ?case
    by (cases "es = []") (auto simp: Cons.IH split: prod.splits)
qed simp

section \<open>Writing and reading sectors\<close>

definition extent_bytes :: "view \<Rightarrow> extent \<Rightarrow> bytes" where
  "extent_bytes V e = take (unat (ex_length e)) (concat (map V (extent_sectors e)))"

definition extents_bytes :: "view \<Rightarrow> extent list \<Rightarrow> bytes" where
  "extents_bytes V es = concat (map (extent_bytes V) es)"

lemma extents_bytes_simps [simp]:
  "extents_bytes V [] = []" "extents_bytes V (e # es) = extent_bytes V e @ extents_bytes V es"
  by (simp_all add: extents_bytes_def)

lemma length_concat_sectors: "(\<And>b. b \<in> set bs \<Longrightarrow> length (V b) = 512) \<Longrightarrow> length (concat (map V bs)) = 512 * length bs"
  by (induction bs) auto

text \<open>The state of a transfer, with its fields in order.\<close>

abbreviation transfer_at :: "'d file_system \<Rightarrow> bytes \<Rightarrow> nat \<Rightarrow> usize \<Rightarrow> u64 \<Rightarrow> u64 \<Rightarrow> 'd transfer" where
  "transfer_at fs buf i bo b len \<equiv>
     \<lparr>tr_fs = fs, tr_buf = buf, tr_i = i, tr_byte_offset = bo, tr_block = b, tr_length = len\<rparr>"

lemma unat_min_512: "unat (min 512 len :: u64) = min 512 (unat len)"
  by (simp add: min_def word_le_nat_alt)

lemma aligned_length:
  assumes "unat len \<le> n" "n < 2 ^ 64"
  shows "(min len (of_nat n) div 512) * 512 = (of_nat (512 * (unat len div 512)) :: u64)"
    "unat (of_nat (512 * (unat len div 512)) :: u64) = 512 * (unat len div 512)"
    "(of_nat (512 * (unat len div 512)) :: u64) div 512 = of_nat (unat len div 512)"
    "unat (len - of_nat (512 * (unat len div 512))) = unat len mod 512"
proof -
  have "min len (of_nat n) = len"
    using assms by (simp add: min_def word_le_nat_alt)
  then show "(min len (of_nat n) div 512) * 512 = (of_nat (512 * (unat len div 512)) :: u64)"
    by (simp add: of_nat_div_512 mult.commute)
  show u: "unat (of_nat (512 * (unat len div 512)) :: u64) = 512 * (unat len div 512)"
    using unsigned_less [of len, where ?'a = nat] by (intro unat_of_nat_small) simp
  show "(of_nat (512 * (unat len div 512)) :: u64) div 512 = of_nat (unat len div 512)"
    by (subst of_nat_div_512 [symmetric]) (subst u, simp)
  show "unat (len - of_nat (512 * (unat len div 512))) = unat len mod 512"
    using u by (subst unat_sub) (simp_all add: word_le_nat_alt minus_mult_div_eq_mod)
qed

lemma block_count_split: "unat len + 511 < 2 ^ 64 \<Longrightarrow>
    block_count len = (if unat len mod 512 = 0 then unat len div 512 else Suc (unat len div 512))"
proof -
  assume len: "unat len + 511 < 2 ^ 64"
  have "(n + 511) div 512 = (if n mod 512 = 0 then n div 512 else Suc (n div 512))" for n :: nat
  proof -
    have n: "n = 512 * (n div 512) + n mod 512" "n mod 512 < 512"
      by simp_all
    define q r where "q = n div 512" and "r = n mod 512"
    have "(512 * q + r + 511) div 512 = (if r = 0 then q else Suc q)" if "r < 512"
      using that by (cases r) (simp_all add: div_nat_eqI)
    then show ?thesis
      using n unfolding q_def [symmetric] r_def [symmetric] by metis
  qed
  then show ?thesis
    using len by (simp add: block_count_eq)
qed

context sector_disk
begin

lemma node_extents_spec:
  assumes "holds fs V N H" "chain V p cs" "set cs \<subseteq> N"
  shows "\<exists>fs'. fs_node_extents D p off l acc fs = Some (Ok (snd (snd (collect_extents (chain_extents V cs) off l acc))), fs') \<and>
    holds fs' V N H"
  using assms
proof (induction cs arbitrary: p off l acc fs)
  case Nil
  then show ?case
    by (subst fs_node_extents.simps) simp
next
  case (Cons c cs)
  have c: "p = c" "c \<noteq> 0" "c \<in> N" "chain V (nd_next (node_at V c)) cs" "set cs \<subseteq> N"
    using Cons.prems by auto
  obtain fs1 where fs1: "fs_node D c fs = (Ok (c, node_at V c), fs1)" "holds fs1 V N H"
    using node_inside [OF Cons.prems(1) c(3)] by blast
  obtain off' l' acc' where col: "collect_extents (nd_extents (node_at V c)) off l acc = (off', l', acc')"
    by (cases "collect_extents (nd_extents (node_at V c)) off l acc")
  have "nd_extents (node_at V c) \<noteq> []"
    using node_wf_intros(3) [OF sector_size [OF Cons.prems(1) c(3)]] by (auto simp: node_wf_def)
  note app = collect_extents_append [OF this, of "chain_extents V cs" off l acc]
  show ?case
  proof (cases "l' = 0")
    case True
    then show ?thesis
      using fs1 col c(1,2) app by (subst fs_node_extents.simps) simp
  next
    case False
    then have "fs_node_extents D p off l acc fs = fs_node_extents D (nd_next (node_at V c)) off' l' acc' fs1"
      using fs1(1) col c(1,2) by (subst fs_node_extents.simps) (simp add: word_gt_0)
    then show ?thesis
      using Cons.IH [OF fs1(2) c(4,5), of off' l' acc'] False col app by simp
  qed
qed

lemma write_sector_spec:
  assumes h: "holds fs V N H" and b: "b \<in> N" and fb: "unat fb \<le> min 512 (unat len)"
    and i: "i + (min 512 (unat len) - unat fb) \<le> length buf"
  shows "\<exists>fs'. write_sector D fb (transfer_at fs buf i bo b len) =
      (Return (Ok ()), transfer_at fs' buf (i + (min 512 (unat len) - unat fb)) bo (b + 1) (len - min 512 len)) \<and>
    holds fs' (V(b := take (unat fb) (V b) @ take (min 512 (unat len) - unat fb) (drop i buf) @ drop (min 512 (unat len)) (V b))) N H"
proof -
  let ?ss = "min 512 (unat len)"
  let ?S = "take (unat fb) (V b) @ take (?ss - unat fb) (drop i buf) @ drop ?ss (V b)"
  note size = sector_size [OF h b]
  obtain fs1 where fs1: "fs_read_at D b (replicate 512 0) fs = ((Ok 512, V b), fs1)" "holds fs1 V N H"
    using read_run [OF h, of b 1 "replicate 512 0"] b by auto
  have "length ?S = 512"
    using size fb i by simp
  then obtain fs2 where fs2: "fs_write_at D b ?S fs1 = (Ok 512, fs2)" "holds fs2 (V(b := ?S)) N H"
    using write_inside_at [OF fs1(2) b] by blast
  have "copy_into (take (?ss - unat fb) (drop (unat fb) (V b))) (drop i buf) = (take (?ss - unat fb) (drop i buf), ?ss - unat fb)"
    using size i fb by (simp add: copy_into_eq)
  moreover have "\<not> fb > min 512 len"
    using fb by (simp add: word_less_nat_alt unat_min_512 not_less)
  ultimately show ?thesis
    using fs1(1) fs2 by (simp add: write_sector_def unat_min_512)
qed

lemma read_sector_spec:
  assumes h: "holds fs V N H" and b: "b \<in> N" and fb: "unat fb \<le> min 512 (unat len)"
    and i: "i + (min 512 (unat len) - unat fb) \<le> length buf"
  shows "\<exists>fs'. read_sector D fb (transfer_at fs buf i bo b len) =
      (Return (Ok ()), transfer_at fs' (take i buf @ take (min 512 (unat len) - unat fb) (drop (unat fb) (V b)) @
         drop (i + (min 512 (unat len) - unat fb)) buf) (i + (min 512 (unat len) - unat fb)) bo (b + 1) (len - min 512 len)) \<and>
    holds fs' V N H"
proof -
  let ?ss = "min 512 (unat len)"
  note size = sector_size [OF h b]
  obtain fs1 where fs1: "fs_read_at D b (replicate 512 0) fs = ((Ok 512, V b), fs1)" "holds fs1 V N H"
    using read_run [OF h, of b 1 "replicate 512 0"] b by auto
  have "copy_into (drop i buf) (take (?ss - unat fb) (drop (unat fb) (V b))) =
      (take (?ss - unat fb) (drop (unat fb) (V b)) @ drop (i + (?ss - unat fb)) buf, ?ss - unat fb)"
    using size i fb by (simp add: copy_into_eq add.commute)
  moreover have "\<not> fb > min 512 len"
    using fb by (simp add: word_less_nat_alt unat_min_512 not_less)
  ultimately show ?thesis
    using fs1 by (simp add: read_sector_def unat_min_512)
qed

lemma write_aligned_spec:
  assumes h: "holds fs V N H" and run: "set (sector_run b (unat len div 512)) \<subseteq> N"
    and len: "i + unat len \<le> length buf" "length buf < 2 ^ 64"
  shows "\<exists>fs'. write_aligned D (transfer_at fs buf i bo b len) =
      (Return (Ok ()), transfer_at fs' buf (i + 512 * (unat len div 512)) bo (b + of_nat (unat len div 512))
         (len - of_nat (512 * (unat len div 512)))) \<and>
    holds fs' (write_run V b (take (512 * (unat len div 512)) (drop i buf))) N H"
proof -
  let ?k = "unat len div 512"
  note al = aligned_length [of len "length buf - i"]
  have le: "unat len \<le> length buf - i" "length buf - i < 2 ^ 64"
    using len by simp_all
  show ?thesis
  proof (cases "?k = 0")
    case True
    then show ?thesis
      using h al(1) [OF le] by (simp add: write_aligned_def write_run_def)
  next
    case False
    have n: "length (take (512 * ?k) (drop i buf)) = 512 * ?k"
      using le(1) by simp
    then obtain fs' where fs': "fs_write_at D b (take (512 * ?k) (drop i buf)) fs = (Ok (of_nat (512 * ?k)), fs')"
        "holds fs' (write_run V b (take (512 * ?k) (drop i buf))) N H"
      using write_run_at [OF h run n] False by (auto simp del: length_take)
    have "(0 :: u64) < of_nat (512 * ?k)"
      using False al(2) [OF le] by (simp add: word_gt_0 unat_eq_0 [symmetric])
    then show ?thesis
      using fs' al [OF le] by (simp add: write_aligned_def Let_def del: of_nat_mult)
  qed
qed

lemma read_aligned_spec:
  assumes h: "holds fs V N H" and run: "set (sector_run b (unat len div 512)) \<subseteq> N"
    and len: "i + unat len \<le> length buf" "length buf < 2 ^ 64"
  shows "\<exists>fs'. read_aligned D (transfer_at fs buf i bo b len) =
      (Return (Ok ()), transfer_at fs' (take i buf @ concat (map V (sector_run b (unat len div 512))) @ drop (i + 512 * (unat len div 512)) buf)
         (i + 512 * (unat len div 512)) bo (b + of_nat (unat len div 512)) (len - of_nat (512 * (unat len div 512)))) \<and>
    holds fs' V N H"
proof -
  let ?k = "unat len div 512"
  note al = aligned_length [of len "length buf - i"]
  have le: "unat len \<le> length buf - i" "length buf - i < 2 ^ 64"
    using len by simp_all
  show ?thesis
  proof (cases "?k = 0")
    case True
    then show ?thesis
      using h al(1) [OF le] by (simp add: read_aligned_def)
  next
    case False
    have n: "length (take (512 * ?k) (drop i buf)) = 512 * ?k"
      using le(1) by simp
    then obtain fs' where fs': "fs_read_at D b (take (512 * ?k) (drop i buf)) fs =
        ((Ok (of_nat (512 * ?k)), concat (map V (sector_run b ?k))), fs')" "holds fs' V N H"
      using read_run [OF h run n] False by (auto simp del: length_take)
    have "(0 :: u64) < of_nat (512 * ?k)"
      using False al(2) [OF le] by (simp add: word_gt_0 unat_eq_0 [symmetric])
    then show ?thesis
      using fs' al [OF le] by (simp add: read_aligned_def Let_def del: of_nat_mult)
  qed
qed

end

end
