(* ===== verification/Redoxfs_Contents.thy ===== *)
theory Redoxfs_Contents
  imports Redoxfs_Transfer
begin

text \<open>
  What a program sees of a RedoxFS file: \<open>write_node\<close> followed by \<open>read_node\<close>. The loops over the
  extents of a transfer are first described one extent at a time (the sector that is entered in its
  middle, then the aligned sectors and the last one), then for the list of extents.
\<close>

section \<open>One extent\<close>

lemma sector_run_last: "sector_run b (Suc n) = sector_run b n @ [b + of_nat n]"
  by (simp add: sector_run_def)

lemma block_count_of_nat: "of_nat (block_count len) = (len + 511) div 512"
  by (simp add: block_count_def of_nat_unat_word)

lemma block_count_le: "block_count len \<le> 2 ^ 55"
  using unsigned_less [of "len + 511", where ?'a = nat] by (simp add: block_count_def unat_div_512)

lemma sector_run_not_next: "n < 2 ^ 64 \<Longrightarrow> b + of_nat n \<notin> set (sector_run b n)"
  by (simp add: set_sector_run)

lemma sector_run_not_first: "n < 2 ^ 64 - 1 \<Longrightarrow> b \<notin> set (sector_run (b + 1) n)"
proof -
  assume n: "n < 2 ^ 64 - 1"
  have "unat (b - (b + 1)) = 2 ^ 64 - 1"
    by (simp add: unat_usize_max)
  then show ?thesis
    using n by (simp add: set_sector_run)
qed

text \<open>The first sector of an extent and the others.\<close>

lemma split_first:
  assumes "unat len + 511 < 2 ^ 64" "len \<noteq> 0"
  shows "sector_run b (block_count len) = b # sector_run (b + 1) (block_count (len - min 512 len))"
    "unat (len - min 512 len) = unat len - min 512 (unat len)"
    "b + of_nat (block_count len) = b + 1 + of_nat (block_count (len - min 512 len))"
proof -
  show u: "unat (len - min 512 len) = unat len - min 512 (unat len)"
    by (subst unat_sub) (simp_all add: unat_min_512)
  have "0 < unat len"
    using assms(2) by (simp add: unat_gt_0)
  then have "block_count len = Suc (block_count (len - min 512 len))"
    using assms(1) u by (auto simp: block_count_eq min_def div_nat_eqI div_if)
  then show "sector_run b (block_count len) = b # sector_run (b + 1) (block_count (len - min 512 len))"
      "b + of_nat (block_count len) = b + 1 + of_nat (block_count (len - min 512 len))"
    by (simp_all add: sector_run_Suc)
qed

lemma take_patched:
  assumes "length v = 512" "k \<le> min 512 n" "length m = min 512 n - k"
  shows "take n (take k v @ m @ drop (min 512 n) v) = take k v @ m"
proof -
  have "length (take k v @ m) = min 512 n"
    using assms by simp
  then show ?thesis
    using assms(1) by (cases "512 \<le> n") (auto simp: min_def)
qed

lemma after_prefix: "length x = j \<Longrightarrow> drop (j + n) (x @ drop j buf) = drop (j + n) buf \<and> take j (x @ drop j buf) = x"
  by (simp add: add.commute)

lemma subseq_sectors: "subseq xs ys \<Longrightarrow> (distinct ys \<longrightarrow> distinct xs) \<and> set xs \<subseteq> set ys"
  by (induction rule: list_emb.induct) auto

lemma word_split_512: "(a div 512) * 512 + a mod 512 = (a :: u64)"
proof -
  have "of_nat (unat a div 512 * 512 + unat a mod 512) = a"
    by (simp add: of_nat_unat_word)
  moreover have "of_nat (unat a mod 512) = a mod 512"
    by (metis of_nat_unat_word unat_mod_512)
  ultimately show ?thesis
    by (simp only: of_nat_add of_nat_mult of_nat_div_512 of_nat_numeral)
qed

text \<open>A transfer starts inside the first sector of its first extent.\<close>

definition starts_inside :: "usize \<Rightarrow> extent list \<Rightarrow> bool" where
  "starts_inside bo es \<longleftrightarrow> (case es of [] \<Rightarrow> True | e # _ \<Rightarrow> unat bo \<le> min 512 (unat (ex_length e)))"

lemma extent_bytes_cong: "(\<And>x. x \<in> set (extent_sectors e) \<Longrightarrow> V x = W x) \<Longrightarrow> extent_bytes V e = extent_bytes W e"
  by (simp add: extent_bytes_def cong: map_cong)

lemma file_wf_data:
  assumes wf: "file_wf N P V F b cs" and data: "\<forall>x. x \<notin> set (sectors_of_extents (chain_extents V cs)) \<longrightarrow> V' x = V x"
  shows "file_wf N P V' F b cs \<and> chain_extents V' cs = chain_extents V cs"
  using wf data by (intro file_wf_frame [OF wf]) (auto simp: file_wf_def layout_def)

context sector_disk
begin

lemma write_tail:
  assumes h: "holds fs V N H" and run: "set (sector_run b (block_count len)) \<subseteq> N" and small: "unat len + 511 < 2 ^ 64"
    and i: "i + unat len \<le> length buf" "length buf < 2 ^ 64"
  shows "\<exists>fs' V'. then_tr (write_aligned D (transfer_at fs buf i bo b len)) (\<lambda>t.
        then_tr (if tr_length t > 0 then write_sector D 0 t else (Return (Ok ()), t)) k) =
      k (transfer_at fs' buf (i + unat len) bo (b + of_nat (block_count len)) 0) \<and> holds fs' V' N H \<and>
    take (unat len) (concat (map V' (sector_run b (block_count len)))) = take (unat len) (drop i buf) \<and>
    (\<forall>x. x \<notin> set (sector_run b (block_count len)) \<longrightarrow> V' x = V x)"
proof -
  define q r where "q = unat len div 512" and "r = unat len mod 512"
  define len' where "len' = len - of_nat (512 * q)"
  define part where "part = take (512 * q) (drop i buf)"
  have len: "unat len = 512 * q + r" "r < 512" "unat len' = r"
    using aligned_length(4) [of len "length buf"] i by (simp_all add: q_def r_def len'_def)
  have n: "block_count len = (if r = 0 then q else Suc q)"
    using block_count_split [OF small] by (simp add: q_def r_def)
  have q: "q < 2 ^ 64" "length part = 512 * q"
    using len(1) small i by (simp_all add: part_def)
  have runq: "set (sector_run b q) \<subseteq> N"
    using run n by (cases "r = 0") (auto simp: sector_run_last)
  obtain fs1 where fs1: "write_aligned D (transfer_at fs buf i bo b len) =
      (Return (Ok ()), transfer_at fs1 buf (i + 512 * q) bo (b + of_nat q) len')" "holds fs1 (write_run V b part) N H"
    using write_aligned_spec [OF h, of b len i buf bo] runq i by (auto simp: q_def len'_def part_def)
  have bytes: "concat (map (write_run V b part) (sector_run b q)) = part"
    using write_run_read [OF q(2)] q(1) by simp
  have other: "x \<notin> set (sector_run b q) \<Longrightarrow> write_run V b part x = V x" for x
    using write_run_other [of x b part V] q by simp
  show ?thesis
  proof (cases "r = 0")
    case True
    then have "len' = 0"
      using len(3) by (simp add: unat_eq_0)
    then show ?thesis
      using True fs1 n len(1) bytes other
      by (intro exI [of _ fs1] exI [of _ "write_run V b part"]) (simp add: part_def)
  next
    case False
    have last: "b + of_nat q \<in> N"
      using run n False by (auto simp: sector_run_last)
    define S where "S = take r (drop (i + 512 * q) buf) @ drop r (write_run V b part (b + of_nat q))"
    have room: "i + 512 * q + r \<le> length buf" and min: "min 512 r = r"
      using i(1) len(1,2) by simp_all
    obtain fs2 where fs2: "write_sector D 0 (transfer_at fs1 buf (i + 512 * q) bo (b + of_nat q) len') =
        (Return (Ok ()), transfer_at fs2 buf (i + 512 * q + r) bo (b + of_nat q + 1) (len' - min 512 len'))"
        "holds fs2 ((write_run V b part)(b + of_nat q := S)) N H"
      using write_sector_spec [OF fs1(2) last, of 0 len' "i + 512 * q" buf bo] room min len(3) by (auto simp: S_def)
    have "len' - min 512 len' = 0" "len' > 0"
      using len(2,3) False by (simp_all add: min_def word_le_nat_alt word_gt_0 unat_eq_0 [symmetric])
    moreover have "map ((write_run V b part)(b + of_nat q := S)) (sector_run b (Suc q)) = map (write_run V b part) (sector_run b q) @ [S]"
      using sector_run_not_next [OF q(1)] by (auto simp: sector_run_last)
    moreover have "take (unat len) (part @ S) = take (unat len) (drop i buf)"
      using len(1) q(2) room take_add [of "512 * q" r "drop i buf"] by (simp add: S_def part_def add.commute)
    moreover have "map ((write_run V b part)(b + of_nat q := S)) (sector_run b (block_count len)) = map (write_run V b part) (sector_run b q) @ [S]"
      using calculation n False by simp
    ultimately have "take (unat len) (concat (map ((write_run V b part)(b + of_nat q := S)) (sector_run b (block_count len)))) = take (unat len) (drop i buf)"
      using bytes by (simp only: concat_append concat.simps append_Nil2)
    moreover have "((write_run V b part)(b + of_nat q := S)) x = V x" if "x \<notin> set (sector_run b (block_count len))" for x
      using that other [of x] n False by (auto simp: sector_run_last)
    moreover have "b + of_nat q + 1 = b + of_nat (block_count len)" "i + 512 * q + r = i + unat len"
      using n False len(1) by simp_all
    ultimately show ?thesis
      using fs1(1) fs2 \<open>len' - min 512 len' = 0\<close> \<open>len' > 0\<close>
      by (intro exI [of _ fs2] exI [of _ "(write_run V b part)(b + of_nat q := S)"]) (simp add: add.assoc)
  qed
qed

lemma read_tail:
  assumes h: "holds fs V N H" and run: "set (sector_run b (block_count len)) \<subseteq> N" and small: "unat len + 511 < 2 ^ 64"
    and i: "i + unat len \<le> length buf" "length buf < 2 ^ 64"
  shows "\<exists>fs'. then_tr (read_aligned D (transfer_at fs buf i bo b len)) (\<lambda>t.
        then_tr (if tr_length t > 0 then read_sector D 0 t else (Return (Ok ()), t)) k) =
      k (transfer_at fs' (take i buf @ take (unat len) (concat (map V (sector_run b (block_count len)))) @ drop (i + unat len) buf)
           (i + unat len) bo (b + of_nat (block_count len)) 0) \<and> holds fs' V N H"
proof -
  define q r where "q = unat len div 512" and "r = unat len mod 512"
  define len' where "len' = len - of_nat (512 * q)"
  define buf1 where "buf1 = take i buf @ concat (map V (sector_run b q)) @ drop (i + 512 * q) buf"
  have len: "unat len = 512 * q + r" "r < 512" "unat len' = r"
    using aligned_length(4) [of len "length buf"] i by (simp_all add: q_def r_def len'_def)
  have n: "block_count len = (if r = 0 then q else Suc q)"
    using block_count_split [OF small] by (simp add: q_def r_def)
  have runq: "set (sector_run b q) \<subseteq> N"
    using run n by (cases "r = 0") (auto simp: sector_run_last)
  then have lq: "length (concat (map V (sector_run b q))) = 512 * q"
    using length_concat_sectors [of "sector_run b q" V] sector_size [OF h] by auto
  obtain fs1 where fs1: "read_aligned D (transfer_at fs buf i bo b len) =
      (Return (Ok ()), transfer_at fs1 buf1 (i + 512 * q) bo (b + of_nat q) len')" "holds fs1 V N H"
    using read_aligned_spec [OF h, of b len i buf bo] runq i by (auto simp: q_def len'_def buf1_def)
  show ?thesis
  proof (cases "r = 0")
    case True
    then have "len' = 0"
      using len(3) by (simp add: unat_eq_0)
    then show ?thesis
      using True fs1 n len(1) lq by (intro exI [of _ fs1]) (simp add: buf1_def)
  next
    case False
    have last: "b + of_nat q \<in> N"
      using run n False by (auto simp: sector_run_last)
    have room: "i + 512 * q + r \<le> length buf1" and min: "min 512 r = r"
      using i(1) len(1,2) lq by (simp_all add: buf1_def)
    obtain fs2 where fs2: "read_sector D 0 (transfer_at fs1 buf1 (i + 512 * q) bo (b + of_nat q) len') =
        (Return (Ok ()), transfer_at fs2 (take (i + 512 * q) buf1 @ take r (V (b + of_nat q)) @ drop (i + 512 * q + r) buf1)
           (i + 512 * q + r) bo (b + of_nat q + 1) (len' - min 512 len'))" "holds fs2 V N H"
      using read_sector_spec [OF fs1(2) last, of 0 len' "i + 512 * q" buf1 bo] room min len(3) by auto
    have "len' - min 512 len' = 0" "len' > 0"
      using len(2,3) False by (simp_all add: min_def word_le_nat_alt word_gt_0 unat_eq_0 [symmetric])
    moreover have "take (i + 512 * q) buf1 = take i buf @ concat (map V (sector_run b q))" "drop (i + 512 * q + r) buf1 = drop (i + unat len) buf"
      using lq i(1) len(1) by (simp_all add: buf1_def add.commute add.left_commute)
    moreover have "take (unat len) (concat (map V (sector_run b (Suc q)))) = concat (map V (sector_run b q)) @ take r (V (b + of_nat q))"
      using lq len(1) by (simp add: sector_run_last)
    moreover have "b + of_nat q + 1 = b + of_nat (block_count len)" "i + 512 * q + r = i + unat len" "sector_run b (Suc q) = sector_run b (block_count len)"
      using n False len(1) by simp_all
    ultimately show ?thesis
      using fs1(1) fs2 by (intro exI [of _ fs2]) (simp add: add.assoc)
  qed
qed

text \<open>
  An extent of a transfer. With \<open>bo\<close> the offset of the transfer in its first sector, the loop panics if
  the first sector ends before \<open>bo\<close>; otherwise it reads or writes all bytes of the extent from \<open>bo\<close> on.
\<close>

lemma write_extent_spec:
  assumes h: "holds fs V N H" and run: "set (extent_sectors e) \<subseteq> N" and small: "extent_small e" and pos: "ex_length e \<noteq> 0"
    and i: "i + (unat (ex_length e) - unat bo) \<le> length buf" "length buf < 2 ^ 64"
  shows "if unat bo \<le> min 512 (unat (ex_length e))
    then \<exists>fs' V'. write_extent D e (transfer_at fs buf i bo b l) =
        (Return (Ok ()), transfer_at fs' buf (i + (unat (ex_length e) - unat bo)) 0 (ex_block e + (ex_length e + 511) div 512) 0) \<and>
      holds fs' V' N H \<and>
      extent_bytes V' e = take (unat bo) (extent_bytes V e) @ take (unat (ex_length e) - unat bo) (drop i buf) \<and>
      (\<forall>x. x \<notin> set (extent_sectors e) \<longrightarrow> V' x = V x)
    else \<exists>t. write_extent D e (transfer_at fs buf i bo b l) = (Panic, t) \<and> holds (tr_fs t) V N H"
proof -
  define len where "len = ex_length e"
  note small' = small [unfolded extent_small_def, folded len_def]
  have run': "set (sector_run (ex_block e) (block_count len)) \<subseteq> N"
    using run by (simp add: extent_sectors_def len_def)
  note first = split_first(1) [OF small' pos [folded len_def], of "ex_block e"]
    split_first(2) [OF small' pos [folded len_def]] split_first(3) [OF small' pos [folded len_def], of "ex_block e"]
  have b: "ex_block e \<in> N" "set (sector_run (ex_block e + 1) (block_count (len - min 512 len))) \<subseteq> N"
    using run' unfolding first(1) by auto
  have size: "length (V (ex_block e)) = 512"
    by (rule sector_size [OF h b(1)])
  have unfold: "write_extent D e (transfer_at fs buf i bo b l) =
      then_tr (if bo > 0 then then_tr (write_sector D bo (transfer_at fs buf i bo (ex_block e) len)) (\<lambda>t. (Return (Ok ()), t\<lparr>tr_byte_offset := 0\<rparr>))
               else (Return (Ok ()), transfer_at fs buf i bo (ex_block e) len)) (\<lambda>t.
        then_tr (write_aligned D t) (\<lambda>t.
          then_tr (if tr_length t > 0 then write_sector D 0 t else (Return (Ok ()), t)) (assert_done e)))"
    using pos by (simp add: write_extent_def len_def word_gt_0)
  have fin: "assert_done e (transfer_at fs' buf j 0 (ex_block e + of_nat (block_count len)) 0) =
      (Return (Ok ()), transfer_at fs' buf j 0 (ex_block e + (ex_length e + 511) div 512) 0)" for fs' :: "'d file_system" and j
    by (simp add: assert_done_def block_count_of_nat len_def)
  show ?thesis
  proof (cases "bo = 0")
    case True
    then obtain fs' V' where "write_extent D e (transfer_at fs buf i bo b l) =
        assert_done e (transfer_at fs' buf (i + unat len) 0 (ex_block e + of_nat (block_count len)) 0)" "holds fs' V' N H"
        "take (unat len) (concat (map V' (sector_run (ex_block e) (block_count len)))) = take (unat len) (drop i buf)"
        "\<forall>x. x \<notin> set (sector_run (ex_block e) (block_count len)) \<longrightarrow> V' x = V x"
      using write_tail [OF h run' small', of i buf 0 "assert_done e"] i unfold by (auto simp: len_def)
    then show ?thesis
      using True fin by (auto simp: extent_bytes_def extent_sectors_def len_def)
  next
    case bo: False
    show ?thesis
    proof (cases "unat bo \<le> min 512 (unat len)")
      case False
      then have "bo > min 512 len"
        by (auto simp: word_less_nat_alt unat_min_512)
      moreover obtain fs1 where "fs_read_at D (ex_block e) (replicate 512 0) fs = ((Ok 512, V (ex_block e)), fs1)" "holds fs1 V N H"
        using read_run [OF h, of "ex_block e" 1 "replicate 512 0"] b(1) by auto
      ultimately show ?thesis
        using unfold bo False by (auto simp: write_sector_def len_def word_gt_0)
    next
      case True
      let ?ss = "min 512 (unat len)"
      define S where "S = take (unat bo) (V (ex_block e)) @ take (?ss - unat bo) (drop i buf) @ drop ?ss (V (ex_block e))"
      define j where "j = i + (?ss - unat bo)"
      have room: "i + (?ss - unat bo) \<le> length buf" "j + (unat len - ?ss) = i + (unat len - unat bo)"
        using i(1) True by (auto simp: j_def len_def)
      obtain fs1 where fs1: "write_sector D bo (transfer_at fs buf i bo (ex_block e) len) =
          (Return (Ok ()), transfer_at fs1 buf j bo (ex_block e + 1) (len - min 512 len))" "holds fs1 (V(ex_block e := S)) N H"
        using write_sector_spec [OF h b(1) True room(1), of bo] unfolding S_def j_def by blast
      have "unat (len - min 512 len) \<le> unat len"
        using first(2) by simp
      then have "unat (len - min 512 len) + 511 < 2 ^ 64" "j + unat (len - min 512 len) \<le> length buf"
        using small' first(2) room i(1) by (simp_all only: len_def)
      then obtain fs' V' where tail: "then_tr (write_aligned D (transfer_at fs1 buf j 0 (ex_block e + 1) (len - min 512 len))) (\<lambda>t.
          then_tr (if tr_length t > 0 then write_sector D 0 t else (Return (Ok ()), t)) (assert_done e)) =
          assert_done e (transfer_at fs' buf (j + unat (len - min 512 len)) 0 (ex_block e + 1 + of_nat (block_count (len - min 512 len))) 0)"
          "holds fs' V' N H"
          "take (unat (len - min 512 len)) (concat (map V' (sector_run (ex_block e + 1) (block_count (len - min 512 len))))) =
             take (unat (len - min 512 len)) (drop j buf)"
          "\<forall>x. x \<notin> set (sector_run (ex_block e + 1) (block_count (len - min 512 len))) \<longrightarrow> V' x = (V(ex_block e := S)) x"
        using write_tail [OF fs1(2) b(2), of j buf 0 "assert_done e"] i(2) by blast
      have "V' (ex_block e) = S"
        using tail(4) sector_run_not_first [of "block_count (len - min 512 len)" "ex_block e"] block_count_le [of "len - min 512 len"]
        by simp
      moreover have "length S = 512"
        using size True room by (simp add: S_def)
      ultimately have "extent_bytes V' e = take (unat len) S @ take (unat len - 512) (drop j buf)"
        using tail(3) first(1,2) by (auto simp: extent_bytes_def extent_sectors_def len_def [symmetric] min_def split: if_splits)
      also have "\<dots> = take (unat bo) (extent_bytes V e) @ take (unat len - unat bo) (drop i buf)"
      proof -
        have 1: "take (unat len) S = take (unat bo) (V (ex_block e)) @ take (?ss - unat bo) (drop i buf)"
          unfolding S_def using True size room(1) by (intro take_patched) simp_all
        have 2: "take (unat bo) (V (ex_block e)) = take (unat bo) (extent_bytes V e)"
          using True size first(1) by (simp add: extent_bytes_def extent_sectors_def len_def [symmetric] min_absorb1)
        have 3: "take (?ss - unat bo) (drop i buf) @ take (unat len - 512) (drop j buf) = take (unat len - unat bo) (drop i buf)"
          using True take_add [of "?ss - unat bo" "unat len - 512" "drop i buf"] by (simp add: j_def add.commute min_def split: if_splits)
        show ?thesis
          unfolding 1 2 by (simp only: append_assoc 3)
      qed
      finally have "extent_bytes V' e = take (unat bo) (extent_bytes V e) @ take (unat len - unat bo) (drop i buf)" .
      moreover have "\<forall>x. x \<notin> set (extent_sectors e) \<longrightarrow> V' x = V x"
        using tail(4) first(1) by (auto simp: extent_sectors_def len_def [symmetric])
      moreover have "write_extent D e (transfer_at fs buf i bo b l) =
          (Return (Ok ()), transfer_at fs' buf (i + (unat len - unat bo)) 0 (ex_block e + (ex_length e + 511) div 512) 0)"
        using unfold bo fs1(1) tail(1) fin first(2,3) room(2) by (simp add: word_gt_0)
      ultimately show ?thesis
        using True tail(2) by (auto simp: len_def)
    qed
  qed
qed

lemma read_extent_spec:
  assumes h: "holds fs V N H" and run: "set (extent_sectors e) \<subseteq> N" and small: "extent_small e" and pos: "ex_length e \<noteq> 0"
    and i: "i + (unat (ex_length e) - unat bo) \<le> length buf" "length buf < 2 ^ 64"
    and bo: "unat bo \<le> min 512 (unat (ex_length e))"
  shows "\<exists>fs'. read_extent D e (transfer_at fs buf i bo b l) =
      (Return (Ok ()), transfer_at fs' (take i buf @ drop (unat bo) (extent_bytes V e) @ drop (i + (unat (ex_length e) - unat bo)) buf)
         (i + (unat (ex_length e) - unat bo)) 0 (ex_block e + (ex_length e + 511) div 512) 0) \<and> holds fs' V N H"
proof -
  define len where "len = ex_length e"
  note small' = small [unfolded extent_small_def, folded len_def]
  have run': "set (sector_run (ex_block e) (block_count len)) \<subseteq> N"
    using run by (simp add: extent_sectors_def len_def)
  note first = split_first(1) [OF small' pos [folded len_def], of "ex_block e"]
    split_first(2) [OF small' pos [folded len_def]] split_first(3) [OF small' pos [folded len_def], of "ex_block e"]
  have b: "ex_block e \<in> N" "set (sector_run (ex_block e + 1) (block_count (len - min 512 len))) \<subseteq> N"
    using run' unfolding first(1) by auto
  have size: "length (V (ex_block e)) = 512"
    by (rule sector_size [OF h b(1)])
  have unfold: "read_extent D e (transfer_at fs buf i bo b l) =
      then_tr (if bo > 0 then then_tr (read_sector D bo (transfer_at fs buf i bo (ex_block e) len)) (\<lambda>t. (Return (Ok ()), t\<lparr>tr_byte_offset := 0\<rparr>))
               else (Return (Ok ()), transfer_at fs buf i bo (ex_block e) len)) (\<lambda>t.
        then_tr (read_aligned D t) (\<lambda>t.
          then_tr (if tr_length t > 0 then read_sector D 0 t else (Return (Ok ()), t)) (assert_done e)))"
    using pos by (simp add: read_extent_def len_def word_gt_0)
  have fin: "assert_done e (transfer_at fs' buf' j 0 (ex_block e + of_nat (block_count len)) 0) =
      (Return (Ok ()), transfer_at fs' buf' j 0 (ex_block e + (ex_length e + 511) div 512) 0)" for fs' :: "'d file_system" and buf' j
    by (simp add: assert_done_def block_count_of_nat len_def)
  show ?thesis
  proof (cases "bo = 0")
    case True
    then obtain fs' where "read_extent D e (transfer_at fs buf i bo b l) =
        assert_done e (transfer_at fs' (take i buf @ take (unat len) (concat (map V (sector_run (ex_block e) (block_count len)))) @
          drop (i + unat len) buf) (i + unat len) 0 (ex_block e + of_nat (block_count len)) 0)" "holds fs' V N H"
      using read_tail [OF h run' small', of i buf 0 "assert_done e"] i unfold by (auto simp: len_def)
    then show ?thesis
      using True by (intro exI [of _ fs']) (simp add: fin extent_bytes_def extent_sectors_def len_def [symmetric])
  next
    case False
    let ?ss = "min 512 (unat len)"
    let ?L = "unat (len - min 512 len)"
    define j where "j = i + (?ss - unat bo)"
    define X where "X = take i buf @ take (?ss - unat bo) (drop (unat bo) (V (ex_block e)))"
    define buf1 where "buf1 = X @ drop j buf"
    note bo' = bo [folded len_def]
    have room: "j \<le> length buf" "j + ?L = i + (unat len - unat bo)"
      using i(1) bo' first(2) by (auto simp: j_def len_def)
    obtain fs1 where fs1: "read_sector D bo (transfer_at fs buf i bo (ex_block e) len) =
        (Return (Ok ()), transfer_at fs1 buf1 j bo (ex_block e + 1) (len - min 512 len))" "holds fs1 V N H"
      using read_sector_spec [OF h b(1) bo' room(1) [unfolded j_def], of bo] unfolding buf1_def X_def j_def append_assoc by blast
    have "i \<le> length buf"
      using room(1) by (simp add: j_def)
    then have X: "length X = j"
      using size bo' by (simp add: X_def j_def)
    then have len1: "length buf1 = length buf"
      using room(1) by (simp add: buf1_def)
    have "?L \<le> unat len"
      using first(2) by simp
    then have "?L + 511 < 2 ^ 64" "j + ?L \<le> length buf1" "length buf1 < 2 ^ 64"
      using small' room i len1 by (simp_all add: len_def)
    then obtain fs' where tail: "then_tr (read_aligned D (transfer_at fs1 buf1 j 0 (ex_block e + 1) (len - min 512 len))) (\<lambda>t.
        then_tr (if tr_length t > 0 then read_sector D 0 t else (Return (Ok ()), t)) (assert_done e)) =
        assert_done e (transfer_at fs' (take j buf1 @ take ?L (concat (map V (sector_run (ex_block e + 1) (block_count (len - min 512 len))))) @
          drop (j + ?L) buf1) (j + ?L) 0 (ex_block e + 1 + of_nat (block_count (len - min 512 len))) 0)" "holds fs' V N H"
      using read_tail [OF fs1(2) b(2), of j buf1 0 "assert_done e"] by blast
    have "take j buf1 = take i buf @ take (?ss - unat bo) (drop (unat bo) (V (ex_block e)))" "drop (j + ?L) buf1 = drop (i + (unat len - unat bo)) buf"
      unfolding buf1_def room(2) [symmetric] using after_prefix [OF X] by (simp_all add: X_def)
    moreover have "drop (unat bo) (extent_bytes V e) =
        take (?ss - unat bo) (drop (unat bo) (V (ex_block e))) @ take ?L (concat (map V (sector_run (ex_block e + 1) (block_count (len - min 512 len)))))"
      using first(1,2) size bo'
      by (auto simp: extent_bytes_def extent_sectors_def len_def [symmetric] min_def drop_take split: if_splits)
    ultimately show ?thesis
      using unfold False fs1(1) tail fin first(3) room(2) by (simp add: word_gt_0 len_def [symmetric])
  qed
qed

section \<open>The list of extents\<close>

lemma length_extent_bytes:
  assumes "holds fs V N H" "set (extent_sectors e) \<subseteq> N" "extent_small e"
  shows "length (extent_bytes V e) = unat (ex_length e)"
proof -
  have "length (concat (map V (extent_sectors e))) = 512 * block_count (ex_length e)"
    using length_concat_sectors [of "extent_sectors e" V] sector_size [OF assms(1)] assms(2)
    by (auto simp: extent_sectors_def)
  then show ?thesis
    using block_count_bound [OF assms(3)] by (simp add: extent_bytes_def)
qed

lemma length_extents_bytes:
  "holds fs V N H \<Longrightarrow> set (sectors_of_extents es) \<subseteq> N \<Longrightarrow> \<forall>e\<in>set es. extent_small e \<Longrightarrow> length (extents_bytes V es) = extents_size es"
  by (induction es) (auto simp: length_extent_bytes)

lemma write_extents_spec:
  assumes "holds fs V N H" "distinct (sectors_of_extents es)" "set (sectors_of_extents es) \<subseteq> N"
    and "\<forall>e\<in>set es. extent_small e \<and> ex_length e \<noteq> 0" "i + (extents_size es - unat bo) \<le> length buf" "length buf < 2 ^ 64"
  shows "if starts_inside bo es
    then \<exists>fs' V' bo' b' l'. write_extents D es (transfer_at fs buf i bo b l) =
        (Return (Ok ()), transfer_at fs' buf (i + (extents_size es - unat bo)) bo' b' l') \<and> holds fs' V' N H \<and>
      extents_bytes V' es = take (unat bo) (extents_bytes V es) @ take (extents_size es - unat bo) (drop i buf) \<and>
      (\<forall>x. x \<notin> set (sectors_of_extents es) \<longrightarrow> V' x = V x)
    else \<exists>t. write_extents D es (transfer_at fs buf i bo b l) = (Panic, t) \<and> holds (tr_fs t) V N H"
  using assms
proof (induction es arbitrary: fs V i bo b l)
  case Nil
  then show ?case
    by (auto simp: starts_inside_def)
next
  case (Cons e es)
  let ?n = "unat (ex_length e) - unat bo"
  have e: "set (extent_sectors e) \<subseteq> N" "extent_small e" "ex_length e \<noteq> 0" "i + ?n \<le> length buf"
    using Cons.prems by auto
  note one = write_extent_spec [OF Cons.prems(1) e Cons.prems(6), of b l]
  show ?case
  proof (cases "unat bo \<le> min 512 (unat (ex_length e))")
    case False
    then show ?thesis
      using one by (auto simp: starts_inside_def)
  next
    case True
    then obtain fs1 V1 where fs1: "write_extent D e (transfer_at fs buf i bo b l) =
        (Return (Ok ()), transfer_at fs1 buf (i + ?n) 0 (ex_block e + (ex_length e + 511) div 512) 0)" "holds fs1 V1 N H"
        "extent_bytes V1 e = take (unat bo) (extent_bytes V e) @ take ?n (drop i buf)"
        "\<forall>x. x \<notin> set (extent_sectors e) \<longrightarrow> V1 x = V x"
      using one by auto
    have "if starts_inside 0 es
      then \<exists>fs' V' bo' b' l'. write_extents D es (transfer_at fs1 buf (i + ?n) 0 (ex_block e + (ex_length e + 511) div 512) 0) =
          (Return (Ok ()), transfer_at fs' buf (i + ?n + (extents_size es - unat (0 :: usize))) bo' b' l') \<and> holds fs' V' N H \<and>
        extents_bytes V' es = take (unat (0 :: usize)) (extents_bytes V1 es) @ take (extents_size es - unat (0 :: usize)) (drop (i + ?n) buf) \<and>
        (\<forall>x. x \<notin> set (sectors_of_extents es) \<longrightarrow> V' x = V1 x)
      else \<exists>t. write_extents D es (transfer_at fs1 buf (i + ?n) 0 (ex_block e + (ex_length e + 511) div 512) 0) = (Panic, t) \<and> holds (tr_fs t) V1 N H"
      by (rule Cons.IH [OF fs1(2)]) (use Cons.prems True in auto)
    then obtain fs2 V2 bo' b' l' where fs2: "write_extents D es (transfer_at fs1 buf (i + ?n) 0 (ex_block e + (ex_length e + 511) div 512) 0) =
        (Return (Ok ()), transfer_at fs2 buf (i + ?n + extents_size es) bo' b' l')" "holds fs2 V2 N H"
        "extents_bytes V2 es = take (extents_size es) (drop (i + ?n) buf)" "\<forall>x. x \<notin> set (sectors_of_extents es) \<longrightarrow> V2 x = V1 x"
      by (auto simp: starts_inside_def split: list.splits)
    have "extent_bytes V2 e = extent_bytes V1 e"
      using fs2(4) Cons.prems(2) by (intro extent_bytes_cong) auto
    moreover have "take ?n (drop i buf) @ take (extents_size es) (drop (i + ?n) buf) = take (?n + extents_size es) (drop i buf)"
      using take_add [of ?n "extents_size es" "drop i buf"] by (simp add: add.commute)
    moreover have "take (unat bo) (extents_bytes V (e # es)) = take (unat bo) (extent_bytes V e)"
      using True length_extent_bytes [OF Cons.prems(1) e(1,2)] by simp
    ultimately have "extents_bytes V2 (e # es) = take (unat bo) (extents_bytes V (e # es)) @ take (?n + extents_size es) (drop i buf)"
      using fs1(3) fs2(3) by simp
    moreover have "\<forall>x. x \<notin> set (sectors_of_extents (e # es)) \<longrightarrow> V2 x = V x"
      using fs1(4) fs2(4) by simp
    moreover have "?n + extents_size es = extents_size (e # es) - unat bo"
      using True by simp
    ultimately show ?thesis
      using True fs1(1) fs2(1,2) by (auto simp: starts_inside_def add.assoc simp del: extents_bytes_simps)
  qed
qed

lemma read_extents_spec:
  assumes "holds fs V N H" "set (sectors_of_extents es) \<subseteq> N"
    and "\<forall>e\<in>set es. extent_small e \<and> ex_length e \<noteq> 0" "i + (extents_size es - unat bo) \<le> length buf" "length buf < 2 ^ 64"
    and "starts_inside bo es"
  shows "\<exists>fs' bo' b' l'. read_extents D es (transfer_at fs buf i bo b l) =
      (Return (Ok ()), transfer_at fs' (take i buf @ drop (unat bo) (extents_bytes V es) @ drop (i + (extents_size es - unat bo)) buf)
        (i + (extents_size es - unat bo)) bo' b' l') \<and> holds fs' V N H"
  using assms
proof (induction es arbitrary: fs i bo b l buf)
  case Nil
  then show ?case
    by auto
next
  case (Cons e es)
  let ?n = "unat (ex_length e) - unat bo"
  have bo: "unat bo \<le> min 512 (unat (ex_length e))"
    using Cons.prems(6) by (simp add: starts_inside_def)
  have e: "set (extent_sectors e) \<subseteq> N" "extent_small e" "ex_length e \<noteq> 0" "i + ?n \<le> length buf"
    using Cons.prems by auto
  define buf1 where "buf1 = (take i buf @ drop (unat bo) (extent_bytes V e)) @ drop (i + ?n) buf"
  obtain fs1 where fs1: "read_extent D e (transfer_at fs buf i bo b l) =
      (Return (Ok ()), transfer_at fs1 buf1 (i + ?n) 0 (ex_block e + (ex_length e + 511) div 512) 0)" "holds fs1 V N H"
    using read_extent_spec [OF Cons.prems(1) e Cons.prems(5) bo, of b l] unfolding buf1_def append_assoc by blast
  have len: "length (take i buf @ drop (unat bo) (extent_bytes V e)) = i + ?n"
    using e(4) length_extent_bytes [OF Cons.prems(1) e(1,2)] by simp
  have "\<exists>fs' bo' b' l'. read_extents D es (transfer_at fs1 buf1 (i + ?n) 0 (ex_block e + (ex_length e + 511) div 512) 0) =
      (Return (Ok ()), transfer_at fs' (take (i + ?n) buf1 @ drop (unat (0 :: usize)) (extents_bytes V es) @ drop (i + ?n + (extents_size es - unat (0 :: usize))) buf1)
        (i + ?n + (extents_size es - unat (0 :: usize))) bo' b' l') \<and> holds fs' V N H"
    by (rule Cons.IH [OF fs1(2)]) (use Cons.prems bo len in \<open>auto simp: buf1_def starts_inside_def split: list.splits\<close>)
  then obtain fs2 bo' b' l' where fs2: "read_extents D es (transfer_at fs1 buf1 (i + ?n) 0 (ex_block e + (ex_length e + 511) div 512) 0) =
      (Return (Ok ()), transfer_at fs2 (take (i + ?n) buf1 @ extents_bytes V es @ drop (i + ?n + extents_size es) buf1)
        (i + ?n + extents_size es) bo' b' l')" "holds fs2 V N H"
    by auto
  have "take (i + ?n) buf1 = take i buf @ drop (unat bo) (extent_bytes V e)"
      "drop (i + ?n + extents_size es) buf1 = drop (i + ?n + extents_size es) buf"
    unfolding buf1_def using after_prefix [OF len] by simp_all
  moreover have "drop (unat bo) (extents_bytes V (e # es)) = drop (unat bo) (extent_bytes V e) @ extents_bytes V es"
    using bo length_extent_bytes [OF Cons.prems(1) e(1,2)] by simp
  moreover have "i + ?n + extents_size es = i + (extents_size (e # es) - unat bo)"
    using bo by simp
  ultimately show ?case
    using fs1(1) fs2 by (simp only: read_extents.simps then_tr_simps append_assoc) blast
qed

section \<open>Writing, then reading\<close>

text \<open>The extents of a transfer inside a file that is long enough.\<close>

lemma transfer_extents:
  assumes wf: "file_wf N P V F b cs" and room: "unat off + n \<le> file_size V cs" "unat off + n < 2 ^ 64"
  shows "\<exists>ys. snd (snd (collect_extents (chain_extents V cs) (off div 512) (off mod 512 + of_nat n) [])) = ys \<and>
    extents_size ys = unat off mod 512 + n \<and> distinct (sectors_of_extents ys) \<and>
    set (sectors_of_extents ys) \<subseteq> set (sectors_of_extents (chain_extents V cs)) \<and>
    (\<forall>y\<in>set ys. extent_small y \<and> ex_length y \<noteq> 0)"
proof -
  let ?es = "chain_extents V cs"
  have es: "\<forall>e\<in>set ?es. extent_small e" "0 \<notin> set (sectors_of_extents ?es)" "distinct (sectors_of_extents ?es)"
    using wf by (auto simp: file_wf_def layout_def)
  have l: "unat (off mod 512 + of_nat n) = unat off mod 512 + n"
  proof -
    have "unat off mod 512 + n < 2 ^ 64"
      using room(2) mod_less_eq_dividend [of "unat off" 512] by linarith
    then show ?thesis
      by (simp add: unat_add_usize unat_mod_512)
  qed
  obtain off' l' ys where c: "collect_extents ?es (off div 512) (off mod 512 + of_nat n) [] = (off', l', [] @ ys)"
      "extents_size ys + unat l' = unat (off mod 512 + of_nat n)" "subseq (sectors_of_extents ys) (sectors_of_extents ?es)"
      "\<forall>y\<in>set ys. extent_small y \<and> ex_length y \<noteq> 0"
      "l' \<noteq> 0 \<longrightarrow> extents_size ?es + 512 * unat off' \<le> 512 * unat (off div 512) + extents_size ys"
    using collect_extents_spec [OF es(1,2)] by blast
  have "512 * unat (off div 512) + unat off mod 512 = unat off"
    by (simp add: unat_div_512)
  then have "l' = 0"
    using c(2,5) l room(1) by (auto simp: file_size_def unat_eq_0 [symmetric])
  then show ?thesis
    using c l es(3) subseq_sectors [OF c(3)] by auto
qed

lemma write_then_read:
  assumes h: "holds fs V N H" and wf: "file_wf N [] V (hd_free H) b cs" and b: "b \<noteq> 0"
    and small: "unat off + length buf + 511 < 2 ^ 64" and buf': "length buf' = length buf"
  shows "\<exists>r fs' V' cs'. fs_write_node D b off buf fs = Some (r, fs') \<and> holds fs' V' N H \<and> file_wf N [] V' (hd_free H) b cs' \<and>
    (r = Panic \<and> off mod 512 \<noteq> 0 \<or> r = Return (Err (Error ENOSPC)) \<and> file_size V cs < unat off + length buf \<or>
     r = Return (Ok (of_nat (length buf))) \<and> unat off + length buf \<le> file_size V' cs' \<and>
     (\<exists>fs''. fs_read_node D b off buf' fs' = Some ((Return (Ok (of_nat (length buf))), buf), fs'')))"
proof -
  let ?n = "off mod 512 + of_nat (length buf)"
  obtain ys0 where cs: "cs = b # ys0"
    using wf b by (cases cs) (auto simp: file_wf_def)
  have len: "off div 512 * 512 + ?n = off + of_nat (length buf)" "unat (off + of_nat (length buf)) = unat off + length buf"
    using small by (simp_all add: add.assoc [symmetric] word_split_512 unat_add_usize)
  obtain r1 fs1 V1 cs1 where e: "fs_node_ensure_len D b (off + of_nat (length buf)) fs = Some (r1, fs1)" "holds fs1 V1 N H"
      "file_wf N [] V1 (hd_free H) b cs1"
      "r1 = Ok () \<and> unat off + length buf \<le> file_size V1 cs1 \<or> r1 = Err (Error ENOSPC) \<and> file_size V cs < unat off + length buf"
    using ensure_len_spec [OF h, of b "[]" b ys0 "off + of_nat (length buf)"] wf small len(2) unfolding cs file_size_def by auto
  show ?thesis
  proof (cases "r1 = Ok ()")
    case False
    then have "fs_write_node D b off buf fs = Some (Return (Err (Error ENOSPC)), fs1)"
      using e(1,4) by (auto simp: fs_write_node_def Let_def len(1) simp del: ENOSPC_def)
    then show ?thesis
      using e(2-4) False by blast
  next
    case True
    then have room: "unat off + length buf \<le> file_size V1 cs1"
      using e(4) by auto
    obtain ys where ys: "snd (snd (collect_extents (chain_extents V1 cs1) (off div 512) ?n [])) = ys"
        "extents_size ys = unat off mod 512 + length buf" "distinct (sectors_of_extents ys)"
        "set (sectors_of_extents ys) \<subseteq> set (sectors_of_extents (chain_extents V1 cs1))"
        "\<forall>y\<in>set ys. extent_small y \<and> ex_length y \<noteq> 0"
      using transfer_extents [OF e(3) room] small by auto
    have inside: "set (sectors_of_extents ys) \<subseteq> N" "set cs1 \<subseteq> N" "chain V1 b cs1"
      using e(3) ys(4) by (auto simp: file_wf_def layout_def)
    obtain fs2 where fs2: "fs_node_extents D b (off div 512) ?n [] fs1 = Some (Ok ys, fs2)" "holds fs2 V1 N H"
      using node_extents_spec [OF e(2) inside(3,2), of "off div 512" ?n "[]"] ys(1) by auto
    have w: "fs_write_node D b off buf fs =
        (let ((r, _), fs) = transferred (write_extents D ys (transfer_at fs2 buf 0 (off mod 512) 0 0)) in Some (r, fs))"
      using e(1) True fs2(1) by (simp add: fs_write_node_def start_transfer_def Let_def len(1))
    have bo: "extents_size ys - unat (off mod 512) = length buf" "length buf < 2 ^ 64"
      using ys(2) small by (simp_all add: unat_mod_512)
    note loop = write_extents_spec [OF fs2(2) ys(3) inside(1) ys(5), of 0 "off mod 512" buf 0 0, unfolded bo]
    show ?thesis
    proof (cases "starts_inside (off mod 512) ys")
      case False
      then obtain t where t: "write_extents D ys (transfer_at fs2 buf 0 (off mod 512) 0 0) = (Panic, t)" "holds (tr_fs t) V1 N H"
        using loop bo(2) by auto
      then have "fs_write_node D b off buf fs = Some (Panic, tr_fs t)"
        using w by (simp add: transferred_def)
      moreover have "off mod 512 \<noteq> 0"
      proof
        assume zero: "off mod 512 = 0"
        show False
          using False unfolding zero by (simp add: starts_inside_def split: list.splits)
      qed
      ultimately show ?thesis
        using t(2) e(3) by blast
    next
      case start: True
      then obtain fs3 V3 bo' b' l' where fs3: "write_extents D ys (transfer_at fs2 buf 0 (off mod 512) 0 0) =
          (Return (Ok ()), transfer_at fs3 buf (length buf) bo' b' l')" "holds fs3 V3 N H"
          "extents_bytes V3 ys = take (unat (off mod 512)) (extents_bytes V1 ys) @ buf"
          "\<forall>x. x \<notin> set (sectors_of_extents ys) \<longrightarrow> V3 x = V1 x"
        using loop bo(2) by auto
      have wf3: "file_wf N [] V3 (hd_free H) b cs1" "chain_extents V3 cs1 = chain_extents V1 cs1"
        using file_wf_data [OF e(3), of V3] fs3(4) ys(4) by blast+
      have "length (take (unat (off mod 512)) (extents_bytes V1 ys)) = unat (off mod 512)"
        using length_extents_bytes [OF e(2) inside(1)] ys(2,5) by (simp add: unat_mod_512)
      then have bytes: "drop (unat (off mod 512)) (extents_bytes V3 ys) = buf"
        by (simp add: fs3(3))
      have "chain V3 b cs1"
        using wf3(1) by (simp add: file_wf_def)
      then obtain fs4 where fs4: "fs_node_extents D b (off div 512) ?n [] fs3 = Some (Ok ys, fs4)" "holds fs4 V3 N H"
        using node_extents_spec [OF fs3(2) _ inside(2), of b "off div 512" ?n "[]"] ys(1) unfolding wf3(2) by auto
      obtain fs5 bo2 b2 l2 where "read_extents D ys (transfer_at fs4 buf' 0 (off mod 512) 0 0) =
          (Return (Ok ()), transfer_at fs5 buf (length buf) bo2 b2 l2)"
        using read_extents_spec [OF fs4(2) inside(1) ys(5), of 0 "off mod 512" buf' 0 0] bo buf' start bytes by auto
      then have "fs_read_node D b off buf' fs3 = Some ((Return (Ok (of_nat (length buf))), buf), fs5)"
        using fs4(1) buf' by (simp add: fs_read_node_def start_transfer_def transferred_def)
      moreover have "fs_write_node D b off buf fs = Some (Return (Ok (of_nat (length buf))), fs3)"
        using w fs3(1) by (simp add: transferred_def)
      moreover have "unat off + length buf \<le> file_size V3 cs1"
        using room by (simp add: file_size_def wf3(2))
      ultimately show ?thesis
        using fs3(2) wf3(1) by blast
    qed
  qed
qed

end

section \<open>RedoxFS on the live disk\<close>

text \<open>The file system mounted on an image that is a file of the live \<open>disk:\<close> scheme, open as \<open>i\<close>.\<close>

definition live_image :: "usize \<Rightarrow> live_disk image disk_impl" where
  "live_image i = image_impl (live_file i)"

definition live_fs :: "usize \<Rightarrow> live_disk image file_system \<Rightarrow> view \<Rightarrow> u64 set \<Rightarrow> header \<Rightarrow> bool" where
  "live_fs i = fs_holds (\<lambda>d. live_file_open i (im_file d)) (\<lambda>d. sectors_in (ld_data (im_file d)))
     (\<lambda>d. length (ld_data (im_file d)) div 512)"

text \<open>C5. 
  What is written to a file is read back. On a file whose nodes, data sectors and the free
  sectors are distinct sectors of the disk, \<open>write_node\<close> returns and keeps them so. If it returns
  \<open>Ok\<close>, it has written the whole buffer, the file is long enough to hold it, and \<open>read_node\<close> at the
  same offset returns exactly these bytes. It returns \<open>ENOSPC\<close> only if the file has to grow, and panics
  only if the offset is not a multiple of the sector size.
\<close>

theorem redoxfs_write_then_read:
  assumes "live_fs i fs V N H" "file_wf N [] V (hd_free H) b cs" "b \<noteq> 0"
    and "unat off + length buf + 511 < 2 ^ 64" "length buf' = length buf"
  shows "\<exists>r fs' V' cs'. fs_write_node (live_image i) b off buf fs = Some (r, fs') \<and>
    live_fs i fs' V' N H \<and> file_wf N [] V' (hd_free H) b cs' \<and>
    (r = Panic \<and> off mod 512 \<noteq> 0 \<or>
     r = Return (Err (Error ENOSPC)) \<and> file_size V cs < unat off + length buf \<or>
     r = Return (Ok (of_nat (length buf))) \<and> unat off + length buf \<le> file_size V' cs' \<and>
     (\<exists>fs''. fs_read_node (live_image i) b off buf' fs' = Some ((Return (Ok (of_nat (length buf))), buf), fs'')))"
  unfolding live_fs_def live_image_def by (rule live.image.write_then_read [OF assms [unfolded live_fs_def]])

text \<open>A disk of the given sectors, open as handle 0.\<close>

definition fs_on :: "bytes list \<Rightarrow> header \<Rightarrow> live_disk image file_system" where
  "fs_on S H =
     \<lparr>fs_disk = \<lparr>im_file = snd (disk_open [] 0 0 0 (disk_new (concat S)))\<rparr>, fs_block = 0, fs_header = (0, H)\<rparr>"

definition view_on :: "bytes list \<Rightarrow> view" where
  "view_on S b = sectors_in (concat S) (unat b)"

lemma length_concat_512: "\<forall>s\<in>set S. length s = 512 \<Longrightarrow> length (concat S) = 512 * length S"
  by (induction S) auto

lemma sectors_in_concat: "\<forall>s\<in>set S. length s = 512 \<Longrightarrow> k < length S \<Longrightarrow> sectors_in (concat S) k = S ! k"
proof (induction S arbitrary: k)
  case (Cons s S)
  then show ?case
    by (cases k) (auto simp: sectors_in_def)
qed simp

lemma view_on_nth: "\<forall>s\<in>set S. length s = 512 \<Longrightarrow> unat b < length S \<Longrightarrow> view_on S b = S ! unat b"
  by (simp add: view_on_def sectors_in_concat)

lemma live_fs_on:
  assumes "\<forall>s\<in>set S. length s = 512" "length S < 2 ^ 54"
  shows "live_fs 0 (fs_on S H) (view_on S) {b. unat b < length S} H"
  using assms length_concat_512 [OF assms(1)]
  by (auto simp: live_fs_def fs_holds_def fs_on_def view_on_def disk_open_def disk_new_def add_handle_def new_table_def
      live_file_open_def disk_inv_def)

text \<open>A file system of six sectors with one file of four bytes.\<close>

definition small_node :: "bytes \<Rightarrow> extent \<Rightarrow> node" where
  "small_node name e = (node_new NODE_FILE name 0)\<lparr>nd_extents := e # replicate 14 extent_default\<rparr>"

definition small_header :: header where
  "small_header = header_new 3072 1 2"

definition small_sectors :: "bytes list" where
  "small_sectors =
     [encode_header small_header, encode_node (node_new NODE_DIR (bytes_of ''root'') 0),
      encode_node (small_node (bytes_of ''free'') \<lparr>ex_block = 5, ex_length = 512\<rparr>),
      encode_node (small_node (bytes_of ''a'') \<lparr>ex_block = 4, ex_length = 4\<rparr>), replicate 512 1, replicate 512 0]"

lemma small_node_wf [simp]: "node_wf (small_node name e)"
  using node_wf_intros(2) [of NODE_FILE name 0] by (simp add: small_node_def node_wf_def)

lemma small_sectors_length: "\<forall>s\<in>set small_sectors. length s = 512" "length small_sectors = 6"
  by (simp_all add: small_sectors_def small_header_def)

lemma small_nodes:
  "node_at (view_on small_sectors) 2 = small_node (bytes_of ''free'') \<lparr>ex_block = 5, ex_length = 512\<rparr>"
  "node_at (view_on small_sectors) 3 = small_node (bytes_of ''a'') \<lparr>ex_block = 4, ex_length = 4\<rparr>"
  using view_on_nth [OF small_sectors_length(1), of 2] view_on_nth [OF small_sectors_length(1), of 3] small_sectors_length(2)
  by (simp_all add: small_sectors_def)

lemma free_of_default [simp]: "free_of_extents (replicate k extent_default) = []"
  by (induction k) (simp_all add: extent_default_def free_sectors_def)

lemma small_file_wf: "file_wf {b. unat b < 6} [] (view_on small_sectors) (hd_free small_header) 3 [3]"
proof -
  have "chain_extents (view_on small_sectors) [3] = \<lparr>ex_block = 4, ex_length = 4\<rparr> # replicate 14 extent_default"
    by (simp add: small_nodes small_node_def)
  moreover have "layout (view_on small_sectors) 2 [3] = [3, 2, 4, 5]"
    by (simp add: layout_def small_nodes small_node_def extent_sectors_def free_sectors_def block_count_eq)
  ultimately show ?thesis
    by (auto simp: file_wf_def small_header_def header_new_def small_nodes small_node_def node_new_def extent_small_def
        extent_default_def simp del: chain_extents_simps)
qed

theorem redoxfs_write_then_read_witness:
  "\<exists>fs' fs''. fs_write_node (live_image 0) 3 0 [7, 8] (fs_on small_sectors small_header) = Some (Return (Ok 2), fs') \<and>
     fs_read_node (live_image 0) 3 0 [0, 0] fs' = Some ((Return (Ok 2), [7, 8]), fs'')"
proof -
  have "live_fs 0 (fs_on small_sectors small_header) (view_on small_sectors) {b. unat b < 6} small_header"
    using live_fs_on [OF small_sectors_length(1)] small_sectors_length(2) by simp
  moreover have "file_size (view_on small_sectors) [3] = 4"
    by (simp add: file_size_def small_nodes small_node_def)
  ultimately show ?thesis
    using redoxfs_write_then_read [OF _ small_file_wf, of 0 "fs_on small_sectors small_header" 0 "[7, 8]" "[0, 0]"] by auto
qed

end
