(* ===== verification/Redoxfs_Directories.thy ===== *)
theory Redoxfs_Directories
  imports Redoxfs_Contents
begin

text \<open>
  Directories of RedoxFS: the data of a directory are whole sectors, each of them the node of a child. A
  directory is abstracted to the map from the names of its children to their nodes; \<open>find_node\<close> looks a
  name up in it, \<open>create_node\<close> adds a name, and both leave it alone when they fail.
\<close>

section \<open>The children of a directory\<close>

definition children :: "view \<Rightarrow> u64 list \<Rightarrow> u64 list" where
  "children V cs = free_of_extents (chain_extents V cs)"

lemma children_simps [simp]:
  "children V [] = []" "children V (c # cs) = free_of_extents (nd_extents (node_at V c)) @ children V cs"
  by (simp_all add: children_def free_of_extents_def)

lemma sectors_whole:
  "\<forall>e\<in>set es. extent_small e \<and> unat (ex_length e) mod 512 = 0 \<Longrightarrow> sectors_of_extents es = free_of_extents es"
  by (induction es) (simp_all add: extent_sectors_def free_sectors_def extent_small_def block_count_multiple)

lemma whole_blocks:
  assumes "extent_small e"
  shows "map fst (filter (\<lambda>(b, sz). sz \<ge> 512) (block_iter_items (extent_blocks e))) = free_sectors e"
proof -
  let ?n = "unat (ex_length e)" and ?it = "\<lambda>j. (ex_block e + of_nat j, min 512 (ex_length e - of_nat j * 512))"
  have cnt: "block_count (ex_length e) = (?n + 511) div 512"
    using assms by (simp add: extent_small_def block_count_eq)
  have split: "[0..<block_count (ex_length e)] = [0..<?n div 512] @ [?n div 512..<block_count (ex_length e)]"
    using upt_add_eq_append [of 0 "?n div 512" "block_count (ex_length e) - ?n div 512"] cnt by simp
  have room: "(512 \<le> min 512 (ex_length e - of_nat j * 512)) = (j < ?n div 512)" if "j < block_count (ex_length e)" for j
  proof -
    have "512 * j \<le> ?n"
      using that cnt by linarith
    then have j: "unat (of_nat j * 512 :: u64) = 512 * j"
      using unsigned_less [of "ex_length e", where ?'a = nat] by (simp add: unat_word_ariths mult.commute unat_of_nat)
    then have "unat (ex_length e - of_nat j * 512) = ?n - 512 * j"
      using \<open>512 * j \<le> ?n\<close> by (simp add: unat_sub word_le_nat_alt)
    then have "512 \<le> ex_length e - of_nat j * 512 \<longleftrightarrow> 512 \<le> ?n - 512 * j"
      by (simp add: word_le_nat_alt)
    then show ?thesis
      using \<open>512 * j \<le> ?n\<close> by auto
  qed
  have "filter (\<lambda>j. 512 \<le> min 512 (ex_length e - of_nat j * 512)) [0..<?n div 512] = [0..<?n div 512]"
    "filter (\<lambda>j. 512 \<le> min 512 (ex_length e - of_nat j * 512)) [?n div 512..<block_count (ex_length e)] = []"
    using room cnt by (auto intro!: filter_True simp: filter_empty_conv)
  then have "filter (\<lambda>j. 512 \<le> min 512 (ex_length e - of_nat j * 512)) [0..<block_count (ex_length e)] = [0..<?n div 512]"
    unfolding split by (simp only: filter_append append_Nil2)
  then show ?thesis
    by (simp add: block_iter_items_extent free_sectors_def sector_run_def filter_map comp_def)
qed

lemma node_whole_blocks:
  "\<forall>e\<in>set (nd_extents n). extent_small e \<Longrightarrow>
   map fst (filter (\<lambda>(b, sz). sz \<ge> 512) (node_blocks n)) = free_of_extents (nd_extents n)"
  by (simp add: node_blocks_def free_of_extents_def filter_concat map_concat comp_def whole_blocks cong: map_cong)

text \<open>The first child of a name.\<close>

definition dir_find :: "view \<Rightarrow> bytes \<Rightarrow> u64 list \<Rightarrow> u64 option" where
  "dir_find V name bs = List.find (\<lambda>b. node_name (node_at V b) = Some name) bs"

lemma dir_find_simps [simp]:
  "dir_find V name [] = None"
  "dir_find V name (b # bs) = (if node_name (node_at V b) = Some name then Some b else dir_find V name bs)"
  by (simp_all add: dir_find_def)

lemma dir_find_append:
  "dir_find V name (bs @ bs') = (case dir_find V name bs of Some b \<Rightarrow> Some b | None \<Rightarrow> dir_find V name bs')"
  by (induction bs) simp_all

definition entries :: "view \<Rightarrow> u64 list \<Rightarrow> bytes \<Rightarrow> (u64 \<times> node) option" where
  "entries V cs name = map_option (\<lambda>b. (b, node_at V b)) (dir_find V name (children V cs))"

definition found :: "(u64 \<times> node) option \<Rightarrow> (u64 \<times> node) result" where
  "found x = (case x of Some n \<Rightarrow> Ok n | None \<Rightarrow> Err (Error ENOENT))"

lemma found_simps [simp]: "found (Some n) = Ok n" "found None = Err (Error ENOENT)"
  by (simp_all add: found_def)

context sector_disk
begin

lemma find_child_spec:
  assumes "holds fs V N H" "set (map fst (filter (\<lambda>(b, sz). sz \<ge> 512) bs)) \<subseteq> N"
  shows "\<exists>fs'. find_child D name bs fs =
      (Ok (map_option (\<lambda>b. (b, node_at V b)) (dir_find V name (map fst (filter (\<lambda>(b, sz). sz \<ge> 512) bs)))), fs') \<and> holds fs' V N H"
  using assms
proof (induction bs arbitrary: fs)
  case (Cons x bs)
  obtain b sz where x: "x = (b, sz)"
    by fastforce
  show ?case
  proof (cases "sz \<ge> 512")
    case True
    then have "b \<in> N"
      using Cons.prems(2) x by auto
    then obtain fs1 where fs1: "fs_node D b fs = (Ok (b, node_at V b), fs1)" "holds fs1 V N H"
      using node_inside [OF Cons.prems(1)] by blast
    then show ?thesis
      using Cons.IH [OF fs1(2)] Cons.prems(2) True x by auto
  next
    case False
    then show ?thesis
      using Cons.IH [OF Cons.prems(1)] Cons.prems(2) x by simp
  qed
qed simp

lemma find_node_chain:
  assumes "holds fs V N H" "chain V b cs" "set cs \<subseteq> N" "set (children V cs) \<subseteq> N" "\<forall>e\<in>set (chain_extents V cs). extent_small e"
  shows "\<exists>fs'. fs_find_node D name b fs = Some (found (entries V cs name), fs') \<and> holds fs' V N H"
  using assms
proof (induction cs arbitrary: b fs)
  case Nil
  then show ?case
    by (subst fs_find_node.simps) (simp add: entries_def)
next
  case (Cons c cs)
  have c: "b = c" "c \<noteq> 0" "c \<in> N" "chain V (nd_next (node_at V c)) cs"
    using Cons.prems by simp_all
  obtain fs1 where fs1: "fs_node D c fs = (Ok (c, node_at V c), fs1)" "holds fs1 V N H"
    using node_inside [OF Cons.prems(1) c(3)] by blast
  have blocks: "map fst (filter (\<lambda>(b, sz). sz \<ge> 512) (node_blocks (node_at V c))) = free_of_extents (nd_extents (node_at V c))"
    using Cons.prems(5) by (intro node_whole_blocks) simp
  obtain fs2 where fs2: "find_child D name (node_blocks (node_at V c)) fs1 =
      (Ok (map_option (\<lambda>b. (b, node_at V b)) (dir_find V name (free_of_extents (nd_extents (node_at V c))))), fs2)" "holds fs2 V N H"
    using find_child_spec [OF fs1(2), of "node_blocks (node_at V c)" name] Cons.prems(4) unfolding blocks by auto
  have step: "fs_find_node D name b fs =
      (case dir_find V name (free_of_extents (nd_extents (node_at V c))) of
         Some x \<Rightarrow> Some (Ok (x, node_at V x), fs2) | None \<Rightarrow> fs_find_node D name (nd_next (node_at V c)) fs2)"
    using c fs1(1) fs2(1) by (subst fs_find_node.simps) (simp split: option.splits)
  show ?case
  proof (cases "dir_find V name (free_of_extents (nd_extents (node_at V c)))")
    case None
    then show ?thesis
      using step Cons.IH [OF fs2(2) c(4)] Cons.prems(3-5) by (simp add: entries_def dir_find_append)
  next
    case (Some x)
    then show ?thesis
      using step fs2(2) by (simp add: entries_def dir_find_append)
  qed
qed

lemma push_children_spec:
  assumes "holds fs V N H" "set (map fst (filter (\<lambda>(b, sz). sz \<ge> 512) bs)) \<subseteq> N"
  shows "\<exists>fs'. push_children D bs acc fs =
      (Ok (acc @ map (\<lambda>b. (b, node_at V b)) (map fst (filter (\<lambda>(b, sz). sz \<ge> 512) bs))), fs') \<and> holds fs' V N H"
  using assms
proof (induction bs arbitrary: acc fs)
  case (Cons x bs)
  obtain b sz where x: "x = (b, sz)"
    by fastforce
  show ?case
  proof (cases "sz \<ge> 512")
    case True
    then have "b \<in> N"
      using Cons.prems(2) x by auto
    then obtain fs1 where fs1: "fs_node D b fs = (Ok (b, node_at V b), fs1)" "holds fs1 V N H"
      using node_inside [OF Cons.prems(1)] by blast
    then show ?thesis
      using Cons.IH [OF fs1(2), of "acc @ [(b, node_at V b)]"] Cons.prems(2) True x by auto
  next
    case False
    then show ?thesis
      using Cons.IH [OF Cons.prems(1)] Cons.prems(2) x by simp
  qed
qed simp

lemma child_nodes_chain:
  assumes "holds fs V N H" "chain V b cs" "set cs \<subseteq> N" "set (children V cs) \<subseteq> N" "\<forall>e\<in>set (chain_extents V cs). extent_small e"
  shows "\<exists>fs'. fs_child_nodes D acc b fs = Some (Ok (acc @ map (\<lambda>b. (b, node_at V b)) (children V cs)), fs') \<and> holds fs' V N H"
  using assms
proof (induction cs arbitrary: b acc fs)
  case Nil
  then show ?case
    by (subst fs_child_nodes.simps) simp
next
  case (Cons c cs)
  have c: "b = c" "c \<noteq> 0" "c \<in> N" "chain V (nd_next (node_at V c)) cs"
    using Cons.prems by simp_all
  obtain fs1 where fs1: "fs_node D c fs = (Ok (c, node_at V c), fs1)" "holds fs1 V N H"
    using node_inside [OF Cons.prems(1) c(3)] by blast
  have blocks: "map fst (filter (\<lambda>(b, sz). sz \<ge> 512) (node_blocks (node_at V c))) = free_of_extents (nd_extents (node_at V c))"
    using Cons.prems(5) by (intro node_whole_blocks) simp
  obtain fs2 where fs2: "push_children D (node_blocks (node_at V c)) acc fs1 =
      (Ok (acc @ map (\<lambda>b. (b, node_at V b)) (free_of_extents (nd_extents (node_at V c)))), fs2)" "holds fs2 V N H"
    using push_children_spec [OF fs1(2), of "node_blocks (node_at V c)" acc] Cons.prems(4) unfolding blocks by auto
  have "fs_child_nodes D acc b fs =
      fs_child_nodes D (acc @ map (\<lambda>b. (b, node_at V b)) (free_of_extents (nd_extents (node_at V c)))) (nd_next (node_at V c)) fs2"
    using c fs1(1) fs2(1) by (subst fs_child_nodes.simps) simp
  then show ?case
    using Cons.IH [OF fs2(2) c(4), of "acc @ map (\<lambda>b. (b, node_at V b)) (free_of_extents (nd_extents (node_at V c)))"] Cons.prems(3-5)
    by simp
qed

end

section \<open>Directories as maps\<close>

text \<open>
  A directory: its sectors are laid out like those of a file, its data are whole sectors, and no two
  children have the same name.
\<close>

definition dir_wf :: "u64 set \<Rightarrow> view \<Rightarrow> u64 \<Rightarrow> u64 \<Rightarrow> u64 list \<Rightarrow> bool" where
  "dir_wf N V F b cs \<longleftrightarrow>
     file_wf N [] V F b cs \<and> (\<forall>e\<in>set (chain_extents V cs). unat (ex_length e) mod 512 = 0) \<and>
     (\<forall>x\<in>set (children V cs). \<forall>y\<in>set (children V cs).
        node_name (node_at V x) \<noteq> None \<longrightarrow> node_name (node_at V x) = node_name (node_at V y) \<longrightarrow> x = y)"

lemma dir_find_Some: "dir_find V name bs = Some b \<Longrightarrow> b \<in> set bs \<and> node_name (node_at V b) = Some name"
  by (induction bs) (auto split: if_splits)

lemma dir_find_None: "dir_find V name bs = None \<longleftrightarrow> (\<forall>b\<in>set bs. node_name (node_at V b) \<noteq> Some name)"
  by (induction bs) auto

lemma entries_None: "entries V cs name = None \<longleftrightarrow> (\<forall>x\<in>set (children V cs). node_name (node_at V x) \<noteq> Some name)"
  by (simp add: entries_def dir_find_None)

lemma entries_Some:
  assumes "dir_wf N V F b cs"
  shows "entries V cs name = Some (x, n) \<longleftrightarrow> x \<in> set (children V cs) \<and> node_name (node_at V x) = Some name \<and> n = node_at V x"
proof (cases "dir_find V name (children V cs)")
  case None
  then have "entries V cs name = None" "\<forall>b\<in>set (children V cs). node_name (node_at V b) \<noteq> Some name"
    by (simp_all add: entries_def dir_find_None [symmetric])
  then show ?thesis
    by auto
next
  case (Some y)
  then have y: "y \<in> set (children V cs)" "node_name (node_at V y) = Some name"
    by (auto dest: dir_find_Some)
  then have "x = y" if "x \<in> set (children V cs)" "node_name (node_at V x) = Some name"
    using assms that unfolding dir_wf_def by (metis option.distinct(1))
  then show ?thesis
    using Some y by (auto simp: entries_def)
qed

lemma dir_wf_children: "dir_wf N V F b cs \<Longrightarrow> sectors_of_extents (chain_extents V cs) = children V cs"
  by (auto simp: dir_wf_def file_wf_def children_def intro: sectors_whole)

lemma dir_wf_inside:
  assumes "dir_wf N V F b cs"
  shows "chain V b cs" "set cs \<subseteq> N" "set (children V cs) \<subseteq> N" "F \<in> N" "\<forall>e\<in>set (chain_extents V cs). extent_small e"
    "set (children V cs) \<inter> insert F (set cs \<union> set (free_of_extents (nd_extents (node_at V F)))) = {}"
  using assms dir_wf_children [OF assms] by (auto simp: dir_wf_def file_wf_def layout_def)

text \<open>Entries depend on the children as a set, and on their nodes.\<close>

lemma entries_cong:
  assumes "dir_wf N V F b cs" "dir_wf N V' F b cs'" "set (children V' cs') = set (children V cs)"
    and "\<forall>x\<in>set (children V cs). V' x = V x"
  shows "entries V' cs' = entries V cs"
proof
  fix name
  show "entries V' cs' name = entries V cs name"
  proof (cases "entries V cs name")
    case None
    then have "entries V' cs' name = None"
      using assms(3,4) by (simp add: entries_None)
    then show ?thesis
      using None by simp
  next
    case (Some p)
    obtain x n where p: "p = (x, n)"
      by fastforce
    then have "x \<in> set (children V cs) \<and> node_name (node_at V x) = Some name \<and> n = node_at V x"
      using Some entries_Some [OF assms(1)] by simp
    then have "entries V' cs' name = Some (x, n)"
      using entries_Some [OF assms(2)] assms(3,4) by simp
    then show ?thesis
      using Some p by simp
  qed
qed

lemma entries_insert:
  assumes "dir_wf N V F b cs" "dir_wf N V' F b cs'" "set (children V' cs') = insert x (set (children V cs))"
    and "\<forall>y\<in>set (children V cs). V' y = V y" "x \<notin> set (children V cs)" "node_name (node_at V' x) = Some name"
  shows "entries V' cs' = (entries V cs)(name \<mapsto> (x, node_at V' x))"
proof
  fix m
  show "entries V' cs' m = ((entries V cs)(name \<mapsto> (x, node_at V' x))) m"
  proof (cases "m = name")
    case True
    then show ?thesis
      using entries_Some [OF assms(2), of name x "node_at V' x"] assms(3,6) by simp
  next
    case False
    show ?thesis
    proof (cases "entries V cs m")
      case None
      then have "entries V' cs' m = None"
        using assms(3,4,6) False by (auto simp: entries_None)
      then show ?thesis
        using None False by simp
    next
      case (Some p)
      obtain y n where p: "p = (y, n)"
        by fastforce
      then have "y \<in> set (children V cs) \<and> node_name (node_at V y) = Some m \<and> n = node_at V y"
        using Some entries_Some [OF assms(1)] by simp
      then have "entries V' cs' m = Some (y, n)"
        using entries_Some [OF assms(2)] assms(3,4) by simp
      then show ?thesis
        using Some p False by simp
    qed
  qed
qed

section \<open>Creating a node\<close>

text \<open>A name that fits into a node.\<close>

definition good_name :: "bytes \<Rightarrow> bool" where
  "good_name name \<longleftrightarrow> length name \<le> 246 \<and> 0 \<notin> set name \<and> valid_utf8 name"

lemma new_node_name: "good_name name \<Longrightarrow> node_name (node_new mode name parent) = Some name"
  by (auto simp: good_name_def node_name_def node_new_def copy_into_eq takeWhile_append takeWhile_replicate)

text \<open>The child that has been allocated and written is inserted into the directory.\<close>

lemma dir_wf_grew:
  assumes old: "dir_wf N V F b cs" and wf: "file_wf N [x] W F b cs" "file_wf N [] V' F b cs'"
    and grew: "file_grew W F cs x 512 V' cs'" and ce: "chain_extents W cs = chain_extents V cs"
    and same: "\<forall>y\<in>set (children V cs). W y = V y"
    and name: "node_name (node_at W x) = Some name" "entries V cs name = None"
  shows "dir_wf N V' F b cs' \<and> entries V' cs' = (entries V cs)(name \<mapsto> (x, node_at W x))"
proof -
  have data: "sectors_of_extents (chain_extents W cs) = children V cs"
    using dir_wf_children [OF old] by (simp add: ce)
  have whole: "\<forall>e\<in>set (chain_extents V' cs'). unat (ex_length e) mod 512 = 0"
    using grew old by (simp add: file_grew_def ce dir_wf_def)
  then have "sectors_of_extents (chain_extents V' cs') = children V' cs'"
    using wf(2) by (auto simp: file_wf_def children_def intro: sectors_whole)
  moreover have "block_count 512 = 1"
    by (simp add: block_count_eq)
  ultimately have "mset (children V' cs') = mset (x # children V cs)"
    using grew by (simp add: file_grew_def data)
  then have ch: "set (children V' cs') = insert x (set (children V cs))"
    using mset_eq_setD [of "children V' cs'" "x # children V cs"] by simp
  have "\<forall>y\<in>insert x (set (children V cs)). V' y = W y"
  proof
    fix y
    assume "y \<in> insert x (set (children V cs))"
    then have "y \<notin> insert F (set cs \<union> set (free_of_extents (nd_extents (node_at W F))))"
      using wf(1) by (auto simp: file_wf_def layout_def data)
    then show "V' y = W y"
      using grew by (auto simp: file_grew_def)
  qed
  then have keep: "\<forall>y\<in>set (children V cs). V' y = V y" "V' x = W x"
    using same by simp_all
  have fresh: "x \<notin> set (children V cs)"
    using wf(1) by (auto simp: file_wf_def layout_def data)
  have new: "\<forall>y\<in>set (children V cs). node_name (node_at V y) \<noteq> Some name"
    using name(2) by (simp add: entries_None)
  have old_unique: "y = z" if "y \<in> set (children V cs)" "z \<in> set (children V cs)" "node_name (node_at V y) \<noteq> None"
      "node_name (node_at V y) = node_name (node_at V z)" for y z
  proof -
    have "\<forall>x\<in>set (children V cs). \<forall>y\<in>set (children V cs).
        node_name (node_at V x) \<noteq> None \<longrightarrow> node_name (node_at V x) = node_name (node_at V y) \<longrightarrow> x = y"
      using old unfolding dir_wf_def by (elim conjE)
    then show ?thesis
      using that by metis
  qed
  have "dir_wf N V' F b cs'"
    unfolding dir_wf_def
  proof (intro conjI ballI impI)
    show "file_wf N [] V' F b cs'"
      by (fact wf(2))
    show "unat (ex_length e) mod 512 = 0" if "e \<in> set (chain_extents V' cs')" for e
      using whole that by blast
    show "y = z" if "y \<in> set (children V' cs')" "z \<in> set (children V' cs')" "node_name (node_at V' y) \<noteq> None"
        "node_name (node_at V' y) = node_name (node_at V' z)" for y z
    proof (cases "y = x \<or> z = x")
      case True
      then show ?thesis
        using that keep new name(1) unfolding ch by (metis insertE)
    next
      case False
      then show ?thesis
        using that keep(1) old_unique [of y z] unfolding ch by simp
    qed
  qed
  then show ?thesis
    using entries_insert [OF old _ ch keep(1) fresh] keep(2) name(1) by simp
qed

context sector_disk
begin

lemma create_in_dir:
  assumes h: "holds fs V N H" and wf: "dir_wf N V (hd_free H) b cs" and b: "b \<noteq> 0" and name: "good_name name"
  shows "\<exists>r fs' V' cs'. fs_create_node D mode name b fs = Some (r, fs') \<and> holds fs' V' N H \<and> dir_wf N V' (hd_free H) b cs' \<and>
    same_owner (node_at V' b) (node_at V b) \<and>
    (r = Err (Error EEXIST) \<and> entries V cs name \<noteq> None \<and> V' = V \<and> cs' = cs \<or>
     r = Err (Error ENOSPC) \<and> entries V cs name = None \<and> entries V' cs' = entries V cs \<and>
       length (free_of_extents (nd_extents (node_at V (hd_free H)))) \<le> 1 \<or>
     (\<exists>x. r = Ok (x, node_new mode name b) \<and> entries V cs name = None \<and>
       x \<in> set (free_of_extents (nd_extents (node_at V (hd_free H)))) \<and>
       entries V' cs' = (entries V cs)(name \<mapsto> (x, node_new mode name b))))"
proof -
  note inside = dir_wf_inside [OF wf]
  obtain fs1 where fs1: "fs_find_node D name b fs = Some (found (entries V cs name), fs1)" "holds fs1 V N H"
    using find_node_chain [OF h inside(1-3,5)] by blast
  show ?thesis
  proof (cases "entries V cs name")
    case (Some p)
    then have "fs_create_node D mode name b fs = Some (Err (Error EEXIST), fs1)"
      using fs1(1) by (simp add: fs_create_node_def)
    then show ?thesis
      using fs1(2) wf Some same_owner_simps(1) by blast
  next
    case none: None
    let ?n = "node_new mode name b"
    have step: "fs_create_node D mode name b fs =
        try_rec (fs_allocate D 1 fs1) (\<lambda>block fs.
          try_rec (fs_write_at D block (encode_node ?n) fs) (\<lambda>_ fs.
            try_opt (fs_insert_blocks D block 512 b fs) (\<lambda>_ fs. Some (Ok (block, ?n), fs))))"
      using fs1(1) none by (simp add: fs_create_node_def Let_def)
    show ?thesis
    proof (cases "take_sectors 1 (nd_extents (node_at V (hd_free H)))")
      case None
      then obtain fs2 where "fs_allocate D 1 fs1 = (Err (Error ENOSPC), fs2)" "holds fs2 V N H"
        using allocate_inside(2) [OF fs1(2) inside(4)] by blast
      then show ?thesis
        using step wf none take_sectors_none [OF None] by (intro exI [of _ "Err (Error ENOSPC)"] exI [of _ fs2] exI [of _ V] exI [of _ cs]) simp
    next
      case (Some a)
      then obtain x es where t: "take_sectors 1 (nd_extents (node_at V (hd_free H))) = Some (x, es)"
        by (cases a) auto
      define A where "A = V(hd_free H := encode_node ((node_at V (hd_free H))\<lparr>nd_extents := es\<rparr>))"
      define W where "W = A(x := encode_node ?n)"
      obtain fs2 where fs2: "fs_allocate D 1 fs1 = (Ok x, fs2)" "holds fs2 A N H"
        using allocate_inside(1) [OF fs1(2) inside(4) t] unfolding A_def by blast
      have wfa: "file_wf N [x] A (hd_free H) b cs" and cea: "chain_extents A cs = chain_extents V cs"
        using file_wf_allocate [of N "[]" V "hd_free H" b cs, OF _ sector_size [OF fs1(2) inside(4)] t] wf
        by (simp_all add: dir_wf_def A_def)
      then have x: "x \<in> N" "x \<notin> insert (hd_free H) (set cs)"
        by (auto simp: file_wf_def layout_def)
      then have "\<forall>c\<in>insert (hd_free H) (set cs). W c = A c"
        by (auto simp: W_def)
      then have wfW: "file_wf N [x] W (hd_free H) b cs" "chain_extents W cs = chain_extents V cs"
        using file_wf_frame [OF wfa, of W] cea by simp_all
      obtain fs3 where fs3: "fs_write_at D x (encode_node ?n) fs2 = (Ok 512, fs3)" "holds fs3 W N H"
        using write_inside_at [OF fs2(2) x(1), of "encode_node ?n"] by (auto simp: W_def)
      have free: "mset (free_of_extents (nd_extents (node_at V (hd_free H)))) = mset (x # free_of_extents es)" "length es = 15"
        using take_sectors_spec [OF t] node_wf_intros(3) [OF sector_size [OF h inside(4)]] by (simp_all add: node_wf_def)
      have same: "\<forall>y\<in>set (children V cs). W y = V y"
      proof
        fix y
        assume "y \<in> set (children V cs)"
        then have "y \<notin> insert (hd_free H) (set (free_of_extents (nd_extents (node_at V (hd_free H)))))"
          using inside(6) by blast
        then show "W y = V y"
          using mset_eq_setD [OF free(1)] by (auto simp: W_def A_def)
      qed
      have atb: "W b = V b"
        using x(2) inside(1) b wf by (cases cs) (auto simp: W_def A_def dir_wf_def file_wf_def layout_def)
      have nm: "node_at W x = ?n" "node_name ?n = Some name"
        using new_node_name [OF name] by (simp_all add: W_def)
      obtain ys where cs: "cs = b # ys"
        using inside(1) b by (cases cs) auto
      have "block_count 512 = 1"
        by (simp add: block_count_eq)
      then obtain r fs' V' cs' where ins: "fs_insert_blocks D x 512 b fs3 = Some (r, fs')" "holds fs' V' N H"
          "file_wf N [] V' (hd_free H) b cs'"
          "r = Ok () \<and> file_grew W (hd_free H) cs x 512 V' cs' \<or>
           r = Err (Error ENOSPC) \<and> V' = W \<and> cs' = cs \<and> free_of_extents (nd_extents (node_at W (hd_free H))) = []"
        using insert_blocks_spec [OF fs3(2), of x 512 "[]" b "[]" b ys] wfW(1) cs by auto
      from ins(4) show ?thesis
      proof (elim disjE conjE)
        assume "r = Ok ()" and grew: "file_grew W (hd_free H) cs x 512 V' cs'"
        then have "fs_create_node D mode name b fs = Some (Ok (x, ?n), fs')"
          using step fs2(1) fs3(1) ins(1) by simp
        moreover have "x \<in> set (free_of_extents (nd_extents (node_at V (hd_free H))))"
          using mset_eq_setD [OF free(1)] by simp
        moreover have "same_owner (node_at V' b) (node_at V b)"
          using grew cs atb by (simp add: file_grew_def)
        ultimately show ?thesis
          using dir_wf_grew [OF wf wfW(1) ins(3) grew wfW(2) same _ none] nm ins(2) none by auto
      next
        assume err: "r = Err (Error ENOSPC)" "V' = W" "cs' = cs" "free_of_extents (nd_extents (node_at W (hd_free H))) = []"
        have "children W cs = children V cs"
          by (simp add: children_def wfW(2))
        then have wf': "dir_wf N W (hd_free H) b cs"
          using wf ins(3) err(2,3) same by (auto simp: dir_wf_def wfW(2))
        have "node_at W (hd_free H) = (node_at V (hd_free H))\<lparr>nd_extents := es\<rparr>"
          using x(2) free(2) node_wf_intros(3) [OF sector_size [OF h inside(4)]] by (auto simp: W_def A_def node_wf_def)
        then have "length (free_of_extents (nd_extents (node_at V (hd_free H)))) \<le> 1"
          using err(4) arg_cong [OF free(1), of size] by simp
        moreover have "entries W cs = entries V cs"
          using entries_cong [OF wf wf' _ same] \<open>children W cs = children V cs\<close> by simp
        moreover have "fs_create_node D mode name b fs = Some (Err (Error ENOSPC), fs')"
          using step fs2(1) fs3(1) ins(1) err(1) by simp
        ultimately show ?thesis
          using ins(2) wf' none err(2) atb by (intro exI [of _ "Err (Error ENOSPC)"] exI [of _ fs'] exI [of _ W] exI [of _ cs]) simp
      qed
    qed
  qed
qed

end

section \<open>Directories on the live disk\<close>

lemma live_find_node:
  assumes "live_fs i fs V N H" "dir_wf N V F b cs"
  shows "\<exists>fs'. fs_find_node (live_image i) name b fs = Some (found (entries V cs name), fs') \<and> live_fs i fs' V N H"
  using live.image.find_node_chain [OF assms(1) [unfolded live_fs_def]] dir_wf_inside [OF assms(2)]
  unfolding live_fs_def live_image_def by blast


text \<open>A file system of six sectors: the root directory has one child, and two sectors are free.\<close>

definition dir_root :: node where
  "dir_root = (node_new (NODE_DIR OR 0x1ED) (bytes_of ''root'') 0)\<lparr>nd_extents := \<lparr>ex_block = 3, ex_length = 512\<rparr> # replicate 14 extent_default\<rparr>"

definition dir_sectors :: "bytes list" where
  "dir_sectors =
     [encode_header small_header, encode_node dir_root,
      encode_node (small_node (bytes_of ''free'') \<lparr>ex_block = 4, ex_length = 1024\<rparr>),
      encode_node (node_new NODE_FILE (bytes_of ''a'') 1), replicate 512 0, replicate 512 0]"

lemma dir_root_wf [simp]: "node_wf dir_root"
  using node_wf_intros(2) [of "NODE_DIR OR 0x1ED" "bytes_of ''root''" 0] by (simp add: dir_root_def node_wf_def)

lemma dir_sectors_length: "\<forall>s\<in>set dir_sectors. length s = 512" "length dir_sectors = 6"
  by (simp_all add: dir_sectors_def small_header_def)

lemma dir_nodes:
  "node_at (view_on dir_sectors) 1 = dir_root"
  "node_at (view_on dir_sectors) 2 = small_node (bytes_of ''free'') \<lparr>ex_block = 4, ex_length = 1024\<rparr>"
  "node_at (view_on dir_sectors) 3 = node_new NODE_FILE (bytes_of ''a'') 1"
  using view_on_nth [OF dir_sectors_length(1), of 1] view_on_nth [OF dir_sectors_length(1), of 2]
    view_on_nth [OF dir_sectors_length(1), of 3] dir_sectors_length(2)
  by (simp_all add: dir_sectors_def)

lemma sector_run_two: "sector_run b 2 = [b, b + 1]"
  by (simp add: numeral_2_eq_2 sector_run_Suc)

lemma live_fs_dir: "live_fs 0 (fs_on dir_sectors small_header) (view_on dir_sectors) {b. unat b < 6} small_header"
  using live_fs_on [OF dir_sectors_length(1)] dir_sectors_length(2) by simp

lemma small_dir_wf: "dir_wf {b. unat b < 6} (view_on dir_sectors) (hd_free small_header) 1 [1]"
proof -
  have ce: "chain_extents (view_on dir_sectors) [1] = \<lparr>ex_block = 3, ex_length = 512\<rparr> # replicate 14 extent_default"
    by (simp add: dir_nodes dir_root_def)
  moreover have "layout (view_on dir_sectors) 2 [1] = [1, 2, 3, 4, 5]"
    by (simp add: layout_def dir_nodes dir_root_def small_node_def extent_sectors_def free_sectors_def block_count_eq sector_run_two)
  moreover have "chain (view_on dir_sectors) 1 [1]"
    by (simp add: dir_nodes dir_root_def node_new_def)
  moreover have "hd_free small_header = 2"
    by (simp add: small_header_def header_new_def)
  ultimately have "file_wf {b. unat b < 6} [] (view_on dir_sectors) (hd_free small_header) 1 [1]"
    by (simp add: file_wf_def extent_small_def del: chain_extents_simps chain.simps)
  moreover have "children (view_on dir_sectors) [1] = [3]"
    unfolding children_def ce by (simp add: free_sectors_def)
  ultimately show ?thesis
    by (simp add: dir_wf_def ce del: chain_extents_simps children_simps)
qed

lemma dir_entries_small:
  "entries (view_on dir_sectors) [1] (bytes_of ''a'') = Some (3, node_new NODE_FILE (bytes_of ''a'') 1)"
  "entries (view_on dir_sectors) [1] (bytes_of ''b'') = None"
proof -
  have ch: "children (view_on dir_sectors) [1] = [3]"
    by (simp add: dir_nodes dir_root_def free_sectors_def)
  have nm: "node_name (node_at (view_on dir_sectors) 3) = Some (bytes_of ''a'')"
    unfolding dir_nodes by (rule new_node_name) (simp add: good_name_def bytes_of_def)
  have "bytes_of ''a'' \<noteq> bytes_of ''b''"
    by (simp add: bytes_of_def)
  then show "entries (view_on dir_sectors) [1] (bytes_of ''a'') = Some (3, node_new NODE_FILE (bytes_of ''a'') 1)"
    "entries (view_on dir_sectors) [1] (bytes_of ''b'') = None"
    unfolding entries_def ch using nm by (simp_all add: dir_nodes(3))
qed


end
