(* ===== verification/Redoxfs_Removal.thy ===== *)
theory Redoxfs_Removal
  imports Redoxfs_Directories
begin

text \<open>
  Removing a child of a RedoxFS directory: \<open>remove_blocks\<close> cuts the child's sector out of the extents of
  the directory, which may split one of them, and returns the sector to the free list; \<open>remove_node\<close> then
  clears it. The directory, seen as a map, loses the name and nothing else.
\<close>

section \<open>Cutting a sector out of extents\<close>

lemma run_end:
  assumes "- 1 \<notin> set (sector_run b n)" "0 < n" "n \<le> 2 ^ 64"
  shows "unat b + n < 2 ^ 64"
proof (rule ccontr)
  assume "\<not> unat b + n < 2 ^ 64"
  then have k: "2 ^ 64 - 1 - unat b < n"
    using assms(2) unsigned_less [of b, where ?'a = nat] by simp
  have "unat (- 1 :: u64) = 2 ^ 64 - 1"
    by (simp add: unsigned_minus_1_eq_mask mask_eq_exp_minus_1)
  then have "unat (- 1 - b) = 2 ^ 64 - 1 - unat b"
    by (simp add: unat_sub)
  then show False
    using assms(1,3) k by (simp add: set_sector_run)
qed

lemma run_member:
  assumes "unat b + n < 2 ^ 64"
  shows "x \<in> set (sector_run b n) \<longleftrightarrow> unat b \<le> unat x \<and> unat x < unat b + n"
proof (cases "unat b \<le> unat x")
  case True
  then have "unat (x - b) = unat x - unat b"
    by (simp add: unat_sub word_le_nat_alt)
  then show ?thesis
    using assms True by (auto simp: set_sector_run)
next
  case False
  then have "unat (x - b) = unat x + 2 ^ 64 - unat b"
    by (simp add: unat_sub_if')
  then show ?thesis
    using assms False by (auto simp: set_sector_run)
qed

lemma whole_extent:
  assumes "512 * unat w + 511 < 2 ^ 64"
  shows "extent_sectors (extent_new b (w * 512)) = sector_run b (unat w)" "extent_small (extent_new b (w * 512))"
    "unat (ex_length (extent_new b (w * 512))) mod 512 = 0" "ex_length (extent_new b (w * 512)) > 0 \<longleftrightarrow> 0 < unat w"
proof -
  have w: "unat (w * 512) = 512 * unat w"
    using assms by (simp add: unat_word_ariths)
  then show "extent_small (extent_new b (w * 512))" "unat (ex_length (extent_new b (w * 512))) mod 512 = 0"
    "ex_length (extent_new b (w * 512)) > 0 \<longleftrightarrow> 0 < unat w"
    using assms by (simp_all add: extent_small_def extent_new_def word_gt_0 word_unat_eq_iff)
  show "extent_sectors (extent_new b (w * 512)) = sector_run b (unat w)"
    using w assms by (simp add: extent_sectors_def extent_new_def block_count_multiple)
qed

text \<open>An extent of whole sectors that does not wrap around.\<close>

definition extent_whole :: "extent \<Rightarrow> bool" where
  "extent_whole e \<longleftrightarrow> extent_small e \<and> unat (ex_length e) mod 512 = 0"

lemma cut_extent:
  assumes e: "extent_whole e" "- 1 \<notin> set (extent_sectors e)" and x: "x \<noteq> - 1"
  shows "(x \<ge> ex_block e \<and> x + 1 \<le> ex_block e + ex_length e div 512) \<longleftrightarrow> x \<in> set (extent_sectors e)"
    and "x \<in> set (extent_sectors e) \<Longrightarrow>
      let l = extent_new (ex_block e) ((x - ex_block e) * 512);
          r = extent_new (x + 1) (((ex_block e + ex_length e div 512) - (x + 1)) * 512)
      in extent_sectors e = extent_sectors l @ x # extent_sectors r \<and> extent_whole l \<and> extent_whole r \<and>
         (ex_length l > 0 \<longleftrightarrow> extent_sectors l \<noteq> []) \<and> (ex_length r > 0 \<longleftrightarrow> extent_sectors r \<noteq> [])"
proof -
  let ?b = "ex_block e" and ?n = "unat (ex_length e) div 512"
  have small: "512 * ?n + 511 < 2 ^ 64" and run: "extent_sectors e = sector_run ?b ?n"
    using e(1) by (auto simp: extent_whole_def extent_small_def extent_sectors_def block_count_multiple)
  have x1: "unat (x + 1) = Suc (unat x)"
  proof -
    have "1 + x \<noteq> 0"
      using x minus_unique [of 1 x] by blast
    then have "unat (1 + x) = Suc (unat x)"
      by (rule unatSuc)
    then show ?thesis
      by (simp add: add.commute)
  qed
  have ends: "unat ?b + ?n < 2 ^ 64" if "0 < ?n"
    using run_end [of ?b ?n] e(2) that small unfolding run by simp
  have sum: "unat (?b + ex_length e div 512) = unat ?b + ?n" if "0 < ?n"
    using ends [OF that] by (simp add: unat_add_usize unat_div_512)
  show "(x \<ge> ?b \<and> x + 1 \<le> ?b + ex_length e div 512) \<longleftrightarrow> x \<in> set (extent_sectors e)"
  proof (cases "0 < ?n")
    case True
    have "x \<in> set (extent_sectors e) \<longleftrightarrow> unat ?b \<le> unat x \<and> unat x < unat ?b + ?n"
      unfolding run by (rule run_member [OF ends [OF True]])
    then show ?thesis
      unfolding word_le_nat_alt x1 sum [OF True] Suc_le_eq by (rule sym)
  next
    case False
    then have "ex_length e div 512 = 0"
      by (simp add: word_unat_eq_iff unat_div_512 del: unat_eq_zero)
    then show ?thesis
      using False x1 by (simp add: run word_le_nat_alt)
  qed
  assume mem: "x \<in> set (extent_sectors e)"
  then have pos: "0 < ?n"
    unfolding run by (cases ?n) auto
  then have in_run: "unat ?b \<le> unat x" "unat x < unat ?b + ?n"
    using mem run_member [OF ends [OF pos]] unfolding run by blast+
  have l: "unat (x - ?b) = unat x - unat ?b"
    using in_run by (simp add: unat_sub word_le_nat_alt)
  have r: "unat (?b + ex_length e div 512 - (x + 1)) = unat ?b + ?n - Suc (unat x)"
    using in_run sum [OF pos] x1 by (simp add: unat_sub word_le_nat_alt)
  have "?n = (unat x - unat ?b) + Suc (unat ?b + ?n - Suc (unat x))"
    using in_run by simp
  then have "sector_run ?b ?n = sector_run ?b (unat x - unat ?b) @ sector_run (?b + of_nat (unat x - unat ?b)) (Suc (unat ?b + ?n - Suc (unat x)))"
    using sector_run_add by metis
  moreover have "?b + of_nat (unat x - unat ?b) = x"
    using l of_nat_unat_word [of "x - ?b"] by simp
  ultimately have split: "sector_run ?b ?n = sector_run ?b (unat (x - ?b)) @ x # sector_run (x + 1) (unat (?b + ex_length e div 512 - (x + 1)))"
    unfolding l r by (simp add: sector_run_Suc)
  have bounds: "512 * unat (x - ?b) + 511 < 2 ^ 64" "512 * unat (?b + ex_length e div 512 - (x + 1)) + 511 < 2 ^ 64"
    using in_run small unfolding l r by linarith+
  note w = whole_extent [OF bounds(1), of ?b] whole_extent [OF bounds(2), of "x + 1"]
  have nonempty: "0 < k \<longleftrightarrow> sector_run b k \<noteq> []" for b k
    by (cases k) (simp_all add: sector_run_Suc)
  show "let l = extent_new ?b ((x - ?b) * 512); r = extent_new (x + 1) (((?b + ex_length e div 512) - (x + 1)) * 512)
      in extent_sectors e = extent_sectors l @ x # extent_sectors r \<and> extent_whole l \<and> extent_whole r \<and>
         (ex_length l > 0 \<longleftrightarrow> extent_sectors l \<noteq> []) \<and> (ex_length r > 0 \<longleftrightarrow> extent_sectors r \<noteq> [])"
    unfolding Let_def w(1,5) w(4,8) run extent_whole_def using w(2,3,6,7) split nonempty by blast
qed

lemma default_whole [simp]: "extent_whole extent_default" "extent_sectors extent_default = []"
  by (simp_all add: extent_whole_def extent_small_def extent_sectors_def)

abbreviation opt_list :: "'a option \<Rightarrow> 'a list" where
  "opt_list x \<equiv> (case x of None \<Rightarrow> [] | Some y \<Rightarrow> [y])"

lemma cut_blocks_None:
  assumes "cut_blocks x 1 es = None" "\<forall>e\<in>set es. extent_whole e \<and> - 1 \<notin> set (extent_sectors e)" "x \<noteq> - 1"
  shows "x \<notin> set (sectors_of_extents es)"
  using assms
proof (induction es)
  case (Cons e es)
  have "\<not> (x \<ge> ex_block e \<and> x + 1 \<le> ex_block e + ex_length e div 512)" "cut_blocks x 1 es = None"
    using Cons.prems(1) by (auto simp: Let_def split: if_splits)
  then show ?case
    using cut_extent(1) [of e x] Cons by simp
qed simp

lemma cut_blocks_Some:
  assumes "cut_blocks x 1 es = Some (es', rep)" "\<forall>e\<in>set es. extent_whole e \<and> - 1 \<notin> set (extent_sectors e)" "x \<noteq> - 1"
  shows "mset (sectors_of_extents es) = add_mset x (mset (sectors_of_extents es') + mset (sectors_of_extents (opt_list rep))) \<and>
    length es' = length es \<and> (\<forall>e\<in>set es' \<union> set (opt_list rep). extent_whole e)"
  using assms
proof (induction es arbitrary: es')
  case (Cons e es)
  let ?l = "extent_new (ex_block e) ((x - ex_block e) * 512)"
    and ?r = "extent_new (x + 1) (((ex_block e + ex_length e div 512) - (x + 1)) * 512)"
  show ?case
  proof (cases "x \<ge> ex_block e \<and> x + 1 \<le> ex_block e + ex_length e div 512")
    case True
    then have "x \<in> set (extent_sectors e)"
      using cut_extent(1) [of e x] Cons.prems(2,3) by simp
    then have cut: "extent_sectors e = extent_sectors ?l @ x # extent_sectors ?r" "extent_whole ?l" "extent_whole ?r"
        "ex_length ?l > 0 \<longleftrightarrow> extent_sectors ?l \<noteq> []" "ex_length ?r > 0 \<longleftrightarrow> extent_sectors ?r \<noteq> []"
      using cut_extent(2) [of e x] Cons.prems(2,3) by (simp_all add: Let_def)
    have res: "(es', rep) = (if ex_length ?l > 0 then (?l # es, if ex_length ?r > 0 then Some ?r else None)
        else if ex_length ?r > 0 then (?r # es, None) else (extent_default # es, None))"
      using Cons.prems(1) True by (auto simp: Let_def split: if_splits)
    show ?thesis
      using res cut Cons.prems(2) by (auto split: if_splits)
  next
    case False
    then obtain es'' where "cut_blocks x 1 es = Some (es'', rep)" "es' = e # es''"
      using Cons.prems(1) by auto
    then show ?thesis
      using Cons.IH Cons.prems(2,3) by (auto simp: ac_simps)
  qed
qed simp

section \<open>Returning a sector to the free list\<close>

lemma place_blocks_spare: "\<exists>e\<in>set es. ex_length e = 0 \<Longrightarrow> place_blocks x len es \<noteq> None"
  by (induction es) auto

lemma place_blocks_free:
  assumes "place_blocks x 512 es = Some es'" "\<forall>e\<in>set es. unat (ex_length e) + 512 < 2 ^ 64"
  shows "mset (free_of_extents es') = add_mset x (mset (free_of_extents es)) \<and> length es' = length es"
  using assms
proof (induction es arbitrary: es')
  case (Cons e es)
  let ?n = "unat (ex_length e) div 512"
  have "unat (ex_length e + 512) div 512 = Suc ?n"
    using Cons.prems(2) by (simp add: unat_add_usize)
  then have more: "free_sectors (e\<lparr>ex_length := ex_length e + 512\<rparr>) = free_sectors e @ [ex_block e + of_nat ?n]"
    "free_sectors (e\<lparr>ex_block := x, ex_length := ex_length e + 512\<rparr>) = x # sector_run (x + 1) ?n"
    using sector_run_add [of "ex_block e" ?n 1] by (simp_all add: free_sectors_def sector_run_Suc)
  consider (empty) "ex_length e = 0" | (front) "ex_length e \<noteq> 0" "ex_block e = x + 1"
    | (behind) "ex_length e \<noteq> 0" "ex_block e \<noteq> x + 1" "ex_length e mod 512 = 0" "ex_block e + ex_length e div 512 = x"
    | (later) es'' where "place_blocks x 512 es = Some es''" "es' = e # es''"
    using Cons.prems(1) by (auto split: if_splits)
  then show ?case
  proof cases
    case empty
    then show ?thesis
      using Cons.prems(1) by (auto simp: free_sectors_def)
  next
    case front
    then have "es' = e\<lparr>ex_block := x, ex_length := ex_length e + 512\<rparr> # es"
      using Cons.prems(1) by simp
    then show ?thesis
      using front more(2) by (simp add: free_sectors_def)
  next
    case behind
    then have "es' = e\<lparr>ex_length := ex_length e + 512\<rparr> # es"
      using Cons.prems(1) by simp
    then show ?thesis
      using behind(4) more(1) by (simp add: of_nat_div_512)
  next
    case later
    then show ?thesis
      using Cons by simp
  qed
qed simp

lemma free_room:
  assumes wf: "file_wf N P V F b cs" and N: "finite N" "card N < 2 ^ 54" and e: "e \<in> set (nd_extents (node_at V F))"
  shows "unat (ex_length e) + 512 < 2 ^ 64"
proof -
  have "length (free_sectors e) \<le> length (free_of_extents (nd_extents (node_at V F)))"
    using e by (auto simp: free_of_extents_def dest!: split_list)
  moreover have "length (free_of_extents (nd_extents (node_at V F))) \<le> card N"
    using wf N(1) card_mono [of N "set (free_of_extents (nd_extents (node_at V F)))"]
      distinct_card [of "free_of_extents (nd_extents (node_at V F))"] by (auto simp: file_wf_def layout_def)
  ultimately have "unat (ex_length e) div 512 < 2 ^ 54"
    using N(2) by (simp add: free_sectors_def)
  then show ?thesis
    by simp
qed

lemma file_wf_deallocate:
  assumes wf: "file_wf N (x # P) V F b cs" and len: "length (V F) = 512" and N: "finite N" "card N < 2 ^ 54"
    and es: "place_blocks x 512 (nd_extents (node_at V F)) = Some es"
  shows "file_wf N P (V(F := encode_node ((node_at V F)\<lparr>nd_extents := es\<rparr>))) F b cs"
    "x \<in> set (free_of_extents es)" "node_wf ((node_at V F)\<lparr>nd_extents := es\<rparr>)"
proof -
  let ?n = "(node_at V F)\<lparr>nd_extents := es\<rparr>"
  have spec: "mset (free_of_extents es) = add_mset x (mset (free_of_extents (nd_extents (node_at V F))))" "length es = 15"
    using place_blocks_free [OF es] free_room [OF wf N] node_wf_intros(3) [OF len] by (simp_all add: node_wf_def)
  show n: "node_wf ?n"
    using spec(2) node_wf_intros(3) [OF len] by (simp add: node_wf_def)
  show "x \<in> set (free_of_extents es)"
    using arg_cong [OF spec(1), of set_mset] by simp
  have F: "F \<notin> set cs"
    using wf by (auto simp: file_wf_def layout_def)
  then have ce: "chain_extents (V(F := encode_node ?n)) cs = chain_extents V cs"
    by simp
  show "file_wf N P (V(F := encode_node ?n)) F b cs"
  proof (rule file_wf_transfer [OF wf])
    show "chain (V(F := encode_node ?n)) b cs"
      using wf F by (simp add: file_wf_def)
    show "mset (P @ layout (V(F := encode_node ?n)) F cs) = mset ((x # P) @ layout V F cs)"
      using spec n by (simp add: layout_def ce)
    show "\<forall>e\<in>set (chain_extents (V(F := encode_node ?n)) cs). extent_small e"
      unfolding ce using wf by (simp add: file_wf_def)
  qed
qed

lemma file_data_inside: "file_wf N P V F b (pre @ cs) \<Longrightarrow> set (sectors_of_extents (chain_extents V cs)) \<subseteq> N"
  by (simp add: file_wf_def layout_def)

lemma whole_extents_of:
  assumes "file_wf N P V F b cs" "\<forall>e\<in>set (chain_extents V cs). unat (ex_length e) mod 512 = 0" "- 1 \<notin> N"
  shows "\<forall>e\<in>set (chain_extents V cs). extent_whole e \<and> - 1 \<notin> set (extent_sectors e)"
proof
  fix e
  assume e: "e \<in> set (chain_extents V cs)"
  then have "set (extent_sectors e) \<subseteq> set (sectors_of_extents (chain_extents V cs))"
    by (auto simp: sectors_of_extents_def)
  then show "extent_whole e \<and> - 1 \<notin> set (extent_sectors e)"
    using assms e by (auto simp: extent_whole_def file_wf_def layout_def)
qed

context sector_disk
begin

lemma deallocate_inside:
  assumes h: "holds fs V N H" and wf: "file_wf N [x] V (hd_free H) b cs" and spare: "spare V (hd_free H)"
  shows "\<exists>fs' V'. fs_deallocate D x 512 fs = Some (Ok (), fs') \<and> holds fs' V' N H \<and> file_wf N [] V' (hd_free H) b cs \<and>
    x \<in> set (free_of_extents (nd_extents (node_at V' (hd_free H)))) \<and> (\<forall>y. y \<noteq> hd_free H \<longrightarrow> V' y = V y)"
proof -
  let ?F = "hd_free H"
  have F: "?F \<in> N" "?F \<noteq> 0"
    using wf by (auto simp: file_wf_def layout_def)
  obtain es where es: "place_blocks x 512 (nd_extents (node_at V ?F)) = Some es"
    using place_blocks_spare [of "nd_extents (node_at V ?F)" x 512] spare by (auto simp: spare_def)
  let ?n = "(node_at V ?F)\<lparr>nd_extents := es\<rparr>"
  note wf' = file_wf_deallocate [OF wf sector_size [OF h F(1)] conjunct1 [OF sectors_finite [OF h]] conjunct2 [OF sectors_finite [OF h]] es]
  obtain fs1 where fs1: "fs_node D ?F fs = (Ok (?F, node_at V ?F), fs1)" "holds fs1 V N H"
    using node_inside [OF h F(1)] by blast
  obtain fs2 where fs2: "fs_write_at D ?F (encode_node ?n) fs1 = (Ok 512, fs2)" "holds fs2 (V(?F := encode_node ?n)) N H"
    using write_inside_at [OF fs1(2) F(1) length_encode_node [OF wf'(3)]] by blast
  have "hd_free (snd (fs_header fs)) = ?F"
    using h by (simp add: fs_holds_def)
  then have "fs_deallocate D x 512 fs = Some (Ok (), fs2)"
    using fs1(1) fs2(1) F(2) es by (simp add: fs_deallocate_def fs_insert_blocks.simps)
  then show ?thesis
    using fs2(2) wf' by (intro exI [of _ fs2] exI [of _ "V(?F := encode_node ?n)"]) simp
qed

section \<open>Removing a sector from a directory\<close>

text \<open>The part of a split extent behind the sector is inserted again.\<close>

lemma reinsert_rest:
  assumes h: "holds fs V N H" and wf: "file_wf N (sectors_of_extents (opt_list rep) @ [x]) V (hd_free H) b (pre @ c # ys)"
    and whole: "\<forall>e\<in>set (chain_extents V (pre @ c # ys)). unat (ex_length e) mod 512 = 0"
    and room: "spare V (hd_free H)" "free_of_extents (nd_extents (node_at V (hd_free H))) \<noteq> []"
    and rep: "\<forall>e\<in>set (opt_list rep). extent_whole e"
  shows "\<exists>fs' V' cs'.
    (case rep of Some e \<Rightarrow> fs_insert_blocks D (ex_block e) (ex_length e) c fs | None \<Rightarrow> Some (Ok (), fs)) = Some (Ok (), fs') \<and>
    holds fs' V' N H \<and> file_wf N [x] V' (hd_free H) b cs' \<and> (\<forall>e\<in>set (chain_extents V' cs'). unat (ex_length e) mod 512 = 0) \<and>
    mset (sectors_of_extents (chain_extents V' cs')) =
      mset (sectors_of_extents (opt_list rep)) + mset (sectors_of_extents (chain_extents V (pre @ c # ys))) \<and> spare V' (hd_free H) \<and>
    (\<forall>y. V' y \<noteq> V y \<longrightarrow> y \<in> insert (hd_free H) (set (pre @ c # ys) \<union> set (free_of_extents (nd_extents (node_at V (hd_free H))))))"
proof (cases rep)
  case None
  then show ?thesis
    using h wf whole room(1) by (intro exI [of _ fs] exI [of _ V] exI [of _ "pre @ c # ys"]) simp
next
  case (Some e)
  then have e: "extent_sectors e = sector_run (ex_block e) (block_count (ex_length e))" "unat (ex_length e) + 511 < 2 ^ 64"
      "unat (ex_length e) mod 512 = 0"
    using rep by (simp_all add: extent_sectors_def extent_whole_def extent_small_def)
  have "file_wf N (sector_run (ex_block e) (block_count (ex_length e)) @ [x]) V (hd_free H) b (pre @ c # ys)"
    using wf Some e(1) by simp
  then obtain r fs' V' cs' where ins: "fs_insert_blocks D (ex_block e) (ex_length e) c fs = Some (r, fs')" "holds fs' V' N H"
      "file_wf N [x] V' (hd_free H) b cs'"
      "r = Ok () \<and> file_grew V (hd_free H) (pre @ c # ys) (ex_block e) (ex_length e) V' cs' \<or>
       r = Err (Error ENOSPC) \<and> V' = V \<and> cs' = pre @ c # ys \<and> free_of_extents (nd_extents (node_at V (hd_free H))) = []"
    using insert_blocks_spec [OF h _ e(2)] by blast
  then have "r = Ok ()" and grew: "file_grew V (hd_free H) (pre @ c # ys) (ex_block e) (ex_length e) V' cs'"
    using room(2) by auto
  then show ?thesis
    using ins(1-3) Some e(1,3) whole room(1) unfolding file_grew_def
    by (intro exI [of _ fs'] exI [of _ V'] exI [of _ cs']) simp
qed

lemma remove_here:
  assumes h: "holds fs V N H" and wf: "file_wf N [] V (hd_free H) b (pre @ c # ys)"
    and whole: "\<forall>e\<in>set (chain_extents V (pre @ c # ys)). unat (ex_length e) mod 512 = 0"
    and room: "spare V (hd_free H)" "free_of_extents (nd_extents (node_at V (hd_free H))) \<noteq> []"
    and cut: "cut_blocks x 1 (nd_extents (node_at V c)) = Some (es, rep)" and last: "- 1 \<notin> N" "x \<noteq> - 1"
  shows "\<exists>fs' V' cs'. fs_remove_blocks D x 1 c fs = Some (Ok (), fs') \<and> holds fs' V' N H \<and> file_wf N [] V' (hd_free H) b cs' \<and>
    (\<forall>e\<in>set (chain_extents V' cs'). unat (ex_length e) mod 512 = 0) \<and>
    mset (sectors_of_extents (chain_extents V (pre @ c # ys))) = add_mset x (mset (sectors_of_extents (chain_extents V' cs'))) \<and>
    x \<in> set (free_of_extents (nd_extents (node_at V' (hd_free H)))) \<and>
    (\<forall>y. V' y \<noteq> V y \<longrightarrow> y \<in> insert (hd_free H) (set (pre @ c # ys) \<union> set (free_of_extents (nd_extents (node_at V (hd_free H))))))"
proof -
  let ?F = "hd_free H" and ?cs = "pre @ c # ys" and ?n = "(node_at V c)\<lparr>nd_extents := es\<rparr>"
  have c: "c \<in> N" "c \<noteq> 0" "c \<noteq> ?F"
    using wf by (auto simp: file_wf_def layout_def)
  note size = sector_size [OF h c(1)]
  have "\<forall>e\<in>set (nd_extents (node_at V c)). extent_whole e \<and> - 1 \<notin> set (extent_sectors e)"
    using whole_extents_of [OF wf whole last(1)] by simp
  then have es: "mset (sectors_of_extents (nd_extents (node_at V c))) =
        add_mset x (mset (sectors_of_extents es) + mset (sectors_of_extents (opt_list rep)))"
      "length es = 15" "\<forall>e\<in>set es. extent_whole e" "\<forall>e\<in>set (opt_list rep). extent_whole e"
    using cut_blocks_Some [OF cut _ last(2)] node_wf_intros(3) [OF size] by (auto simp: node_wf_def)
  define V1 where "V1 = V(c := encode_node ?n)"
  have wf1: "file_wf N (sectors_of_extents (opt_list rep) @ [x]) V1 ?F b ?cs"
      "chain_extents V1 ?cs = chain_extents V pre @ es @ chain_extents V ys"
    using file_wf_extents [OF wf size es(2), of "sectors_of_extents (opt_list rep) @ [x]"] es(1,3)
    by (simp_all add: V1_def extent_whole_def ac_simps)
  obtain fs1 where fs1: "fs_node D c fs = (Ok (c, node_at V c), fs1)" "holds fs1 V N H"
    using node_inside [OF h c(1)] by blast
  have "node_wf ?n"
    using es(2) node_wf_intros(3) [OF size] by (simp add: node_wf_def)
  then obtain fs2 where fs2: "fs_write_at D c (encode_node ?n) fs1 = (Ok 512, fs2)" "holds fs2 V1 N H"
    using write_inside_at [OF fs1(2) c(1), of "encode_node ?n"] by (auto simp: V1_def)
  have atF: "V1 ?F = V ?F"
    using c(3) by (simp add: V1_def)
  have whole1: "\<forall>e\<in>set (chain_extents V1 ?cs). unat (ex_length e) mod 512 = 0"
    unfolding wf1(2) using whole es(3) by (auto simp: extent_whole_def)
  have room1: "spare V1 ?F" "free_of_extents (nd_extents (node_at V1 ?F)) \<noteq> []"
    using room atF by (simp_all add: spare_def)
  obtain fs3 V3 cs3 where st3: "(case rep of Some e \<Rightarrow> fs_insert_blocks D (ex_block e) (ex_length e) c fs2 | None \<Rightarrow> Some (Ok (), fs2)) = Some (Ok (), fs3)"
      "holds fs3 V3 N H" "file_wf N [x] V3 ?F b cs3" "\<forall>e\<in>set (chain_extents V3 cs3). unat (ex_length e) mod 512 = 0"
      "mset (sectors_of_extents (chain_extents V3 cs3)) =
        mset (sectors_of_extents (opt_list rep)) + mset (sectors_of_extents (chain_extents V1 ?cs))" "spare V3 ?F"
      "\<forall>y. V3 y \<noteq> V1 y \<longrightarrow> y \<in> insert ?F (set ?cs \<union> set (free_of_extents (nd_extents (node_at V1 ?F))))"
    using reinsert_rest [OF fs2(2) wf1(1) whole1 room1 es(4)] by blast
  obtain fs4 V4 where st4: "fs_deallocate D x 512 fs3 = Some (Ok (), fs4)" "holds fs4 V4 N H" "file_wf N [] V4 ?F b cs3"
      "x \<in> set (free_of_extents (nd_extents (node_at V4 ?F)))" "\<forall>y. y \<noteq> ?F \<longrightarrow> V4 y = V3 y"
    using deallocate_inside [OF st3(2,3,6)] by blast
  have "fs_remove_blocks D x 1 c fs = Some (Ok (), fs4)"
    using c(2) fs1(1) cut fs2(1) st3(1) st4(1) by (subst fs_remove_blocks.simps) simp
  moreover have "?F \<notin> set cs3"
    using st4(3) by (auto simp: file_wf_def layout_def)
  then have ce4: "chain_extents V4 cs3 = chain_extents V3 cs3"
    using st4(5) by (intro chain_extents_cong) metis
  moreover have "mset (sectors_of_extents (chain_extents V ?cs)) = add_mset x (mset (sectors_of_extents (chain_extents V3 cs3)))"
    unfolding st3(5) wf1(2) by (simp add: es(1) ac_simps)
  moreover have "y \<in> insert ?F (set ?cs \<union> set (free_of_extents (nd_extents (node_at V ?F))))" if "V4 y \<noteq> V y" for y
  proof (rule ccontr)
    assume y: "\<not> ?thesis"
    then have "V3 y = V1 y"
      using st3(7) unfolding atF by blast
    moreover have "V4 y = V3 y" "V1 y = V y"
      using y st4(5) by (auto simp: V1_def)
    ultimately show False
      using that by simp
  qed
  ultimately show ?thesis
    using st4(2-4) st3(4) by (intro exI [of _ fs4] exI [of _ V4] exI [of _ cs3]) simp
qed

lemma remove_blocks_spec:
  assumes "holds fs V N H" and wf: "file_wf N [] V (hd_free H) b (pre @ c # ys)"
    and whole: "\<forall>e\<in>set (chain_extents V (pre @ c # ys)). unat (ex_length e) mod 512 = 0"
    and room: "spare V (hd_free H)" "free_of_extents (nd_extents (node_at V (hd_free H))) \<noteq> []"
    and x: "x \<in> set (sectors_of_extents (chain_extents V (c # ys)))" and last: "- 1 \<notin> N"
  shows "\<exists>fs' V' cs'. fs_remove_blocks D x 1 c fs = Some (Ok (), fs') \<and> holds fs' V' N H \<and> file_wf N [] V' (hd_free H) b cs' \<and>
    (\<forall>e\<in>set (chain_extents V' cs'). unat (ex_length e) mod 512 = 0) \<and>
    mset (sectors_of_extents (chain_extents V (pre @ c # ys))) = add_mset x (mset (sectors_of_extents (chain_extents V' cs'))) \<and>
    x \<in> set (free_of_extents (nd_extents (node_at V' (hd_free H)))) \<and>
    (\<forall>y. V' y \<noteq> V y \<longrightarrow> y \<in> insert (hd_free H) (set (pre @ c # ys) \<union> set (free_of_extents (nd_extents (node_at V (hd_free H))))))"
  using assms
proof (induction ys arbitrary: pre c fs)
  case (Nil pre c fs)
  have x: "x \<noteq> - 1"
    using file_data_inside [OF Nil(2)] Nil(6,7) by blast
  have good: "\<forall>e\<in>set (nd_extents (node_at V c)). extent_whole e \<and> - 1 \<notin> set (extent_sectors e)"
    using whole_extents_of [OF Nil(2,3,7)] by simp
  have "x \<in> set (sectors_of_extents (nd_extents (node_at V c)))"
    using Nil(6) by simp
  then obtain es rep where "cut_blocks x 1 (nd_extents (node_at V c)) = Some (es, rep)"
    using cut_blocks_None [OF _ good x] by (cases "cut_blocks x 1 (nd_extents (node_at V c))") auto
  then show ?case
    by (rule remove_here [OF Nil(1-5) _ Nil(7) x])
next
  case (Cons d ys pre c fs)
  have x: "x \<noteq> - 1"
    using file_data_inside [OF Cons.prems(2)] Cons.prems(6,7) by blast
  have good: "\<forall>e\<in>set (nd_extents (node_at V c)). extent_whole e \<and> - 1 \<notin> set (extent_sectors e)"
    using whole_extents_of [OF Cons.prems(2,3,7)] by simp
  have c: "c \<in> N" "c \<noteq> 0" "nd_next (node_at V c) = d"
    using Cons.prems(2) chain_tail [of V b pre "c # d # ys"] by (auto simp: file_wf_def layout_def)
  show ?case
  proof (cases "cut_blocks x 1 (nd_extents (node_at V c))")
    case None
    obtain fs1 where fs1: "fs_node D c fs = (Ok (c, node_at V c), fs1)" "holds fs1 V N H"
      using node_inside [OF Cons.prems(1) c(1)] by blast
    then have step: "fs_remove_blocks D x 1 c fs = fs_remove_blocks D x 1 d fs1"
      using None c(2,3) by (subst fs_remove_blocks.simps) simp
    have "x \<in> set (sectors_of_extents (nd_extents (node_at V c))) \<union> set (sectors_of_extents (chain_extents V (d # ys)))"
      using Cons.prems(6) by simp
    then have mem: "x \<in> set (sectors_of_extents (chain_extents V (d # ys)))"
      using cut_blocks_None [OF None good x] by blast
    have cs: "pre @ c # d # ys = (pre @ [c]) @ d # ys"
      by simp
    show ?thesis
      unfolding step cs using Cons.prems(2,3) unfolding cs by (rule Cons.IH [OF fs1(2) _ _ Cons.prems(4,5) mem Cons.prems(7)])
  next
    case (Some p)
    then have "cut_blocks x 1 (nd_extents (node_at V c)) = Some (fst p, snd p)"
      by simp
    then show ?thesis
      by (rule remove_here [OF Cons.prems(1-5) _ Cons.prems(7) x])
  qed
qed

end

section \<open>Removing a name\<close>

text \<open>
  The result of removing a node of the given type: \<open>ds\<close> are the nodes of the child, if it is a directory.
\<close>

definition removal :: "u16 \<Rightarrow> u64 list \<Rightarrow> view \<Rightarrow> (u64 \<times> node) option \<Rightarrow> unit result" where
  "removal mode ds V x =
     (case x of
        None \<Rightarrow> Err (Error ENOENT)
      | Some (_, n) \<Rightarrow>
          if nd_mode n AND NODE_TYPE \<noteq> mode then if node_is_dir n then Err (Error EISDIR) else Err (Error ENOTDIR)
          else if node_is_dir n \<and> children V ds \<noteq> [] then Err (Error ENOTEMPTY)
          else Ok ())"

lemma entries_delete:
  assumes "dir_wf N V F b cs" "dir_wf N V' F b cs'" "set (children V' cs') = set (children V cs) - {x}"
    and "\<forall>y\<in>set (children V' cs'). V' y = V y" "entries V cs name = Some (x, n)"
  shows "entries V' cs' = (entries V cs)(name := None)"
proof
  fix m
  have x: "x \<in> set (children V cs)" "node_name (node_at V x) = Some name"
    using assms(5) entries_Some [OF assms(1)] by simp_all
  show "entries V' cs' m = ((entries V cs)(name := None)) m"
  proof (cases "entries V' cs' m")
    case None
    then have none: "\<forall>y\<in>set (children V cs) - {x}. node_name (node_at V y) \<noteq> Some m"
      using assms(3,4) by (simp add: entries_None)
    have "entries V cs m = None" if "m \<noteq> name"
      unfolding entries_None
    proof
      fix y
      assume "y \<in> set (children V cs)"
      then show "node_name (node_at V y) \<noteq> Some m"
        using none x(2) that by (cases "y = x") simp_all
    qed
    then show ?thesis
      using None by simp
  next
    case (Some p)
    obtain y k where p: "p = (y, k)"
      by fastforce
    then have y: "y \<in> set (children V cs)" "y \<noteq> x" "node_name (node_at V y) = Some m" "k = node_at V y"
      using Some entries_Some [OF assms(2), of m y k] assms(3,4) by auto
    then have "entries V cs m = Some (y, k)"
      using entries_Some [OF assms(1)] by simp
    moreover have "m \<noteq> name"
      using calculation assms(5) y(2) by auto
    ultimately show ?thesis
      using Some p by simp
  qed
qed

lemma dir_wf_subset:
  assumes "dir_wf N V F b cs" "file_wf N [] V' F b cs'" "\<forall>e\<in>set (chain_extents V' cs'). unat (ex_length e) mod 512 = 0"
    and "set (children V' cs') \<subseteq> set (children V cs)" "\<forall>y\<in>set (children V' cs'). V' y = V y"
  shows "dir_wf N V' F b cs'"
  unfolding dir_wf_def
proof (intro conjI ballI impI)
  show "y = z" if "y \<in> set (children V' cs')" "z \<in> set (children V' cs')" "node_name (node_at V' y) \<noteq> None"
      "node_name (node_at V' y) = node_name (node_at V' z)" for y z
  proof -
    have unique: "\<forall>x\<in>set (children V cs). \<forall>y\<in>set (children V cs).
        node_name (node_at V x) \<noteq> None \<longrightarrow> node_name (node_at V x) = node_name (node_at V y) \<longrightarrow> x = y"
      using assms(1) unfolding dir_wf_def by (elim conjE)
    have kids: "V' y = V y" "V' z = V z" "y \<in> set (children V cs)" "z \<in> set (children V cs)"
      using that(1,2) assms(4,5) by auto
    show ?thesis
      using that(3,4) unfolding kids(1,2) by (rule unique [rule_format, OF kids(3,4)])
  qed
qed (use assms(2,3) in \<open>simp_all\<close>)

context sector_disk
begin

lemma remove_child:
  assumes h: "holds fs V N H" and wf: "dir_wf N V (hd_free H) b cs" and b: "b \<noteq> 0"
    and room: "spare V (hd_free H)" "free_of_extents (nd_extents (node_at V (hd_free H))) \<noteq> []" and last: "- 1 \<notin> N"
    and x: "entries V cs name = Some (x, n)"
  shows "\<exists>fs1 fs' V' cs'. fs_remove_blocks D x 1 b fs = Some (Ok (), fs1) \<and>
    fs_write_at D x (encode_node node_default) fs1 = (Ok 512, fs') \<and> holds fs' V' N H \<and>
    dir_wf N V' (hd_free H) b cs' \<and> entries V' cs' = (entries V cs)(name := None) \<and>
    x \<in> set (free_of_extents (nd_extents (node_at V' (hd_free H))))"
proof -
  let ?F = "hd_free H"
  note inside = dir_wf_inside [OF wf]
  obtain ys where cs: "cs = b # ys"
    using inside(1) b by (cases cs) auto
  have kid: "x \<in> set (children V cs)"
    using x entries_Some [OF wf] by simp
  have fwf: "file_wf N [] V ?F b ([] @ b # ys)" "\<forall>e\<in>set (chain_extents V ([] @ b # ys)). unat (ex_length e) mod 512 = 0"
    using wf cs by (simp_all add: dir_wf_def)
  have "x \<in> set (sectors_of_extents (chain_extents V cs))"
    using kid dir_wf_children [OF wf] by simp
  then obtain fs1 V1 cs1 where r: "fs_remove_blocks D x 1 b fs = Some (Ok (), fs1)" "holds fs1 V1 N H" "file_wf N [] V1 ?F b cs1"
      "\<forall>e\<in>set (chain_extents V1 cs1). unat (ex_length e) mod 512 = 0"
      "mset (sectors_of_extents (chain_extents V cs)) = add_mset x (mset (sectors_of_extents (chain_extents V1 cs1)))"
      "x \<in> set (free_of_extents (nd_extents (node_at V1 ?F)))"
      "\<forall>y. V1 y \<noteq> V y \<longrightarrow> y \<in> insert ?F (set cs \<union> set (free_of_extents (nd_extents (node_at V ?F))))"
    using remove_blocks_spec [OF h fwf room _ last, unfolded append_Nil, folded cs] by blast
  have x1: "x \<in> N" "x \<notin> insert ?F (set cs1)"
    using r(3,6) by (auto simp: file_wf_def layout_def)
  define W where "W = V1(x := encode_node node_default)"
  obtain fs' where fs': "fs_write_at D x (encode_node node_default) fs1 = (Ok 512, fs')" "holds fs' W N H"
    using write_inside_at [OF r(2) x1(1), of "encode_node node_default"] by (auto simp: W_def)
  have "\<forall>c\<in>insert ?F (set cs1). W c = V1 c"
    using x1(2) by (auto simp: W_def)
  then have W: "file_wf N [] W ?F b cs1" "chain_extents W cs1 = chain_extents V1 cs1"
    using file_wf_frame [OF r(3)] by blast+
  have ch: "sectors_of_extents (chain_extents V1 cs1) = children W cs1"
    using r(3,4) by (auto simp: children_def W(2) file_wf_def intro: sectors_whole)
  have m: "mset (children V cs) = add_mset x (mset (children W cs1))"
    using r(5) by (simp only: ch dir_wf_children [OF wf])
  have "distinct (children V cs)"
    using wf dir_wf_children [OF wf] by (auto simp: dir_wf_def file_wf_def layout_def)
  moreover have "distinct (children V cs) = distinct (x # children W cs1)"
    using m by (intro mset_eq_imp_distinct_iff) simp
  ultimately have kids: "set (children W cs1) = set (children V cs) - {x}"
    using arg_cong [OF m, of set_mset] by auto
  have same: "\<forall>y\<in>set (children W cs1). W y = V y"
  proof
    fix y
    assume "y \<in> set (children W cs1)"
    then have "y \<noteq> x" "y \<notin> insert ?F (set cs \<union> set (free_of_extents (nd_extents (node_at V ?F))))"
      using kids inside(6) by auto
    then show "W y = V y"
      using r(7) by (auto simp: W_def)
  qed
  have wfW: "dir_wf N W ?F b cs1"
    using dir_wf_subset [OF wf W(1) _ _ same] r(4) kids by (auto simp: W(2))
  moreover have "x \<in> set (free_of_extents (nd_extents (node_at W ?F)))"
    using r(6) x1(2) by (auto simp: W_def)
  ultimately show ?thesis
    using r(1) fs' entries_delete [OF wf wfW kids same x] by blast
qed

lemma remove_from_dir:
  assumes h: "holds fs V N H" and wf: "dir_wf N V (hd_free H) b cs" and b: "b \<noteq> 0"
    and room: "spare V (hd_free H)" "free_of_extents (nd_extents (node_at V (hd_free H))) \<noteq> []" and last: "- 1 \<notin> N"
    and sub: "\<forall>x n. entries V cs name = Some (x, n) \<longrightarrow> node_is_dir n \<longrightarrow> dir_wf N V (hd_free H) x ds"
  shows "\<exists>fs' V' cs'. fs_remove_node D mode name b fs = Some (removal mode ds V (entries V cs name), fs') \<and> holds fs' V' N H \<and>
    dir_wf N V' (hd_free H) b cs' \<and>
    entries V' cs' = (if removal mode ds V (entries V cs name) = Ok () then (entries V cs)(name := None) else entries V cs)"
proof -
  note inside = dir_wf_inside [OF wf]
  obtain fs1 where fs1: "fs_find_node D name b fs = Some (found (entries V cs name), fs1)" "holds fs1 V N H"
    using find_node_chain [OF h inside(1-3,5)] by blast
  show ?thesis
  proof (cases "entries V cs name")
    case None
    then have "fs_remove_node D mode name b fs = Some (Err (Error ENOENT), fs1)"
      using fs1(1) by (simp add: fs_remove_node_def)
    then show ?thesis
      using fs1(2) wf None by (intro exI [of _ fs1] exI [of _ V] exI [of _ cs]) (simp add: removal_def)
  next
    case (Some p)
    obtain x n where p: "p = (x, n)"
      by fastforce
    show ?thesis
    proof (cases "nd_mode n AND NODE_TYPE = mode")
      case False
      then have "fs_remove_node D mode name b fs = Some (removal mode ds V (entries V cs name), fs1)"
        using fs1(1) Some p by (simp add: fs_remove_node_def removal_def)
      moreover have "removal mode ds V (entries V cs name) \<noteq> Ok ()"
        using False Some p by (simp add: removal_def)
      ultimately show ?thesis
        using fs1(2) wf by (intro exI [of _ fs1] exI [of _ V] exI [of _ cs]) simp
    next
      case True
      have "\<exists>kids fs2. (if node_is_dir n then fs_child_nodes D [] x fs1 else Some (Ok [], fs1)) = Some (Ok kids, fs2) \<and>
          holds fs2 V N H \<and> (kids \<noteq> [] \<longleftrightarrow> node_is_dir n \<and> children V ds \<noteq> [])"
      proof (cases "node_is_dir n")
        case dir: True
        then have "dir_wf N V (hd_free H) x ds"
          using sub Some p by simp
        from dir_wf_inside [OF this] obtain fs2 where
            "fs_child_nodes D [] x fs1 = Some (Ok (map (\<lambda>b. (b, node_at V b)) (children V ds)), fs2)" "holds fs2 V N H"
          using child_nodes_chain [OF fs1(2), of x ds "[]"] by auto
        then show ?thesis
          using dir by auto
      qed (use fs1(2) in auto)
      then obtain kids fs2 where kids: "(if node_is_dir n then fs_child_nodes D [] x fs1 else Some (Ok [], fs1)) = Some (Ok kids, fs2)"
          "holds fs2 V N H" "kids \<noteq> [] \<longleftrightarrow> node_is_dir n \<and> children V ds \<noteq> []"
        by blast
      have step: "fs_remove_node D mode name b fs =
          (if kids \<noteq> [] then Some (Err (Error ENOTEMPTY), fs2)
           else try_opt (fs_remove_blocks D x 1 b fs2) (\<lambda>_ fs.
             try_rec (fs_write_at D x (encode_node node_default) fs) (\<lambda>_ fs. Some (Ok (), fs))))"
        using fs1(1) Some p True kids(1) by (cases "node_is_dir n") (simp_all add: fs_remove_node_def)
      show ?thesis
      proof (cases "kids = []")
        case False
        then show ?thesis
          using step kids(2,3) wf Some p True
          by (intro exI [of _ fs2] exI [of _ V] exI [of _ cs]) (simp add: removal_def)
      next
        case empty: True
        obtain fs3 fs' V' cs' where "fs_remove_blocks D x 1 b fs2 = Some (Ok (), fs3)"
            "fs_write_at D x (encode_node node_default) fs3 = (Ok 512, fs')" "holds fs' V' N H"
            "dir_wf N V' (hd_free H) b cs'" "entries V' cs' = (entries V cs)(name := None)"
          using remove_child [OF kids(2) wf b room last] Some p by blast
        moreover have "removal mode ds V (entries V cs name) = Ok ()"
          using kids(3) empty Some p True by (auto simp: removal_def)
        ultimately show ?thesis
          using step empty by (intro exI [of _ fs'] exI [of _ V'] exI [of _ cs']) simp
      qed
    qed
  qed
qed

end

text \<open>C38. 
  Removing a name from a directory. On a directory of whole sectors with distinct names, \<open>remove_node\<close>
  returns: \<open>ENOENT\<close> if there is no such name, \<open>EISDIR\<close> or \<open>ENOTDIR\<close> if the child is of another type,
  \<open>ENOTEMPTY\<close> if it is a directory with children, and \<open>Ok\<close> otherwise. The directory stays well-formed, and
  afterwards \<open>find_node\<close> sees the same children as before, without the name if the result was \<open>Ok\<close>. The
  node of the free list has a spare extent for the sector that is returned and a sector for a new node
  of the directory.
\<close>

theorem redoxfs_remove_node:
  assumes "live_fs i fs V N H" "dir_wf N V (hd_free H) b cs" "b \<noteq> 0"
    and "spare V (hd_free H)" "free_of_extents (nd_extents (node_at V (hd_free H))) \<noteq> []" "- 1 \<notin> N"
    and "\<forall>x n. entries V cs name = Some (x, n) \<longrightarrow> node_is_dir n \<longrightarrow> dir_wf N V (hd_free H) x ds"
  shows "\<exists>r fs' V' cs'. fs_remove_node (live_image i) mode name b fs = Some (r, fs') \<and>
    r = removal mode ds V (entries V cs name) \<and> live_fs i fs' V' N H \<and> dir_wf N V' (hd_free H) b cs' \<and>
    (\<forall>m. \<exists>fs''. fs_find_node (live_image i) m b fs' =
       Some (found (if m = name \<and> r = Ok () then None else entries V cs m), fs''))"
proof -
  obtain fs' V' cs' where r: "fs_remove_node (live_image i) mode name b fs = Some (removal mode ds V (entries V cs name), fs')"
      "live_fs i fs' V' N H" "dir_wf N V' (hd_free H) b cs'"
      "entries V' cs' = (if removal mode ds V (entries V cs name) = Ok () then (entries V cs)(name := None) else entries V cs)"
    using live.image.remove_from_dir [OF assms [unfolded live_fs_def]] unfolding live_fs_def live_image_def by blast
  have "\<exists>fs''. fs_find_node (live_image i) m b fs' = Some (found (entries V' cs' m), fs'')" for m
    using live_find_node [OF r(2,3)] by blast
  moreover have "entries V' cs' m =
      (if m = name \<and> removal mode ds V (entries V cs name) = Ok () then None else entries V cs m)" for m
    using r(4) by simp
  ultimately have "\<forall>m. \<exists>fs''. fs_find_node (live_image i) m b fs' =
      Some (found (if m = name \<and> removal mode ds V (entries V cs name) = Ok () then None else entries V cs m), fs'')"
    by (simp only: simp_thms)
  then show ?thesis
    using r(1-3) by (intro exI [of _ "removal mode ds V (entries V cs name)"] exI [of _ fs'] exI [of _ V'] exI [of _ cs'] conjI) simp_all
qed

theorem redoxfs_remove_node_witness:
  "\<exists>fs' fs''. fs_remove_node (live_image 0) NODE_FILE (bytes_of ''a'') 1 (fs_on dir_sectors small_header) = Some (Ok (), fs') \<and>
     fs_find_node (live_image 0) (bytes_of ''a'') 1 fs' = Some (Err (Error ENOENT), fs'')"
proof -
  have a: "entries (view_on dir_sectors) [1] (bytes_of ''a'') = Some (3, node_new NODE_FILE (bytes_of ''a'') 1)"
    by (rule dir_entries_small(1))
  have plain: "\<not> node_is_dir (node_new NODE_FILE (bytes_of ''a'') 1)" "nd_mode (node_new NODE_FILE (bytes_of ''a'') 1) AND NODE_TYPE = NODE_FILE"
    by (simp_all add: node_is_dir_def node_new_def NODE_TYPE_def NODE_FILE_def NODE_DIR_def)
  have "spare (view_on dir_sectors) (hd_free small_header)"
    "free_of_extents (nd_extents (node_at (view_on dir_sectors) (hd_free small_header))) \<noteq> []"
    by (simp_all add: spare_def small_header_def header_new_def dir_nodes small_node_def extent_default_def free_sectors_def
        sector_run_two)
  moreover have "(- 1 :: u64) \<notin> {b. unat b < 6}"
    by (simp add: unsigned_minus_1_eq_mask mask_eq_exp_minus_1)
  ultimately obtain fs' where r: "fs_remove_node (live_image 0) NODE_FILE (bytes_of ''a'') 1 (fs_on dir_sectors small_header) = Some (Ok (), fs')"
    and find: "\<forall>m. \<exists>fs''. fs_find_node (live_image 0) m 1 fs' =
      Some (found (if m = bytes_of ''a'' then None else entries (view_on dir_sectors) [1] m), fs'')"
    using redoxfs_remove_node [OF live_fs_dir small_dir_wf, of "bytes_of ''a''" "[]" NODE_FILE] a plain by (auto simp: removal_def)
  then show ?thesis
    using spec [OF find, of "bytes_of ''a''"] by auto
qed

end
