(* ===== verification/Redoxfs_Service.thy ===== *)
theory Redoxfs_Service
  imports Redoxfs_Scheme Redoxfs_Removal
begin

text \<open>
  What the scheme of RedoxFS promises to its clients: permissions are checked when a file is opened; a file
  created by \<open>open\<close> belongs to its creator and is found again; the position and the access mode of a handle.
\<close>

section \<open>Permissions\<close>

text \<open>The resource that \<open>open\<close> makes once the path has been followed.\<close>

definition find_resource :: "'d disk_impl \<Rightarrow> bytes \<Rightarrow> usize \<Rightarrow> u32 \<Rightarrow> u32 \<Rightarrow> (u64 \<times> node) result \<Rightarrow> (u64 \<times> node) list \<Rightarrow>
    'd file_system \<Rightarrow> (resource result \<times> 'd file_system) option" where
  "find_resource D path flags uid gid result nodes fs =
     (case result of
        Ok node \<Rightarrow> open_existing D path flags uid gid node fs
      | Err e \<Rightarrow>
          if errno e = ENOENT \<and> has_flag flags O_CREAT then open_create D path flags uid gid nodes fs else Some (Err e, fs))"

lemma file_open_found:
  assumes "fs_path_nodes D (url_path url) (sc_fs s) = Some ((result, nodes), fs)" "check_nodes nodes uid gid = None"
  shows "file_open D url flags uid gid s =
    with_fs (find_resource D (url_path url) flags uid gid result nodes fs)
      (\<lambda>r s. case r of Err e \<Rightarrow> (Returned (Err e), s) | Ok res \<Rightarrow> insert_resource res s) (s\<lparr>sc_fs := fs\<rparr>)"
  using assms by (cases result) (auto simp: file_open_def with_fs_def find_resource_def Let_def)


section \<open>Files in the root directory\<close>

lemma split_slash_plain: "47 \<notin> set p \<Longrightarrow> split_slash p = [p]"
  by (induction p) auto

lemma trim_plain: "47 \<notin> set p \<Longrightarrow> trim_slashes p = p"
proof -
  assume *: "47 \<notin> set p"
  have "dropWhile (\<lambda>b. b = 47) q = q" if "47 \<notin> set q" for q :: bytes
    using that by (cases q) auto
  then have "dropWhile (\<lambda>b. b = 47) p = p" "dropWhile (\<lambda>b. b = 47) (rev p) = rev p"
    using * by simp_all
  then show ?thesis
    by (simp add: trim_slashes_def)
qed

text \<open>A path that is one name.\<close>

definition plain_name :: "bytes \<Rightarrow> bool" where
  "plain_name p \<longleftrightarrow> good_name p \<and> p \<noteq> [] \<and> 47 \<notin> set p"

lemma plain_path: "plain_name p \<Longrightarrow> url_path p = p \<and> last_part p = p \<and> split_slash p = [p]"
  by (simp add: plain_name_def good_name_def url_path_def trim_plain last_part_def split_slash_plain)

lemma live_node:
  "live_fs i fs V N H \<Longrightarrow> b \<in> N \<Longrightarrow> \<exists>fs'. fs_node (live_image i) b fs = (Ok (b, node_at V b), fs') \<and> live_fs i fs' V N H"
  unfolding live_fs_def live_image_def by (rule live.image.node_inside)

lemma live_write_at:
  "live_fs i fs V N H \<Longrightarrow> b \<in> N \<Longrightarrow> length buf = 512 \<Longrightarrow>
   \<exists>fs'. fs_write_at (live_image i) b buf fs = (Ok 512, fs') \<and> live_fs i fs' (V(b := buf)) N H"
  unfolding live_fs_def live_image_def by (rule live.image.write_inside_at)

lemma live_path:
  assumes fs: "live_fs i fs V N H" and wf: "dir_wf N V F (hd_root H) cs" and root: "hd_root H \<noteq> 0" and p: "plain_name p"
  shows "\<exists>fs'. fs_path_nodes (live_image i) p fs =
      Some ((found (entries V cs p), [(hd_root H, node_at V (hd_root H))]), fs') \<and> live_fs i fs' V N H"
proof -
  let ?b = "hd_root H"
  have b: "?b \<in> N" "hd_root (snd (fs_header fs)) = ?b"
    using dir_wf_inside(1,2) [OF wf] root fs by (cases cs; auto simp: live_fs_def fs_holds_def)+
  obtain fs1 where fs1: "fs_node (live_image i) ?b fs = (Ok (?b, node_at V ?b), fs1)" "live_fs i fs1 V N H"
    using live_node [OF fs b(1)] by blast
  obtain fs2 where fs2: "fs_find_node (live_image i) p ?b fs1 = Some (found (entries V cs p), fs2)" "live_fs i fs2 V N H"
    using live_find_node [OF fs1(2) wf] by blast
  have parts: "split_slash p = [p]" "p \<noteq> []"
    using p plain_path by (auto simp: plain_name_def)
  show ?thesis
  proof (cases "entries V cs p")
    case None
    then show ?thesis
      using fs1(1) fs2 parts b(2) by (simp add: fs_path_nodes_def Let_def)
  next
    case (Some n)
    then show ?thesis
      using fs1(1) fs2 parts b(2) by (simp add: fs_path_nodes_def Let_def)
  qed
qed

text \<open>The node of a child is written again, with the same name.\<close>

lemma entries_rewrite:
  assumes wf: "dir_wf N V F b cs" and x: "entries V cs name = Some (x, m)" and n: "node_wf n" "node_name n = node_name m"
  shows "dir_wf N (V(x := encode_node n)) F b cs" "entries (V(x := encode_node n)) cs = (entries V cs)(name \<mapsto> (x, n))"
proof -
  let ?W = "V(x := encode_node n)"
  have kid: "x \<in> set (children V cs)" "node_name (node_at V x) = Some name" "m = node_at V x"
    using x entries_Some [OF wf] by auto
  then have fresh: "\<forall>c\<in>insert F (set cs). ?W c = V c"
    using dir_wf_inside(6) [OF wf] by auto
  have fwf: "file_wf N [] V F b cs"
    using wf by (simp add: dir_wf_def)
  have W: "file_wf N [] ?W F b cs" "chain_extents ?W cs = chain_extents V cs"
    using file_wf_frame [OF fwf fresh] by blast+
  have ch: "children ?W cs = children V cs"
    by (simp add: children_def W(2))
  have names: "node_name (node_at ?W y) = node_name (node_at V y)" for y
    using n kid(3) by simp
  show wfW: "dir_wf N ?W F b cs"
    using wf W(1) unfolding dir_wf_def names ch W(2) by (elim conjE) (intro conjI)
  show "entries ?W cs = (entries V cs)(name \<mapsto> (x, n))"
  proof
    fix p
    have "dir_find ?W p (children V cs) = dir_find V p (children V cs)"
      unfolding dir_find_def names ..
    then have e: "entries ?W cs p = map_option (\<lambda>b. (b, node_at ?W b)) (dir_find V p (children V cs))"
      by (simp add: entries_def ch)
    have found: "dir_find V name (children V cs) = Some x"
      using x by (auto simp: entries_def)
    show "entries ?W cs p = ((entries V cs)(name \<mapsto> (x, n))) p"
    proof (cases "p = name")
      case True
      then show ?thesis
        using e found n(1) by simp
    next
      case False
      then have "dir_find V p (children V cs) \<noteq> Some x"
        using dir_find_Some [of V p "children V cs" x] kid(2) by auto
      then show ?thesis
        using e False by (cases "dir_find V p (children V cs)") (auto simp: entries_def)
    qed
  qed
qed

lemma same_owner_permission: "same_owner n m \<Longrightarrow> node_permission n uid gid oper = node_permission m uid gid oper"
  by (simp add: same_owner_def node_permission_def)

lemma same_owner_is_dir: "same_owner n m \<Longrightarrow> node_is_dir n = node_is_dir m"
  by (simp add: same_owner_def node_is_dir_def)

text \<open>The user may search the root directory.\<close>

definition may_search :: "view \<Rightarrow> header \<Rightarrow> u32 \<Rightarrow> u32 \<Rightarrow> bool" where
  "may_search V H uid gid \<longleftrightarrow> node_permission (node_at V (hd_root H)) uid gid MODE_EXEC \<and> node_is_dir (node_at V (hd_root H))"

definition may_access :: "node \<Rightarrow> usize \<Rightarrow> u32 \<Rightarrow> u32 \<Rightarrow> bool" where
  "may_access n flags uid gid \<longleftrightarrow>
     (can_read flags \<longrightarrow> node_permission n uid gid MODE_READ) \<and> (can_write flags \<longrightarrow> node_permission n uid gid MODE_WRITE)"

lemma open_in_root:
  assumes fs: "live_fs i (sc_fs s) V N H" and wf: "dir_wf N V F (hd_root H) cs" and root: "hd_root H \<noteq> 0" "may_search V H uid gid"
    and p: "plain_name p" and x: "entries V cs p = Some (x, n)" "\<not> node_is_dir n"
    and flags: "\<not> has_flag flags (O_CREAT OR O_EXCL)" "\<not> has_flag flags O_DIRECTORY" "\<not> has_flag flags O_TRUNC"
  shows "\<exists>fs'. live_fs i fs' V N H \<and> file_open (live_image i) p flags uid gid s =
    (if may_access n flags uid gid then insert_resource (file_new p x flags) (s\<lparr>sc_fs := fs'\<rparr>)
     else (Returned (Err (Error EACCES)), s\<lparr>sc_fs := fs'\<rparr>))"
proof -
  obtain fs1 where fs1: "fs_path_nodes (live_image i) (url_path p) (sc_fs s) =
      Some ((Ok (x, n), [(hd_root H, node_at V (hd_root H))]), fs1)" "live_fs i fs1 V N H"
    using live_path [OF fs wf root(1) p] x(1) plain_path [OF p] by auto
  have "check_nodes [(hd_root H, node_at V (hd_root H))] uid gid = None"
    using root(2) by (simp add: may_search_def)
  note step = file_open_found [OF fs1(1) this]
  have "find_resource (live_image i) (url_path p) flags uid gid (Ok (x, n)) [(hd_root H, node_at V (hd_root H))] fs1 =
      Some (if may_access n flags uid gid then Ok (file_new p x flags) else Err (Error EACCES), fs1)"
    using x(2) flags plain_path [OF p] by (auto simp: find_resource_def open_existing_def may_access_def)
  then show ?thesis
    using step fs1(2) by (intro exI [of _ fs1]) (simp add: with_fs_def)
qed

text \<open>The node that \<open>open\<close> creates for a file.\<close>

definition created_node :: "usize \<Rightarrow> bytes \<Rightarrow> u64 \<Rightarrow> u32 \<Rightarrow> u32 \<Rightarrow> node" where
  "created_node flags p parent uid gid = (node_new (NODE_FILE OR (ucast flags AND NODE_PERM)) p parent)\<lparr>nd_uid := uid, nd_gid := gid\<rparr>"

lemma created_node_wf [simp]: "node_wf (created_node flags p parent uid gid)"
  using node_wf_intros(2) [of "NODE_FILE OR (ucast flags AND NODE_PERM)" p parent] by (simp add: created_node_def node_wf_def)

lemma create_in_root:
  assumes fs: "live_fs i (sc_fs s) V N H" and wf: "dir_wf N V (hd_free H) (hd_root H) cs"
    and root: "hd_root H \<noteq> 0" "may_search V H uid gid" "node_permission (node_at V (hd_root H)) uid gid MODE_WRITE"
    and p: "plain_name p" "entries V cs p = None" and free: "2 \<le> length (free_of_extents (nd_extents (node_at V (hd_free H))))"
    and flags: "has_flag flags O_CREAT" "\<not> has_flag flags O_DIRECTORY"
    and acc: "may_access (created_node flags p (hd_root H) uid gid) flags uid gid"
  shows "\<exists>x fs' V' cs'. file_open (live_image i) p flags uid gid s = insert_resource (file_new p x flags) (s\<lparr>sc_fs := fs'\<rparr>) \<and>
    live_fs i fs' V' N H \<and> dir_wf N V' (hd_free H) (hd_root H) cs' \<and> same_owner (node_at V' (hd_root H)) (node_at V (hd_root H)) \<and>
    entries V' cs' = (entries V cs)(p \<mapsto> (x, created_node flags p (hd_root H) uid gid))"
proof -
  let ?b = "hd_root H" and ?mode = "NODE_FILE OR (ucast flags AND NODE_PERM)"
  let ?n = "created_node flags p ?b uid gid"
  obtain fs1 where fs1: "fs_path_nodes (live_image i) (url_path p) (sc_fs s) =
      Some ((Err (Error ENOENT), [(?b, node_at V ?b)]), fs1)" "live_fs i fs1 V N H"
    using live_path [OF fs wf root(1) p(1)] p(2) plain_path [OF p(1)] by auto
  have "check_nodes [(?b, node_at V ?b)] uid gid = None"
    using root(2) by (simp add: may_search_def)
  note step = file_open_found [OF fs1(1) this]
  have good: "good_name p"
    using p(1) by (simp add: plain_name_def)
  obtain x fs2 V2 cs2 where c: "fs_create_node (live_image i) ?mode p ?b fs1 = Some (Ok (x, node_new ?mode p ?b), fs2)"
      "live_fs i fs2 V2 N H" "dir_wf N V2 (hd_free H) ?b cs2" "same_owner (node_at V2 ?b) (node_at V ?b)"
      "entries V2 cs2 = (entries V cs)(p \<mapsto> (x, node_new ?mode p ?b))"
    using live.image.create_in_dir [OF fs1(2) [unfolded live_fs_def] wf root(1) good, of ?mode, folded live_fs_def live_image_def]
      p(2) free by (elim exE conjE disjE) simp_all
  have x: "entries V2 cs2 p = Some (x, node_new ?mode p ?b)"
    by (simp add: c(5))
  have "node_name ?n = node_name (node_new ?mode p ?b)"
    by (simp add: created_node_def node_name_def)
  note rewritten = entries_rewrite [OF c(3) x created_node_wf this]
  have "x \<in> set (children V2 cs2)"
    using x entries_Some [OF c(3)] by simp
  then have inN: "x \<in> N" "x \<noteq> ?b"
    using dir_wf_inside(1,3,6) [OF c(3)] root(1) by (cases cs2; auto)+
  obtain fs3 where fs3: "fs_write_at (live_image i) x (encode_node ?n) fs2 = (Ok 512, fs3)" "live_fs i fs3 (V2(x := encode_node ?n)) N H"
    using live_write_at [OF c(2) inN(1), of "encode_node ?n"] by auto
  have "open_create (live_image i) p flags uid gid [(?b, node_at V ?b)] fs1 = Some (Ok (file_new p x flags), fs3)"
    using plain_path [OF p(1)] p(1) root(3) flags(2) c(1) fs3(1) acc
    by (simp add: open_create_def plain_name_def created_node_def may_access_def Let_def)
  then have "file_open (live_image i) p flags uid gid s = insert_resource (file_new p x flags) (s\<lparr>sc_fs := fs3\<rparr>)"
    using step flags(1) plain_path [OF p(1)] by (simp add: find_resource_def with_fs_def)
  moreover have "same_owner (node_at (V2(x := encode_node ?n)) ?b) (node_at V ?b)"
    using c(4) inN(2) by simp
  moreover have "entries (V2(x := encode_node ?n)) cs2 = (entries V cs)(p \<mapsto> (x, ?n))"
    unfolding rewritten(2) by (simp add: c(5))
  ultimately show ?thesis
    using fs3(2) rewritten(1) by blast
qed

lemma insert_resource_get:
  "insert_resource r s = (Returned (Ok (next_id (sc_files s))), snd (insert_resource r s))"
  "get_handle (sc_files (snd (insert_resource r s))) (next_id (sc_files s)) e = Ok r"
  "next_id (sc_files (snd (insert_resource r s))) = next_id (sc_files s) + 1" "sc_fs (snd (insert_resource r s)) = sc_fs s"
  by (simp_all add: insert_resource_def add_handle_def get_handle_def)


section \<open>Position and access mode\<close>

lemma seek_to_start:
  assumes "unat sz < 2 ^ 63" "whence \<in> {SEEK_SET, SEEK_CUR, SEEK_END}"
  shows "seek_to sz seek offset whence = Ok 0"
proof -
  have "uint sz < 2 ^ 63"
    using assms(1) by (metis of_nat_less_iff of_nat_numeral of_nat_power uint_nat)
  then have "0 \<le> sint sz"
    by (simp add: sint_i64)
  then have "min 0 (max (sint sz) k) = 0" for k :: int
    by linarith
  then show ?thesis
    using assms(2) by (auto simp: seek_to_def)
qed

lemma bt_modify_twice: "bt_modify k (\<lambda>_. v) (bt_modify k (\<lambda>_. v) m) = bt_modify k (\<lambda>_. v) m"
  by (induction m) auto

text \<open>C40. 
  A handle keeps neither its position nor its access mode. \<open>seek\<close> on a file goes to its start, whatever position
  is asked for, because \<open>min\<close> and \<open>max\<close> are exchanged; and after \<open>fcntl\<close> with \<open>F_SETFL\<close> the handle can neither be
  read nor written, whatever flags are given, because the new flags have no access mode.
\<close>

theorem handle_loses_position_and_mode:
  assumes "get_handle (sc_files s) i EBADF = Ok (File r)" "fs_node_len D (fr_block r) (sc_fs s) = Some (Ok sz, fs')"
    and "unat sz < 2 ^ 63" "whence \<in> {SEEK_SET, SEEK_CUR, SEEK_END}"
  shows "file_seek D i pos whence s = (Returned (Ok 0), put_resource i (File (r\<lparr>fr_seek := 0\<rparr>)) (s\<lparr>sc_fs := fs'\<rparr>)) \<and>
    (\<exists>s'. file_fcntl i F_SETFL arg s = (Returned (Ok 0), s') \<and>
       file_read D i buf s' = (Returned (Err (Error EBADF), buf), s') \<and> file_write D i buf s' = (Returned (Err (Error EBADF)), s'))"
proof -
  have h: "bt_get (handles (sc_files s)) i = Some (File r)"
    using assms(1) by (cases "bt_get (handles (sc_files s)) i") (auto simp: get_handle_def)
  have "(arg AND NOT O_ACCMODE) AND O_ACCMODE = 0"
    by (rule bit_word_eqI) (auto simp: bit_simps)
  then have mode: "\<not> can_read (arg AND NOT O_ACCMODE)" "\<not> can_write (arg AND NOT O_ACCMODE)"
    unfolding can_read_def can_write_def by (simp_all del: O_ACCMODE_def)
  let ?s = "put_resource i (File (r\<lparr>fr_flags := arg AND NOT O_ACCMODE\<rparr>)) s"
  have get: "get_handle (sc_files ?s) i EBADF = Ok (File (r\<lparr>fr_flags := arg AND NOT O_ACCMODE\<rparr>))"
    using h by (simp add: put_resource_def set_handle_def get_handle_def del: O_ACCMODE_def)
  have same: "put_resource i (File (r\<lparr>fr_flags := arg AND NOT O_ACCMODE\<rparr>)) (?s\<lparr>sc_fs := sc_fs ?s\<rparr>) = ?s"
    by (simp add: put_resource_def set_handle_def bt_modify_twice del: O_ACCMODE_def)
  have "file_seek D i pos whence s = (Returned (Ok 0), put_resource i (File (r\<lparr>fr_seek := 0\<rparr>)) (s\<lparr>sc_fs := fs'\<rparr>))"
    using assms seek_to_start [OF assms(3,4)] by (simp add: file_seek_def with_fs_def)
  moreover have "file_fcntl i F_SETFL arg s = (Returned (Ok 0), ?s)"
    using assms(1) by (simp add: file_fcntl_def del: O_ACCMODE_def)
  moreover have "file_read D i buf ?s = (Returned (Err (Error EBADF), buf), ?s)" "file_write D i buf ?s = (Returned (Err (Error EBADF)), ?s)"
    using get same mode by (simp_all add: file_read_def file_write_def with_fs_def del: O_ACCMODE_def)
  ultimately show ?thesis
    by blast
qed

section \<open>A small file system\<close>

text \<open>The scheme on the file systems of \<open>Redoxfs_Directories\<close> and \<open>Redoxfs_Contents\<close>, with no files open.\<close>

definition dir_scheme :: "live_disk image file_scheme" where
  "dir_scheme = scheme_new (bytes_of ''file'') (fs_on dir_sectors small_header)"

lemma dir_scheme_fields [simp]: "sc_fs dir_scheme = fs_on dir_sectors small_header" "next_id (sc_files dir_scheme) = 1"
  by (simp_all add: dir_scheme_def scheme_new_def new_table_def)

lemma small_root: "hd_root small_header = 1"
  by (simp add: small_header_def header_new_def)

lemma small_search: "may_search (view_on dir_sectors) small_header uid gid"
proof -
  have "nd_mode dir_root = 0x41ED"
    by (simp add: dir_root_def node_new_def NODE_DIR_def)
  then show ?thesis
    by (simp add: may_search_def small_root dir_nodes node_permission_def node_is_dir_def NODE_TYPE_def NODE_DIR_def MODE_EXEC_def
        bit.conj_disj_distrib2 Let_def and.assoc)
qed

lemma small_plain: "plain_name (bytes_of ''a'')" "plain_name (bytes_of ''b'')"
  by (simp_all add: plain_name_def good_name_def bytes_of_def)



text \<open>The file of four bytes, open for reading and writing.\<close>

definition file_handle :: file_resource where
  "file_handle = \<lparr>fr_path = bytes_of ''a'', fr_block = 3, fr_flags = O_RDWR, fr_seek = 0\<rparr>"

definition one_file :: "live_disk image file_scheme" where
  "one_file = snd (insert_resource (File file_handle) (scheme_new (bytes_of ''file'') (fs_on small_sectors small_header)))"

lemma funpow_same: "((\<lambda>s. s) ^^ k) n = n"
  by (induction k) simp_all

theorem handle_loses_position_and_mode_witness:
  "\<exists>s1 s2. file_seek (live_image 0) 1 2 SEEK_SET one_file = (Returned (Ok 0), s1) \<and>
     file_fcntl 1 F_SETFL O_RDWR one_file = (Returned (Ok 0), s2) \<and>
     file_read (live_image 0) 1 [0, 0] s2 = (Returned (Err (Error EBADF), [0, 0]), s2)"
proof -
  have h: "get_handle (sc_files one_file) 1 EBADF = Ok (File file_handle)" "sc_fs one_file = fs_on small_sectors small_header"
    by (simp_all add: one_file_def insert_resource_def scheme_new_def add_handle_def new_table_def get_handle_def)
  have fs: "live_fs 0 (fs_on small_sectors small_header) (view_on small_sectors) {b. unat b < 6} small_header"
    using live_fs_on [OF small_sectors_length(1)] small_sectors_length(2) by simp
  obtain fs' where "fs_node (live_image 0) 3 (fs_on small_sectors small_header) = (Ok (3, node_at (view_on small_sectors) 3), fs')"
    using live_node [OF fs, of 3] by auto
  then have "fs_node_len (live_image 0) (fr_block file_handle) (sc_fs one_file) = Some (Ok 4, fs')"
    by (subst fs_node_len.simps) (simp add: h(2) file_handle_def small_nodes small_node_def node_new_def funpow_same)
  from handle_loses_position_and_mode [OF h(1) this, of SEEK_SET 2 O_RDWR "[0, 0]"] show ?thesis
    by auto
qed

end
