(* ===== verification/Sys_Scheme.thy ===== *)
theory Sys_Scheme
  imports Memory_Files Scheme_List Contexts
begin

text \<open>
  The \<open>sys:\<close> scheme (\<open>kernel/scheme/sys\<close>): text files about the system, made when they are opened. What
  the resources look at is the record \<open>sys_world\<close>; the CPU description (\<open>arch::device::cpu::cpu_info\<close>)
  and the frame counts are read from it.
\<close>

section \<open>Formatting\<close>

text \<open>\<open>{}\<close> of an unsigned integer, \<open>{:<n}\<close> of a string.\<close>

fun decimal :: "nat \<Rightarrow> bytes" where
  "decimal n = (if n < 10 then [48 + of_nat n] else decimal (n div 10) @ [48 + of_nat (n mod 10)])"

declare decimal.simps [simp del]

definition pad :: "nat \<Rightarrow> bytes \<Rightarrow> bytes" where
  "pad n s = s @ replicate (n - length s) 32"

abbreviation newline :: u8 where "newline \<equiv> 10"

section \<open>Resources\<close>

record sys_world =
  sw_contexts :: context_list
  sw_current :: usize
  sw_schemes :: scheme_list
  sw_names :: "ref \<Rightarrow> bytes"
  sw_sizes :: "ref \<Rightarrow> usize"
  sw_used_frames :: usize
  sw_free_frames :: usize
  sw_cpu_count :: usize
  sw_cpu_info :: "bytes option"

text \<open>\<open>sys/context.rs\<close>: the columns of one context.\<close>

definition stat_string :: "ctx \<Rightarrow> bytes" where
  "stat_string c =
     bytes_of (if stack c \<noteq> None then ''U'' else ''K'') @
     bytes_of (case status c of
        Runnable \<Rightarrow> ''R''
      | Blocked \<Rightarrow> (if wake c \<noteq> None then ''S'' else ''B'')
      | Exited _ \<Rightarrow> ''Z'') @
     (if running c then bytes_of ''+'' else [])"

definition cpu_string :: "ctx \<Rightarrow> bytes" where
  "cpu_string c = (case cpu_id c of Some i \<Rightarrow> decimal (unat i) | None \<Rightarrow> bytes_of ''?'')"

definition context_memory :: "(ref \<Rightarrow> usize) \<Rightarrow> ctx \<Rightarrow> usize" where
  "context_memory sizes c =
     (let m1 = (case kstack c of Some st \<Rightarrow> of_nat (length st) | None \<Rightarrow> 0);
          m2 = m1 + (case kstack c of Some st \<Rightarrow> of_nat (length st) | None \<Rightarrow> 0);
          m3 = fold (\<lambda>r m. m + sizes r) (image c) m2;
          m4 = m3 + (case heap c of Some h \<Rightarrow> sizes h | None \<Rightarrow> 0)
      in m4 + (case stack c of Some st \<Rightarrow> mem_size st | None \<Rightarrow> 0))"

definition memory_string :: "usize \<Rightarrow> bytes" where
  "memory_string m =
     (let n = unat m
      in if n \<ge> 1024 * 1024 * 1024 then decimal (n div 1024 div 1024 div 1024) @ bytes_of '' GB''
         else if n \<ge> 1024 * 1024 then decimal (n div 1024 div 1024) @ bytes_of '' MB''
         else if n \<ge> 1024 then decimal (n div 1024) @ bytes_of '' KB''
         else decimal n @ bytes_of '' B'')"

definition context_columns :: "bytes list \<Rightarrow> bytes \<Rightarrow> bytes \<Rightarrow> bytes" where
  "context_columns six mem name = concat (map (pad 6) six) @ pad 8 mem @ name @ [newline]"

definition context_header :: bytes where
  "context_header =
     context_columns (map bytes_of [''PID'', ''PPID'', ''RUID'', ''RGID'', ''RNS'', ''EUID'', ''EGID'', ''ENS'', ''STAT'', ''CPU''])
       (bytes_of ''MEM'') (bytes_of ''NAME'')"

definition context_line :: "sys_world \<Rightarrow> ctx \<Rightarrow> bytes" where
  "context_line w c =
     (let name = sw_names w (name_ref c)
      in context_columns
           [decimal (unat (ctx_id c)), decimal (unat (ppid c)), decimal (unat (ruid c)), decimal (unat (rgid c)),
            decimal (unat (rns c)), decimal (unat (euid c)), decimal (unat (egid c)), decimal (unat (ens c)),
            stat_string c, cpu_string c]
           (memory_string (context_memory (sw_sizes w) c))
           (if valid_utf8 name then name else []))"

definition context_resource :: "sys_world \<Rightarrow> bytes result outcome" where
  "context_resource w =
     Return (Ok (context_header @ concat (map (\<lambda>e. context_line w (snd e)) (ctx_map (sw_contexts w)))))"

text \<open>\<open>sys/cpu.rs\<close>; \<open>cpu_info\<close> appends to the string or fails.\<close>

definition cpu_resource :: "sys_world \<Rightarrow> bytes result outcome" where
  "cpu_resource w =
     Return (case sw_cpu_info w of
        Some info \<Rightarrow> Ok (bytes_of ''CPUs: '' @ decimal (unat (sw_cpu_count w)) @ [newline] @ info)
      | None \<Rightarrow> Err (Error EIO))"

definition exe_resource :: "sys_world \<Rightarrow> bytes result outcome" where
  "exe_resource w =
     Return (case get_context (sw_contexts w) (sw_current w) of
        None \<Rightarrow> Err (Error ESRCH)
      | Some c \<Rightarrow> Ok (sw_names w (name_ref c) @ [newline]))"

definition memory_resource :: "sys_world \<Rightarrow> bytes result outcome" where
  "memory_resource w =
     Return (Ok (bytes_of ''Memory Used: '' @ decimal (unat (sw_used_frames w * 4)) @ bytes_of '' KB'' @ [newline] @
       bytes_of ''Memory Free: '' @ decimal (unat (sw_free_frames w * 4)) @ bytes_of '' KB'' @ [newline]))"

definition scheme_resource :: "sys_world \<Rightarrow> bytes result outcome" where
  "scheme_resource w =
     (case get_context (sw_contexts w) (sw_current w) of
        None \<Rightarrow> Return (Err (Error ESRCH))
      | Some c \<Rightarrow>
          bind_outcome (iter_name (sw_schemes w) (ens c))
            (\<lambda>names. Return (Ok (concat (map (\<lambda>e. fst e @ [newline]) names)))))"

section \<open>The scheme (sys/mod.rs)\<close>

type_synonym sys_fn = "sys_world \<Rightarrow> bytes result outcome"

definition sys_files :: "(bytes, sys_fn) btree_map" where
  "sys_files =
     bt_insert (bytes_of ''scheme'') scheme_resource
      (bt_insert (bytes_of ''memory'') memory_resource
        (bt_insert (bytes_of ''exe'') exe_resource
          (bt_insert (bytes_of ''cpu'') cpu_resource
            (bt_insert (bytes_of ''context'') context_resource bt_empty))))"

record sys_scheme =
  sy_table :: mem_table
  sy_world :: sys_world

definition sys_new :: "sys_world \<Rightarrow> sys_scheme" where
  "sys_new w = \<lparr>sy_table = new_table 0, sy_world = w\<rparr>"

text \<open>The listing of the file names, separated by newlines.\<close>

fun join_names :: "bytes \<Rightarrow> (bytes, 'v) btree_map \<Rightarrow> bytes" where
  "join_names acc [] = acc"
| "join_names acc (e # es) = join_names ((if acc = [] then [] else acc @ [newline]) @ fst e) es"

text \<open>The identifier is drawn before the resource is made, so a failing resource uses one up.\<close>

definition sys_open :: "bytes \<Rightarrow> usize \<Rightarrow> u32 \<Rightarrow> u32 \<Rightarrow> (usize result, sys_scheme) op" where
  "sys_open path flags uid gid s =
     (let name = trim_slashes path
      in if \<not> valid_utf8 path then (Returned (Err (Error ENOENT)), s)
         else if name = [] then
           let (i, t) = add_handle (sy_table s)
                 \<lparr>h_path = [], h_data = join_names [] sys_files, h_mode = MODE_DIR OR 292, h_seek = 0\<rparr>
           in (Returned (Ok i), s\<lparr>sy_table := t\<rparr>)
         else (case bt_get sys_files name of
                 None \<Rightarrow> (Returned (Err (Error ENOENT)), s)
               | Some f \<Rightarrow>
                   (case f (sy_world s) of
                      Panic \<Rightarrow> (Crashes, s)
                    | Return (Err e) \<Rightarrow> (Returned (Err e), s\<lparr>sy_table := (sy_table s)\<lparr>next_id := next_id (sy_table s) + 1\<rparr>\<rparr>)
                    | Return (Ok data) \<Rightarrow>
                        let (i, t) = add_handle (sy_table s)
                              \<lparr>h_path = name, h_data = data, h_mode = MODE_FILE OR 292, h_seek = 0\<rparr>
                        in (Returned (Ok i), s\<lparr>sy_table := t\<rparr>))))"

definition sys_dup :: "usize \<Rightarrow> bytes \<Rightarrow> (usize result, sys_scheme) op" where
  "sys_dup i buf s = (let (r, t) = mh_dup i (sy_table s) in (Returned r, s\<lparr>sy_table := t\<rparr>))"

definition sys_read :: "usize \<Rightarrow> bytes \<Rightarrow> (usize result \<times> bytes, sys_scheme) op" where
  "sys_read i buf s = (let (r, t) = mh_read i buf (sy_table s) in (Returned r, s\<lparr>sy_table := t\<rparr>))"

definition sys_seek :: "usize \<Rightarrow> usize \<Rightarrow> usize \<Rightarrow> (usize result, sys_scheme) op" where
  "sys_seek i pos whence s = (let (r, t) = mh_seek i pos whence (sy_table s) in (Returned r, s\<lparr>sy_table := t\<rparr>))"

definition sys_fpath :: "usize \<Rightarrow> bytes \<Rightarrow> (usize result \<times> bytes, sys_scheme) op" where
  "sys_fpath i buf s = (Returned (mh_fpath (bytes_of ''sys:'') i buf (sy_table s)), s)"

definition sys_fstat :: "usize \<Rightarrow> stat \<Rightarrow> (usize result \<times> stat, sys_scheme) op" where
  "sys_fstat i st s = (Returned (mh_fstat i st (sy_table s)), s)"

definition sys_fsync :: "usize \<Rightarrow> (usize result, sys_scheme) op" where
  "sys_fsync i = returns (Ok 0)"

definition sys_close :: "usize \<Rightarrow> (usize result, sys_scheme) op" where
  "sys_close i s = (let (r, t) = close_handle (sy_table s) i EBADF in (Returned r, s\<lparr>sy_table := t\<rparr>))"

definition sys_ops :: "sys_scheme scheme_ops" where
  "sys_ops = default_ops
     \<lparr>op_open := sys_open, op_dup := sys_dup, op_read := sys_read, op_seek := sys_seek,
      op_fpath := sys_fpath, op_fstat := sys_fstat, op_fsync := sys_fsync, op_close := sys_close\<rparr>"

lemma sys_ops_simps [simp]:
  "op_read sys_ops = sys_read" "op_seek sys_ops = sys_seek" "op_fpath sys_ops = sys_fpath"
  by (simp_all add: sys_ops_def)

interpretation sys: file_scheme sys_ops "\<lambda>s. mem_contents (sy_table s)" "\<lambda>s. mem_cursor (sy_table s)"
    "\<lambda>s. mem_inv (sy_table s)"
proof unfold_locales
  fix s :: sys_scheme and i d buf buf' n k pos whence r s'
  show "op_read sys_ops i buf s = (Returned (r, buf'), s') \<Longrightarrow> length buf' = length buf"
    by (auto simp: sys_read_def mh_read_length split: prod.splits)
  show "op_fpath sys_ops i buf s = (Returned (r, buf'), s') \<Longrightarrow> length buf' = length buf"
    by (auto simp: sys_fpath_def mh_fpath_length)
  assume inv: "mem_inv (sy_table s)" and d: "mem_contents (sy_table s) i = Some d"
  show "length d < 2 ^ 63"
    using inv d by (simp add: mem_inv_def)
  show "\<exists>s'. op_read sys_ops i buf s = (Returned (Ok n, buf'), s') \<and> mem_inv (sy_table s') \<and>
      mem_contents (sy_table s') = mem_contents (sy_table s) \<and> mem_cursor (sy_table s') i = k"
    if "read_at d (mem_cursor (sy_table s) i) buf = (buf', n, k)"
    using mh_read_contents [OF inv d that] by (auto simp: sys_read_def)
  show "\<exists>s'. op_seek sys_ops i pos whence s = (Returned (Ok k), s') \<and> mem_inv (sy_table s') \<and>
      mem_contents (sy_table s') = mem_contents (sy_table s) \<and> mem_cursor (sy_table s') i = k"
    if "seek_in d (mem_cursor (sy_table s) i) pos whence = Ok k"
    using mh_seek_cursor [OF inv d that] by (auto simp: sys_seek_def)
qed

section \<open>Properties\<close>

lemma sys_files_scheme [simp]: "bt_get sys_files (bytes_of ''scheme'') = Some scheme_resource"
  by (simp add: sys_files_def)

lemma fold_plus_shift: "fold (\<lambda>r m. m + f r) rs (a + b :: usize) = a + fold (\<lambda>r m. m + f r) rs b"
  by (induction rs arbitrary: b) (simp_all add: add.assoc)

text \<open>The kernel stack of a context is counted twice, its FX area not at all.\<close>

lemma context_memory_kstack_twice:
  "kstack c = Some st \<Longrightarrow>
   context_memory sizes c = of_nat (length st) + context_memory sizes (c\<lparr>kstack := None\<rparr>) + of_nat (length st)"
  using fold_plus_shift [of sizes "image c" "of_nat (length st) + of_nat (length st)" 0]
  by (simp add: context_memory_def Let_def algebra_simps)

text \<open>
  \<open>sys:\<close> gives snapshots: opening the file of a resource whose text fits a vector returns a new handle,
  and whatever happens to the system afterwards, reading the handle in pieces that together reach the
  text's length gives exactly the text that the resource had when the file was opened. For \<open>sys:scheme\<close>
  this text is the names of the caller's namespace in order, each followed by a newline.
\<close>

theorem sys_snapshot:
  assumes "table_wf (sy_table s)" "table_room (sy_table s)" "mem_inv (sy_table s)"
    and "valid_utf8 path" "trim_slashes path = name" "name \<noteq> []" "bt_get sys_files name = Some f"
    and "f (sy_world s) = Return (Ok body)" "length body < 2 ^ 63" "length body \<le> sum_list (map length bufs)"
  shows "(\<exists>i s1. sys_open path flags uid gid s = (Returned (Ok i), s1) \<and> bt_get (handles (sy_table s)) i = None \<and>
    (\<forall>w. \<exists>s2. read_many sys_ops i bufs (s1\<lparr>sy_world := w\<rparr>) = (body, s2))) \<and>
    (\<forall>c names. name = bytes_of ''scheme'' \<longrightarrow> get_context (sw_contexts (sy_world s)) (sw_current (sy_world s)) = Some c \<longrightarrow>
       bt_get (sl_names (sw_schemes (sy_world s))) (ens c) = Some names \<longrightarrow>
       body = concat (map (\<lambda>n. n @ [newline]) (bt_keys names)))"
proof -
  define h where "h = \<lparr>h_path = name, h_data = body, h_mode = MODE_FILE OR 292, h_seek = 0\<rparr>"
  obtain i t where add: "add_handle (sy_table s) h = (i, t)"
    by (cases "add_handle (sy_table s) h")
  have open1: "sys_open path flags uid gid s = (Returned (Ok i), s\<lparr>sy_table := t\<rparr>)"
    using assms(4-8) add by (simp add: sys_open_def h_def Let_def)
  have fresh: "bt_get (handles (sy_table s)) i = None"
    using add_handle_fresh [OF assms(1), of h] add by simp
  have c: "mem_contents t = (mem_contents (sy_table s))(i \<mapsto> body)" and k: "mem_cursor t i = 0"
    using add by (auto simp: add_handle_def mem_contents_def mem_cursor_def h_def fun_eq_iff)
  have inv: "mem_inv t"
    using assms(3,9) unfolding mem_inv_def c by simp
  have "\<exists>s2. read_many sys_ops i bufs (s\<lparr>sy_table := t, sy_world := w\<rparr>) = (body, s2)" for w
    using sys.read_many_contents [of "s\<lparr>sy_table := t, sy_world := w\<rparr>" i body bufs] inv c k assms(10) by auto
  moreover have "body = concat (map (\<lambda>n. n @ [newline]) (bt_keys names))"
    if "name = bytes_of ''scheme''" "get_context (sw_contexts (sy_world s)) (sw_current (sy_world s)) = Some c"
      "bt_get (sl_names (sw_schemes (sy_world s))) (ens c) = Some names" for c names
    using that assms(7,8) by (simp add: scheme_resource_def iter_name_def bt_keys_def comp_def)
  ultimately show ?thesis
    using open1 fresh by auto
qed

definition small_world :: sys_world where
  "small_world = \<lparr>sw_contexts = empty_contexts, sw_current = 1, sw_schemes = one_namespace, sw_names = (\<lambda>_. []),
     sw_sizes = (\<lambda>_. 0), sw_used_frames = 1, sw_free_frames = 2, sw_cpu_count = 1, sw_cpu_info = Some [120]\<rparr>"

theorem sys_snapshot_witness:
  "\<exists>i s1. sys_open (bytes_of ''cpu'') 0 0 0 (sys_new small_world) = (Returned (Ok i), s1) \<and>
     (\<exists>s2. read_many sys_ops i [replicate 4 0, replicate 6 0] s1 = (bytes_of ''CPUs: 1'' @ [newline, 120], s2))"
proof -
  let ?s = "sys_new small_world"
  have wf: "table_wf (sy_table ?s)" "table_room (sy_table ?s)" "mem_inv (sy_table ?s)"
    by (auto simp: sys_new_def table_room_def new_table_def table_wf_def mem_inv_def mem_contents_def
        word_less_nat_alt unat_usize_max)
  have p: "valid_utf8 (bytes_of ''cpu'')" "trim_slashes (bytes_of ''cpu'') = bytes_of ''cpu''" "bytes_of ''cpu'' \<noteq> []"
    by (simp_all add: bytes_of_def trim_slashes_def)
  have f: "bt_get sys_files (bytes_of ''cpu'') = Some cpu_resource"
    by (simp add: sys_files_def)
  have tx: "cpu_resource (sy_world ?s) = Return (Ok (bytes_of ''CPUs: 1'' @ [newline, 120]))"
    by (simp add: cpu_resource_def sys_new_def small_world_def bytes_of_def decimal.simps)
  have l: "length (bytes_of ''CPUs: 1'' @ [newline, 120]) < 2 ^ 63"
    "length (bytes_of ''CPUs: 1'' @ [newline, 120]) \<le> sum_list (map length [replicate 4 (0 :: u8), replicate 6 0])"
    by (simp_all add: bytes_of_def)
  obtain i s1 where rr: "sys_open (bytes_of ''cpu'') 0 0 0 ?s = (Returned (Ok i), s1)"
      "\<And>w. \<exists>s2. read_many sys_ops i [replicate 4 0, replicate 6 0] (s1\<lparr>sy_world := w\<rparr>) = (bytes_of ''CPUs: 1'' @ [newline, 120], s2)"
    using sys_snapshot [OF wf p f tx l, of 0 0 0] by blast
  show ?thesis
    using rr(1) rr(2) [of "sy_world s1"] by auto
qed

end
