(* ===== verification/Time.thy ===== *)
theory Time
  imports Scheduler
begin

text \<open>
  Time (\<open>kernel/syscall/time.rs\<close>, \<open>arch/x86_64/src/time.rs\<close>): the clocks are pairs of seconds and
  nanoseconds; \<open>START\<close> is the wall clock at boot, \<open>OFFSET\<close> the time since then, advanced by the timer
  interrupt.
\<close>

section \<open>Operations\<close>

record clocks =
  clock_start :: "u64 \<times> u64"
  clock_offset :: "u64 \<times> u64"

definition monotonic :: "clocks \<Rightarrow> u64 \<times> u64" where
  "monotonic k = clock_offset k"

definition realtime :: "clocks \<Rightarrow> u64 \<times> u64" where
  "realtime k =
     (let offset = monotonic k; start = clock_start k; sum = snd start + snd offset
      in (fst start + fst offset + sum div 1000000000, sum mod 1000000000))"

definition clock_gettime :: "usize \<Rightarrow> clocks \<Rightarrow> time_spec \<Rightarrow> usize result \<times> time_spec" where
  "clock_gettime clock k time =
     (if clock = CLOCK_REALTIME then (Ok 0, time\<lparr>tv_sec := fst (realtime k), tv_nsec := ucast (snd (realtime k))\<rparr>)
      else if clock = CLOCK_MONOTONIC then (Ok 0, time\<lparr>tv_sec := fst (monotonic k), tv_nsec := ucast (snd (monotonic k))\<rparr>)
      else (Err (Error EINVAL), time))"

text \<open>When a sleep of \<open>req\<close> that starts now ends; \<open>tv_nsec\<close> is sign-extended.\<close>

definition sleep_end :: "u64 \<times> u64 \<Rightarrow> time_spec \<Rightarrow> u64 \<times> u64" where
  "sleep_end start req =
     (let sum = snd start + scast (tv_nsec req)
      in (fst start + tv_sec req + sum div 1000000000, sum mod 1000000000))"

text \<open>\<open>nanosleep\<close> up to \<open>context::switch\<close>, and what it does when the context is next scheduled.\<close>

definition nanosleep_start :: "usize \<Rightarrow> clocks \<Rightarrow> time_spec \<Rightarrow> context_list \<Rightarrow> usize result attempt \<times> context_list" where
  "nanosleep_start cur k req l =
     (case get_context l cur of
        None \<Rightarrow> (Returned (Err (Error ESRCH)), l)
      | Some _ \<Rightarrow> (Waits, set_context l cur (\<lambda>c. fst (block (c\<lparr>wake := Some (sleep_end (monotonic k) req)\<rparr>)))))"

definition nanosleep_finish :: "time_spec option \<Rightarrow> usize result \<times> time_spec option" where
  "nanosleep_finish rem = (Ok 0, map_option (\<lambda>t. t\<lparr>tv_sec := 0, tv_nsec := 0\<rparr>) rem)"

definition sched_yield :: "usize \<Rightarrow> (usize \<Rightarrow> u64 \<times> u64) \<Rightarrow> usize \<Rightarrow> context_list \<Rightarrow>
    (usize result \<times> usize \<times> u8 option \<times> context_list) outcome" where
  "sched_yield cpu now cur l =
     bind_outcome (switch cpu now cur l) (\<lambda>(_, cur', sig, l'). Return (Ok 0, cur', sig, l'))"

section \<open>Lemmas\<close>

text \<open>A time in nanoseconds.\<close>

definition nanoseconds :: "u64 \<times> u64 \<Rightarrow> nat" where
  "nanoseconds t = unat (fst t) * 1000000000 + unat (snd t)"

definition reached :: "u64 \<times> u64 \<Rightarrow> u64 \<times> u64 \<Rightarrow> bool" where
  "reached now w \<longleftrightarrow> fst now > fst w \<or> (fst now = fst w \<and> snd now \<ge> snd w)"

lemma reached_nanoseconds:
  assumes "unat (snd now) < 1000000000" "unat (snd w) < 1000000000"
  shows "reached now w \<longleftrightarrow> nanoseconds w \<le> nanoseconds now"
proof (cases "unat (fst now)" "unat (fst w)" rule: linorder_cases)
  case less
  then have "Suc (unat (fst now)) * 1000000000 \<le> unat (fst w) * 1000000000"
    by (intro mult_le_mono1) simp
  then show ?thesis
    using less assms by (auto simp: reached_def nanoseconds_def word_less_nat_alt)
next
  case equal
  then show ?thesis
    by (simp add: reached_def nanoseconds_def word_le_nat_alt)
next
  case greater
  then have "Suc (unat (fst w)) * 1000000000 \<le> unat (fst now) * 1000000000"
    by (intro mult_le_mono1) simp
  then show ?thesis
    using greater assms by (auto simp: reached_def nanoseconds_def word_less_nat_alt)
qed

lemma add_times:
  assumes "unat a + unat b + 2 < 2 ^ 64" "unat n < 2000000000" "t = (a + b + n div 1000000000, n mod 1000000000)"
  shows "nanoseconds t = (unat a + unat b) * 1000000000 + unat n \<and> unat (snd t) < 1000000000"
proof -
  have q: "unat (n div 1000000000 :: u64) = unat n div 1000000000"
    by (simp add: unat_div)
  have r: "unat (n mod 1000000000 :: u64) = unat n mod 1000000000"
    by (simp add: unat_mod)
  have "unat n div 1000000000 < 2"
    using assms(2) by (intro less_mult_imp_div_less) simp
  then have "unat (a + b + n div 1000000000) = unat a + unat b + unat n div 1000000000"
    using assms(1) q by (simp add: unat_word_ariths)
  then show ?thesis
    using r by (simp add: nanoseconds_def assms(3) algebra_simps)
qed

lemma unat_scast_nonneg: "0 \<le> sint (w :: i32) \<Longrightarrow> unat (scast w :: u64) = nat (sint w)"
proof -
  assume nn: "0 \<le> sint w"
  have "sint w < 2 ^ 31"
    using uint_lt2p [of w] by (simp add: sint_i32)
  then have "sint w mod 2 ^ 64 = sint w"
    using nn by (intro mod_pos_pos_trivial) auto
  moreover have "uint (scast w :: u64) = sint w mod 2 ^ 64"
    by (simp only: scast_eq uint_word_of_int) simp
  ultimately show ?thesis
    by (simp add: unat_eq_nat_uint)
qed

lemma sleep_end_exact:
  assumes "unat (snd start) < 1000000000" "0 \<le> sint (tv_nsec req)" "sint (tv_nsec req) < 1000000000"
    and "unat (fst start) + unat (tv_sec req) + 2 < 2 ^ 64"
  shows "nanoseconds (sleep_end start req) = nanoseconds start + unat (tv_sec req) * 1000000000 + nat (sint (tv_nsec req)) \<and>
    unat (snd (sleep_end start req)) < 1000000000"
proof -
  define n where "n = snd start + (scast (tv_nsec req) :: u64)"
  have "unat (scast (tv_nsec req) :: u64) = nat (sint (tv_nsec req))"
    using assms(2) by (rule unat_scast_nonneg)
  then have n: "unat n = unat (snd start) + nat (sint (tv_nsec req))"
    using assms(1,3) by (simp add: n_def unat_word_ariths)
  then have "unat n < 2000000000"
    using assms(1,3) by linarith
  from add_times [OF assms(4) this, of "sleep_end start req"] show ?thesis
    using n by (simp add: sleep_end_def Let_def n_def nanoseconds_def algebra_simps)
qed

lemma check_context_sleeping:
  assumes "status c = Blocked" "pending c = []" "wake c = Some w"
  shows "eligible cpu now c \<longleftrightarrow>
    (cpu_id c = Some cpu \<or> cpu_id c = None \<and> cpu = 0) \<and> reached now w \<and> \<not> running c"
  using assms by (auto simp: eligible_def check_context_def reached_def unblock_def Let_def)

section \<open>Properties\<close>

text \<open>
  \<open>nanosleep\<close> sleeps as long as it is asked to: for a well-formed request that does not overflow the
  clock, the caller is blocked, and as long as no signal is pending for it the scheduler cannot choose it
  at a clock reading before the start time plus the requested time, but can choose it, on its CPU, at any
  reading from then on.
\<close>

theorem nanosleep_duration:
  assumes "get_context l cur = Some c" "status c = Runnable" "pending c = []" "cpu_id c = Some cpu"
    and "unat (snd (monotonic k)) < 1000000000" "0 \<le> sint (tv_nsec req)" "sint (tv_nsec req) < 1000000000"
    and "unat (fst (monotonic k)) + unat (tv_sec req) + 2 < 2 ^ 64"
  shows "\<exists>l' d. nanosleep_start cur k req l = (Waits, l') \<and> get_context l' cur = Some d \<and> status d = Blocked \<and>
    (\<forall>now. unat (snd now) < 1000000000 \<longrightarrow>
       (eligible cpu now (d\<lparr>running := False\<rparr>) \<longleftrightarrow>
        nanoseconds (monotonic k) + unat (tv_sec req) * 1000000000 + nat (sint (tv_nsec req)) \<le> nanoseconds now))"
proof -
  define w where "w = sleep_end (monotonic k) req"
  define d where "d = c\<lparr>wake := Some w, status := Blocked\<rparr>"
  have start: "nanosleep_start cur k req l = (Waits, set_context l cur (\<lambda>c. fst (block (c\<lparr>wake := Some w\<rparr>))))"
    using assms(1) by (simp add: nanosleep_start_def w_def)
  have get: "get_context (set_context l cur (\<lambda>c. fst (block (c\<lparr>wake := Some w\<rparr>)))) cur = Some d"
    using assms(1,2) by (simp add: block_def d_def)
  have "eligible cpu now (d\<lparr>running := False\<rparr>) \<longleftrightarrow>
      nanoseconds (monotonic k) + unat (tv_sec req) * 1000000000 + nat (sint (tv_nsec req)) \<le> nanoseconds now"
    if "unat (snd now) < 1000000000" for now
    using check_context_sleeping [of "d\<lparr>running := False\<rparr>" w cpu now] assms(3,4)
      reached_nanoseconds [OF that, of w] sleep_end_exact [OF assms(5-8)]
    by (simp add: d_def w_def)
  then show ?thesis
    using start get by (auto simp: d_def)
qed

theorem nanosleep_duration_witness:
  "\<exists>l' d. nanosleep_start 1 \<lparr>clock_start = (0, 0), clock_offset = (5, 999999999)\<rparr> \<lparr>tv_sec = 1, tv_nsec = 2\<rparr> two_contexts =
      (Waits, l') \<and> get_context l' 1 = Some d \<and> \<not> eligible 0 (7, 0) (d\<lparr>running := False\<rparr>) \<and> eligible 0 (7, 1) (d\<lparr>running := False\<rparr>)"
proof -
  let ?k = "\<lparr>clock_start = (0, 0), clock_offset = (5, 999999999)\<rparr>" and ?req = "\<lparr>tv_sec = 1, tv_nsec = 2\<rparr>"
  obtain l' d where r: "nanosleep_start 1 ?k ?req two_contexts = (Waits, l')" "get_context l' 1 = Some d"
    "\<forall>now. unat (snd now) < 1000000000 \<longrightarrow> (eligible 0 now (d\<lparr>running := False\<rparr>) \<longleftrightarrow>
      nanoseconds (monotonic ?k) + unat (tv_sec ?req) * 1000000000 + nat (sint (tv_nsec ?req)) \<le> nanoseconds now)"
    using nanosleep_duration [OF two_contexts_ok(4), of 0 ?k ?req] by (auto simp: new_ctx_def monotonic_def)
  show ?thesis
    using r(1,2) r(3) [rule_format, of "(7, 0)"] r(3) [rule_format, of "(7, 1)"]
    by (auto simp: nanoseconds_def monotonic_def)
qed



end
