(* ===== verification/User_Schemes.thy ===== *)
theory User_Schemes
  imports Driver Events
begin

text \<open>
  Schemes that are served by programs (\<open>kernel/scheme/user.rs\<close>, \<open>kernel/scheme/root.rs\<close>). A call of a client
  becomes a \<open>Packet\<close> in the queue of the scheme; the server reads it, maps the client's buffer through a grant
  in its own address space, and writes a packet with the result, which wakes the client. A program registers a
  scheme by opening a name in the root scheme of its namespace.
\<close>

section \<open>State (user.rs, root.rs)\<close>

text \<open>A \<open>Weak<RwLock<Context>>\<close> is the identifier of the context.\<close>

record user_inner =
  ui_root_id :: usize
  ui_handle_id :: usize
  ui_flags :: usize
  ui_scheme_id :: usize
  ui_next_id :: u64
  ui_context :: usize
  ui_todo :: "packet wait_queue"
  ui_fmap :: "(u64, usize \<times> usize) btree_map"
  ui_done :: "(u64, usize) wait_map"

definition user_inner_new :: "usize \<Rightarrow> usize \<Rightarrow> usize \<Rightarrow> usize \<Rightarrow> user_inner" where
  "user_inner_new root_id handle_id flags c =
     \<lparr>ui_root_id = root_id, ui_handle_id = handle_id, ui_flags = flags, ui_scheme_id = 0, ui_next_id = 1, ui_context = c,
      ui_todo = new_queue, ui_fmap = bt_empty, ui_done = new_wait_map\<rparr>"

text \<open>
  The \<open>UserInner\<close> objects by their scheme identifier, which \<open>UserScheme\<close> objects carry, the handles of the
  root schemes by theirs, and what a grant needs: the grant lists, the page table of each context and memory.
\<close>

record user_world = event_world +
  uw_schemes :: scheme_list
  uw_inner :: "usize \<Rightarrow> user_inner"
  uw_roots :: "usize \<Rightarrow> usize handle_table"
  uw_grants :: "ref \<Rightarrow> grant list"
  uw_page_table :: "usize \<Rightarrow> usize"
  uw_pages :: page_mem

type_synonym 'r user_op = "user_world \<Rightarrow> ('r result \<times> user_world) outcome option"

definition gives :: "'r result \<Rightarrow> 'r user_op" where
  "gives r w = Some (Return (r, w))"

definition and_then_op :: "'a user_op \<Rightarrow> ('a \<Rightarrow> 'b user_op) \<Rightarrow> 'b user_op" where
  "and_then_op f k w = then_do (f w) (\<lambda>(r, w'). case r of Err e \<Rightarrow> gives (Err e) w' | Ok a \<Rightarrow> k a w')"

definition set_inner :: "usize \<Rightarrow> user_inner \<Rightarrow> user_world \<Rightarrow> user_world" where
  "set_inner sid u w = w\<lparr>uw_inner := (uw_inner w)(sid := u)\<rparr>"

section \<open>Buffers of the client in the server's address space\<close>

definition grant_page :: page where
  "grant_page = page_containing USER_TMP_GRANT_OFFSET"

definition capture_inner :: "usize \<Rightarrow> usize \<Rightarrow> usize \<Rightarrow> bool \<Rightarrow> usize user_op" where
  "capture_inner context_weak address sz writes w =
     (if sz = 0 then gives (Ok 0) w
      else case get_context (ew_contexts w) context_weak of
        None \<Rightarrow> gives (Err (Error ESRCH)) w
      | Some c \<Rightarrow>
          let grants = uw_grants w (grants_ref c);
              table = inactive_from_address (uw_page_table w context_weak);
              from_address = (address div 4096) * 4096;
              offset = address - from_address;
              full_size = ((offset + sz + 4095) div 4096) * 4096;
              flags = PRESENT OR NO_EXECUTE OR USER_ACCESSIBLE;
              flags = (if writes then flags OR WRITABLE else flags);
              (i, to_address) = place_grant grants full_size USER_GRANT_OFFSET
          in then_do (grant_map_inactive from_address to_address full_size flags table grant_page (uw_pages w))
               (\<lambda>(g, pm). gives (Ok (to_address + offset))
                  (w\<lparr>uw_grants := (uw_grants w)(grants_ref c := insert_at i g grants), uw_pages := pm\<rparr>)))"

definition capture :: "usize \<Rightarrow> usize \<times> usize \<Rightarrow> usize user_op" where
  "capture sid buf w = capture_inner (ui_context (uw_inner w sid)) (fst buf) (snd buf) False w"

definition capture_mut :: "usize \<Rightarrow> usize \<times> usize \<Rightarrow> usize user_op" where
  "capture_mut sid buf w = capture_inner (ui_context (uw_inner w sid)) (fst buf) (snd buf) True w"

definition release :: "usize \<Rightarrow> usize \<Rightarrow> unit user_op" where
  "release sid address w =
     (if address = 0 then gives (Ok ()) w
      else let ctx = ui_context (uw_inner w sid)
           in case get_context (ew_contexts w) ctx of
                None \<Rightarrow> gives (Err (Error ESRCH)) w
              | Some c \<Rightarrow>
                  let grants = uw_grants w (grants_ref c);
                      table = inactive_from_address (uw_page_table w ctx)
                  in case position (covers address) grants of
                       None \<Rightarrow> gives (Err (Error EFAULT)) w
                     | Some i \<Rightarrow>
                         then_do (grant_unmap_inactive (grants ! i) table grant_page (uw_pages w))
                           (\<lambda>pm. gives (Ok ())
                              (w\<lparr>uw_grants := (uw_grants w)(grants_ref c := take i grants @ drop (Suc i) grants), uw_pages := pm\<rparr>)))"

section \<open>Calls of the clients\<close>

text \<open>
  A call sends its packet and sleeps until \<open>done\<close> has an entry for its identifier. The model splits it there:
  \<open>call_inner\<close> is the part before the sleep, \<open>finish_call\<close> a turn of the part after it.
\<close>

definition call_inner :: "usize \<Rightarrow> packet \<Rightarrow> user_world \<Rightarrow> user_world" where
  "call_inner sid packet w =
     (let u = uw_inner w sid;
          (len, todo, l) = send packet (ui_todo u) (ew_contexts w);
          w' = set_inner sid (u\<lparr>ui_todo := todo\<rparr>) (w\<lparr>ew_contexts := l\<rparr>)
      in trigger (ui_root_id u) (ui_handle_id u) EVENT_READ (of_nat size_of_packet * len) w')"

definition next_packet_id :: "usize \<Rightarrow> user_world \<Rightarrow> u64 \<times> user_world" where
  "next_packet_id sid w =
     (let u = uw_inner w sid in (ui_next_id u, set_inner sid (u\<lparr>ui_next_id := ui_next_id u + 1\<rparr>) w))"

text \<open>A packet carries the identity of the context that makes the call.\<close>

definition caller_packet :: "ctx \<Rightarrow> u64 \<Rightarrow> usize \<Rightarrow> usize \<Rightarrow> usize \<Rightarrow> usize \<Rightarrow> packet" where
  "caller_packet ctx i a b c d =
     \<lparr>pk_id = i, pk_pid = ctx_id ctx, pk_uid = euid ctx, pk_gid = egid ctx, pk_a = a, pk_b = b, pk_c = c, pk_d = d\<rparr>"

text \<open>\<open>call\<close> up to the sleep: the identifier to wait for.\<close>

definition call :: "usize \<Rightarrow> usize \<Rightarrow> usize \<Rightarrow> usize \<Rightarrow> usize \<Rightarrow> user_world \<Rightarrow> u64 result \<times> user_world" where
  "call sid a b c d w =
     (case get_context (ew_contexts w) (ew_current w) of
        None \<Rightarrow> (Err (Error ESRCH), w)
      | Some ctx \<Rightarrow>
          let (i, w') = next_packet_id sid w
          in (Ok i, call_inner sid (caller_packet ctx i a b c d) w'))"

text \<open>A call under way: the scheme, the packet, and the address of the grant to release, or 0.\<close>

record pending_call =
  pd_scheme :: usize
  pd_id :: u64
  pd_address :: usize

definition finish_call :: "pending_call \<Rightarrow> user_world \<Rightarrow> (usize result attempt \<times> user_world) option" where
  "finish_call p w =
     (let sid = pd_scheme p; u = uw_inner w sid;
          (r, done', l) = map_receive (ew_current w) (pd_id p) (ui_done u) (ew_contexts w);
          w' = set_inner sid (u\<lparr>ui_done := done'\<rparr>) (w\<lparr>ew_contexts := l\<rparr>)
      in case r of
           Waits \<Rightarrow> Some (Waits, w')
         | Crashes \<Rightarrow> Some (Crashes, w')
         | Returned v \<Rightarrow>
             case release sid (pd_address p) w' of
               None \<Rightarrow> None
             | Some Panic \<Rightarrow> Some (Crashes, w')
             | Some (Return (_, w'')) \<Rightarrow> Some (Returned (demux v), w''))"

section \<open>The operations of UserScheme, up to the sleep\<close>

text \<open>
  \<open>Weak::upgrade\<close>: a \<open>UserInner\<close> lives as long as a handle of its root scheme refers to it or a context sleeps
  in one of its operations.
\<close>

definition inner_alive :: "user_world \<Rightarrow> usize \<Rightarrow> bool" where
  "inner_alive w sid \<longleftrightarrow>
     list_ex (\<lambda>e. snd e = sid) (handles (uw_roots w (ui_root_id (uw_inner w sid)))) \<or>
     q_condition (ui_todo (uw_inner w sid)) \<noteq> [] \<or> m_condition (ui_done (uw_inner w sid)) \<noteq> []"

text \<open>An operation with a buffer captures it first; if the call cannot be made the grant is released at once.\<close>

definition begin_call :: "usize \<Rightarrow> usize \<Rightarrow> usize \<Rightarrow> usize \<Rightarrow> usize \<Rightarrow> usize \<Rightarrow> pending_call user_op" where
  "begin_call sid address a b c d w =
     (case call sid a b c d w of
        (Ok i, w') \<Rightarrow> gives (Ok \<lparr>pd_scheme = sid, pd_id = i, pd_address = address\<rparr>) w'
      | (Err e, w') \<Rightarrow> then_do (release sid address w') (\<lambda>(_, w''). gives (Err e) w''))"

definition upgraded :: "usize \<Rightarrow> 'r user_op \<Rightarrow> 'r user_op" where
  "upgraded sid k w = (if inner_alive w sid then k w else gives (Err (Error ENODEV)) w)"

definition user_open :: "usize \<Rightarrow> usize \<times> usize \<Rightarrow> usize \<Rightarrow> u32 \<Rightarrow> u32 \<Rightarrow> pending_call user_op" where
  "user_open sid path flags uid gid =
     upgraded sid (and_then_op (capture sid path) (\<lambda>address. begin_call sid address SYS_OPEN address (snd path) flags))"

definition user_chmod :: "usize \<Rightarrow> usize \<times> usize \<Rightarrow> u16 \<Rightarrow> u32 \<Rightarrow> u32 \<Rightarrow> pending_call user_op" where
  "user_chmod sid path mode uid gid =
     upgraded sid (and_then_op (capture sid path) (\<lambda>address. begin_call sid address SYS_CHMOD address (snd path) (ucast mode)))"

definition user_rmdir :: "usize \<Rightarrow> usize \<times> usize \<Rightarrow> u32 \<Rightarrow> u32 \<Rightarrow> pending_call user_op" where
  "user_rmdir sid path uid gid =
     upgraded sid (and_then_op (capture sid path) (\<lambda>address. begin_call sid address SYS_RMDIR address (snd path) 0))"

definition user_unlink :: "usize \<Rightarrow> usize \<times> usize \<Rightarrow> u32 \<Rightarrow> u32 \<Rightarrow> pending_call user_op" where
  "user_unlink sid path uid gid =
     upgraded sid (and_then_op (capture sid path) (\<lambda>address. begin_call sid address SYS_UNLINK address (snd path) 0))"

definition user_dup :: "usize \<Rightarrow> usize \<Rightarrow> usize \<times> usize \<Rightarrow> pending_call user_op" where
  "user_dup sid fl buf =
     upgraded sid (and_then_op (capture sid buf) (\<lambda>address. begin_call sid address SYS_DUP fl address (snd buf)))"

definition user_read :: "usize \<Rightarrow> usize \<Rightarrow> usize \<times> usize \<Rightarrow> pending_call user_op" where
  "user_read sid fl buf =
     upgraded sid (and_then_op (capture_mut sid buf) (\<lambda>address. begin_call sid address SYS_READ fl address (snd buf)))"

definition user_write :: "usize \<Rightarrow> usize \<Rightarrow> usize \<times> usize \<Rightarrow> pending_call user_op" where
  "user_write sid fl buf =
     upgraded sid (and_then_op (capture sid buf) (\<lambda>address. begin_call sid address SYS_WRITE fl address (snd buf)))"

definition user_seek :: "usize \<Rightarrow> usize \<Rightarrow> usize \<Rightarrow> usize \<Rightarrow> pending_call user_op" where
  "user_seek sid fl pos whence = upgraded sid (begin_call sid 0 SYS_LSEEK fl pos whence)"

definition user_fcntl :: "usize \<Rightarrow> usize \<Rightarrow> usize \<Rightarrow> usize \<Rightarrow> pending_call user_op" where
  "user_fcntl sid fl cmd arg = upgraded sid (begin_call sid 0 SYS_FCNTL fl cmd arg)"

definition user_fevent :: "usize \<Rightarrow> usize \<Rightarrow> usize \<Rightarrow> pending_call user_op" where
  "user_fevent sid fl flags = upgraded sid (begin_call sid 0 SYS_FEVENT fl flags 0)"

text \<open>\<open>fmap\<close> notes for which context and size the answer, an address of the server, is to be mapped.\<close>

definition user_fmap :: "usize \<Rightarrow> usize \<Rightarrow> usize \<Rightarrow> usize \<Rightarrow> pending_call user_op" where
  "user_fmap sid fl offset sz =
     upgraded sid (\<lambda>w. case get_context (ew_contexts w) (ew_current w) of
        None \<Rightarrow> gives (Err (Error ESRCH)) w
      | Some ctx \<Rightarrow>
          let (i, w') = next_packet_id sid w;
              u = uw_inner w' sid;
              w'' = set_inner sid (u\<lparr>ui_fmap := bt_insert i (ew_current w, sz) (ui_fmap u)\<rparr>) w'
          in gives (Ok \<lparr>pd_scheme = sid, pd_id = i, pd_address = 0\<rparr>) 
               (call_inner sid (caller_packet ctx i SYS_FMAP fl offset sz) w''))"

definition user_fpath :: "usize \<Rightarrow> usize \<Rightarrow> usize \<times> usize \<Rightarrow> pending_call user_op" where
  "user_fpath sid fl buf =
     upgraded sid (and_then_op (capture_mut sid buf) (\<lambda>address. begin_call sid address SYS_FPATH fl address (snd buf)))"

definition user_fstat :: "usize \<Rightarrow> usize \<Rightarrow> usize \<Rightarrow> pending_call user_op" where
  "user_fstat sid fl stat =
     upgraded sid (and_then_op (capture_mut sid (stat, of_nat size_of_stat))
       (\<lambda>address. begin_call sid address SYS_FSTAT fl address (of_nat size_of_stat)))"

definition user_fstatvfs :: "usize \<Rightarrow> usize \<Rightarrow> usize \<Rightarrow> pending_call user_op" where
  "user_fstatvfs sid fl stat =
     upgraded sid (and_then_op (capture_mut sid (stat, of_nat size_of_stat_vfs))
       (\<lambda>address. begin_call sid address SYS_FSTATVFS fl address (of_nat size_of_stat_vfs)))"

definition user_fsync :: "usize \<Rightarrow> usize \<Rightarrow> pending_call user_op" where
  "user_fsync sid fl = upgraded sid (begin_call sid 0 SYS_FSYNC fl 0 0)"

definition user_ftruncate :: "usize \<Rightarrow> usize \<Rightarrow> usize \<Rightarrow> pending_call user_op" where
  "user_ftruncate sid fl len = upgraded sid (begin_call sid 0 SYS_FTRUNCATE fl len 0)"

definition user_close :: "usize \<Rightarrow> usize \<Rightarrow> pending_call user_op" where
  "user_close sid fl = upgraded sid (begin_call sid 0 SYS_CLOSE fl 0 0)"

section \<open>The server's side of UserInner\<close>

text \<open>The buffer seen as an array of \<open>Packet\<close>.\<close>

definition packet_slots :: "bytes \<Rightarrow> packet list" where
  "packet_slots buf =
     map (\<lambda>i. decode_packet (take size_of_packet (drop (i * size_of_packet) buf))) [0..<length buf div size_of_packet]"

definition packet_bytes :: "packet list \<Rightarrow> bytes \<Rightarrow> bytes" where
  "packet_bytes ps buf = concat (map encode_packet ps) @ drop (length ps * size_of_packet) buf"

definition inner_read :: "usize \<Rightarrow> bytes \<Rightarrow> user_world \<Rightarrow> (usize result \<times> bytes) attempt \<times> user_world" where
  "inner_read sid buf w =
     (let u = uw_inner w sid;
          (r, todo, l) = receive_into (ew_current w) (packet_slots buf) (\<not> has_flag (ui_flags u) O_NONBLOCK) (ui_todo u) (ew_contexts w);
          w' = set_inner sid (u\<lparr>ui_todo := todo\<rparr>) (w\<lparr>ew_contexts := l\<rparr>)
      in (case r of
            Returned (ps, n) \<Rightarrow> Returned (Ok (n * of_nat size_of_packet), packet_bytes ps buf)
          | Waits \<Rightarrow> Waits
          | Crashes \<Rightarrow> Crashes, w'))"

text \<open>An answer: the entry of \<open>fmap\<close> is removed, and the address in the packet mapped for the client.\<close>

definition answer_value :: "usize \<Rightarrow> packet \<Rightarrow> user_world \<Rightarrow> (usize \<times> user_world) outcome option" where
  "answer_value sid packet w =
     (let u = uw_inner w sid
      in case bt_get (ui_fmap u) (pk_id packet) of
           None \<Rightarrow> Some (Return (pk_a packet, w))
         | Some (ctx, sz) \<Rightarrow>
             let w' = set_inner sid (u\<lparr>ui_fmap := bt_remove (pk_id packet) (ui_fmap u)\<rparr>) w
             in case demux (pk_a packet) of
                  Err _ \<Rightarrow> Some (Return (pk_a packet, w'))
                | Ok address \<Rightarrow> then_do (capture_inner ctx address sz True w') (\<lambda>(r, w''). Some (Return (mux r, w''))))"

definition answer :: "usize \<Rightarrow> packet \<Rightarrow> user_world \<Rightarrow> user_world outcome option" where
  "answer sid packet w =
     then_do (answer_value sid packet w) (\<lambda>(v, w).
       let u = uw_inner w sid;
           (done', l) = map_send (pk_id packet) v (ui_done u) (ew_contexts w)
       in Some (Return (set_inner sid (u\<lparr>ui_done := done'\<rparr>) (w\<lparr>ew_contexts := l\<rparr>))))"

text \<open>A packet with the identifier 0 is a message of the server itself; unknown ones are only printed.\<close>

definition write_packet :: "usize \<Rightarrow> packet \<Rightarrow> user_world \<Rightarrow> user_world outcome option" where
  "write_packet sid packet w =
     (if pk_id packet = 0 then
        Some (Return (if pk_a packet = SYS_FEVENT
          then trigger (ui_scheme_id (uw_inner w sid)) (pk_b packet) (pk_c packet) (pk_d packet) w else w))
      else answer sid packet w)"

fun write_packets :: "usize \<Rightarrow> packet list \<Rightarrow> user_world \<Rightarrow> user_world outcome option" where
  "write_packets sid [] w = Some (Return w)"
| "write_packets sid (p # ps) w = then_do (write_packet sid p w) (write_packets sid ps)"

definition inner_write :: "usize \<Rightarrow> bytes \<Rightarrow> usize user_op" where
  "inner_write sid buf w =
     (let ps = packet_slots buf
      in then_do (write_packets sid ps w) (\<lambda>w'. gives (Ok (of_nat (length ps * size_of_packet))) w'))"

definition inner_fevent :: "usize \<Rightarrow> usize \<Rightarrow> user_world \<Rightarrow> usize result" where
  "inner_fevent sid flags w = Ok (ui_handle_id (uw_inner w sid))"

definition inner_fsync :: "usize result" where
  "inner_fsync = Ok 0"

section \<open>RootScheme (root.rs)\<close>

text \<open>
  The root scheme \<open>rid\<close> of the namespace \<open>ns\<close>. A handle stands for a \<open>UserInner\<close>. Opening takes a handle
  number even when the name is taken.
\<close>

definition root_open :: "usize \<Rightarrow> usize \<Rightarrow> bytes \<Rightarrow> usize \<Rightarrow> u32 \<Rightarrow> u32 \<Rightarrow> usize user_op" where
  "root_open ns rid path flags uid gid w =
     (if uid = 0 then
        case get_context (ew_contexts w) (ew_current w) of
          None \<Rightarrow> gives (Err (Error ESRCH)) w
        | Some ctx \<Rightarrow>
            let i = next_id (uw_roots w rid);
                w1 = w\<lparr>uw_roots := (uw_roots w)(rid := (uw_roots w rid)\<lparr>next_id := i + 1\<rparr>)\<rparr>
            in then_do (insert_scheme ns path UserScheme (uw_schemes w))
                 (\<lambda>(r, l). case r of
                    Err e \<Rightarrow> gives (Err e) (w1\<lparr>uw_schemes := l\<rparr>)
                  | Ok sid \<Rightarrow>
                      let t = uw_roots w1 rid
                      in gives (Ok i) (set_inner sid ((user_inner_new rid i flags (ew_current w))\<lparr>ui_scheme_id := sid\<rparr>)
                           (w1\<lparr>uw_schemes := l, uw_roots := (uw_roots w1)(rid := t\<lparr>handles := bt_insert i sid (handles t)\<rparr>)\<rparr>)))
      else gives (Err (Error EACCES)) w)"

definition root_dup :: "usize \<Rightarrow> usize \<Rightarrow> bytes \<Rightarrow> usize user_op" where
  "root_dup rid i buf w =
     (case get_handle (uw_roots w rid) i EBADF of
        Err e \<Rightarrow> gives (Err e) w
      | Ok sid \<Rightarrow> let (j, t) = add_handle (uw_roots w rid) sid in gives (Ok j) (w\<lparr>uw_roots := (uw_roots w)(rid := t)\<rparr>))"

definition root_read :: "usize \<Rightarrow> usize \<Rightarrow> bytes \<Rightarrow> user_world \<Rightarrow> (usize result \<times> bytes) attempt \<times> user_world" where
  "root_read rid i buf w =
     (case get_handle (uw_roots w rid) i EBADF of
        Err e \<Rightarrow> (Returned (Err e, buf), w)
      | Ok sid \<Rightarrow> inner_read sid buf w)"

definition root_write :: "usize \<Rightarrow> usize \<Rightarrow> bytes \<Rightarrow> usize user_op" where
  "root_write rid i buf w =
     (case get_handle (uw_roots w rid) i EBADF of Err e \<Rightarrow> gives (Err e) w | Ok sid \<Rightarrow> inner_write sid buf w)"

definition root_fevent :: "usize \<Rightarrow> usize \<Rightarrow> usize \<Rightarrow> usize user_op" where
  "root_fevent rid i flags w =
     gives (bind_result (get_handle (uw_roots w rid) i EBADF) (\<lambda>sid. inner_fevent sid flags w)) w"

definition root_fsync :: "usize \<Rightarrow> usize \<Rightarrow> usize user_op" where
  "root_fsync rid i w = gives (bind_result (get_handle (uw_roots w rid) i EBADF) (\<lambda>sid. inner_fsync)) w"

definition root_close :: "usize \<Rightarrow> usize \<Rightarrow> usize user_op" where
  "root_close rid i w =
     (let (r, t) = close_handle (uw_roots w rid) i EBADF in gives r (w\<lparr>uw_roots := (uw_roots w)(rid := t)\<rparr>))"

section \<open>Frame lemmas\<close>

lemma then_do_simps [simp]: "then_do (Some (Return s)) k = k s" "then_do (Some Panic) k = Some Panic" "then_do None k = None"
  by (simp_all add: then_do_def)

lemma set_inner_simps [simp]:
  "uw_inner (set_inner sid u w) = (uw_inner w)(sid := u)"
  "ew_contexts (set_inner sid u w) = ew_contexts w" "ew_current (set_inner sid u w) = ew_current w"
  "uw_grants (set_inner sid u w) = uw_grants w" "uw_pages (set_inner sid u w) = uw_pages w"
  "uw_roots (set_inner sid u w) = uw_roots w" "uw_schemes (set_inner sid u w) = uw_schemes w"
  by (simp_all add: set_inner_def)

lemma trigger_all_inner [simp]:
  "uw_inner (trigger_all es flags data w) = uw_inner w" "uw_roots (trigger_all es flags data w) = uw_roots w"
  "uw_schemes (trigger_all es flags data w) = uw_schemes w"
  by (induction es arbitrary: w) (simp_all add: Let_def split: prod.split)

lemma trigger_inner [simp]:
  "uw_inner (trigger s e flags data w) = uw_inner w" "uw_roots (trigger s e flags data w) = uw_roots w"
  "uw_schemes (trigger s e flags data w) = uw_schemes w"
  by (simp_all add: trigger_def split: option.split)

text \<open>Which schemes are registered and which handles refer to them.\<close>

definition same_registry :: "user_world \<Rightarrow> user_world \<Rightarrow> bool" where
  "same_registry w w' \<longleftrightarrow> uw_roots w' = uw_roots w \<and> uw_schemes w' = uw_schemes w"

lemma capture_inner_frame:
  "capture_inner c a n wr w = Some (Return (r, w')) \<Longrightarrow>
   uw_inner w' = uw_inner w \<and> ew_contexts w' = ew_contexts w \<and> same_registry w w'"
  by (auto simp: same_registry_def capture_inner_def gives_def Let_def then_do_Return split: if_splits option.splits prod.splits)

lemma release_frame:
  "release sid a w = Some (Return (r, w')) \<Longrightarrow>
   uw_inner w' = uw_inner w \<and> ew_contexts w' = ew_contexts w \<and> same_registry w w'"
  by (auto simp: same_registry_def release_def gives_def Let_def then_do_Return split: if_splits option.splits prod.splits)

lemma call_inner_inner:
  "uw_inner (call_inner sid p w) = (uw_inner w)(sid := (uw_inner w sid)
     \<lparr>ui_todo := \<lparr>q_inner = q_inner (ui_todo (uw_inner w sid)) @ [p], q_condition = []\<rparr>\<rparr>)"
  by (simp add: call_inner_def Let_def send_def notify_def)

lemma call_spec:
  assumes "call sid a b c d w = (Ok i, w')"
  obtains ctx where "get_context (ew_contexts w) (ew_current w) = Some ctx" "i = ui_next_id (uw_inner w sid)"
    "uw_inner w' sid = (uw_inner w sid)\<lparr>ui_next_id := i + 1,
      ui_todo := \<lparr>q_inner = q_inner (ui_todo (uw_inner w sid)) @ [caller_packet ctx i a b c d], q_condition = []\<rparr>\<rparr>"
  using assms by (auto simp: call_def next_packet_id_def call_inner_inner Let_def split: option.splits)

lemma user_fmap_spec:
  assumes "user_fmap sid fl offset sz w = Some (Return (Ok p, w'))"
  obtains ctx i where "get_context (ew_contexts w) (ew_current w) = Some ctx" "i = ui_next_id (uw_inner w sid)"
    "p = \<lparr>pd_scheme = sid, pd_id = i, pd_address = 0\<rparr>"
    "uw_inner w' sid = (uw_inner w sid)\<lparr>ui_next_id := i + 1, ui_fmap := bt_insert i (ew_current w, sz) (ui_fmap (uw_inner w sid)),
      ui_todo := \<lparr>q_inner = q_inner (ui_todo (uw_inner w sid)) @ [caller_packet ctx i SYS_FMAP fl offset sz], q_condition = []\<rparr>\<rparr>"
  using assms
  by (auto simp: user_fmap_def upgraded_def next_packet_id_def call_inner_inner gives_def Let_def split: option.splits if_splits)

lemma finish_call_Returned:
  assumes "finish_call p w = Some (Returned r, w')" "pd_scheme p = sid"
  obtains v where "bt_get (m_inner (ui_done (uw_inner w sid))) (pd_id p) = Some v" "r = demux v"
    "uw_inner w' sid = (uw_inner w sid)\<lparr>ui_done := (ui_done (uw_inner w sid))
      \<lparr>m_inner := bt_remove (pd_id p) (m_inner (ui_done (uw_inner w sid)))\<rparr>\<rparr>"
proof -
  obtain v where v: "bt_get (m_inner (ui_done (uw_inner w sid))) (pd_id p) = Some v"
    using assms by (auto simp: finish_call_def Let_def map_receive_def receive_nonblock_def sleep_on_map_def
        split: option.splits outcome.splits prod.splits)
  let ?u = "(uw_inner w sid)\<lparr>ui_done := (ui_done (uw_inner w sid))
      \<lparr>m_inner := bt_remove (pd_id p) (m_inner (ui_done (uw_inner w sid)))\<rparr>\<rparr>"
  let ?w = "set_inner sid ?u w"
  obtain x where "release sid (pd_address p) ?w = Some (Return (x, w'))" "r = demux v"
    using assms v by (auto simp: finish_call_def Let_def map_receive_def receive_nonblock_def split: option.splits outcome.splits)
  then show thesis
    using that[OF v] release_frame by fastforce
qed

lemma finish_call_Waits:
  assumes "finish_call p w = Some (Waits, w')" "pd_scheme p = sid"
  shows "\<exists>c. uw_inner w' sid = (uw_inner w sid)\<lparr>ui_done := (ui_done (uw_inner w sid))
      \<lparr>m_inner := bt_remove (pd_id p) (m_inner (ui_done (uw_inner w sid))), m_condition := c\<rparr>\<rparr>"
    "bt_get (m_inner (ui_done (uw_inner w sid))) (pd_id p) = None"
  using assms by (auto simp: finish_call_def Let_def map_receive_def receive_nonblock_def sleep_on_map_def
      split: option.splits outcome.splits prod.splits attempt.splits)

lemma packet_slots_bytes:
  assumes "length ps = length buf div size_of_packet"
  shows "packet_slots (packet_bytes ps buf) = ps"
proof -
  have len: "length (concat (map encode_packet ps)) = length ps * size_of_packet"
    by (induction ps) (simp_all add: length_encode)
  have "length ps * size_of_packet \<le> length buf"
    unfolding assms by (rule div_times_less_eq_dividend)
  then have total: "length (packet_bytes ps buf) = length buf"
    by (simp add: packet_bytes_def len)
  have slot: "take size_of_packet (drop (i * size_of_packet) (concat (map encode_packet ps) @ rest)) = encode_packet (ps ! i)"
    if "i < length ps" for i rest and ps :: "packet list"
    using that
  proof (induction ps arbitrary: i)
    case (Cons p ps)
    have "drop (size_of_packet + m) (encode_packet p @ ys) = drop m ys" for m ys
      by (simp add: length_encode)
    then show ?case
      using Cons by (cases i) (simp_all add: length_encode del: drop_append)
  qed simp
  then have "take size_of_packet (drop (i * size_of_packet) (packet_bytes ps buf)) = encode_packet (ps ! i)" if "i < length ps" for i
    using that unfolding packet_bytes_def by blast
  then show ?thesis
    unfolding packet_slots_def total assms [symmetric] by (intro nth_equalityI) (simp_all add: decode_encode)
qed

lemma length_packet_slots [simp]: "length (packet_slots buf) = length buf div size_of_packet"
  by (simp add: packet_slots_def)

lemma inner_read_Returned:
  assumes "inner_read sid buf w = (Returned (r, buf'), w')" "length buf < 2 ^ 64"
  obtains n where "r = Ok n"
    "take (unat n div size_of_packet) (packet_slots buf') @ q_inner (ui_todo (uw_inner w' sid)) = q_inner (ui_todo (uw_inner w sid))"
    "\<exists>q. uw_inner w' sid = (uw_inner w sid)\<lparr>ui_todo := q\<rparr>"
proof -
  let ?u = "uw_inner w sid"
  obtain ps n q l where rec: "receive_into (ew_current w) (packet_slots buf) (\<not> has_flag (ui_flags ?u) O_NONBLOCK) (ui_todo ?u) (ew_contexts w)
      = (Returned (ps, n), q, l)"
    and r: "r = Ok (n * of_nat size_of_packet)" "buf' = packet_bytes ps buf" "w' = set_inner sid (?u\<lparr>ui_todo := q\<rparr>) (w\<lparr>ew_contexts := l\<rparr>)"
    using assms(1) by (auto simp: inner_read_def Let_def split: prod.splits attempt.splits)
  obtain k where k: "k \<le> length (packet_slots buf)" "n = of_nat k" "take k ps @ q_inner q = q_inner (ui_todo ?u)"
    using receive_into_Returned[OF rec] by blast
  have "k * size_of_packet \<le> length buf"
    using k(1) by (simp add: div_times_less_eq_dividend le_trans[OF mult_le_mono1])
  then have "unat (n * of_nat size_of_packet) = k * size_of_packet"
    using assms(2) k(2) unat_of_nat_small[of "k * size_of_packet"] by simp
  then have "unat (n * of_nat size_of_packet) div size_of_packet = k"
    by (simp add: size_of_packet_def)
  moreover have "packet_slots buf' = ps"
    using receive_into_length[OF rec] by (simp add: r(2) packet_slots_bytes)
  ultimately show thesis
    using that[OF r(1)] k(3) r(3) by auto
qed

lemma inner_read_Waits:
  assumes "inner_read sid buf w = (Waits, w')"
  shows "\<exists>c. uw_inner w' sid = (uw_inner w sid)\<lparr>ui_todo := (ui_todo (uw_inner w sid))\<lparr>q_condition := c\<rparr>\<rparr>"
proof -
  obtain q l where "receive_into (ew_current w) (packet_slots buf) (\<not> has_flag (ui_flags (uw_inner w sid)) O_NONBLOCK)
      (ui_todo (uw_inner w sid)) (ew_contexts w) = (Waits, q, l)" "w' = set_inner sid ((uw_inner w sid)\<lparr>ui_todo := q\<rparr>) (w\<lparr>ew_contexts := l\<rparr>)"
    using assms by (auto simp: inner_read_def Let_def split: prod.splits attempt.splits)
  then show ?thesis
    using receive_into_Waits[of "ew_current w" "packet_slots buf" "\<not> has_flag (ui_flags (uw_inner w sid)) O_NONBLOCK"
        "ui_todo (uw_inner w sid)" "ew_contexts w" q l] by (auto simp: sleep_on_queue_Waits)
qed

lemma answer_value_frame:
  assumes "answer_value sid p w = Some (Return (v, w'))"
  shows "uw_inner w' sid = uw_inner w sid \<or>
      uw_inner w' sid = (uw_inner w sid)\<lparr>ui_fmap := bt_remove (pk_id p) (ui_fmap (uw_inner w sid))\<rparr>"
    "v = pk_a p \<or> pk_id p \<in> set (bt_keys (ui_fmap (uw_inner w sid)))"
  using assms by (auto simp: bt_get_None_iff [symmetric] answer_value_def Let_def then_do_Return dest!: capture_inner_frame split: option.splits result.splits)

lemma answer_spec:
  assumes "answer sid p w = Some (Return w')"
  obtains v w1 c where "answer_value sid p w = Some (Return (v, w1))"
    "uw_inner w' sid = (uw_inner w1 sid)\<lparr>ui_done := \<lparr>m_inner = bt_insert (pk_id p) v (m_inner (ui_done (uw_inner w1 sid))),
      m_condition = c\<rparr>\<rparr>"
  using assms by (auto simp: answer_def then_do_Return map_send_def notify_def Let_def)

section \<open>Clients and a server\<close>

text \<open>
  The steps that clients and the server of the scheme \<open>sid\<close> take, with what was sent, what the server read
  from its buffer, its answers (the packet it wrote and the value that reached the client) and what the
  calls returned. Everything else that happens leaves the scheme's \<open>UserInner\<close> alone.
\<close>

record user_history =
  uh_world :: user_world
  uh_sent :: "packet list"
  uh_received :: "packet list"
  uh_answers :: "(packet \<times> usize) list"
  uh_returned :: "(u64 \<times> usize result) list"

inductive user_step :: "usize \<Rightarrow> user_history \<Rightarrow> user_history \<Rightarrow> bool" for sid where
  step_call: "call sid a b c d (uh_world h) = (Ok i, w') \<Longrightarrow>
    get_context (ew_contexts (uh_world h)) (ew_current (uh_world h)) = Some ctx \<Longrightarrow>
    user_step sid h (h\<lparr>uh_world := w', uh_sent := uh_sent h @ [caller_packet ctx i a b c d]\<rparr>)"
| step_fmap: "user_fmap sid fl offset sz (uh_world h) = Some (Return (Ok p, w')) \<Longrightarrow>
    get_context (ew_contexts (uh_world h)) (ew_current (uh_world h)) = Some ctx \<Longrightarrow>
    user_step sid h (h\<lparr>uh_world := w', uh_sent := uh_sent h @ [caller_packet ctx (pd_id p) SYS_FMAP fl offset sz]\<rparr>)"
| step_read: "inner_read sid buf (uh_world h) = (Returned (Ok n, buf'), w') \<Longrightarrow> length buf < 2 ^ 64 \<Longrightarrow>
    user_step sid h (h\<lparr>uh_world := w',
      uh_received := uh_received h @ take (unat n div size_of_packet) (packet_slots buf')\<rparr>)"
| step_read_sleep: "inner_read sid buf (uh_world h) = (Waits, w') \<Longrightarrow> user_step sid h (h\<lparr>uh_world := w'\<rparr>)"
| step_answer: "pk_id p \<noteq> 0 \<Longrightarrow> write_packet sid p (uh_world h) = Some (Return w') \<Longrightarrow>
    answer_value sid p (uh_world h) = Some (Return (v, w1)) \<Longrightarrow>
    user_step sid h (h\<lparr>uh_world := w', uh_answers := uh_answers h @ [(p, v)]\<rparr>)"
| step_message: "pk_id p = 0 \<Longrightarrow> write_packet sid p (uh_world h) = Some (Return w') \<Longrightarrow>
    user_step sid h (h\<lparr>uh_world := w'\<rparr>)"
| step_finish: "finish_call p (uh_world h) = Some (Returned r, w') \<Longrightarrow> pd_scheme p = sid \<Longrightarrow>
    user_step sid h (h\<lparr>uh_world := w', uh_returned := uh_returned h @ [(pd_id p, r)]\<rparr>)"
| step_finish_sleep: "finish_call p (uh_world h) = Some (Waits, w') \<Longrightarrow> pd_scheme p = sid \<Longrightarrow>
    user_step sid h (h\<lparr>uh_world := w'\<rparr>)"
| step_other: "uw_inner w' sid = uw_inner (uh_world h) sid \<Longrightarrow> user_step sid h (h\<lparr>uh_world := w'\<rparr>)"

inductive_cases user_stepE: "user_step sid h h'"

definition user_start :: "user_world \<Rightarrow> user_history" where
  "user_start w = \<lparr>uh_world = w, uh_sent = [], uh_received = [], uh_answers = [], uh_returned = []\<rparr>"

text \<open>The identifiers of \<open>fmap\<close> calls, and the values that reached a call.\<close>

definition mapped_ids :: "user_history \<Rightarrow> u64 set" where
  "mapped_ids h = pk_id ` {q \<in> set (uh_sent h). pk_a q = SYS_FMAP}"

definition answered :: "user_history \<Rightarrow> u64 \<Rightarrow> usize \<Rightarrow> bool" where
  "answered h i v \<longleftrightarrow> (\<exists>p. (p, v) \<in> set (uh_answers h) \<and> pk_id p = i)"

text \<open>Identifiers are counted from 1, an answer goes to the call with its identifier, and only \<open>fmap\<close> changes its value.\<close>

definition inner_inv :: "user_inner \<Rightarrow> user_history \<Rightarrow> bool" where
  "inner_inv u h \<longleftrightarrow>
     bt_wf (m_inner (ui_done u)) \<and> bt_wf (ui_fmap u) \<and> uh_received h @ q_inner (ui_todo u) = uh_sent h \<and>
     map pk_id (uh_sent h) = map (\<lambda>n. of_nat (Suc n)) [0..<length (uh_sent h)] \<and> ui_next_id u = of_nat (Suc (length (uh_sent h))) \<and>
     set (bt_keys (ui_fmap u)) \<subseteq> mapped_ids h \<and>
     (\<forall>p v. (p, v) \<in> set (uh_answers h) \<longrightarrow> v = pk_a p \<or> pk_id p \<in> mapped_ids h) \<and>
     (\<forall>i v. bt_get (m_inner (ui_done u)) i = Some v \<longrightarrow> answered h i v) \<and>
     (\<forall>i r. (i, r) \<in> set (uh_returned h) \<longrightarrow> (\<exists>v. answered h i v \<and> r = demux v))"

abbreviation user_inv :: "usize \<Rightarrow> user_history \<Rightarrow> bool" where
  "user_inv sid h \<equiv> inner_inv (uw_inner (uh_world h) sid) h"

lemma inner_invD:
  assumes "inner_inv u h"
  shows "bt_wf (m_inner (ui_done u))" "bt_wf (ui_fmap u)" "uh_received h @ q_inner (ui_todo u) = uh_sent h"
    "map pk_id (uh_sent h) = map (\<lambda>n. of_nat (Suc n)) [0..<length (uh_sent h)]" "ui_next_id u = of_nat (Suc (length (uh_sent h)))"
    "set (bt_keys (ui_fmap u)) \<subseteq> mapped_ids h"
    "(p, v) \<in> set (uh_answers h) \<Longrightarrow> v = pk_a p \<or> pk_id p \<in> mapped_ids h"
    "bt_get (m_inner (ui_done u)) i = Some v \<Longrightarrow> answered h i v"
    "(i, r) \<in> set (uh_returned h) \<Longrightarrow> \<exists>v. answered h i v \<and> r = demux v"
  using assms unfolding inner_inv_def by blast+

lemma inner_invI:
  assumes "bt_wf (m_inner (ui_done u))" "bt_wf (ui_fmap u)" "uh_received h @ q_inner (ui_todo u) = uh_sent h"
    "map pk_id (uh_sent h) = map (\<lambda>n. of_nat (Suc n)) [0..<length (uh_sent h)]" "ui_next_id u = of_nat (Suc (length (uh_sent h)))"
    and "set (bt_keys (ui_fmap u)) \<subseteq> mapped_ids h"
    and "\<And>p v. (p, v) \<in> set (uh_answers h) \<Longrightarrow> v = pk_a p \<or> pk_id p \<in> mapped_ids h"
    and "\<And>i v. bt_get (m_inner (ui_done u)) i = Some v \<Longrightarrow> answered h i v"
    and "\<And>i r. (i, r) \<in> set (uh_returned h) \<Longrightarrow> \<exists>v. answered h i v \<and> r = demux v"
  shows "inner_inv u h"
  using assms unfolding inner_inv_def by blast

lemma inner_inv_world [simp]:
  "inner_inv u (h\<lparr>uh_world := w\<rparr>) = inner_inv u h"
  "inner_inv u (h\<lparr>uh_world := w, uh_sent := ps\<rparr>) = inner_inv u (h\<lparr>uh_sent := ps\<rparr>)"
  "inner_inv u (h\<lparr>uh_world := w, uh_received := ps\<rparr>) = inner_inv u (h\<lparr>uh_received := ps\<rparr>)"
  "inner_inv u (h\<lparr>uh_world := w, uh_answers := as\<rparr>) = inner_inv u (h\<lparr>uh_answers := as\<rparr>)"
  "inner_inv u (h\<lparr>uh_world := w, uh_returned := rs\<rparr>) = inner_inv u (h\<lparr>uh_returned := rs\<rparr>)"
  by (simp_all add: inner_inv_def mapped_ids_def answered_def)

lemma user_inv_start:
  "uw_inner w sid = (user_inner_new rid hid flags c)\<lparr>ui_scheme_id := i\<rparr> \<Longrightarrow> user_inv sid (user_start w)"
  by (simp add: inner_inv_def user_start_def user_inner_new_def new_queue_def new_wait_map_def bt_empty_def)

text \<open>How the invariant survives a new packet, a read, an answer and the return of a call.\<close>

lemma inner_inv_sent:
  assumes inv: "inner_inv u h" and p: "pk_id p = ui_next_id u"
    and m: "bt_wf m" "set (bt_keys m) \<subseteq> set (bt_keys (ui_fmap u)) \<union> (if pk_a p = SYS_FMAP then {pk_id p} else {})"
  shows "inner_inv (u\<lparr>ui_next_id := ui_next_id u + 1, ui_fmap := m, ui_todo := \<lparr>q_inner = q_inner (ui_todo u) @ [p], q_condition = []\<rparr>\<rparr>)
    (h\<lparr>uh_sent := uh_sent h @ [p]\<rparr>)"
proof -
  note I = inner_invD[OF inv]
  have ids: "mapped_ids (h\<lparr>uh_sent := uh_sent h @ [p]\<rparr>) = mapped_ids h \<union> (if pk_a p = SYS_FMAP then {pk_id p} else {})"
    by (auto simp: mapped_ids_def)
  have ans: "answered (h\<lparr>uh_sent := uh_sent h @ [p]\<rparr>) = answered h"
    by (simp add: answered_def fun_eq_iff)
  show ?thesis
    by (rule inner_invI) (use I(1-6) m p in \<open>auto simp: ids ans split: if_splits dest: I(7,8,9)\<close>)
qed

lemma inner_inv_read:
  assumes inv: "inner_inv u h" and q: "xs @ q_inner q = q_inner (ui_todo u)"
  shows "inner_inv (u\<lparr>ui_todo := q\<rparr>) (h\<lparr>uh_received := uh_received h @ xs\<rparr>)"
  using inv q by (auto simp: inner_inv_def mapped_ids_def answered_def)

lemma inner_inv_answer:
  assumes inv: "inner_inv u h" and v: "v = pk_a p \<or> pk_id p \<in> set (bt_keys (ui_fmap u))"
    and u: "u' = u \<or> u' = u\<lparr>ui_fmap := bt_remove (pk_id p) (ui_fmap u)\<rparr>"
  shows "inner_inv (u'\<lparr>ui_done := \<lparr>m_inner = bt_insert (pk_id p) v (m_inner (ui_done u')), m_condition = c\<rparr>\<rparr>)
    (h\<lparr>uh_answers := uh_answers h @ [(p, v)]\<rparr>)"
proof -
  let ?h = "h\<lparr>uh_answers := uh_answers h @ [(p, v)]\<rparr>"
  note I = inner_invD[OF inv]
  have ids: "mapped_ids ?h = mapped_ids h"
    by (simp add: mapped_ids_def)
  have ans: "answered ?h i x \<longleftrightarrow> answered h i x \<or> i = pk_id p \<and> x = v" for i x
    by (auto simp: answered_def)
  have keep: "ui_done u' = ui_done u" "ui_todo u' = ui_todo u" "ui_next_id u' = ui_next_id u" "bt_wf (ui_fmap u')"
    "set (bt_keys (ui_fmap u')) \<subseteq> set (bt_keys (ui_fmap u))"
    using u I(2) by (auto split: if_splits)
  have "v = pk_a p \<or> pk_id p \<in> mapped_ids h"
    using v I(6) by blast
  then show ?thesis
    by (intro inner_invI) (use I(1-6) keep in \<open>auto simp: ids ans split: if_splits dest: I(7,8,9)\<close>)
qed

lemma inner_inv_done:
  assumes inv: "inner_inv u h"
  shows "inner_inv (u\<lparr>ui_done := (ui_done u)\<lparr>m_inner := bt_remove i (m_inner (ui_done u)), m_condition := c\<rparr>\<rparr>) h"
  by (rule inner_invI) (use inner_invD(1-6)[OF inv] in \<open>auto split: if_splits dest: inner_invD(7,8,9)[OF inv]\<close>)

lemma inner_inv_returned:
  assumes inv: "inner_inv u h" and v: "bt_get (m_inner (ui_done u)) i = Some v"
  shows "inner_inv (u\<lparr>ui_done := (ui_done u)\<lparr>m_inner := bt_remove i (m_inner (ui_done u))\<rparr>\<rparr>)
    (h\<lparr>uh_returned := uh_returned h @ [(i, demux v)]\<rparr>)"
proof -
  let ?h = "h\<lparr>uh_returned := uh_returned h @ [(i, demux v)]\<rparr>"
  note I = inner_invD[OF inv]
  have same: "mapped_ids ?h = mapped_ids h" "answered ?h = answered h"
    by (simp_all add: mapped_ids_def answered_def fun_eq_iff)
  show ?thesis
    by (rule inner_invI) (use I(1-6) I(8)[OF v] in \<open>auto simp: same split: if_splits dest: I(7,8,9)\<close>)
qed

lemma user_inv_step:
  assumes "user_step sid h h'" "user_inv sid h"
  shows "user_inv sid h'"
  using assms(1)
proof cases
  case (step_call a b c d i w' ctx)
  from step_call(2) obtain ctx' where ctx: "get_context (ew_contexts (uh_world h)) (ew_current (uh_world h)) = Some ctx'"
    "i = ui_next_id (uw_inner (uh_world h) sid)"
    and u: "uw_inner w' sid = (uw_inner (uh_world h) sid)\<lparr>ui_next_id := i + 1, ui_todo :=
      \<lparr>q_inner = q_inner (ui_todo (uw_inner (uh_world h) sid)) @ [caller_packet ctx' i a b c d], q_condition = []\<rparr>\<rparr>"
    by (rule call_spec)
  then show ?thesis
    using inner_inv_sent[OF assms(2), of "caller_packet ctx i a b c d" "ui_fmap (uw_inner (uh_world h) sid)"]
      inner_invD(2)[OF assms(2)] step_call(3) by (simp add: step_call(1) u caller_packet_def)
next
  case (step_fmap fl offset sz p w' ctx)
  from step_fmap(2) obtain ctx' i where ctx: "get_context (ew_contexts (uh_world h)) (ew_current (uh_world h)) = Some ctx'"
    "i = ui_next_id (uw_inner (uh_world h) sid)" "p = \<lparr>pd_scheme = sid, pd_id = i, pd_address = 0\<rparr>"
    and u: "uw_inner w' sid = (uw_inner (uh_world h) sid)\<lparr>ui_next_id := i + 1,
      ui_fmap := bt_insert i (ew_current (uh_world h), sz) (ui_fmap (uw_inner (uh_world h) sid)), ui_todo :=
      \<lparr>q_inner = q_inner (ui_todo (uw_inner (uh_world h) sid)) @ [caller_packet ctx' i SYS_FMAP fl offset sz], q_condition = []\<rparr>\<rparr>"
    by (rule user_fmap_spec)
  then show ?thesis
    using inner_inv_sent[OF assms(2), of "caller_packet ctx i SYS_FMAP fl offset sz"
        "bt_insert i (ew_current (uh_world h), sz) (ui_fmap (uw_inner (uh_world h) sid))"]
      inner_invD(2)[OF assms(2)] step_fmap(3) by (simp add: step_fmap(1) u caller_packet_def subset_insertI2)
next
  case (step_read buf n buf' w')
  from step_read(2,3) obtain q where "uw_inner w' sid = (uw_inner (uh_world h) sid)\<lparr>ui_todo := q\<rparr>"
    "take (unat n div size_of_packet) (packet_slots buf') @ q_inner q = q_inner (ui_todo (uw_inner (uh_world h) sid))"
    by (elim inner_read_Returned) auto
  then show ?thesis
    using inner_inv_read[OF assms(2)] by (simp add: step_read(1))
next
  case (step_read_sleep buf w')
  then show ?thesis
    using inner_read_Waits[OF step_read_sleep(2)] inner_inv_read[OF assms(2), of "[]"] by fastforce
next
  case (step_answer p w' v w1)
  then have "answer sid p (uh_world h) = Some (Return w')"
    by (simp add: write_packet_def)
  then obtain c where "uw_inner w' sid = (uw_inner w1 sid)\<lparr>ui_done :=
      \<lparr>m_inner = bt_insert (pk_id p) v (m_inner (ui_done (uw_inner w1 sid))), m_condition = c\<rparr>\<rparr>"
    using step_answer(4) by (elim answer_spec) simp
  then show ?thesis
    using inner_inv_answer[OF assms(2) answer_value_frame(2,1)[OF step_answer(4)]] by (simp add: step_answer(1))
next
  case (step_message p w')
  then show ?thesis
    using assms(2) by (auto simp: write_packet_def split: if_splits)
next
  case (step_finish p r w')
  then show ?thesis
    using assms(2) by (auto elim!: finish_call_Returned intro: inner_inv_returned)
next
  case (step_finish_sleep p w')
  then show ?thesis
    using finish_call_Waits(1)[OF step_finish_sleep(2,3)] assms(2) by (auto intro: inner_inv_done)
next
  case (step_other w')
  then show ?thesis
    using assms(2) by simp
qed

lemma user_inv_reachable: "(user_step sid)\<^sup>*\<^sup>* h h' \<Longrightarrow> user_inv sid h \<Longrightarrow> user_inv sid h'"
  by (induction rule: rtranclp_induct) (auto intro: user_inv_step)

text \<open>Identifiers that are counted from 1 are distinct and not 0 while the counter has not wrapped around.\<close>

lemma counted_ids:
  assumes "map pk_id ps = map (\<lambda>n. of_nat (Suc n)) [0..<length ps]" "length ps < 2 ^ 64 - 1"
  shows "distinct (map pk_id ps) \<and> 0 \<notin> pk_id ` set ps"
proof -
  have u: "unat (of_nat (Suc n) :: u64) = Suc n" if "n < length ps" for n
    using that assms(2) by (intro unat_of_nat_small) simp
  have "inj_on (\<lambda>n. of_nat (Suc n) :: u64) {0..<length ps}"
    by (rule inj_onI) (metis atLeastLessThan_iff nat.inject u)
  moreover have "of_nat (Suc n) \<noteq> (0 :: u64)" if "n < length ps" for n
    using u[OF that] by (metis nat.distinct(1) unsigned_0)
  ultimately show ?thesis
    unfolding image_set assms(1) by (auto simp: distinct_map simp del: of_nat_Suc)
qed

section \<open>Properties\<close>


text \<open>A scheme with the identifier 1 just after its registration, and one runnable context.\<close>

definition one_user_scheme :: user_world where
  "one_user_scheme =
     \<lparr>ew_registry = bt_empty, ew_queues = (\<lambda>_. new_queue), ew_contexts = one_runnable, ew_current = 1,
      uw_schemes = one_namespace, uw_inner = (\<lambda>_. (user_inner_new 0 0 0 1)\<lparr>ui_scheme_id := 1\<rparr>),
      uw_roots = (\<lambda>k. if k = 0 then \<lparr>next_id = 1, handles = [(0, 1)]\<rparr> else new_table 0), uw_grants = (\<lambda>_. []), uw_page_table = (\<lambda>_. 0x2000),
      uw_pages = small_tables\<rparr>"


section \<open>A server that is gone\<close>

text \<open>What clients and servers of all schemes may do: the operations of the root schemes, calls and turns of waiting.\<close>

inductive activity :: "user_world \<Rightarrow> user_world \<Rightarrow> bool" where
  act_open: "root_open ns rid path flags uid gid w = Some (Return (r, w')) \<Longrightarrow> activity w w'"
| act_dup: "root_dup rid j buf w = Some (Return (r, w')) \<Longrightarrow> activity w w'"
| act_close: "root_close rid j w = Some (Return (r, w')) \<Longrightarrow> activity w w'"
| act_read: "root_read rid j buf w = (x, w') \<Longrightarrow> activity w w'"
| act_write: "root_write rid j buf w = Some (Return (r, w')) \<Longrightarrow> activity w w'"
| act_call: "begin_call s address a b c d w = Some (Return (p, w')) \<Longrightarrow> activity w w'"
| act_fmap: "user_fmap s fl offset sz w = Some (Return (p, w')) \<Longrightarrow> activity w w'"
| act_turn: "finish_call p w = Some (x, w') \<Longrightarrow> activity w w'"

text \<open>No handle refers to the scheme, and the call \<open>i\<close> has no answer.\<close>

definition orphaned :: "usize \<Rightarrow> u64 \<Rightarrow> user_world \<Rightarrow> bool" where
  "orphaned sid i w \<longleftrightarrow>
     (\<forall>rid. sid \<notin> snd ` set (handles (uw_roots w rid))) \<and> get_scheme (uw_schemes w) sid \<noteq> None \<and>
     bt_wf (m_inner (ui_done (uw_inner w sid))) \<and> bt_get (m_inner (ui_done (uw_inner w sid))) i = None"

lemma bt_get_in_set: "bt_get m k = Some v \<Longrightarrow> v \<in> snd ` set m"
  by (induction m) (auto split: if_splits)

lemma set_bt_insert_subset: "snd ` set (bt_insert k v m) \<subseteq> insert v (snd ` set m)"
  by (induction m) auto

lemma set_bt_remove_subset: "snd ` set (bt_remove k m) \<subseteq> snd ` set m"
  by (induction m) auto

lemma no_handle:
  "sid \<notin> snd ` set m \<Longrightarrow> v \<noteq> sid \<Longrightarrow> sid \<notin> snd ` set (bt_insert k v m)"
  "sid \<notin> snd ` set m \<Longrightarrow> sid \<notin> snd ` set (bt_remove k m)"
  using set_bt_insert_subset[of k v m] set_bt_remove_subset[of k m] by blast+

lemma orphaned_same:
  assumes "orphaned sid i w" "same_registry w w'" "ui_done (uw_inner w' sid) = ui_done (uw_inner w sid)"
  shows "orphaned sid i w'"
  using assms by (simp add: orphaned_def same_registry_def)

lemma handle_not_orphaned: "orphaned sid i w \<Longrightarrow> get_handle (uw_roots w rid) j e = Ok s \<Longrightarrow> s \<noteq> sid"
  using bt_get_in_set[of "handles (uw_roots w rid)" j] by (auto simp: orphaned_def get_handle_def result_simps)

lemma write_packet_frame:
  assumes "write_packet s p w = Some (Return w')" "sid \<noteq> s"
  shows "same_registry w w' \<and> uw_inner w' sid = uw_inner w sid"
proof (cases "pk_id p = 0")
  case True
  then show ?thesis
    using assms(1) by (auto simp: write_packet_def same_registry_def)
next
  case False
  then obtain v w1 done' l where v: "answer_value s p w = Some (Return (v, w1))"
    and w': "w' = set_inner s ((uw_inner w1 s)\<lparr>ui_done := done'\<rparr>) (w1\<lparr>ew_contexts := l\<rparr>)"
    using assms(1) by (auto simp: write_packet_def answer_def then_do_Return map_send_def notify_def Let_def)
  have "same_registry w w1 \<and> uw_inner w1 sid = uw_inner w sid"
    using v assms(2) by (auto simp: answer_value_def then_do_Return same_registry_def Let_def
        dest!: capture_inner_frame split: option.splits result.splits)
  then show ?thesis
    using assms(2) by (simp add: w' same_registry_def)
qed

lemma write_packets_frame:
  "write_packets s ps w = Some (Return w') \<Longrightarrow> sid \<noteq> s \<Longrightarrow> same_registry w w' \<and> uw_inner w' sid = uw_inner w sid"
proof (induction ps arbitrary: w)
  case (Cons p ps)
  then show ?case
    using write_packet_frame[of s p w _ sid] by (fastforce simp: then_do_Return same_registry_def)
qed (simp add: same_registry_def)

lemma call_frame:
  "call s a b c d w = (r, w') \<Longrightarrow> same_registry w w' \<and> ui_done (uw_inner w' sid) = ui_done (uw_inner w sid)"
  by (auto simp: call_def next_packet_id_def call_inner_def same_registry_def Let_def split: option.splits prod.splits)

text \<open>A registration gives a handle to a scheme that was not registered before.\<close>

lemma root_open_frame:
  assumes "root_open ns rid path flags uid gid w = Some (Return (r, w'))" "get_scheme (uw_schemes w) sid \<noteq> None"
  shows "get_scheme (uw_schemes w') sid \<noteq> None \<and> uw_inner w' sid = uw_inner w sid \<and>
    (sid \<in> snd ` set (handles (uw_roots w' k)) \<longrightarrow> sid \<in> snd ` set (handles (uw_roots w k)))"
proof (cases "uid = 0 \<and> get_context (ew_contexts w) (ew_current w) \<noteq> None")
  case True
  then obtain r1 l where ins: "insert_scheme ns path UserScheme (uw_schemes w) = Some (Return (r1, l))"
    using assms(1) by (auto simp: root_open_def then_do_Return Let_def)
  show ?thesis
  proof (cases r1)
    case (Ok i)
    then have "i \<noteq> sid" "get_scheme l sid = get_scheme (uw_schemes w) sid"
      using get_scheme_insert[of ns path UserScheme "uw_schemes w" i l] ins assms(2) by auto
    moreover have "handles (uw_roots w' k) = (if k = rid
        then bt_insert (next_id (uw_roots w rid)) i (handles (uw_roots w rid)) else handles (uw_roots w k))"
      "uw_schemes w' = l" "uw_inner w' sid = uw_inner w sid"
      using assms(1) True ins Ok \<open>i \<noteq> sid\<close> by (auto simp: root_open_def gives_def Let_def)
    ultimately show ?thesis
      using assms(2) no_handle(1)[of sid "handles (uw_roots w rid)" i] by auto
  next
    case (Err e)
    then have "sl_map l = sl_map (uw_schemes w)"
      using ins by (auto simp: insert_scheme_def split: option.splits if_splits)
    moreover have "handles (uw_roots w' k) = handles (uw_roots w k)" "uw_schemes w' = l" "uw_inner w' = uw_inner w"
      using assms(1) True ins Err by (auto simp: root_open_def gives_def Let_def)
    ultimately show ?thesis
      using assms(2) by (simp add: get_scheme_def)
  qed
qed (use assms in \<open>auto simp: root_open_def gives_def split: if_splits\<close>)

lemma orphaned_step:
  assumes "activity w w'" "orphaned sid i w"
  shows "orphaned sid i w'"
  using assms(1)
proof cases
  case (act_open ns rid path flags uid gid r)
  then show ?thesis
    using assms(2) root_open_frame[OF act_open, of sid] unfolding orphaned_def by metis
next
  case (act_dup rid j buf r)
  show ?thesis
  proof (cases "get_handle (uw_roots w rid) j EBADF")
    case (Ok s)
    then have "s \<noteq> sid"
      using assms(2) handle_not_orphaned by blast
    moreover have "w' = w\<lparr>uw_roots := (uw_roots w)(rid := snd (add_handle (uw_roots w rid) s))\<rparr>"
      using act_dup Ok by (simp add: root_dup_def gives_def split: prod.splits)
    ultimately show ?thesis
      using assms(2) by (simp add: orphaned_def add_handle_def no_handle)
  qed (use act_dup assms(2) in \<open>simp add: root_dup_def gives_def\<close>)
next
  case (act_close rid j r)
  then have "w' = w\<lparr>uw_roots := (uw_roots w)(rid := snd (close_handle (uw_roots w rid) j EBADF))\<rparr>"
    by (simp add: root_close_def gives_def split: prod.splits)
  then show ?thesis
    using assms(2) by (simp add: orphaned_def close_handle_def no_handle split: option.split)
next
  case (act_read rid j buf x)
  then have "same_registry w w' \<and> ui_done (uw_inner w' sid) = ui_done (uw_inner w sid)"
    by (auto simp: root_read_def inner_read_def same_registry_def Let_def split: result.splits prod.splits)
  then show ?thesis
    using assms(2) orphaned_same by blast
next
  case (act_write rid j buf r)
  then show ?thesis
  proof (cases "get_handle (uw_roots w rid) j EBADF")
    case (Ok s)
    then have "s \<noteq> sid"
      using assms(2) handle_not_orphaned by blast
    then show ?thesis
      using act_write Ok assms(2) write_packets_frame[of s "packet_slots buf" w w' sid]
      by (auto simp: root_write_def inner_write_def gives_def then_do_Return Let_def intro: orphaned_same)
  qed (use assms(2) in \<open>simp add: root_write_def gives_def\<close>)
next
  case (act_call s address a b c d p)
  then show ?thesis
  proof (cases "call s a b c d w")
    case (Pair r w1)
    then have "orphaned sid i w1"
      using assms(2) call_frame by (blast intro: orphaned_same)
    then show ?thesis
      using act_call Pair by (cases r) (auto simp: begin_call_def gives_def then_do_Return dest!: release_frame intro: orphaned_same)
  qed
next
  case (act_fmap s fl offset sz p)
  then show ?thesis
    using assms(2) by (auto simp: user_fmap_def upgraded_def gives_def next_packet_id_def call_inner_def same_registry_def Let_def
        intro: orphaned_same split: if_splits option.splits prod.splits)
next
  case (act_turn p x)
  let ?u = "uw_inner w (pd_scheme p)"
  let ?w = "\<lambda>d l. set_inner (pd_scheme p) (?u\<lparr>ui_done := d\<rparr>) (w\<lparr>ew_contexts := l\<rparr>)"
  have keep: "orphaned sid i (?w d l)" if "m_inner d = bt_remove (pd_id p) (m_inner (ui_done ?u))" for d l
    using assms(2) that by (auto simp: orphaned_def)
  obtain y d l where y: "map_receive (ew_current w) (pd_id p) (ui_done ?u) (ew_contexts w) = (y, d, l)"
    using prod_cases3 by blast
  then have d: "m_inner d = bt_remove (pd_id p) (m_inner (ui_done ?u))"
    by (auto simp: map_receive_def receive_nonblock_def sleep_on_map_def split: option.splits outcome.splits prod.splits)
  show ?thesis
  proof (cases y)
    case (Returned v)
    then show ?thesis
      using act_turn y keep[OF d, of l] by (auto simp: finish_call_def Let_def dest!: release_frame
          intro: orphaned_same split: option.splits outcome.splits)
  qed (use act_turn y keep[OF d, of l] in \<open>auto simp: finish_call_def Let_def\<close>)
qed

lemma orphaned_reachable: "activity\<^sup>*\<^sup>* w w' \<Longrightarrow> orphaned sid i w \<Longrightarrow> orphaned sid i w'"
  by (induction rule: rtranclp_induct) (auto intro: orphaned_step)




end
