(* ===== verification/Validation.thy ===== *)
theory Validation
  imports Paging Syscall_Dispatch
begin

text \<open>
  The check of user pointers (\<open>kernel/syscall/validate.rs\<close>): every page of the range has to be mapped with the
  required flags. The result decides whether a system call may touch the range; the dispatcher takes it as a
  parameter, which \<open>page_validator\<close> provides.
\<close>

section \<open>The check\<close>

partial_function (option) validate_pages :: "page_mem \<Rightarrow> u64 \<Rightarrow> page_iter \<Rightarrow> unit result outcome option" where
  "validate_pages pm flags it =
     (case page_next it of
        (None, _) \<Rightarrow> Some (Return (Ok ()))
      | (Some p, it') \<Rightarrow>
          (case translate_page_flags pm p of
             Panic \<Rightarrow> Some Panic
           | Return None \<Rightarrow> Some (Return (Err (Error EFAULT)))
           | Return (Some page_flags) \<Rightarrow>
               if has_flag page_flags flags then validate_pages pm flags it'
               else Some (Return (Err (Error EFAULT)))))"

definition validate :: "page_mem \<Rightarrow> usize \<Rightarrow> usize \<Rightarrow> u64 \<Rightarrow> unit result outcome option" where
  "validate pm address sz flags =
     validate_pages pm flags (page_range (page_containing address) (page_containing (address + sz - 1)))"

text \<open>The argument of the dispatcher: \<open>PRESENT\<close>, and \<open>WRITABLE\<close> for a slice that will be written.\<close>

definition page_validator :: "page_mem \<Rightarrow> validator" where
  "page_validator pm address sz mut =
     (case validate pm address sz (if mut then PRESENT OR WRITABLE else PRESENT) of
        Some (Return r) \<Rightarrow> r
      | _ \<Rightarrow> Err (Error EFAULT))"

section \<open>What it checks\<close>

definition flags_of_page :: "page_mem \<Rightarrow> page \<Rightarrow> u64 option" where
  "flags_of_page pm p =
     map_option (\<lambda>f. entry_flags (pg_tables pm f (p1_index p)))
       (descend pm (pg_cr3 pm) [p4_index p, p3_index p, p2_index p])"

definition page_ok :: "page_mem \<Rightarrow> u64 \<Rightarrow> page \<Rightarrow> bool" where
  "page_ok pm flags p \<longleftrightarrow> (case flags_of_page pm p of Some fl \<Rightarrow> has_flag fl flags | None \<Rightarrow> False)"

lemma translate_page_flags_eq:
  assumes "recursive pm"
  shows "translate_page_flags pm p = Return (flags_of_page pm p)"
  using entry_at_table(1)[OF assms, of "[p4_index p, p3_index p, p2_index p]"]
  by (auto simp: translate_page_flags_def find_p1_eq[OF assms] and_then_def flags_of_page_def
      simp del: table_addr.simps descend.simps split: option.splits)

lemma validate_pages_step:
  assumes "recursive pm"
  shows "validate_pages pm flags (page_range s e) =
    (if s \<le> e then
       if page_ok pm flags s then validate_pages pm flags (page_range (Page (page_number s + 1)) e)
       else Some (Return (Err (Error EFAULT)))
     else Some (Return (Ok ())))"
  by (subst validate_pages.simps)
    (auto simp: page_next_def page_range_def translate_page_flags_eq[OF assms] page_ok_def split: option.splits)

lemma validate_pages_spec:
  assumes rec: "recursive pm" and e: "unat (page_number e) < 2 ^ 52"
  shows "validate_pages pm flags (page_range s e) =
    Some (Return (if \<forall>p. s \<le> p \<and> p \<le> e \<longrightarrow> page_ok pm flags p then Ok () else Err (Error EFAULT)))"
proof (induction "unat (page_number e) + 1 - unat (page_number s)" arbitrary: s rule: less_induct)
  case less
  show ?case
  proof (cases "s \<le> e")
    case True
    let ?t = "Page (page_number s + 1)"
    have t: "unat (page_number ?t) = unat (page_number s) + 1"
      using True e unat_add_usize[of "page_number s" 1] by (simp add: page_order)
    have IH: "validate_pages pm flags (page_range ?t e) =
        Some (Return (if \<forall>p. ?t \<le> p \<and> p \<le> e \<longrightarrow> page_ok pm flags p then Ok () else Err (Error EFAULT)))"
      using True t by (intro less) (simp add: page_order)
    have "s \<le> p \<longleftrightarrow> p = s \<or> ?t \<le> p" for p
      unfolding page_order t by linarith
    then show ?thesis
      using True IH unfolding validate_pages_step[OF rec, of flags s e] by auto
  next
    case False
    then have "\<not> (s \<le> p \<and> p \<le> e)" for p
      by auto
    then show ?thesis
      using False unfolding validate_pages_step[OF rec, of flags s e] by auto
  qed
qed

lemma validate_eq:
  assumes "recursive pm"
  shows "validate pm a n flags = Some (Return
    (if \<forall>p. page_containing a \<le> p \<and> p \<le> page_containing (a + n - 1) \<longrightarrow> page_ok pm flags p
     then Ok () else Err (Error EFAULT)))"
proof -
  have "unat (a + n - 1) < 2 ^ 64"
    using unsigned_less[of "a + n - 1"] by simp
  then have "unat (page_number (page_containing (a + n - 1))) < 2 ^ 52"
    by (simp add: page_number_containing)
  then show ?thesis
    by (simp add: validate_def validate_pages_spec[OF assms])
qed

section \<open>Properties\<close>

text \<open>
  C30. \<open>validate\<close> always returns. For a range that does not wrap around it succeeds exactly if the page of
  every byte is mapped with the required flags. If the range wraps around to a lower page, it succeeds
  without looking at any page: the loop from the first to the last page is empty.
\<close>

theorem validate_checks_every_byte:
  assumes "recursive pm" "n \<noteq> 0"
  shows "(unat a + unat n \<le> 2 ^ 64 \<longrightarrow>
      validate pm a n flags = Some (Return
        (if \<forall>i < unat n. page_ok pm flags (page_containing (a + of_nat i)) then Ok () else Err (Error EFAULT)))) \<and>
    (page_containing (a + n - 1) < page_containing a \<longrightarrow> validate pm a n flags = Some (Return (Ok ())))"
proof (intro conjI impI)
  assume "unat a + unat n \<le> 2 ^ 64"
  then have "(\<forall>p. page_containing a \<le> p \<and> p \<le> page_containing (a + n - 1) \<longrightarrow> page_ok pm flags p) \<longleftrightarrow>
      (\<forall>i < unat n. page_ok pm flags (page_containing (a + of_nat i)))"
    using range_pages[OF assms(2), of a] by metis
  then show "validate pm a n flags = Some (Return
        (if \<forall>i < unat n. page_ok pm flags (page_containing (a + of_nat i)) then Ok () else Err (Error EFAULT)))"
    unfolding validate_eq[OF assms(1)] by simp
next
  assume "page_containing (a + n - 1) < page_containing a"
  then show "validate pm a n flags = Some (Return (Ok ()))"
    unfolding validate_eq[OF assms(1)] by auto
qed

theorem validate_checks_every_byte_witness:
  "validate small_tables 0x2000 (- 1) PRESENT = Some (Return (Ok ())) \<and>
   validate small_tables 0x2000 1 PRESENT = Some (Return (Err (Error EFAULT)))"
proof -
  have rec: "recursive small_tables"
    using small_tables_wf by (rule tables_wfD)
  have "page_containing (0x2000 + (- 1) - 1) < page_containing 0x2000"
    by (simp add: page_containing_def PAGE_SIZE_def less_page_def)
  moreover have "\<not> page_ok small_tables PRESENT (page_containing 0x2000)"
    by (simp add: page_ok_def flags_of_page_def page_containing_def PAGE_SIZE_def p4_index_def p3_index_def p2_index_def
        p1_index_def small_step) (simp add: small_tables_at_def has_flag_def entry_flags_def PRESENT_def)
  ultimately show ?thesis
    using validate_checks_every_byte[OF rec, of "- 1" "0x2000" PRESENT] validate_checks_every_byte[OF rec, of 1 "0x2000" PRESENT]
    by simp
qed

end
