(* ===== verification/Spec2Isabelle.thy ===== *)
theory Spec2Isabelle
  imports Clone Env_Scheme Futexes Redoxfs_Service Sys_Scheme Time User_Schemes Validation
begin

text \<open>
  A verification library for origel, a micro-kernel operating system (a fork of Redox). The kernel runs
  \<^emph>\<open>contexts\<close> (processes and threads) on several CPUs. A program enters it through the system call interrupt;
  nearly every call is about a \<^emph>\<open>scheme\<close>: a path \<open>name:rest\<close> names the scheme that serves it, in the namespace of
  the caller, and a file descriptor stands for a number that the scheme has given out. Schemes live in the kernel
  (\<open>initfs:\<close>, \<open>pipe:\<close>, \<open>event:\<close>, \<open>sys:\<close>, ...) or are served by programs, to which the kernel forwards the calls as
  packets. Below that are the scheduler, the wait queues on which contexts sleep, the page tables and the frames
  of physical memory.

  \<^bold>\<open>Conventions.\<close> \<open>usize\<close> and the other machine integers are words of their width, and arithmetic wraps around, as
  the kernel is built with \<open>--release\<close>. \<open>Result\<close> is \<open>result\<close>; a panic, an \<open>assert!\<close> or an \<open>unwrap\<close> on \<open>None\<close>
  is a value of \<open>outcome\<close>; an operation that may put its caller to sleep is one turn of its loop and gives an
  \<open>attempt\<close>: it returned, it waits, or it crashed. A loop of which the code does not guarantee the end is a
  \<open>partial_function (option)\<close>, where \<open>None\<close> is running for ever, or has its termination proved; no fuel is used. A
  \<open>BTreeMap\<close> is a sorted association list. An object behind an \<open>Arc\<close> that several owners share is in a store,
  and the owners hold references. A lock that is held during one step of the code makes the step atomic.

  \<^bold>\<open>Theories and sources.\<close> All paths are below \<open>src/\<close>.
  \<^item> \<open>Prelude\<close>, \<open>BTree_Maps\<close> (with the interface \<open>ordered_map\<close>), \<open>Id_Allocation\<close>: shared types, maps, and the search for
    an unused identifier.
  \<^item> \<open>ABI_Constants\<close>, \<open>Syscall_ABI\<close>, \<open>Byte_Encoding\<close>: the crate \<open>syscall\<close>, that is error numbers, flags, call
    numbers, \<open>Error::mux\<close> and \<open>demux\<close>, and the structures that are passed by address.
  \<^item> \<open>Contexts\<close> (\<open>kernel/context/context.rs\<close>, \<open>list.rs\<close>, \<open>file.rs\<close>): the context record, paths, descriptor table, context list.
  \<^item> \<open>Scheduler\<close> (\<open>kernel/context/switch.rs\<close>), \<open>Wait_Queues\<close> (\<open>kernel/sync\<close>), \<open>Futexes\<close>, \<open>Time\<close>, \<open>Privilege\<close>
    (the calls of these names in \<open>kernel/syscall\<close>).
  \<^item> \<open>Scheme_Trait\<close> (\<open>syscall/src/scheme.rs\<close>), \<open>Scheme_List\<close> (\<open>kernel/scheme/mod.rs\<close>), and the schemes of
    \<open>kernel/scheme\<close>: \<open>Memory_Files\<close> with \<open>Initfs_Scheme\<close> and \<open>Live_Disk\<close>, \<open>Env_Scheme\<close>, \<open>Sys_Scheme\<close>, \<open>Pipes\<close>, \<open>Events\<close>
    (also \<open>irq:\<close> and \<open>debug:\<close>), \<open>User_Schemes\<close> (\<open>user.rs\<close>, \<open>root.rs\<close>).
  \<^item> \<open>Syscall_Dispatch\<close> (the wrappers of \<open>syscall/src/call.rs\<close>, the registers, the dispatcher of
    \<open>kernel/syscall/mod.rs\<close>) and \<open>File_Calls\<close> (\<open>kernel/syscall/fs.rs\<close>).
  \<^item> \<open>Frames\<close> (\<open>arch/x86_64/src/memory\<close>), \<open>Paging\<close> (\<open>arch/x86_64/src/paging\<close>), \<open>Validation\<close>
    (\<open>kernel/syscall/validate.rs\<close>), \<open>Memory_Regions\<close> (\<open>kernel/context/memory.rs\<close>), \<open>Driver\<close> (\<open>kernel/syscall/driver.rs\<close>).
  \<^item> \<open>Redoxfs_Structures\<close>, \<open>Redoxfs_Disk\<close>, \<open>Redoxfs\<close>: the file system \<open>schemes/redoxfs\<close>, that is the disk format, the
    trait \<open>Disk\<close> with \<open>Image\<close>, and every function of \<open>filesystem.rs\<close>. \<open>Redoxfs_Layout\<close>, \<open>Redoxfs_Files\<close>, \<open>Redoxfs_Transfer\<close>
    and \<open>Redoxfs_Contents\<close> hold the invariant on the sectors of a file and the lemmas on each operation, proved for
    every disk that keeps the laws of the locale \<open>sector_disk\<close>; an image on the live disk does. \<open>Redoxfs_Directories\<close> and
    \<open>Redoxfs_Removal\<close> do the same for directories, seen as maps from names to nodes. \<open>Redoxfs_Scheme\<close> is the scheme \<open>file:\<close>
    (\<open>scheme/resource.rs\<close>, \<open>scheme.rs\<close>), and \<open>Redoxfs_Service\<close> holds what it promises to its clients.
  \<^item> \<open>Process_Calls\<close>, \<open>Exec\<close> and \<open>Clone\<close> (\<open>kernel/syscall/process.rs\<close>, \<open>kernel/elf.rs\<close>): \<open>brk\<close>, \<open>exit\<close>, \<open>getpid\<close>,
    \<open>kill\<close>, \<open>waitpid\<close>, \<open>exec\<close> and \<open>clone\<close>, over the contexts, the schemes and the memory regions.


  \<^bold>\<open>What is shown.\<close> Each theory ends with its properties.
  \<^item> The ABI: results survive their encoding exactly outside a window of values near \<open>-1\<close>; structures survive a
    round trip through bytes; a user-level wrapper reaches the handler of the kernel with its own arguments.
  \<^item> Contexts and scheduling: fresh identifiers, lowest free descriptor, relative paths stay in their scheme, a
    switch is round robin and never runs one context on two CPUs; waiting neither loses nor duplicates
    values and wakes every sleeper.
  \<^item> Schemes: new schemes and namespaces are fresh and isolated; files in memory and on the live disk are read as
    they were written; a pipe delivers the bytes of its writers in order; events and interrupts are not lost;
    the calls of clients of a user scheme are answered one to one.
  \<^item> Memory: the frame allocator gives out each usable frame once; the page tables refine a map from pages to
    frames, and the kernel's walk agrees with that of the hardware; validation of a pointer checks every page;
    mapping, unmapping and resizing regions changes exactly their pages.
  \<^item> Processes: \<open>exit\<close> unmaps exactly the private memory, hands over the children, and its status reaches the
    parent's \<open>waitpid\<close>; \<open>exec\<close> keeps the identity of the process, asks for execute permission, and makes no
    region both writable and executable; \<open>clone\<close> shares with the parent exactly what the flags say.
  \<^item> RedoxFS: the structures fill a sector and survive a round trip; writing and reading a file keeps its sectors
    distinct, and what was written is read back; creating and removing a node refines the update of a map; opening
    checks permissions, and a file that was created is found again.
  \<^item> Composition: a file of \<open>initfs:\<close> opened, read and closed through the system calls (in this theory).

  Some properties state defects of the code, which are proved as they are: waits that never end, an event that
  survives its descriptor, a range that is accepted without a check, a range of frames that includes the kernel.

  \<^bold>\<open>Not modelled.\<close> Assembly (the register part of a context switch, interrupt entry, \<open>usermode\<close>), the boot sequence
  and the hardware drivers of the kernel (\<open>arch/x86_64/src/device\<close>, \<open>acpi\<close>, \<open>gdt.rs\<close>, \<open>idt.rs\<close>), which are effects on
  devices; the translation look-aside buffer; the contents of pages, except for the buffers that calls pass by
  address; reference counts other than those the code reads. The rest of the user-space part of the repository
  (\<open>drivers\<close>, the other \<open>schemes\<close>, \<open>programs\<close>) is reached only through the scheme protocol. The ports for \<open>arm\<close> and for tests are
  stubs.
\<close>

section \<open>A file of initfs through the system calls\<close>

lemma splitn_colon_scheme: "colon \<notin> set n \<Longrightarrow> splitn_colon (n @ colon # p) = (n, Some p)"
proof -
  assume n: "colon \<notin> set n"
  have "position (\<lambda>b. b = colon) (n @ colon # p) = Some (length n)"
    using n by (induction n) auto
  then show ?thesis
    by (simp add: splitn_colon_def)
qed

lemma resolve_absolute:
  assumes "current_context w = Some c" "colon \<notin> set n" "get_name (fw_schemes w) (ens c) n = Return (Some (sid, s))"
  shows "resolve (n @ colon # p) w = Return (Ok (sid, s, p, euid c, egid c))"
proof -
  have "position (\<lambda>b. b = colon) (n @ colon # p) \<noteq> None"
    by (simp add: position_None_iff)
  then have "canonicalize cwd (n @ colon # p) = Return (n @ colon # p)" for cwd
    by (auto simp: canonicalize_def)
  then show ?thesis
    using assms by (simp add: resolve_def splitn_colon_scheme)
qed

lemma handle_read:
  assumes "op_read ops b (slice_at M c (unat d)) s = (Returned (r, buf), s')"
  shows "handle ops \<lparr>pk_id = i, pk_pid = pid, pk_uid = uid, pk_gid = gid, pk_a = SYS_READ, pk_b = b, pk_c = c, pk_d = d\<rparr> (s, M) =
    (Returned \<lparr>pk_id = i, pk_pid = pid, pk_uid = uid, pk_gid = gid, pk_a = mux r, pk_b = b, pk_c = c, pk_d = d\<rparr>, (s', store_at M c buf))"
  using assms by (simp add: handle_def handle_call_def with_out_def plain_def)

lemma give_file_free:
  assumes "current_context w = Some c" "files_wf (fw_files w (files_ref c))" "j < CONTEXT_MAX_FILES"
    "get_file (fw_files w (files_ref c)) (of_nat j) = None"
  obtains fd files where "give_file f w = (Returned (Ok fd), set_files (files_ref c) files w)"
    "add_file (fw_files w (files_ref c)) f = (files, Some fd)"
proof -
  obtain files r where add: "add_file (fw_files w (files_ref c)) f = (files, r)"
    by fastforce
  have "r \<noteq> None"
    using add_file_spec[OF assms(2) add] assms(3,4) by (cases r) auto
  then show thesis
    using that assms(1) add by (auto simp: give_file_def)
qed


text \<open>The open handles of \<open>initfs:\<close> in the state of the kernel.\<close>

definition initfs_table :: "kernel_state fs_world \<Rightarrow> mem_table" where
  "initfs_table w = in_table (ks_initfs (fw_state w))"

definition put_table :: "mem_table \<Rightarrow> kernel_state fs_world \<Rightarrow> kernel_state fs_world" where
  "put_table t w = w\<lparr>fw_state := (fw_state w)\<lparr>ks_initfs := (ks_initfs (fw_state w))\<lparr>in_table := t\<rparr>\<rparr>\<rparr>"

lemma put_table_simps [simp]:
  "current_context (put_table t w) = current_context w" "fw_files (put_table t w) = fw_files w" "fw_schemes (put_table t w) = fw_schemes w"
  "initfs_table (put_table t w) = t" "put_table t (put_table t' w) = put_table t w"
  by (simp_all add: put_table_def initfs_table_def current_context_def)

lemma set_files_simps [simp]:
  "current_context (set_files r fs w) = current_context w" "fw_files (set_files r fs w) = (fw_files w)(r := fs)"
  "fw_schemes (set_files r fs w) = fw_schemes w" "initfs_table (set_files r fs w) = initfs_table w"
  by (simp_all add: set_files_def initfs_table_def current_context_def)

lemma initfs_impl:
  assumes "bt_get (handles (initfs_table w)) i = Some h"
  shows "h_seek h = 0 \<Longrightarrow> k = min (length buf) (length (h_data h)) \<Longrightarrow>
      op_read (memory_impl InitFsScheme) i buf w = (Returned (Ok (of_nat k), take k (h_data h) @ drop k buf),
        put_table (set_handle (initfs_table w) i (h\<lparr>h_seek := of_nat k\<rparr>)) w)"
    "op_close (memory_impl InitFsScheme) i w = (Returned (Ok 0), put_table (snd (close_handle (initfs_table w) i EBADF)) w)"
  using assms by (simp_all add: memory_impl_def lift_ops_def lift_op_def initfs_read_def initfs_close_def mh_read_def
      get_handle_def read_at_eq close_handle_def put_table_def initfs_table_def Let_def)

lemma initfs_open_call:
  assumes "current_context w = Some c" "get_name (fw_schemes w) (ens c) (bytes_of ''initfs'') = Return (Some (sid, InitFsScheme))"
    and "valid_utf8 p" "bt_get (in_files (ks_initfs (fw_state w))) (trim_slashes p) = Some (data, dir)"
    and "files_wf (fw_files w (files_ref c))" "j < CONTEXT_MAX_FILES" "get_file (fw_files w (files_ref c)) (of_nat j) = None"
  obtains fd files i h t where "open_call memory_impl (bytes_of ''initfs'' @ colon # p) flags w =
      (Returned (Ok fd), set_files (files_ref c) files (put_table t w))"
    "add_file (fw_files w (files_ref c)) \<lparr>f_scheme = sid, f_number = i, f_event = None\<rparr> = (files, Some fd)"
    "add_handle (initfs_table w) h = (i, t)" "h_data h = data" "h_seek h = 0"
proof -
  define h where "h = \<lparr>h_path = trim_slashes p, h_data = data,
      h_mode = (if dir then MODE_DIR OR 493 else MODE_FILE OR 484), h_seek = 0\<rparr>"
  obtain i t where add: "add_handle (initfs_table w) h = (i, t)"
    by fastforce
  have op: "op_open (memory_impl InitFsScheme) p flags u g w = (Returned (Ok i), put_table t w)" for u g
    using assms(3,4) add
    by (simp add: memory_impl_def lift_ops_def lift_op_def initfs_open_def h_def put_table_def initfs_table_def)
  obtain fd files where give: "give_file \<lparr>f_scheme = sid, f_number = i, f_event = None\<rparr> (put_table t w) =
      (Returned (Ok fd), set_files (files_ref c) files (put_table t w))"
    and files: "add_file (fw_files w (files_ref c)) \<lparr>f_scheme = sid, f_number = i, f_event = None\<rparr> = (files, Some fd)"
    using give_file_free[of "put_table t w" c j] assms(1,5-7) by auto
  have "colon \<notin> set (bytes_of ''initfs'')"
    by (simp add: bytes_of_def)
  then have "open_call memory_impl (bytes_of ''initfs'' @ colon # p) flags w = (Returned (Ok fd), set_files (files_ref c) files (put_table t w))"
    using resolve_absolute[OF assms(1) _ assms(2)] op give by (simp add: open_call_def of_outcome_def then_attempt_def)
  then show thesis
    using that files add by (simp add: h_def)
qed

lemma initfs_read_call:
  assumes "fd_target fd w = Ok (f, InitFsScheme, c)" "bt_get (handles (initfs_table w)) (f_number f) = Some h" "h_seek h = 0"
    and "length (h_data h) \<le> 2 ^ 32 - 132" "k = min (unat n) (length (h_data h))"
  shows "file_op memory_impl SYS_READ fd ptr n (w, M) = (Returned (Ok (of_nat k)),
    (put_table (set_handle (initfs_table w) (f_number f) (h\<lparr>h_seek := of_nat k\<rparr>)) w,
     store_at M ptr (take k (h_data h) @ drop k (slice_at M ptr (unat n)))))"
proof -
  have "unat (of_nat k :: usize) = k"
    using assms(4,5) by (intro unat_of_nat_small) simp
  then have "demux (mux (Ok (of_nat k))) = Ok (of_nat k)"
    using assms(4,5) by (simp add: demux_mux_iff error_window_def)
  then show ?thesis
    using handle_read[OF initfs_impl(1)[OF assms(2,3), of k "slice_at M ptr (unat n)"]] assms(1,5)
    by (simp add: file_op_def file_packet_def then_attempt_def)
qed

lemma initfs_close_call:
  assumes "current_context w = Some c" "get_file (fw_files w (files_ref c)) fd = Some f" "f_event f = None"
    "get_scheme (fw_schemes w) (f_scheme f) = Some InitFsScheme" "bt_get (handles (initfs_table w)) (f_number f) = Some h"
  shows "close memory_impl fd w = (Returned (Ok 0), put_table (snd (close_handle (initfs_table w) (f_number f) EBADF))
    (set_files (files_ref c) (fst (remove_file (fw_files w (files_ref c)) fd)) w))"
proof -
  have "unat fd < length (fw_files w (files_ref c))" "fw_files w (files_ref c) ! unat fd = Some f"
    using assms(2) by (auto simp: get_file_def split: if_splits)
  then show ?thesis
    using assms initfs_impl(2)[of "set_files (files_ref c) ((fw_files w (files_ref c))[unat fd := None]) w" "f_number f" h]
    by (simp add: close_def remove_file_def)
qed

text \<open>Opening, moving and closing a handle leaves the other handles.\<close>

lemma opened_and_closed:
  assumes "table_wf t" "add_handle t h = (i, t1)"
  shows "mem_contents (snd (close_handle (set_handle t1 i h') i e)) = mem_contents t"
proof -
  have "bt_get (handles t) i = None" "handles t1 = bt_insert i h (handles t)"
    using add_handle_fresh[OF assms(1), of h] assms(2) by (auto simp: add_handle_def)
  then show ?thesis
    using assms(1) by (auto simp: close_handle_def set_handle_def mem_contents_def table_wf_def fun_eq_iff)
qed

section \<open>Properties\<close>

text \<open>
  C1. A file that is linked into the kernel can be read through the system calls. For a context whose
  namespace has \<open>initfs:\<close> and that has a free descriptor, \<open>open\<close> of a path of the table returns a descriptor;
  \<open>read\<close> on it, which goes through the descriptor table, the scheme list, the packet, \<open>Scheme::handle\<close>
  and the encoding of results, returns the number of bytes and puts exactly the beginning of the file into the
  caller's buffer and nothing anywhere else; and after \<open>close\<close> the descriptor table and the open handles of
  the scheme are as before.
\<close>

theorem initfs_file_through_calls:
  assumes "current_context w = Some c" "get_name (fw_schemes w) (ens c) (bytes_of ''initfs'') = Return (Some (sid, InitFsScheme))"
    and "initfs_wf (ks_initfs (fw_state w))" "valid_utf8 p" "bt_get (in_files (ks_initfs (fw_state w))) (trim_slashes p) = Some (data, dir)"
    and "length data \<le> 2 ^ 32 - 132"
    and "files_wf (fw_files w (files_ref c))" "j < CONTEXT_MAX_FILES" "get_file (fw_files w (files_ref c)) (of_nat j) = None"
  shows "\<exists>fd w1 w2 M' w3. open_call memory_impl (bytes_of ''initfs'' @ colon # p) flags w = (Returned (Ok fd), w1) \<and>
    file_op memory_impl SYS_READ fd ptr n (w1, M) = (Returned (Ok (of_nat (min (unat n) (length data)))), (w2, M')) \<and>
    slice_at M' ptr (unat n) = take (unat n) data @ drop (length data) (slice_at M ptr (unat n)) \<and>
    (\<forall>q. (\<forall>k < unat n. q \<noteq> ptr + of_nat k) \<longrightarrow> M' q = M q) \<and>
    close memory_impl fd w2 = (Returned (Ok 0), w3) \<and>
    (\<forall>x. get_file (fw_files w3 (files_ref c)) x = get_file (fw_files w (files_ref c)) x) \<and>
    mem_contents (in_table (ks_initfs (fw_state w3))) = mem_contents (in_table (ks_initfs (fw_state w)))"
proof -
  define k where "k = min (unat n) (length data)"
  obtain fd files i h t where o: "open_call memory_impl (bytes_of ''initfs'' @ colon # p) flags w =
      (Returned (Ok fd), set_files (files_ref c) files (put_table t w))"
    and files: "add_file (fw_files w (files_ref c)) \<lparr>f_scheme = sid, f_number = i, f_event = None\<rparr> = (files, Some fd)"
    and add: "add_handle (initfs_table w) h = (i, t)" and h: "h_data h = data" "h_seek h = 0"
    by (rule initfs_open_call[OF assms(1,2,4,5,7,8,9)])
  note F = add_file_spec[OF assms(7) files, simplified]
  let ?w1 = "set_files (files_ref c) files (put_table t w)"
  let ?t2 = "set_handle t i (h\<lparr>h_seek := of_nat k\<rparr>)" and ?buf = "take k data @ drop k (slice_at M ptr (unat n))"
  let ?w2 = "put_table ?t2 ?w1"
  have handle: "bt_get (handles t) i = Some h" "bt_get (handles ?t2) i = Some (h\<lparr>h_seek := of_nat k\<rparr>)"
    using add by (auto simp: add_handle_def set_handle_def)
  have scheme: "get_scheme (fw_schemes w) sid = Some InitFsScheme"
    using assms(2) by (auto simp: get_name_def split: option.splits)
  have entry: "get_file files fd = Some \<lparr>f_scheme = sid, f_number = i, f_event = None\<rparr>"
    using F by simp
  have "fd_target fd ?w1 = Ok (\<lparr>f_scheme = sid, f_number = i, f_event = None\<rparr>, InitFsScheme, c)"
    using assms(1) entry scheme by (simp add: fd_target_def)
  from initfs_read_call[OF this, of h k n ptr M] have 1: "file_op memory_impl SYS_READ fd ptr n (?w1, M) =
      (Returned (Ok (of_nat k)), (?w2, store_at M ptr ?buf))"
    using handle h assms(6) by (simp add: k_def)
  let ?w3 = "put_table (snd (close_handle ?t2 i EBADF)) (set_files (files_ref c) (fst (remove_file files fd)) ?w2)"
  have 2: "close memory_impl fd ?w2 = (Returned (Ok 0), ?w3)"
    using initfs_close_call[of ?w2 c fd "\<lparr>f_scheme = sid, f_number = i, f_event = None\<rparr>" "h\<lparr>h_seek := of_nat k\<rparr>"]
      assms(1) entry scheme handle(2) by simp
  have len: "length ?buf = unat n" "?buf = take (unat n) data @ drop (length data) (slice_at M ptr (unat n))"
    by (auto simp: k_def min_def)
  have 3: "slice_at (store_at M ptr ?buf) ptr (unat n) = take (unat n) data @ drop (length data) (slice_at M ptr (unat n))"
    using slice_store[of ?buf M ptr] len unsigned_less[of n, where ?'a = nat] by simp
  have 4: "\<forall>q. (\<forall>k < unat n. q \<noteq> ptr + of_nat k) \<longrightarrow> store_at M ptr ?buf q = M q"
    using store_at_other[of ?buf _ ptr M] len(1) by auto
  have "table_wf (initfs_table w)"
    using assms(3) by (simp add: initfs_wf_def initfs_table_def)
  then have "mem_contents (initfs_table ?w3) = mem_contents (initfs_table w)"
    using opened_and_closed[OF _ add] by simp
  then have 5: "mem_contents (in_table (ks_initfs (fw_state ?w3))) = mem_contents (in_table (ks_initfs (fw_state w)))"
    by (simp only: initfs_table_def)
  have 6: "\<forall>x. get_file (fw_files ?w3 (files_ref c)) x = get_file (fw_files w (files_ref c)) x"
    using F by (simp add: get_remove_file)
  show ?thesis
    using o 1[unfolded k_def] 2 3 4 5 6 unfolding k_def by blast
qed


definition initfs_fs :: "kernel_state fs_world" where
  "initfs_fs = small_fs
     \<lparr>fw_schemes := \<lparr>sl_map = [(1, InitFsScheme)], sl_names = [(0, [(bytes_of ''initfs'', 1)])], sl_next_ns = 1, sl_next_id = 2\<rparr>,
      fw_state := (fw_state small_fs)\<lparr>ks_initfs := small_initfs\<rparr>\<rparr>"

theorem initfs_file_through_calls_witness:
  "\<exists>fd w1 w2 M' w3. open_call memory_impl (bytes_of ''initfs'' @ colon # bytes_of ''/etc/init'') 0 initfs_fs = (Returned (Ok fd), w1) \<and>
     file_op memory_impl SYS_READ fd 0x1000 2 (w1, \<lambda>_. 0) = (Returned (Ok 2), (w2, M')) \<and> slice_at M' 0x1000 2 = [1, 2] \<and>
     close memory_impl fd w2 = (Returned (Ok 0), w3)"
proof -
  let ?c = "(new_ctx 0 1)\<lparr>status := Runnable\<rparr>"
  have c: "current_context initfs_fs = Some ?c"
    using small_fs_context by (simp add: current_context_def initfs_fs_def)
  have n: "get_name (fw_schemes initfs_fs) (ens ?c) (bytes_of ''initfs'') = Return (Some (1, InitFsScheme))"
    by (simp add: get_name_def get_scheme_def initfs_fs_def new_ctx_def)
  have t: "ks_initfs (fw_state initfs_fs) = small_initfs"
    by (simp add: initfs_fs_def)
  have f: "files_wf (fw_files initfs_fs (files_ref ?c))" "0 < CONTEXT_MAX_FILES" "get_file (fw_files initfs_fs (files_ref ?c)) (of_nat 0) = None"
    by (simp_all add: files_wf_def CONTEXT_MAX_FILES_def initfs_fs_def small_fs_def get_file_def)
  show ?thesis
    using initfs_file_through_calls[OF c n, unfolded t, OF small_initfs_ok _ f, of 0 "0x1000" 2 "\<lambda>_. 0"] by simp blast
qed

end
